(* ===== verification/Prelude.thy ===== *)
theory Prelude
  imports Main "HOL-Library.Word"
begin

text \<open>
  What every component of the development shares:
  \<^item> the type synonyms of the code's machine integers and the little-endian byte image of a
    32-bit word (the code copies integers into buffers with \<open>memcpy\<close> and never converts
    their byte order);
  \<^item> \<open>fault\<close>, the ways an execution of the C++ code stops being defined, and the
    state-and-fault functions \<open>('s, 'a) sm\<close> in which every handler of the code is written;
  \<^item> the calculus for such functions: \<open>valid\<close> (pre- and postcondition), \<open>keeps\<close> (an
    invariant), \<open>runs\<close> (an invariant, and no fault), \<open>via\<close> (every effect is a sequence of
    given primitive steps). Their rules are collected in \<open>keeps_intros\<close>, \<open>runs_intros\<close> and
    \<open>via_intros\<close>, the collections the component proofs apply.
\<close>

unbundle bit_operations_syntax

named_theorems keeps_intros \<open>rules that prove an invariant of a state function\<close>
named_theorems runs_intros \<open>rules that prove a state function returns and keeps an invariant\<close>
named_theorems via_intros \<open>rules that prove a state function a sequence of primitive steps\<close>
named_theorems sm_simps \<open>evaluation of the state functions on a state\<close>

section \<open>Machine integers and bytes\<close>

type_synonym u8 = "8 word"
type_synonym u32 = "32 word"
type_synonym u64 = "64 word"
type_synonym ip = "32 word"

text \<open>A memory buffer: its bytes by offset.\<close>

type_synonym buffer = "nat \<Rightarrow> u8"

definition le32 :: "u32 \<Rightarrow> u8 list" where
  "le32 w = [ucast w, ucast (drop_bit 8 w), ucast (drop_bit 16 w), ucast (drop_bit 24 w)]"

definition read32 :: "buffer \<Rightarrow> nat \<Rightarrow> u32" where
  "read32 b i = ucast (b i) OR push_bit 8 (ucast (b (i + 1)))
     OR push_bit 16 (ucast (b (i + 2))) OR push_bit 24 (ucast (b (i + 3)))"

text \<open>A buffer after \<open>memcpy (buf, xs, n)\<close>, and the first bytes of a buffer as a list.\<close>

definition write_buf :: "u8 list \<Rightarrow> buffer \<Rightarrow> buffer" where
  "write_buf xs b = (\<lambda>i. if i < length xs then xs ! i else b i)"

definition read_buf :: "nat \<Rightarrow> buffer \<Rightarrow> u8 list" where
  "read_buf n b = map b [0..<n]"

lemma length_le32 [simp]: "length (le32 w) = 4"
  by (simp add: le32_def)

lemma bytes_join: "(ucast (ucast w :: u8) :: u32) OR push_bit 8 (ucast (ucast (drop_bit 8 w) :: u8))
     OR push_bit 16 (ucast (ucast (drop_bit 16 w) :: u8))
     OR push_bit 24 (ucast (ucast (drop_bit 24 w) :: u8)) = (w :: u32)"
proof (rule bit_word_eqI)
  fix n
  assume "n < LENGTH(32)"
  then have n: "n < 32" by simp
  consider "n < 8" | "8 \<le> n \<and> n < 16" | "16 \<le> n \<and> n < 24" | "24 \<le> n \<and> n < 32"
    using n by linarith
  then show "bit ((ucast (ucast w :: u8) :: u32) OR push_bit 8 (ucast (ucast (drop_bit 8 w) :: u8))
     OR push_bit 16 (ucast (ucast (drop_bit 16 w) :: u8))
     OR push_bit 24 (ucast (ucast (drop_bit 24 w) :: u8))) n = bit w n"
    by cases (auto simp: bit_simps)
qed

lemma read32_le32:
  assumes "b i = le32 w ! 0" "b (i + 1) = le32 w ! 1" "b (i + 2) = le32 w ! 2"
    "b (i + 3) = le32 w ! 3"
  shows "read32 b i = w"
  using bytes_join [of w] assms [unfolded add_2_eq_Suc' numeral_3_eq_3]
  by (simp add: read32_def le32_def numeral_2_eq_2 numeral_3_eq_3)

lemma le32_inject [simp]: "le32 v = le32 w \<longleftrightarrow> v = w"
proof
  assume eq: "le32 v = le32 w"
  have "read32 (\<lambda>i. le32 v ! i) 0 = v"
    by (rule read32_le32) (simp_all add: numeral_2_eq_2 numeral_3_eq_3)
  moreover have "read32 (\<lambda>i. le32 v ! i) 0 = w" by (rule read32_le32) (simp_all add: eq numeral_2_eq_2 numeral_3_eq_3)
  ultimately show "v = w" by simp
qed simp

lemma read_write_buf: "length xs = n \<Longrightarrow> read_buf n (write_buf xs b) = xs"
  by (intro nth_equalityI) (simp_all add: read_buf_def write_buf_def)

lemma length_read_buf [simp]: "length (read_buf n b) = n"
  by (simp add: read_buf_def)

text \<open>Reading a field behind a prefix of known length.\<close>

lemma read32_append: "length p = i \<Longrightarrow> read32 (write_buf (p @ le32 w @ r) b) i = w"
  by (rule read32_le32) (simp_all add: write_buf_def nth_append)

lemma map_write_buf_append:
  "length p = i \<Longrightarrow> length m = n \<Longrightarrow> map (write_buf (p @ m @ r) b) [i..<i + n] = m"
  by (rule nth_equalityI) (simp_all add: write_buf_def nth_append)

section \<open>Faults and state functions\<close>

text \<open>
  The ways a run of the code leaves what the language defines, or never comes back:
  \<open>NullDeref\<close>, an access through a null pointer; \<open>EndDeref\<close>, reading through the
  end iterator of a container; \<open>HeapOverflow need have\<close>, a write of \<open>need\<close> bytes into a
  block of \<open>have\<close> bytes; \<open>StackOverflow need have\<close>, the same for a local variable;
  \<open>OverRead\<close>, reading behind the end of a block; \<open>UseAfterFree\<close>, an access to memory that
  was freed; \<open>WildPointer\<close>, an access through a value that is not a pointer; \<open>Diverges\<close>,
  a loop that never ends; \<open>OutOfFuel\<close>, only of the model: a fuelled loop that used up its
  fuel.
\<close>

datatype fault = NullDeref | EndDeref | HeapOverflow nat nat | StackOverflow nat nat | OverRead
  | UseAfterFree | WildPointer | Diverges | OutOfFuel

type_synonym ('s, 'a) sm = "'s \<Rightarrow> fault + ('a \<times> 's)"

definition ret :: "'a \<Rightarrow> ('s, 'a) sm" where
  "ret x = (\<lambda>s. Inr (x, s))"

definition bnd :: "('s, 'a) sm \<Rightarrow> ('a \<Rightarrow> ('s, 'b) sm) \<Rightarrow> ('s, 'b) sm" where
  "bnd m f = (\<lambda>s. case m s of Inl e \<Rightarrow> Inl e | Inr (x, s') \<Rightarrow> f x s')"

definition andthen :: "('s, 'a) sm \<Rightarrow> ('s, 'b) sm \<Rightarrow> ('s, 'b) sm" where
  "andthen m n = bnd m (\<lambda>_. n)"

definition gets :: "('s \<Rightarrow> 'a) \<Rightarrow> ('s, 'a) sm" where
  "gets f = (\<lambda>s. Inr (f s, s))"

definition upd :: "('s \<Rightarrow> 's) \<Rightarrow> ('s, unit) sm" where
  "upd f = (\<lambda>s. Inr ((), f s))"

definition raise :: "fault \<Rightarrow> ('s, 'a) sm" where
  "raise e = (\<lambda>s. Inl e)"

definition whenM :: "bool \<Rightarrow> ('s, unit) sm \<Rightarrow> ('s, unit) sm" where
  "whenM b m = (if b then m else ret ())"

primrec forM :: "'a list \<Rightarrow> ('a \<Rightarrow> ('s, unit) sm) \<Rightarrow> ('s, unit) sm" where
  "forM [] f = ret ()"
| "forM (x # xs) f = andthen (f x) (forM xs f)"

primrec foldM :: "('b \<Rightarrow> 'a \<Rightarrow> ('s, 'b) sm) \<Rightarrow> 'b \<Rightarrow> 'a list \<Rightarrow> ('s, 'b) sm" where
  "foldM f b [] = ret b"
| "foldM f b (x # xs) = bnd (f b x) (\<lambda>b'. foldM f b' xs)"

lemma ret_apply [sm_simps]: "ret x s = Inr (x, s)"
  by (simp add: ret_def)

lemma bnd_apply [sm_simps]:
  "bnd m f s = (case m s of Inl e \<Rightarrow> Inl e | Inr (x, s') \<Rightarrow> f x s')"
  by (simp add: bnd_def)

lemma andthen_apply [sm_simps]:
  "andthen m n s = (case m s of Inl e \<Rightarrow> Inl e | Inr (x, s') \<Rightarrow> n s')"
  by (simp add: andthen_def bnd_def)

lemma gets_apply [sm_simps]: "gets f s = Inr (f s, s)"
  by (simp add: gets_def)

lemma upd_apply [sm_simps]: "upd f s = Inr ((), f s)"
  by (simp add: upd_def)

lemma raise_apply [sm_simps]: "raise e s = Inl e"
  by (simp add: raise_def)

lemma whenM_apply [sm_simps]: "whenM b m s = (if b then m s else Inr ((), s))"
  by (simp add: whenM_def ret_def)

section \<open>Pre- and postconditions, invariants, absence of faults\<close>

definition valid :: "('s \<Rightarrow> bool) \<Rightarrow> ('s, 'a) sm \<Rightarrow> ('a \<Rightarrow> 's \<Rightarrow> bool) \<Rightarrow> bool" where
  "valid P m Q \<longleftrightarrow> (\<forall>s x s'. P s \<longrightarrow> m s = Inr (x, s') \<longrightarrow> Q x s')"

definition keeps :: "('s \<Rightarrow> bool) \<Rightarrow> ('s, 'a) sm \<Rightarrow> bool" where
  "keeps I m \<longleftrightarrow> valid I m (\<lambda>_. I)"

definition runs :: "('s \<Rightarrow> bool) \<Rightarrow> ('s, 'a) sm \<Rightarrow> bool" where
  "runs I m \<longleftrightarrow> (\<forall>s. I s \<longrightarrow> (\<exists>x s'. m s = Inr (x, s') \<and> I s'))"

lemma keepsI: "(\<And>s x s'. I s \<Longrightarrow> m s = Inr (x, s') \<Longrightarrow> I s') \<Longrightarrow> keeps I m"
  by (auto simp: keeps_def valid_def)

lemma keepsD: "keeps I m \<Longrightarrow> I s \<Longrightarrow> m s = Inr (x, s') \<Longrightarrow> I s'"
  by (auto simp: keeps_def valid_def)

lemma keeps_ret [keeps_intros, intro]: "keeps I (ret x)"
  by (auto simp: keeps_def valid_def ret_def)

lemma keeps_gets [keeps_intros, intro]: "keeps I (gets f)"
  by (auto simp: keeps_def valid_def gets_def)

lemma keeps_raise [keeps_intros, intro]: "keeps I (raise e)"
  by (auto simp: keeps_def valid_def raise_def)

lemma keeps_upd [keeps_intros]: "(\<And>s. I s \<Longrightarrow> I (f s)) \<Longrightarrow> keeps I (upd f)"
  by (auto simp: keeps_def valid_def upd_def)

lemma keeps_bnd [keeps_intros]: "keeps I m \<Longrightarrow> (\<And>x. keeps I (f x)) \<Longrightarrow> keeps I (bnd m f)"
proof (rule keepsI)
  fix s x s'
  assume m: "keeps I m" and f: "\<And>x. keeps I (f x)" and s: "I s" and r: "bnd m f s = Inr (x, s')"
  from r obtain y t where y: "m s = Inr (y, t)" and x: "f y t = Inr (x, s')"
    by (auto simp: bnd_def split: sum.splits)
  from keepsD [OF m s y] show "I s'" using x by (rule keepsD [OF f])
qed

lemma keeps_andthen [keeps_intros]: "keeps I m \<Longrightarrow> keeps I n \<Longrightarrow> keeps I (andthen m n)"
  by (simp add: andthen_def keeps_bnd)

lemma keeps_if [keeps_intros]:
  "(b \<Longrightarrow> keeps I m) \<Longrightarrow> (\<not> b \<Longrightarrow> keeps I n) \<Longrightarrow> keeps I (if b then m else n)"
  by simp

lemma keeps_whenM [keeps_intros]: "(b \<Longrightarrow> keeps I m) \<Longrightarrow> keeps I (whenM b m)"
  by (auto simp: whenM_def)

lemma keeps_case_option [keeps_intros]:
  "(x = None \<Longrightarrow> keeps I m) \<Longrightarrow> (\<And>y. x = Some y \<Longrightarrow> keeps I (f y)) \<Longrightarrow>
   keeps I (case x of None \<Rightarrow> m | Some y \<Rightarrow> f y)"
  by (cases x) auto

lemma keeps_case_prod [keeps_intros]:
  "(\<And>a b. x = (a, b) \<Longrightarrow> keeps I (f a b)) \<Longrightarrow> keeps I (case x of (a, b) \<Rightarrow> f a b)"
  by (cases x) auto

lemma keeps_Let [keeps_intros]: "(\<And>x. x = e \<Longrightarrow> keeps I (f x)) \<Longrightarrow> keeps I (let x = e in f x)"
  by (simp add: Let_def)

lemma keeps_forM [keeps_intros]: "(\<And>x. x \<in> set xs \<Longrightarrow> keeps I (f x)) \<Longrightarrow> keeps I (forM xs f)"
  by (induction xs) (auto intro: keeps_intros)

lemma keeps_foldM [keeps_intros]:
  "(\<And>b x. x \<in> set xs \<Longrightarrow> keeps I (f b x)) \<Longrightarrow> keeps I (foldM f b xs)"
  by (induction xs arbitrary: b) (auto intro: keeps_intros)

lemma keeps_conj: "keeps I m \<Longrightarrow> keeps J m \<Longrightarrow> keeps (\<lambda>s. I s \<and> J s) m"
  by (auto simp: keeps_def valid_def)

lemma keeps_cong: "keeps I m \<Longrightarrow> (\<And>s. I s = J s) \<Longrightarrow> keeps J m"
  by (simp add: keeps_def valid_def)

text \<open>
  A component of the state that a function leaves alone: an invariant for each of its values.
\<close>

lemma keeps_unchanged: "(\<And>c. keeps (\<lambda>s. f s = c) m) \<Longrightarrow> m s = Inr (x, s') \<Longrightarrow> f s' = f s"
  by (rule keepsD [where I = "\<lambda>t. f t = f s" and m = m and s = s]) simp_all

lemma keeps_of_unchanged:
  "(\<And>c. keeps (\<lambda>s. f s = c) m) \<Longrightarrow> keeps (\<lambda>s. P (f s)) m"
  using keeps_unchanged [of f m] by (auto intro!: keepsI)

lemma runsI: "(\<And>s. I s \<Longrightarrow> \<exists>x s'. m s = Inr (x, s') \<and> I s') \<Longrightarrow> runs I m"
  by (simp add: runs_def)

lemma runsD: "runs I m \<Longrightarrow> I s \<Longrightarrow> \<exists>x s'. m s = Inr (x, s') \<and> I s'"
  by (simp add: runs_def)

lemma runs_keeps: "runs I m \<Longrightarrow> keeps I m"
  unfolding runs_def keeps_def valid_def by (metis Inr_inject prod.inject)

lemma runs_conj: "runs I m \<Longrightarrow> keeps J m \<Longrightarrow> runs (\<lambda>s. I s \<and> J s) m"
  unfolding runs_def keeps_def valid_def by metis

lemma runs_ret [runs_intros, intro]: "runs I (ret x)"
  by (simp add: runs_def ret_def)

lemma runs_gets [runs_intros, intro]: "runs I (gets f)"
  by (simp add: runs_def gets_def)

lemma runs_upd [runs_intros]: "(\<And>s. I s \<Longrightarrow> I (f s)) \<Longrightarrow> runs I (upd f)"
  by (simp add: runs_def upd_def)

lemma runs_bnd [runs_intros]: "runs I m \<Longrightarrow> (\<And>x. runs I (f x)) \<Longrightarrow> runs I (bnd m f)"
  unfolding runs_def bnd_def by (metis case_prod_conv sum.case(2))

lemma runs_andthen [runs_intros]: "runs I m \<Longrightarrow> runs I n \<Longrightarrow> runs I (andthen m n)"
  by (simp add: andthen_def runs_bnd)

lemma runs_if [runs_intros]:
  "(b \<Longrightarrow> runs I m) \<Longrightarrow> (\<not> b \<Longrightarrow> runs I n) \<Longrightarrow> runs I (if b then m else n)"
  by simp

lemma runs_whenM [runs_intros]: "(b \<Longrightarrow> runs I m) \<Longrightarrow> runs I (whenM b m)"
  by (auto simp: whenM_def)

lemma runs_case_option [runs_intros]:
  "(x = None \<Longrightarrow> runs I m) \<Longrightarrow> (\<And>y. x = Some y \<Longrightarrow> runs I (f y)) \<Longrightarrow>
   runs I (case x of None \<Rightarrow> m | Some y \<Rightarrow> f y)"
  by (cases x) auto

lemma runs_case_prod [runs_intros]:
  "(\<And>a b. x = (a, b) \<Longrightarrow> runs I (f a b)) \<Longrightarrow> runs I (case x of (a, b) \<Rightarrow> f a b)"
  by (cases x) auto

lemma runs_Let [runs_intros]: "(\<And>x. x = e \<Longrightarrow> runs I (f x)) \<Longrightarrow> runs I (let x = e in f x)"
  by (simp add: Let_def)

lemma runs_forM [runs_intros]: "(\<And>x. x \<in> set xs \<Longrightarrow> runs I (f x)) \<Longrightarrow> runs I (forM xs f)"
  by (induction xs) (auto intro: runs_intros)

lemma runs_foldM [runs_intros]:
  "(\<And>b x. x \<in> set xs \<Longrightarrow> runs I (f b x)) \<Longrightarrow> runs I (foldM f b xs)"
  by (induction xs arbitrary: b) (auto intro: runs_intros)

lemma validI: "(\<And>s x s'. P s \<Longrightarrow> m s = Inr (x, s') \<Longrightarrow> Q x s') \<Longrightarrow> valid P m Q"
  by (auto simp: valid_def)

lemma validD: "valid P m Q \<Longrightarrow> P s \<Longrightarrow> m s = Inr (x, s') \<Longrightarrow> Q x s'"
  by (auto simp: valid_def)

lemma valid_bnd: "valid P m R \<Longrightarrow> (\<And>x. valid (R x) (f x) Q) \<Longrightarrow> valid P (bnd m f) Q"
  by (fastforce simp: valid_def bnd_def split: sum.splits)

lemma valid_weaken: "valid P m Q \<Longrightarrow> (\<And>s. P' s \<Longrightarrow> P s) \<Longrightarrow> (\<And>x s. Q x s \<Longrightarrow> Q' x s) \<Longrightarrow> valid P' m Q'"
  unfolding valid_def by metis

lemma valid_andthen: "valid P m (\<lambda>_. R) \<Longrightarrow> valid R n Q \<Longrightarrow> valid P (andthen m n) Q"
  unfolding andthen_def by (rule valid_bnd)

lemma valid_keeps: "keeps I m \<Longrightarrow> valid I m (\<lambda>_. I)"
  by (simp add: keeps_def)

lemma valid_ret: "(\<And>s. P s \<Longrightarrow> Q x s) \<Longrightarrow> valid P (ret x) Q"
  by (simp add: valid_def ret_def)

lemma valid_raise: "valid P (raise e) Q"
  by (simp add: valid_def raise_def)

lemma valid_upd: "(\<And>s. P s \<Longrightarrow> Q () (f s)) \<Longrightarrow> valid P (upd f) Q"
  by (simp add: valid_def upd_def)

text \<open>A loop whose body establishes something for the element it treats, and keeps the rest.\<close>

lemma valid_forM_collect:
  assumes "\<And>x K. x \<in> set xs \<Longrightarrow> valid (L K) (f x) (\<lambda>_. L (insert x K))"
  shows "valid (L K) (forM xs f) (\<lambda>_. L (K \<union> set xs))"
  using assms
proof (induction xs arbitrary: K)
  case Nil
  then show ?case by (simp add: valid_ret)
next
  case (Cons x xs)
  have "valid (L (insert x K)) (forM xs f) (\<lambda>_. L (insert x K \<union> set xs))"
    by (rule Cons.IH) (simp add: Cons.prems)
  then have "valid (L (insert x K)) (forM xs f) (\<lambda>_. L (K \<union> set (x # xs)))" by simp
  with Cons.prems [of x K] show ?case by (simp add: valid_andthen)
qed

section \<open>Effects as sequences of primitive steps\<close>

text \<open>
  \<open>via R P m\<close>: from a state with \<open>P\<close>, whatever \<open>m\<close> does to the state is a sequence of
  \<open>R\<close>-steps. A predicate that \<open>R\<close>-steps keep is then an invariant of \<open>m\<close>: each handler is
  proved to be such a sequence once, and each invariant is proved for the primitive steps once.
\<close>

definition via :: "('s \<Rightarrow> 's \<Rightarrow> bool) \<Rightarrow> ('s \<Rightarrow> bool) \<Rightarrow> ('s, 'a) sm \<Rightarrow> bool" where
  "via R P m \<longleftrightarrow> (\<forall>s x s'. P s \<longrightarrow> m s = Inr (x, s') \<longrightarrow> R\<^sup>*\<^sup>* s s')"

abbreviation (input) always :: "'s \<Rightarrow> bool" where "always \<equiv> \<lambda>_. True"

lemma viaI: "(\<And>s x s'. P s \<Longrightarrow> m s = Inr (x, s') \<Longrightarrow> R\<^sup>*\<^sup>* s s') \<Longrightarrow> via R P m"
  by (simp add: via_def)

lemma viaD: "via R P m \<Longrightarrow> P s \<Longrightarrow> m s = Inr (x, s') \<Longrightarrow> R\<^sup>*\<^sup>* s s'"
  by (simp add: via_def)

lemma via_weaken: "via R always m \<Longrightarrow> via R P m"
  by (simp add: via_def)

lemma via_mono: "via R P m \<Longrightarrow> (\<And>s t. R s t \<Longrightarrow> S s t) \<Longrightarrow> via S P m"
  by (rule viaI) (rule mono_rtranclp [rule_format, of R S], auto dest: viaD)

lemma via_ret [via_intros]: "via R P (ret x)"
  by (auto simp: via_def ret_def)

lemma via_gets [via_intros]: "via R P (gets f)"
  by (auto simp: via_def gets_def)

lemma via_raise [via_intros]: "via R P (raise e)"
  by (auto simp: via_def raise_def)

lemma via_upd: "(\<And>s. P s \<Longrightarrow> R s (f s)) \<Longrightarrow> via R P (upd f)"
  by (auto simp: via_def upd_def)

lemma via_bnd_valid:
  assumes "via R P m" "valid P m Q" "\<And>x. via R (Q x) (f x)"
  shows "via R P (bnd m f)"
proof (rule viaI)
  fix s x s'
  assume s: "P s" and r: "bnd m f s = Inr (x, s')"
  from r obtain y t where y: "m s = Inr (y, t)" and x: "f y t = Inr (x, s')"
    by (auto simp: bnd_def split: sum.splits)
  have "R\<^sup>*\<^sup>* s t" by (rule viaD [OF assms(1) s y])
  also have "R\<^sup>*\<^sup>* t s'"
    by (rule viaD [OF assms(3) validD [OF assms(2) s y] x])
  finally show "R\<^sup>*\<^sup>* s s'" .
qed

lemma via_bnd [via_intros]:
  "via R P m \<Longrightarrow> (\<And>x. via R always (f x)) \<Longrightarrow> via R P (bnd m f)"
  by (rule via_bnd_valid [where Q = "\<lambda>_. always"]) (simp_all add: valid_def)

lemma via_andthen [via_intros]:
  "via R P m \<Longrightarrow> via R always n \<Longrightarrow> via R P (andthen m n)"
  by (simp add: andthen_def via_bnd)

lemma via_if [via_intros]:
  "(b \<Longrightarrow> via R P m) \<Longrightarrow> (\<not> b \<Longrightarrow> via R P n) \<Longrightarrow> via R P (if b then m else n)"
  by simp

lemma via_whenM [via_intros]: "(b \<Longrightarrow> via R P m) \<Longrightarrow> via R P (whenM b m)"
  by (auto simp: whenM_def intro: via_ret)

lemma via_case_option [via_intros]:
  "(x = None \<Longrightarrow> via R P m) \<Longrightarrow> (\<And>y. x = Some y \<Longrightarrow> via R P (f y)) \<Longrightarrow>
   via R P (case x of None \<Rightarrow> m | Some y \<Rightarrow> f y)"
  by (cases x) auto

lemma via_case_list [via_intros]:
  "(x = [] \<Longrightarrow> via R P m) \<Longrightarrow> (\<And>y ys. x = y # ys \<Longrightarrow> via R P (f y ys)) \<Longrightarrow>
   via R P (case x of [] \<Rightarrow> m | y # ys \<Rightarrow> f y ys)"
  by (cases x) auto

lemma via_case_prod [via_intros]:
  "(\<And>a b. x = (a, b) \<Longrightarrow> via R P (f a b)) \<Longrightarrow> via R P (case x of (a, b) \<Rightarrow> f a b)"
  by (cases x) auto

lemma via_Let [via_intros]: "(\<And>x. x = e \<Longrightarrow> via R P (f x)) \<Longrightarrow> via R P (let x = e in f x)"
  by (simp add: Let_def)

lemma via_forM [via_intros]:
  "(\<And>x. x \<in> set xs \<Longrightarrow> via R always (f x)) \<Longrightarrow> via R always (forM xs f)"
  by (induction xs) (auto intro: via_intros)

lemma via_foldM [via_intros]:
  "(\<And>b x. x \<in> set xs \<Longrightarrow> via R always (f b x)) \<Longrightarrow> via R always (foldM f b xs)"
  by (induction xs arbitrary: b) (auto intro: via_intros)

lemma rtranclp_inv: "R\<^sup>*\<^sup>* s t \<Longrightarrow> I s \<Longrightarrow> (\<And>s t. R s t \<Longrightarrow> I s \<Longrightarrow> I t) \<Longrightarrow> I t"
  by (induction rule: rtranclp_induct) auto

section \<open>Runs of a system\<close>

text \<open>The states that a system reaches from its initial ones; an invariant holds in each.\<close>

inductive reach :: "('s \<Rightarrow> bool) \<Rightarrow> ('s \<Rightarrow> 's \<Rightarrow> bool) \<Rightarrow> 's \<Rightarrow> bool"
  for init :: "'s \<Rightarrow> bool" and step :: "'s \<Rightarrow> 's \<Rightarrow> bool" where
  reach_init: "init s \<Longrightarrow> reach init step s"
| reach_step: "reach init step s \<Longrightarrow> step s t \<Longrightarrow> reach init step t"

locale invariant_of =
  fixes init :: "'s \<Rightarrow> bool" and step :: "'s \<Rightarrow> 's \<Rightarrow> bool" and I :: "'s \<Rightarrow> bool"
  assumes init_inv: "init s \<Longrightarrow> I s"
    and step_inv: "I s \<Longrightarrow> step s t \<Longrightarrow> I t"
begin

lemma reach_inv: "reach init step s \<Longrightarrow> I s"
  by (induction rule: reach.induct) (auto intro: init_inv step_inv)

end

text \<open>A predicate that the primitive steps keep: an invariant of all that is made of them.\<close>

locale closed_under =
  fixes R :: "'s \<Rightarrow> 's \<Rightarrow> bool" and I :: "'s \<Rightarrow> bool"
  assumes closed: "R s t \<Longrightarrow> I s \<Longrightarrow> I t"
begin

lemma steps_inv: "R\<^sup>*\<^sup>* s t \<Longrightarrow> I s \<Longrightarrow> I t"
  by (rule rtranclp_inv [of R s t I]) (auto intro: closed)

lemma via_keeps: "via R P m \<Longrightarrow> P s \<Longrightarrow> I s \<Longrightarrow> m s = Inr (x, s') \<Longrightarrow> I s'"
  by (rule steps_inv [OF viaD])

lemma via_always_keeps: "via R always m \<Longrightarrow> keeps I m"
  by (auto intro!: keepsI intro: via_keeps [where P = always])

end

end
