(* ===== verification/OrdMap.thy ===== *)
theory OrdMap
  imports Prelude
begin

text \<open>
  The interface of \<open>std::map\<close> that the routing table uses, as the locale \<open>ordered_map\<close>,
  and its model: an association list in strictly ascending key order (the order in which
  \<open>begin ()\<close> to \<open>end ()\<close> visits the entries). \<open>insert\<close> leaves an entry that is
  already there alone, as \<open>std::map::insert\<close> does.
\<close>

locale ordered_map =
  fixes find :: "'m \<Rightarrow> 'k::linorder \<Rightarrow> 'v option"
    and ins :: "'k \<Rightarrow> 'v \<Rightarrow> 'm \<Rightarrow> 'm"
    and modify :: "'k \<Rightarrow> ('v \<Rightarrow> 'v) \<Rightarrow> 'm \<Rightarrow> 'm"
    and erase :: "'k \<Rightarrow> 'm \<Rightarrow> 'm"
    and keys :: "'m \<Rightarrow> 'k list"
    and ok :: "'m \<Rightarrow> bool"
  assumes find_ins: "ok m \<Longrightarrow>
      find (ins k v m) k' = (if k' = k then Some (case find m k of None \<Rightarrow> v | Some w \<Rightarrow> w)
                             else find m k')"
    and find_modify: "find (modify k f m) k' = (if k' = k then map_option f (find m k) else find m k')"
    and find_erase: "find (erase k m) k' = (if k' = k then None else find m k')"
    and set_keys: "set (keys m) = dom (find m)"
    and keys_ascending: "ok m \<Longrightarrow> sorted_wrt (<) (keys m)"
    and ok_ins: "ok m \<Longrightarrow> ok (ins k v m)"
    and ok_modify: "ok m \<Longrightarrow> ok (modify k f m)"
    and ok_erase: "ok m \<Longrightarrow> ok (erase k m)"
begin

lemma find_ins_same: "ok m \<Longrightarrow> find m k = None \<Longrightarrow> find (ins k v m) k = Some v"
  by (simp add: find_ins)

lemma ins_existing: "ok m \<Longrightarrow> find m k = Some w \<Longrightarrow> find (ins k v m) = find m"
  by (auto simp: find_ins fun_eq_iff)

lemma all_ins:
  assumes "ok m" "\<forall>k v. find m k = Some v \<longrightarrow> P k v" "P k v"
  shows "\<forall>k' v'. find (ins k v m) k' = Some v' \<longrightarrow> P k' v'"
  using assms by (auto simp: find_ins split: option.splits)

lemma all_modify:
  assumes "\<forall>k v. find m k = Some v \<longrightarrow> P k v" "\<And>v. P k v \<Longrightarrow> P k (f v)"
  shows "\<forall>k' v'. find (modify k f m) k' = Some v' \<longrightarrow> P k' v'"
  using assms by (auto simp: find_modify)

lemma all_erase:
  assumes "\<forall>k v. find m k = Some v \<longrightarrow> P k v"
  shows "\<forall>k' v'. find (erase k m) k' = Some v' \<longrightarrow> P k' v'"
  using assms by (auto simp: find_erase)

lemma keys_distinct: "ok m \<Longrightarrow> distinct (keys m)"
  using keys_ascending strict_sorted_iff by blast

lemma find_keys: "k \<in> set (keys m) \<longleftrightarrow> find m k \<noteq> None"
  by (auto simp: set_keys)

lemma dom_modify: "dom (find (modify k f m)) = dom (find m)"
  by (auto simp: find_modify dom_def split: if_splits)

end

section \<open>The model of \<open>std::map\<close>\<close>

fun om_insert :: "'k::linorder \<Rightarrow> 'v \<Rightarrow> ('k \<times> 'v) list \<Rightarrow> ('k \<times> 'v) list" where
  "om_insert k v [] = [(k, v)]"
| "om_insert k v ((a, b) # m) =
     (if k < a then (k, v) # (a, b) # m
      else if k = a then (a, b) # m
      else (a, b) # om_insert k v m)"

definition om_modify :: "'k \<Rightarrow> ('v \<Rightarrow> 'v) \<Rightarrow> ('k \<times> 'v) list \<Rightarrow> ('k \<times> 'v) list" where
  "om_modify k f m = map (\<lambda>(a, b). if a = k then (a, f b) else (a, b)) m"

definition om_erase :: "'k \<Rightarrow> ('k \<times> 'v) list \<Rightarrow> ('k \<times> 'v) list" where
  "om_erase k m = filter (\<lambda>p. fst p \<noteq> k) m"

definition om_keys :: "('k \<times> 'v) list \<Rightarrow> 'k list" where
  "om_keys m = map fst m"

definition om_ok :: "('k::linorder \<times> 'v) list \<Rightarrow> bool" where
  "om_ok m \<longleftrightarrow> sorted_wrt (<) (map fst m)"

lemma set_om_insert: "fst ` set (om_insert k v m) = insert k (fst ` set m)"
  by (induction k v m rule: om_insert.induct) auto

lemma om_ok_insert: "om_ok m \<Longrightarrow> om_ok (om_insert k v m)"
  unfolding om_ok_def
proof (induction k v m rule: om_insert.induct)
  case (2 k v a b m)
  have "fst ` set (om_insert k v m) = insert k (fst ` set m)" by (rule set_om_insert)
  then have eq: "set (map fst (om_insert k v m)) = insert k (set (map fst m))" by simp
  show ?case
  proof (cases "k < a")
    case True
    then show ?thesis using "2.prems" by auto
  next
    case False
    show ?thesis
    proof (cases "k = a")
      case True
      then show ?thesis using "2.prems" by simp
    next
      case neq: False
      with False have "a < k" by simp
      moreover from "2.prems" have "sorted_wrt (<) (map fst m)" by simp
      ultimately show ?thesis using False neq "2.IH" "2.prems" eq by simp
    qed
  qed
qed simp

lemma map_of_None_less:
  "sorted_wrt (<) (a # map fst m) \<Longrightarrow> k \<le> (a :: 'k::linorder) \<Longrightarrow> map_of m k = None"
  by (force simp: map_of_eq_None_iff)

lemma map_of_om_insert: "om_ok m \<Longrightarrow>
  map_of (om_insert k v m) k' =
    (if k' = k then Some (case map_of m k of None \<Rightarrow> v | Some w \<Rightarrow> w) else map_of m k')"
proof (induction k v m rule: om_insert.induct)
  case (2 k v a b m)
  have "map_of m k = None" if "k < a"
    using map_of_None_less [of a m k] that "2.prems" by (simp add: om_ok_def)
  moreover have "om_ok m" using "2.prems" by (simp add: om_ok_def)
  ultimately show ?case using "2.IH" by auto
qed simp

lemma map_of_om_modify:
  "map_of (om_modify k f m) k' = (if k' = k then map_option f (map_of m k) else map_of m k')"
  by (induction m) (auto simp: om_modify_def)

lemma map_of_om_erase: "map_of (om_erase k m) k' = (if k' = k then None else map_of m k')"
  by (induction m) (auto simp: om_erase_def)

lemma map_fst_om_modify [simp]: "map fst (om_modify k f m) = map fst m"
  by (induction m) (auto simp: om_modify_def)

lemma om_ok_modify: "om_ok m \<Longrightarrow> om_ok (om_modify k f m)"
  by (simp add: om_ok_def)

lemma om_ok_erase: "om_ok m \<Longrightarrow> om_ok (om_erase k m)"
  by (induction m) (auto simp: om_ok_def om_erase_def)

lemma om_ok_Nil [simp]: "om_ok []"
  by (simp add: om_ok_def)

interpretation om: ordered_map map_of om_insert om_modify om_erase om_keys om_ok
  by unfold_locales
    (simp_all add: map_of_om_insert map_of_om_modify map_of_om_erase om_ok_insert om_ok_modify
      om_ok_erase om_keys_def dom_map_of_conv_image_fst om_ok_def [symmetric])

lemmas om_simps = om.find_ins om.find_modify om.find_erase

end
