(* ===== verification/Params.thy ===== *)
theory Params
  imports Prelude
begin

text \<open>
  The constants of \<open>LA_Client_aodv/const.h\<close> and \<open>parameters.h\<close>. Times are in
  milliseconds. The macros of the source are textual; the values here are those of the
  expressions in which the code uses them.
\<close>

abbreviation (input) NODE_TRAVERSAL_TIME :: u64 where "NODE_TRAVERSAL_TIME \<equiv> 500"
abbreviation (input) ALLOWED_HELLO_LOSS :: u64 where "ALLOWED_HELLO_LOSS \<equiv> 2"
abbreviation (input) HELLO_INTERVAL :: u64 where "HELLO_INTERVAL \<equiv> 2000"
abbreviation (input) PERIODIC_INTERVAL :: u64 where "PERIODIC_INTERVAL \<equiv> 1000"
abbreviation (input) ACTIVE_ROUTE_TIMEOUT :: u64 where "ACTIVE_ROUTE_TIMEOUT \<equiv> 3000"

definition NET_DIAMETER :: int where "NET_DIAMETER = 35"
definition TTL_START :: int where "TTL_START = 1"
definition TTL_INCREMENT :: int where "TTL_INCREMENT = 2"
definition TTL_THRESHOLD :: int where "TTL_THRESHOLD = 7"
definition LOCAL_ADD_TTL :: int where "LOCAL_ADD_TTL = 2"
definition RREQ_RETRIES :: u32 where "RREQ_RETRIES = 2"

definition RREP_ACK_TIMEOUT :: u64 where
  "RREP_ACK_TIMEOUT = NODE_TRAVERSAL_TIME + 20"

definition NET_TRAVERSAL_TIME :: u64 where
  "NET_TRAVERSAL_TIME = 3 * NODE_TRAVERSAL_TIME * 35 div 2"

definition PATH_TRAVERSAL_TIME :: u64 where
  "PATH_TRAVERSAL_TIME = 2 * 3 * NODE_TRAVERSAL_TIME * 35 div 2"

definition BLACKLIST_TIMEOUT :: u64 where
  "BLACKLIST_TIMEOUT = 3 * NODE_TRAVERSAL_TIME * 35 div 2 * ((7 - 1) div 2 + 1 + 2)"

definition DELETE_PERIOD :: u64 where
  "DELETE_PERIOD = 5 * (if ACTIVE_ROUTE_TIMEOUT > HELLO_INTERVAL then ACTIVE_ROUTE_TIMEOUT else HELLO_INTERVAL)"

definition MY_ROUTE_TIMEOUT :: u64 where
  "MY_ROUTE_TIMEOUT = 10 * ACTIVE_ROUTE_TIMEOUT"

lemmas param_values = NET_DIAMETER_def TTL_START_def TTL_INCREMENT_def TTL_THRESHOLD_def
  LOCAL_ADD_TTL_def RREQ_RETRIES_def RREP_ACK_TIMEOUT_def NET_TRAVERSAL_TIME_def
  PATH_TRAVERSAL_TIME_def BLACKLIST_TIMEOUT_def DELETE_PERIOD_def MY_ROUTE_TIMEOUT_def

lemma period_values:
  "DELETE_PERIOD = 15000" "PATH_TRAVERSAL_TIME = 52500" "NET_TRAVERSAL_TIME = 26250"
  "BLACKLIST_TIMEOUT = 157500" "MY_ROUTE_TIMEOUT = 30000" "RREP_ACK_TIMEOUT = 520"
  by code_simp+

text \<open>The hop count that means "no route", and the flags of a routing table entry.\<close>

abbreviation (input) INFINITY_HOPS :: u8 where "INFINITY_HOPS \<equiv> 60"

abbreviation (input) BROKEN_ROUTE :: u32 where "BROKEN_ROUTE \<equiv> 1"
abbreviation (input) LOCAL_REPAIR_ROUTE :: u32 where "LOCAL_REPAIR_ROUTE \<equiv> 2"
abbreviation (input) ACTIVE_ROUTE :: u32 where "ACTIVE_ROUTE \<equiv> 3"
abbreviation (input) INVALID_ROUTE :: u32 where "INVALID_ROUTE \<equiv> 4"

text \<open>Results of the message handlers, timer types, the limited broadcast address.\<close>

abbreviation (input) GEN_RREP :: int where "GEN_RREP \<equiv> 1"
abbreviation (input) FWD_RREQ :: int where "FWD_RREQ \<equiv> 2"
abbreviation (input) SEND_RREP :: int where "SEND_RREP \<equiv> 3"

abbreviation (input) REBOOT_TIMER :: int where "REBOOT_TIMER \<equiv> 4"
abbreviation (input) RREQ_TIMER :: int where "RREQ_TIMER \<equiv> 5"
abbreviation (input) HELLO_TIMER :: int where "HELLO_TIMER \<equiv> 6"
abbreviation (input) LR_TIMER :: int where "LR_TIMER \<equiv> 7"
abbreviation (input) PERIODIC_TIMER :: int where "PERIODIC_TIMER \<equiv> 8"
abbreviation (input) RREP_ACK_TIMER :: int where "RREP_ACK_TIMER \<equiv> 9"
abbreviation (input) ACTIVE_ROUTE_TIMER :: int where "ACTIVE_ROUTE_TIMER \<equiv> 10"

abbreviation (input) BROADCAST_ADDR :: ip where "BROADCAST_ADDR \<equiv> 0xFFFFFFFF"

abbreviation (input) IPPROTO_TCP :: u8 where "IPPROTO_TCP \<equiv> 6"

end
