(* ===== verification/Rtable_Entry.thy ===== *)
theory Rtable_Entry
  imports OrdMap Params
begin

text \<open>
  An entry of the routing table (\<open>LA_Client_aodv/rtable_entry.h\<close>, \<open>rtable_entry.cc\<close>), the
  entry the kernel's routing ioctl is given for it, and what every entry of a routing table
  satisfies.
\<close>

record rtable_entry =
  rt_dest_ip :: ip
  rt_dest_seq_num :: u32
  rt_interface :: u32
  rt_hop_cnt :: u8
  rt_last_hop_cnt :: u8
  rt_next_hop :: ip
  rt_precursors :: "ip list"
  rt_lifetime :: u64
  rt_routing_flags :: u32

text \<open>The list of precursors of a new object is empty; \<open>createEntry\<close> sets all other fields.\<close>

definition createEntry :: "ip \<Rightarrow> u32 \<Rightarrow> u8 \<Rightarrow> ip \<Rightarrow> u64 \<Rightarrow> u32 \<Rightarrow> rtable_entry" where
  "createEntry dest seqNum hopCnt nhop time rFlag =
     \<lparr>rt_dest_ip = dest, rt_dest_seq_num = seqNum, rt_interface = 0, rt_hop_cnt = hopCnt,
      rt_last_hop_cnt = 0, rt_next_hop = nhop, rt_precursors = [], rt_lifetime = time,
      rt_routing_flags = rFlag\<rparr>"

definition initMyRtableEntry :: "ip \<Rightarrow> u32 \<Rightarrow> u64 \<Rightarrow> rtable_entry" where
  "initMyRtableEntry my_ip seqNum now =
     \<lparr>rt_dest_ip = my_ip, rt_dest_seq_num = seqNum, rt_interface = 0, rt_hop_cnt = 0,
      rt_last_hop_cnt = 0, rt_next_hop = my_ip, rt_precursors = [],
      rt_lifetime = now + MY_ROUTE_TIMEOUT, rt_routing_flags = ACTIVE_ROUTE\<rparr>"

definition getPrecCnt :: "rtable_entry \<Rightarrow> u32" where
  "getPrecCnt e = of_nat (length (rt_precursors e))"

fun in_precursors :: "ip list \<Rightarrow> ip \<Rightarrow> bool" where
  "in_precursors [] precur = False"
| "in_precursors (p # ps) precur = (if p = precur then True else in_precursors ps precur)"

definition addToPrecursor :: "ip \<Rightarrow> rtable_entry \<Rightarrow> rtable_entry" where
  "addToPrecursor precur e =
     (if in_precursors (rt_precursors e) precur then e
      else e\<lparr>rt_precursors := rt_precursors e @ [precur]\<rparr>)"

text \<open>\<open>getPrecAddr\<close> reads the first precursor without looking whether there is one.\<close>

definition getPrecAddr :: "rtable_entry \<Rightarrow> ('s, ip) sm" where
  "getPrecAddr e = (case rt_precursors e of [] \<Rightarrow> raise EndDeref | p # _ \<Rightarrow> ret p)"

text \<open>\<open>gen_krtentry\<close>: the gateway of a one-hop route is the node itself. Flags: up, gateway, host.\<close>

record rtentry =
  kr_dst :: ip
  kr_gateway :: ip
  kr_genmask :: ip
  kr_flags :: nat
  kr_metric :: int

definition gen_krtentry :: "ip \<Rightarrow> rtable_entry \<Rightarrow> rtentry" where
  "gen_krtentry my_ip e =
     \<lparr>kr_dst = rt_dest_ip e,
      kr_gateway = (if rt_hop_cnt e = 1 then my_ip else rt_next_hop e),
      kr_genmask = 0xFFFFFFFF, kr_flags = 7, kr_metric = uint (rt_hop_cnt e)\<rparr>"

section \<open>Well-formed entries\<close>

text \<open>
  The entry stored under \<open>k\<close> is for \<open>k\<close>, lists no precursor twice, carries one of the three
  flags in use, and has an infinite metric when it is invalid.
\<close>

definition entry_wf :: "ip \<Rightarrow> rtable_entry \<Rightarrow> bool" where
  "entry_wf k e \<longleftrightarrow> rt_dest_ip e = k \<and> distinct (rt_precursors e)
     \<and> rt_routing_flags e \<in> {BROKEN_ROUTE, ACTIVE_ROUTE, INVALID_ROUTE}
     \<and> (rt_routing_flags e = INVALID_ROUTE \<longrightarrow> rt_hop_cnt e = INFINITY_HOPS)"

lemma in_precursors_iff [simp]: "in_precursors ps p \<longleftrightarrow> p \<in> set ps"
  by (induction ps) auto

lemma set_addToPrecursor [simp]:
  "set (rt_precursors (addToPrecursor p e)) = insert p (set (rt_precursors e))"
  by (auto simp: addToPrecursor_def)

lemma addToPrecursor_fields [simp]:
  "rt_dest_ip (addToPrecursor p e) = rt_dest_ip e"
  "rt_dest_seq_num (addToPrecursor p e) = rt_dest_seq_num e"
  "rt_hop_cnt (addToPrecursor p e) = rt_hop_cnt e"
  "rt_next_hop (addToPrecursor p e) = rt_next_hop e"
  "rt_lifetime (addToPrecursor p e) = rt_lifetime e"
  "rt_routing_flags (addToPrecursor p e) = rt_routing_flags e"
  by (simp_all add: addToPrecursor_def)

lemma entry_wf_addToPrecursor: "entry_wf k e \<Longrightarrow> entry_wf k (addToPrecursor p e)"
  by (auto simp: entry_wf_def addToPrecursor_def)

lemma entry_wf_createEntry:
  "flag \<in> {BROKEN_ROUTE, ACTIVE_ROUTE} \<Longrightarrow> entry_wf d (createEntry d sq h n t flag)"
  by (auto simp: entry_wf_def createEntry_def)

lemma createEntry_dest [simp]: "rt_dest_ip (createEntry d sq h n t fl) = d"
  by (simp add: createEntry_def)

type_synonym rtmap = "(ip \<times> rtable_entry) list"

definition rt_wf :: "rtmap \<Rightarrow> bool" where
  "rt_wf m \<longleftrightarrow> om_ok m \<and> (\<forall>k e. map_of m k = Some e \<longrightarrow> entry_wf k e)"

lemma rt_wf_insert: "rt_wf m \<Longrightarrow> entry_wf k e \<Longrightarrow> rt_wf (om_insert k e m)"
  using om.all_ins [of m entry_wf k e] by (auto simp: rt_wf_def om.ok_ins)

lemma rt_wf_modify:
  "rt_wf m \<Longrightarrow> (\<And>e. entry_wf k e \<Longrightarrow> entry_wf k (f e)) \<Longrightarrow> rt_wf (om_modify k f m)"
  using om.all_modify [of m entry_wf k f] by (auto simp: rt_wf_def om.ok_modify)

lemma rt_wf_erase: "rt_wf m \<Longrightarrow> rt_wf (om_erase k m)"
  using om.all_erase [of m entry_wf k] by (auto simp: rt_wf_def om.ok_erase)

lemma rt_wf_Nil [simp]: "rt_wf []"
  by (simp add: rt_wf_def)

lemma rt_wf_dest: "rt_wf m \<Longrightarrow> map_of m k = Some e \<Longrightarrow> rt_dest_ip e = k"
  by (auto simp: rt_wf_def entry_wf_def)

end
