(* ===== verification/Timers.thy ===== *)
theory Timers
  imports Params "HOL-Library.Multiset"
begin

text \<open>
  The timer list of \<open>LA_Client_aodv/timer.h\<close> and \<open>timerQueue.cc\<close> without the calls that
  read the clock or arm the process's interval timer (those are in theory \<open>Node\<close>): a list
  of timers in the order of their absolute timeouts, and the searches of the queue. The
  locale \<open>timer_list\<close> states what the scheduler relies on.
\<close>

text \<open>
  The handler functions a timer may hold, the \<open>struct timerData\<close> it is called with, and
  a timer. \<open>tm_id\<close> tells list nodes with equal contents apart, as their addresses do.
\<close>

datatype timer_hfunc = RebootHandler | PeriodicHandler | SendHello | ResendRREQ | LR_Timer
  | RrepAck | NeighborTimeout

record timerData =
  td_type :: int
  td_data :: u32

record timer =
  tm_timeout :: u64
  tm_handler :: timer_hfunc
  tm_data :: timerData
  tm_id :: nat

text \<open>
  A clock that from reading \<open>k\<close> on never shows less, and stays away from its wrap-around; and
  times to wait that do not reach it.
\<close>

abbreviation (input) timer_max :: u64 where "timer_max \<equiv> 0x100000"

definition steady_clock :: "nat \<Rightarrow> (nat \<Rightarrow> u64) \<Rightarrow> bool" where
  "steady_clock k clk \<longleftrightarrow> (\<forall>j \<ge> k. clk k \<le> clk j \<and> clk j < 0xFFFFFFFFFFE00000)"

lemma steady_clock_later:
  assumes "steady_clock k clk" "k \<le> j" "0 < d" "d \<le> timer_max"
  shows "clk k < clk j + d"
proof -
  from assms have c: "clk k \<le> clk j" "unat (clk j) < 0xFFFFFFFFFFE00000"
    by (auto simp: steady_clock_def word_less_nat_alt)
  have d: "0 < unat d" "unat d \<le> 0x100000" using assms by (simp_all add: word_less_nat_alt word_le_nat_alt)
  have "unat (clk j + d) = unat (clk j) + unat d"
    using c d by (simp add: unat_word_ariths)
  with c(1) d show ?thesis by (simp add: word_less_nat_alt word_le_nat_alt)
qed

locale timer_list =
  fixes timeout :: "'t \<Rightarrow> 'k::linorder" and add :: "'t \<Rightarrow> 't list \<Rightarrow> 't list"
  assumes mset_add: "mset (add t q) = add_mset t (mset q)"
    and sorted_add: "sorted (map timeout q) \<Longrightarrow> sorted (map timeout (add t q))"
    and filter_add: "\<not> P t \<Longrightarrow> filter P (add t q) = filter P q"
begin

lemma set_add: "set (add t q) = insert t (set q)"
  using mset_add [of t q] by (metis set_mset_add_mset_insert set_mset_mset)

lemma length_add: "length (add t q) = Suc (length q)"
  using mset_add [of t q] by (metis size_add_mset size_mset)

text \<open>A new timer that is not due at \<open>c\<close> leaves the timers due at \<open>c\<close> as they were.\<close>

lemma due_add: "c < timeout t \<Longrightarrow> filter (\<lambda>u. timeout u \<le> c) (add t q) = filter (\<lambda>u. timeout u \<le> c) q"
  by (rule filter_add) simp

text \<open>In a sorted queue the due timers stand in front.\<close>

lemma due_takeWhile:
  "sorted (map timeout q) \<Longrightarrow> filter (\<lambda>u. timeout u \<le> c) q = takeWhile (\<lambda>u. timeout u \<le> c) q"
proof (induction q)
  case (Cons a q)
  show ?case
  proof (cases "timeout a \<le> c")
    case True
    with Cons show ?thesis by simp
  next
    case False
    with Cons.prems have "\<forall>u \<in> set q. \<not> timeout u \<le> c" by auto
    with False show ?thesis by (simp add: filter_empty_conv)
  qed
qed simp

lemma hd_earliest: "sorted (map timeout q) \<Longrightarrow> u \<in> set q \<Longrightarrow> timeout (hd q) \<le> timeout u"
  by (cases q) auto

end

text \<open>
  The place \<open>timer_add\<close> finds: before the first timer whose timeout is not earlier, so
  before the timers with the same timeout.
\<close>

fun timer_insert :: "timer \<Rightarrow> timer list \<Rightarrow> timer list" where
  "timer_insert t [] = [t]"
| "timer_insert t (u # q) = (if tm_timeout t > tm_timeout u then u # timer_insert t q else t # u # q)"

lemma set_timer_insert: "set (timer_insert t q) = insert t (set q)"
  by (induction q) auto

lemma sorted_timer_insert:
  "sorted (map tm_timeout q) \<Longrightarrow> sorted (map tm_timeout (timer_insert t q))"
  by (induction q) (auto simp: set_timer_insert)

lemma mset_timer_insert: "mset (timer_insert t q) = add_mset t (mset q)"
  by (induction q) auto

lemma filter_timer_insert: "\<not> P t \<Longrightarrow> filter P (timer_insert t q) = filter P q"
  by (induction q) auto

interpretation tq: timer_list tm_timeout timer_insert
  by unfold_locales (simp_all add: mset_timer_insert sorted_timer_insert filter_timer_insert)

text \<open>
  \<open>take_timer p q\<close>: the first timer that satisfies \<open>p\<close>, the timer after it, and the queue
  without it.
\<close>

fun take_timer :: "(timer \<Rightarrow> bool) \<Rightarrow> timer list \<Rightarrow> (timer \<times> timer option \<times> timer list) option" where
  "take_timer p [] = None"
| "take_timer p (t # q) =
     (if p t then Some (t, (case q of [] \<Rightarrow> None | u # _ \<Rightarrow> Some u), q)
      else map_option (\<lambda>(x, n, q'). (x, n, t # q')) (take_timer p q))"

text \<open>\<open>isTimerSetNow\<close> and \<open>isSetNow\<close>: does the given timer look like the head of the queue.\<close>

definition isTimerSetNow :: "timer \<Rightarrow> timer list \<Rightarrow> bool" where
  "isTimerSetNow t q = (td_type (tm_data (hd q)) = td_type (tm_data t)
     \<and> td_data (tm_data (hd q)) = td_data (tm_data t))"

definition isSetNow :: "timer \<Rightarrow> timer list \<Rightarrow> bool" where
  "isSetNow t q = (td_type (tm_data (hd q)) = td_type (tm_data t))"

definition is_rreq_timer :: "ip \<Rightarrow> timer \<Rightarrow> bool" where
  "is_rreq_timer dst t = ((td_type (tm_data t) = RREQ_TIMER \<or> td_type (tm_data t) = LR_TIMER)
     \<and> td_data (tm_data t) = dst)"

definition is_rrep_ack_timer :: "ip \<Rightarrow> timer \<Rightarrow> bool" where
  "is_rrep_ack_timer dst t = (td_type (tm_data t) = RREP_ACK_TIMER \<and> td_data (tm_data t) = dst)"

definition is_active_route_timer :: "ip \<Rightarrow> timer \<Rightarrow> bool" where
  "is_active_route_timer dst t =
     (td_type (tm_data t) = ACTIVE_ROUTE_TIMER \<and> td_data (tm_data t) = dst)"

lemma take_timer_None: "take_timer p q = None \<longleftrightarrow> (\<forall>t \<in> set q. \<not> p t)"
  by (induction q) auto

lemma take_timer_Some:
  "take_timer p q = Some (t, n, q') \<Longrightarrow>
   \<exists>a b. q = a @ t # b \<and> q' = a @ b \<and> p t \<and> (\<forall>u \<in> set a. \<not> p u)
     \<and> n = (case b of [] \<Rightarrow> None | u # _ \<Rightarrow> Some u)"
proof (induction q arbitrary: q')
  case (Cons u q)
  show ?case
  proof (cases "p u")
    case True
    with Cons.prems show ?thesis
      by (intro exI [of _ "[]"] exI [of _ q]) auto
  next
    case False
    with Cons.prems obtain q'' where q'': "take_timer p q = Some (t, n, q'')" and q': "q' = u # q''"
      by (auto split: prod.splits)
    from Cons.IH [OF q''] obtain a b where "q = a @ t # b \<and> q'' = a @ b \<and> p t \<and> (\<forall>u \<in> set a. \<not> p u)
        \<and> n = (case b of [] \<Rightarrow> None | u # _ \<Rightarrow> Some u)" by blast
    with False q' show ?thesis
      by (intro exI [of _ "u # a"] exI [of _ b]) auto
  qed
qed simp

lemma take_timer_set: "take_timer p q = Some (t, n, q') \<Longrightarrow> t \<in> set q \<and> set q' \<subseteq> set q"
  using take_timer_Some by fastforce

lemma take_timer_sorted:
  "take_timer p q = Some (t, n, q') \<Longrightarrow> sorted (map tm_timeout q) \<Longrightarrow> sorted (map tm_timeout q')"
  using take_timer_Some [of p q t n q'] by (auto simp: sorted_append)

end
