(* ===== verification/Messages.thy ===== *)
theory Messages
  imports Prelude
begin

text \<open>
  The messages of the AODV daemon (\<open>LA_Client_aodv/rreq.h\<close>, \<open>rrep.h\<close>, \<open>rerr.h\<close>,
  \<open>rrepAck.h\<close>, \<open>rerr.cc\<close>) and of the agent protocol (\<open>lib/COMMON/la_message\<close>):
  their fields, and the bytes they are sent as. RREQ, RREP and RREP-ACK objects are sent as
  their memory image, which is here the one of a little-endian machine with bit fields
  allocated from the least significant bit (x86, GCC). RERR and the agent's messages are
  packed field by field. The locale \<open>codec\<close> states what the receiving side relies on.
\<close>

section \<open>What a receiver relies on\<close>

locale codec =
  fixes enc :: "'a \<Rightarrow> u8 list" and dec :: "buffer \<Rightarrow> 'a" and ok :: "'a \<Rightarrow> bool"
  assumes dec_enc: "ok x \<Longrightarrow> dec (write_buf (enc x) b) = x"
begin

lemma enc_inject: "ok x \<Longrightarrow> ok y \<Longrightarrow> enc x = enc y \<Longrightarrow> x = y"
  by (metis dec_enc)

text \<open>What the buffer held before a message arrived does not show in the message.\<close>

lemma dec_stale: "ok x \<Longrightarrow> dec (write_buf (enc x) b) = dec (write_buf (enc x) b')"
  by (simp add: dec_enc)

end

section \<open>RREQ\<close>

abbreviation (input) AODV_RREQ :: u8 where "AODV_RREQ \<equiv> 1"
abbreviation (input) AODV_RREP :: u8 where "AODV_RREP \<equiv> 2"
abbreviation (input) AODV_RERR :: u8 where "AODV_RERR \<equiv> 3"
abbreviation (input) AODV_RREP_ACK :: u8 where "AODV_RREP_ACK \<equiv> 4"

record RREQ =
  rq_type :: u8
  rq_J :: bool
  rq_R :: bool
  rq_G :: bool
  rq_reserved1 :: "5 word"
  rq_reserved2 :: u8
  rq_hop_cnt :: u8
  rq_rreq_id :: u32
  rq_dest_ip :: ip
  rq_dest_seq_num :: u32
  rq_src_ip :: ip
  rq_src_seq_num :: u32

text \<open>\<open>sizeof (RREQ)\<close> bytes of memory, and the object a pointer to such bytes denotes.\<close>

definition RREQ_bytes :: "RREQ \<Rightarrow> u8 list" where
  "RREQ_bytes r =
     [rq_type r,
      of_bool (rq_J r) OR push_bit 1 (of_bool (rq_R r)) OR push_bit 2 (of_bool (rq_G r))
        OR push_bit 3 (ucast (rq_reserved1 r)),
      rq_reserved2 r, rq_hop_cnt r]
     @ le32 (rq_rreq_id r) @ le32 (rq_dest_ip r) @ le32 (rq_dest_seq_num r)
     @ le32 (rq_src_ip r) @ le32 (rq_src_seq_num r)"

definition RREQ_at :: "buffer \<Rightarrow> RREQ" where
  "RREQ_at b = \<lparr>rq_type = b 0, rq_J = bit (b 1) 0, rq_R = bit (b 1) 1, rq_G = bit (b 1) 2,
     rq_reserved1 = ucast (drop_bit 3 (b 1)), rq_reserved2 = b 2, rq_hop_cnt = b 3,
     rq_rreq_id = read32 b 4, rq_dest_ip = read32 b 8, rq_dest_seq_num = read32 b 12,
     rq_src_ip = read32 b 16, rq_src_seq_num = read32 b 20\<rparr>"

text \<open>The constructor \<open>RREQ (RREQ *)\<close>: a copy with the unused bits cleared.\<close>

definition RREQ_copy :: "RREQ \<Rightarrow> RREQ" where
  "RREQ_copy r = r\<lparr>rq_J := False, rq_R := False, rq_reserved1 := 0, rq_reserved2 := 0\<rparr>"

lemma length_RREQ_bytes: "length (RREQ_bytes r) = 24"
  by (simp add: RREQ_bytes_def)

lemmas buf_simps = write_buf_def read32_def le32_def bytes_join

lemma rreq_flag_bits:
  fixes J R G :: bool and v :: "5 word"
  defines "f \<equiv> (of_bool J :: u8) OR push_bit 1 (of_bool R) OR push_bit 2 (of_bool G)
        OR push_bit 3 (ucast v)"
  shows "bit f 0 = J" "bit f 1 = R" "bit f 2 = G" "ucast (drop_bit 3 f) = v"
  subgoal by (simp add: f_def bit_simps)
  subgoal by (simp add: f_def bit_simps)
  subgoal by (simp add: f_def bit_simps)
  subgoal
    by (rule bit_word_eqI) (auto simp: f_def bit_simps)
  done

interpretation rreq: codec RREQ_bytes RREQ_at "\<lambda>_. True"
proof unfold_locales
  fix r :: RREQ and b :: buffer
  show "RREQ_at (write_buf (RREQ_bytes r) b) = r"
    using rreq_flag_bits [of "rq_J r" "rq_R r" "rq_G r" "rq_reserved1 r"]
    by (simp add: RREQ_at_def RREQ_bytes_def buf_simps)
qed

section \<open>RREP\<close>

record RREP =
  rp_type :: u8
  rp_R :: bool
  rp_A :: bool
  rp_reserved1 :: "6 word"
  rp_reserved2 :: "3 word"
  rp_prefix_size :: "5 word"
  rp_hop_cnt :: u8
  rp_dest_ip :: ip
  rp_dest_seq_num :: u32
  rp_src_ip :: ip
  rp_lifetime :: u32

definition RREP_bytes :: "RREP \<Rightarrow> u8 list" where
  "RREP_bytes r =
     [rp_type r,
      of_bool (rp_R r) OR push_bit 1 (of_bool (rp_A r)) OR push_bit 2 (ucast (rp_reserved1 r)),
      ucast (rp_reserved2 r) OR push_bit 3 (ucast (rp_prefix_size r)),
      rp_hop_cnt r]
     @ le32 (rp_dest_ip r) @ le32 (rp_dest_seq_num r) @ le32 (rp_src_ip r) @ le32 (rp_lifetime r)"

definition RREP_at :: "buffer \<Rightarrow> RREP" where
  "RREP_at b = \<lparr>rp_type = b 0, rp_R = bit (b 1) 0, rp_A = bit (b 1) 1,
     rp_reserved1 = ucast (drop_bit 2 (b 1)), rp_reserved2 = ucast (b 2),
     rp_prefix_size = ucast (drop_bit 3 (b 2)), rp_hop_cnt = b 3,
     rp_dest_ip = read32 b 4, rp_dest_seq_num = read32 b 8, rp_src_ip = read32 b 12,
     rp_lifetime = read32 b 16\<rparr>"

text \<open>The constructors \<open>RREP (RREP *)\<close> and \<open>RREP (dst, seqNum, src, hopCnt, lifeTime)\<close>.\<close>

definition RREP_copy :: "RREP \<Rightarrow> RREP" where
  "RREP_copy r = r\<lparr>rp_R := False, rp_reserved1 := 0, rp_reserved2 := 0\<rparr>"

definition RREP_new :: "ip \<Rightarrow> u32 \<Rightarrow> ip \<Rightarrow> u8 \<Rightarrow> u32 \<Rightarrow> RREP" where
  "RREP_new dst seqNum srcIP hopCnt lTime =
     \<lparr>rp_type = AODV_RREP, rp_R = False, rp_A = False, rp_reserved1 = 0, rp_reserved2 = 0,
      rp_prefix_size = 0, rp_hop_cnt = hopCnt, rp_dest_ip = dst, rp_dest_seq_num = seqNum,
      rp_src_ip = srcIP, rp_lifetime = lTime\<rparr>"

lemma length_RREP_bytes: "length (RREP_bytes r) = 20"
  by (simp add: RREP_bytes_def)

lemma rrep_flag_bits:
  fixes R A :: bool and v :: "6 word" and p :: "3 word" and q :: "5 word"
  defines "f \<equiv> (of_bool R :: u8) OR push_bit 1 (of_bool A) OR push_bit 2 (ucast v)"
    and "g \<equiv> (ucast p :: u8) OR push_bit 3 (ucast q)"
  shows "bit f 0 = R" "bit f 1 = A" "ucast (drop_bit 2 f) = v"
    "ucast g = p" "ucast (drop_bit 3 g) = q"
  subgoal by (simp add: f_def bit_simps)
  subgoal by (simp add: f_def bit_simps)
  subgoal by (rule bit_word_eqI) (auto simp: f_def bit_simps)
  subgoal by (rule bit_word_eqI) (auto simp: g_def bit_simps)
  subgoal by (rule bit_word_eqI) (auto simp: g_def bit_simps dest: bit_imp_le_length)
  done

interpretation rrep: codec RREP_bytes RREP_at "\<lambda>_. True"
proof unfold_locales
  fix r :: RREP and b :: buffer
  show "RREP_at (write_buf (RREP_bytes r) b) = r"
    using rrep_flag_bits(1-3) [of "rp_R r" "rp_A r" "rp_reserved1 r"]
      rrep_flag_bits(4,5) [of "rp_reserved2 r" "rp_prefix_size r"]
    by (simp add: RREP_at_def RREP_bytes_def buf_simps)
qed

section \<open>RREP-ACK\<close>

record RREP_ACK =
  ra_type :: u8
  ra_reserved :: u8

definition RREP_ACK_new :: RREP_ACK where
  "RREP_ACK_new = \<lparr>ra_type = AODV_RREP_ACK, ra_reserved = 0\<rparr>"

definition RREP_ACK_bytes :: "RREP_ACK \<Rightarrow> u8 list" where
  "RREP_ACK_bytes r = [ra_type r, ra_reserved r]"

section \<open>RERR\<close>

record unrchDest =
  ud_dest_ip :: ip
  ud_dest_seq_num :: u32

record RERR =
  re_type :: u8
  re_N :: bool
  re_reserved1 :: "7 word"
  re_reserved2 :: u8
  re_dest_cnt :: u8
  re_unreachable_dest :: "unrchDest list"

text \<open>The constructor \<open>RERR ()\<close>, the setters and the getters.\<close>

definition RERR_new :: RERR where
  "RERR_new = \<lparr>re_type = AODV_RERR, re_N = False, re_reserved1 = 0, re_reserved2 = 0,
     re_dest_cnt = 0, re_unreachable_dest = []\<rparr>"

definition RERR_setNFlag :: "u8 \<Rightarrow> RERR \<Rightarrow> RERR" where
  "RERR_setNFlag val r = r\<lparr>re_N := (val = 1)\<rparr>"

definition RERR_setDestCnt :: "u8 \<Rightarrow> RERR \<Rightarrow> RERR" where
  "RERR_setDestCnt cnt r = r\<lparr>re_dest_cnt := cnt\<rparr>"

definition RERR_setUnrchDest :: "ip \<Rightarrow> u32 \<Rightarrow> RERR \<Rightarrow> RERR" where
  "RERR_setUnrchDest dst seq r =
     r\<lparr>re_unreachable_dest := re_unreachable_dest r @ [\<lparr>ud_dest_ip = dst, ud_dest_seq_num = seq\<rparr>]\<rparr>"

definition RERR_getN :: "RERR \<Rightarrow> u8" where
  "RERR_getN r = (if re_N r then 1 else 0)"

text \<open>
  \<open>getUnrchDest\<close> and \<open>getUnrchDestSeqNum\<close> read the first entry when the count field is 1,
  without looking whether there is one.
\<close>

definition RERR_getUnrchDest :: "RERR \<Rightarrow> ('s, ip) sm" where
  "RERR_getUnrchDest r =
     (if re_dest_cnt r = 1
      then (case re_unreachable_dest r of [] \<Rightarrow> raise EndDeref | d # _ \<Rightarrow> ret (ud_dest_ip d))
      else ret 0)"

definition RERR_getUnrchDestSeqNum :: "RERR \<Rightarrow> ('s, u32) sm" where
  "RERR_getUnrchDestSeqNum r =
     (if re_dest_cnt r = 1
      then (case re_unreachable_dest r of [] \<Rightarrow> raise EndDeref | d # _ \<Rightarrow> ret (ud_dest_seq_num d))
      else ret 0)"

text \<open>
  \<open>copyIntoBuf\<close> writes a 4-byte head and 8 bytes for each entry of the list (whatever the
  count field says); \<open>createRERR\<close> reads as many entries as the count byte says.
\<close>

definition RERR_bytes :: "RERR \<Rightarrow> u8 list" where
  "RERR_bytes r =
     [re_type r, push_bit 7 (RERR_getN r), re_reserved2 r, re_dest_cnt r]
     @ concat (map (\<lambda>d. le32 (ud_dest_ip d) @ le32 (ud_dest_seq_num d)) (re_unreachable_dest r))"

definition RERR_copyIntoBuf :: "RERR \<Rightarrow> buffer \<Rightarrow> buffer" where
  "RERR_copyIntoBuf r buf = write_buf (RERR_bytes r) buf"

definition RERR_createRERR :: "buffer \<Rightarrow> RERR \<Rightarrow> RERR" where
  "RERR_createRERR buf r =
     foldl (\<lambda>r i. RERR_setUnrchDest (read32 buf (4 + i * 8)) (read32 buf (8 + i * 8)) r)
       (RERR_setNFlag (drop_bit 7 (buf 1))
          (r\<lparr>re_type := buf 0, re_reserved2 := buf 2, re_dest_cnt := buf 3\<rparr>))
       [0..<unat (buf 3)]"

definition RERR_ok :: "RERR \<Rightarrow> bool" where
  "RERR_ok r \<longleftrightarrow> re_reserved1 r = 0 \<and> length (re_unreachable_dest r) < 256
     \<and> re_dest_cnt r = of_nat (length (re_unreachable_dest r))"

lemma length_RERR_bytes: "length (RERR_bytes r) = 4 + 8 * length (re_unreachable_dest r)"
proof -
  have "length (concat (map (\<lambda>d. le32 (ud_dest_ip d) @ le32 (ud_dest_seq_num d)) ds)) = 8 * length ds"
    for ds by (induction ds) simp_all
  then show ?thesis by (simp add: RERR_bytes_def)
qed

lemma createRERR_eq:
  "RERR_createRERR buf r = r\<lparr>re_type := buf 0, re_N := (drop_bit 7 (buf 1) = 1),
     re_reserved2 := buf 2, re_dest_cnt := buf 3,
     re_unreachable_dest := re_unreachable_dest r @
       map (\<lambda>i. \<lparr>ud_dest_ip = read32 buf (4 + i * 8), ud_dest_seq_num = read32 buf (8 + i * 8)\<rparr>)
         [0..<unat (buf 3)]\<rparr>"
proof -
  have "foldl (\<lambda>r i. RERR_setUnrchDest (f i) (g i) r) r0 is =
      r0\<lparr>re_unreachable_dest := re_unreachable_dest r0 @
        map (\<lambda>i. \<lparr>ud_dest_ip = f i, ud_dest_seq_num = g i\<rparr>) is\<rparr>" for f g r0 and "is" :: "nat list"
    by (induction "is" arbitrary: r0) (simp_all add: RERR_setUnrchDest_def)
  then show ?thesis by (simp add: RERR_createRERR_def RERR_setNFlag_def)
qed

text \<open>A word inside a packed list of pairs.\<close>

lemma nth_concat_pairs:
  assumes "\<And>x. x \<in> set xs \<Longrightarrow> length (f x) = 8" "i < length xs" "j < 8"
  shows "concat (map f xs) ! (8 * i + j) = f (xs ! i) ! j"
  using assms
proof (induction xs arbitrary: i)
  case (Cons x xs)
  show ?case
  proof (cases i)
    case 0
    then show ?thesis using Cons.prems by (simp add: nth_append)
  next
    case (Suc k)
    then show ?thesis using Cons by (simp add: nth_append)
  qed
qed simp

lemma read32_RERR:
  assumes "i < length (re_unreachable_dest r)"
  shows "read32 (write_buf (RERR_bytes r) b) (4 + i * 8) = ud_dest_ip (re_unreachable_dest r ! i)"
    and "read32 (write_buf (RERR_bytes r) b) (8 + i * 8) = ud_dest_seq_num (re_unreachable_dest r ! i)"
proof -
  let ?f = "\<lambda>d. le32 (ud_dest_ip d) @ le32 (ud_dest_seq_num d)"
  let ?ds = "re_unreachable_dest r"
  have byte: "write_buf (RERR_bytes r) b (4 + (8 * i + j)) = ?f (?ds ! i) ! j" if "j < 8" for j
  proof -
    have "4 + (8 * i + j) < length (RERR_bytes r)"
      using assms that by (simp add: length_RERR_bytes)
    then have "write_buf (RERR_bytes r) b (4 + (8 * i + j)) = RERR_bytes r ! (4 + (8 * i + j))"
      by (simp add: write_buf_def)
    also have "\<dots> = concat (map ?f ?ds) ! (8 * i + j)"
      by (simp add: RERR_bytes_def)
    also have "\<dots> = ?f (?ds ! i) ! j"
      using assms that by (intro nth_concat_pairs) simp_all
    finally show ?thesis .
  qed
  show "read32 (write_buf (RERR_bytes r) b) (4 + i * 8) = ud_dest_ip (?ds ! i)"
    using byte [of 0] byte [of 1] byte [of 2] byte [of 3]
    by (intro read32_le32) (simp_all add: nth_append algebra_simps)
  show "read32 (write_buf (RERR_bytes r) b) (8 + i * 8) = ud_dest_seq_num (?ds ! i)"
    using byte [of 4] byte [of 5] byte [of 6] byte [of 7]
    by (intro read32_le32) (simp_all add: nth_append algebra_simps)
qed

lemma write_buf_RERR_head:
  "write_buf (RERR_bytes r) b 0 = re_type r" "write_buf (RERR_bytes r) b 1 = push_bit 7 (RERR_getN r)"
  "write_buf (RERR_bytes r) b 2 = re_reserved2 r" "write_buf (RERR_bytes r) b 3 = re_dest_cnt r"
  by (simp_all add: write_buf_def RERR_bytes_def)

interpretation rerr: codec RERR_bytes "\<lambda>b. RERR_createRERR b RERR_new" RERR_ok
proof unfold_locales
  fix r :: RERR and b :: buffer
  assume ok: "RERR_ok r"
  let ?ds = "re_unreachable_dest r" and ?b = "write_buf (RERR_bytes r) b"
  have "drop_bit 7 (push_bit 7 (1 :: u8)) = 1"
    by (rule bit_word_eqI) (auto simp: bit_simps)
  then have N: "(drop_bit 7 (push_bit 7 (RERR_getN r)) = 1) = re_N r"
    by (simp add: RERR_getN_def)
  have cnt: "unat (re_dest_cnt r) = length ?ds"
    using ok by (simp add: RERR_ok_def unat_of_nat)
  have "map (\<lambda>i. \<lparr>ud_dest_ip = read32 ?b (4 + i * 8), ud_dest_seq_num = read32 ?b (8 + i * 8)\<rparr>)
      [0..<length ?ds] = ?ds"
    by (rule nth_equalityI) (simp_all add: read32_RERR)
  moreover have "re_reserved1 r = 0" using ok by (simp add: RERR_ok_def)
  ultimately show "RERR_createRERR ?b RERR_new = r"
    by (simp add: createRERR_eq write_buf_RERR_head [simplified] N cnt RERR_new_def)
qed

section \<open>The agent's messages\<close>

text \<open>\<open>LA_ODS_REQUEST\<close> and \<open>LA_ODS_REPLY\<close> (\<open>la_common.h\<close>), \<open>IP_FOUND\<close>, \<open>IP_NOFOUND\<close>.\<close>

abbreviation (input) LA_ODS_REQUEST :: u32 where "LA_ODS_REQUEST \<equiv> 0"
abbreviation (input) LA_ODS_REPLY :: u32 where "LA_ODS_REPLY \<equiv> 1"
abbreviation (input) IP_FOUND :: u32 where "IP_FOUND \<equiv> 1"
abbreviation (input) IP_NOFOUND :: u32 where "IP_NOFOUND \<equiv> 0"

record LAMessage =
  la_cmd :: u32
  la_dst_address :: ip
  la_src_address :: ip
  la_protocol :: u8
  la_result :: u32

definition LAMessage_generate_stream :: "LAMessage \<Rightarrow> u8 list" where
  "LAMessage_generate_stream m = le32 (la_cmd m) @ le32 (la_dst_address m)
     @ le32 (la_src_address m) @ [la_protocol m] @ le32 (la_result m)"

definition LAMessage_parse_stream :: "buffer \<Rightarrow> LAMessage" where
  "LAMessage_parse_stream b = \<lparr>la_cmd = read32 b 0, la_dst_address = read32 b 4,
     la_src_address = read32 b 8, la_protocol = b 12, la_result = read32 b 13\<rparr>"

lemma length_LAMessage: "length (LAMessage_generate_stream m) = 17"
  by (simp add: LAMessage_generate_stream_def)

interpretation lamsg: codec LAMessage_generate_stream LAMessage_parse_stream "\<lambda>_. True"
  by unfold_locales
    (simp add: LAMessage_parse_stream_def LAMessage_generate_stream_def buf_simps)

end
