(* ===== verification/Lists.thy ===== *)
theory Lists
  imports Params Messages
begin

text \<open>
  The small tables of the AODV daemon: the blacklist (\<open>blacklist.cc\<close>), the RREQs seen
  recently (\<open>fwRreqList.cc\<close>), the destinations under local repair (\<open>localRepair.cc\<close>) and the
  RREQs that await a reply (\<open>rreqPendingList.cc\<close>), each as the list the code keeps. The
  operations that read the clock take the reading as an argument here. The locale
  \<open>keyed_list\<close> is what the handlers rely on of a table of keys.
\<close>

locale keyed_list =
  fixes mem :: "'k \<Rightarrow> 'l \<Rightarrow> bool" and add :: "'k \<Rightarrow> 'l \<Rightarrow> 'l" and uniq :: "'l \<Rightarrow> bool"
  assumes mem_add: "mem k' (add k l) \<longleftrightarrow> k' = k \<or> mem k' l"
    and add_present: "mem k l \<Longrightarrow> add k l = l"
    and uniq_add: "uniq l \<Longrightarrow> uniq (add k l)"
begin

lemma mem_add_same [simp]: "mem k (add k l)"
  by (simp add: mem_add)

lemma add_twice [simp]: "add k (add k l) = add k l"
  by (rule add_present) simp

lemma mem_fold_add: "mem k (fold add ks l) \<longleftrightarrow> k \<in> set ks \<or> mem k l"
  by (induction ks arbitrary: l) (auto simp: mem_add)

lemma uniq_fold_add: "uniq l \<Longrightarrow> uniq (fold add ks l)"
  by (induction ks arbitrary: l) (auto simp: uniq_add)

end

section \<open>Blacklist\<close>

record blacklist_entry =
  be_dest_ip :: ip
  be_lifetime :: u64

text \<open>
  \<open>inList\<close> as written: the loop looks at the first entry and never advances its iterator.
  \<open>None\<close> is a loop that does not end.
\<close>

partial_function (option) blacklist_inList :: "blacklist_entry list \<Rightarrow> ip \<Rightarrow> bool option" where
  "blacklist_inList l dst =
     (case l of [] \<Rightarrow> Some False
      | e # _ \<Rightarrow> if be_dest_ip e = dst then Some True else blacklist_inList l dst)"

lemma blacklist_inList_returns:
  assumes "blacklist_inList l dst = Some r"
  shows "case l of [] \<Rightarrow> \<not> r | e # _ \<Rightarrow> be_dest_ip e = dst \<and> r"
proof (rule blacklist_inList.raw_induct
    [where P = "\<lambda>l dst r. case l of [] \<Rightarrow> \<not> r | e # _ \<Rightarrow> be_dest_ip e = dst \<and> r", OF _ assms])
  fix loop :: "blacklist_entry list \<Rightarrow> ip \<Rightarrow> bool option" and l dst r
  assume IH: "\<And>l dst r. loop l dst = Some r \<Longrightarrow> case l of [] \<Rightarrow> \<not> r | e # _ \<Rightarrow> be_dest_ip e = dst \<and> r"
    and eq: "(case l of [] \<Rightarrow> Some False
      | e # _ \<Rightarrow> if be_dest_ip e = dst then Some True else loop l dst) = Some r"
  show "case l of [] \<Rightarrow> \<not> r | e # _ \<Rightarrow> be_dest_ip e = dst \<and> r"
    using eq IH [of l dst r] by (cases l) (auto split: if_splits)
qed

text \<open>What that loop computes: it ends only on an empty list or on a match at the head.\<close>

lemma blacklist_inList_eq [code]:
  "blacklist_inList l dst =
     (case l of [] \<Rightarrow> Some False | e # _ \<Rightarrow> if be_dest_ip e = dst then Some True else None)"
proof (cases l)
  case Nil
  then show ?thesis by (simp add: blacklist_inList.simps)
next
  case (Cons e l')
  show ?thesis
  proof (cases "be_dest_ip e = dst")
    case True
    then show ?thesis by (simp add: Cons blacklist_inList.simps [of "e # l'"])
  next
    case False
    then have "blacklist_inList l dst \<noteq> Some r" for r
      using blacklist_inList_returns [of l dst r] Cons by auto
    then show ?thesis using False Cons by (cases "blacklist_inList l dst") auto
  qed
qed

definition blacklist_addToList :: "u64 \<Rightarrow> ip \<Rightarrow> u64 \<Rightarrow> blacklist_entry list \<Rightarrow> blacklist_entry list" where
  "blacklist_addToList now dst lTime l = l @ [\<lparr>be_dest_ip = dst, be_lifetime = now + lTime\<rparr>]"

fun blacklist_updateEntries :: "u64 \<Rightarrow> blacklist_entry list \<Rightarrow> blacklist_entry list" where
  "blacklist_updateEntries currtime [] = []"
| "blacklist_updateEntries currtime (e # l) =
     (if be_lifetime e \<le> currtime then blacklist_updateEntries currtime l
      else e # blacklist_updateEntries currtime l)"

lemma blacklist_updateEntries_filter:
  "blacklist_updateEntries t l = filter (\<lambda>e. t < be_lifetime e) l"
  by (induction l) (auto simp: not_less)

section \<open>RREQs seen recently\<close>

record fw_rreq_entry =
  fw_src_ip :: ip
  fw_rreq_id :: u32
  fw_lifetime :: u64

fun fwRreqList_inList :: "fw_rreq_entry list \<Rightarrow> ip \<Rightarrow> u32 \<Rightarrow> bool" where
  "fwRreqList_inList [] src rreqId = False"
| "fwRreqList_inList (e # l) src rreqId =
     (if fw_src_ip e = src \<and> fw_rreq_id e = rreqId then True else fwRreqList_inList l src rreqId)"

definition fwRreqList_addToList ::
    "u64 \<Rightarrow> ip \<Rightarrow> u32 \<Rightarrow> fw_rreq_entry list \<Rightarrow> fw_rreq_entry list" where
  "fwRreqList_addToList now src rreqId l =
     (if fwRreqList_inList l src rreqId then l
      else l @ [\<lparr>fw_src_ip = src, fw_rreq_id = rreqId, fw_lifetime = now + PATH_TRAVERSAL_TIME\<rparr>])"

lemma fwRreqList_inList_iff:
  "fwRreqList_inList l src i \<longleftrightarrow> (src, i) \<in> set (map (\<lambda>e. (fw_src_ip e, fw_rreq_id e)) l)"
  by (induction l) auto

interpretation fw: keyed_list "\<lambda>k l. fwRreqList_inList l (fst k) (snd k)"
  "\<lambda>k. fwRreqList_addToList now (fst k) (snd k)"
  "\<lambda>l. distinct (map (\<lambda>e. (fw_src_ip e, fw_rreq_id e)) l)" for now
  by unfold_locales (auto simp: fwRreqList_addToList_def fwRreqList_inList_iff)

section \<open>Destinations under local repair\<close>

record local_repair_entry =
  lr_dest_ip :: ip

text \<open>\<open>findInList\<close>: the index of the first entry, \<open>None\<close> for the null iterator.\<close>

fun localRepair_findInList :: "local_repair_entry list \<Rightarrow> ip \<Rightarrow> nat option" where
  "localRepair_findInList [] dst = None"
| "localRepair_findInList (e # l) dst =
     (if lr_dest_ip e = dst then Some 0 else map_option Suc (localRepair_findInList l dst))"

definition localRepair_addToList :: "ip \<Rightarrow> local_repair_entry list \<Rightarrow> local_repair_entry list" where
  "localRepair_addToList dst l =
     (case localRepair_findInList l dst of Some _ \<Rightarrow> l | None \<Rightarrow> l @ [\<lparr>lr_dest_ip = dst\<rparr>])"

definition localRepair_erase :: "nat \<Rightarrow> local_repair_entry list \<Rightarrow> local_repair_entry list" where
  "localRepair_erase i l = take i l @ drop (Suc i) l"

definition localRepair_deleteFromList :: "ip \<Rightarrow> local_repair_entry list \<Rightarrow> local_repair_entry list" where
  "localRepair_deleteFromList dst l =
     (case localRepair_findInList l dst of Some i \<Rightarrow> localRepair_erase i l | None \<Rightarrow> l)"

lemma localRepair_findInList_None:
  "localRepair_findInList l dst = None \<longleftrightarrow> dst \<notin> lr_dest_ip ` set l"
  by (induction l) auto

lemma localRepair_deleteFromList_simps:
  "localRepair_deleteFromList dst [] = []"
  "localRepair_deleteFromList dst (e # l) =
     (if lr_dest_ip e = dst then l else e # localRepair_deleteFromList dst l)"
  by (auto simp: localRepair_deleteFromList_def localRepair_erase_def split: option.splits)

lemma localRepair_deleteFromList_dest:
  "distinct (map lr_dest_ip l) \<Longrightarrow>
   lr_dest_ip ` set (localRepair_deleteFromList dst l) = lr_dest_ip ` set l - {dst}
   \<and> distinct (map lr_dest_ip (localRepair_deleteFromList dst l))"
proof (induction l)
  case (Cons e l)
  have "dst \<notin> lr_dest_ip ` set l" if "lr_dest_ip e = dst" using that Cons.prems by auto
  with Cons show ?case by (auto simp: localRepair_deleteFromList_simps)
qed (simp add: localRepair_deleteFromList_simps)

interpretation lrepair: keyed_list "\<lambda>dst l. localRepair_findInList l dst \<noteq> None"
  localRepair_addToList "\<lambda>l. distinct (map lr_dest_ip l)"
  by unfold_locales
    (auto simp: localRepair_addToList_def localRepair_findInList_None
      simp flip: not_None_eq split: option.splits)

section \<open>RREQs that await a reply\<close>

record rreq_list_entry =
  pe_rreqOb :: RREQ
  pe_retries :: u32
  pe_ttl :: int

text \<open>
  The two-argument \<open>inList\<close> tests that the entry's identifier is not 0, not that it is the
  one asked for.
\<close>

fun rreqPendingList_inList2 :: "rreq_list_entry list \<Rightarrow> ip \<Rightarrow> u32 \<Rightarrow> rreq_list_entry option" where
  "rreqPendingList_inList2 [] dst rreqId = None"
| "rreqPendingList_inList2 (e # l) dst rreqId =
     (if rq_dest_ip (pe_rreqOb e) = dst \<and> rq_rreq_id (pe_rreqOb e) \<noteq> 0 then Some e
      else rreqPendingList_inList2 l dst rreqId)"

fun rreqPendingList_inList :: "rreq_list_entry list \<Rightarrow> ip \<Rightarrow> rreq_list_entry option" where
  "rreqPendingList_inList [] dst = None"
| "rreqPendingList_inList (e # l) dst =
     (if rq_dest_ip (pe_rreqOb e) = dst then Some e else rreqPendingList_inList l dst)"

definition rreqPendingList_addToList ::
    "RREQ \<Rightarrow> u32 \<Rightarrow> int \<Rightarrow> rreq_list_entry list \<Rightarrow> rreq_list_entry list" where
  "rreqPendingList_addToList rOb retry_val ttl_val l =
     l @ [\<lparr>pe_rreqOb = rOb, pe_retries = retry_val, pe_ttl = ttl_val\<rparr>]"

fun rreqPendingList_deleteFromList :: "ip \<Rightarrow> rreq_list_entry list \<Rightarrow> rreq_list_entry list" where
  "rreqPendingList_deleteFromList dst [] = []"
| "rreqPendingList_deleteFromList dst (e # l) =
     (if rq_dest_ip (pe_rreqOb e) = dst then l else e # rreqPendingList_deleteFromList dst l)"

text \<open>Writing through the pointer that \<open>inList (dst)\<close> returned: the first entry for \<open>dst\<close>.\<close>

fun rreqPendingList_write :: "ip \<Rightarrow> rreq_list_entry \<Rightarrow> rreq_list_entry list \<Rightarrow> rreq_list_entry list" where
  "rreqPendingList_write dst e' [] = []"
| "rreqPendingList_write dst e' (e # l) =
     (if rq_dest_ip (pe_rreqOb e) = dst then e' # l else e # rreqPendingList_write dst e' l)"

lemma rreqPendingList_inList_Some:
  "rreqPendingList_inList l dst = Some e \<Longrightarrow> e \<in> set l \<and> rq_dest_ip (pe_rreqOb e) = dst"
  by (induction l) (auto split: if_splits)

lemma rreqPendingList_inList_None:
  "rreqPendingList_inList l dst = None \<longleftrightarrow> (\<forall>e \<in> set l. rq_dest_ip (pe_rreqOb e) \<noteq> dst)"
  by (induction l) auto

lemma rreqPendingList_inList_write:
  "rreqPendingList_inList l dst = Some e \<Longrightarrow> rq_dest_ip (pe_rreqOb e') = dst \<Longrightarrow>
   rreqPendingList_inList (rreqPendingList_write dst e' l) dst = Some e'"
  by (induction l) (auto split: if_splits)

lemma length_rreqPendingList_delete:
  "rreqPendingList_inList l dst = Some e \<Longrightarrow>
   Suc (length (rreqPendingList_deleteFromList dst l)) = length l"
  by (induction l) (auto split: if_splits)

end
