(* ===== verification/Node.thy ===== *)
theory Node
  imports Rtable_Entry Timers Lists
begin

text \<open>
  The state of the AODV daemon: the global variables of \<open>LA_Client_aodv/main.cc\<close>, what the
  daemon has sent to its environment so far, and the environment it reads from. The second
  half gives the operations the handlers are made of: reading the clock, the timer queue with
  the process's interval timer (\<open>timerQueue.cc\<close>), access to the routing table through
  pointers, kernel routes, replies to the agent, sending packets.
\<close>

section \<open>The environment\<close>

text \<open>
  \<open>clock k\<close> is the value of the k-th call of \<open>getcurrtime\<close>; \<open>proc_route_check k\<close> is what
  \<open>/proc/asl/route_check\<close> holds after k such calls (\<open>None\<close>: it cannot be opened), a line's
  address being \<open>None\<close> when \<open>inet_aton\<close> refuses it; \<open>malloc_usable n\<close> is the size of the
  block that \<open>malloc (n)\<close> returns; \<open>ifindex\<close> is the index of the daemon's interface; the
  \<open>junk\<close> values are what uninitialised variables happen to hold after so many readings.
\<close>

record proc_line =
  pl_addr :: "ip option"
  pl_last_use :: u64
  pl_flag :: int

record env =
  clock :: "nat \<Rightarrow> u64"
  proc_route_check :: "nat \<Rightarrow> proc_line list option"
  malloc_usable :: "nat \<Rightarrow> nat"
  ifindex :: int
  junk_rflags :: "nat \<Rightarrow> u8"
  junk_ttl :: "nat \<Rightarrow> int"
  junk_precAddr :: "nat \<Rightarrow> ip"
  junk_rrep :: "nat \<Rightarrow> RREP"

text \<open>
  What the daemon does to its environment: the socket option \<open>IP_TTL\<close>, a datagram, bytes to
  the agent, \<open>FO_add_a_route\<close> (destination, prefix length, gateway, interface, metric, source),
  the ioctl \<open>SIOCDELRT\<close>, and \<open>setitimer\<close> (seconds, microseconds).
\<close>

datatype effect =
    SetTTL int
  | Sendto ip "u8 list"
  | La_send "u8 list"
  | Add_route ip int ip int int ip
  | Del_route rtentry
  | Setitimer u64 u64

section \<open>The state\<close>

record node =
  env :: env
  ticks :: nat
  rTableMap :: rtmap
  rreq_list :: "rreq_list_entry list"
  fw_rreq_list :: "fw_rreq_entry list"
  local_repair_list :: "local_repair_entry list"
  timerQ :: "timer list"
  next_id :: nat
  bList :: "blacklist_entry list"
  rreqId :: u32
  localSeqNum :: u32
  g_my_ip :: ip
  recvBuffer :: buffer
  sendBuffer :: buffer
  helloSendFlag :: bool
  expandingRingSearch :: bool
  rrepAckFlag :: bool
  duringReboot :: bool
  needToSendHello :: bool
  localRepairFlag :: bool
  outs :: "effect list"

section \<open>Clock, interval timer and timer queue\<close>

definition getcurrtime :: "(node, u64) sm" where
  "getcurrtime = (\<lambda>s. Inr (clock (env s) (ticks s), s\<lparr>ticks := Suc (ticks s)\<rparr>))"

definition emit :: "effect \<Rightarrow> (node, unit) sm" where
  "emit o' = upd (\<lambda>s. s\<lparr>outs := outs s @ [o']\<rparr>)"

text \<open>Seconds and microseconds of a number of milliseconds, computed as the code does.\<close>

definition setRealTimer :: "u64 \<Rightarrow> (node, unit) sm" where
  "setRealTimer timeout =
     (let time_sec = timeout div 1000; time_usec = (timeout - time_sec * 1000) * 1000
      in emit (Setitimer time_sec time_usec))"

definition timer_add :: "u64 \<Rightarrow> timer_hfunc \<Rightarrow> timerData \<Rightarrow> (node, unit) sm" where
  "timer_add timeVal func dataVal =
     bnd getcurrtime (\<lambda>currtime.
     upd (\<lambda>s. s\<lparr>timerQ := timer_insert \<lparr>tm_timeout = currtime + timeVal, tm_handler = func,
                   tm_data = dataVal, tm_id = next_id s\<rparr> (timerQ s),
               next_id := Suc (next_id s)\<rparr>))"

definition setLowestTimer :: "u64 \<Rightarrow> (node, unit) sm" where
  "setLowestTimer timeVal =
     bnd getcurrtime (\<lambda>currtime.
     bnd (gets timerQ) (\<lambda>q.
     case q of [] \<Rightarrow> raise EndDeref
     | t # _ \<Rightarrow> whenM (tm_timeout t = currtime + timeVal) (setRealTimer timeVal)))"

definition set_timer :: "u64 \<Rightarrow> timer_hfunc \<Rightarrow> timerData \<Rightarrow> (node, unit) sm" where
  "set_timer timeVal fun dataVal = andthen (timer_add timeVal fun dataVal) (setLowestTimer timeVal)"

definition set_timer_first :: "u64 \<Rightarrow> timer_hfunc \<Rightarrow> timerData \<Rightarrow> (node, unit) sm" where
  "set_timer_first timeVal fun dataVal = andthen (timer_add timeVal fun dataVal) (setRealTimer timeVal)"

text \<open>
  \<open>resetRebootTimer\<close>: the first reboot timer gets a new timeout where it stands, and
  \<open>setRealTimer\<close> is given that absolute time.
\<close>

fun reset_first :: "u64 \<Rightarrow> timer list \<Rightarrow> timer list" where
  "reset_first v [] = []"
| "reset_first v (t # q) =
     (if td_type (tm_data t) = REBOOT_TIMER then t\<lparr>tm_timeout := v\<rparr> # q else t # reset_first v q)"

definition resetRebootTimer :: "(node, unit) sm" where
  "resetRebootTimer =
     bnd (gets timerQ) (\<lambda>q.
     case take_timer (\<lambda>t. td_type (tm_data t) = REBOOT_TIMER) q of
       None \<Rightarrow> ret ()
     | Some (t, _, _) \<Rightarrow>
         bnd getcurrtime (\<lambda>currtime.
         andthen (upd (\<lambda>s. s\<lparr>timerQ := reset_first (currtime + DELETE_PERIOD) (timerQ s)\<rparr>))
           (whenM (isSetNow t q) (setRealTimer (currtime + DELETE_PERIOD)))))"

text \<open>
  The removals: when the timer looks like the head of the queue, the interval timer is set for
  the timer after it.
\<close>

definition remove_timer :: "(timer \<Rightarrow> bool) \<Rightarrow> (node, timer option) sm" where
  "remove_timer p =
     bnd (gets timerQ) (\<lambda>q.
     case take_timer p q of
       None \<Rightarrow> ret None
     | Some (t, newIter, q') \<Rightarrow>
         andthen
           (if isTimerSetNow t q
            then (case newIter of
                    None \<Rightarrow> ret ()
                  | Some u \<Rightarrow> bnd getcurrtime (\<lambda>now. setRealTimer (tm_timeout u - now)))
            else ret ())
           (andthen (upd (\<lambda>s. s\<lparr>timerQ := q'\<rparr>)) (ret (Some t))))"

definition removeRREQTimer :: "ip \<Rightarrow> (node, int) sm" where
  "removeRREQTimer dst =
     bnd (remove_timer (is_rreq_timer dst)) (\<lambda>r.
     case r of None \<Rightarrow> ret 0
     | Some t \<Rightarrow> ret (if td_type (tm_data t) = LR_TIMER then LR_TIMER else RREQ_TIMER))"

definition removeRREP_ACK_Timer :: "ip \<Rightarrow> (node, unit) sm" where
  "removeRREP_ACK_Timer dst = bnd (remove_timer (is_rrep_ack_timer dst)) (\<lambda>_. ret ())"

text \<open>\<open>removeActiveRouteTimer\<close> never touches the interval timer.\<close>

definition removeActiveRouteTimer :: "ip \<Rightarrow> (node, unit) sm" where
  "removeActiveRouteTimer dst =
     bnd (gets timerQ) (\<lambda>q.
     case take_timer (is_active_route_timer dst) q of
       None \<Rightarrow> ret ()
     | Some (t, newIter, q') \<Rightarrow> upd (\<lambda>s. s\<lparr>timerQ := q'\<rparr>))"

fun isActiveTimerInQueue :: "timer list \<Rightarrow> ip \<Rightarrow> bool" where
  "isActiveTimerInQueue [] dst = False"
| "isActiveTimerInQueue (t # q) dst =
     (if td_type (tm_data t) = ACTIVE_ROUTE_TIMER \<and> td_data (tm_data t) = dst then True
      else isActiveTimerInQueue q dst)"

section \<open>Routing table access, kernel routes\<close>

definition findRoute :: "ip \<Rightarrow> (node, rtable_entry option) sm" where
  "findRoute dest = gets (\<lambda>s. map_of (rTableMap s) dest)"

text \<open>Writing fields of the entry under a key, through a pointer or an iterator.\<close>

definition write_route :: "ip \<Rightarrow> (rtable_entry \<Rightarrow> rtable_entry) \<Rightarrow> (node, unit) sm" where
  "write_route k f = upd (\<lambda>s. s\<lparr>rTableMap := om_modify k f (rTableMap s)\<rparr>)"

definition add_kroute :: "rtable_entry \<Rightarrow> (node, unit) sm" where
  "add_kroute e =
     bnd (gets (\<lambda>s. ifindex (env s))) (\<lambda>ifi.
     emit (Add_route (rt_dest_ip e) 32 (rt_next_hop e) ifi 100 0))"

definition del_kroute :: "rtable_entry \<Rightarrow> (node, unit) sm" where
  "del_kroute e =
     bnd (gets g_my_ip) (\<lambda>my_ip.
     emit (Del_route (gen_krtentry my_ip e)))"

definition addRoute :: "rtable_entry \<Rightarrow> (node, unit) sm" where
  "addRoute rtEntry =
     upd (\<lambda>s. s\<lparr>rTableMap := om_insert (rt_dest_ip rtEntry) rtEntry (rTableMap s)\<rparr>)"

text \<open>
  \<open>findRouteIter\<close> of a key that was just inserted; a null iterator would be dereferenced.
\<close>

definition insertRoute :: "rtable_entry \<Rightarrow> (node, unit) sm" where
  "insertRoute rtEntry =
     andthen (addRoute rtEntry)
       (bnd (findRoute (rt_dest_ip rtEntry)) (\<lambda>iter.
        case iter of None \<Rightarrow> raise NullDeref | Some e \<Rightarrow> add_kroute e))"

text \<open>\<open>addAllValidRoutes\<close>: from \<open>begin ()\<close> to \<open>end ()\<close>.\<close>

definition addAllValidRoutes :: "(node, unit) sm" where
  "addAllValidRoutes =
     bnd (gets rTableMap) (\<lambda>m.
     forM m (\<lambda>(k, e). whenM (rt_routing_flags e = ACTIVE_ROUTE) (add_kroute e)))"

definition init_rTable :: "(node, unit) sm" where
  "init_rTable =
     bnd (gets g_my_ip) (\<lambda>my_ip.
     bnd (gets localSeqNum) (\<lambda>seq.
     bnd getcurrtime (\<lambda>now.
     insertRoute (initMyRtableEntry my_ip seq now))))"

definition deleteKernelRoute :: "ip \<Rightarrow> (node, unit) sm" where
  "deleteKernelRoute dst =
     bnd (findRoute dst) (\<lambda>iter. case iter of None \<Rightarrow> ret () | Some e \<Rightarrow> del_kroute e)"

definition getDestSeqNum :: "ip \<Rightarrow> (node, u32) sm" where
  "getDestSeqNum dst =
     bnd (findRoute dst) (\<lambda>iter. case iter of None \<Rightarrow> ret 0 | Some e \<Rightarrow> ret (rt_dest_seq_num e))"

definition setDestSeqNum :: "ip \<Rightarrow> u32 \<Rightarrow> (node, unit) sm" where
  "setDestSeqNum dst seqNum = write_route dst (\<lambda>e. e\<lparr>rt_dest_seq_num := seqNum\<rparr>)"

definition setLifeTime :: "ip \<Rightarrow> u64 \<Rightarrow> (node, unit) sm" where
  "setLifeTime dst lt = write_route dst (\<lambda>e. e\<lparr>rt_lifetime := lt\<rparr>)"

definition updateDestSeqNum :: "ip \<Rightarrow> u32 \<Rightarrow> (node, unit) sm" where
  "updateDestSeqNum dest seqNum =
     write_route dest (\<lambda>e. if rt_dest_seq_num e < seqNum then e\<lparr>rt_dest_seq_num := seqNum\<rparr> else e)"

definition isRouteValid :: "rtable_entry \<Rightarrow> (node, bool) sm" where
  "isRouteValid e =
     (if rt_hop_cnt e \<noteq> INFINITY_HOPS
      then bnd getcurrtime (\<lambda>now. ret (rt_lifetime e > now))
      else ret False)"

definition getTTL :: "ip \<Rightarrow> (node, u8) sm" where
  "getTTL dst =
     bnd (findRoute dst) (\<lambda>iter.
     case iter of None \<Rightarrow> ret 0
     | Some e \<Rightarrow> bnd (isRouteValid e) (\<lambda>v. ret (if v then rt_hop_cnt e else rt_last_hop_cnt e)))"

definition findActiveRoute :: "ip \<Rightarrow> (node, rtable_entry option) sm" where
  "findActiveRoute dest =
     bnd getcurrtime (\<lambda>currtime.
     bnd (findRoute dest) (\<lambda>rtEntry.
     case rtEntry of None \<Rightarrow> ret None
     | Some e \<Rightarrow> ret (if rt_lifetime e > currtime \<and> rt_routing_flags e = ACTIVE_ROUTE
                     then Some e else None)))"

definition findValidRoute :: "ip \<Rightarrow> u32 \<Rightarrow> (node, rtable_entry option) sm" where
  "findValidRoute dest seqNum =
     bnd (findRoute dest) (\<lambda>rtEntry.
     case rtEntry of None \<Rightarrow> ret None
     | Some e \<Rightarrow> ret (if rt_dest_seq_num e \<ge> seqNum \<and> rt_routing_flags e = ACTIVE_ROUTE
                     then Some e else None))"

section \<open>Sending\<close>

text \<open>The reply the code builds in many places: \<open>LA_ODS_REPLY\<close> for a destination.\<close>

definition la_reply :: "ip \<Rightarrow> u32 \<Rightarrow> (node, unit) sm" where
  "la_reply dst res =
     emit (La_send (LAMessage_generate_stream
       \<lparr>la_cmd = LA_ODS_REPLY, la_dst_address = dst, la_src_address = 0, la_protocol = 0,
        la_result = res\<rparr>))"

record sendData =
  sd_dest_ip :: ip
  sd_ttl :: int

definition genSndData :: "ip \<Rightarrow> int \<Rightarrow> sendData" where
  "genSndData dst ttl = \<lparr>sd_dest_ip = dst, sd_ttl = ttl\<rparr>"

definition copyToSendBuf :: "u8 list \<Rightarrow> (node, unit) sm" where
  "copyToSendBuf dat = upd (\<lambda>s. s\<lparr>sendBuffer := write_buf dat (\<lambda>_. 0)\<rparr>)"

definition sendPacket :: "sendData \<Rightarrow> nat \<Rightarrow> (node, unit) sm" where
  "sendPacket snd' data_len =
     (if sd_ttl snd' = 0 then ret ()
      else
        andthen (whenM (sd_dest_ip snd' = BROADCAST_ADDR) (upd (\<lambda>s. s\<lparr>needToSendHello := False\<rparr>)))
       (andthen (whenM (0 < sd_ttl snd' \<and> sd_ttl snd' < 256) (emit (SetTTL (sd_ttl snd'))))
       (bnd (gets sendBuffer) (\<lambda>buf.
        emit (Sendto (sd_dest_ip snd') (read_buf data_len buf))))))"

text \<open>\<open>genSndData\<close>, \<open>copyToSendBuf\<close>, \<open>sendPacket\<close>, in this order at every place that sends.\<close>

definition send_bytes :: "ip \<Rightarrow> int \<Rightarrow> u8 list \<Rightarrow> (node, unit) sm" where
  "send_bytes dst ttl dat =
     andthen (copyToSendBuf dat) (sendPacket (genSndData dst ttl) (length dat))"

text \<open>
  A RERR is packed in a block of \<open>malloc (sizeof (len))\<close>, that is 4 bytes, into which \<open>len\<close>
  bytes are written; whether the allocator's block is large enough is the environment's.
\<close>

definition rerr_block :: "nat \<Rightarrow> (node, unit) sm" where
  "rerr_block len =
     bnd (gets (\<lambda>s. malloc_usable (env s) 4)) (\<lambda>n.
     if len \<le> n then ret () else raise (HeapOverflow len n))"

definition packed_rerr :: "RERR \<Rightarrow> nat \<Rightarrow> u8 list" where
  "packed_rerr r len = read_buf len (RERR_copyIntoBuf r (\<lambda>_. 0))"

definition generateRERR :: "ip \<Rightarrow> u8 \<Rightarrow> bool \<Rightarrow> (node, unit) sm" where
  "generateRERR dst N_flag brdFlag =
     bnd (findRoute dst) (\<lambda>rtEntry.
     let seqNum = (case rtEntry of None \<Rightarrow> 0 | Some e \<Rightarrow> rt_dest_seq_num e);
         precCnt = (case rtEntry of None \<Rightarrow> 0 | Some e \<Rightarrow> getPrecCnt e) in
     if precCnt > 0 \<or> brdFlag then
       let rerrOb = RERR_setUnrchDest dst seqNum (RERR_setDestCnt 1 (RERR_setNFlag N_flag RERR_new));
           len = 4 * (1 + 2 * unat (re_dest_cnt rerrOb)) in
       andthen (rerr_block len)
         (if precCnt = 1 then
            (case rtEntry of None \<Rightarrow> raise NullDeref
             | Some e \<Rightarrow> bnd (getPrecAddr e) (\<lambda>precAddr.
                 send_bytes precAddr 1 (packed_rerr rerrOb len)))
          else send_bytes BROADCAST_ADDR 1 (packed_rerr rerrOb len))
     else ret ())"

end
