(* ===== verification/Steps.thy ===== *)
theory Steps
  imports Node
begin

text \<open>
  The primitive changes of the daemon's state. Every handler of the daemon is proved to be a
  sequence of \<open>prim\<close> steps; the invariants of the daemon are the predicates that each such
  step keeps (interpretations of \<open>closed_under\<close> at the end). The parameter of \<open>prim\<close> grades
  what may happen to the timer queue: at 0 timers are only added; from 1 on they may also be
  removed; from 2 on the reboot timer may also be reset, the one step that disturbs the order
  of the queue.
\<close>

section \<open>The steps\<close>

text \<open>The type that the daemon gives to a timer of each handler function.\<close>

fun handler_type :: "timer_hfunc \<Rightarrow> int" where
  "handler_type RebootHandler = REBOOT_TIMER"
| "handler_type PeriodicHandler = PERIODIC_TIMER"
| "handler_type SendHello = HELLO_TIMER"
| "handler_type ResendRREQ = RREQ_TIMER"
| "handler_type LR_Timer = LR_TIMER"
| "handler_type RrepAck = RREP_ACK_TIMER"
| "handler_type NeighborTimeout = ACTIVE_ROUTE_TIMER"

definition is_ack :: "timer \<Rightarrow> bool" where
  "is_ack t \<longleftrightarrow> tm_handler t = RrepAck"

text \<open>
  What the daemon's outputs have in common: a time to live that fits the header field, a
  host route with the metric 100, an interval below a second in the microseconds, and towards
  the agent nothing but replies that say found or not found.
\<close>

fun effect_ok :: "effect \<Rightarrow> bool" where
  "effect_ok (SetTTL t) = (0 < t \<and> t < 256)"
| "effect_ok (Sendto dst bs) = (bs \<noteq> [])"
| "effect_ok (La_send bs) =
     (length bs = 17 \<and> read32 (write_buf bs (\<lambda>_. 0)) 0 = LA_ODS_REPLY
      \<and> read32 (write_buf bs (\<lambda>_. 0)) 13 \<in> {IP_FOUND, IP_NOFOUND})"
| "effect_ok (Add_route dst plen gw ifi metric src) = (plen = 32 \<and> metric = 100 \<and> src = 0)"
| "effect_ok (Del_route kr) = (kr_genmask kr = 0xFFFFFFFF \<and> kr_flags kr = 7)"
| "effect_ok (Setitimer sec usec) = (usec < 1000000)"

text \<open>
  Timers are set for at most \<open>timer_max\<close> milliseconds, and never for none at all. A repeated
  RREQ is timed by its time to live, which the ring search keeps between 1 and 257.
\<close>

definition ttl_ok :: "node \<Rightarrow> int \<Rightarrow> bool" where
  "ttl_ok s ttl \<longleftrightarrow> (expandingRingSearch s \<longrightarrow> 1 \<le> ttl \<and> ttl \<le> 257)"

inductive prim :: "nat \<Rightarrow> node \<Rightarrow> node \<Rightarrow> bool" for r :: nat where
  tick: "prim r s (s\<lparr>ticks := Suc (ticks s)\<rparr>)"
| emits: "effect_ok e \<Longrightarrow> prim r s (s\<lparr>outs := outs s @ [e]\<rparr>)"
| recv_buf: "prim r s (s\<lparr>recvBuffer := b\<rparr>)"
| send_buf: "prim r s (s\<lparr>sendBuffer := b\<rparr>)"
| hello: "prim r s (s\<lparr>needToSendHello := h\<rparr>)"
| rebooted: "prim r s (s\<lparr>duringReboot := False\<rparr>)"
| seq_num: "n = localSeqNum s + 1 \<or> localSeqNum s < n \<Longrightarrow> prim r s (s\<lparr>localSeqNum := n\<rparr>)"
| rreq_num: "prim r s (s\<lparr>rreqId := rreqId s + 1\<rparr>)"
| timer_new: "tm_id t = next_id s \<Longrightarrow> td_type (tm_data t) = handler_type (tm_handler t) \<Longrightarrow>
    (is_ack t \<Longrightarrow> rrepAckFlag s) \<Longrightarrow>
    tm_timeout t = clock (env s) k + v \<Longrightarrow> ticks s = Suc k \<Longrightarrow> 0 < v \<Longrightarrow> v \<le> timer_max \<Longrightarrow>
    prim r s (s\<lparr>timerQ := timer_insert t (timerQ s), next_id := Suc (next_id s)\<rparr>)"
| timer_del: "0 < r \<Longrightarrow> timerQ s = a @ t # b \<Longrightarrow> prim r s (s\<lparr>timerQ := a @ b\<rparr>)"
| timer_reset: "1 < r \<Longrightarrow> prim r s (s\<lparr>timerQ := reset_first v (timerQ s)\<rparr>)"
| route_new: "entry_wf k e \<Longrightarrow> prim r s (s\<lparr>rTableMap := om_insert k e (rTableMap s)\<rparr>)"
| route_write: "(\<And>e. map_of (rTableMap s) k = Some e \<Longrightarrow> entry_wf k e \<Longrightarrow> entry_wf k (f e)) \<Longrightarrow>
    prim r s (s\<lparr>rTableMap := om_modify k f (rTableMap s)\<rparr>)"
| route_del: "prim r s (s\<lparr>rTableMap := om_erase k (rTableMap s)\<rparr>)"
| fw_new: "prim r s (s\<lparr>fw_rreq_list := fwRreqList_addToList now src i (fw_rreq_list s)\<rparr>)"
| fw_del: "fw_rreq_list s = a @ e # b \<Longrightarrow> prim r s (s\<lparr>fw_rreq_list := a @ b\<rparr>)"
| lr_new: "prim r s (s\<lparr>local_repair_list := localRepair_addToList dst (local_repair_list s)\<rparr>)"
| lr_del: "prim r s (s\<lparr>local_repair_list := localRepair_deleteFromList dst (local_repair_list s)\<rparr>)"
| bl_new: "t \<in> set (timerQ s) \<Longrightarrow> is_ack t \<Longrightarrow> blacklist_inList (bList s) dst = Some False \<Longrightarrow>
    prim r s (s\<lparr>bList := blacklist_addToList now dst lt (bList s)\<rparr>)"
| bl_del: "prim r s (s\<lparr>bList := blacklist_updateEntries now (bList s)\<rparr>)"
| pending_new: "ttl_ok s n \<Longrightarrow> prim r s (s\<lparr>rreq_list := rreqPendingList_addToList q 0 n (rreq_list s)\<rparr>)"
| pending_write: "rq_dest_ip (pe_rreqOb p) = dst \<Longrightarrow> pe_retries p \<le> RREQ_RETRIES \<Longrightarrow>
    ttl_ok s (pe_ttl p) \<Longrightarrow>
    prim r s (s\<lparr>rreq_list := rreqPendingList_write dst p (rreq_list s)\<rparr>)"
| pending_del: "prim r s (s\<lparr>rreq_list := rreqPendingList_deleteFromList dst (rreq_list s)\<rparr>)"

lemma prim_mono: "prim q s t \<Longrightarrow> q \<le> r \<Longrightarrow> prim r s t"
  by (induction rule: prim.induct) (auto intro: prim.intros)

text \<open>A continuation that still needs the precondition, which the first part keeps.\<close>

lemma via_bnd_keeps:
  "via R P m \<Longrightarrow> keeps P m \<Longrightarrow> (\<And>x. via R P (f x)) \<Longrightarrow> via R P (bnd m f)"
  unfolding keeps_def by (rule via_bnd_valid)

lemma via_andthen_keeps: "via R P m \<Longrightarrow> keeps P m \<Longrightarrow> via R P n \<Longrightarrow> via R P (andthen m n)"
  unfolding andthen_def by (rule via_bnd_keeps)

text \<open>A part of the precondition that does not speak of the state.\<close>

lemma via_pure: "(A \<Longrightarrow> via R P m) \<Longrightarrow> via R (\<lambda>s. A \<and> P s) m"
  by (auto simp: via_def)

lemma via_pre: "via R P m \<Longrightarrow> (\<And>s. Q s \<Longrightarrow> P s) \<Longrightarrow> via R Q m"
  by (simp add: via_def)

section \<open>What no step changes\<close>

definition config :: "node \<Rightarrow> env \<times> ip \<times> bool list" where
  "config s = (env s, g_my_ip s,
     [helloSendFlag s, expandingRingSearch s, rrepAckFlag s, localRepairFlag s])"

lemma config_fields:
  "config s = config t \<Longrightarrow> env s = env t \<and> g_my_ip s = g_my_ip t \<and> rrepAckFlag s = rrepAckFlag t
     \<and> expandingRingSearch s = expandingRingSearch t \<and> helloSendFlag s = helloSendFlag t"
  by (simp add: config_def)

interpretation conf: closed_under "prim r" "\<lambda>s. config s = c" for r c
  by unfold_locales (erule prim.cases; simp add: config_def)

text \<open>So whatever is a sequence of steps keeps a predicate of the configuration.\<close>

lemma via_keeps_config: "via (prim r) always m \<Longrightarrow> keeps (\<lambda>s. C (config s)) m"
  by (auto intro!: keepsI dest: conf.via_keeps [where P = always and c = "config _", OF _ TrueI refl])

section \<open>The operations of \<open>Node\<close> as steps\<close>

lemma via_getcurrtime [via_intros]: "via (prim r) P getcurrtime"
  by (auto intro!: viaI simp: getcurrtime_def intro: prim.tick)

lemma via_emit: "effect_ok e \<Longrightarrow> via (prim r) P (emit e)"
  unfolding emit_def by (rule via_upd) (rule prim.emits)

lemma usec_bound: "(t - t div 1000 * 1000) * 1000 < (1000000 :: u64)"
proof -
  have "unat (t mod 1000) < 1000" by (simp add: unat_mod)
  then have "t mod 1000 * 1000 < 1000000"
    by (simp add: word_less_nat_alt unat_word_ariths)
  then show ?thesis by (simp only: minus_div_mult_eq_mod)
qed

lemma via_setRealTimer [via_intros]: "via (prim r) P (setRealTimer t)"
  unfolding setRealTimer_def Let_def by (rule via_emit) (simp only: effect_ok.simps usec_bound)

lemma via_timer_add:
  assumes "td_type d = handler_type h" "\<And>s. h = RrepAck \<Longrightarrow> P s \<Longrightarrow> rrepAckFlag s"
    "0 < v" "v \<le> timer_max"
  shows "via (prim r) P (timer_add v h d)"
proof (rule viaI)
  fix s x s'
  assume P: "P s" and run: "timer_add v h d s = Inr (x, s')"
  let ?s = "s\<lparr>ticks := Suc (ticks s)\<rparr>"
    and ?t = "\<lparr>tm_timeout = clock (env s) (ticks s) + v, tm_handler = h, tm_data = d,
      tm_id = next_id s\<rparr>"
  have "(prim r)\<^sup>*\<^sup>* s ?s" by (intro r_into_rtranclp prim.tick)
  also have "prim r ?s (?s\<lparr>timerQ := timer_insert ?t (timerQ ?s), next_id := Suc (next_id ?s)\<rparr>)"
    using assms P by (intro prim.timer_new [where v = v]) (auto simp: is_ack_def)
  finally show "(prim r)\<^sup>*\<^sup>* s s'"
    using run by (simp add: timer_add_def getcurrtime_def sm_simps)
qed

lemma via_setLowestTimer [via_intros]: "via (prim r) P (setLowestTimer v)"
  unfolding setLowestTimer_def by (intro via_intros)

lemma via_set_timer:
  "td_type d = handler_type h \<Longrightarrow> (\<And>s. h = RrepAck \<Longrightarrow> P s \<Longrightarrow> rrepAckFlag s) \<Longrightarrow>
   0 < v \<Longrightarrow> v \<le> timer_max \<Longrightarrow>
   via (prim r) P (set_timer v h d)"
  unfolding set_timer_def by (intro via_andthen via_timer_add via_setLowestTimer)

lemma via_set_timer_first:
  "td_type d = handler_type h \<Longrightarrow> (\<And>s. h = RrepAck \<Longrightarrow> P s \<Longrightarrow> rrepAckFlag s) \<Longrightarrow>
   0 < v \<Longrightarrow> v \<le> timer_max \<Longrightarrow>
   via (prim r) P (set_timer_first v h d)"
  unfolding set_timer_first_def by (intro via_andthen via_timer_add via_setRealTimer)

lemma via_resetRebootTimer [via_intros]: "via (prim (Suc (Suc r))) P resetRebootTimer"
  unfolding resetRebootTimer_def
  by (intro via_intros via_weaken [OF via_upd] prim.timer_reset) simp

lemma via_take_timer:
  "via (prim (Suc r)) (\<lambda>s. take_timer p (timerQ s) = Some (t, n, q')) (upd (\<lambda>s. s\<lparr>timerQ := q'\<rparr>))"
  by (rule via_upd) (auto dest!: take_timer_Some intro: prim.timer_del)

text \<open>Reading the clock and arming the interval timer do not change the timer queue.\<close>

lemma keeps_timerQ_clock:
  "keeps (\<lambda>s. C (timerQ s)) getcurrtime" "keeps (\<lambda>s. C (timerQ s)) (setRealTimer v)"
  by (auto intro!: keepsI simp: getcurrtime_def setRealTimer_def Let_def emit_def upd_def)

lemma valid_gets_eq: "valid P (gets f) (\<lambda>x s. P s \<and> x = f s)"
  by (simp add: valid_def gets_def)

lemma via_remove_timer [via_intros]: "via (prim (Suc r)) P (remove_timer p)"
proof -
  have "via (prim (Suc r)) (\<lambda>s. q = timerQ s)
     (case take_timer p q of None \<Rightarrow> ret None
      | Some (t, newIter, q') \<Rightarrow>
         andthen (if isTimerSetNow t q
            then (case newIter of None \<Rightarrow> ret ()
                  | Some u \<Rightarrow> bnd getcurrtime (\<lambda>now. setRealTimer (tm_timeout u - now)))
            else ret ())
           (andthen (upd (\<lambda>s. s\<lparr>timerQ := q'\<rparr>)) (ret (Some t))))" for q
    apply (intro via_case_option via_case_prod via_ret)
    apply (rule via_andthen_keeps)
      apply (intro via_intros)
     apply (intro keeps_intros keeps_timerQ_clock)
    apply (rule via_andthen [OF via_pre [OF via_take_timer] via_ret])
    apply simp
    done
  note body = via_pre [OF this]
  show ?thesis
    unfolding remove_timer_def
    by (rule via_bnd_valid [OF via_gets valid_gets_eq]) (rule body, simp)
qed

lemma via_removeRREQTimer [via_intros]: "via (prim (Suc r)) P (removeRREQTimer dst)"
  unfolding removeRREQTimer_def by (intro via_intros)

lemma via_removeRREP_ACK_Timer [via_intros]: "via (prim (Suc r)) P (removeRREP_ACK_Timer dst)"
  unfolding removeRREP_ACK_Timer_def by (intro via_intros)

lemma via_removeActiveRouteTimer [via_intros]: "via (prim (Suc r)) P (removeActiveRouteTimer dst)"
  unfolding removeActiveRouteTimer_def
  by (rule via_bnd_valid [OF via_gets valid_gets_eq])
    (intro via_case_option via_case_prod via_ret via_pre [OF via_take_timer], auto)

lemma via_findRoute [via_intros]: "via (prim r) P (findRoute k)"
  unfolding findRoute_def by (rule via_gets)

lemma via_write_route:
  "(\<And>s e. P s \<Longrightarrow> map_of (rTableMap s) k = Some e \<Longrightarrow> entry_wf k e \<Longrightarrow> entry_wf k (f e)) \<Longrightarrow>
   via (prim r) P (write_route k f)"
  unfolding write_route_def by (rule via_upd) (rule prim.route_write, blast)

lemma via_write_wf:
  "(\<And>e. entry_wf k e \<Longrightarrow> entry_wf k (f e)) \<Longrightarrow> via (prim r) P (write_route k f)"
  by (rule via_write_route) blast

lemma via_add_kroute [via_intros]: "via (prim r) P (add_kroute e)"
  unfolding add_kroute_def by (intro via_bnd via_gets via_emit) simp

lemma via_del_kroute [via_intros]: "via (prim r) P (del_kroute e)"
  unfolding del_kroute_def by (intro via_bnd via_gets via_emit) (simp add: gen_krtentry_def)

lemma via_addRoute: "entry_wf (rt_dest_ip e) e \<Longrightarrow> via (prim r) P (addRoute e)"
  unfolding addRoute_def by (rule via_upd) (rule prim.route_new)

lemma via_insertRoute: "entry_wf (rt_dest_ip e) e \<Longrightarrow> via (prim r) P (insertRoute e)"
  unfolding insertRoute_def by (intro via_andthen via_addRoute via_intros)

lemma via_addAllValidRoutes [via_intros]: "via (prim r) P addAllValidRoutes"
  unfolding addAllValidRoutes_def by (intro via_intros)

lemma via_deleteKernelRoute [via_intros]: "via (prim r) P (deleteKernelRoute k)"
  unfolding deleteKernelRoute_def by (intro via_intros)

lemma via_getDestSeqNum [via_intros]: "via (prim r) P (getDestSeqNum k)"
  unfolding getDestSeqNum_def by (intro via_intros)

lemma entry_wf_seq_life:
  "entry_wf k e \<Longrightarrow> entry_wf k (e\<lparr>rt_dest_seq_num := n\<rparr>)"
  "entry_wf k e \<Longrightarrow> entry_wf k (e\<lparr>rt_lifetime := t\<rparr>)"
  "entry_wf k e \<Longrightarrow> entry_wf k (e\<lparr>rt_last_hop_cnt := h\<rparr>)"
  by (simp_all add: entry_wf_def)

lemma via_setDestSeqNum [via_intros]: "via (prim r) P (setDestSeqNum k n)"
  unfolding setDestSeqNum_def by (rule via_write_wf) (simp add: entry_wf_seq_life)

lemma via_setLifeTime [via_intros]: "via (prim r) P (setLifeTime k t)"
  unfolding setLifeTime_def by (rule via_write_wf) (simp add: entry_wf_seq_life)

lemma via_updateDestSeqNum [via_intros]: "via (prim r) P (updateDestSeqNum k n)"
  unfolding updateDestSeqNum_def by (rule via_write_wf) (simp add: entry_wf_seq_life)

lemma via_isRouteValid [via_intros]: "via (prim r) P (isRouteValid e)"
  unfolding isRouteValid_def by (intro via_intros)

lemma via_getTTL [via_intros]: "via (prim r) P (getTTL k)"
  unfolding getTTL_def by (intro via_intros)

lemma via_findActiveRoute [via_intros]: "via (prim r) P (findActiveRoute k)"
  unfolding findActiveRoute_def by (intro via_intros)

lemma via_findValidRoute [via_intros]: "via (prim r) P (findValidRoute k n)"
  unfolding findValidRoute_def by (intro via_intros)

lemma via_la_reply [via_intros]: "res = IP_FOUND \<or> res = IP_NOFOUND \<Longrightarrow> via (prim r) P (la_reply dst res)"
  unfolding la_reply_def
  by (rule via_emit)
    (auto simp: length_LAMessage LAMessage_generate_stream_def buf_simps)

lemma via_copyToSendBuf [via_intros]: "via (prim r) P (copyToSendBuf d)"
  unfolding copyToSendBuf_def by (rule via_upd) (rule prim.send_buf)

lemma via_sendPacket: "0 < n \<Longrightarrow> via (prim r) P (sendPacket d n)"
  unfolding sendPacket_def
  by (intro via_if via_ret via_andthen via_whenM via_bnd via_gets via_emit via_upd prim.hello)
    (auto simp: read_buf_def)

lemma via_send_bytes: "bs \<noteq> [] \<Longrightarrow> via (prim r) P (send_bytes dst ttl bs)"
  unfolding send_bytes_def by (intro via_andthen via_copyToSendBuf via_sendPacket) simp

lemma packed_rerr_nonempty: "packed_rerr x n \<noteq> [] \<longleftrightarrow> 0 < n"
  by (simp add: packed_rerr_def read_buf_def)

lemma via_rerr_block [via_intros]: "via (prim r) P (rerr_block n)"
  unfolding rerr_block_def by (intro via_intros)

lemma via_getPrecAddr [via_intros]: "via R P (getPrecAddr e)"
  unfolding getPrecAddr_def by (intro via_intros)

lemma via_generateRERR [via_intros]: "via (prim r) P (generateRERR dst n b)"
  unfolding generateRERR_def
  by (intro via_intros via_send_bytes) (simp_all add: packed_rerr_nonempty)

section \<open>Invariants of the steps\<close>

lemma map_reset_first:
  "map tm_id (reset_first v q) = map tm_id q"
  "map tm_handler (reset_first v q) = map tm_handler q"
  "map tm_data (reset_first v q) = map tm_data q"
  by (induction q) auto

text \<open>A property of a timer that its timeout plays no part in survives the reset.\<close>

lemma ball_reset_first:
  "(\<And>t. P (t\<lparr>tm_timeout := v\<rparr>) = P t) \<Longrightarrow> (\<forall>t \<in> set (reset_first v q). P t) = (\<forall>t \<in> set q. P t)"
  by (induction q) auto

interpretation table: closed_under "prim r" "\<lambda>s. rt_wf (rTableMap s)" for r
  by unfold_locales
    (erule prim.cases; simp add: rt_wf_insert rt_wf_erase;
      auto simp: rt_wf_def om.ok_modify map_of_om_modify)

interpretation seen: closed_under "prim r"
  "\<lambda>s. distinct (map (\<lambda>e. (fw_src_ip e, fw_rreq_id e)) (fw_rreq_list s))" for r
proof unfold_locales
  fix s t
  assume "prim r s t" and d: "distinct (map (\<lambda>e. (fw_src_ip e, fw_rreq_id e)) (fw_rreq_list s))"
  then show "distinct (map (\<lambda>e. (fw_src_ip e, fw_rreq_id e)) (fw_rreq_list t))"
    by cases (use d in \<open>auto intro: fw.uniq_add [where k = "(_, _)", simplified]\<close>)
qed

interpretation repair: closed_under "prim r" "\<lambda>s. distinct (map lr_dest_ip (local_repair_list s))" for r
  by unfold_locales
    (erule prim.cases; simp add: lrepair.uniq_add localRepair_deleteFromList_dest)

definition timers_typed :: "node \<Rightarrow> bool" where
  "timers_typed s \<longleftrightarrow> (\<forall>t \<in> set (timerQ s). td_type (tm_data t) = handler_type (tm_handler t))"

interpretation typed: closed_under "prim r" timers_typed for r
  by unfold_locales
    (erule prim.cases; auto simp: timers_typed_def tq.set_add ball_reset_first)

definition timers_named :: "node \<Rightarrow> bool" where
  "timers_named s \<longleftrightarrow> distinct (map tm_id (timerQ s)) \<and> (\<forall>t \<in> set (timerQ s). tm_id t < next_id s)"

lemma distinct_map_insert:
  "distinct (map f (timer_insert t q)) \<longleftrightarrow> f t \<notin> f ` set q \<and> distinct (map f q)"
  by (induction q) (auto simp: tq.set_add)

interpretation named: closed_under "prim r" timers_named for r
  by unfold_locales
    (erule prim.cases;
      auto simp: timers_named_def tq.set_add distinct_map_insert map_reset_first ball_reset_first
        less_Suc_eq)

text \<open>Without the RREP-ACK option no node is ever blacklisted.\<close>

definition ack_free :: "node \<Rightarrow> bool" where
  "ack_free s \<longleftrightarrow> \<not> rrepAckFlag s \<and> (\<forall>t \<in> set (timerQ s). \<not> is_ack t) \<and> bList s = []"

interpretation ackfree: closed_under "prim r" ack_free for r
  by unfold_locales
    (erule prim.cases; auto simp: ack_free_def tq.set_add ball_reset_first is_ack_def)

text \<open>With it the list has one entry at most, as the search never gets past a first entry.\<close>

interpretation bl_one: closed_under "prim r" "\<lambda>s. length (bList s) \<le> 1" for r
proof unfold_locales
  fix s t assume "prim r s t" "length (bList s) \<le> 1"
  then show "length (bList t) \<le> 1"
    by cases
      (auto simp: blacklist_inList_eq blacklist_addToList_def blacklist_updateEntries_filter
        split: list.splits if_splits intro: order_trans [OF length_filter_le])
qed

interpretation effects: closed_under "prim r" "\<lambda>s. \<forall>e \<in> set (outs s). effect_ok e" for r
  by unfold_locales (erule prim.cases; auto)

interpretation ordered: closed_under "prim (Suc 0)" "\<lambda>s. sorted (map tm_timeout (timerQ s))"
  by unfold_locales
    (erule prim.cases; auto simp: tq.sorted_add sorted_append)

text \<open>
  No RREQ that is still pending was repeated more often than \<open>RREQ_RETRIES\<close> says, and its time
  to live is one the ring search makes.
\<close>

definition pending_ok :: "node \<Rightarrow> bool" where
  "pending_ok s \<longleftrightarrow> (\<forall>e \<in> set (rreq_list s). pe_retries e \<le> RREQ_RETRIES \<and> ttl_ok s (pe_ttl e))"

lemma set_pending:
  "set (rreqPendingList_write dst p l) \<subseteq> insert p (set l)"
  "set (rreqPendingList_deleteFromList dst l) \<subseteq> set l"
  by (induction l) auto

interpretation pending: closed_under "prim r" pending_ok for r
proof unfold_locales
  fix s t assume "prim r s t" "pending_ok s"
  then show "pending_ok t"
    by cases (use set_pending in
      \<open>fastforce simp: pending_ok_def ttl_ok_def rreqPendingList_addToList_def\<close>)+
qed

text \<open>Datagrams and replies already sent are never taken back, and the clock only runs on.\<close>

interpretation history: closed_under "prim r" "\<lambda>s. \<exists>more. outs s = past @ more" for r past
  by unfold_locales (erule prim.cases; auto)

interpretation time: closed_under "prim r" "\<lambda>s. k \<le> ticks s" for r k
  by unfold_locales (erule prim.cases; auto)

text \<open>The end of the reboot phase is final.\<close>

interpretation booted: closed_under "prim r" "\<lambda>s. \<not> duringReboot s" for r
  by unfold_locales (erule prim.cases; auto)

end
