(* ===== verification/Routing_Table.thy ===== *)
theory Routing_Table
  imports Steps
begin

text \<open>
  The updates of the routing table (\<open>LA_Client_aodv/routingTable.cc\<close>): routes learnt from
  RREQs, RREPs and neighbours, their variants of the reboot phase (which leave the kernel
  alone), the loss of a neighbour, and the periodic refresh with the idle times it asks
  \<open>lib/FO/fo.cpp\<close> for.
\<close>

section \<open>Local repair list, idle times\<close>

definition lr_add :: "ip \<Rightarrow> (node, unit) sm" where
  "lr_add dst = upd (\<lambda>s. s\<lparr>local_repair_list := localRepair_addToList dst (local_repair_list s)\<rparr>)"

definition lr_delete :: "ip \<Rightarrow> (node, unit) sm" where
  "lr_delete dst =
     upd (\<lambda>s. s\<lparr>local_repair_list := localRepair_deleteFromList dst (local_repair_list s)\<rparr>)"

text \<open>
  The lines after the title: an address that \<open>inet_aton\<close> refuses ends the query with -1; the
  last line that matches counts; the difference of two 64-bit times becomes an \<open>int\<close>.
\<close>

fun scan_route_check :: "ip \<Rightarrow> int \<Rightarrow> int \<Rightarrow> proc_line list \<Rightarrow> (node, int) sm" where
  "scan_route_check dest recv_flag idle_time [] = ret idle_time"
| "scan_route_check dest recv_flag idle_time (l # ls) =
     (case pl_addr l of None \<Rightarrow> ret (- 1)
      | Some a \<Rightarrow>
          if a = dest \<and> recv_flag = pl_flag l
          then bnd getcurrtime (\<lambda>now.
               scan_route_check dest recv_flag (sint (ucast (now - pl_last_use l) :: u32)) ls)
          else scan_route_check dest recv_flag idle_time ls)"

definition FO_query_route_idle_time :: "ip \<Rightarrow> int \<Rightarrow> (node, int) sm" where
  "FO_query_route_idle_time dest recv_flag =
     bnd (gets (\<lambda>s. proc_route_check (env s) (ticks s))) (\<lambda>f.
     case f of None \<Rightarrow> ret (- 1) | Some ls \<Rightarrow> scan_route_check dest recv_flag (- 1) ls)"

section \<open>Reverse routes\<close>

text \<open>
  Newer information: a larger sequence number, or the same one over fewer hops (compared as
  an \<open>int\<close>, so without the wrap-around of the stored byte).
\<close>

definition fresher :: "u32 \<Rightarrow> u8 \<Rightarrow> rtable_entry \<Rightarrow> bool" where
  "fresher seq hops e \<longleftrightarrow> seq > rt_dest_seq_num e
     \<or> seq = rt_dest_seq_num e \<and> unat hops + 1 < unat (rt_hop_cnt e)"

definition minLifeTime :: "u64 \<Rightarrow> nat \<Rightarrow> u64" where
  "minLifeTime now hops = now + PATH_TRAVERSAL_TIME - of_nat (2 * hops * 500)"

text \<open>The route's fields after an update from a message that came over \<open>nhop\<close>.\<close>

definition set_route :: "u32 \<Rightarrow> ip \<Rightarrow> u8 \<Rightarrow> rtable_entry \<Rightarrow> rtable_entry" where
  "set_route seq nhop hops e =
     e\<lparr>rt_dest_seq_num := seq, rt_next_hop := nhop, rt_hop_cnt := hops\<rparr>"

definition raise_life :: "u64 \<Rightarrow> rtable_entry \<Rightarrow> rtable_entry" where
  "raise_life t e = (if t > rt_lifetime e then e\<lparr>rt_lifetime := t\<rparr> else e)"

definition rebootReverseRouteUpdate :: "ip \<Rightarrow> RREQ \<Rightarrow> (node, unit) sm" where
  "rebootReverseRouteUpdate nhop q =
     (let src = rq_src_ip q; seq = rq_src_seq_num q; hops = rq_hop_cnt q + 1 in
      bnd (findRoute src) (\<lambda>r.
      case r of
        Some e \<Rightarrow>
          if rt_routing_flags e = ACTIVE_ROUTE then
            (if fresher seq (rq_hop_cnt q) e then
               bnd getcurrtime (\<lambda>now.
               write_route src (\<lambda>e. raise_life (minLifeTime now (unat hops)) (set_route seq nhop hops e)))
             else ret ())
          else
            bnd getcurrtime (\<lambda>now.
            write_route src (\<lambda>e. (set_route seq nhop hops e)
              \<lparr>rt_routing_flags := ACTIVE_ROUTE, rt_lifetime := minLifeTime now (unat hops)\<rparr>))
      | None \<Rightarrow>
          bnd getcurrtime (\<lambda>now.
          addRoute (createEntry src seq hops nhop
            (minLifeTime now (unat (rq_hop_cnt q) + 1)) ACTIVE_ROUTE))))"

text \<open>\<open>add_kroute\<close> of the entry that an iterator denotes, as it is now.\<close>

definition add_kroute_at :: "ip \<Rightarrow> (node, unit) sm" where
  "add_kroute_at k =
     bnd (findRoute k) (\<lambda>r. case r of None \<Rightarrow> raise NullDeref | Some e \<Rightarrow> add_kroute e)"

text \<open>
  After a route to \<open>dst\<close> was learnt: the agent is told, the timer of its RREQ or repair goes,
  and a repair that ended with a longer route is announced.
\<close>

definition route_found :: "ip \<Rightarrow> (node, unit) sm" where
  "route_found dst =
     andthen (la_reply dst IP_FOUND)
     (bnd (removeRREQTimer dst) (\<lambda>ret'.
      whenM (ret' = LR_TIMER)
        (andthen (lr_delete dst)
        (bnd (findRoute dst) (\<lambda>r.
         case r of None \<Rightarrow> ret ()
         | Some e \<Rightarrow> whenM (rt_hop_cnt e > rt_last_hop_cnt e) (generateRERR dst 1 False))))))"

definition reverseRouteUpdate :: "ip \<Rightarrow> RREQ \<Rightarrow> (node, unit) sm" where
  "reverseRouteUpdate nhop q =
     (let src = rq_src_ip q; seq = rq_src_seq_num q; hops = rq_hop_cnt q + 1 in
      andthen
        (bnd (findRoute src) (\<lambda>r.
         case r of
           Some e \<Rightarrow>
             if rt_routing_flags e = ACTIVE_ROUTE then
               (if fresher seq (rq_hop_cnt q) e then
                  let addFlag = (unat (rq_hop_cnt q) + 1 < unat (rt_hop_cnt e) \<or> rt_next_hop e \<noteq> nhop) in
                  andthen (whenM addFlag (del_kroute e))
                  (bnd getcurrtime (\<lambda>now.
                   andthen (write_route src (\<lambda>e.
                       raise_life (minLifeTime now (unat hops)) (set_route seq nhop hops e)))
                     (whenM addFlag (add_kroute_at src))))
                else ret ())
             else
               bnd getcurrtime (\<lambda>now.
               andthen (write_route src (\<lambda>e. (set_route seq nhop hops e)
                   \<lparr>rt_routing_flags := ACTIVE_ROUTE, rt_lifetime := minLifeTime now (unat hops)\<rparr>))
                 (add_kroute_at src))
         | None \<Rightarrow>
             bnd getcurrtime (\<lambda>now.
             insertRoute (createEntry src seq hops nhop
               (minLifeTime now (unat (rq_hop_cnt q) + 1)) ACTIVE_ROUTE))))
        (route_found src))"

section \<open>Forward routes\<close>

definition rebootForwardRouteUpdate :: "ip \<Rightarrow> RREP \<Rightarrow> (node, unit) sm" where
  "rebootForwardRouteUpdate nhop p =
     (let dst = rp_dest_ip p; seq = rp_dest_seq_num p; hops = rp_hop_cnt p + 1 in
      bnd (findRoute dst) (\<lambda>r.
      case r of
        Some e \<Rightarrow>
          if rt_routing_flags e = ACTIVE_ROUTE then
            (if fresher seq (rp_hop_cnt p) e then
               bnd getcurrtime (\<lambda>now.
               write_route dst (\<lambda>e. (set_route seq nhop hops e)
                 \<lparr>rt_lifetime := now + ucast (rp_lifetime p)\<rparr>))
             else ret ())
          else
            bnd getcurrtime (\<lambda>now.
            write_route dst (\<lambda>e. (set_route seq nhop hops e)
              \<lparr>rt_lifetime := now + ucast (rp_lifetime p), rt_routing_flags := ACTIVE_ROUTE\<rparr>))
      | None \<Rightarrow>
          bnd getcurrtime (\<lambda>now.
          addRoute (createEntry dst seq hops nhop (now + ucast (rp_lifetime p)) ACTIVE_ROUTE))))"

definition forwardRouteUpdate :: "ip \<Rightarrow> RREP \<Rightarrow> (node, unit) sm" where
  "forwardRouteUpdate nhop p =
     (let dst = rp_dest_ip p; seq = rp_dest_seq_num p; hops = rp_hop_cnt p + 1 in
      andthen
        (bnd (findRoute dst) (\<lambda>r.
         case r of
           Some e \<Rightarrow>
             if rt_routing_flags e = ACTIVE_ROUTE then
               (if fresher seq (rp_hop_cnt p) e then
                  let addFlag = (unat (rp_hop_cnt p) + 1 < unat (rt_hop_cnt e) \<or> rt_next_hop e \<noteq> nhop) in
                  andthen (whenM addFlag (del_kroute e))
                  (bnd getcurrtime (\<lambda>now.
                   andthen (write_route dst (\<lambda>e. (set_route seq nhop hops e)
                       \<lparr>rt_lifetime := now + ucast (rp_lifetime p)\<rparr>))
                     (whenM addFlag (add_kroute_at dst))))
                else ret ())
             else
               bnd getcurrtime (\<lambda>now.
               andthen (write_route dst (\<lambda>e. (set_route seq nhop hops e)
                   \<lparr>rt_lifetime := now + ucast (rp_lifetime p), rt_routing_flags := ACTIVE_ROUTE\<rparr>))
                 (add_kroute_at dst))
         | None \<Rightarrow>
             bnd getcurrtime (\<lambda>now.
             insertRoute (createEntry dst seq hops nhop (now + ucast (rp_lifetime p)) ACTIVE_ROUTE))))
        (route_found dst))"

section \<open>Neighbours\<close>

definition rebootNeighborUpdate :: "ip \<Rightarrow> u32 \<Rightarrow> u64 \<Rightarrow> (node, unit) sm" where
  "rebootNeighborUpdate neighbor seq life_time =
     bnd (findRoute neighbor) (\<lambda>r.
     case r of
       Some e \<Rightarrow>
         write_route neighbor (\<lambda>e. (set_route seq neighbor 1 e)
           \<lparr>rt_lifetime := life_time, rt_routing_flags := ACTIVE_ROUTE\<rparr>)
     | None \<Rightarrow> addRoute (createEntry neighbor seq 1 neighbor life_time ACTIVE_ROUTE))"

text \<open>
  The active-route timer of a neighbour is renewed when it is running, and started by a
  message whose source field is 0 (a hello message).
\<close>

definition renew_neighbor_timer :: "ip \<Rightarrow> ip \<Rightarrow> (node, unit) sm" where
  "renew_neighbor_timer neighbor src =
     bnd (gets (\<lambda>s. isActiveTimerInQueue (timerQ s) neighbor)) (\<lambda>inQueue.
     andthen (whenM inQueue (removeActiveRouteTimer neighbor))
       (whenM (inQueue \<or> src = 0)
         (set_timer (ALLOWED_HELLO_LOSS * HELLO_INTERVAL) NeighborTimeout
            \<lparr>td_type = ACTIVE_ROUTE_TIMER, td_data = neighbor\<rparr>)))"

definition neighbor_route :: "ip \<Rightarrow> u32 \<Rightarrow> u64 \<Rightarrow> (node, unit) sm" where
  "neighbor_route neighbor seq life_time =
     bnd (findRoute neighbor) (\<lambda>r.
     case r of
       Some e \<Rightarrow>
         if rt_routing_flags e = ACTIVE_ROUTE then
           write_route neighbor (\<lambda>e. (set_route seq neighbor 1 e)\<lparr>rt_lifetime := life_time\<rparr>)
         else
           andthen (write_route neighbor (\<lambda>e. (set_route seq neighbor 1 e)
               \<lparr>rt_lifetime := life_time, rt_routing_flags := ACTIVE_ROUTE\<rparr>))
             (add_kroute_at (rt_dest_ip e))
     | None \<Rightarrow> insertRoute (createEntry neighbor seq 1 neighbor life_time ACTIVE_ROUTE))"

definition neighbor_found :: "ip \<Rightarrow> ip \<Rightarrow> (node, unit) sm" where
  "neighbor_found neighbor src =
     andthen (la_reply neighbor IP_FOUND)
     (bnd (removeRREQTimer neighbor) (\<lambda>ret'.
      andthen (whenM (ret' = LR_TIMER) (lr_delete neighbor))
        (renew_neighbor_timer neighbor src)))"

definition neighborUpdate :: "ip \<Rightarrow> ip \<Rightarrow> u32 \<Rightarrow> u64 \<Rightarrow> (node, unit) sm" where
  "neighborUpdate neighbor src seq life_time =
     andthen (neighbor_route neighbor seq life_time) (neighbor_found neighbor src)"

text \<open>
  The loss of a neighbour: its route and the routes over it are broken. When the table has no
  entry for it, its destination is read through the end iterator.
\<close>

definition break_neighbor :: "ip \<Rightarrow> rtable_entry \<Rightarrow> (node, unit) sm" where
  "break_neighbor dst e =
     bnd getcurrtime (\<lambda>now.
     if rt_hop_cnt e = INFINITY_HOPS then
       write_route dst (\<lambda>e. e\<lparr>rt_routing_flags := BROKEN_ROUTE,
         rt_lifetime := now + 10 * ACTIVE_ROUTE_TIMEOUT, rt_hop_cnt := rt_last_hop_cnt e\<rparr>)
     else
       andthen (write_route dst (\<lambda>e. e\<lparr>rt_routing_flags := BROKEN_ROUTE,
           rt_lifetime := now + 10 * ACTIVE_ROUTE_TIMEOUT, rt_last_hop_cnt := rt_hop_cnt e,
           rt_dest_seq_num := rt_dest_seq_num e + 1\<rparr>))
         (del_kroute e))"

definition break_over :: "ip \<Rightarrow> ip \<Rightarrow> (node, unit) sm" where
  "break_over dst k =
     bnd (findRoute k) (\<lambda>r.
     case r of None \<Rightarrow> ret ()
     | Some e \<Rightarrow>
         whenM (k \<noteq> dst)
           (bnd (findRoute dst) (\<lambda>it.
            case it of None \<Rightarrow> raise EndDeref
            | Some d \<Rightarrow>
                whenM (rt_dest_ip d = rt_next_hop e \<and> rt_routing_flags e = ACTIVE_ROUTE)
                  (andthen (lr_add (rt_dest_ip e))
                  (bnd getcurrtime (\<lambda>now.
                   andthen (write_route k (\<lambda>e. e\<lparr>rt_routing_flags := BROKEN_ROUTE,
                       rt_lifetime := now + ACTIVE_ROUTE_TIMEOUT, rt_last_hop_cnt := rt_hop_cnt e,
                       rt_dest_seq_num := rt_dest_seq_num e + 1\<rparr>))
                     (del_kroute e)))))))"

definition neighbor_timeout_handler :: "timerData \<Rightarrow> (node, unit) sm" where
  "neighbor_timeout_handler tData =
     (let dst = td_data tData in
      andthen (lr_add dst)
     (bnd (findRoute dst) (\<lambda>iter.
      andthen (case iter of None \<Rightarrow> ret () | Some e \<Rightarrow> break_neighbor dst e)
     (bnd (gets (\<lambda>s. om_keys (rTableMap s))) (\<lambda>ks. forM ks (break_over dst))))))"

section \<open>Periodic refresh\<close>

text \<open>
  The idle time of an entry: its own, and for a neighbour the least one of the routes over it.
\<close>

definition least_idle :: "ip \<Rightarrow> rtable_entry \<Rightarrow> int \<Rightarrow> ip \<times> rtable_entry \<Rightarrow> (node, int) sm" where
  "least_idle k e time_idle p =
     (if fst p \<noteq> k \<and> rt_dest_ip e = rt_next_hop (snd p)
      then bnd (FO_query_route_idle_time (rt_dest_ip (snd p)) 0) (\<lambda>t.
           ret (if t \<noteq> - 1 \<and> t < time_idle then t else time_idle))
      else ret time_idle)"

definition route_idle_time :: "ip \<Rightarrow> rtable_entry \<Rightarrow> (node, int) sm" where
  "route_idle_time k e =
     bnd (FO_query_route_idle_time (rt_dest_ip e) 1) (\<lambda>t.
     let time_idle = (if t < 0 then 2 * 3000 else t) in
     if rt_hop_cnt e = 1
     then bnd (gets rTableMap) (\<lambda>m. foldM (least_idle k e) time_idle m)
     else ret time_idle)"

text \<open>
  An entry becomes invalid. The test for a broken route comes after the flag was overwritten.
\<close>

definition invalidate :: "u64 \<Rightarrow> rtable_entry \<Rightarrow> rtable_entry" where
  "invalidate currtime e = e\<lparr>rt_hop_cnt := INFINITY_HOPS, rt_lifetime := currtime + DELETE_PERIOD,
     rt_routing_flags := INVALID_ROUTE\<rparr>"

definition expire_route :: "u64 \<Rightarrow> ip \<Rightarrow> rtable_entry \<Rightarrow> (node, unit) sm" where
  "expire_route currtime k e =
     andthen (whenM (rt_routing_flags e = ACTIVE_ROUTE)
        (andthen (del_kroute e)
           (write_route k (\<lambda>e. e\<lparr>rt_dest_seq_num := rt_dest_seq_num e + 1,
              rt_last_hop_cnt := rt_hop_cnt e\<rparr>))))
     (andthen (write_route k (invalidate currtime))
     (bnd (findRoute k) (\<lambda>r.
      case r of None \<Rightarrow> ret ()
      | Some e' \<Rightarrow> whenM (rt_routing_flags e' = BROKEN_ROUTE) (lr_delete (rt_dest_ip e')))))"

definition expire_over :: "u64 \<Rightarrow> ip \<Rightarrow> rtable_entry \<Rightarrow> ip \<Rightarrow> (node, unit) sm" where
  "expire_over currtime k e k' =
     bnd (findRoute k') (\<lambda>r.
     case r of None \<Rightarrow> ret ()
     | Some e' \<Rightarrow>
         whenM (k' \<noteq> k \<and> rt_dest_ip e = rt_next_hop e' \<and> rt_hop_cnt e' \<noteq> INFINITY_HOPS)
           (expire_route currtime k' e'))"

definition refresh_entry :: "u64 \<Rightarrow> ip \<Rightarrow> (node, unit) sm" where
  "refresh_entry currtime k =
     bnd (findRoute k) (\<lambda>r.
     case r of None \<Rightarrow> ret ()
     | Some e \<Rightarrow>
         if rt_lifetime e > currtime then ret ()
         else if rt_hop_cnt e = INFINITY_HOPS then
           upd (\<lambda>s. s\<lparr>rTableMap := om_erase k (rTableMap s)\<rparr>)
         else
           bnd (route_idle_time k e) (\<lambda>time_idle.
           if time_idle < 3000 then
             let life = currtime - of_int time_idle + ACTIVE_ROUTE_TIMEOUT in
             andthen (write_route k (\<lambda>e. e\<lparr>rt_lifetime := life\<rparr>))
             (bnd (findRoute (rt_next_hop e)) (\<lambda>n.
              case n of None \<Rightarrow> raise NullDeref
              | Some _ \<Rightarrow> write_route (rt_next_hop e) (\<lambda>e. e\<lparr>rt_lifetime := life\<rparr>)))
           else
             andthen (expire_route currtime k e)
               (whenM (rt_hop_cnt e = 1)
                 (bnd (gets (\<lambda>s. om_keys (rTableMap s))) (\<lambda>ks. forM ks (expire_over currtime k e))))))"

text \<open>
  The loop keeps the next position before it may erase the current one; nothing else is
  erased, so it visits the keys that were there at the start.
\<close>

definition refreshEntries :: "(node, unit) sm" where
  "refreshEntries =
     bnd getcurrtime (\<lambda>currtime.
     bnd (gets (\<lambda>s. om_keys (rTableMap s))) (\<lambda>ks.
     forM ks (refresh_entry currtime)))"

section \<open>The updates as steps\<close>

text \<open>The operations that leave the table as it is.\<close>

named_theorems table_kept \<open>the routing table is left alone\<close>

lemma table_kept_getcurrtime [table_kept]: "keeps (\<lambda>s. C (rTableMap s)) getcurrtime"
  by (auto intro!: keepsI simp: getcurrtime_def)

lemma table_kept_emit [table_kept]: "keeps (\<lambda>s. C (rTableMap s)) (emit e)"
  by (auto intro!: keepsI simp: emit_def upd_def)

lemma table_kept_setRealTimer [table_kept]: "keeps (\<lambda>s. C (rTableMap s)) (setRealTimer t)"
  unfolding setRealTimer_def Let_def by (rule table_kept)

lemma table_kept_findRoute [table_kept]: "keeps (\<lambda>s. C (rTableMap s)) (findRoute k)"
  unfolding findRoute_def by (rule keeps_gets)

lemma table_kept_kroute [table_kept]:
  "keeps (\<lambda>s. C (rTableMap s)) (add_kroute e)" "keeps (\<lambda>s. C (rTableMap s)) (del_kroute e)"
  "keeps (\<lambda>s. C (rTableMap s)) (add_kroute_at k)"
  unfolding add_kroute_def del_kroute_def add_kroute_at_def by (intro keeps_intros table_kept)+

lemma table_kept_la_reply [table_kept]: "keeps (\<lambda>s. C (rTableMap s)) (la_reply d v)"
  unfolding la_reply_def by (rule table_kept)

lemma table_kept_lr [table_kept]:
  "keeps (\<lambda>s. C (rTableMap s)) (lr_add d)" "keeps (\<lambda>s. C (rTableMap s)) (lr_delete d)"
  by (auto intro!: keepsI simp: lr_add_def lr_delete_def upd_def)

lemma table_kept_timers [table_kept]:
  "keeps (\<lambda>s. C (rTableMap s)) (timer_add t h d)"
  "keeps (\<lambda>s. C (rTableMap s)) (setLowestTimer t)"
  "keeps (\<lambda>s. C (rTableMap s)) (remove_timer p)"
  "keeps (\<lambda>s. C (rTableMap s)) (removeActiveRouteTimer k)"
  unfolding timer_add_def setLowestTimer_def remove_timer_def removeActiveRouteTimer_def
  subgoal by (intro keeps_intros table_kept) simp
  subgoal by (rule keeps_bnd [OF table_kept_getcurrtime], rule keeps_bnd [OF keeps_gets],
      case_tac xa) (auto intro: keeps_intros table_kept)
  subgoal by (intro keeps_intros table_kept) simp_all
  subgoal by (intro keeps_intros table_kept) simp_all
  done

lemma table_kept_set_timer [table_kept]:
  "keeps (\<lambda>s. C (rTableMap s)) (set_timer t h d)"
  "keeps (\<lambda>s. C (rTableMap s)) (removeRREQTimer k)"
  unfolding set_timer_def removeRREQTimer_def by (intro keeps_intros table_kept)+

lemma table_kept_send_bytes [table_kept]: "keeps (\<lambda>s. C (rTableMap s)) (send_bytes d t bs)"
  by (auto intro!: keepsI simp: send_bytes_def sendPacket_def copyToSendBuf_def emit_def sm_simps
      split: if_splits)

lemma table_kept_generateRERR [table_kept]: "keeps (\<lambda>s. C (rTableMap s)) (generateRERR d n b)"
  unfolding generateRERR_def rerr_block_def getPrecAddr_def
  by (rule keeps_bnd [OF table_kept_findRoute], unfold Let_def, intro keeps_intros table_kept)
    (auto intro!: keeps_intros table_kept split: list.split)

lemma table_kept_route_found [table_kept]: "keeps (\<lambda>s. C (rTableMap s)) (route_found d)"
  unfolding route_found_def by (intro keeps_intros table_kept)

lemma table_kept_renew [table_kept]: "keeps (\<lambda>s. C (rTableMap s)) (renew_neighbor_timer n src)"
  unfolding renew_neighbor_timer_def by (intro keeps_intros table_kept)

lemma table_kept_neighbor_found [table_kept]: "keeps (\<lambda>s. C (rTableMap s)) (neighbor_found n src)"
  unfolding neighbor_found_def by (intro keeps_intros table_kept)

text \<open>What is known of the entry that a pointer or an iterator denotes.\<close>

abbreviation (input) has_route :: "ip \<Rightarrow> rtable_entry \<Rightarrow> node \<Rightarrow> bool" where
  "has_route k e \<equiv> \<lambda>s. map_of (rTableMap s) k = Some e"

lemma via_find:
  "(\<And>e. via (prim r) (has_route k e) (f e)) \<Longrightarrow> via (prim r) always n \<Longrightarrow>
   via (prim r) P (bnd (findRoute k) (\<lambda>x. case x of None \<Rightarrow> n | Some e \<Rightarrow> f e))"
  by (fastforce intro!: viaI simp: findRoute_def sm_simps dest: viaD split: option.splits)

lemma via_write_at:
  "(entry_wf k e \<Longrightarrow> entry_wf k (f e)) \<Longrightarrow> via (prim r) (has_route k e) (write_route k f)"
  by (rule via_write_route) auto

lemma via_clock_at:
  "(\<And>now. via (prim r) (has_route k e) (f now)) \<Longrightarrow> via (prim r) (has_route k e) (bnd getcurrtime f)"
  by (intro via_bnd_keeps via_getcurrtime table_kept)

lemma via_del_at:
  "via (prim r) (has_route k e) m \<Longrightarrow>
   via (prim r) (has_route k e) (andthen (whenM b (del_kroute d)) m)"
  by (intro via_andthen_keeps via_whenM via_del_kroute keeps_whenM table_kept)

lemmas via_at = via_find via_if via_clock_at via_del_at via_andthen via_write_at via_ret

lemma via_lr [via_intros]: "via (prim r) P (lr_add d)" "via (prim r) P (lr_delete d)"
  unfolding lr_add_def lr_delete_def by (intro via_upd prim.lr_new prim.lr_del)+

lemma via_add_kroute_at [via_intros]: "via (prim r) P (add_kroute_at k)"
  unfolding add_kroute_at_def by (intro via_intros)

lemma via_scan [via_intros]: "via (prim r) P (scan_route_check d f i ls)"
proof (induction ls arbitrary: i P)
  case (Cons l ls)
  show ?case by (simp, intro via_intros Cons)
qed (simp add: via_ret)

lemma via_FO [via_intros]: "via (prim r) P (FO_query_route_idle_time d f)"
  unfolding FO_query_route_idle_time_def by (intro via_intros)

lemma via_route_found [via_intros]: "via (prim (Suc r)) P (route_found d)"
  unfolding route_found_def by (intro via_intros) simp

lemma entry_wf_set:
  "entry_wf k e \<Longrightarrow> rt_routing_flags e = ACTIVE_ROUTE \<Longrightarrow> entry_wf k (set_route n h c e)"
  "entry_wf k e \<Longrightarrow> rt_routing_flags e = ACTIVE_ROUTE \<Longrightarrow> entry_wf k (raise_life t (set_route n h c e))"
  "entry_wf k e \<Longrightarrow> rt_routing_flags e = ACTIVE_ROUTE \<Longrightarrow> entry_wf k ((set_route n h c e)\<lparr>rt_lifetime := t\<rparr>)"
  "entry_wf k e \<Longrightarrow> entry_wf k ((set_route n h c e)\<lparr>rt_routing_flags := ACTIVE_ROUTE, rt_lifetime := t\<rparr>)"
  "entry_wf k e \<Longrightarrow> entry_wf k ((set_route n h c e)\<lparr>rt_lifetime := t, rt_routing_flags := ACTIVE_ROUTE\<rparr>)"
  by (auto simp: entry_wf_def set_route_def raise_life_def)

lemma entry_wf_new: "entry_wf (rt_dest_ip (createEntry d n h nh t ACTIVE_ROUTE)) (createEntry d n h nh t ACTIVE_ROUTE)"
  by (simp add: entry_wf_createEntry)

lemmas via_learn = via_Let via_at via_addRoute [OF entry_wf_new] via_insertRoute [OF entry_wf_new]
  via_bnd [OF via_getcurrtime] via_whenM via_add_kroute_at via_route_found entry_wf_set

lemma via_rebootReverse [via_intros]: "via (prim r) P (rebootReverseRouteUpdate nhop q)"
  unfolding rebootReverseRouteUpdate_def by (intro via_learn)

lemma via_reverse [via_intros]: "via (prim (Suc r)) P (reverseRouteUpdate nhop q)"
  unfolding reverseRouteUpdate_def by (intro via_learn)

lemma via_rebootForward [via_intros]: "via (prim r) P (rebootForwardRouteUpdate nhop p)"
  unfolding rebootForwardRouteUpdate_def by (intro via_learn)

lemma via_forward [via_intros]: "via (prim (Suc r)) P (forwardRouteUpdate nhop p)"
  unfolding forwardRouteUpdate_def by (intro via_learn)

lemma via_rebootNeighbor [via_intros]: "via (prim r) P (rebootNeighborUpdate n sq t)"
  unfolding rebootNeighborUpdate_def by (intro via_learn)

lemma via_renew [via_intros]: "via (prim (Suc r)) P (renew_neighbor_timer n src)"
  unfolding renew_neighbor_timer_def
  by (intro via_intros via_set_timer) (simp_all add: word_less_nat_alt word_le_nat_alt)

lemma via_neighborUpdate [via_intros]: "via (prim (Suc r)) P (neighborUpdate n src sq t)"
  unfolding neighborUpdate_def neighbor_route_def neighbor_found_def
  by (intro via_learn via_intros) simp_all

lemma entry_wf_broken:
  "entry_wf k e \<Longrightarrow> entry_wf k (e\<lparr>rt_routing_flags := BROKEN_ROUTE, rt_lifetime := t, rt_hop_cnt := h\<rparr>)"
  "entry_wf k e \<Longrightarrow> entry_wf k (e\<lparr>rt_routing_flags := BROKEN_ROUTE, rt_lifetime := t,
     rt_last_hop_cnt := h, rt_dest_seq_num := n\<rparr>)"
  "entry_wf k e \<Longrightarrow> entry_wf k (e\<lparr>rt_dest_seq_num := n, rt_last_hop_cnt := h\<rparr>)"
  "entry_wf k e \<Longrightarrow> entry_wf k (invalidate t e)"
  by (auto simp: entry_wf_def invalidate_def)

lemma via_break [via_intros]:
  "via (prim r) P (break_neighbor dst e)" "via (prim r) P (break_over dst k)"
  unfolding break_neighbor_def break_over_def
  by (intro via_intros via_write_wf entry_wf_broken; assumption)+

lemma via_neighbor_timeout [via_intros]: "via (prim r) P (neighbor_timeout_handler d)"
  unfolding neighbor_timeout_handler_def Let_def
  by (rule via_weaken) (intro via_intros)

lemma via_expire [via_intros]:
  "via (prim r) P (expire_route t k e)" "via (prim r) P (expire_over t k e k')"
  unfolding expire_route_def expire_over_def
  by (intro via_intros via_write_wf entry_wf_broken; assumption)+

lemma via_idle [via_intros]: "via (prim r) P (route_idle_time k e)"
  unfolding route_idle_time_def least_idle_def Let_def
  by (rule via_weaken) (intro via_intros)

lemma via_refresh_entry [via_intros]: "via (prim r) P (refresh_entry t k)"
  unfolding refresh_entry_def Let_def
  by (rule via_weaken)
    (intro via_intros via_write_wf entry_wf_seq_life via_weaken [OF via_upd] prim.route_del; assumption?)

lemma via_refreshEntries [via_intros]: "via (prim r) P refreshEntries"
  unfolding refreshEntries_def by (rule via_weaken) (intro via_intros)

section \<open>What the updates do to the table\<close>

text \<open>
  The specification of learning a route: the table as a map, the news as a sequence number, a
  next hop and a hop count, and \<open>life\<close> giving the lifetime of a known active route, of a known
  inactive one and of a new one.
\<close>

definition newer :: "u32 \<Rightarrow> u8 \<Rightarrow> rtable_entry \<Rightarrow> bool" where
  "newer seq hops e \<longleftrightarrow> unat (rt_dest_seq_num e) < unat seq
     \<or> unat (rt_dest_seq_num e) = unat seq \<and> unat hops + 1 < unat (rt_hop_cnt e)"

definition learn :: "ip \<Rightarrow> u32 \<Rightarrow> ip \<Rightarrow> u8 \<Rightarrow> (rtable_entry option \<Rightarrow> u64) \<Rightarrow>
    (ip \<rightharpoonup> rtable_entry) \<Rightarrow> (ip \<rightharpoonup> rtable_entry)" where
  "learn dst seq nhop hops life m =
     (case m dst of
        None \<Rightarrow> m(dst \<mapsto> \<lparr>rt_dest_ip = dst, rt_dest_seq_num = seq, rt_interface = 0,
          rt_hop_cnt = hops + 1, rt_last_hop_cnt = 0, rt_next_hop = nhop, rt_precursors = [],
          rt_lifetime = life None, rt_routing_flags = ACTIVE_ROUTE\<rparr>)
      | Some e \<Rightarrow>
          if rt_routing_flags e = ACTIVE_ROUTE \<and> \<not> newer seq hops e then m
          else m(dst \<mapsto> e\<lparr>rt_dest_seq_num := seq, rt_next_hop := nhop, rt_hop_cnt := hops + 1,
            rt_routing_flags := ACTIVE_ROUTE, rt_lifetime := life (Some e)\<rparr>))"

lemma newer_fresher: "newer seq hops e = fresher seq hops e"
  unfolding newer_def fresher_def word_less_nat_alt by (simp add: word_unat_eq_iff eq_commute)

lemma learn_eq:
  "learn dst seq nhop hops life m =
     (case m dst of
        None \<Rightarrow> m(dst \<mapsto> createEntry dst seq (hops + 1) nhop (life None) ACTIVE_ROUTE)
      | Some e \<Rightarrow>
          if rt_routing_flags e = ACTIVE_ROUTE \<and> \<not> fresher seq hops e then m
          else m(dst \<mapsto> (set_route seq nhop (hops + 1) e)
                 \<lparr>rt_routing_flags := ACTIVE_ROUTE, rt_lifetime := life (Some e)\<rparr>))"
  by (auto simp: learn_def newer_fresher createEntry_def set_route_def split: option.split)

definition reverse_life :: "u64 \<Rightarrow> u8 \<Rightarrow> rtable_entry option \<Rightarrow> u64" where
  "reverse_life now hops r =
     (case r of None \<Rightarrow> minLifeTime now (unat hops + 1)
      | Some e \<Rightarrow>
          if rt_routing_flags e = ACTIVE_ROUTE
          then max (rt_lifetime e) (minLifeTime now (unat (hops + 1)))
          else minLifeTime now (unat (hops + 1)))"

lemma map_of_write:
  "map_of m k = Some e \<Longrightarrow> map_of (om_modify k f m) = (map_of m)(k \<mapsto> f e)"
  by (auto simp: fun_eq_iff map_of_om_modify)

lemma map_of_new: "om_ok m \<Longrightarrow> map_of m k = None \<Longrightarrow> map_of (om_insert k e m) = (map_of m)(k \<mapsto> e)"
  by (auto simp: fun_eq_iff map_of_om_insert)

lemmas route_run_simps = findRoute_def write_route_def addRoute_def getcurrtime_def sm_simps

lemma rebootReverse_learns:
  assumes "om_ok (rTableMap s)"
  shows "\<exists>s'. rebootReverseRouteUpdate nhop q s = Inr ((), s')
    \<and> map_of (rTableMap s') = learn (rq_src_ip q) (rq_src_seq_num q) nhop (rq_hop_cnt q)
        (reverse_life (clock (env s) (ticks s)) (rq_hop_cnt q)) (map_of (rTableMap s))"
proof (cases "map_of (rTableMap s) (rq_src_ip q)")
  case None
  then show ?thesis
    by (simp add: rebootReverseRouteUpdate_def route_run_simps learn_eq reverse_life_def map_of_new [OF assms] Let_def)
next
  case (Some e)
  then show ?thesis
    by (auto simp: rebootReverseRouteUpdate_def route_run_simps learn_eq reverse_life_def map_of_write
        raise_life_def set_route_def max_def Let_def)
qed

lemma rebootForward_learns:
  assumes "om_ok (rTableMap s)"
  shows "\<exists>s'. rebootForwardRouteUpdate nhop p s = Inr ((), s')
    \<and> map_of (rTableMap s') = learn (rp_dest_ip p) (rp_dest_seq_num p) nhop (rp_hop_cnt p)
        (\<lambda>_. clock (env s) (ticks s) + ucast (rp_lifetime p)) (map_of (rTableMap s))"
proof (cases "map_of (rTableMap s) (rp_dest_ip p)")
  case None
  then show ?thesis
    by (simp add: rebootForwardRouteUpdate_def route_run_simps learn_eq map_of_new [OF assms] Let_def)
next
  case (Some e)
  then show ?thesis
    by (auto simp: rebootForwardRouteUpdate_def route_run_simps learn_eq map_of_write
        set_route_def Let_def)
qed

text \<open>Outside the reboot phase the same table results; only the kernel and the agent are told, too.\<close>

lemmas kroute_run_simps = add_kroute_at_def add_kroute_def del_kroute_def emit_def insertRoute_def

lemma andthen_Inr:
  "andthen m n s = Inr (x, s') \<Longrightarrow> \<exists>y t. m s = Inr (y, t) \<and> n t = Inr (x, s')"
  by (auto simp: andthen_apply split: sum.splits)

lemma table_of_route_found: "route_found d t = Inr (x, s') \<Longrightarrow> rTableMap s' = rTableMap t"
  by (rule keeps_unchanged [OF table_kept_route_found])

lemma reverse_same_table:
  assumes "reverseRouteUpdate nhop q s = Inr (x, s')"
  shows "\<exists>s''. rebootReverseRouteUpdate nhop q s = Inr ((), s'') \<and> rTableMap s'' = rTableMap s'"
proof -
  from andthen_Inr [OF assms [unfolded reverseRouteUpdate_def Let_def]] show ?thesis
    by (elim exE conjE, drule_tac table_of_route_found)
      (auto simp: rebootReverseRouteUpdate_def route_run_simps kroute_run_simps Let_def
        split: option.splits if_splits)
qed

lemma forward_same_table:
  assumes "forwardRouteUpdate nhop p s = Inr (x, s')"
  shows "\<exists>s''. rebootForwardRouteUpdate nhop p s = Inr ((), s'') \<and> rTableMap s'' = rTableMap s'"
proof -
  from andthen_Inr [OF assms [unfolded forwardRouteUpdate_def Let_def]] show ?thesis
    by (elim exE conjE, drule_tac table_of_route_found)
      (auto simp: rebootForwardRouteUpdate_def route_run_simps kroute_run_simps Let_def
        split: option.splits if_splits)
qed

text \<open>A neighbour: its entry is overwritten whatever it held, the sequence number included.\<close>

definition meet :: "ip \<Rightarrow> u32 \<Rightarrow> u64 \<Rightarrow> (ip \<rightharpoonup> rtable_entry) \<Rightarrow> (ip \<rightharpoonup> rtable_entry)" where
  "meet n seq life m =
     m(n \<mapsto> (case m n of None \<Rightarrow> createEntry n seq 1 n life ACTIVE_ROUTE
        | Some e \<Rightarrow> (set_route seq n 1 e)\<lparr>rt_lifetime := life, rt_routing_flags := ACTIVE_ROUTE\<rparr>))"

lemma rebootNeighbor_meets:
  assumes "om_ok (rTableMap s)"
  shows "\<exists>s'. rebootNeighborUpdate n seq life s = Inr ((), s')
    \<and> map_of (rTableMap s') = meet n seq life (map_of (rTableMap s))"
  by (cases "map_of (rTableMap s) n")
    (auto simp: rebootNeighborUpdate_def route_run_simps meet_def map_of_new [OF assms] map_of_write)

lemma neighbor_meets:
  assumes wf: "rt_wf (rTableMap s)" and run: "neighborUpdate n src seq life s = Inr (x, s')"
  shows "map_of (rTableMap s') = meet n seq life (map_of (rTableMap s))"
proof -
  have ok: "om_ok (rTableMap s)" using wf by (simp add: rt_wf_def)
  from andthen_Inr [OF run [unfolded neighborUpdate_def]] obtain y t where
    first: "neighbor_route n seq life s = Inr (y, t)" and
    rest: "neighbor_found n src t = Inr (x, s')"
    by blast
  from first have t: "map_of (rTableMap t) = meet n seq life (map_of (rTableMap s))"
    by (auto simp: neighbor_route_def route_run_simps kroute_run_simps meet_def map_of_new [OF ok]
        map_of_write set_route_def split: option.splits if_splits)
  have "rTableMap s' = rTableMap t"
    using table_kept_neighbor_found rest by (rule keeps_unchanged)
  with t show ?thesis by simp
qed

section \<open>What a refresh leaves behind\<close>

text \<open>The routes of the keys in \<open>K\<close> that are still there live beyond the time \<open>c\<close>.\<close>

definition later :: "u64 \<Rightarrow> ip set \<Rightarrow> node \<Rightarrow> bool" where
  "later c K s \<longleftrightarrow> (\<forall>k \<in> K. \<forall>e. map_of (rTableMap s) k = Some e \<longrightarrow> c < rt_lifetime e)"

lemma keeps_later_table: "(\<And>C. keeps (\<lambda>s. C (rTableMap s)) m) \<Longrightarrow> keeps (later c K) m"
  unfolding later_def .

lemmas keeps_later = keeps_later_table [OF table_kept_findRoute]
  keeps_later_table [OF table_kept_kroute(1)] keeps_later_table [OF table_kept_kroute(2)]
  keeps_later_table [OF table_kept_lr(1)] keeps_later_table [OF table_kept_lr(2)]
  keeps_later_table [OF table_kept_getcurrtime]

lemma keeps_later_write:
  "(\<And>e. c < rt_lifetime (f e) \<or> rt_lifetime (f e) = rt_lifetime e) \<Longrightarrow>
   keeps (later c K) (write_route k f)"
  by (fastforce intro!: keepsI simp: later_def write_route_def upd_def map_of_om_modify split: if_splits)

lemma valid_later_write:
  "(\<And>e. c < rt_lifetime (f e)) \<Longrightarrow> valid (later c K) (write_route k f) (\<lambda>_. later c (insert k K))"
  by (fastforce intro!: validI simp: later_def write_route_def upd_def map_of_om_modify split: if_splits)

lemma table_kept_scan: "keeps (\<lambda>s. C (rTableMap s)) (scan_route_check d f i ls)"
proof (induction ls arbitrary: i)
  case (Cons l ls)
  then show ?case by (simp, intro keeps_intros table_kept)
qed (simp add: keeps_ret)

lemma table_kept_FO: "keeps (\<lambda>s. C (rTableMap s)) (FO_query_route_idle_time d f)"
  unfolding FO_query_route_idle_time_def by (intro keeps_intros table_kept_scan)

lemma table_kept_idle: "keeps (\<lambda>s. C (rTableMap s)) (route_idle_time k e)"
  unfolding route_idle_time_def least_idle_def Let_def
  by (intro keeps_intros table_kept_FO)

lemma keeps_later_expire: "c < c + DELETE_PERIOD \<Longrightarrow> keeps (later c K) (expire_route c k e)"
  unfolding expire_route_def
  by (intro keeps_intros keeps_later keeps_later_write) (simp_all add: invalidate_def)

lemma valid_later_expire:
  assumes "c < c + DELETE_PERIOD"
  shows "valid (later c K) (expire_route c k e) (\<lambda>_. later c (insert k K))"
  unfolding expire_route_def
proof (rule valid_andthen [OF _ valid_andthen])
  show "valid (later c K) (whenM (rt_routing_flags e = ACTIVE_ROUTE)
        (andthen (del_kroute e)
           (write_route k (\<lambda>e. e\<lparr>rt_dest_seq_num := rt_dest_seq_num e + 1,
              rt_last_hop_cnt := rt_hop_cnt e\<rparr>)))) (\<lambda>_. later c K)"
    by (intro valid_keeps keeps_intros keeps_later keeps_later_write) simp
  show "valid (later c K) (write_route k (invalidate c)) (\<lambda>_. later c (insert k K))"
    by (rule valid_later_write) (simp add: invalidate_def assms)
  show "valid (later c (insert k K)) (bnd (findRoute k) (\<lambda>r.
      case r of None \<Rightarrow> ret ()
      | Some e' \<Rightarrow> whenM (rt_routing_flags e' = BROKEN_ROUTE) (lr_delete (rt_dest_ip e'))))
      (\<lambda>_. later c (insert k K))"
    by (intro valid_keeps keeps_intros keeps_later)
qed

text \<open>An idle time is an \<open>int\<close>, so the new lifetime lies after \<open>c\<close> when \<open>c\<close> leaves room for it.\<close>

lemma valid_scan_int:
  "- 2147483648 \<le> i \<Longrightarrow> valid P (scan_route_check d f i ls) (\<lambda>t s. - 2147483648 \<le> t)"
proof (induction ls arbitrary: i P)
  case Nil
  then show ?case by (simp add: valid_ret)
next
  case (Cons l ls)
  have "- 2147483648 \<le> sint (w :: u32)" for w using sint_ge [of w] by simp
  from Cons.IH [OF this] Cons.IH [OF Cons.prems] show ?case
    by (auto intro!: valid_bnd [where R = "\<lambda>_ _. True"] simp: valid_ret valid_def [of _ getcurrtime]
        split: option.split)
qed

lemma valid_FO_int: "valid P (FO_query_route_idle_time d f) (\<lambda>t s. - 2147483648 \<le> t)"
  unfolding FO_query_route_idle_time_def
  by (rule valid_bnd [OF valid_gets_eq]) (auto intro!: valid_ret valid_scan_int split: option.split)

lemma valid_least_idle_int:
  "- 2147483648 \<le> t \<Longrightarrow> valid P (least_idle k e t p) (\<lambda>t s. - 2147483648 \<le> t)"
  unfolding least_idle_def
  by (auto intro!: valid_ret valid_bnd [OF valid_FO_int])

lemma valid_foldM_int:
  assumes "\<And>b x P. - 2147483648 \<le> b \<Longrightarrow> valid P (f b x) (\<lambda>t s. - 2147483648 \<le> (t :: int))"
  shows "- 2147483648 \<le> b \<Longrightarrow> valid P (foldM f b xs) (\<lambda>t s. - 2147483648 \<le> t)"
proof (induction xs arbitrary: b P)
  case (Cons x xs)
  have "valid (\<lambda>s. - 2147483648 \<le> t) (foldM f t xs) (\<lambda>t s. - 2147483648 \<le> t)" for t
    using Cons.IH [of t "\<lambda>s. True"] by (auto simp: valid_def)
  then show ?case by (simp add: valid_bnd [OF assms [OF Cons.prems]])
qed (simp add: valid_ret)

lemma valid_idle_int: "valid P (route_idle_time k e) (\<lambda>t s. - 2147483648 \<le> t)"
  unfolding route_idle_time_def
proof (rule valid_bnd [OF valid_FO_int])
  fix t :: int
  let ?i = "if t < 0 then 2 * 3000 else t"
  have "- 2147483648 \<le> ?i" by simp
  then show "valid (\<lambda>s. - 2147483648 \<le> t) (let time_idle = ?i in
      if rt_hop_cnt e = 1 then bnd (gets rTableMap) (\<lambda>m. foldM (least_idle k e) time_idle m)
      else ret time_idle) (\<lambda>t s. - 2147483648 \<le> t)"
    unfolding Let_def
    by (auto intro!: valid_ret valid_bnd [OF valid_gets_eq] valid_foldM_int valid_least_idle_int
        simp del: if_split_asm split: if_split_asm)
qed

lemma life_later:
  fixes c :: u64
  assumes "c < 0xFFFFFFFF00000000" "- 2147483648 \<le> i" "i < 3000"
  shows "c < c - of_int i + 3000"
proof -
  define d where "d = nat (3000 - i)"
  have d: "0 < d" "d < 2147490000" using assms(2,3) by (simp_all add: d_def)
  have "of_int i = (3000 :: u64) - of_nat d"
    using assms(3) by (simp add: d_def of_nat_nat)
  then have eq: "c - of_int i + 3000 = c + of_nat d" by (simp only: diff_diff_eq2 diff_add_eq add_diff_cancel_right')
  have c: "unat c < 0xFFFFFFFF00000000" using assms(1) by (simp add: word_less_nat_alt)
  have "unat (c + of_nat d) = unat c + d"
    using c d by (simp add: unat_word_ariths unat_of_nat)
  with d show ?thesis by (simp only: eq word_less_nat_alt)
qed

lemma delete_later: "c < 0xFFFFFFFF00000000 \<Longrightarrow> c < c + DELETE_PERIOD"
  using life_later [of c "- 12000"] by (simp add: period_values add.commute)

lemma valid_later_refresh_entry:
  assumes c: "c < 0xFFFFFFFF00000000"
  shows "valid (later c K) (refresh_entry c k) (\<lambda>_. later c (insert k K))"
proof -
  let ?post = "\<lambda>_. later c (insert k K)"
  let ?at = "\<lambda>r s. later c K s \<and> r = map_of (rTableMap s) k"
  have find: "valid (later c K) (findRoute k) ?at"
    by (simp add: findRoute_def valid_gets_eq)
  have gone: "valid (?at None) (ret ()) ?post"
    by (rule valid_ret) (simp add: later_def)
  have alive: "valid (?at (Some e)) (ret ()) ?post" if "rt_lifetime e > c" for e
    by (rule valid_ret) (use that in \<open>auto simp: later_def\<close>)
  have erased: "valid (?at (Some e)) (upd (\<lambda>s. s\<lparr>rTableMap := om_erase k (rTableMap s)\<rparr>)) ?post" for e
    by (rule valid_upd) (auto simp: later_def map_of_om_erase)
  have live: "valid (later c K) (andthen (write_route k (\<lambda>e. e\<lparr>rt_lifetime := t\<rparr>))
       (bnd (findRoute h) (\<lambda>n. case n of None \<Rightarrow> raise NullDeref
          | Some _ \<Rightarrow> write_route h (\<lambda>e. e\<lparr>rt_lifetime := t\<rparr>)))) ?post" if "c < t" for t h
    by (rule valid_andthen [OF valid_later_write valid_keeps])
      (intro keeps_intros keeps_later keeps_later_write | simp add: that)+
  have dead: "valid (later c K) (andthen (expire_route c k e)
       (whenM (rt_hop_cnt e = 1)
          (bnd (gets (\<lambda>s. om_keys (rTableMap s))) (\<lambda>ks. forM ks (expire_over c k e))))) ?post" for e
    by (rule valid_andthen [OF valid_later_expire valid_keeps], rule delete_later [OF c],
        unfold expire_over_def, intro keeps_intros keeps_later keeps_later_expire delete_later c)
  have body: "valid (later c K) (bnd (route_idle_time k e) (\<lambda>t.
       if t < 3000 then
         let life = c - of_int t + ACTIVE_ROUTE_TIMEOUT in
         andthen (write_route k (\<lambda>e. e\<lparr>rt_lifetime := life\<rparr>))
         (bnd (findRoute (rt_next_hop e)) (\<lambda>n. case n of None \<Rightarrow> raise NullDeref
            | Some _ \<Rightarrow> write_route (rt_next_hop e) (\<lambda>e. e\<lparr>rt_lifetime := life\<rparr>)))
       else andthen (expire_route c k e)
         (whenM (rt_hop_cnt e = 1)
           (bnd (gets (\<lambda>s. om_keys (rTableMap s))) (\<lambda>ks. forM ks (expire_over c k e)))))) ?post" for e
  proof (rule valid_bnd [where R = "\<lambda>t s. - 2147483648 \<le> t \<and> later c K s"])
    have "valid (later c K) (route_idle_time k e) (\<lambda>_. later c K)"
      by (intro valid_keeps keeps_later_table table_kept_idle)
    with valid_idle_int [of "later c K"] show
      "valid (later c K) (route_idle_time k e) (\<lambda>t s. - 2147483648 \<le> t \<and> later c K s)"
      by (auto simp: valid_def)
  qed (use live [OF life_later [OF c]] dead in \<open>auto simp: valid_def Let_def\<close>)
  show ?thesis
    unfolding refresh_entry_def
    by (rule valid_bnd [OF find])
      (use gone alive erased body in \<open>auto split: option.split intro: valid_weaken [OF body]\<close>)
qed

lemma valid_later_refreshEntries:
  assumes "c < 0xFFFFFFFF00000000"
  shows "valid (later c {}) (forM ks (refresh_entry c)) (\<lambda>_. later c (set ks))"
  using valid_forM_collect [where L = "later c" and f = "refresh_entry c" and K = "{}" and xs = ks]
    valid_later_refresh_entry [OF assms] by simp

text \<open>A refresh creates no entry.\<close>

lemma keeps_dom_write: "keeps (\<lambda>s. dom (map_of (rTableMap s)) \<subseteq> D) (write_route k f)"
proof (rule keepsI)
  fix s x s'
  assume d: "dom (map_of (rTableMap s)) \<subseteq> D" and "write_route k f s = Inr (x, s')"
  then have "rTableMap s' = om_modify k f (rTableMap s)" by (auto simp: write_route_def upd_def)
  with d show "dom (map_of (rTableMap s')) \<subseteq> D" by (simp only: om.dom_modify)
qed

lemma dom_erase: "dom (map_of m) \<subseteq> D \<Longrightarrow> dom (map_of (om_erase k m)) \<subseteq> D"
  by (force simp: map_of_om_erase dom_def split: if_splits)

lemma keeps_dom_refresh: "keeps (\<lambda>s. dom (map_of (rTableMap s)) \<subseteq> D) (refresh_entry c k)"
proof -
  have *: "keeps (\<lambda>s. dom (map_of (rTableMap s)) \<subseteq> D) m" if "\<And>C. keeps (\<lambda>s. C (rTableMap s)) m"
    for m :: "(node, 'a) sm" by (rule that)
  show ?thesis
    unfolding refresh_entry_def expire_over_def expire_route_def Let_def
    by (intro keeps_intros keeps_dom_write table_kept_findRoute table_kept_kroute table_kept_lr
        table_kept_idle)
      (simp add: dom_erase)
qed

theorem refresh_leaves_no_expired:
  assumes c: "clock (env s) (ticks s) < 0xFFFFFFFF00000000"
    and run: "refreshEntries s = Inr (x, s')"
    and e: "map_of (rTableMap s') k = Some e"
  shows "clock (env s) (ticks s) < rt_lifetime e"
proof -
  let ?c = "clock (env s) (ticks s)" and ?t = "s\<lparr>ticks := Suc (ticks s)\<rparr>"
  let ?loop = "forM (om_keys (rTableMap s)) (refresh_entry ?c)"
  have loop: "?loop ?t = Inr (x, s')"
    using run by (simp add: refreshEntries_def getcurrtime_def sm_simps)
  have "later ?c (set (om_keys (rTableMap s))) s'"
    using validD [OF valid_later_refreshEntries [OF c] _ loop] by (simp add: later_def)
  moreover have "dom (map_of (rTableMap s')) \<subseteq> dom (map_of (rTableMap s))"
    by (rule keepsD [OF keeps_forM [OF keeps_dom_refresh] _ loop]) simp
  ultimately show ?thesis
    using e unfolding later_def om.set_keys by blast
qed

section \<open>What a refresh leaves alone\<close>

text \<open>An entry that was just made invalid is not a broken one.\<close>

lemma keeps_repairs_write: "keeps (\<lambda>s. C (local_repair_list s)) (write_route k f)"
  unfolding write_route_def by (rule keeps_upd) simp

lemma keeps_repairs_ops:
  "keeps (\<lambda>s. C (local_repair_list s)) getcurrtime" "keeps (\<lambda>s. C (local_repair_list s)) (findRoute k)"
  "keeps (\<lambda>s. C (local_repair_list s)) (del_kroute e)"
  by (auto intro!: keepsI simp: getcurrtime_def findRoute_def del_kroute_def emit_def sm_simps)

lemma keeps_repairs_expire: "keeps (\<lambda>s. C (local_repair_list s)) (expire_route t k e)"
proof -
  have "keeps (\<lambda>s. C (local_repair_list s)) (andthen (write_route k (invalidate t)) (bnd (findRoute k) (\<lambda>r.
      case r of None \<Rightarrow> ret ()
      | Some e' \<Rightarrow> whenM (rt_routing_flags e' = BROKEN_ROUTE) (lr_delete (rt_dest_ip e')))))"
    by (auto intro!: keepsI simp: findRoute_def write_route_def sm_simps map_of_om_modify invalidate_def
        split: option.splits)
  note last = this
  show ?thesis
    unfolding expire_route_def
    by (rule keeps_andthen [OF _ last]) (intro keeps_andthen keeps_whenM keeps_repairs_ops keeps_repairs_write)
qed

lemma keeps_repairs_idle: "keeps (\<lambda>s. C (local_repair_list s)) (route_idle_time k e)"
proof -
  have "keeps (\<lambda>s. C (local_repair_list s)) (scan_route_check d f i ls)" for d f i ls
  proof (induction ls arbitrary: i)
    case (Cons l ls)
    then show ?case by (simp, intro keeps_intros keeps_repairs_ops)
  qed (simp add: keeps_ret)
  then show ?thesis
    unfolding route_idle_time_def least_idle_def FO_query_route_idle_time_def Let_def
    by (intro keeps_intros)
qed

lemma keeps_repairs_refresh: "keeps (\<lambda>s. C (local_repair_list s)) refreshEntries"
  unfolding refreshEntries_def refresh_entry_def expire_over_def Let_def
  by (intro keeps_intros keeps_repairs_ops keeps_repairs_write keeps_repairs_expire keeps_repairs_idle) simp

section \<open>The loss of a neighbour\<close>

text \<open>No active route among the keys in \<open>K\<close> leads over \<open>dst\<close>.\<close>

definition none_over :: "ip \<Rightarrow> ip set \<Rightarrow> node \<Rightarrow> bool" where
  "none_over dst K s \<longleftrightarrow> rt_wf (rTableMap s) \<and> (\<forall>k \<in> K. \<forall>e. map_of (rTableMap s) k = Some e
     \<longrightarrow> \<not> (rt_routing_flags e = ACTIVE_ROUTE \<and> rt_next_hop e = dst))"

lemma keeps_none_over: "(\<And>C. keeps (\<lambda>s. C (rTableMap s)) m) \<Longrightarrow> keeps (none_over dst K) m"
  unfolding none_over_def .

lemma valid_break_write:
  assumes "\<And>e. entry_wf k e \<Longrightarrow> entry_wf k (f e)" "\<And>e. rt_routing_flags (f e) = BROKEN_ROUTE"
  shows "valid (none_over dst K) (write_route k f) (\<lambda>_. none_over dst (insert k K))"
  using assms
  by (fastforce intro!: validI rt_wf_modify
      simp: none_over_def write_route_def upd_def map_of_om_modify split: if_splits)

lemma valid_break_neighbor:
  "valid (none_over dst K) (break_neighbor dst e) (\<lambda>_. none_over dst (insert dst K))"
  unfolding break_neighbor_def
  apply (rule valid_bnd [OF valid_keeps [OF keeps_none_over [OF table_kept_getcurrtime]]])
  apply (simp, intro conjI impI)
   apply (rule valid_break_write, erule entry_wf_broken, simp)
  apply (rule valid_andthen [OF valid_break_write valid_keeps [OF keeps_none_over [OF table_kept_kroute(2)]]])
   apply (erule entry_wf_broken, simp)
  done

text \<open>\<open>break_over\<close> treats the route of \<open>k\<close>, given that the neighbour's own was treated.\<close>

lemma valid_break_over:
  "valid (\<lambda>s. none_over dst (insert dst K) s) (break_over dst k) (\<lambda>_. none_over dst (insert dst (insert k K)))"
proof (rule validI)
  fix s x s'
  assume pre: "none_over dst (insert dst K) s" and run: "break_over dst k s = Inr (x, s')"
  have same: "none_over dst (insert dst (insert k K)) s"
    if "\<And>e. map_of (rTableMap s) k = Some e \<Longrightarrow>
      k = dst \<or> \<not> (rt_routing_flags e = ACTIVE_ROUTE \<and> rt_next_hop e = dst)"
    using that pre by (auto simp: none_over_def)
  show "none_over dst (insert dst (insert k K)) s'"
  proof (cases "map_of (rTableMap s) k")
    case None
    then show ?thesis using run same by (auto simp: break_over_def findRoute_def sm_simps)
  next
    case (Some e)
    show ?thesis
    proof (cases "k \<noteq> dst \<and> rt_routing_flags e = ACTIVE_ROUTE \<and> rt_next_hop e = dst")
      case False
      then have "s' = s"
        using run Some pre
        by (auto simp: break_over_def findRoute_def sm_simps none_over_def dest: rt_wf_dest
            split: if_splits option.splits)
      then show ?thesis using same False Some by auto
    next
      case True
      let ?f = "\<lambda>now e. e\<lparr>rt_routing_flags := BROKEN_ROUTE,
                       rt_lifetime := now + ACTIVE_ROUTE_TIMEOUT, rt_last_hop_cnt := rt_hop_cnt e,
                       rt_dest_seq_num := rt_dest_seq_num e + 1\<rparr>"
      let ?m = "andthen (lr_add (rt_dest_ip e)) (bnd getcurrtime (\<lambda>now.
                   andthen (write_route k (?f now)) (del_kroute e)))"
      from run Some True obtain d where d: "map_of (rTableMap s) dst = Some d"
        by (auto simp: break_over_def findRoute_def sm_simps split: option.splits)
      with pre have "rt_dest_ip d = dst" by (auto simp: none_over_def dest: rt_wf_dest)
      with run Some True d have m: "?m s = Inr (x, s')"
        by (simp add: break_over_def findRoute_def gets_apply bnd_apply [of "gets _"] whenM_apply)
      have "valid (none_over dst (insert dst K)) ?m (\<lambda>_. none_over dst (insert k (insert dst K)))"
        by (rule valid_andthen [OF valid_keeps [OF keeps_none_over [OF table_kept_lr(1)]]
              valid_bnd [OF valid_keeps [OF keeps_none_over [OF table_kept_getcurrtime]]
              valid_andthen [OF valid_break_write
                valid_keeps [OF keeps_none_over [OF table_kept_kroute(2)]]]]])
          (erule entry_wf_broken, simp)
      from validD [OF this pre m] show ?thesis by (simp add: insert_commute)
    qed
  qed
qed

lemma keeps_dom_break:
  "keeps (\<lambda>s. dom (map_of (rTableMap s)) \<subseteq> D) (break_over dst k)"
  unfolding break_over_def
  by (intro keeps_intros keeps_dom_write table_kept)

lemma valid_break_loop:
  "valid (none_over dst (insert dst {})) (forM ks (break_over dst)) (\<lambda>_. none_over dst (insert dst (set ks)))"
  using valid_forM_collect [where L = "\<lambda>K. none_over dst (insert dst K)" and f = "break_over dst"
      and K = "{}" and xs = ks] valid_break_over
  by simp

lemma none_over_None: "rt_wf (rTableMap s) \<Longrightarrow> map_of (rTableMap s) dst = None \<Longrightarrow> none_over dst {dst} s"
  by (simp add: none_over_def)

theorem neighbor_timeout_breaks_routes:
  assumes wf: "rt_wf (rTableMap s)" and run: "neighbor_timeout_handler d s = Inr (x, s')"
    and e: "map_of (rTableMap s') k = Some e"
  shows "\<not> (rt_routing_flags e = ACTIVE_ROUTE \<and> rt_next_hop e = td_data d)"
proof -
  let ?dst = "td_data d"
  from run [unfolded neighbor_timeout_handler_def Let_def] obtain s1 y s2 where
    s1: "lr_add ?dst s = Inr ((), s1)" and
    s2: "(case map_of (rTableMap s1) ?dst of None \<Rightarrow> ret () | Some e \<Rightarrow> break_neighbor ?dst e) s1
      = Inr (y, s2)" and
    loop: "forM (om_keys (rTableMap s2)) (break_over ?dst) s2 = Inr (x, s')"
    by (auto simp: lr_add_def findRoute_def sm_simps split: sum.splits)
  have tab: "rTableMap s1 = rTableMap s" using s1 by (auto simp: lr_add_def upd_def)
  then have wf1: "none_over ?dst {} s1" using wf by (simp add: none_over_def)
  have "none_over ?dst {?dst} s2"
  proof (cases "map_of (rTableMap s1) ?dst")
    case None
    with s2 wf tab show ?thesis by (auto simp: ret_def intro: none_over_None)
  next
    case (Some d')
    with s2 validD [OF valid_break_neighbor wf1] show ?thesis by simp
  qed
  from validD [OF valid_break_loop this loop]
  have none: "none_over ?dst (insert ?dst (set (om_keys (rTableMap s2)))) s'" .
  have "dom (map_of (rTableMap s')) \<subseteq> dom (map_of (rTableMap s2))"
    by (rule keepsD [OF keeps_forM [OF keeps_dom_break] _ loop]) simp
  with none e show ?thesis unfolding none_over_def om.set_keys by blast
qed

end
