(* ===== verification/Route_Errors.thy ===== *)
theory Route_Errors
  imports Routing_Table
begin

text \<open>
  Received route errors (\<open>LA_Client_aodv/rerr.cc\<close> and \<open>aodv::processRERR\<close>): what they do
  to the routing table, and the new RERR that is passed on.
\<close>

section \<open>Updates from a list of unreachable destinations\<close>

definition raise_seq :: "unrchDest \<Rightarrow> (node, unit) sm" where
  "raise_seq d =
     bnd (findRoute (ud_dest_ip d)) (\<lambda>r.
     case r of None \<Rightarrow> ret ()
     | Some e \<Rightarrow>
         whenM (rt_hop_cnt e = INFINITY_HOPS)
           (write_route (ud_dest_ip d) (\<lambda>e. e\<lparr>rt_dest_seq_num :=
              (if ud_dest_seq_num d > rt_dest_seq_num e then ud_dest_seq_num d
               else rt_dest_seq_num e)\<rparr>)))"

definition RERR_updateInvalidEntries :: "RERR \<Rightarrow> (node, unit) sm" where
  "RERR_updateInvalidEntries r = forM (re_unreachable_dest r) raise_seq"

text \<open>
  A route that led over the sender becomes invalid, with the sequence number of the RERR; an
  active one leaves the kernel, a broken one the list of repairs.
\<close>

definition kill_route :: "u64 \<Rightarrow> u32 \<Rightarrow> rtable_entry \<Rightarrow> rtable_entry" where
  "kill_route currtime seq e =
     e\<lparr>rt_last_hop_cnt := rt_hop_cnt e, rt_hop_cnt := INFINITY_HOPS, rt_dest_seq_num := seq,
       rt_lifetime := currtime + DELETE_PERIOD, rt_routing_flags := INVALID_ROUTE\<rparr>"

definition withdraw_route :: "u64 \<Rightarrow> ip \<Rightarrow> unrchDest \<Rightarrow> rtable_entry \<Rightarrow> (node, unit) sm" where
  "withdraw_route currtime repaired d e =
     andthen (if rt_routing_flags e = ACTIVE_ROUTE then deleteKernelRoute (rt_dest_ip e)
              else whenM (rt_routing_flags e = BROKEN_ROUTE) (lr_delete repaired))
       (write_route (ud_dest_ip d) (kill_route currtime (ud_dest_seq_num d)))"

definition lost_over :: "ip \<Rightarrow> rtable_entry \<Rightarrow> bool" where
  "lost_over prevHop e \<longleftrightarrow> rt_hop_cnt e \<noteq> INFINITY_HOPS \<and> rt_next_hop e = prevHop"

definition withdraw :: "u64 \<Rightarrow> ip \<Rightarrow> unrchDest \<Rightarrow> (node, unit) sm" where
  "withdraw currtime prevHop d =
     bnd (findRoute (ud_dest_ip d)) (\<lambda>r.
     case r of None \<Rightarrow> ret ()
     | Some e \<Rightarrow> whenM (lost_over prevHop e) (withdraw_route currtime (rt_dest_ip e) d e))"

definition RERR_updateValidEntries :: "ip \<Rightarrow> RERR \<Rightarrow> (node, unit) sm" where
  "RERR_updateValidEntries prevHop r =
     bnd getcurrtime (\<lambda>currtime. forM (re_unreachable_dest r) (withdraw currtime prevHop))"

section \<open>The new RERR\<close>

text \<open>
  The local variables of \<open>createNewRERR\<close>. \<open>addr\<close> is a pointer, set to null at the start:
  \<open>getPrecAddr (addr)\<close> writes through it. The caller's pointer is passed by value and stays
  as it was.
\<close>

record new_rerr =
  nr_ob :: RERR
  nr_cnt :: u8
  nr_precCnt :: u32
  nr_brdFlag :: bool
  nr_addr :: "ip option"

definition count_precursors :: "rtable_entry \<Rightarrow> new_rerr \<Rightarrow> (node, new_rerr) sm" where
  "count_precursors e v =
     (let tempPrecCnt = getPrecCnt e;
          v = (if tempPrecCnt > 1
               then v\<lparr>nr_brdFlag := True, nr_addr := None, nr_precCnt := nr_precCnt v + tempPrecCnt\<rparr>
               else v)
      in if \<not> nr_brdFlag v \<and> tempPrecCnt = 1 then
           (case nr_addr v of
              Some a \<Rightarrow>
                bnd (getPrecAddr e) (\<lambda>tempAddr.
                ret (if tempAddr \<noteq> a
                     then v\<lparr>nr_precCnt := nr_precCnt v + tempPrecCnt, nr_addr := None, nr_brdFlag := True\<rparr>
                     else v))
            | None \<Rightarrow> raise NullDeref)
         else ret v)"

definition createNewRERR_step ::
    "u64 \<Rightarrow> ip \<Rightarrow> new_rerr \<Rightarrow> unrchDest \<Rightarrow> (node, new_rerr) sm" where
  "createNewRERR_step currtime prevHop v d =
     bnd (findRoute (ud_dest_ip d)) (\<lambda>r.
     case r of None \<Rightarrow> ret v
     | Some e \<Rightarrow>
         if lost_over prevHop e then
           andthen (withdraw_route currtime (ud_dest_ip d) d e)
           (count_precursors e (v\<lparr>nr_cnt := nr_cnt v + 1,
              nr_ob := RERR_setUnrchDest (rt_dest_ip e) (ud_dest_seq_num d) (nr_ob v)\<rparr>))
         else ret v)"

definition RERR_createNewRERR :: "RERR \<Rightarrow> ip \<Rightarrow> RERR \<Rightarrow> (node, bool \<times> RERR) sm" where
  "RERR_createNewRERR rerrOb prevHop this =
     (let this = this\<lparr>re_type := re_type rerrOb, re_N := re_N rerrOb,
        re_reserved1 := re_reserved1 rerrOb, re_reserved2 := re_reserved2 rerrOb\<rparr> in
      bnd getcurrtime (\<lambda>currtime.
      bnd (foldM (createNewRERR_step currtime prevHop)
             \<lparr>nr_ob = this, nr_cnt = 0, nr_precCnt = 0, nr_brdFlag = False, nr_addr = None\<rparr>
             (re_unreachable_dest rerrOb)) (\<lambda>v.
      ret (nr_precCnt v > 0, RERR_setDestCnt (nr_cnt v) (nr_ob v)))))"

section \<open>Processing a received RERR\<close>

record aodvData =
  ad_src_ip :: ip
  ad_dest_ip :: ip
  ad_ttl :: int

text \<open>A RERR with the N bit: the destination was repaired over a longer route.\<close>

definition processRERR_N :: "ip \<Rightarrow> RERR \<Rightarrow> (node, unit) sm" where
  "processRERR_N src rerrOb =
     whenM (re_dest_cnt rerrOb = 1)
       (bnd (RERR_getUnrchDest rerrOb) (\<lambda>dst.
        bnd (findActiveRoute dst) (\<lambda>r.
        case r of None \<Rightarrow> ret ()
        | Some e \<Rightarrow>
            whenM (rt_next_hop e = src)
              (bnd (RERR_getUnrchDestSeqNum rerrOb) (\<lambda>seq.
               andthen (setDestSeqNum dst seq)
                 (whenM (getPrecCnt e > 0) (generateRERR dst 1 False)))))))"

text \<open>
  The pointer \<open>precAddr\<close> of \<open>processRERR\<close> is never null, and what it points to never
  written: the new RERR is sent to what that memory holds.
\<close>

definition send_new_RERR :: "RERR \<Rightarrow> (node, unit) sm" where
  "send_new_RERR r =
     (let len = 4 * (1 + 2 * unat (re_dest_cnt r)) in
      andthen (rerr_block len)
      (bnd (gets (\<lambda>s. junk_precAddr (env s) (ticks s))) (\<lambda>precAddr.
       send_bytes precAddr 1 (packed_rerr r len))))"

definition processRERR :: "aodvData \<Rightarrow> (node, unit) sm" where
  "processRERR dat =
     bnd getcurrtime (\<lambda>currtime.
     bnd (gets recvBuffer) (\<lambda>buf.
     bnd (gets duringReboot) (\<lambda>reboot.
     let rerrOb = RERR_createRERR buf RERR_new; src = ad_src_ip dat in
     if reboot then
       andthen (rebootNeighborUpdate src 0 (currtime + ALLOWED_HELLO_LOSS * HELLO_INTERVAL))
       (andthen (RERR_updateInvalidEntries rerrOb)
         (RERR_updateValidEntries src rerrOb))
     else
       andthen (neighborUpdate src src 0 (currtime + ALLOWED_HELLO_LOSS * HELLO_INTERVAL))
       (andthen (RERR_updateInvalidEntries rerrOb)
         (if RERR_getN rerrOb = 1 then processRERR_N src rerrOb
          else
            bnd (RERR_createNewRERR rerrOb src RERR_new) (\<lambda>(result, rerrNewOb).
            whenM result (send_new_RERR rerrNewOb)))))))"

section \<open>As steps\<close>

lemma entry_wf_kill: "entry_wf k e \<Longrightarrow> entry_wf k (kill_route t n e)"
  by (auto simp: entry_wf_def kill_route_def)

lemma via_raise_seq [via_intros]: "via (prim r) P (raise_seq d)"
  unfolding raise_seq_def by (intro via_intros via_write_wf) (simp add: entry_wf_seq_life)

lemma via_updateInvalid [via_intros]: "via (prim r) P (RERR_updateInvalidEntries x)"
  unfolding RERR_updateInvalidEntries_def by (rule via_weaken) (intro via_intros)

lemma via_withdraw_route [via_intros]: "via (prim r) P (withdraw_route t h d e)"
  unfolding withdraw_route_def by (intro via_intros via_write_wf entry_wf_kill)

lemma via_updateValid [via_intros]: "via (prim r) P (RERR_updateValidEntries h x)"
  unfolding RERR_updateValidEntries_def withdraw_def by (intro via_intros)

lemma via_count_precursors [via_intros]: "via (prim r) P (count_precursors e v)"
  unfolding count_precursors_def by (intro via_intros)

lemma via_createNewRERR_step [via_intros]: "via (prim r) P (createNewRERR_step t h v d)"
  unfolding createNewRERR_step_def by (intro via_intros)

lemma via_createNewRERR [via_intros]: "via (prim r) P (RERR_createNewRERR x h y)"
  unfolding RERR_createNewRERR_def by (intro via_intros)

lemma via_RERR_get [via_intros]:
  "via R P (RERR_getUnrchDest x)" "via R P (RERR_getUnrchDestSeqNum x)"
  unfolding RERR_getUnrchDest_def RERR_getUnrchDestSeqNum_def by (intro via_intros)+

lemma via_processRERR_N [via_intros]: "via (prim r) P (processRERR_N src x)"
  unfolding processRERR_N_def by (intro via_intros)

lemma via_send_new_RERR [via_intros]: "via (prim r) P (send_new_RERR x)"
  unfolding send_new_RERR_def
  by (intro via_intros via_send_bytes) (simp add: packed_rerr_nonempty)

lemma via_processRERR [via_intros]: "via (prim (Suc r)) P (processRERR d)"
  unfolding processRERR_def by (intro via_intros)

section \<open>What a RERR does to the table\<close>

text \<open>No route to a destination in \<open>K\<close> leads over \<open>h\<close> with a finite metric any more.\<close>

definition withdrawn :: "ip \<Rightarrow> ip set \<Rightarrow> node \<Rightarrow> bool" where
  "withdrawn h K s \<longleftrightarrow> (\<forall>k \<in> K. \<forall>e. map_of (rTableMap s) k = Some e \<longrightarrow> \<not> lost_over h e)"

lemma keeps_withdrawn_table: "(\<And>C. keeps (\<lambda>s. C (rTableMap s)) m) \<Longrightarrow> keeps (withdrawn h K) m"
  unfolding withdrawn_def .

lemma table_kept_deleteKernelRoute: "keeps (\<lambda>s. C (rTableMap s)) (deleteKernelRoute k)"
  unfolding deleteKernelRoute_def by (intro keeps_intros table_kept)

lemma valid_withdraw_route:
  "valid (withdrawn h K) (withdraw_route t a d e) (\<lambda>_. withdrawn h (insert (ud_dest_ip d) K))"
  unfolding withdraw_route_def
proof (rule valid_andthen)
  show "valid (withdrawn h K) (if rt_routing_flags e = ACTIVE_ROUTE then deleteKernelRoute (rt_dest_ip e)
      else whenM (rt_routing_flags e = BROKEN_ROUTE) (lr_delete a)) (\<lambda>_. withdrawn h K)"
    by (intro valid_keeps keeps_withdrawn_table keeps_if keeps_whenM table_kept_deleteKernelRoute table_kept)
  show "valid (withdrawn h K) (write_route (ud_dest_ip d) (kill_route t (ud_dest_seq_num d)))
      (\<lambda>_. withdrawn h (insert (ud_dest_ip d) K))"
    by (fastforce intro!: validI simp: withdrawn_def write_route_def upd_def map_of_om_modify
        kill_route_def lost_over_def split: if_splits)
qed

lemma valid_withdraw:
  "valid (withdrawn h K) (withdraw t h d) (\<lambda>_. withdrawn h (insert (ud_dest_ip d) K))"
proof (rule validI)
  fix s x s'
  assume s: "withdrawn h K s" and run: "withdraw t h d s = Inr (x, s')"
  show "withdrawn h (insert (ud_dest_ip d) K) s'"
  proof (cases "\<exists>e. map_of (rTableMap s) (ud_dest_ip d) = Some e \<and> lost_over h e")
    case True
    then obtain e where e: "map_of (rTableMap s) (ud_dest_ip d) = Some e" "lost_over h e" by blast
    with run have "withdraw_route t (rt_dest_ip e) d e s = Inr (x, s')"
      by (simp add: withdraw_def findRoute_def gets_apply bnd_apply [of "gets _"] whenM_def)
    from validD [OF valid_withdraw_route s this] show ?thesis .
  next
    case False
    with run have "s' = s"
      by (auto simp: withdraw_def findRoute_def sm_simps split: option.splits if_splits)
    with s False show ?thesis by (auto simp: withdrawn_def)
  qed
qed

lemma valid_createNewRERR_step:
  "valid (withdrawn h K) (createNewRERR_step t h v d) (\<lambda>_. withdrawn h (insert (ud_dest_ip d) K))"
proof (rule validI)
  fix s x s'
  assume s: "withdrawn h K s" and run: "createNewRERR_step t h v d s = Inr (x, s')"
  show "withdrawn h (insert (ud_dest_ip d) K) s'"
  proof (cases "\<exists>e. map_of (rTableMap s) (ud_dest_ip d) = Some e \<and> lost_over h e")
    case True
    then obtain e where e: "map_of (rTableMap s) (ud_dest_ip d) = Some e" "lost_over h e" by blast
    let ?v = "v\<lparr>nr_cnt := nr_cnt v + 1,
              nr_ob := RERR_setUnrchDest (rt_dest_ip e) (ud_dest_seq_num d) (nr_ob v)\<rparr>"
    have "valid (withdrawn h K) (andthen (withdraw_route t (ud_dest_ip d) d e) (count_precursors e ?v))
        (\<lambda>_. withdrawn h (insert (ud_dest_ip d) K))"
      by (rule valid_andthen [OF valid_withdraw_route])
        (auto intro!: validI simp: count_precursors_def getPrecAddr_def Let_def sm_simps
          split: option.splits if_splits list.splits)
    moreover from run e have "andthen (withdraw_route t (ud_dest_ip d) d e) (count_precursors e ?v) s
        = Inr (x, s')"
      by (simp add: createNewRERR_step_def findRoute_def gets_apply bnd_apply [of "gets _"])
    ultimately show ?thesis using s by (auto dest: validD)
  next
    case False
    with run have "s' = s"
      by (auto simp: createNewRERR_step_def findRoute_def sm_simps split: option.splits if_splits)
    with s False show ?thesis by (auto simp: withdrawn_def)
  qed
qed

lemma valid_foldM_withdrawn:
  "valid (withdrawn h K) (foldM (createNewRERR_step t h) v ds) (\<lambda>_. withdrawn h (K \<union> ud_dest_ip ` set ds))"
proof (induction ds arbitrary: K v)
  case (Cons d ds)
  from Cons.IH [of "insert (ud_dest_ip d) K"] show ?case
    by (simp, intro valid_bnd [OF valid_createNewRERR_step]) simp
qed (simp add: valid_ret)

lemma updateValid_withdraws:
  assumes "RERR_updateValidEntries h r s = Inr (x, s')"
  shows "withdrawn h (ud_dest_ip ` set (re_unreachable_dest r)) s'"
proof -
  have "valid (withdrawn h {}) (forM ds (withdraw t h)) (\<lambda>_. withdrawn h (ud_dest_ip ` set ds))" for t ds
  proof -
    have "valid (withdrawn h K) (forM ds (withdraw t h)) (\<lambda>_. withdrawn h (K \<union> ud_dest_ip ` set ds))" for K
    proof (induction ds arbitrary: K)
      case (Cons d ds)
      from Cons.IH [of "insert (ud_dest_ip d) K"] show ?case
        by (simp, intro valid_andthen [OF valid_withdraw]) simp
    qed (simp add: valid_ret)
    from this [of "{}"] show ?thesis by simp
  qed
  from validD [OF this _ _] assms show ?thesis
    by (auto simp: RERR_updateValidEntries_def getcurrtime_def bnd_apply withdrawn_def [of h "{}"])
qed

lemma createNewRERR_withdraws:
  assumes "RERR_createNewRERR r h this s = Inr (x, s')"
  shows "withdrawn h (ud_dest_ip ` set (re_unreachable_dest r)) s'"
  using assms validD [OF valid_foldM_withdrawn, of h "{}"]
  by (auto simp: RERR_createNewRERR_def getcurrtime_def sm_simps Let_def withdrawn_def [of h "{}"]
      split: sum.splits)

section \<open>The new RERR\<close>

lemma count_precursors_ob:
  "count_precursors e v s = Inr (v', s') \<Longrightarrow> nr_ob v' = nr_ob v \<and> nr_cnt v' = nr_cnt v"
  by (auto simp: count_precursors_def getPrecAddr_def Let_def sm_simps
      split: option.splits if_splits list.splits)

lemma createNewRERR_step_cnt:
  assumes "createNewRERR_step t h v d s = Inr (v', s')"
  shows "(nr_ob v' = nr_ob v \<and> nr_cnt v' = nr_cnt v) \<or>
    (\<exists>dst sq. nr_ob v' = RERR_setUnrchDest dst sq (nr_ob v) \<and> nr_cnt v' = nr_cnt v + 1)"
  using assms
  by (fastforce simp: createNewRERR_step_def sm_simps findRoute_def
      dest!: count_precursors_ob split: option.splits if_splits sum.splits)

text \<open>The count field follows the list, which is no longer than the one received.\<close>

definition counted :: "nat \<Rightarrow> new_rerr \<Rightarrow> bool" where
  "counted n v \<longleftrightarrow> re_reserved1 (nr_ob v) = 0 \<and> length (re_unreachable_dest (nr_ob v)) \<le> n
     \<and> nr_cnt v = of_nat (length (re_unreachable_dest (nr_ob v)))"

lemma counted_step: "counted n v \<Longrightarrow> createNewRERR_step t h v d s = Inr (v', s') \<Longrightarrow> counted (Suc n) v'"
  by (drule createNewRERR_step_cnt) (auto simp: counted_def RERR_setUnrchDest_def)

lemma counted_fold:
  "counted n v \<Longrightarrow> foldM (createNewRERR_step t h) v ds s = Inr (v', s') \<Longrightarrow> counted (n + length ds) v'"
proof (induction ds arbitrary: n v s)
  case (Cons d ds)
  then show ?case by (fastforce simp: sm_simps split: sum.splits dest: counted_step)
qed (simp add: ret_def)

lemma createNewRERR_ok:
  assumes run: "RERR_createNewRERR r h RERR_new s = Inr ((b, r'), s')"
    and len: "length (re_unreachable_dest r) < 256" and res: "re_reserved1 r = 0"
  shows "RERR_ok r'"
proof -
  let ?v = "\<lparr>nr_ob = RERR_new\<lparr>re_type := re_type r, re_N := re_N r, re_reserved1 := re_reserved1 r,
      re_reserved2 := re_reserved2 r\<rparr>, nr_cnt = 0, nr_precCnt = 0, nr_brdFlag = False, nr_addr = None\<rparr>"
  have start: "counted 0 ?v" by (simp add: counted_def RERR_new_def res)
  obtain v t where v: "foldM (createNewRERR_step (clock (env s) (ticks s)) h) ?v (re_unreachable_dest r)
      (s\<lparr>ticks := Suc (ticks s)\<rparr>) = Inr (v, t)" and r': "r' = RERR_setDestCnt (nr_cnt v) (nr_ob v)"
    using run by (auto simp: RERR_createNewRERR_def getcurrtime_def bnd_apply ret_apply Let_def
        split: sum.splits)
  from counted_fold [OF start v] have "counted (length (re_unreachable_dest r)) v" by simp
  with len r' show ?thesis by (auto simp: counted_def RERR_ok_def RERR_setDestCnt_def)
qed

lemma received_RERR_bounds:
  "length (re_unreachable_dest (RERR_createRERR b RERR_new)) < 256"
  "re_reserved1 (RERR_createRERR b RERR_new) = 0"
  using unsigned_less [of "b 3", where 'a = nat] by (simp_all add: createRERR_eq RERR_new_def)

text \<open>Withdrawing routes never faults, and the bytes sent are those of the RERR.\<close>

lemma runs_withdraw_route: "runs always (withdraw_route t a d e)"
  by (auto simp: runs_def withdraw_route_def deleteKernelRoute_def del_kroute_def findRoute_def emit_def
      lr_delete_def write_route_def sm_simps split: option.split)

lemma runs_updateValid: "runs always (RERR_updateValidEntries h r)"
  unfolding RERR_updateValidEntries_def withdraw_def
  by (intro runs_intros runs_withdraw_route) (simp_all add: getcurrtime_def findRoute_def runs_def sm_simps)

lemma packed_rerr_bytes:
  assumes "RERR_ok r"
  shows "packed_rerr r (4 * (1 + 2 * unat (re_dest_cnt r))) = RERR_bytes r"
proof -
  have "unat (re_dest_cnt r) = length (re_unreachable_dest r)"
    using assms by (simp add: RERR_ok_def unat_of_nat)
  then show ?thesis
    by (simp add: packed_rerr_def RERR_copyIntoBuf_def read_write_buf length_RERR_bytes)
qed

end
