(* ===== verification/Discovery.thy ===== *)
theory Discovery
  imports Routing_Table
begin

text \<open>
  Route discovery: RREQs and RREPs created and received (\<open>LA_Client_aodv/rreq.cc\<close>,
  \<open>rrep.cc\<close>), and the sending, repeating and giving up of RREQs and local repairs
  (\<open>aodv.cc\<close>: \<open>sendRREQ\<close>, \<open>resendRREQ\<close>, \<open>doLocalRepair\<close>, \<open>LR_handler\<close>).
\<close>

section \<open>The lists, with the clock and the loop that may not end\<close>

definition black_list_inList :: "ip \<Rightarrow> (node, bool) sm" where
  "black_list_inList dst =
     bnd (gets (\<lambda>s. blacklist_inList (bList s) dst)) (\<lambda>r.
     case r of None \<Rightarrow> raise Diverges | Some b \<Rightarrow> ret b)"

definition black_list_addToList :: "ip \<Rightarrow> u64 \<Rightarrow> (node, unit) sm" where
  "black_list_addToList dst lTime =
     bnd (black_list_inList dst) (\<lambda>b.
     if b then ret ()
     else bnd getcurrtime (\<lambda>now. upd (\<lambda>s. s\<lparr>bList := blacklist_addToList now dst lTime (bList s)\<rparr>)))"

definition black_list_updateEntries :: "(node, unit) sm" where
  "black_list_updateEntries =
     bnd getcurrtime (\<lambda>currtime. upd (\<lambda>s. s\<lparr>bList := blacklist_updateEntries currtime (bList s)\<rparr>))"

definition fw_rreqL_addToList :: "ip \<Rightarrow> u32 \<Rightarrow> (node, unit) sm" where
  "fw_rreqL_addToList src rid =
     bnd (gets (\<lambda>s. fwRreqList_inList (fw_rreq_list s) src rid)) (\<lambda>b.
     if b then ret ()
     else bnd getcurrtime (\<lambda>now.
       upd (\<lambda>s. s\<lparr>fw_rreq_list := fwRreqList_addToList now src rid (fw_rreq_list s)\<rparr>)))"

text \<open>The clock is read again for each entry; \<open>front\<close> is what the iterator has passed.\<close>

fun fw_rreqL_update_from :: "fw_rreq_entry list \<Rightarrow> fw_rreq_entry list \<Rightarrow> (node, unit) sm" where
  "fw_rreqL_update_from front [] = ret ()"
| "fw_rreqL_update_from front (e # l) =
     bnd getcurrtime (\<lambda>now.
     if fw_lifetime e \<le> now
     then andthen (upd (\<lambda>s. s\<lparr>fw_rreq_list := front @ l\<rparr>)) (fw_rreqL_update_from front l)
     else fw_rreqL_update_from (front @ [e]) l)"

definition fw_rreqL_updateEntries :: "(node, unit) sm" where
  "fw_rreqL_updateEntries = bnd (gets fw_rreq_list) (\<lambda>l. fw_rreqL_update_from [] l)"

section \<open>RREQ\<close>

definition RREQ_createRREQ :: "ip \<Rightarrow> u8 \<Rightarrow> (node, RREQ) sm" where
  "RREQ_createRREQ dst flags =
     andthen (upd (\<lambda>s. s\<lparr>rreqId := rreqId s + 1\<rparr>))
     (bnd (gets rreqId) (\<lambda>i.
      bnd (getDestSeqNum dst) (\<lambda>destSeq.
      bnd (gets g_my_ip) (\<lambda>my_ip.
      andthen (upd (\<lambda>s. s\<lparr>localSeqNum := localSeqNum s + 1\<rparr>))
      (bnd (gets localSeqNum) (\<lambda>srcSeq.
       ret \<lparr>rq_type = AODV_RREQ, rq_J = False, rq_R = False, rq_G = (flags = 1),
            rq_reserved1 = 0, rq_reserved2 = 0, rq_hop_cnt = 0, rq_rreq_id = i,
            rq_dest_ip = dst, rq_dest_seq_num = destSeq, rq_src_ip = my_ip,
            rq_src_seq_num = srcSeq\<rparr>))))))"

text \<open>
  \<open>recvRREQ\<close> changes the object it is called on; the result carries the object afterwards.
  First, what is done with an RREQ that is new, once the routes are updated.
\<close>

definition answer_or_forward :: "RREQ \<Rightarrow> (node, int \<times> RREQ) sm" where
  "answer_or_forward q =
     bnd (gets g_my_ip) (\<lambda>my_ip.
     if rq_dest_ip q = my_ip then
       bnd (gets localSeqNum) (\<lambda>seq.
       andthen (whenM (rq_dest_seq_num q > seq)
           (upd (\<lambda>s. s\<lparr>localSeqNum := rq_dest_seq_num q\<rparr>)))
         (ret (GEN_RREP, q)))
     else
       bnd (findValidRoute (rq_dest_ip q) (rq_dest_seq_num q)) (\<lambda>r.
       case r of Some _ \<Rightarrow> ret (GEN_RREP, q)
       | None \<Rightarrow>
           bnd (findRoute (rq_dest_ip q)) (\<lambda>r.
           let seq = (case r of None \<Rightarrow> rq_dest_seq_num q
                      | Some e \<Rightarrow> if rq_dest_seq_num q < rt_dest_seq_num e then rt_dest_seq_num e
                                  else rq_dest_seq_num q)
           in ret (FWD_RREQ, q\<lparr>rq_dest_seq_num := seq, rq_hop_cnt := rq_hop_cnt q + 1\<rparr>))))"

definition consider_RREQ :: "ip \<Rightarrow> RREQ \<Rightarrow> (node, int \<times> RREQ) sm" where
  "consider_RREQ prevHop q =
     bnd (gets (\<lambda>s. fwRreqList_inList (fw_rreq_list s) (rq_src_ip q) (rq_rreq_id q))) (\<lambda>seen.
     if seen then ret (0, q)
     else
       andthen (fw_rreqL_addToList (rq_src_ip q) (rq_rreq_id q))
       (andthen (whenM (rq_src_ip q \<noteq> prevHop) (reverseRouteUpdate prevHop q))
         (answer_or_forward q)))"

definition RREQ_recvRREQ :: "ip \<Rightarrow> RREQ \<Rightarrow> (node, int \<times> RREQ) sm" where
  "RREQ_recvRREQ prevHop q =
     bnd getcurrtime (\<lambda>currtime.
     bnd (black_list_inList prevHop) (\<lambda>black.
     if black then ret (0, q) else
     bnd (gets g_my_ip) (\<lambda>my_ip.
     if rq_src_ip q = my_ip then ret (0, q) else
     let seqNum = (if rq_src_ip q = prevHop then rq_src_seq_num q else 0) in
     andthen (neighborUpdate prevHop (rq_src_ip q) seqNum (currtime + ALLOWED_HELLO_LOSS * HELLO_INTERVAL))
       (consider_RREQ prevHop q))))"

section \<open>RREP\<close>

text \<open>
  \<open>createRREP\<close> and \<open>createGRREP\<close> on an uninitialised object \<open>p\<close>: without an active route
  some fields keep what they hold.
\<close>

definition RREP_header :: "bool \<Rightarrow> RREP \<Rightarrow> RREP" where
  "RREP_header ack p = p\<lparr>rp_type := AODV_RREP, rp_R := False, rp_A := ack, rp_reserved1 := 0,
     rp_reserved2 := 0, rp_prefix_size := 0\<rparr>"

definition RREP_createRREP :: "ip \<Rightarrow> RREQ \<Rightarrow> RREP \<Rightarrow> (node, RREP) sm" where
  "RREP_createRREP prevHop q p =
     bnd (gets rrepAckFlag) (\<lambda>ack.
     let p = RREP_header ack p in
     bnd (gets g_my_ip) (\<lambda>my_ip.
     bnd
       (if rq_dest_ip q = my_ip then
          bnd (gets localSeqNum) (\<lambda>seq.
          ret (p\<lparr>rp_dest_seq_num := seq, rp_hop_cnt := 0, rp_lifetime := ucast MY_ROUTE_TIMEOUT\<rparr>))
        else
          bnd (findActiveRoute (rq_dest_ip q)) (\<lambda>r.
          case r of None \<Rightarrow> ret p
          | Some e \<Rightarrow>
              andthen (write_route (rq_dest_ip q) (addToPrecursor prevHop))
              (bnd getcurrtime (\<lambda>now.
               bnd (findActiveRoute (rq_src_ip q)) (\<lambda>r'.
               andthen (case r' of None \<Rightarrow> ret ()
                        | Some _ \<Rightarrow> write_route (rq_src_ip q) (addToPrecursor (rt_next_hop e)))
               (ret (p\<lparr>rp_dest_seq_num := rt_dest_seq_num e, rp_hop_cnt := rt_hop_cnt e,
                       rp_lifetime := ucast (rt_lifetime e - now)\<rparr>)))))))
       (\<lambda>p. ret (p\<lparr>rp_dest_ip := rq_dest_ip q, rp_src_ip := rq_src_ip q\<rparr>))))"

definition RREP_createGRREP :: "ip \<Rightarrow> ip \<Rightarrow> u32 \<Rightarrow> RREP \<Rightarrow> (node, RREP) sm" where
  "RREP_createGRREP org_rreq_src org_rreq_dst seqNum p =
     bnd (gets rrepAckFlag) (\<lambda>ack.
     let p = RREP_header ack p in
     bnd (findActiveRoute org_rreq_src) (\<lambda>r.
     bnd
       (case r of None \<Rightarrow> ret p
        | Some e \<Rightarrow>
            bnd getcurrtime (\<lambda>now.
            ret (p\<lparr>rp_hop_cnt := rt_hop_cnt e, rp_lifetime := ucast (rt_lifetime e - now)\<rparr>)))
       (\<lambda>p. ret (p\<lparr>rp_dest_ip := org_rreq_src, rp_dest_seq_num := seqNum, rp_src_ip := org_rreq_dst\<rparr>))))"

definition RREP_recvRREP :: "ip \<Rightarrow> RREP \<Rightarrow> (node, int \<times> RREP) sm" where
  "RREP_recvRREP prevHop p =
     bnd getcurrtime (\<lambda>currtime.
     let seqNum = (if rp_dest_ip p = prevHop then rp_dest_seq_num p else 0) in
     andthen (neighborUpdate prevHop (rp_src_ip p) seqNum (currtime + ALLOWED_HELLO_LOSS * HELLO_INTERVAL))
     (andthen (whenM (rp_dest_ip p \<noteq> prevHop) (forwardRouteUpdate prevHop p))
     (bnd (gets g_my_ip) (\<lambda>my_ip.
      if rp_src_ip p \<noteq> my_ip \<and> rp_src_ip p \<noteq> 0 then
        bnd (findActiveRoute (rp_dest_ip p)) (\<lambda>dst.
        bnd (findActiveRoute (rp_src_ip p)) (\<lambda>src.
        andthen
          (case dst of None \<Rightarrow> ret ()
           | Some _ \<Rightarrow>
               (case src of None \<Rightarrow> ret ()
                | Some e \<Rightarrow> write_route (rp_dest_ip p) (addToPrecursor (rt_next_hop e))))
        (bnd (gets rrepAckFlag) (\<lambda>ack.
         ret (SEND_RREP, p\<lparr>rp_hop_cnt := rp_hop_cnt p + 1, rp_A := ack\<rparr>)))))
      else ret (0, p)))))"

section \<open>Sending RREQs\<close>

text \<open>An \<open>int\<close> factor in an expression with the 64-bit time value: converted, modulo 2 to the 64.\<close>

definition setRREQTimer :: "ip \<Rightarrow> int \<Rightarrow> (node, unit) sm" where
  "setRREQTimer dst ttl =
     bnd (gets expandingRingSearch) (\<lambda>ring.
     set_timer (if ring then of_int (2 * ttl * 500) else NET_TRAVERSAL_TIME) ResendRREQ
       \<lparr>td_type = RREQ_TIMER, td_data = dst\<rparr>)"

definition setLRTimer :: "ip \<Rightarrow> int \<Rightarrow> (node, unit) sm" where
  "setLRTimer dst ttl =
     set_timer (of_int (2 * ttl * 500)) LR_Timer \<lparr>td_type = LR_TIMER, td_data = dst\<rparr>"

text \<open>Without the expanding ring search \<open>ttl\<close> is never set.\<close>

definition first_ttl :: "ip \<Rightarrow> (node, int) sm" where
  "first_ttl dst =
     bnd (gets expandingRingSearch) (\<lambda>ring.
     if ring then
       bnd (getTTL dst) (\<lambda>t. ret (if t = 0 then TTL_START else uint t + TTL_INCREMENT))
     else gets (\<lambda>s. junk_ttl (env s) (ticks s)))"

definition rreqL_addToList :: "RREQ \<Rightarrow> int \<Rightarrow> (node, unit) sm" where
  "rreqL_addToList q ttl =
     upd (\<lambda>s. s\<lparr>rreq_list := rreqPendingList_addToList q 0 ttl (rreq_list s)\<rparr>)"

text \<open>A route that waits for an RREP is kept; the search starts and is remembered.\<close>

definition hold_route :: "ip \<Rightarrow> (node, unit) sm" where
  "hold_route dst =
     bnd (findRoute dst) (\<lambda>r.
     case r of None \<Rightarrow> ret ()
     | Some _ \<Rightarrow> bnd getcurrtime (\<lambda>now.
         write_route dst (\<lambda>e. e\<lparr>rt_lifetime := now + PATH_TRAVERSAL_TIME\<rparr>)))"

definition start_search :: "ip \<Rightarrow> RREQ \<Rightarrow> (node, unit) sm" where
  "start_search dst q =
     bnd (first_ttl dst) (\<lambda>ttl.
     andthen (rreqL_addToList q ttl)
     (andthen (setRREQTimer dst ttl)
       (send_bytes BROADCAST_ADDR ttl (RREQ_bytes q))))"

definition sendRREQ :: "ip \<Rightarrow> u8 \<Rightarrow> (node, unit) sm" where
  "sendRREQ dst flags =
     bnd (gets g_my_ip) (\<lambda>my_ip.
     if dst = my_ip then ret ()
     else
       bnd (RREQ_createRREQ dst flags) (\<lambda>q.
       andthen (hold_route dst) (start_search dst q)))"

definition doLocalRepair :: "ip \<Rightarrow> ip \<Rightarrow> u8 \<Rightarrow> (node, unit) sm" where
  "doLocalRepair dst src rflags =
     bnd (RREQ_createRREQ dst rflags) (\<lambda>q.
     bnd (findRoute dst) (\<lambda>r.
     let ttl = (case r of None \<Rightarrow> 0 | Some e \<Rightarrow> uint (rt_last_hop_cnt e)) + LOCAL_ADD_TTL in
     andthen (setLRTimer dst ttl)
       (send_bytes BROADCAST_ADDR ttl (RREQ_bytes q))))"

definition LR_handler :: "timerData \<Rightarrow> (node, unit) sm" where
  "LR_handler tData =
     (let dst = td_data tData in
      andthen (la_reply dst IP_NOFOUND)
     (bnd (findRoute dst) (\<lambda>r.
      andthen (case r of None \<Rightarrow> ret ()
               | Some _ \<Rightarrow> bnd getcurrtime (\<lambda>now.
                   write_route dst (\<lambda>e. e\<lparr>rt_last_hop_cnt := rt_hop_cnt e, rt_hop_cnt := INFINITY_HOPS,
                     rt_lifetime := now + DELETE_PERIOD, rt_routing_flags := INVALID_ROUTE\<rparr>)))
      (andthen (generateRERR dst 0 False)
        (lr_delete dst)))))"

text \<open>The entry after another timeout: its time to live grows, or its retries are counted.\<close>

definition next_try :: "bool \<Rightarrow> rreq_list_entry \<Rightarrow> rreq_list_entry" where
  "next_try ring e =
     (if ring then
        if pe_ttl e = NET_DIAMETER then e\<lparr>pe_retries := pe_retries e + 1\<rparr>
        else
          let ttl = pe_ttl e + TTL_INCREMENT in
          if ttl \<ge> TTL_THRESHOLD then e\<lparr>pe_ttl := NET_DIAMETER, pe_retries := pe_retries e + 1\<rparr>
          else e\<lparr>pe_ttl := ttl\<rparr>
      else e\<lparr>pe_retries := pe_retries e + 1\<rparr>)"

definition rreqL_write :: "ip \<Rightarrow> rreq_list_entry \<Rightarrow> (node, unit) sm" where
  "rreqL_write dst e = upd (\<lambda>s. s\<lparr>rreq_list := rreqPendingList_write dst e (rreq_list s)\<rparr>)"

definition rreqL_deleteFromList :: "ip \<Rightarrow> (node, unit) sm" where
  "rreqL_deleteFromList dst =
     upd (\<lambda>s. s\<lparr>rreq_list := rreqPendingList_deleteFromList dst (rreq_list s)\<rparr>)"

definition resend_entry :: "ip \<Rightarrow> rreq_list_entry \<Rightarrow> (node, unit) sm" where
  "resend_entry dst e =
     andthen (upd (\<lambda>s. s\<lparr>rreqId := rreqId s + 1\<rparr>))
     (bnd (gets rreqId) (\<lambda>i.
      bnd (getDestSeqNum dst) (\<lambda>destSeq.
      andthen (upd (\<lambda>s. s\<lparr>localSeqNum := localSeqNum s + 1\<rparr>))
      (bnd (gets localSeqNum) (\<lambda>srcSeq.
       let q = (pe_rreqOb e)\<lparr>rq_rreq_id := i, rq_dest_seq_num := destSeq, rq_src_seq_num := srcSeq\<rparr> in
       andthen (rreqL_write dst (e\<lparr>pe_rreqOb := q\<rparr>))
       (andthen (setRREQTimer dst (pe_ttl e))
         (send_bytes BROADCAST_ADDR (pe_ttl e) (RREQ_bytes q))))))))"

definition resendRREQ :: "timerData \<Rightarrow> (node, unit) sm" where
  "resendRREQ tData =
     (let dst = td_data tData in
      bnd (gets (\<lambda>s. rreqPendingList_inList (rreq_list s) dst)) (\<lambda>r.
      case r of None \<Rightarrow> ret ()
      | Some e \<Rightarrow>
          bnd (gets expandingRingSearch) (\<lambda>ring.
          let e' = next_try ring e in
          andthen (rreqL_write dst e')
            (if pe_retries e' > RREQ_RETRIES then
               andthen (rreqL_deleteFromList dst) (la_reply dst IP_NOFOUND)
             else resend_entry dst e'))))"

section \<open>As steps\<close>

lemma via_black_list_inList [via_intros]: "via (prim r) P (black_list_inList d)"
  unfolding black_list_inList_def by (intro via_intros)

text \<open>An entry is added only while the timer that blames the node is in the queue.\<close>

lemma via_black_list_addToList:
  "via (prim r) (\<lambda>s. \<exists>t \<in> set (timerQ s). is_ack t) (black_list_addToList d lt)"
proof (rule viaI)
  fix s x s'
  assume ack: "\<exists>t \<in> set (timerQ s). is_ack t" and run: "black_list_addToList d lt s = Inr (x, s')"
  let ?s = "s\<lparr>ticks := Suc (ticks s)\<rparr>"
  consider "s' = s" | "blacklist_inList (bList s) d = Some False"
      "s' = ?s\<lparr>bList := blacklist_addToList (clock (env s) (ticks s)) d lt (bList ?s)\<rparr>"
    using run by (auto simp: black_list_addToList_def black_list_inList_def getcurrtime_def sm_simps
        split: option.splits if_splits)
  then show "(prim r)\<^sup>*\<^sup>* s s'"
  proof cases
    case 2
    have "(prim r)\<^sup>*\<^sup>* s ?s" by (intro r_into_rtranclp prim.tick)
    also from ack obtain t where "t \<in> set (timerQ ?s)" "is_ack t" by auto
    from prim.bl_new [OF this] 2 have "prim r ?s s'" by simp
    finally show ?thesis .
  qed simp
qed

lemma via_black_list_updateEntries [via_intros]: "via (prim r) P black_list_updateEntries"
  unfolding black_list_updateEntries_def by (intro via_intros via_upd prim.bl_del)

lemma via_fw_rreqL_addToList [via_intros]: "via (prim r) P (fw_rreqL_addToList src i)"
  unfolding fw_rreqL_addToList_def by (intro via_intros via_upd prim.fw_new)

lemma via_fw_rreqL_update_from:
  "via (prim r) (\<lambda>s. fw_rreq_list s = front @ l) (fw_rreqL_update_from front l)"
proof (induction l arbitrary: front)
  case (Cons e l)
  have clock: "keeps (\<lambda>s. fw_rreq_list s = front @ e # l) getcurrtime"
    by (auto intro!: keepsI simp: getcurrtime_def)
  have drop: "via (prim r) (\<lambda>s. fw_rreq_list s = front @ e # l) (upd (\<lambda>s. s\<lparr>fw_rreq_list := front @ l\<rparr>))"
    by (rule via_upd) (rule prim.fw_del)
  have dropped: "valid (\<lambda>s. fw_rreq_list s = front @ e # l) (upd (\<lambda>s. s\<lparr>fw_rreq_list := front @ l\<rparr>))
      (\<lambda>_ s. fw_rreq_list s = front @ l)"
    by (rule valid_upd) simp
  show ?case
    unfolding fw_rreqL_update_from.simps
    by (intro via_bnd_keeps [OF via_getcurrtime clock] via_if,
        unfold andthen_def, rule via_bnd_valid [OF drop dropped], rule Cons.IH)
      (use Cons.IH [of "front @ [e]"] in simp)
qed (simp add: via_ret)

lemma via_fw_rreqL_updateEntries [via_intros]: "via (prim r) P fw_rreqL_updateEntries"
  unfolding fw_rreqL_updateEntries_def
  by (rule via_bnd_valid [OF via_gets valid_gets_eq], rule via_pre [OF via_fw_rreqL_update_from]) simp

lemma via_rreqId [via_intros]: "via (prim r) P (upd (\<lambda>s. s\<lparr>rreqId := rreqId s + 1\<rparr>))"
  by (rule via_upd) (rule prim.rreq_num)

lemma via_localSeqNum [via_intros]: "via (prim r) P (upd (\<lambda>s. s\<lparr>localSeqNum := localSeqNum s + 1\<rparr>))"
  by (rule via_upd) (rule prim.seq_num, simp)

lemma via_createRREQ [via_intros]: "via (prim r) P (RREQ_createRREQ d f)"
  unfolding RREQ_createRREQ_def by (intro via_intros)

lemma via_raise_localSeqNum [via_intros]:
  "via (prim r) P (bnd (gets localSeqNum) (\<lambda>seq.
     andthen (whenM (n > seq) (upd (\<lambda>s. s\<lparr>localSeqNum := n\<rparr>))) (ret x)))"
  by (rule viaI) (auto simp: sm_simps split: if_splits intro!: r_into_rtranclp prim.seq_num)

lemma via_answer_or_forward [via_intros]: "via (prim r) P (answer_or_forward q)"
  unfolding answer_or_forward_def
  by (rule via_bnd [OF via_gets], rule via_if, rule via_raise_localSeqNum) (intro via_intros)

lemma via_recvRREQ [via_intros]: "via (prim (Suc r)) P (RREQ_recvRREQ h q)"
  unfolding RREQ_recvRREQ_def consider_RREQ_def by (intro via_intros)

lemma via_write_precursor [via_intros]: "via (prim r) P (write_route k (addToPrecursor h))"
  by (rule via_write_wf) (rule entry_wf_addToPrecursor)

lemma via_createRREP [via_intros]: "via (prim r) P (RREP_createRREP h q p)"
  unfolding RREP_createRREP_def by (intro via_intros)

lemma via_createGRREP [via_intros]: "via (prim r) P (RREP_createGRREP a b n p)"
  unfolding RREP_createGRREP_def by (intro via_intros)

lemma via_recvRREP [via_intros]: "via (prim (Suc r)) P (RREP_recvRREP h p)"
  unfolding RREP_recvRREP_def by (intro via_intros)

text \<open>A delay of \<open>2 * ttl * NODE_TRAVERSAL_TIME\<close> is in range when the time to live is.\<close>

lemma ttl_delay:
  assumes "1 \<le> ttl" "ttl \<le> 257"
  shows "0 < (of_int (2 * ttl * 500) :: u64)" "(of_int (2 * ttl * 500) :: u64) \<le> timer_max"
proof -
  have "uint (of_int (2 * ttl * 500) :: u64) = (2 * ttl * 500) mod 2 ^ LENGTH(64)"
    by (rule uint_word_of_int)
  also have "\<dots> = 2 * ttl * 500"
    using assms by (intro mod_pos_pos_trivial) auto
  finally have u: "uint (of_int (2 * ttl * 500) :: u64) = 2 * ttl * 500" .
  show "0 < (of_int (2 * ttl * 500) :: u64)"
    by (simp only: word_less_def u) (use assms in simp)
  show "(of_int (2 * ttl * 500) :: u64) \<le> timer_max"
    by (simp only: word_le_def u) (use assms in simp)
qed

lemma via_setRREQTimer: "via (prim r) (\<lambda>s. ttl_ok s ttl) (setRREQTimer d ttl)"
proof (rule viaI)
  fix s x s'
  assume ok: "ttl_ok s ttl" and run: "setRREQTimer d ttl s = Inr (x, s')"
  let ?v = "if expandingRingSearch s then of_int (2 * ttl * 500) else NET_TRAVERSAL_TIME :: u64"
  have v: "0 < ?v \<and> ?v \<le> timer_max"
  proof (cases "expandingRingSearch s")
    case True
    then show ?thesis using ok ttl_delay [of ttl] by (simp add: ttl_ok_def del: of_int_mult)
  next
    case False
    then show ?thesis by (simp add: period_values word_less_nat_alt word_le_nat_alt)
  qed
  from run have "set_timer ?v ResendRREQ \<lparr>td_type = RREQ_TIMER, td_data = d\<rparr> s = Inr (x, s')"
    by (simp add: setRREQTimer_def gets_apply bnd_apply [of "gets _"])
  moreover have "via (prim r) always (set_timer ?v ResendRREQ \<lparr>td_type = RREQ_TIMER, td_data = d\<rparr>)"
    by (rule via_set_timer) (use v in simp_all)
  ultimately show "(prim r)\<^sup>*\<^sup>* s s'" by (auto dest: viaD)
qed

lemma via_setLRTimer: "1 \<le> ttl \<Longrightarrow> ttl \<le> 257 \<Longrightarrow> via (prim r) P (setLRTimer d ttl)"
  unfolding setLRTimer_def by (rule via_set_timer) (simp_all only: ttl_delay, simp_all)

lemma RREQ_bytes_nonempty: "RREQ_bytes q \<noteq> []" "RREP_bytes p \<noteq> []" "RREP_ACK_bytes a \<noteq> []"
  by (simp_all add: RREQ_bytes_def RREP_bytes_def RREP_ACK_bytes_def)

lemmas via_send_msg [via_intros] = via_send_bytes [OF RREQ_bytes_nonempty(1)]
  via_send_bytes [OF RREQ_bytes_nonempty(2)] via_send_bytes [OF RREQ_bytes_nonempty(3)]

lemma via_first_ttl [via_intros]: "via (prim r) P (first_ttl d)"
  unfolding first_ttl_def by (intro via_intros)

text \<open>What a time to live must satisfy depends on the configuration, which no step changes.\<close>

lemma keeps_ttl: "via (prim 0) always m \<Longrightarrow> keeps (\<lambda>s. ttl_ok s t) m"
  using via_keeps_config [of 0 m "\<lambda>c. (snd (snd c)) ! 1 \<longrightarrow> 1 \<le> t \<and> t \<le> 257"]
  by (simp add: config_def ttl_ok_def)

lemma via_ttl_andthen:
  "via (prim 0) always m \<Longrightarrow> via (prim r) (\<lambda>s. ttl_ok s t) n \<Longrightarrow> via (prim r) (\<lambda>s. ttl_ok s t) (andthen m n)"
  by (intro via_andthen_keeps keeps_ttl) (auto intro: via_weaken via_mono [of "prim 0"] prim_mono)

lemma via_ttl_bnd:
  "via (prim 0) always m \<Longrightarrow> (\<And>x. via (prim r) (\<lambda>s. ttl_ok s t) (f x)) \<Longrightarrow>
   via (prim r) (\<lambda>s. ttl_ok s t) (bnd m f)"
  by (intro via_bnd_keeps keeps_ttl) (auto intro: via_weaken via_mono [of "prim 0"] prim_mono)

lemma valid_first_ttl: "valid P (first_ttl d) (\<lambda>t s. ttl_ok s t)"
proof (rule validI)
  fix s t s'
  assume run: "first_ttl d s = Inr (t, s')"
  have *: "config s' = config s"
    by (rule conf.via_keeps [OF via_first_ttl [of 0 always] TrueI refl run])
  show "ttl_ok s' t"
  proof (cases "expandingRingSearch s")
    case True
    with run obtain h where "t = (if h = 0 then TTL_START else uint (h :: u8) + TTL_INCREMENT)"
      by (auto simp: first_ttl_def sm_simps split: sum.splits)
    moreover have "0 \<le> uint h" "uint h < 256" using uint_lt2p [of h] by simp_all
    ultimately show ?thesis by (simp add: ttl_ok_def param_values split: if_split)
  next
    case False
    then show ?thesis using config_fields [OF *] by (simp add: ttl_ok_def)
  qed
qed

lemma via_rreqL_addToList: "via (prim r) (\<lambda>s. ttl_ok s t) (rreqL_addToList q t)"
  unfolding rreqL_addToList_def by (rule via_upd) (rule prim.pending_new)

lemma keeps_rreqL_addToList: "keeps (\<lambda>s. ttl_ok s t) (rreqL_addToList q n)"
  by (auto intro!: keepsI simp: rreqL_addToList_def upd_def ttl_ok_def)

lemma via_start_rreq:
  "via (prim r) (\<lambda>s. ttl_ok s t) (andthen (rreqL_addToList q t)
        (andthen (setRREQTimer d t) (send_bytes BROADCAST_ADDR t (RREQ_bytes q))))"
  by (intro via_andthen_keeps via_rreqL_addToList keeps_rreqL_addToList
      via_andthen via_setRREQTimer via_send_msg)

lemma via_sendRREQ [via_intros]: "via (prim r) P (sendRREQ d f)"
  unfolding sendRREQ_def hold_route_def start_search_def
  by (intro via_intros via_write_wf entry_wf_seq_life via_bnd_valid [OF via_first_ttl valid_first_ttl]
      via_start_rreq)

lemma via_doLocalRepair [via_intros]: "via (prim r) P (doLocalRepair d src f)"
proof -
  have "1 \<le> (case x of None \<Rightarrow> 0 | Some e \<Rightarrow> uint (rt_last_hop_cnt e)) + LOCAL_ADD_TTL \<and>
      (case x of None \<Rightarrow> 0 | Some e \<Rightarrow> uint (rt_last_hop_cnt e)) + LOCAL_ADD_TTL \<le> 257" for x
    using uint_lt2p [of "rt_last_hop_cnt (the x)"] by (cases x) (simp_all add: param_values)
  note ttl = conjunct1 [OF this] conjunct2 [OF this]
  show ?thesis
    unfolding doLocalRepair_def Let_def
    by (intro via_intros via_setLRTimer ttl)
qed

lemma via_LR_handler [via_intros]: "via (prim r) P (LR_handler d)"
  unfolding LR_handler_def
  by (intro via_intros via_write_wf) (auto simp: entry_wf_def)

lemma via_rreqL_write:
  "rq_dest_ip (pe_rreqOb e) = dst \<Longrightarrow> pe_retries e \<le> RREQ_RETRIES \<Longrightarrow> t = pe_ttl e \<Longrightarrow>
   via (prim r) (\<lambda>s. ttl_ok s t) (rreqL_write dst e)"
  unfolding rreqL_write_def by (rule via_upd) (simp add: prim.pending_write)

lemma keeps_rreqL_write: "keeps (\<lambda>s. ttl_ok s t) (rreqL_write dst e)"
  by (auto intro!: keepsI simp: rreqL_write_def upd_def ttl_ok_def)

lemma via_rreqL_delete [via_intros]: "via (prim r) P (rreqL_deleteFromList dst)"
  unfolding rreqL_deleteFromList_def by (rule via_upd) (rule prim.pending_del)

text \<open>Writing an entry that is deleted right after might as well not happen.\<close>

lemma delete_write:
  "rq_dest_ip (pe_rreqOb e) = dst \<Longrightarrow>
   rreqPendingList_deleteFromList dst (rreqPendingList_write dst e l) = rreqPendingList_deleteFromList dst l"
  by (induction l) auto

lemma write_then_delete:
  "rq_dest_ip (pe_rreqOb e) = dst \<Longrightarrow>
   andthen (rreqL_write dst e) (andthen (rreqL_deleteFromList dst) m) = andthen (rreqL_deleteFromList dst) m"
  by (simp add: fun_eq_iff rreqL_write_def rreqL_deleteFromList_def sm_simps delete_write)

lemma next_try_rreqOb [simp]: "pe_rreqOb (next_try ring e) = pe_rreqOb e"
  by (simp add: next_try_def Let_def)

lemma via_resend_entry:
  "rq_dest_ip (pe_rreqOb e) = dst \<Longrightarrow> pe_retries e \<le> RREQ_RETRIES \<Longrightarrow>
   via (prim r) (\<lambda>s. ttl_ok s (pe_ttl e)) (resend_entry dst e)"
  unfolding resend_entry_def Let_def
  by (intro via_ttl_andthen via_ttl_bnd via_intros via_andthen_keeps [OF via_rreqL_write keeps_rreqL_write]
      via_andthen [OF via_setRREQTimer]) simp_all

lemma via_try:
  assumes "rq_dest_ip (pe_rreqOb e) = dst"
  shows "via (prim r) (\<lambda>s. ttl_ok s (pe_ttl e)) (andthen (rreqL_write dst e)
            (if pe_retries e > RREQ_RETRIES then
               andthen (rreqL_deleteFromList dst) (la_reply dst IP_NOFOUND)
             else resend_entry dst e))"
proof (cases "pe_retries e > RREQ_RETRIES")
  case True
  then show ?thesis
    by (simp add: write_then_delete assms) (intro via_intros, simp)
next
  case False
  then have "pe_retries e \<le> RREQ_RETRIES" by simp
  then have "via (prim r) (\<lambda>s. ttl_ok s (pe_ttl e)) (andthen (rreqL_write dst e) (resend_entry dst e))"
    by (intro via_andthen_keeps via_rreqL_write keeps_rreqL_write via_resend_entry assms refl)
  with False show ?thesis by simp
qed

lemma ttl_ok_next_try:
  "ttl_ok s (pe_ttl e) \<Longrightarrow> ttl_ok s (pe_ttl (next_try (expandingRingSearch s) e))"
  by (auto simp: ttl_ok_def next_try_def Let_def param_values split: if_splits)

lemma via_resendRREQ: "via (prim r) pending_ok (resendRREQ d)"
proof (rule viaI)
  fix s x s'
  assume ok: "pending_ok s" and run: "resendRREQ d s = Inr (x, s')"
  let ?dst = "td_data d"
  show "(prim r)\<^sup>*\<^sup>* s s'"
  proof (cases "rreqPendingList_inList (rreq_list s) ?dst")
    case None
    then show ?thesis using run by (auto simp: resendRREQ_def Let_def sm_simps)
  next
    case (Some e)
    let ?e = "next_try (expandingRingSearch s) e"
    from Some have e: "e \<in> set (rreq_list s)" "rq_dest_ip (pe_rreqOb ?e) = ?dst"
      by (auto dest: rreqPendingList_inList_Some)
    with ok have "ttl_ok s (pe_ttl ?e)" by (auto simp: pending_ok_def intro: ttl_ok_next_try)
    with run Some show ?thesis
      by (intro viaD [OF via_try [OF e(2)]])
        (simp_all add: resendRREQ_def Let_def gets_apply bnd_apply [of "gets _"])
  qed
qed

end
