(* ===== verification/Daemon.thy ===== *)
theory Daemon
  imports Route_Errors Discovery
begin

text \<open>
  The handlers of the daemon (\<open>LA_Client_aodv/aodv.cc\<close>): received datagrams, requests of the
  agent, the timer functions and the scheduler that calls them (\<open>timerQueue.cc\<close>), and the
  start of the daemon (\<open>main.cc\<close>, \<open>aodv_daemon\<close>).
\<close>

section \<open>Received messages\<close>

text \<open>\<open>MAX\<close> is a macro: when the second argument is the larger one, it is evaluated twice.\<close>

definition get_next_hop :: "ip \<Rightarrow> (node, ip) sm" where
  "get_next_hop dst =
     bnd (findActiveRoute dst) (\<lambda>r.
     case r of None \<Rightarrow> ret 0
     | Some e \<Rightarrow>
         bnd getcurrtime (\<lambda>now.
         andthen
           (if rt_lifetime e > now + ACTIVE_ROUTE_TIMEOUT then setLifeTime dst (rt_lifetime e)
            else bnd getcurrtime (\<lambda>now'. setLifeTime dst (now' + ACTIVE_ROUTE_TIMEOUT)))
           (ret (rt_next_hop e))))"

definition set_ack_timer :: "RREP \<Rightarrow> ip \<Rightarrow> (node, unit) sm" where
  "set_ack_timer p next_hop =
     whenM (rp_A p)
       (set_timer RREP_ACK_TIMEOUT RrepAck \<lparr>td_type = RREP_ACK_TIMER, td_data = next_hop\<rparr>)"

definition send_RREP :: "ip \<Rightarrow> RREP \<Rightarrow> (node, unit) sm" where
  "send_RREP dst p =
     bnd (get_next_hop dst) (\<lambda>next_hop.
     whenM (next_hop \<noteq> 0)
       (andthen (set_ack_timer p next_hop) (send_bytes next_hop (- 1) (RREP_bytes p))))"

definition reboot_RREQ :: "aodvData \<Rightarrow> RREQ \<Rightarrow> (node, unit) sm" where
  "reboot_RREQ dat q =
     bnd getcurrtime (\<lambda>currtime.
     let src = ad_src_ip dat;
         seqNum = (if rq_src_ip q = src then rq_src_seq_num q else 0) in
     andthen (rebootNeighborUpdate src seqNum (currtime + ALLOWED_HELLO_LOSS * HELLO_INTERVAL))
     (andthen (whenM (rq_src_ip q \<noteq> src) (rebootReverseRouteUpdate src q))
     (bnd (gets g_my_ip) (\<lambda>my_ip.
      whenM (rq_dest_ip q = my_ip)
        (bnd (gets localSeqNum) (\<lambda>seq.
         andthen (whenM (rq_dest_seq_num q > seq) (upd (\<lambda>s. s\<lparr>localSeqNum := rq_dest_seq_num q\<rparr>)))
           (ret ())))))))"

text \<open>
  The answer to an RREQ; \<open>q\<close> is the object built from the message, \<open>raw\<close> the message itself.
  The gratuitous RREP goes out without an acknowledgement timer.
\<close>

definition send_gratuitous :: "RREQ \<Rightarrow> (node, unit) sm" where
  "send_gratuitous q =
     bnd (gets g_my_ip) (\<lambda>my_ip.
     whenM (rq_G q \<and> rq_dest_ip q \<noteq> my_ip)
       (bnd (gets (\<lambda>s. junk_rrep (env s) (ticks s))) (\<lambda>junk.
        bnd (RREP_createGRREP (rq_src_ip q) (rq_dest_ip q) (rq_src_seq_num q) junk) (\<lambda>g.
        bnd (get_next_hop (rq_dest_ip q)) (\<lambda>next_hop.
        whenM (next_hop \<noteq> 0) (send_bytes next_hop (- 1) (RREP_bytes g)))))))"

definition reply_RREQ :: "aodvData \<Rightarrow> RREQ \<Rightarrow> RREQ \<Rightarrow> (node, unit) sm" where
  "reply_RREQ dat raw q =
     bnd (gets (\<lambda>s. junk_rrep (env s) (ticks s))) (\<lambda>junk.
     bnd (RREP_createRREP (ad_src_ip dat) raw junk) (\<lambda>p.
     andthen (send_RREP (rq_src_ip q) p) (send_gratuitous q)))"

definition processRREQ :: "aodvData \<Rightarrow> (node, unit) sm" where
  "processRREQ dat =
     bnd (gets duringReboot) (\<lambda>reboot.
     bnd (gets (\<lambda>s. RREQ_at (recvBuffer s))) (\<lambda>raw.
     if reboot then reboot_RREQ dat (RREQ_copy raw)
     else
       bnd (RREQ_recvRREQ (ad_src_ip dat) (RREQ_copy raw)) (\<lambda>(result, q).
       if result = 0 then ret ()
       else if result = FWD_RREQ then
         whenM (ad_ttl dat > 0) (send_bytes BROADCAST_ADDR (ad_ttl dat) (RREQ_bytes q))
       else whenM (result = GEN_RREP) (reply_RREQ dat raw q))))"

definition reboot_RREP :: "aodvData \<Rightarrow> RREP \<Rightarrow> (node, unit) sm" where
  "reboot_RREP dat p =
     bnd getcurrtime (\<lambda>currtime.
     let src = ad_src_ip dat;
         seqNum = (if rp_dest_ip p = src then rp_dest_seq_num p else 0) in
     andthen (rebootNeighborUpdate src seqNum (currtime + ALLOWED_HELLO_LOSS * HELLO_INTERVAL))
       (whenM (rp_dest_ip p \<noteq> src) (rebootForwardRouteUpdate src p)))"

definition processRREP :: "aodvData \<Rightarrow> (node, unit) sm" where
  "processRREP dat =
     bnd (gets duringReboot) (\<lambda>reboot.
     bnd (gets (\<lambda>s. RREP_copy (RREP_at (recvBuffer s)))) (\<lambda>p.
     if reboot then reboot_RREP dat p
     else
       andthen (whenM (rp_A p) (send_bytes (ad_src_ip dat) 1 (RREP_ACK_bytes RREP_ACK_new)))
       (bnd (RREP_recvRREP (ad_src_ip dat) p) (\<lambda>(result, p').
        whenM (result = SEND_RREP) (send_RREP (rp_src_ip p') p')))))"

definition processRREP_ACK :: "aodvData \<Rightarrow> (node, unit) sm" where
  "processRREP_ACK dat = removeRREP_ACK_Timer (ad_src_ip dat)"

definition processRecvMsg :: "aodvData \<Rightarrow> (node, unit) sm" where
  "processRecvMsg dat =
     bnd (gets g_my_ip) (\<lambda>my_ip.
     bnd (gets (\<lambda>s. recvBuffer s 0)) (\<lambda>type'.
     if ad_src_ip dat = my_ip then ret ()
     else
       let dat = dat\<lparr>ad_ttl := ad_ttl dat - 1\<rparr> in
       if type' = AODV_RREQ then processRREQ dat
       else if type' = AODV_RREP then processRREP dat
       else if type' = AODV_RERR then processRERR dat
       else if type' = AODV_RREP_ACK then processRREP_ACK dat
       else ret ()))"

text \<open>
  \<open>readFromSock\<close>: what the two system calls deliver. The control data is looked at when its
  length is that of a time to live and a packet info (\<open>Some\<close>); two messages are read, and
  one of another kind is not stepped over. A failure leaves the zeroed \<open>data\<close>; the caller
  does not look at the length it gets back.
\<close>

datatype cmsg = Cmsg_TTL int | Cmsg_Pktinfo ip | Cmsg_other

datatype received =
    Recvmsg_error
  | Recvfrom_error
  | Datagram ip "u8 list" "cmsg list option" ip

fun read_cmsgs :: "nat \<Rightarrow> cmsg list \<Rightarrow> int \<times> ip \<Rightarrow> int \<times> ip" where
  "read_cmsgs 0 cs (ttl, dst) = (ttl, dst)"
| "read_cmsgs (Suc n) (Cmsg_TTL t # cs) (ttl, dst) = read_cmsgs n cs (t, dst)"
| "read_cmsgs (Suc n) (Cmsg_Pktinfo a # cs) (ttl, dst) = read_cmsgs n cs (ttl, a)"
| "read_cmsgs (Suc n) cs (ttl, dst) = read_cmsgs n cs (ttl, dst)"

definition AODVBUFSIZE :: nat where "AODVBUFSIZE = 32 * 1024"

definition readFromSock :: "received \<Rightarrow> (node, aodvData) sm" where
  "readFromSock r =
     (case r of
        Datagram src bytes ctl junk_dst \<Rightarrow>
          andthen (upd (\<lambda>s. s\<lparr>recvBuffer := write_buf (take AODVBUFSIZE bytes) (recvBuffer s)\<rparr>))
          (bnd (gets g_my_ip) (\<lambda>my_ip.
           if src = my_ip then ret \<lparr>ad_src_ip = src, ad_dest_ip = 0, ad_ttl = 0\<rparr>
           else
             let (ttl, dst) = (case ctl of None \<Rightarrow> (0, junk_dst)
                               | Some cs \<Rightarrow> read_cmsgs 2 cs (0, junk_dst))
             in ret \<lparr>ad_src_ip = src, ad_dest_ip = dst, ad_ttl = ttl\<rparr>))
      | _ \<Rightarrow> ret \<lparr>ad_src_ip = 0, ad_dest_ip = 0, ad_ttl = 0\<rparr>)"

definition process_aodv :: "received \<Rightarrow> (node, unit) sm" where
  "process_aodv r = bnd (readFromSock r) processRecvMsg"

section \<open>Requests of the agent\<close>

record rt_info =
  ri_dst_ip :: ip
  ri_src_ip :: ip
  ri_protocol :: u8

text \<open>
  A packet to a destination without a kernel route. For a packet of the node itself the flags
  are set for TCP only, and otherwise left as they are.
\<close>

definition process_asl_local :: "rt_info \<Rightarrow> (node, unit) sm" where
  "process_asl_local i =
     (if ri_protocol i = IPPROTO_TCP then sendRREQ (ri_dst_ip i) 1
      else bnd (gets (\<lambda>s. junk_rflags (env s) (ticks s))) (\<lambda>rflags. sendRREQ (ri_dst_ip i) rflags))"

definition process_asl_transit :: "rt_info \<Rightarrow> (node, unit) sm" where
  "process_asl_transit i =
     (let dst = ri_dst_ip i in
      bnd (gets (\<lambda>s. localRepair_findInList (local_repair_list s) dst)) (\<lambda>found.
      if found \<noteq> None then
        let rflags = (if ri_protocol i = IPPROTO_TCP then 1 else 0) in
        bnd (findRoute dst) (\<lambda>r.
        case r of None \<Rightarrow> ret ()
        | Some e \<Rightarrow> whenM (rt_routing_flags e = BROKEN_ROUTE) (doLocalRepair dst (ri_src_ip i) rflags))
      else
        andthen (la_reply dst IP_NOFOUND)
        (bnd (findRoute dst) (\<lambda>r. generateRERR dst 0 (r = None)))))"

definition process_asl :: "rt_info \<Rightarrow> (node, unit) sm" where
  "process_asl i =
     (let dst = ri_dst_ip i in
      bnd (gets duringReboot) (\<lambda>reboot.
      bnd (gets g_my_ip) (\<lambda>my_ip.
      if reboot then
        (if ri_src_ip i = my_ip then la_reply dst IP_NOFOUND
         else
           andthen resetRebootTimer
           (andthen (la_reply dst IP_NOFOUND) (generateRERR dst 0 True)))
      else
        bnd (findActiveRoute dst) (\<lambda>r.
        case r of Some _ \<Rightarrow> la_reply dst IP_FOUND
        | None \<Rightarrow>
            if ri_src_ip i = my_ip then process_asl_local i else process_asl_transit i))))"

text \<open>\<open>recv\<close> into a zeroed buffer of 1024 bytes; an empty list stands for an error or the end.\<close>

definition recv_la_data :: "u8 list \<Rightarrow> (node, unit) sm" where
  "recv_la_data bytes =
     (let m = LAMessage_parse_stream (write_buf (take 1024 bytes) (\<lambda>_. 0)) in
      if bytes = [] then ret ()
      else process_asl \<lparr>ri_dst_ip = la_dst_address m, ri_src_ip = la_src_address m,
             ri_protocol = la_protocol m\<rparr>)"

section \<open>Timer functions\<close>

definition rrep_ack_handler :: "timerData \<Rightarrow> (node, unit) sm" where
  "rrep_ack_handler tData = black_list_addToList (td_data tData) BLACKLIST_TIMEOUT"

definition sendHello :: "(node, unit) sm" where
  "sendHello =
     bnd (gets needToSendHello) (\<lambda>need.
     bnd (gets g_my_ip) (\<lambda>my_ip.
     bnd (gets localSeqNum) (\<lambda>seq.
     andthen (whenM need (send_bytes BROADCAST_ADDR 1
         (RREP_bytes (RREP_new my_ip seq 0 0 (ucast (ALLOWED_HELLO_LOSS * HELLO_INTERVAL :: u64))))))
     (andthen (timer_add HELLO_INTERVAL SendHello \<lparr>td_type = HELLO_TIMER, td_data = 0\<rparr>)
       (upd (\<lambda>s. s\<lparr>needToSendHello := True\<rparr>))))))"

definition rebootHandler :: "(node, unit) sm" where
  "rebootHandler =
     andthen (upd (\<lambda>s. s\<lparr>duringReboot := False\<rparr>))
     (andthen addAllValidRoutes
     (bnd (gets helloSendFlag) (\<lambda>hello. whenM hello sendHello)))"

definition periodicHandler :: "(node, unit) sm" where
  "periodicHandler =
     andthen (timer_add PERIODIC_INTERVAL PeriodicHandler \<lparr>td_type = PERIODIC_TIMER, td_data = 0\<rparr>)
     (andthen refreshEntries
     (andthen fw_rreqL_updateEntries black_list_updateEntries))"

fun run_handler :: "timer_hfunc \<Rightarrow> timerData \<Rightarrow> (node, unit) sm" where
  "run_handler RebootHandler d = rebootHandler"
| "run_handler PeriodicHandler d = periodicHandler"
| "run_handler SendHello d = sendHello"
| "run_handler ResendRREQ d = resendRREQ d"
| "run_handler LR_Timer d = LR_handler d"
| "run_handler RrepAck d = rrep_ack_handler d"
| "run_handler NeighborTimeout d = neighbor_timeout_handler d"

section \<open>The scheduler\<close>

text \<open>
  An iterator is the identity of the timer it denotes, \<open>None\<close> for \<open>end ()\<close>. \<open>erase_timer\<close>
  gives the next position.
\<close>

definition timer_at :: "nat option \<Rightarrow> timer list \<Rightarrow> timer option" where
  "timer_at it q = (case it of None \<Rightarrow> None | Some i \<Rightarrow> find (\<lambda>t. tm_id t = i) q)"

definition begin_at :: "timer list \<Rightarrow> nat option" where
  "begin_at q = (case q of [] \<Rightarrow> None | t # _ \<Rightarrow> Some (tm_id t))"

definition erase_timer :: "nat \<Rightarrow> (node, nat option) sm" where
  "erase_timer i =
     bnd (gets timerQ) (\<lambda>q.
     case take_timer (\<lambda>t. tm_id t = i) q of
       None \<Rightarrow> raise EndDeref
     | Some (t, newIter, q') \<Rightarrow>
         andthen (upd (\<lambda>s. s\<lparr>timerQ := q'\<rparr>)) (ret (map_option tm_id newIter)))"

fun schedule_loop :: "nat \<Rightarrow> u64 \<Rightarrow> nat option \<Rightarrow> (node, nat option) sm" where
  "schedule_loop 0 currtime it = raise OutOfFuel"
| "schedule_loop (Suc n) currtime it =
     bnd (gets (\<lambda>s. timer_at it (timerQ s))) (\<lambda>r.
     case r of None \<Rightarrow> ret it
     | Some t \<Rightarrow>
         if tm_timeout t \<le> currtime then
           andthen (run_handler (tm_handler t) (tm_data t))
           (bnd (erase_timer (tm_id t)) (\<lambda>next'. schedule_loop n currtime next'))
         else ret it)"

definition scheduleTimer :: "nat \<Rightarrow> (node, unit) sm" where
  "scheduleTimer fuel =
     bnd (gets (\<lambda>s. begin_at (timerQ s))) (\<lambda>it.
     bnd getcurrtime (\<lambda>currtime.
     bnd (schedule_loop fuel currtime it) (\<lambda>it'.
     bnd (gets (\<lambda>s. timer_at it' (timerQ s))) (\<lambda>r.
     case r of None \<Rightarrow> ret ()
     | Some t \<Rightarrow>
         whenM (tm_timeout t > 0 \<and> tm_timeout t > currtime) (setRealTimer (tm_timeout t - currtime))))))"

section \<open>Start of the daemon\<close>

text \<open>
  \<open>parse_arguments\<close>, from the words after the program name: \<open>None\<close> when the program exits
  (option \<open>h\<close>) or runs off the end of the arguments. The flags are the ones \<open>node\<close> holds; the
  argument \<open>atoi\<close> is the library's function.
\<close>

definition apply_option :: "char \<Rightarrow> int \<Rightarrow> node \<Rightarrow> node" where
  "apply_option c n s =
     (if c = CHR ''f'' \<and> n = 0 then s\<lparr>helloSendFlag := False\<rparr>
      else if c = CHR ''e'' \<and> n = 0 then s\<lparr>expandingRingSearch := False\<rparr>
      else if c = CHR ''a'' \<and> n = 1 then s\<lparr>rrepAckFlag := True\<rparr>
      else if c = CHR ''r'' \<and> n = 0 then s\<lparr>localRepairFlag := False\<rparr>
      else s)"

fun parse_arguments :: "(string \<Rightarrow> int) \<Rightarrow> string list \<Rightarrow> node \<Rightarrow> node option" where
  "parse_arguments atoi [] s = Some s"
| "parse_arguments atoi (w # ws) s =
     (case w of
        d # c # _ \<Rightarrow>
          if d = CHR ''-'' \<and> c = CHR ''h'' then None
          else if d = CHR ''-'' \<and> c \<in> {CHR ''i'', CHR ''f'', CHR ''e'', CHR ''a'', CHR ''r''} then
            (case ws of [] \<Rightarrow> None
             | v # ws' \<Rightarrow> parse_arguments atoi ws' (apply_option c (atoi v) s))
          else parse_arguments atoi ws s
      | _ \<Rightarrow> parse_arguments atoi ws s)"

definition setRebootTimer :: "(node, unit) sm" where
  "setRebootTimer =
     set_timer_first DELETE_PERIOD RebootHandler \<lparr>td_type = REBOOT_TIMER, td_data = 0\<rparr>"

definition setPeriodicTimer :: "(node, unit) sm" where
  "setPeriodicTimer =
     set_timer PERIODIC_INTERVAL PeriodicHandler \<lparr>td_type = PERIODIC_TIMER, td_data = 0\<rparr>"

text \<open>
  The initialised global variables of \<open>main.cc\<close>; the containers are empty, the allocated
  buffers hold anything.
\<close>

definition initial_node :: "env \<Rightarrow> buffer \<Rightarrow> buffer \<Rightarrow> node" where
  "initial_node v rbuf sbuf =
     \<lparr>env = v, ticks = 0, rTableMap = [], rreq_list = [], fw_rreq_list = [], local_repair_list = [],
      timerQ = [], next_id = 0, bList = [], rreqId = 0, localSeqNum = 0, g_my_ip = 0,
      recvBuffer = rbuf, sendBuffer = sbuf, helloSendFlag = True,
      expandingRingSearch = True, rrepAckFlag = False, duringReboot = True,
      needToSendHello = True, localRepairFlag = True, outs = []\<rparr>"

text \<open>
  \<open>aodv_daemon\<close> up to the main loop: the two timers are set before the sockets are made and
  the address of the interface is known.
\<close>

definition aodv_daemon_init :: "ip \<Rightarrow> (node, unit) sm" where
  "aodv_daemon_init my_ip =
     andthen setRebootTimer
     (andthen setPeriodicTimer
       (upd (\<lambda>s. s\<lparr>g_my_ip := my_ip\<rparr>)))"

section \<open>As steps\<close>

lemma via_get_next_hop [via_intros]: "via (prim r) P (get_next_hop d)"
  unfolding get_next_hop_def by (intro via_intros)

text \<open>An acknowledgement is waited for only when the option is on.\<close>

definition ack_ok :: "RREP \<Rightarrow> node \<Rightarrow> bool" where
  "ack_ok p s \<longleftrightarrow> (rp_A p \<longrightarrow> rrepAckFlag s)"

lemma keeps_ack_ok: "via (prim r) always m \<Longrightarrow> keeps (ack_ok p) m"
  using via_keeps_config [of r m "\<lambda>c. rp_A p \<longrightarrow> (snd (snd c)) ! 2"]
  by (simp add: config_def ack_ok_def [abs_def])

lemma via_set_ack_timer: "via (prim r) (ack_ok p) (set_ack_timer p h)"
  unfolding set_ack_timer_def
  by (intro via_whenM via_set_timer)
    (simp_all add: ack_ok_def period_values word_less_nat_alt word_le_nat_alt)

lemma via_send_RREP: "via (prim r) (ack_ok p) (send_RREP d p)"
  unfolding send_RREP_def
  by (intro via_bnd_keeps [OF via_get_next_hop keeps_ack_ok [OF via_get_next_hop]] via_whenM
      via_andthen via_set_ack_timer via_send_msg)

lemma ack_config: "(prim r)\<^sup>*\<^sup>* s s' \<Longrightarrow> rrepAckFlag s' = rrepAckFlag s"
  using conf.steps_inv [of r s s' "config s"] config_fields [of s' s] by simp

lemma createRREP_ack:
  "RREP_createRREP h q p s = Inr (p', s') \<Longrightarrow> rp_A p' = rrepAckFlag s"
  by (auto simp: RREP_createRREP_def RREP_header_def Let_def sm_simps
      split: sum.splits option.splits if_splits)

lemma valid_createRREP: "valid P (RREP_createRREP h q p) ack_ok"
  by (rule validI)
    (auto simp: ack_ok_def dest: createRREP_ack viaD [OF via_createRREP, of always, OF TrueI] ack_config)

lemma recvRREP_ack:
  assumes "RREP_recvRREP h p s = Inr ((res, p'), s')" "res \<noteq> 0"
  shows "rp_A p' = rrepAckFlag s'"
proof -
  have flag: "rrepAckFlag t = rrepAckFlag t'" if "(case d of None \<Rightarrow> ret () | Some _ \<Rightarrow>
      (case e of None \<Rightarrow> ret () | Some e \<Rightarrow> write_route k (addToPrecursor (rt_next_hop e)))) t' = Inr (x, t)"
    for t t' d e x k
    using that by (auto simp: write_route_def sm_simps split: option.splits)
  show ?thesis
    using assms
    by (auto simp: RREP_recvRREP_def Let_def sm_simps split: sum.splits if_splits dest!: flag)
qed

lemma valid_recvRREP:
  "valid P (RREP_recvRREP h p) (\<lambda>x. case x of (res, p') \<Rightarrow> \<lambda>s. res \<noteq> 0 \<longrightarrow> ack_ok p' s)"
  by (rule validI) (auto simp: ack_ok_def dest: recvRREP_ack)

lemma via_reboot_RREQ [via_intros]: "via (prim r) P (reboot_RREQ d q)"
  unfolding reboot_RREQ_def by (intro via_intros via_raise_localSeqNum)

lemma via_send_gratuitous [via_intros]: "via (prim r) P (send_gratuitous q)"
  unfolding send_gratuitous_def by (intro via_intros)

lemma via_reply_RREQ [via_intros]: "via (prim r) P (reply_RREQ d raw q)"
  unfolding reply_RREQ_def
  by (intro via_bnd [OF via_gets] via_bnd_valid [OF via_createRREP valid_createRREP]
      via_andthen [OF via_send_RREP] via_intros)

lemma via_processRREQ [via_intros]: "via (prim (Suc r)) P (processRREQ d)"
  unfolding processRREQ_def by (intro via_intros)

lemma via_reboot_RREP [via_intros]: "via (prim r) P (reboot_RREP d p)"
  unfolding reboot_RREP_def by (intro via_intros)

lemma via_forward_RREP:
  "via (prim r) (case x of (res, p') \<Rightarrow> \<lambda>s. res \<noteq> 0 \<longrightarrow> ack_ok p' s)
     (case x of (result, p') \<Rightarrow> whenM (result = SEND_RREP) (send_RREP (rp_src_ip p') p'))"
proof (cases x)
  case (Pair res p')
  have "via (prim r) (\<lambda>s. res \<noteq> 0 \<longrightarrow> ack_ok p' s) (send_RREP d p')" if "res = SEND_RREP" for d
    by (rule via_pre [OF via_send_RREP]) (simp add: that)
  with Pair show ?thesis by (simp add: via_whenM)
qed

lemma via_processRREP [via_intros]: "via (prim (Suc r)) P (processRREP d)"
  unfolding processRREP_def
  by (intro via_bnd [OF via_gets] via_if via_reboot_RREP via_andthen via_whenM via_send_msg
      via_bnd_valid [OF via_recvRREP valid_recvRREP] via_forward_RREP)

lemma via_processRREP_ACK [via_intros]: "via (prim (Suc r)) P (processRREP_ACK d)"
  unfolding processRREP_ACK_def by (intro via_intros)

lemma via_processRecvMsg [via_intros]: "via (prim (Suc r)) P (processRecvMsg d)"
  unfolding processRecvMsg_def by (intro via_intros)

lemma via_readFromSock [via_intros]: "via (prim r) P (readFromSock e)"
  by (cases e) (auto simp: readFromSock_def intro!: via_intros via_weaken [OF via_upd] prim.recv_buf)

lemma via_process_aodv [via_intros]: "via (prim (Suc r)) P (process_aodv e)"
  unfolding process_aodv_def by (intro via_intros)

lemma via_process_asl [via_intros]: "via (prim (Suc (Suc r))) P (process_asl i)"
  unfolding process_asl_def process_asl_local_def process_asl_transit_def
  by (intro via_intros) simp_all

lemma via_recv_la_data [via_intros]: "via (prim (Suc (Suc r))) P (recv_la_data b)"
  unfolding recv_la_data_def by (intro via_intros)

lemma via_timer_in_range:
  "td_type d = handler_type h \<Longrightarrow> h \<noteq> RrepAck \<Longrightarrow> v = 1000 \<or> v = 2000 \<Longrightarrow>
   via (prim r) P (timer_add v h d)"
  by (rule via_timer_add) (auto simp: word_less_nat_alt word_le_nat_alt)

lemma via_sendHello [via_intros]: "via (prim r) P sendHello"
  unfolding sendHello_def
  by (intro via_intros via_timer_in_range via_weaken [OF via_upd] prim.hello) simp_all

lemma via_rebootHandler [via_intros]: "via (prim r) P rebootHandler"
  unfolding rebootHandler_def by (intro via_intros via_upd prim.rebooted)

lemma via_periodicHandler [via_intros]: "via (prim r) P periodicHandler"
  unfolding periodicHandler_def by (intro via_intros via_timer_in_range) simp_all

text \<open>A handler runs while its timer is still in the queue.\<close>

definition firing :: "timer \<Rightarrow> node \<Rightarrow> bool" where
  "firing t s \<longleftrightarrow> t \<in> set (timerQ s) \<and> pending_ok s"

lemma via_run_handler: "via (prim r) (firing t) (run_handler (tm_handler t) (tm_data t))"
proof (cases "tm_handler t")
  case RrepAck
  then show ?thesis
    by (auto simp: rrep_ack_handler_def firing_def is_ack_def intro!: via_pre [OF via_black_list_addToList])
next
  case ResendRREQ
  then show ?thesis by (auto simp: firing_def intro!: via_pre [OF via_resendRREQ])
qed (simp_all, (intro via_intros)+)

lemma via_erase_timer [via_intros]: "via (prim (Suc r)) P (erase_timer i)"
  unfolding erase_timer_def
  by (rule via_bnd_valid [OF via_gets valid_gets_eq])
    (intro via_case_option via_case_prod via_raise via_andthen via_ret via_pre [OF via_take_timer], auto)

lemma timer_at_set: "timer_at it q = Some t \<Longrightarrow> t \<in> set q \<and> it = Some (tm_id t)"
  by (auto simp: timer_at_def find_Some_iff split: option.splits)

lemma keeps_pending: "via (prim r) P m \<Longrightarrow> valid (\<lambda>s. P s \<and> pending_ok s) m (\<lambda>_. pending_ok)"
  by (rule validI) (auto intro: pending.via_keeps)

lemma via_schedule_loop: "via (prim (Suc r)) pending_ok (schedule_loop n c it)"
proof (induction n arbitrary: it)
  case (Suc n)
  have fire: "via (prim (Suc r)) (firing t) (andthen (run_handler (tm_handler t) (tm_data t))
      (bnd (erase_timer (tm_id t)) (schedule_loop n c)))" for t
    unfolding andthen_def [of "run_handler _ _"]
  proof (rule via_bnd_valid [OF via_run_handler])
    show "valid (firing t) (run_handler (tm_handler t) (tm_data t)) (\<lambda>_. pending_ok)"
      by (rule valid_weaken [OF keeps_pending [OF via_run_handler [of 0 t]]]) (auto simp: firing_def)
    show "via (prim (Suc r)) pending_ok (bnd (erase_timer (tm_id t)) (schedule_loop n c))" for x
      by (intro via_bnd_keeps via_erase_timer pending.via_always_keeps Suc.IH)
        (rule via_erase_timer)
  qed
  show ?case
    unfolding schedule_loop.simps
    apply (rule via_bnd_valid [OF via_gets valid_gets_eq])
    apply (intro via_case_option via_if via_ret via_pre [OF fire])
    apply (auto simp: firing_def dest: timer_at_set)
    done
qed (simp add: via_raise)

lemma via_scheduleTimer: "via (prim (Suc r)) pending_ok (scheduleTimer n)"
  unfolding scheduleTimer_def
  by (intro via_bnd_keeps [OF via_gets keeps_gets] via_bnd [OF via_schedule_loop] via_intros
      via_bnd_keeps [OF via_getcurrtime pending.via_always_keeps [OF via_getcurrtime]])

lemma via_aodv_timers [via_intros]:
  "via (prim r) P setRebootTimer" "via (prim r) P setPeriodicTimer"
  unfolding setRebootTimer_def setPeriodicTimer_def
  by (intro via_set_timer via_set_timer_first;
      simp add: period_values word_less_nat_alt word_le_nat_alt)+

end
