(* ===== verification/Faults.thy ===== *)
theory Faults
  imports Daemon
begin

text \<open>
  Executions that stay defined. In a daemon without the RREP-ACK option, on a machine whose
  allocator gives at least the 12 bytes that a RERR with one destination needs, the handlers
  of RREQs, RREPs and agent requests always return. The handlers that may not are the ones
  with the faults of the code: received RERRs, the refresh of the table, lost neighbours.
\<close>

definition safe :: "node \<Rightarrow> bool" where
  "safe s \<longleftrightarrow> ack_free s \<and> 12 \<le> malloc_usable (env s) 4"

interpretation safe: closed_under "prim r" safe for r
proof unfold_locales
  fix s t assume "prim r s t" "safe s"
  then show "safe t"
    using ackfree.closed config_fields [OF conf.closed [OF _ refl]] by (auto simp: safe_def)
qed

text \<open>A sequence of steps keeps \<open>safe\<close>, so that returning is all that is left to show.\<close>

lemma runs_safeI:
  "via (prim r) always m \<Longrightarrow> (\<And>s. safe s \<Longrightarrow> \<exists>x s'. m s = Inr (x, s')) \<Longrightarrow> runs safe m"
  by (rule runsI) (blast dest: safe.via_keeps)

lemma runs_getcurrtime [runs_intros]: "runs safe getcurrtime"
  by (rule runs_safeI [OF via_getcurrtime]) (simp add: getcurrtime_def)

lemma runs_emit: "runs safe (emit e)"
  by (auto simp: emit_def safe_def ack_free_def intro: runs_upd)

lemma runs_write [runs_intros]: "runs safe (write_route k f)"
  by (auto simp: write_route_def safe_def ack_free_def intro: runs_upd)

lemma runs_routes [runs_intros]:
  "runs safe (findRoute k)" "runs safe (add_kroute e)" "runs safe (del_kroute e)"
  "runs safe (addRoute e)" "runs safe (lr_add k)" "runs safe (lr_delete k)"
  "runs safe (la_reply k v)" "runs safe (setRealTimer t)"
  by (auto simp: findRoute_def add_kroute_def del_kroute_def addRoute_def lr_add_def lr_delete_def
      la_reply_def setRealTimer_def Let_def safe_def ack_free_def intro!: runs_intros runs_emit)

lemma runs_find [runs_intros]:
  "runs safe (findActiveRoute k)" "runs safe (findValidRoute k n)" "runs safe (getDestSeqNum k)"
  "runs safe (getTTL k)" "runs safe (setLifeTime k t)"
  unfolding findActiveRoute_def findValidRoute_def getDestSeqNum_def getTTL_def isRouteValid_def
    setLifeTime_def
  by (intro runs_intros)+

lemma runs_send_bytes [runs_intros]: "runs safe (send_bytes d t bs)"
  unfolding send_bytes_def sendPacket_def copyToSendBuf_def
  by (intro runs_intros runs_emit) (simp_all add: safe_def ack_free_def)

text \<open>A queue to which a timer was just added is not empty.\<close>

lemma set_timer_returns: "\<exists>x s'. set_timer v h d s = Inr (x, s')"
proof -
  have "timer_insert t q \<noteq> []" for t q by (cases q) auto
  then show ?thesis
    by (auto simp: set_timer_def timer_add_def setLowestTimer_def setRealTimer_def emit_def
        getcurrtime_def sm_simps Let_def split: list.split)
qed

lemma runs_set_timer [runs_intros]: "h \<noteq> RrepAck \<Longrightarrow> runs safe (set_timer v h d)"
proof (rule runsI)
  fix s assume h: "h \<noteq> RrepAck" and s: "safe s"
  obtain x s' where run: "set_timer v h d s = Inr (x, s')" using set_timer_returns by blast
  moreover have "timerQ s' = timer_insert \<lparr>tm_timeout = clock (env s) (ticks s) + v, tm_handler = h,
      tm_data = d, tm_id = next_id s\<rparr> (timerQ s) \<and> env s' = env s \<and> rrepAckFlag s' = rrepAckFlag s
      \<and> bList s' = bList s"
    using run by (auto simp: set_timer_def timer_add_def setLowestTimer_def setRealTimer_def
        emit_def getcurrtime_def sm_simps Let_def split: list.splits if_splits)
  ultimately show "\<exists>x s'. set_timer v h d s = Inr (x, s') \<and> safe s'"
    using h s by (auto simp: safe_def ack_free_def is_ack_def tq.set_add)
qed

lemma runs_remove [runs_intros]:
  "runs safe (removeRREQTimer k)" "runs safe (removeActiveRouteTimer k)" "runs safe (removeRREP_ACK_Timer k)"
proof -
  have *: "\<exists>x s'. remove_timer p s = Inr (x, s')" for p s
    by (auto simp: remove_timer_def setRealTimer_def emit_def getcurrtime_def sm_simps Let_def
        split: option.split)
  have r: "runs safe (remove_timer p)" for p
    by (rule runs_safeI [OF via_remove_timer *])
  then show "runs safe (removeRREQTimer k)" "runs safe (removeRREP_ACK_Timer k)"
    unfolding removeRREQTimer_def removeRREP_ACK_Timer_def by (intro runs_intros r)+
  show "runs safe (removeActiveRouteTimer k)"
    by (rule runs_safeI [OF via_removeActiveRouteTimer])
      (auto simp: removeActiveRouteTimer_def sm_simps split: option.split)
qed

text \<open>An entry that was just inserted, or is being written, is found.\<close>

lemma map_of_insert_found: "\<exists>e'. map_of (om_insert k e m) k = Some e'"
  by (induction k e m rule: om_insert.induct) auto

lemma insertRoute_returns: "\<exists>x s'. insertRoute e s = Inr (x, s')"
  using map_of_insert_found [of "rt_dest_ip e" e "rTableMap s"]
  by (auto simp: insertRoute_def addRoute_def findRoute_def add_kroute_def emit_def sm_simps)

lemma runs_insertRoute [runs_intros]: "runs safe (insertRoute e)"
proof (rule runsI)
  fix s assume s: "safe s"
  obtain x s' where run: "insertRoute e s = Inr (x, s')" using insertRoute_returns by blast
  then have "safe s'"
    using s by (auto simp: insertRoute_def addRoute_def findRoute_def add_kroute_def emit_def sm_simps
        safe_def ack_free_def split: option.splits)
  with run show "\<exists>x s'. insertRoute e s = Inr (x, s') \<and> safe s'" by blast
qed

lemma runs_generateRERR [runs_intros]: "runs safe (generateRERR d n b)"
proof (rule runsI)
  fix s assume s: "safe s"
  have send: "\<exists>x s'. send_bytes a 1 bs s = Inr (x, s')" for a bs
    using runsD [OF runs_send_bytes s] by blast
  have "\<exists>x s'. generateRERR d n b s = Inr (x, s')"
  proof (cases "map_of (rTableMap s) d")
    case None
    then show ?thesis
      using send s by (auto simp: generateRERR_def findRoute_def rerr_block_def sm_simps Let_def
          RERR_setUnrchDest_def RERR_setDestCnt_def RERR_setNFlag_def RERR_new_def safe_def)
  next
    case (Some e)
    have "getPrecCnt e = 1 \<Longrightarrow> rt_precursors e \<noteq> []" by (auto simp: getPrecCnt_def)
    with Some show ?thesis
      using send s by (auto simp: generateRERR_def findRoute_def rerr_block_def getPrecAddr_def sm_simps
          Let_def RERR_setUnrchDest_def RERR_setDestCnt_def RERR_setNFlag_def RERR_new_def safe_def
          neq_Nil_conv)
  qed
  then show "\<exists>x s'. generateRERR d n b s = Inr (x, s') \<and> safe s'"
    using s by (blast intro: safe.via_keeps [OF via_generateRERR, of always])
qed

lemma runs_route_found [runs_intros]: "runs safe (route_found d)"
  unfolding route_found_def by (intro runs_intros)

section \<open>Route updates\<close>

text \<open>While a route to \<open>k\<close> is in the table, an iterator to it can be dereferenced.\<close>

definition safe_at :: "ip \<Rightarrow> node \<Rightarrow> bool" where
  "safe_at k s \<longleftrightarrow> safe s \<and> map_of (rTableMap s) k \<noteq> None"

lemma runs_safe_at:
  "runs safe m \<Longrightarrow> (\<And>C. keeps (\<lambda>s. C (rTableMap s)) m) \<Longrightarrow> runs (safe_at k) m"
  unfolding safe_at_def [abs_def] by (rule runs_conj)

lemma runs_at [runs_intros]:
  "runs (safe_at k) getcurrtime" "runs (safe_at k) (del_kroute e)" "runs (safe_at k) (add_kroute e)"
  by (rule runs_safe_at; intro runs_intros table_kept)+

lemma runs_at_write [runs_intros]: "runs (safe_at k) (write_route k f)"
  by (auto intro!: runs_upd simp: write_route_def safe_at_def safe_def ack_free_def map_of_om_modify)

lemma runs_add_kroute_at [runs_intros]: "runs (safe_at k) (add_kroute_at k)"
proof (rule runsI)
  fix s assume s: "safe_at k s"
  then obtain e where e: "map_of (rTableMap s) k = Some e" by (auto simp: safe_at_def)
  from runsD [OF runs_at(3) s, of e] e
  show "\<exists>x s'. add_kroute_at k s = Inr (x, s') \<and> safe_at k s'"
    by (auto simp: add_kroute_at_def findRoute_def sm_simps)
qed

lemma runs_find_at [runs_intros]:
  assumes "\<And>e. runs (safe_at k) (f e)" "runs safe n"
  shows "runs safe (bnd (findRoute k) (\<lambda>x. case x of None \<Rightarrow> n | Some e \<Rightarrow> f e))"
proof (rule runsI)
  fix s assume s: "safe s"
  show "\<exists>x s'. bnd (findRoute k) (\<lambda>x. case x of None \<Rightarrow> n | Some e \<Rightarrow> f e) s = Inr (x, s') \<and> safe s'"
  proof (cases "map_of (rTableMap s) k")
    case None
    with runsD [OF assms(2) s] show ?thesis by (simp add: findRoute_def sm_simps)
  next
    case (Some e)
    with s have "safe_at k s" by (simp add: safe_at_def)
    from runsD [OF assms(1) this, of e] Some show ?thesis
      by (auto simp: findRoute_def sm_simps safe_at_def)
  qed
qed

lemma runs_reverse [runs_intros]: "runs safe (reverseRouteUpdate h q)"
  unfolding reverseRouteUpdate_def by (intro runs_intros)

lemma runs_forward [runs_intros]: "runs safe (forwardRouteUpdate h p)"
  unfolding forwardRouteUpdate_def by (intro runs_intros)

lemma runs_reboot [runs_intros]:
  "runs safe (rebootReverseRouteUpdate h q)" "runs safe (rebootForwardRouteUpdate h p)"
  "runs safe (rebootNeighborUpdate n sq t)"
  unfolding rebootReverseRouteUpdate_def rebootForwardRouteUpdate_def rebootNeighborUpdate_def
  by (intro runs_intros)+

text \<open>The entry of a neighbour is found again under the destination it holds.\<close>

definition safe_wf :: "node \<Rightarrow> bool" where
  "safe_wf s \<longleftrightarrow> safe s \<and> rt_wf (rTableMap s)"

lemma runs_safe_wf: "via (prim r) always m \<Longrightarrow> runs safe m \<Longrightarrow> runs safe_wf m"
  unfolding safe_wf_def [abs_def] by (intro runs_conj table.via_always_keeps)

lemma runs_neighbor_found [runs_intros]: "runs safe (neighbor_found n src)"
  unfolding neighbor_found_def renew_neighbor_timer_def by (intro runs_intros) simp

lemma via_neighbor_route: "via (prim r) P (neighbor_route n sq t)"
  unfolding neighbor_route_def by (intro via_learn via_intros)

lemma runs_neighbor_route: "runs safe_wf (neighbor_route n sq t)"
proof (rule runsI)
  fix s assume s: "safe_wf s"
  have "\<exists>x s'. neighbor_route n sq t s = Inr (x, s')"
  proof (cases "map_of (rTableMap s) n")
    case None
    then show ?thesis using insertRoute_returns by (simp add: neighbor_route_def findRoute_def sm_simps)
  next
    case (Some e)
    then have d: "rt_dest_ip e = n" using s by (auto simp: safe_wf_def dest: rt_wf_dest)
    have "safe_at n s" using s Some by (simp add: safe_wf_def safe_at_def)
    then have "\<exists>x s'. andthen (write_route n f) (add_kroute_at n) s = Inr (x, s')" for f
      using runsD [OF runs_andthen [OF runs_at_write runs_add_kroute_at]] by blast
    with Some d show ?thesis by (simp add: neighbor_route_def findRoute_def write_route_def sm_simps)
  qed
  then show "\<exists>x s'. neighbor_route n sq t s = Inr (x, s') \<and> safe_wf s'"
    using s unfolding safe_wf_def
    by (blast intro: safe.via_keeps [OF via_neighbor_route, of always] table.via_keeps [OF via_neighbor_route, of always])
qed

section \<open>Handlers\<close>

named_theorems handler_runs \<open>handlers that return from safe states\<close>

lemmas runs_wf_bnd = runs_bnd [where I = safe_wf] and runs_wf_andthen = runs_andthen [where I = safe_wf]

lemma runs_neighborUpdate [handler_runs]: "runs safe_wf (neighborUpdate n src sq t)"
proof -
  have "via (prim (Suc 0)) always (neighbor_found n src)"
    unfolding neighbor_found_def by (intro via_intros) simp
  then show ?thesis
    unfolding neighborUpdate_def
    by (intro runs_andthen runs_neighbor_route runs_safe_wf runs_neighbor_found)
qed

lemmas handler_leaf [handler_runs] =
  runs_safe_wf [OF via_getcurrtime runs_getcurrtime]
  runs_safe_wf [OF via_reverse runs_reverse]
  runs_safe_wf [OF via_forward runs_forward]
  runs_safe_wf [OF via_rebootReverse runs_reboot(1)]
  runs_safe_wf [OF via_rebootForward runs_reboot(2)]
  runs_safe_wf [OF via_rebootNeighbor runs_reboot(3)]
  runs_safe_wf [OF via_findRoute runs_routes(1)]
  runs_safe_wf [OF via_findActiveRoute runs_find(1)]
  runs_safe_wf [OF via_findValidRoute runs_find(2)]
  runs_safe_wf [OF via_getDestSeqNum runs_find(3)]
  runs_safe_wf [OF via_setLifeTime runs_find(5)]
  runs_safe_wf [OF via_write_precursor runs_write]
  runs_safe_wf [OF via_generateRERR runs_generateRERR]
  runs_safe_wf [OF via_send_msg(1) runs_send_bytes]
  runs_safe_wf [OF via_send_msg(2) runs_send_bytes]
  runs_safe_wf [OF via_send_msg(3) runs_send_bytes]
  runs_safe_wf [OF via_removeRREP_ACK_Timer runs_remove(3)]

lemma runs_la_reply_wf [handler_runs]: "v = IP_FOUND \<or> v = IP_NOFOUND \<Longrightarrow> runs safe_wf (la_reply d v)"
  by (rule runs_safe_wf [OF via_la_reply runs_routes(7)])

lemmas handler_ctl = runs_wf_bnd runs_wf_andthen runs_ret runs_gets runs_if runs_whenM
  runs_case_option runs_Let

text \<open>The blacklist is empty, so the search of it ends.\<close>

lemma runs_black_list_inList [handler_runs]: "runs safe_wf (black_list_inList d)"
  by (rule runsI)
    (auto simp: black_list_inList_def sm_simps safe_wf_def safe_def ack_free_def blacklist_inList_eq)

lemma runs_fw_add [handler_runs]: "runs safe_wf (fw_rreqL_addToList src i)"
proof (rule runs_safe_wf [OF via_fw_rreqL_addToList])
  show "runs safe (fw_rreqL_addToList src i)"
    unfolding fw_rreqL_addToList_def by (intro runs_intros) (simp add: safe_def ack_free_def)
qed

lemma runs_answer_or_forward [handler_runs]: "runs safe_wf (answer_or_forward q)"
proof (rule runs_safe_wf [OF via_answer_or_forward])
  show "runs safe (answer_or_forward q)"
    unfolding answer_or_forward_def by (intro runs_intros) (simp add: safe_def ack_free_def)
qed

lemma runs_recvRREQ [handler_runs]: "runs safe_wf (RREQ_recvRREQ h q)"
  unfolding RREQ_recvRREQ_def consider_RREQ_def by (intro handler_ctl handler_runs)

lemma runs_createRREP [handler_runs]: "runs safe_wf (RREP_createRREP h q p)"
  unfolding RREP_createRREP_def by (intro handler_ctl handler_runs)

lemma runs_createGRREP [handler_runs]: "runs safe_wf (RREP_createGRREP a b n p)"
  unfolding RREP_createGRREP_def by (intro handler_ctl handler_runs)

lemma runs_recvRREP [handler_runs]: "runs safe_wf (RREP_recvRREP h p)"
  unfolding RREP_recvRREP_def by (intro handler_ctl handler_runs)

lemma runs_get_next_hop [handler_runs]: "runs safe_wf (get_next_hop d)"
  unfolding get_next_hop_def by (intro handler_ctl handler_runs)

text \<open>An answer waits for an acknowledgement only with the option, so never here.\<close>

lemma runs_bnd_valid:
  assumes "runs I m" "valid I m Q" "\<And>x. runs (\<lambda>s. I s \<and> Q x s) (f x)"
  shows "runs I (bnd m f)"
proof (rule runsI)
  fix s assume s: "I s"
  from runsD [OF assms(1) s] obtain x t where t: "m s = Inr (x, t)" "I t" by blast
  with validD [OF assms(2) s t(1)] have "I t \<and> Q x t" by simp
  from runsD [OF assms(3) this] show "\<exists>y s'. bnd m f s = Inr (y, s') \<and> I s'"
    by (auto simp: bnd_apply t)
qed

lemma runs_pure: "(\<not> A \<Longrightarrow> runs I m) \<Longrightarrow> (\<And>s. I s \<Longrightarrow> \<not> A) \<Longrightarrow> runs I m"
  unfolding runs_def by blast

lemma runs_send_RREP: "runs (\<lambda>s. safe_wf s \<and> ack_ok p s) (send_RREP d p)"
proof (rule runsI)
  fix s assume s: "safe_wf s \<and> ack_ok p s"
  then have "\<not> rp_A p" by (auto simp: safe_wf_def safe_def ack_free_def ack_ok_def)
  moreover have "runs safe_wf (bnd (get_next_hop d) (\<lambda>next_hop. whenM (next_hop \<noteq> 0)
      (andthen (ret ()) (send_bytes next_hop (- 1) (RREP_bytes p)))))"
    by (intro handler_ctl handler_runs)
  ultimately have "\<exists>x s'. send_RREP d p s = Inr (x, s') \<and> safe_wf s'"
    using s by (auto simp: send_RREP_def set_ack_timer_def whenM_def dest: runsD)
  moreover have "ack_ok p s'" for s' using \<open>\<not> rp_A p\<close> by (simp add: ack_ok_def)
  ultimately show "\<exists>x s'. send_RREP d p s = Inr (x, s') \<and> safe_wf s' \<and> ack_ok p s'" by blast
qed

lemma runs_keep_ack: "via (prim r) always m \<Longrightarrow> runs safe_wf m \<Longrightarrow> runs (\<lambda>s. safe_wf s \<and> ack_ok p s) m"
  by (intro runs_conj keeps_ack_ok)

lemma runs_weak:
  "runs P m \<Longrightarrow> (\<And>s. P s = Q s) \<Longrightarrow> runs Q m"
  by (simp add: runs_def)

lemma runs_gratuitous: "runs safe_wf (send_gratuitous q)"
  unfolding send_gratuitous_def by (intro handler_ctl handler_runs)

lemma runs_reply_RREQ [handler_runs]: "runs safe_wf (reply_RREQ d raw q)"
  unfolding reply_RREQ_def
  by (intro runs_wf_bnd runs_gets runs_bnd_valid [OF runs_createRREP valid_createRREP]
      runs_andthen runs_send_RREP runs_keep_ack [OF via_send_gratuitous runs_gratuitous])

lemma runs_reboot_RREQ [handler_runs]: "runs safe_wf (reboot_RREQ d q)"
proof (rule runs_safe_wf [OF via_reboot_RREQ])
  show "runs safe (reboot_RREQ d q)"
    unfolding reboot_RREQ_def by (intro runs_intros) (simp add: safe_def ack_free_def)
qed

lemma runs_reboot_RREP [handler_runs]: "runs safe_wf (reboot_RREP d p)"
  unfolding reboot_RREP_def by (intro handler_ctl handler_runs)

lemma runs_processRREQ [handler_runs]: "runs safe_wf (processRREQ d)"
  unfolding processRREQ_def
  by (intro handler_ctl handler_runs runs_case_prod)

lemma runs_processRREP [handler_runs]: "runs safe_wf (processRREP d)"
proof -
  have "runs (\<lambda>s. safe_wf s \<and> (case x of (res, p') \<Rightarrow> \<lambda>s. res \<noteq> 0 \<longrightarrow> ack_ok p' s) s)
      (case x of (result, p') \<Rightarrow> whenM (result = SEND_RREP) (send_RREP (rp_src_ip p') p'))" for x
  proof (cases x)
    case (Pair res p')
    show ?thesis
    proof (cases "res = SEND_RREP")
      case True
      with Pair show ?thesis by (auto intro: runs_weak [OF runs_send_RREP] simp: whenM_def)
    next
      case False
      with Pair show ?thesis by (simp add: whenM_def runs_ret)
    qed
  qed
  then show ?thesis
    unfolding processRREP_def
    by (intro runs_wf_bnd runs_gets runs_if runs_reboot_RREP runs_wf_andthen runs_whenM handler_leaf
        runs_bnd_valid [OF runs_recvRREP valid_recvRREP])
qed

lemma runs_processRREP_ACK [handler_runs]: "runs safe_wf (processRREP_ACK d)"
  unfolding processRREP_ACK_def by (rule handler_runs)

section \<open>Requests of the agent\<close>

lemma runs_resetRebootTimer [handler_runs]: "runs safe_wf resetRebootTimer"
proof (rule runs_safe_wf [OF via_resetRebootTimer])
  show "runs safe resetRebootTimer"
    by (rule runs_safeI [OF via_resetRebootTimer])
      (auto simp: resetRebootTimer_def setRealTimer_def emit_def getcurrtime_def sm_simps Let_def
        split: option.split)
qed

lemma runs_createRREQ [handler_runs]: "runs safe_wf (RREQ_createRREQ d f)"
proof (rule runs_safe_wf [OF via_createRREQ])
  show "runs safe (RREQ_createRREQ d f)"
    unfolding RREQ_createRREQ_def by (intro runs_intros) (simp_all add: safe_def ack_free_def)
qed

lemma runs_sendRREQ [handler_runs]: "runs safe_wf (sendRREQ d f)"
proof (rule runs_safe_wf [OF via_sendRREQ])
  show "runs safe (sendRREQ d f)"
    unfolding sendRREQ_def hold_route_def start_search_def RREQ_createRREQ_def first_ttl_def rreqL_addToList_def setRREQTimer_def
    by (intro runs_intros) (simp_all add: safe_def ack_free_def)
qed

lemma runs_doLocalRepair [handler_runs]: "runs safe_wf (doLocalRepair d src f)"
proof (rule runs_safe_wf [OF via_doLocalRepair])
  show "runs safe (doLocalRepair d src f)"
    unfolding doLocalRepair_def RREQ_createRREQ_def setLRTimer_def
    by (intro runs_intros) (simp_all add: safe_def ack_free_def)
qed

lemma runs_process_asl [handler_runs]: "runs safe_wf (process_asl i)"
  unfolding process_asl_def process_asl_local_def process_asl_transit_def
  by (intro handler_ctl handler_runs; simp)

lemma runs_recv_la_data: "runs safe_wf (recv_la_data b)"
  unfolding recv_la_data_def by (intro handler_ctl handler_runs)

section \<open>Repeated RREQs\<close>

lemma runs_resendRREQ: "runs safe_wf (resendRREQ d)"
proof -
  have "runs safe (resendRREQ d)"
    unfolding resendRREQ_def resend_entry_def rreqL_write_def rreqL_deleteFromList_def setRREQTimer_def Let_def
    by (intro runs_intros) (simp_all add: safe_def ack_free_def)
  moreover have "keeps (\<lambda>s. rt_wf (rTableMap s)) (resendRREQ d)"
    unfolding resendRREQ_def resend_entry_def rreqL_write_def rreqL_deleteFromList_def setRREQTimer_def Let_def
      getDestSeqNum_def
    by (intro keeps_intros table_kept) simp_all
  ultimately show ?thesis unfolding safe_wf_def [abs_def] by (rule runs_conj)
qed

section \<open>Received datagrams\<close>

text \<open>
  The type of the message that \<open>process_aodv\<close> processes: the first byte received, and after an empty
  datagram or an error the one that the buffer still holds.
\<close>

fun received_type :: "received \<Rightarrow> node \<Rightarrow> u8" where
  "received_type (Datagram src (b # bytes) ctl junk_dst) s = b"
| "received_type r s = recvBuffer s 0"

lemma read_buffer:
  "\<exists>dat b. readFromSock r s = Inr (dat, s\<lparr>recvBuffer := b\<rparr>) \<and> b 0 = received_type r s"
proof (cases r)
  case (Datagram src bytes ctl j)
  let ?b = "write_buf (take AODVBUFSIZE bytes) (recvBuffer s)"
  have "?b 0 = received_type r s"
    unfolding Datagram by (cases bytes) (simp_all add: write_buf_def AODVBUFSIZE_def)
  moreover have "\<exists>dat. readFromSock r s = Inr (dat, s\<lparr>recvBuffer := ?b\<rparr>)"
    unfolding Datagram by (cases "src = g_my_ip s") (simp_all add: readFromSock_def sm_simps Let_def split: prod.split)
  ultimately show ?thesis by blast
qed (auto simp: readFromSock_def ret_apply intro!: exI [of _ "recvBuffer s"])

lemma datagram_returns:
  assumes "safe_wf s" "received_type r s \<noteq> AODV_RERR"
  shows "\<exists>s'. process_aodv r s = Inr ((), s')"
proof -
  from read_buffer obtain dat b where r: "readFromSock r s = Inr (dat, s\<lparr>recvBuffer := b\<rparr>)" "b 0 = received_type r s"
    by blast
  let ?s = "s\<lparr>recvBuffer := b\<rparr>"
  have safe: "safe_wf ?s" using assms(1) by (simp add: safe_wf_def safe_def ack_free_def)
  have "recvBuffer ?s 0 \<noteq> AODV_RERR" using assms(2) r(2) by simp
  then have "\<exists>x s'. processRecvMsg dat ?s = Inr (x, s')"
    using runsD [OF runs_processRREQ safe] runsD [OF runs_processRREP safe]
      runsD [OF runs_processRREP_ACK safe]
    by (auto simp: processRecvMsg_def gets_apply bnd_apply [of "gets _"] ret_apply Let_def; blast)
  then show ?thesis using r(1) by (auto simp: process_aodv_def bnd_apply)
qed

end
