(* ===== verification/Traffic.thy ===== *)
theory Traffic
  imports Daemon
begin

text \<open>
  What the handlers send. \<open>sent\<close> is the list of datagrams among the outputs; \<open>rx\<close> is the
  part of the state that decides whether an RREQ is a duplicate. The route updates leave both
  alone, which is what the properties of the flooding of RREQs rest on.
\<close>

section \<open>Datagrams\<close>

fun is_datagram :: "effect \<Rightarrow> bool" where
  "is_datagram (Sendto d bs) = True"
| "is_datagram _ = False"

definition sent :: "node \<Rightarrow> effect list" where
  "sent s = filter is_datagram (outs s)"

text \<open>A view of the state that an operation leaves alone.\<close>

definition view :: "node \<Rightarrow> effect list \<times> buffer \<times> bool \<times> blacklist_entry list \<times> fw_rreq_entry list" where
  "view s = (sent s, recvBuffer s, duringReboot s, bList s, fw_rreq_list s)"

named_theorems view_kept \<open>the view is left alone\<close>

lemma view_kept_emit: "\<not> is_datagram e \<Longrightarrow> keeps (\<lambda>s. C (view s)) (emit e)"
  by (auto intro!: keepsI simp: emit_def upd_def view_def sent_def)

lemma view_kept_clock [view_kept]: "keeps (\<lambda>s. C (view s)) getcurrtime"
  by (auto intro!: keepsI simp: getcurrtime_def view_def sent_def)

lemma view_kept_effects [view_kept]:
  "keeps (\<lambda>s. C (view s)) (setRealTimer t)" "keeps (\<lambda>s. C (view s)) (add_kroute e)"
  "keeps (\<lambda>s. C (view s)) (del_kroute e)" "keeps (\<lambda>s. C (view s)) (la_reply d v)"
  unfolding setRealTimer_def add_kroute_def del_kroute_def la_reply_def Let_def
  by (intro keeps_intros view_kept_emit is_datagram.simps notI; simp)+

lemma view_kept_upd [view_kept]:
  "keeps (\<lambda>s. C (view s)) (findRoute k)" "keeps (\<lambda>s. C (view s)) (write_route k f)"
  "keeps (\<lambda>s. C (view s)) (addRoute e)" "keeps (\<lambda>s. C (view s)) (lr_add k)"
  "keeps (\<lambda>s. C (view s)) (lr_delete k)" "keeps (\<lambda>s. C (view s)) (timer_add v h d)"
  "keeps (\<lambda>s. C (view s)) (removeActiveRouteTimer k)" "keeps (\<lambda>s. C (view s)) (remove_timer p)"
  "keeps (\<lambda>s. C (view s)) (setLowestTimer v)"
  unfolding findRoute_def write_route_def addRoute_def lr_add_def lr_delete_def timer_add_def
    removeActiveRouteTimer_def remove_timer_def
  subgoal by (intro keeps_intros)
  subgoal by (intro keeps_intros) (simp add: view_def sent_def)
  subgoal by (intro keeps_intros) (simp add: view_def sent_def)
  subgoal by (intro keeps_intros) (simp add: view_def sent_def)
  subgoal by (intro keeps_intros) (simp add: view_def sent_def)
  subgoal by (intro keeps_intros view_kept) (simp add: view_def sent_def)
  subgoal by (intro keeps_intros view_kept) (simp add: view_def sent_def)
  subgoal by (intro keeps_intros view_kept) (simp add: view_def sent_def)
  subgoal
    by (auto intro!: keepsI simp: setLowestTimer_def setRealTimer_def emit_def getcurrtime_def sm_simps
        Let_def view_def sent_def split: list.splits if_splits)
  done

lemma view_kept_routes [view_kept]:
  "keeps (\<lambda>s. C (view s)) (add_kroute_at k)" "keeps (\<lambda>s. C (view s)) (insertRoute e)"
  "keeps (\<lambda>s. C (view s)) (removeRREQTimer k)" "keeps (\<lambda>s. C (view s)) (set_timer v h d)"
  "keeps (\<lambda>s. C (view s)) (findActiveRoute k)" "keeps (\<lambda>s. C (view s)) (findValidRoute k n)"
  unfolding add_kroute_at_def insertRoute_def removeRREQTimer_def set_timer_def findActiveRoute_def
    findValidRoute_def
  by (intro keeps_intros view_kept)+

lemma view_kept_neighborUpdate [view_kept]: "keeps (\<lambda>s. C (view s)) (neighborUpdate n src sq t)"
  unfolding neighborUpdate_def neighbor_route_def neighbor_found_def renew_neighbor_timer_def
  by (intro keeps_intros view_kept)

lemma view_same: "(\<And>C. keeps (\<lambda>s. C (view s)) m) \<Longrightarrow> m s = Inr (x, s') \<Longrightarrow> view s' = view s"
  by (rule keeps_unchanged)

section \<open>What decides about duplicates, without the datagrams\<close>

definition rx :: "node \<Rightarrow> buffer \<times> bool \<times> blacklist_entry list \<times> fw_rreq_entry list" where
  "rx s = snd (view s)"

lemma rx_of_view: "(\<And>C. keeps (\<lambda>s. C (view s)) m) \<Longrightarrow> keeps (\<lambda>s. C (rx s)) m"
  unfolding rx_def .

named_theorems rx_kept \<open>rx is left alone\<close>


lemma rx_kept_leaf [rx_kept]:
  "keeps (\<lambda>s. C (rx s)) getcurrtime" "keeps (\<lambda>s. C (rx s)) (la_reply d v)"
  "keeps (\<lambda>s. C (rx s)) (findRoute k)" "keeps (\<lambda>s. C (rx s)) (write_route k f)"
  "keeps (\<lambda>s. C (rx s)) (lr_delete k)" "keeps (\<lambda>s. C (rx s)) (removeRREQTimer k)"
  "keeps (\<lambda>s. C (rx s)) (add_kroute_at k)" "keeps (\<lambda>s. C (rx s)) (insertRoute e)"
  "keeps (\<lambda>s. C (rx s)) (del_kroute e)" "keeps (\<lambda>s. C (rx s)) (set_timer tv h td)"
  "keeps (\<lambda>s. C (rx s)) (findActiveRoute k)" "keeps (\<lambda>s. C (rx s)) (findValidRoute k n)"
  "keeps (\<lambda>s. C (rx s)) (neighborUpdate a b n t)"
  unfolding rx_def by (rule view_kept)+

lemma rx_kept_send [rx_kept]: "keeps (\<lambda>s. C (rx s)) (send_bytes d t bs)"
  by (auto intro!: keepsI simp: send_bytes_def sendPacket_def copyToSendBuf_def emit_def sm_simps
      rx_def view_def split: if_splits)

lemma rx_kept_seq: "keeps (\<lambda>s. C (rx s)) (upd (\<lambda>s. s\<lparr>localSeqNum := n\<rparr>))"
  by (rule keeps_upd) (simp add: rx_def view_def)

lemma rx_kept_generateRERR [rx_kept]: "keeps (\<lambda>s. C (rx s)) (generateRERR d n b)"
  unfolding generateRERR_def rerr_block_def getPrecAddr_def
  by (rule keeps_bnd [OF rx_kept_leaf(3)], unfold Let_def, intro keeps_intros rx_kept)
    (auto intro!: keeps_intros rx_kept split: list.split)

lemma rx_kept_reverse [rx_kept]: "keeps (\<lambda>s. C (rx s)) (reverseRouteUpdate h q)"
  unfolding reverseRouteUpdate_def route_found_def by (intro keeps_intros rx_kept)

lemma rx_kept_answer [rx_kept]: "keeps (\<lambda>s. C (rx s)) (answer_or_forward q)"
  unfolding answer_or_forward_def by (intro keeps_intros rx_kept rx_kept_seq)

lemma rx_kept_rreps [rx_kept]:
  "keeps (\<lambda>s. C (rx s)) (RREP_createRREP h q p)" "keeps (\<lambda>s. C (rx s)) (RREP_createGRREP a b n p)"
  "keeps (\<lambda>s. C (rx s)) (get_next_hop d)"
  unfolding RREP_createRREP_def RREP_createGRREP_def get_next_hop_def setLifeTime_def
  by (intro keeps_intros rx_kept)+

lemma rx_kept_reply [rx_kept]: "keeps (\<lambda>s. C (rx s)) (reply_RREQ d raw q)"
  unfolding reply_RREQ_def send_RREP_def set_ack_timer_def send_gratuitous_def
  by (intro keeps_intros rx_kept)

section \<open>Duplicates of an RREQ\<close>

lemma RREQ_copy_fields [simp]:
  "rq_src_ip (RREQ_copy q) = rq_src_ip q" "rq_rreq_id (RREQ_copy q) = rq_rreq_id q"
  "rq_dest_ip (RREQ_copy q) = rq_dest_ip q" "rq_dest_seq_num (RREQ_copy q) = rq_dest_seq_num q"
  "rq_hop_cnt (RREQ_copy q) = rq_hop_cnt q" "rq_src_seq_num (RREQ_copy q) = rq_src_seq_num q"
  "rq_G (RREQ_copy q) = rq_G q" "rq_type (RREQ_copy q) = rq_type q"
  by (simp_all add: RREQ_copy_def)

definition known_rreq :: "RREQ \<Rightarrow> node \<Rightarrow> bool" where
  "known_rreq q s \<longleftrightarrow> fwRreqList_inList (fw_rreq_list s) (rq_src_ip q) (rq_rreq_id q)"

lemma view_fields:
  "view s = view t \<Longrightarrow> sent s = sent t \<and> recvBuffer s = recvBuffer t \<and> duringReboot s = duringReboot t
     \<and> bList s = bList t \<and> fw_rreq_list s = fw_rreq_list t"
  by (simp add: view_def)

text \<open>The three early ends of \<open>recvRREQ\<close>, and the rest.\<close>

definition tock :: "node \<Rightarrow> node" where
  "tock s = s\<lparr>ticks := Suc (ticks s)\<rparr>"

lemma view_tock [simp]: "view (tock s) = view s"
  by (simp add: tock_def view_def sent_def)

definition neighbor_of_RREQ :: "ip \<Rightarrow> RREQ \<Rightarrow> node \<Rightarrow> (node, unit) sm" where
  "neighbor_of_RREQ h q s = neighborUpdate h (rq_src_ip q)
     (if rq_src_ip q = h then rq_src_seq_num q else 0)
     (clock (env s) (ticks s) + ALLOWED_HELLO_LOSS * HELLO_INTERVAL)"

lemma recvRREQ_run:
  "RREQ_recvRREQ h q s =
     (case blacklist_inList (bList s) h of None \<Rightarrow> Inl Diverges
      | Some black \<Rightarrow>
          if black \<or> rq_src_ip q = g_my_ip s then Inr ((0, q), tock s)
          else andthen (neighbor_of_RREQ h q s) (consider_RREQ h q) (tock s))"
  by (simp add: RREQ_recvRREQ_def black_list_inList_def getcurrtime_def bnd_apply gets_apply
      ret_apply raise_apply tock_def neighbor_of_RREQ_def Let_def split: option.split)

text \<open>A known RREQ, and one that is refused, only touches the route to the neighbour.\<close>

lemma recvRREQ_known:
  assumes run: "RREQ_recvRREQ h q s = Inr ((res, q'), s')"
    and known: "known_rreq q s \<or> rq_src_ip q = g_my_ip s \<or> blacklist_inList (bList s) h \<noteq> Some False"
  shows "res = 0 \<and> q' = q \<and> view s' = view s"
proof (cases "blacklist_inList (bList s) h = Some False \<and> rq_src_ip q \<noteq> g_my_ip s")
  case False
  then show ?thesis using run by (auto simp: recvRREQ_run split: option.splits)
next
  case True
  with run obtain y t where t: "neighbor_of_RREQ h q s (tock s) = Inr (y, t)" and
    rest: "consider_RREQ h q t = Inr ((res, q'), s')"
    by (auto simp: recvRREQ_run dest: andthen_Inr)
  have vt: "view t = view s"
    using view_same [OF view_kept_neighborUpdate t [unfolded neighbor_of_RREQ_def]] by simp
  with known True have "known_rreq q t" by (simp add: known_rreq_def view_fields [OF vt])
  with rest vt show ?thesis by (simp add: consider_RREQ_def sm_simps known_rreq_def)
qed

text \<open>Afterwards an RREQ that was neither refused nor the node's own is known.\<close>

lemma recvRREQ_marks:
  assumes run: "RREQ_recvRREQ h q s = Inr ((res, q'), s')"
    and ok: "rq_src_ip q \<noteq> g_my_ip s" "blacklist_inList (bList s) h = Some False"
  shows "known_rreq q s' \<and> recvBuffer s' = recvBuffer s \<and> duringReboot s' = duringReboot s
    \<and> bList s' = bList s"
proof -
  let ?P = "\<lambda>(b, d, l, fw). b = recvBuffer s \<and> d = duringReboot s
    \<and> l = bList s \<and> fwRreqList_inList fw (rq_src_ip q) (rq_rreq_id q)"
  have add: "valid (\<lambda>t. view t = view s) (fw_rreqL_addToList (rq_src_ip q) (rq_rreq_id q)) (\<lambda>_ t. ?P (rx t))"
    by (rule validI)
      (auto simp: fw_rreqL_addToList_def getcurrtime_def sm_simps rx_def view_def
        fw.mem_add [where k = "(_, _)" and k' = "(_, _)", simplified] split: if_splits)
  from run ok obtain y t where t: "neighbor_of_RREQ h q s (tock s) = Inr (y, t)" and
    rest: "consider_RREQ h q t = Inr ((res, q'), s')"
    by (auto simp: recvRREQ_run dest: andthen_Inr)
  have vt: "view t = view s"
    using view_same [OF view_kept_neighborUpdate t [unfolded neighbor_of_RREQ_def]] by simp
  show ?thesis
  proof (cases "known_rreq q t")
    case True
    with rest vt view_fields [OF vt] show ?thesis
      by (auto simp: consider_RREQ_def sm_simps known_rreq_def)
  next
    case False
    let ?m = "andthen (whenM (rq_src_ip q \<noteq> h) (reverseRouteUpdate h q)) (answer_or_forward q)"
    have "keeps (\<lambda>t. ?P (rx t)) ?m"
      by (intro keeps_andthen keeps_whenM rx_kept)
    moreover have "andthen (fw_rreqL_addToList (rq_src_ip q) (rq_rreq_id q)) ?m t = Inr ((res, q'), s')"
      using rest False by (simp add: consider_RREQ_def known_rreq_def gets_apply bnd_apply [of "gets _"])
    ultimately have "?P (rx s')"
      using validD [OF valid_andthen [OF add valid_keeps] vt] by simp
    then show ?thesis by (simp add: rx_def view_def known_rreq_def)
  qed
qed

text \<open>The end of \<open>processRREQ\<close> once \<open>recvRREQ\<close> has decided.\<close>

definition act_on_RREQ :: "aodvData \<Rightarrow> RREQ \<Rightarrow> int \<times> RREQ \<Rightarrow> (node, unit) sm" where
  "act_on_RREQ dat raw = (\<lambda>(result, q).
     if result = 0 then ret ()
     else if result = FWD_RREQ then
       whenM (ad_ttl dat > 0) (send_bytes BROADCAST_ADDR (ad_ttl dat) (RREQ_bytes q))
     else whenM (result = GEN_RREP) (reply_RREQ dat raw q))"

lemma processRREQ_run:
  "\<not> duringReboot s \<Longrightarrow> processRREQ dat s =
     bnd (RREQ_recvRREQ (ad_src_ip dat) (RREQ_copy (RREQ_at (recvBuffer s))))
       (act_on_RREQ dat (RREQ_at (recvBuffer s))) s"
  by (simp add: processRREQ_def act_on_RREQ_def gets_apply bnd_apply [of "gets _"])

lemma bnd_Inr: "bnd m f s = Inr (x, s') \<Longrightarrow> \<exists>y t. m s = Inr (y, t) \<and> f y t = Inr (x, s')"
  by (auto simp: bnd_apply split: sum.splits)

lemma rx_kept_act: "keeps (\<lambda>s. C (rx s)) (act_on_RREQ d raw x)"
  unfolding act_on_RREQ_def by (intro keeps_intros rx_kept)

lemma via_recvRREQ_config:
  "RREQ_recvRREQ h q s = Inr (x, s') \<Longrightarrow> config s' = config s"
  by (rule conf.via_keeps [OF via_recvRREQ [of 0 always] TrueI refl])

lemma processRREQ_config: "processRREQ d s = Inr (x, s') \<Longrightarrow> config s' = config s"
  by (rule conf.via_keeps [OF via_processRREQ [of 0 always] TrueI refl])

lemma rx_fields:
  "rx s = rx t \<Longrightarrow> recvBuffer s = recvBuffer t \<and> duringReboot s = duringReboot t
     \<and> bList s = bList t \<and> fw_rreq_list s = fw_rreq_list t"
  by (simp add: rx_def view_def)

lemma second_RREQ_silent:
  assumes boot: "\<not> duringReboot s" and first: "processRREQ d s = Inr ((), s')"
    and second: "processRREQ d s' = Inr ((), s'')"
  shows "sent s'' = sent s'"
proof -
  let ?q = "RREQ_copy (RREQ_at (recvBuffer s))" and ?h = "ad_src_ip d"
  from bnd_Inr [OF first [unfolded processRREQ_run [OF boot]]] obtain res q1 t where
    t: "RREQ_recvRREQ ?h ?q s = Inr ((res, q1), t)" and
    act: "act_on_RREQ d (RREQ_at (recvBuffer s)) (res, q1) t = Inr ((), s')"
    by auto
  have rx: "rx s' = rx t" by (rule keeps_unchanged [OF rx_kept_act act])
  have ip: "g_my_ip s' = g_my_ip s" using config_fields [OF processRREQ_config [OF first]] by simp
  have "recvBuffer s' = recvBuffer s \<and> duringReboot s' = duringReboot s \<and>
    (known_rreq ?q s' \<or> rq_src_ip ?q = g_my_ip s' \<or> blacklist_inList (bList s') ?h \<noteq> Some False)"
  proof (cases "rq_src_ip ?q \<noteq> g_my_ip s \<and> blacklist_inList (bList s) ?h = Some False")
    case True
    then have "known_rreq ?q t" "recvBuffer t = recvBuffer s" "duringReboot t = duringReboot s"
      using recvRREQ_marks [OF t] by simp_all
    with rx_fields [OF rx] show ?thesis by (simp add: known_rreq_def)
  next
    case False
    then have "known_rreq ?q s \<or> rq_src_ip ?q = g_my_ip s \<or> blacklist_inList (bList s) ?h \<noteq> Some False"
      by blast
    from recvRREQ_known [OF t this] have "view t = view s" by simp
    from view_fields [OF this] rx_fields [OF rx]
    have "recvBuffer s' = recvBuffer s" "duringReboot s' = duringReboot s" "bList s' = bList s" by simp_all
    moreover from False ip this(3)
    have "rq_src_ip ?q = g_my_ip s' \<or> blacklist_inList (bList s') ?h \<noteq> Some False" by metis
    ultimately show ?thesis by blast
  qed
  then have buf: "recvBuffer s' = recvBuffer s" "\<not> duringReboot s'" and
    known: "known_rreq ?q s' \<or> rq_src_ip ?q = g_my_ip s' \<or> blacklist_inList (bList s') ?h \<noteq> Some False"
    using boot by simp_all
  from bnd_Inr [OF second [unfolded processRREQ_run [OF buf(2)] buf(1)]] obtain res2 q2 t2 where
    t2: "RREQ_recvRREQ ?h ?q s' = Inr ((res2, q2), t2)" and
    act2: "act_on_RREQ d (RREQ_at (recvBuffer s)) (res2, q2) t2 = Inr ((), s'')"
    by auto
  from recvRREQ_known [OF t2 known] have "res2 = 0" and v: "view t2 = view s'" by simp_all
  with act2 have "s'' = t2" by (simp add: act_on_RREQ_def ret_def)
  with view_fields [OF v] show ?thesis by simp
qed

section \<open>Forwarding and answering\<close>

lemma answer_or_forward_cases:
  assumes "answer_or_forward q s = Inr ((res, q'), s')"
  shows "rTableMap s' = rTableMap s \<and> sent s' = sent s \<and>
    (if rq_dest_ip q = g_my_ip s
        \<or> (\<exists>e. map_of (rTableMap s) (rq_dest_ip q) = Some e \<and> rt_dest_seq_num e \<ge> rq_dest_seq_num q
              \<and> rt_routing_flags e = ACTIVE_ROUTE)
     then res = GEN_RREP \<and> q' = q
     else res = FWD_RREQ \<and> q' = q\<lparr>rq_hop_cnt := rq_hop_cnt q + 1,
       rq_dest_seq_num := max (rq_dest_seq_num q)
         (case map_of (rTableMap s) (rq_dest_ip q) of None \<Rightarrow> 0 | Some e \<Rightarrow> rt_dest_seq_num e)\<rparr>)"
  using assms
  by (auto simp: answer_or_forward_def findValidRoute_def findRoute_def sm_simps Let_def sent_def
      max_def split: option.splits if_splits)

lemma answer_or_forward_returns: "\<exists>res q' s'. answer_or_forward q s = Inr ((res, q'), s')"
  by (simp add: answer_or_forward_def findValidRoute_def findRoute_def sm_simps Let_def split: option.split)

lemma sent_send_bytes:
  "length bs = n \<Longrightarrow> send_bytes d t bs s = Inr ((), s') \<Longrightarrow>
   sent s' = (if t = 0 then sent s else sent s @ [Sendto d bs])"
  by (auto simp: send_bytes_def sendPacket_def copyToSendBuf_def genSndData_def emit_def sm_simps
      sent_def read_write_buf split: if_splits)

section \<open>RREQs of the node itself\<close>

text \<open>What an RREQ that \<open>createRREQ\<close> made looks like.\<close>

lemma createRREQ_result:
  assumes "RREQ_createRREQ dst f s = Inr (q, s')"
  shows "rq_type q = AODV_RREQ \<and> rq_dest_ip q = dst \<and> rq_src_ip q = g_my_ip s \<and> rq_hop_cnt q = 0
    \<and> rq_rreq_id q = rreqId s + 1 \<and> rq_src_seq_num q = localSeqNum s + 1 \<and> rq_G q = (f = 1)
    \<and> view s' = view s \<and> rreq_list s' = rreq_list s \<and> timerQ s' = timerQ s
    \<and> expandingRingSearch s' = expandingRingSearch s"
  using assms
  by (auto simp: RREQ_createRREQ_def getDestSeqNum_def findRoute_def sm_simps view_def sent_def
      split: option.splits)

definition pv :: "node \<Rightarrow> effect list \<times> rreq_list_entry list" where
  "pv s = (sent s, rreq_list s)"

lemma set_timer_pv: "set_timer v h d s = Inr (x, s') \<Longrightarrow> pv s' = pv s \<and> length (timerQ s') = Suc (length (timerQ s))"
  by (auto simp: set_timer_def timer_add_def setLowestTimer_def setRealTimer_def emit_def getcurrtime_def
      sm_simps Let_def pv_def sent_def tq.length_add dest: arg_cong [of _ _ length]
      split: list.splits if_splits)

lemma setRREQTimer_pv: "setRREQTimer d t s = Inr (x, s') \<Longrightarrow> pv s' = pv s \<and> length (timerQ s') = Suc (length (timerQ s))"
  by (auto simp: setRREQTimer_def gets_apply bnd_apply [of "gets _"] dest: set_timer_pv)

lemma send_bytes_pending: "send_bytes d t bs s = Inr (x, s') \<Longrightarrow> rreq_list s' = rreq_list s \<and> timerQ s' = timerQ s"
  by (auto simp: send_bytes_def sendPacket_def copyToSendBuf_def emit_def sm_simps split: if_splits)

lemma first_ttl_pv:
  "first_ttl d s = Inr (t, s') \<Longrightarrow> pv s' = pv s \<and> timerQ s' = timerQ s \<and> (expandingRingSearch s \<longrightarrow> 1 \<le> t)"
  by (auto simp: first_ttl_def getTTL_def isRouteValid_def findRoute_def getcurrtime_def sm_simps
      pv_def sent_def param_values split: option.splits if_splits)

lemma sendRREQ_result:
  assumes run: "sendRREQ dst f s = Inr ((), s')" and other: "dst \<noteq> g_my_ip s" and ring: "expandingRingSearch s"
  shows "\<exists>q ttl. rq_type q = AODV_RREQ \<and> rq_dest_ip q = dst \<and> rq_src_ip q = g_my_ip s \<and> rq_hop_cnt q = 0
    \<and> rq_rreq_id q = rreqId s + 1 \<and> rq_src_seq_num q = localSeqNum s + 1 \<and> rq_G q = (f = 1) \<and> 1 \<le> ttl
    \<and> sent s' = sent s @ [Sendto BROADCAST_ADDR (RREQ_bytes q)]
    \<and> rreq_list s' = rreq_list s @ [\<lparr>pe_rreqOb = q, pe_retries = 0, pe_ttl = ttl\<rparr>]
    \<and> length (timerQ s') = Suc (length (timerQ s))"
proof -
  from run other have "bnd (RREQ_createRREQ dst f) (\<lambda>q. andthen (hold_route dst) (start_search dst q)) s
      = Inr ((), s')"
    by (simp add: sendRREQ_def gets_apply bnd_apply [of "gets _"])
  from bnd_Inr [OF this] obtain q t1 where q: "RREQ_createRREQ dst f s = Inr (q, t1)" and
    rest: "andthen (hold_route dst) (start_search dst q) t1 = Inr ((), s')" by blast
  note q' = createRREQ_result [OF q]
  from andthen_Inr [OF rest] obtain y t2 where t2: "hold_route dst t1 = Inr (y, t2)" and
    rest2: "start_search dst q t2 = Inr ((), s')" by blast
  have same: "pv t2 = pv t1 \<and> timerQ t2 = timerQ t1 \<and> expandingRingSearch t2 = expandingRingSearch t1"
    using t2 by (auto simp: hold_route_def findRoute_def write_route_def getcurrtime_def sm_simps
        pv_def sent_def split: option.splits)
  from bnd_Inr [OF rest2 [unfolded start_search_def]] obtain ttl t3 where
    t3: "first_ttl dst t2 = Inr (ttl, t3)" and
    rest3: "andthen (rreqL_addToList q ttl)
        (andthen (setRREQTimer dst ttl)
          (send_bytes BROADCAST_ADDR ttl (RREQ_bytes q))) t3 = Inr ((), s')"
    by blast
  from first_ttl_pv [OF t3] same q' ring have ttl: "1 \<le> ttl" by simp
  from rest3 obtain t4 where
    t4: "setRREQTimer dst ttl (t3\<lparr>rreq_list := rreqPendingList_addToList q 0 ttl (rreq_list t3)\<rparr>) = Inr ((), t4)"
    and send: "send_bytes BROADCAST_ADDR ttl (RREQ_bytes q) t4 = Inr ((), s')"
    by (auto simp: rreqL_addToList_def upd_def andthen_apply split: sum.splits)
  from sent_send_bytes [OF refl send] ttl have "sent s' = sent t4 @ [Sendto BROADCAST_ADDR (RREQ_bytes q)]"
    by simp
  with setRREQTimer_pv [OF t4] first_ttl_pv [OF t3] same q' send_bytes_pending [OF send] ttl show ?thesis
    by (intro exI [of _ q] exI [of _ ttl])
      (auto simp: pv_def sent_def rreqPendingList_addToList_def dest: view_fields)
qed

section \<open>Repeating and giving up\<close>

lemma retry_bound:
  assumes "1 \<le> pe_ttl e" "pe_retries e = 0"
  shows "pe_retries ((next_try ring ^^ 5) e) > RREQ_RETRIES"
proof -
  have five: "(next_try ring ^^ 5) e = next_try ring (next_try ring (next_try ring (next_try ring (next_try ring e))))"
    by (simp add: numeral_eq_Suc)
  consider "pe_ttl e = 35" | "pe_ttl e \<noteq> 35 \<and> 5 \<le> pe_ttl e" | "3 \<le> pe_ttl e \<and> pe_ttl e < 5"
    | "pe_ttl e < 3" by linarith
  then show ?thesis
    using assms
    by cases (simp_all add: five next_try_def param_values Let_def word_less_nat_alt)
qed

lemma retries_run_out:
  assumes "pe_retries e \<le> RREQ_RETRIES" "ring \<longrightarrow> 1 \<le> pe_ttl e"
  shows "RREQ_RETRIES < pe_retries ((next_try ring ^^ 5) e)"
proof -
  have five: "(next_try r ^^ 5) e = next_try r (next_try r (next_try r (next_try r (next_try r e))))" for r
    by (simp add: numeral_eq_Suc)
  have "unat (pe_retries e) \<le> 2" using assms(1) by (simp add: param_values word_le_nat_alt)
  then have "unat (pe_retries e) = 0 \<or> unat (pe_retries e) = 1 \<or> unat (pe_retries e) = 2" by linarith
  then have few: "pe_retries e = 0 \<or> pe_retries e = 1 \<or> pe_retries e = 2"
    by (simp add: word_unat_eq_iff)
  note facts = five next_try_def param_values Let_def word_less_nat_alt
  have "\<not> ring \<or> pe_ttl e = 35 \<or> (pe_ttl e \<noteq> 35 \<and> 5 \<le> pe_ttl e) \<or> (3 \<le> pe_ttl e \<and> pe_ttl e < 5) \<or> (1 \<le> pe_ttl e \<and> pe_ttl e < 3)"
    using assms(2) by linarith
  then show ?thesis using few by (elim disjE) (simp_all add: facts)
qed

lemma resend_entry_result:
  assumes run: "resend_entry dst e s = Inr ((), s')" and ttl: "pe_ttl e \<noteq> 0"
    and e: "rq_dest_ip (pe_rreqOb e) = dst" "rreqPendingList_inList (rreq_list s) dst \<noteq> None"
  shows "\<exists>q. rq_dest_ip q = dst \<and> rq_rreq_id q = rreqId s + 1 \<and> rq_src_seq_num q = localSeqNum s + 1
    \<and> sent s' = sent s @ [Sendto BROADCAST_ADDR (RREQ_bytes q)]
    \<and> rreqPendingList_inList (rreq_list s') dst = Some (e\<lparr>pe_rreqOb := q\<rparr>)
    \<and> length (timerQ s') = Suc (length (timerQ s))"
proof -
  from run obtain n where
    "bnd (gets localSeqNum) (\<lambda>srcSeq.
       let q = (pe_rreqOb e)\<lparr>rq_rreq_id := rreqId s + 1, rq_dest_seq_num := n, rq_src_seq_num := srcSeq\<rparr> in
       andthen (rreqL_write dst (e\<lparr>pe_rreqOb := q\<rparr>))
       (andthen (setRREQTimer dst (pe_ttl e))
         (send_bytes BROADCAST_ADDR (pe_ttl e) (RREQ_bytes q))))
       (s\<lparr>rreqId := rreqId s + 1, localSeqNum := localSeqNum s + 1\<rparr>) = Inr ((), s')"
    by (auto simp: resend_entry_def getDestSeqNum_def findRoute_def upd_apply andthen_apply [of "upd _"]
        gets_apply bnd_apply [of "gets _"] bnd_apply [of "bnd _ _"] ret_apply split: option.splits)
  then obtain q where qdef: "q = (pe_rreqOb e)\<lparr>rq_rreq_id := rreqId s + 1, rq_dest_seq_num := n,
        rq_src_seq_num := localSeqNum s + 1\<rparr>"
    and rest: "andthen (rreqL_write dst (e\<lparr>pe_rreqOb := q\<rparr>))
       (andthen (setRREQTimer dst (pe_ttl e))
         (send_bytes BROADCAST_ADDR (pe_ttl e) (RREQ_bytes q)))
       (s\<lparr>rreqId := rreqId s + 1, localSeqNum := localSeqNum s + 1\<rparr>) = Inr ((), s')"
    by (simp add: Let_def gets_apply bnd_apply [of "gets _"])
  from qdef e have q: "rq_dest_ip q = dst" "rq_rreq_id q = rreqId s + 1" "rq_src_seq_num q = localSeqNum s + 1"
    by simp_all
  let ?s = "s\<lparr>rreqId := rreqId s + 1, localSeqNum := localSeqNum s + 1,
      rreq_list := rreqPendingList_write dst (e\<lparr>pe_rreqOb := q\<rparr>) (rreq_list s)\<rparr>"
  from rest obtain t where t: "setRREQTimer dst (pe_ttl e) ?s = Inr ((), t)" and
    send: "send_bytes BROADCAST_ADDR (pe_ttl e) (RREQ_bytes q) t = Inr ((), s')"
    by (auto simp: rreqL_write_def upd_def andthen_apply split: sum.splits)
  have "rreqPendingList_inList (rreqPendingList_write dst (e\<lparr>pe_rreqOb := q\<rparr>) (rreq_list s)) dst
      = Some (e\<lparr>pe_rreqOb := q\<rparr>)"
    using e q by (auto intro: rreqPendingList_inList_write)
  with sent_send_bytes [OF refl send] setRREQTimer_pv [OF t] send_bytes_pending [OF send] q ttl show ?thesis
    by (intro exI [of _ q]) (auto simp: pv_def sent_def)
qed

lemma resendRREQ_result:
  assumes run: "resendRREQ d s = Inr ((), s')"
    and e: "rreqPendingList_inList (rreq_list s) (td_data d) = Some e"
    and ttl: "pe_ttl (next_try (expandingRingSearch s) e) \<noteq> 0"
  shows "let e' = next_try (expandingRingSearch s) e in
    if pe_retries e' > RREQ_RETRIES then
      rreq_list s' = rreqPendingList_deleteFromList (td_data d) (rreq_list s) \<and> timerQ s' = timerQ s
      \<and> outs s' = outs s @ [La_send (LAMessage_generate_stream \<lparr>la_cmd = LA_ODS_REPLY,
          la_dst_address = td_data d, la_src_address = 0, la_protocol = 0, la_result = IP_NOFOUND\<rparr>)]
    else \<exists>q. rq_dest_ip q = td_data d \<and> rq_rreq_id q = rreqId s + 1 \<and> rq_src_seq_num q = localSeqNum s + 1
      \<and> sent s' = sent s @ [Sendto BROADCAST_ADDR (RREQ_bytes q)]
      \<and> rreqPendingList_inList (rreq_list s') (td_data d) = Some (e'\<lparr>pe_rreqOb := q\<rparr>)
      \<and> length (timerQ s') = Suc (length (timerQ s))"
proof -
  let ?e = "next_try (expandingRingSearch s) e" and ?dst = "td_data d"
  have dst: "rq_dest_ip (pe_rreqOb ?e) = ?dst" using e by (auto dest: rreqPendingList_inList_Some)
  from run e have try_run: "andthen (rreqL_write ?dst ?e)
            (if pe_retries ?e > RREQ_RETRIES then
               andthen (rreqL_deleteFromList ?dst) (la_reply ?dst IP_NOFOUND)
             else resend_entry ?dst ?e) s = Inr ((), s')"
    by (simp add: resendRREQ_def Let_def gets_apply bnd_apply [of "gets _"])
  show ?thesis
  proof (cases "pe_retries ?e > RREQ_RETRIES")
    case True
    with try_run write_then_delete [OF dst, of "la_reply ?dst IP_NOFOUND"]
    have "andthen (rreqL_deleteFromList ?dst) (la_reply ?dst IP_NOFOUND) s = Inr ((), s')" by simp
    with True show ?thesis
      by (auto simp: rreqL_deleteFromList_def la_reply_def emit_def sm_simps Let_def)
  next
    case False
    let ?s = "s\<lparr>rreq_list := rreqPendingList_write ?dst ?e (rreq_list s)\<rparr>"
    from try_run False have r: "resend_entry ?dst ?e ?s = Inr ((), s')"
      by (simp add: rreqL_write_def upd_def andthen_apply)
    have "rreqPendingList_inList (rreq_list ?s) ?dst \<noteq> None"
      using rreqPendingList_inList_write [OF e dst] by simp
    from resend_entry_result [OF r ttl dst this] False show ?thesis by (simp add: Let_def sent_def)
  qed
qed

section \<open>Requests of the agent\<close>

abbreviation (input) reply_effect :: "ip \<Rightarrow> u32 \<Rightarrow> effect" where
  "reply_effect dst v \<equiv> La_send (LAMessage_generate_stream \<lparr>la_cmd = LA_ODS_REPLY,
     la_dst_address = dst, la_src_address = 0, la_protocol = 0, la_result = v\<rparr>)"

definition active_at :: "ip \<Rightarrow> node \<Rightarrow> bool" where
  "active_at dst s \<longleftrightarrow> (\<exists>e. map_of (rTableMap s) dst = Some e \<and> rt_lifetime e > clock (env s) (ticks s)
     \<and> rt_routing_flags e = ACTIVE_ROUTE)"

lemma findActiveRoute_run:
  "findActiveRoute dst s = Inr (if active_at dst s then map_of (rTableMap s) dst else None, tock s)"
  by (auto simp: findActiveRoute_def findRoute_def getcurrtime_def sm_simps active_at_def tock_def
      split: option.split)

lemma process_asl_found:
  "\<not> duringReboot s \<Longrightarrow> active_at (ri_dst_ip i) s \<Longrightarrow>
   process_asl i s = Inr ((), (tock s)\<lparr>outs := outs s @ [reply_effect (ri_dst_ip i) IP_FOUND]\<rparr>)"
  by (auto simp: process_asl_def Let_def gets_apply bnd_apply findActiveRoute_run la_reply_def emit_def
      upd_def tock_def active_at_def split: option.splits)

lemma process_asl_search:
  "\<not> duringReboot s \<Longrightarrow> \<not> active_at (ri_dst_ip i) s \<Longrightarrow> ri_src_ip i = g_my_ip s \<Longrightarrow>
   process_asl i s = process_asl_local i (tock s)"
  by (simp add: process_asl_def Let_def gets_apply bnd_apply findActiveRoute_run tock_def)

lemma process_asl_transit_refused:
  assumes "\<not> duringReboot s" "\<not> active_at (ri_dst_ip i) s" "ri_src_ip i \<noteq> g_my_ip s"
    and "ri_dst_ip i \<notin> lr_dest_ip ` set (local_repair_list s)"
  shows "process_asl i s = generateRERR (ri_dst_ip i) 0 (map_of (rTableMap s) (ri_dst_ip i) = None)
    ((tock s)\<lparr>outs := outs s @ [reply_effect (ri_dst_ip i) IP_NOFOUND]\<rparr>)"
proof -
  have "localRepair_findInList (local_repair_list s) (ri_dst_ip i) = None"
    using assms(4) by (simp add: localRepair_findInList_None)
  with assms(1-3) show ?thesis
    by (simp add: process_asl_def process_asl_transit_def Let_def gets_apply bnd_apply andthen_apply
        findActiveRoute_run la_reply_def emit_def upd_def tock_def findRoute_def)
qed

text \<open>A RERR that is generated for an unknown destination, and what generating one leaves alone.\<close>

lemma rerr_bytes_one: "packed_rerr (RERR_setUnrchDest d n (RERR_setDestCnt 1 RERR_new)) 12
    = RERR_bytes (RERR_setUnrchDest d n (RERR_setDestCnt 1 RERR_new))"
  using packed_rerr_bytes [of "RERR_setUnrchDest d n (RERR_setDestCnt 1 RERR_new)"]
  by (simp add: RERR_ok_def RERR_setUnrchDest_def RERR_setDestCnt_def RERR_new_def)

lemma pending_kept_generateRERR: "keeps (\<lambda>s. C (rreq_list s)) (generateRERR d n b)"
proof -
  have find: "keeps (\<lambda>s. C (rreq_list s)) (findRoute d)" unfolding findRoute_def by (rule keeps_gets)
  have send: "keeps (\<lambda>s. C (rreq_list s)) (send_bytes d t bs)" for d t bs
    by (auto intro!: keepsI dest!: send_bytes_pending)
  show ?thesis
    unfolding generateRERR_def rerr_block_def getPrecAddr_def
    by (rule keeps_bnd [OF find], unfold Let_def, intro keeps_intros send)
      (auto intro!: keeps_intros send split: list.split)
qed

lemma generateRERR_result:
  assumes "generateRERR d 0 (map_of (rTableMap s0) d = None) s = Inr (x, s')" "rTableMap s = rTableMap s0"
  shows "rTableMap s' = rTableMap s \<and> rreq_list s' = rreq_list s
    \<and> (map_of (rTableMap s) d = None \<longrightarrow> sent s' = sent s @ [Sendto BROADCAST_ADDR
          (RERR_bytes (RERR_setUnrchDest d 0 (RERR_setDestCnt 1 RERR_new)))])"
proof (intro conjI impI)
  show "rTableMap s' = rTableMap s" by (rule keeps_unchanged [OF table_kept_generateRERR assms(1)])
  show "rreq_list s' = rreq_list s" by (rule keeps_unchanged [OF pending_kept_generateRERR assms(1)])
  have new: "RERR_setNFlag 0 RERR_new = RERR_new" by (simp add: RERR_setNFlag_def RERR_new_def)
  let ?r = "RERR_setUnrchDest d 0 (RERR_setDestCnt 1 RERR_new)"
  have cnt: "re_dest_cnt ?r = 1" by (simp add: RERR_setUnrchDest_def RERR_setDestCnt_def)
  have len: "length (packed_rerr ?r 12) = 12" by (simp add: packed_rerr_def)
  assume "map_of (rTableMap s) d = None"
  with assms have "send_bytes BROADCAST_ADDR 1 (packed_rerr ?r 12) s = Inr ((), s')"
    by (simp add: generateRERR_def findRoute_def rerr_block_def sm_simps Let_def new cnt split: if_splits)
  from sent_send_bytes [OF len this] show "sent s' = sent s @ [Sendto BROADCAST_ADDR (RERR_bytes ?r)]"
    by (simp add: rerr_bytes_one)
qed

section \<open>Arming the interval timer\<close>

text \<open>
  \<open>set_timer\<close> reads the clock twice. The interval timer is armed when the head of the queue
  is due \<open>v\<close> after the second reading.
\<close>

lemma set_timer_run:
  "set_timer v h d s =
     (let t = \<lparr>tm_timeout = clock (env s) (ticks s) + v, tm_handler = h, tm_data = d, tm_id = next_id s\<rparr>;
          q = timer_insert t (timerQ s);
          s' = s\<lparr>timerQ := q, next_id := Suc (next_id s), ticks := Suc (Suc (ticks s))\<rparr>
      in if tm_timeout (hd q) = clock (env s) (Suc (ticks s)) + v then setRealTimer v s' else Inr ((), s'))"
proof -
  have "timer_insert t q \<noteq> []" for t q by (cases q) auto
  then show ?thesis
    by (auto simp: set_timer_def timer_add_def setLowestTimer_def getcurrtime_def sm_simps Let_def
        split: list.split)
qed

lemma hd_timer_insert:
  "(\<forall>u \<in> set q. tm_timeout t \<le> tm_timeout u) \<Longrightarrow> hd (timer_insert t q) = t"
  by (cases q) auto

end
