(* ===== verification/Quiet.thy ===== *)
theory Quiet
  imports Traffic
begin

text \<open>
  What \<open>recvRREQ\<close> does besides its routes: on a node without a local repair it sends nothing and
  starts no repair, and the list of the RREQs that were seen grows by the one it gets at most.
\<close>

section \<open>Without a local repair\<close>

definition no_repair :: "node \<Rightarrow> bool" where
  "no_repair s \<longleftrightarrow> (\<forall>t \<in> set (timerQ s). td_type (tm_data t) \<noteq> LR_TIMER)"

definition mild :: "(effect list \<Rightarrow> bool) \<Rightarrow> node \<Rightarrow> bool" where
  "mild C s \<longleftrightarrow> no_repair s \<and> C (sent s)"

named_theorems mild_kept \<open>no repair is started and no datagram sent\<close>

lemma mild_kept_emit: "\<not> is_datagram e \<Longrightarrow> keeps (mild C) (emit e)"
  by (auto intro!: keepsI simp: emit_def upd_def mild_def no_repair_def sent_def)

lemma mild_kept_effects [mild_kept]:
  "keeps (mild C) (setRealTimer t)" "keeps (mild C) (add_kroute e)"
  "keeps (mild C) (del_kroute e)" "keeps (mild C) (la_reply d v)"
  unfolding setRealTimer_def add_kroute_def del_kroute_def la_reply_def Let_def
  by (intro keeps_intros mild_kept_emit is_datagram.simps notI; simp)+

lemma mild_kept_state [mild_kept]:
  "keeps (mild C) getcurrtime" "keeps (mild C) (findRoute k)" "keeps (mild C) (write_route k f)"
  "keeps (mild C) (addRoute e)" "keeps (mild C) (lr_delete k)"
  "keeps (mild C) (upd (\<lambda>s. s\<lparr>localSeqNum := n\<rparr>))" "keeps (mild C) (fw_rreqL_addToList a i)"
  by (auto intro!: keepsI simp: getcurrtime_def findRoute_def write_route_def addRoute_def lr_delete_def
      fw_rreqL_addToList_def sm_simps mild_def no_repair_def sent_def split: if_splits)

lemma mild_kept_timers [mild_kept]:
  "keeps (mild C) (removeActiveRouteTimer k)" "keeps (mild C) (remove_timer p)"
  by (auto intro!: keepsI dest!: take_timer_set simp: removeActiveRouteTimer_def remove_timer_def setRealTimer_def
      emit_def getcurrtime_def sm_simps Let_def mild_def no_repair_def sent_def split: option.splits if_splits) blast+

lemma mild_kept_set_timer [mild_kept]:
  assumes "td_type d \<noteq> LR_TIMER" shows "keeps (mild C) (set_timer v h d)"
  unfolding set_timer_def
proof (rule keeps_andthen)
  show "keeps (mild C) (timer_add v h d)"
    using assms by (auto intro!: keepsI simp: timer_add_def getcurrtime_def sm_simps mild_def no_repair_def sent_def tq.set_add)
  show "keeps (mild C) (setLowestTimer v)"
    unfolding setLowestTimer_def by (intro keeps_intros mild_kept) (auto intro!: keeps_intros mild_kept split: list.split)
qed

lemma mild_kept_routes [mild_kept]:
  "keeps (mild C) (add_kroute_at k)" "keeps (mild C) (insertRoute e)" "keeps (mild C) (removeRREQTimer k)"
  "keeps (mild C) (findActiveRoute k)" "keeps (mild C) (findValidRoute k n)"
  unfolding add_kroute_at_def insertRoute_def removeRREQTimer_def findActiveRoute_def findValidRoute_def
  by (intro keeps_intros mild_kept)+

lemma mild_kept_neighborUpdate [mild_kept]: "keeps (mild C) (neighborUpdate n src sq t)"
  unfolding neighborUpdate_def neighbor_route_def neighbor_found_def renew_neighbor_timer_def
  by (intro keeps_intros mild_kept) simp

text \<open>The search that a route ends was no repair, so no RERR follows.\<close>

lemma removed_timer: "mild C s \<Longrightarrow> removeRREQTimer d s = Inr (r, s') \<Longrightarrow> r \<noteq> LR_TIMER"
  by (auto dest!: take_timer_set simp: removeRREQTimer_def remove_timer_def setRealTimer_def emit_def getcurrtime_def
      sm_simps Let_def mild_def no_repair_def split: option.splits if_splits)

lemma mild_kept_route_found [mild_kept]: "keeps (mild C) (route_found d)"
  unfolding route_found_def
proof (rule keeps_andthen)
  show "keeps (mild C) (bnd (removeRREQTimer d) (\<lambda>ret'. whenM (ret' = LR_TIMER) (andthen (lr_delete d)
      (bnd (findRoute d) (\<lambda>r. case r of None \<Rightarrow> ret ()
        | Some e \<Rightarrow> whenM (rt_hop_cnt e > rt_last_hop_cnt e) (generateRERR d 1 False))))))" (is "keeps _ ?m")
  proof (rule keepsI)
    fix s x s' assume m: "mild C s" "?m s = Inr (x, s')"
    then obtain r t where "removeRREQTimer d s = Inr (r, t)" "s' = t"
      using removed_timer [OF m(1)] by (auto dest!: bnd_Inr simp: whenM_apply)
    with keepsD [OF mild_kept_routes(3) m(1)] show "mild C s'" by simp
  qed
qed (rule mild_kept)

lemma mild_kept_recvRREQ [mild_kept]: "keeps (mild C) (RREQ_recvRREQ h q)"
  unfolding RREQ_recvRREQ_def consider_RREQ_def answer_or_forward_def reverseRouteUpdate_def black_list_inList_def
  by (intro keeps_intros mild_kept)

lemma no_repair_sending: "keeps no_repair (send_bytes d t bs)"
  by (auto intro!: keepsI simp: send_bytes_def sendPacket_def copyToSendBuf_def emit_def sm_simps no_repair_def split: if_splits)

section \<open>The RREQs seen\<close>

definition seen_more :: "fw_rreq_entry list \<Rightarrow> RREQ \<Rightarrow> fw_rreq_entry list \<Rightarrow> bool" where
  "seen_more l q l' \<longleftrightarrow> (\<forall>a i. fwRreqList_inList l' a i \<longrightarrow>
     fwRreqList_inList l a i \<or> a = rq_src_ip q \<and> i = rq_rreq_id q)"

lemma seen_more_add:
  "seen_more l q m \<Longrightarrow> seen_more l q (fwRreqList_addToList now (rq_src_ip q) (rq_rreq_id q) m)"
  unfolding seen_more_def fw.mem_add [where k = "(_, _)" and k' = "(_, _)", simplified] by blast

lemma seen_kept_recvRREQ:
  "keeps (\<lambda>s. (\<lambda>(b, d, k, l'). seen_more l q l') (rx s)) (RREQ_recvRREQ h q)"
proof -
  have "keeps (\<lambda>s. (\<lambda>(b, d, k, l'). seen_more l q l') (rx s)) (fw_rreqL_addToList (rq_src_ip q) (rq_rreq_id q))"
    using seen_more_add [of l q]
    by (auto intro!: keepsI simp: fw_rreqL_addToList_def getcurrtime_def sm_simps rx_def view_def split: if_splits)
  then show ?thesis
    unfolding RREQ_recvRREQ_def consider_RREQ_def black_list_inList_def
    by (intro keeps_intros rx_kept)
qed

text \<open>Both, for a whole run.\<close>

lemma recvRREQ_quiet:
  assumes "RREQ_recvRREQ h q s = Inr (x, s')"
  shows "seen_more (fw_rreq_list s) q (fw_rreq_list s')" "no_repair s \<Longrightarrow> no_repair s' \<and> sent s' = sent s"
proof -
  show "seen_more (fw_rreq_list s) q (fw_rreq_list s')"
    using keepsD [OF seen_kept_recvRREQ _ assms, of "fw_rreq_list s"] by (simp add: rx_def view_def seen_more_def)
  show "no_repair s' \<and> sent s' = sent s" if "no_repair s"
    using keepsD [OF mild_kept_recvRREQ _ assms, of "\<lambda>l. l = sent s"] that by (simp add: mild_def)
qed

end
