(* ===== verification/Network.thy ===== *)
theory Network
  imports Faults Quiet
begin

text \<open>
  Several AODV daemons. A datagram that one daemon sends is handled by the next: \<open>relay\<close> follows
  one message along a line of nodes. An RREQ that is passed on leaves a route back at every node,
  the RREP that answers it a route forward, with the hop counts of the line.
\<close>

section \<open>From node to node\<close>

text \<open>
  The time to live that the option \<open>IP_TTL\<close> was last set to (64 on a new socket), and the last
  datagram that a handler sent, as its receiver gets it.
\<close>

fun set_ttl :: "effect \<Rightarrow> int \<Rightarrow> int" where
  "set_ttl (SetTTL t) n = t"
| "set_ttl _ n = n"

definition socket_ttl :: "effect list \<Rightarrow> int" where
  "socket_ttl es = fold set_ttl es 64"

definition carried :: "ip \<Rightarrow> int \<Rightarrow> ip \<Rightarrow> u8 list \<Rightarrow> received" where
  "carried src ttl dst bytes = Datagram src bytes (Some [Cmsg_TTL ttl, Cmsg_Pktinfo dst]) 0"

definition dispatched :: "node \<Rightarrow> node \<Rightarrow> received option" where
  "dispatched s s' =
     (case dropWhile (\<lambda>e. \<not> is_datagram e) (rev (drop (length (outs s)) (outs s'))) of
        Sendto dst bytes # es \<Rightarrow> Some (carried (g_my_ip s') (socket_ttl (outs s')) dst bytes)
      | _ \<Rightarrow> None)"

text \<open>A node gets what is broadcast and what is sent to its own address.\<close>

fun addressed :: "received \<Rightarrow> node \<Rightarrow> bool" where
  "addressed (Datagram src bytes (Some [Cmsg_TTL ttl, Cmsg_Pktinfo dst]) j) s
     \<longleftrightarrow> dst = BROADCAST_ADDR \<or> dst = g_my_ip s"
| "addressed _ s \<longleftrightarrow> False"

fun relay :: "received option \<Rightarrow> node list \<Rightarrow> fault + received option \<times> node list" where
  "relay d [] = Inr (d, [])"
| "relay None (s # ss) = Inr (None, s # ss)"
| "relay (Some d) (s # ss) =
     (if addressed d s then
        (case process_aodv d s of
           Inl f \<Rightarrow> Inl f
         | Inr (_, s') \<Rightarrow>
             (case relay (dispatched s s') ss of
                Inl f \<Rightarrow> Inl f
              | Inr (d', ss') \<Rightarrow> Inr (d', s' # ss')))
      else Inr (None, s # ss))"

lemma addressed_carried [simp]:
  "addressed (carried src ttl dst bytes) s \<longleftrightarrow> dst = BROADCAST_ADDR \<or> dst = g_my_ip s"
  by (simp add: carried_def)

lemma relay_append:
  "relay d ss = Inr (d', ss') \<Longrightarrow> relay d' ts = Inr (d'', ts') \<Longrightarrow> relay d (ss @ ts) = Inr (d'', ss' @ ts')"
proof (induction d ss arbitrary: d' ss' rule: relay.induct)
  case (2 s ss)
  then show ?case by (cases ts) auto
next
  case (3 d s ss)
  then show ?case by (cases ts) (auto split: sum.splits if_splits prod.splits)
qed auto

lemma relay_length: "relay d ss = Inr (d', ss') \<Longrightarrow> length ss' = length ss"
  by (induction d ss arbitrary: d' ss' rule: relay.induct) (auto split: sum.splits if_splits prod.splits)

section \<open>Nodes that take part\<close>

text \<open>
  A daemon after its reboot phase that cannot fault, whose clock shows a time within two and a
  half seconds of \<open>T\<close> from now on.
\<close>

definition calm :: "nat \<Rightarrow> node \<Rightarrow> bool" where
  "calm T s \<longleftrightarrow> T < 2 ^ 62 \<and> (\<forall>k \<ge> ticks s. T \<le> unat (clock (env s) k) \<and> unat (clock (env s) k) < T + 2500)"

definition fit :: "nat \<Rightarrow> node \<Rightarrow> bool" where
  "fit T s \<longleftrightarrow> safe_wf s \<and> \<not> duringReboot s \<and> calm T s"

interpretation fits: closed_under "prim r" "fit T" for r T
proof unfold_locales
  fix s t assume p: "prim r s t" and f: "fit T s"
  have "safe_wf t" using p f safe.closed table.closed by (auto simp: fit_def safe_wf_def)
  moreover have "\<not> duringReboot t" "ticks s \<le> ticks t" using p f by (cases; simp add: fit_def)+
  moreover have "env t = env s" using config_fields [OF conf.closed [OF p refl]] by simp
  ultimately show "fit T t" using f by (auto simp: fit_def calm_def)
qed

text \<open>Outputs are only added.\<close>

definition since :: "node \<Rightarrow> node \<Rightarrow> bool" where
  "since s t \<longleftrightarrow> (\<exists>es. outs t = outs s @ es)"

lemma since_refl [simp]: "since s s"
  by (simp add: since_def)

lemma since_trans [trans]: "since s t \<Longrightarrow> since t u \<Longrightarrow> since s u"
  by (auto simp: since_def)

interpretation grows: closed_under "prim r" "since s" for r s
  by unfold_locales (erule prim.cases; auto simp: since_def)

lemma fit_keeps:
  assumes "via (prim r) P m" "P s" "m s = Inr (x, s')" "fit T s"
  shows "fit T s'" "config s' = config s" "since s s'"
  using fits.via_keeps [OF assms(1,2,4,3)] conf.via_keeps [OF assms(1,2) refl assms(3)]
    grows.via_keeps [OF assms(1,2) since_refl assms(3)] by simp_all

lemma fit_runs:
  assumes "via (prim r) always m" "runs safe_wf m" "fit T s"
  obtains x s' where "m s = Inr (x, s')" "fit T s'" "config s' = config s" "since s s'"
proof -
  from assms(3) have "safe_wf s" by (simp add: fit_def)
  from runsD [OF assms(2) this] obtain x s' where m: "m s = Inr (x, s')" by blast
  from that [OF m fit_keeps [OF assms(1) TrueI m assms(3)]] show ?thesis .
qed

lemma since_last: "since s t \<Longrightarrow> outs u = outs t @ es @ [Sendto dst bytes] \<Longrightarrow>
  dispatched s u = Some (carried (g_my_ip u) (socket_ttl (outs u)) dst bytes)"
  by (auto simp: since_def dispatched_def)

lemma undispatched: "since s t \<Longrightarrow> sent t = sent s \<Longrightarrow> dispatched s t = None"
  by (auto simp: since_def dispatched_def sent_def filter_empty_conv dropWhile_eq_Nil_conv split: list.split effect.split)
    (metis dropWhile_eq_Nil_conv list.distinct(1) set_rev)

text \<open>What sending does: a time to live out of range leaves the option as it is.\<close>

lemma send_bytes_outs:
  assumes "send_bytes dst ttl bs s = Inr (x, s')" "ttl \<noteq> 0"
  shows "outs s' = outs s @ (if 0 < ttl \<and> ttl < 256 then [SetTTL ttl] else []) @ [Sendto dst bs]"
    "rTableMap s' = rTableMap s"
  using assms
  by (auto simp: send_bytes_def sendPacket_def copyToSendBuf_def genSndData_def emit_def sm_simps
      read_write_buf split: if_splits)

section \<open>Routes\<close>

text \<open>
  At \<open>s\<close> an active route to \<open>dst\<close> leads over \<open>nhop\<close>, \<open>k\<close> hops away, and lives on.
\<close>

definition leads :: "nat \<Rightarrow> ip \<Rightarrow> ip \<Rightarrow> nat \<Rightarrow> node \<Rightarrow> bool" where
  "leads T dst nhop k s \<longleftrightarrow> (\<exists>e. map_of (rTableMap s) dst = Some e \<and> rt_next_hop e = nhop
     \<and> unat (rt_hop_cnt e) = k \<and> rt_routing_flags e = ACTIVE_ROUTE \<and> T + 2500 \<le> unat (rt_lifetime e))"

text \<open>News about a route to \<open>dst\<close> that the node takes in.\<close>

definition is_news :: "ip \<Rightarrow> u32 \<Rightarrow> u8 \<Rightarrow> (ip \<rightharpoonup> rtable_entry) \<Rightarrow> bool" where
  "is_news dst seq hops m \<longleftrightarrow>
     (case m dst of None \<Rightarrow> True | Some e \<Rightarrow> rt_routing_flags e = ACTIVE_ROUTE \<longrightarrow> newer seq hops e)"

lemma unat_later:
  fixes c :: u64
  assumes "unat c < T + 2500" "T < 2 ^ 62" "n \<le> 1000000"
  shows "unat (c + of_nat n) = unat c + n"
  using assms by (simp add: unat_word_ariths unat_of_nat)

lemma hop_Suc: "unat (h :: u8) < 255 \<Longrightarrow> unat (h + 1) = Suc (unat h)"
  by (simp add: unat_word_ariths)

lemma minLifeTime_later:
  assumes "unat c < T + 2500" "T \<le> unat c" "T < 2 ^ 62" "hops \<le> 40"
  shows "T + 2500 \<le> unat (minLifeTime c hops)"
proof -
  have "minLifeTime c hops = c + of_nat (52500 - 1000 * hops)"
    using assms(4) by (simp add: minLifeTime_def period_values of_nat_diff)
  with unat_later [OF assms(1,3), of "52500 - 1000 * hops"] assms(2,4) show ?thesis by simp
qed

lemma leads_meet:
  assumes "calm T s" "ticks s \<le> k" "map_of (rTableMap t) = meet n seq (clock (env s) k + 4000) m"
  shows "leads T n n 1 t"
proof -
  from assms(1,2) have c: "unat (clock (env s) k) < T + 2500" "T \<le> unat (clock (env s) k)" "T < 2 ^ 62"
    by (simp_all add: calm_def)
  from unat_later [OF c(1,3), of 4000] c(2) assms(3) show ?thesis
    by (auto simp: leads_def meet_def createEntry_def set_route_def split: option.split)
qed

text \<open>The sequence number of an entry.\<close>

definition numbered :: "ip \<Rightarrow> u32 \<Rightarrow> node \<Rightarrow> bool" where
  "numbered dst n s \<longleftrightarrow> map_option rt_dest_seq_num (map_of (rTableMap s) dst) = Some n"

lemma meet_number: "map_option rt_dest_seq_num (meet n seq life m n) = Some seq"
  by (simp add: meet_def createEntry_def set_route_def split: option.split)

lemma learn_news:
  assumes "is_news dst seq hops m" "unat hops < 255"
  shows "\<exists>e. learn dst seq nhop hops life m dst = Some e \<and> rt_next_hop e = nhop \<and> rt_dest_seq_num e = seq
    \<and> unat (rt_hop_cnt e) = Suc (unat hops) \<and> rt_routing_flags e = ACTIVE_ROUTE \<and> rt_lifetime e = life (m dst)"
  using assms by (auto simp: learn_def is_news_def hop_Suc split: option.splits)

lemma learn_other: "k \<noteq> dst \<Longrightarrow> learn dst seq nhop hops life m k = m k"
  by (auto simp: learn_def split: option.split)

lemma meet_other: "k \<noteq> n \<Longrightarrow> meet n seq life m k = m k"
  by (simp add: meet_def)

section \<open>An RREQ at a node\<close>

lemma rreq_arrives:
  assumes "rq_type q = AODV_RREQ" "h \<noteq> g_my_ip s"
  shows "process_aodv (carried h ttl to (RREQ_bytes q)) s =
    processRREQ \<lparr>ad_src_ip = h, ad_dest_ip = to, ad_ttl = ttl - 1\<rparr>
      (s\<lparr>recvBuffer := write_buf (RREQ_bytes q) (recvBuffer s)\<rparr>)"
proof -
  have first: "write_buf (RREQ_bytes q) (recvBuffer s) 0 = AODV_RREQ"
    using assms(1) by (simp add: write_buf_def RREQ_bytes_def)
  with assms(2) show ?thesis
    by (simp add: process_aodv_def carried_def readFromSock_def processRecvMsg_def sm_simps Let_def
        numeral_2_eq_2 AODVBUFSIZE_def length_RREQ_bytes)
qed

lemma recvBuffer_update [simp]:
  "fit T (s\<lparr>recvBuffer := b\<rparr>) = fit T s" "config (s\<lparr>recvBuffer := b\<rparr>) = config s"
  "since s0 (s\<lparr>recvBuffer := b\<rparr>) = since s0 s" "known_rreq q (s\<lparr>recvBuffer := b\<rparr>) = known_rreq q s"
  by (simp_all add: fit_def safe_wf_def safe_def ack_free_def calm_def config_def since_def known_rreq_def)

lemma fit_tock: "fit T s \<Longrightarrow> fit T (tock s)" "config (tock s) = config s" "since s0 (tock s) = since s0 s"
  by (simp_all add: fit_def safe_wf_def safe_def ack_free_def calm_def config_def since_def tock_def)

text \<open>
  The first half: the routes to the neighbour that the RREQ comes from and to its originator.
\<close>

lemma recv_rreq_routes:
  assumes fit: "fit T s" and new: "\<not> known_rreq q s" "rq_src_ip q \<noteq> g_my_ip s"
    and news: "rq_src_ip q = h \<longrightarrow> rq_hop_cnt q = 0"
      "rq_src_ip q \<noteq> h \<longrightarrow> is_news (rq_src_ip q) (rq_src_seq_num q) (rq_hop_cnt q) (map_of (rTableMap s))"
    and hops: "unat (rq_hop_cnt q) < 35"
  shows "\<exists>t. RREQ_recvRREQ h q s = answer_or_forward q t \<and> fit T t \<and> config t = config s \<and> since s t
    \<and> leads T (rq_src_ip q) h (Suc (unat (rq_hop_cnt q))) t
    \<and> numbered (rq_src_ip q) (rq_src_seq_num q) t \<and> (\<forall>k. k \<noteq> h \<longrightarrow> k \<noteq> rq_src_ip q \<longrightarrow> map_of (rTableMap t) k = map_of (rTableMap s) k)"
proof -
  let ?seq = "if rq_src_ip q = h then rq_src_seq_num q else 0"
  let ?life = "clock (env s) (ticks s) + 4000"
  from fit have "blacklist_inList (bList s) h = Some False" "safe_wf (tock s)" "rt_wf (rTableMap (tock s))"
    using fit_tock(1) [OF fit] by (auto simp: fit_def safe_wf_def safe_def ack_free_def blacklist_inList_eq)
  note black = this
  obtain y t where t: "neighbor_of_RREQ h q s (tock s) = Inr (y, t)" "fit T t" "config t = config (tock s)"
      "since (tock s) t"
    by (rule fit_runs [OF via_neighborUpdate runs_neighborUpdate fit_tock(1) [OF fit]])
      (auto simp: neighbor_of_RREQ_def)
  have tab: "map_of (rTableMap t) = meet h ?seq ?life (map_of (rTableMap s))"
    using neighbor_meets [OF black(3) t(1) [unfolded neighbor_of_RREQ_def]] by (simp add: tock_def)
  have vt: "view t = view s"
    using view_same [OF view_kept_neighborUpdate t(1) [unfolded neighbor_of_RREQ_def]] by simp
  have unknown: "\<not> known_rreq q t" using new(1) view_fields [OF vt] by (simp add: known_rreq_def)
  have cst: "config t = config s" "since s t" using t(3,4) by (simp_all add: fit_tock(2)) (simp add: since_def tock_def)
  have recv: "RREQ_recvRREQ h q s = consider_RREQ h q t"
    using black(1) new(2) t(1) by (simp add: recvRREQ_run andthen_apply)
  obtain z t1 where t1: "fw_rreqL_addToList (rq_src_ip q) (rq_rreq_id q) t = Inr (z, t1)" "fit T t1"
      "config t1 = config t" "since t t1"
    by (rule fit_runs [OF via_fw_rreqL_addToList runs_fw_add t(2)])
  have tab1: "rTableMap t1 = rTableMap t"
    using t1(1) by (auto simp: fw_rreqL_addToList_def getcurrtime_def sm_simps split: if_splits)
  have cons: "consider_RREQ h q t = andthen (whenM (rq_src_ip q \<noteq> h) (reverseRouteUpdate h q)) (answer_or_forward q) t1"
    using unknown t1(1) by (simp add: consider_RREQ_def known_rreq_def gets_apply bnd_apply andthen_apply [of "fw_rreqL_addToList _ _"])
  have calm: "calm T s" "calm T t1" using fit t1(2) by (simp_all add: fit_def)
  show ?thesis
  proof (cases "rq_src_ip q = h")
    case True
    with news(1) leads_meet [OF calm(1) order_refl, of t1 h ?seq "map_of (rTableMap s)"] tab tab1
    have "leads T (rq_src_ip q) h (Suc (unat (rq_hop_cnt q))) t1" by simp
    moreover have "numbered (rq_src_ip q) (rq_src_seq_num q) t1" using True tab tab1 by (simp add: numbered_def meet_number)
    moreover from cons True recv have "RREQ_recvRREQ h q s = answer_or_forward q t1"
      by (simp add: andthen_apply whenM_apply)
    moreover have "map_of (rTableMap t1) k = map_of (rTableMap s) k" if "k \<noteq> h" for k
      using tab tab1 meet_other [OF that] by simp
    moreover have "config t1 = config s" "since s t1" using t1(3) cst(1) since_trans [OF cst(2) t1(4)] by simp_all
    ultimately show ?thesis using t1(2) by blast
  next
    case False
    obtain w t2 where t2: "reverseRouteUpdate h q t1 = Inr (w, t2)" "fit T t2" "config t2 = config t1" "since t1 t2"
      by (rule fit_runs [OF via_reverse handler_leaf(2) t1(2)])
    have "om_ok (rTableMap t1)" using t1(2) by (simp add: fit_def safe_wf_def rt_wf_def)
    from rebootReverse_learns [OF this, of h q] reverse_same_table [OF t2(1)]
    have tab2: "map_of (rTableMap t2) = learn (rq_src_ip q) (rq_src_seq_num q) h (rq_hop_cnt q)
        (reverse_life (clock (env t1) (ticks t1)) (rq_hop_cnt q)) (map_of (rTableMap t1))"
      by auto
    have src: "map_of (rTableMap t1) (rq_src_ip q) = map_of (rTableMap s) (rq_src_ip q)"
      using tab tab1 meet_other [OF False] by simp
    then have "is_news (rq_src_ip q) (rq_src_seq_num q) (rq_hop_cnt q) (map_of (rTableMap t1))"
      using news(2) False by (simp add: is_news_def)
    from learn_news [OF this, of h "reverse_life (clock (env t1) (ticks t1)) (rq_hop_cnt q)"] hops obtain e where
      e: "map_of (rTableMap t2) (rq_src_ip q) = Some e" "rt_next_hop e = h" "rt_routing_flags e = ACTIVE_ROUTE"
        "rt_dest_seq_num e = rq_src_seq_num q" "unat (rt_hop_cnt e) = Suc (unat (rq_hop_cnt q))"
        "rt_lifetime e = reverse_life (clock (env t1) (ticks t1)) (rq_hop_cnt q) (map_of (rTableMap t1) (rq_src_ip q))"
      unfolding tab2 by auto
    have "T + 2500 \<le> unat (minLifeTime (clock (env t1) (ticks t1)) (Suc (unat (rq_hop_cnt q))))"
      using calm(2) hops by (intro minLifeTime_later [where T = T]) (auto simp: calm_def)
    then have "T + 2500 \<le> unat (rt_lifetime e)"
      using hops unfolding e(6)
      by (auto simp: reverse_life_def hop_Suc max_def word_le_nat_alt split: option.split)
    with e have "leads T (rq_src_ip q) h (Suc (unat (rq_hop_cnt q))) t2" "numbered (rq_src_ip q) (rq_src_seq_num q) t2"
      by (auto simp: leads_def numbered_def)
    moreover from cons False recv t2(1) have "RREQ_recvRREQ h q s = answer_or_forward q t2"
      by (simp add: andthen_apply whenM_apply)
    moreover have "map_of (rTableMap t2) k = map_of (rTableMap s) k" if "k \<noteq> h" "k \<noteq> rq_src_ip q" for k
      using learn_other [OF that(2)] meet_other [OF that(1)] tab tab1 tab2 by simp
    moreover have "config t2 = config s" "since s t2"
      using t1(3) t2(3) cst(1) since_trans [OF since_trans [OF cst(2) t1(4)] t2(4)] by simp_all
    ultimately show ?thesis using t2(2) by blast
  qed
qed

text \<open>An RREQ as the daemon makes it: the bits it does not use are clear.\<close>

definition plain_RREQ :: "RREQ \<Rightarrow> bool" where
  "plain_RREQ q \<longleftrightarrow> rq_type q = AODV_RREQ \<and> RREQ_copy q = q"

definition plain_RREP :: "RREP \<Rightarrow> bool" where
  "plain_RREP p \<longleftrightarrow> rp_type p = AODV_RREP \<and> RREP_copy p = p \<and> \<not> rp_A p \<and> rp_lifetime p = 30000"

text \<open>What an RREQ needs of a node to be taken in there.\<close>

definition takes :: "nat \<Rightarrow> ip \<Rightarrow> RREQ \<Rightarrow> node \<Rightarrow> bool" where
  "takes T h q s \<longleftrightarrow> fit T s \<and> \<not> known_rreq q s \<and> g_my_ip s \<noteq> h \<and> rq_src_ip q \<noteq> g_my_ip s
     \<and> (rq_src_ip q = h \<longrightarrow> rq_hop_cnt q = 0)
     \<and> (rq_src_ip q \<noteq> h \<longrightarrow> is_news (rq_src_ip q) (rq_src_seq_num q) (rq_hop_cnt q) (map_of (rTableMap s)))"

text \<open>
  What a node keeps of it: the originator's sequence number, the RREQ's identifier, and no local
  repair.
\<close>

definition took :: "RREQ \<Rightarrow> node \<Rightarrow> node \<Rightarrow> bool" where
  "took q s s' \<longleftrightarrow> numbered (rq_src_ip q) (rq_src_seq_num q) s'
     \<and> seen_more (fw_rreq_list s) q (fw_rreq_list s') \<and> (no_repair s \<longrightarrow> no_repair s')"

lemma took_run:
  assumes "RREQ_recvRREQ h q (s\<lparr>recvBuffer := b\<rparr>) = Inr (x, s')" "numbered (rq_src_ip q) (rq_src_seq_num q) s'"
  shows "took q s s'" "no_repair s \<Longrightarrow> sent s' = sent s"
  using recvRREQ_quiet [OF assms(1)] assms(2) by (simp_all add: took_def no_repair_def sent_def)

lemma takes_run:
  assumes "takes T h q s" "plain_RREQ q" "unat (rq_hop_cnt q) < 35"
  obtains t where "process_aodv (carried h ttl to (RREQ_bytes q)) s =
        bnd (answer_or_forward q) (act_on_RREQ \<lparr>ad_src_ip = h, ad_dest_ip = to, ad_ttl = ttl - 1\<rparr> q) t"
      "fit T t" "config t = config s" "since s t"
      "leads T (rq_src_ip q) h (Suc (unat (rq_hop_cnt q))) t" "numbered (rq_src_ip q) (rq_src_seq_num q) t"
      "\<forall>k. k \<noteq> h \<longrightarrow> k \<noteq> rq_src_ip q \<longrightarrow> map_of (rTableMap t) k = map_of (rTableMap s) k"
      "RREQ_recvRREQ h q (s\<lparr>recvBuffer := write_buf (RREQ_bytes q) (recvBuffer s)\<rparr>) = answer_or_forward q t"
proof -
  let ?s = "s\<lparr>recvBuffer := write_buf (RREQ_bytes q) (recvBuffer s)\<rparr>"
  have s: "fit T ?s" "\<not> known_rreq q ?s" "rq_src_ip q \<noteq> g_my_ip ?s" "rq_src_ip q = h \<longrightarrow> rq_hop_cnt q = 0"
    "rq_src_ip q \<noteq> h \<longrightarrow> is_news (rq_src_ip q) (rq_src_seq_num q) (rq_hop_cnt q) (map_of (rTableMap ?s))"
    and h: "h \<noteq> g_my_ip s"
    using assms(1) by (auto simp: takes_def)
  from recv_rreq_routes [OF s assms(3)] obtain t where
    t: "RREQ_recvRREQ h q ?s = answer_or_forward q t" "fit T t" "config t = config s" "since s t"
      "leads T (rq_src_ip q) h (Suc (unat (rq_hop_cnt q))) t" "numbered (rq_src_ip q) (rq_src_seq_num q) t"
      "\<forall>k. k \<noteq> h \<longrightarrow> k \<noteq> rq_src_ip q \<longrightarrow> map_of (rTableMap t) k = map_of (rTableMap s) k"
    by (auto simp: since_def)
  have boot: "\<not> duringReboot ?s" using s(1) by (simp add: fit_def)
  have q: "rq_type q = AODV_RREQ" "RREQ_copy q = q" using assms(2) by (simp_all add: plain_RREQ_def)
  have at: "RREQ_at (recvBuffer ?s) = q" by (simp add: rreq.dec_enc)
  have "process_aodv (carried h ttl to (RREQ_bytes q)) s =
      bnd (RREQ_recvRREQ h q) (act_on_RREQ \<lparr>ad_src_ip = h, ad_dest_ip = to, ad_ttl = ttl - 1\<rparr> q) ?s"
    using rreq_arrives [OF q(1) h] processRREQ_run [OF boot] by (simp only: at q(2) aodvData.simps)
  then show ?thesis using that [OF _ t(2-) t(1)] t(1) by (simp add: bnd_apply)
qed

text \<open>A node without a route to the destination passes the RREQ on.\<close>

lemma forward_request:
  assumes "takes T h q s" "plain_RREQ q" "unat (rq_hop_cnt q) < 35"
    and dst: "rq_dest_ip q \<noteq> g_my_ip s" "rq_dest_ip q \<noteq> h" "rq_dest_ip q \<noteq> rq_src_ip q"
      "map_of (rTableMap s) (rq_dest_ip q) = None"
    and ttl: "1 < ttl" "ttl \<le> 256"
  shows "\<exists>s'. process_aodv (carried h ttl to (RREQ_bytes q)) s = Inr ((), s') \<and> fit T s' \<and> config s' = config s
    \<and> leads T (rq_src_ip q) h (Suc (unat (rq_hop_cnt q))) s' \<and> map_of (rTableMap s') (rq_dest_ip q) = None
    \<and> took q s s' \<and> dispatched s s' = Some (carried (g_my_ip s) (ttl - 1) BROADCAST_ADDR
        (RREQ_bytes (q\<lparr>rq_hop_cnt := rq_hop_cnt q + 1\<rparr>)))"
proof -
  let ?q = "q\<lparr>rq_hop_cnt := rq_hop_cnt q + 1\<rparr>"
  from takes_run [OF assms(1-3)] obtain t where
    t: "process_aodv (carried h ttl to (RREQ_bytes q)) s =
        bnd (answer_or_forward q) (act_on_RREQ \<lparr>ad_src_ip = h, ad_dest_ip = to, ad_ttl = ttl - 1\<rparr> q) t"
      "fit T t" "config t = config s" "since s t" "leads T (rq_src_ip q) h (Suc (unat (rq_hop_cnt q))) t"
      "numbered (rq_src_ip q) (rq_src_seq_num q) t"
      "\<forall>k. k \<noteq> h \<longrightarrow> k \<noteq> rq_src_ip q \<longrightarrow> map_of (rTableMap t) k = map_of (rTableMap s) k"
      "RREQ_recvRREQ h q (s\<lparr>recvBuffer := write_buf (RREQ_bytes q) (recvBuffer s)\<rparr>) = answer_or_forward q t"
    by blast
  have none: "map_of (rTableMap t) (rq_dest_ip q) = None" using t(7) dst by simp
  have ip: "g_my_ip t = g_my_ip s" using config_fields [OF t(3)] by simp
  obtain res q' u where u: "answer_or_forward q t = Inr ((res, q'), u)" using answer_or_forward_returns by blast
  from answer_or_forward_cases [OF u] dst ip none
  have u': "rTableMap u = rTableMap t" "res = FWD_RREQ" "q' = ?q" by auto
  note uk = fit_keeps [OF via_answer_or_forward [of 0 always] TrueI u t(2)]
  obtain x s' where s': "send_bytes BROADCAST_ADDR (ttl - 1) (RREQ_bytes ?q) u = Inr (x, s')" "fit T s'"
      "config s' = config u" "since u s'"
    by (rule fit_runs [OF via_send_msg(1) handler_leaf(14) uk(1)])
  note so = send_bytes_outs [OF s'(1)]
  have "outs s' = outs u @ [SetTTL (ttl - 1)] @ [Sendto BROADCAST_ADDR (RREQ_bytes ?q)]"
    using so(1) ttl by simp
  from since_last [OF since_trans [OF t(4) uk(3)] this]
  have "dispatched s s' = Some (carried (g_my_ip s) (ttl - 1) BROADCAST_ADDR (RREQ_bytes ?q))"
    using so(1) ttl ip config_fields [OF s'(3)] config_fields [OF uk(2)] by (simp add: socket_ttl_def)
  moreover have "process_aodv (carried h ttl to (RREQ_bytes q)) s = Inr ((), s')"
    using t(1) u u' s'(1) ttl by (simp add: bnd_apply act_on_RREQ_def whenM_apply)
  moreover have "leads T (rq_src_ip q) h (Suc (unat (rq_hop_cnt q))) s'" "map_of (rTableMap s') (rq_dest_ip q) = None"
    using t(5) none u'(1) so(2) ttl by (simp_all add: leads_def)
  moreover have "took q s s'"
  proof -
    have "numbered (rq_src_ip q) (rq_src_seq_num q) u" using t(6) u'(1) by (simp add: numbered_def)
    from took_run(1) [OF t(8) [unfolded u] this] have "took q s u" .
    moreover have "fw_rreq_list s' = fw_rreq_list u"
      using keeps_unchanged [OF rx_kept_send [of "\<lambda>r. r = _"] s'(1)] by (simp add: rx_def view_def)
    moreover have "no_repair u \<Longrightarrow> no_repair s'" by (rule keepsD [OF no_repair_sending _ s'(1)])
    ultimately show ?thesis using so(2) ttl by (simp add: took_def numbered_def)
  qed
  ultimately show ?thesis using s' uk t(3) by auto
qed

text \<open>The last node that the time to live lets it reach sends nothing.\<close>

lemma last_request:
  assumes "takes T h q s" "plain_RREQ q" "unat (rq_hop_cnt q) < 35" "no_repair s"
    and dst: "rq_dest_ip q \<noteq> g_my_ip s" "rq_dest_ip q \<noteq> h" "rq_dest_ip q \<noteq> rq_src_ip q"
      "map_of (rTableMap s) (rq_dest_ip q) = None"
    and ttl: "ttl \<le> 1"
  shows "\<exists>s'. process_aodv (carried h ttl to (RREQ_bytes q)) s = Inr ((), s') \<and> fit T s' \<and> config s' = config s
    \<and> map_of (rTableMap s') (rq_dest_ip q) = None \<and> took q s s' \<and> dispatched s s' = None"
proof -
  from takes_run [OF assms(1-3)] obtain t where
    t: "process_aodv (carried h ttl to (RREQ_bytes q)) s =
        bnd (answer_or_forward q) (act_on_RREQ \<lparr>ad_src_ip = h, ad_dest_ip = to, ad_ttl = ttl - 1\<rparr> q) t"
      "fit T t" "config t = config s" "since s t" "numbered (rq_src_ip q) (rq_src_seq_num q) t"
      "\<forall>k. k \<noteq> h \<longrightarrow> k \<noteq> rq_src_ip q \<longrightarrow> map_of (rTableMap t) k = map_of (rTableMap s) k"
      "RREQ_recvRREQ h q (s\<lparr>recvBuffer := write_buf (RREQ_bytes q) (recvBuffer s)\<rparr>) = answer_or_forward q t"
    by blast
  have none: "map_of (rTableMap t) (rq_dest_ip q) = None" using t(6) dst by simp
  have ip: "g_my_ip t = g_my_ip s" using config_fields [OF t(3)] by simp
  obtain res q' u where u: "answer_or_forward q t = Inr ((res, q'), u)" using answer_or_forward_returns by blast
  from answer_or_forward_cases [OF u] dst ip none have u': "rTableMap u = rTableMap t" "res = FWD_RREQ" by auto
  note uk = fit_keeps [OF via_answer_or_forward [of 0 always] TrueI u t(2)]
  have "numbered (rq_src_ip q) (rq_src_seq_num q) u" using t(5) u'(1) by (simp add: numbered_def)
  note tr = took_run [OF t(7) [unfolded u] this]
  have "dispatched s u = None"
    by (rule undispatched [OF since_trans [OF t(4) uk(3)] tr(2) [OF assms(4)]])
  moreover have "process_aodv (carried h ttl to (RREQ_bytes q)) s = Inr ((), u)"
    using t(1) u u' ttl by (simp add: bnd_apply act_on_RREQ_def whenM_apply)
  ultimately show ?thesis using uk t(3) none u'(1) tr(1) by auto
qed

section \<open>An RREP on its way back\<close>

lemma leads_active: "calm T s \<Longrightarrow> leads T dst g k s \<Longrightarrow> active_at dst s"
  unfolding calm_def leads_def active_at_def word_less_nat_alt by fastforce

text \<open>The route over which an RREP is sent is found, and lives on.\<close>

lemma next_hop_run:
  assumes "fit T s" "leads T dst g k s"
  shows "\<exists>s'. get_next_hop dst s = Inr (g, s') \<and> outs s' = outs s
    \<and> leads T dst g k s' \<and> (\<forall>d. d \<noteq> dst \<longrightarrow> map_of (rTableMap s') d = map_of (rTableMap s) d)"
proof -
  have calm: "calm T s" using assms(1) by (simp add: fit_def)
  from assms(2) obtain e where e: "map_of (rTableMap s) dst = Some e" "rt_next_hop e = g" "unat (rt_hop_cnt e) = k"
    "rt_routing_flags e = ACTIVE_ROUTE" "T + 2500 \<le> unat (rt_lifetime e)" by (auto simp: leads_def)
  let ?c = "clock (env s) (Suc (Suc (ticks s)))"
  have "unat ?c < T + 2500" "T \<le> unat ?c" "T < 2 ^ 62" using calm by (simp_all add: calm_def)
  with unat_later [of ?c T 3000] have "T + 2500 \<le> unat (?c + 3000)" by simp
  with e leads_active [OF calm assms(2)] show ?thesis
    by (auto simp: get_next_hop_def setLifeTime_def findActiveRoute_run tock_def getcurrtime_def write_route_def sm_simps
        map_of_om_modify leads_def)
qed

lemma send_reply:
  assumes "fit T s" "leads T dst g k s" "g \<noteq> 0" "\<not> rp_A p"
  shows "\<exists>s'. send_RREP dst p s = Inr ((), s') \<and> fit T s' \<and> config s' = config s
    \<and> outs s' = outs s @ [Sendto g (RREP_bytes p)] \<and> leads T dst g k s'
    \<and> (\<forall>d. d \<noteq> dst \<longrightarrow> map_of (rTableMap s') d = map_of (rTableMap s) d)"
proof -
  from next_hop_run [OF assms(1,2)] obtain t where t: "get_next_hop dst s = Inr (g, t)" "outs t = outs s"
    "leads T dst g k t" "\<forall>d. d \<noteq> dst \<longrightarrow> map_of (rTableMap t) d = map_of (rTableMap s) d" by blast
  note tk = fit_keeps [OF via_get_next_hop [of 0 always] TrueI t(1) assms(1)]
  obtain x s' where s': "send_bytes g (- 1) (RREP_bytes p) t = Inr (x, s')" "fit T s'" "config s' = config t" "since t s'"
    by (rule fit_runs [OF via_send_msg(2) handler_leaf(15) tk(1)])
  note so = send_bytes_outs [OF s'(1)]
  from t(1) s'(1) assms(3,4) have "send_RREP dst p s = Inr ((), s')"
    by (simp add: send_RREP_def set_ack_timer_def bnd_apply andthen_apply whenM_apply)
  with so t s' tk show ?thesis by (auto simp: leads_def)
qed

text \<open>At the destination: an RREP starts back with no hops.\<close>

lemma answer_request:
  assumes "takes T h q s" "plain_RREQ q" "unat (rq_hop_cnt q) < 35"
    and dst: "rq_dest_ip q = g_my_ip s" "h \<noteq> 0"
  shows "\<exists>s' n. process_aodv (carried h ttl to (RREQ_bytes q)) s = Inr ((), s') \<and> fit T s' \<and> config s' = config s
    \<and> leads T (rq_src_ip q) h (Suc (unat (rq_hop_cnt q))) s'
    \<and> dispatched s s' = Some (carried (g_my_ip s) (socket_ttl (outs s')) h
        (RREP_bytes (RREP_new (g_my_ip s) n (rq_src_ip q) 0 30000)))"
proof -
  from takes_run [OF assms(1-3)] obtain t where
    t: "process_aodv (carried h ttl to (RREQ_bytes q)) s =
        bnd (answer_or_forward q) (act_on_RREQ \<lparr>ad_src_ip = h, ad_dest_ip = to, ad_ttl = ttl - 1\<rparr> q) t"
      "fit T t" "config t = config s" "since s t" "leads T (rq_src_ip q) h (Suc (unat (rq_hop_cnt q))) t"
    by blast
  have ip: "g_my_ip t = g_my_ip s" using config_fields [OF t(3)] by simp
  obtain res q' u where u: "answer_or_forward q t = Inr ((res, q'), u)" using answer_or_forward_returns by blast
  from answer_or_forward_cases [OF u] dst ip
  have u': "rTableMap u = rTableMap t" "res = GEN_RREP" "q' = q" by auto
  note uk = fit_keeps [OF via_answer_or_forward [of 0 always] TrueI u t(2)]
  have ipu: "g_my_ip u = g_my_ip s" "\<not> rrepAckFlag u"
    using config_fields [OF uk(2)] ip uk(1) by (simp_all add: fit_def safe_wf_def safe_def ack_free_def)
  let ?p = "RREP_new (g_my_ip s) (localSeqNum u) (rq_src_ip q) 0 30000"
  have created: "RREP_createRREP h q junk u = Inr (?p, u)" for junk
    using dst(1) ipu by (simp add: RREP_createRREP_def sm_simps RREP_header_def RREP_new_def Let_def period_values)
  have "leads T (rq_src_ip q) h (Suc (unat (rq_hop_cnt q))) u" using t(5) u'(1) by (simp add: leads_def)
  from send_reply [OF uk(1) this dst(2), of ?p] obtain s' where
    s': "send_RREP (rq_src_ip q) ?p u = Inr ((), s')" "fit T s'" "config s' = config u"
      "outs s' = outs u @ [Sendto h (RREP_bytes ?p)]" "leads T (rq_src_ip q) h (Suc (unat (rq_hop_cnt q))) s'"
    by (auto simp: RREP_new_def)
  have same: "g_my_ip s' = g_my_ip s" "config s' = config s" using config_fields [OF s'(3)] ipu s'(3) uk(2) t(3) by simp_all
  have "process_aodv (carried h ttl to (RREQ_bytes q)) s = Inr ((), s')"
    using t(1) u u' s'(1) created dst(1) same(1)
    by (simp add: bnd_apply andthen_apply act_on_RREQ_def whenM_apply reply_RREQ_def send_gratuitous_def gets_apply)
  moreover have "outs s' = outs u @ [] @ [Sendto h (RREP_bytes ?p)]" using s'(4) by simp
  note since_last [OF since_trans [OF t(4) uk(3)] this]
  ultimately show ?thesis using s' same by (intro exI [of _ s'] exI [of _ "localSeqNum u"]) simp
qed

lemma rrep_arrives:
  assumes p: "rp_type p = AODV_RREP" "RREP_copy p = p" "\<not> rp_A p" and "h \<noteq> g_my_ip s" "\<not> duringReboot s"
  shows "process_aodv (carried h ttl to (RREP_bytes p)) s =
    bnd (RREP_recvRREP h p) (\<lambda>(result, p'). whenM (result = SEND_RREP) (send_RREP (rp_src_ip p') p'))
      (s\<lparr>recvBuffer := write_buf (RREP_bytes p) (recvBuffer s)\<rparr>)"
proof -
  have first: "write_buf (RREP_bytes p) (recvBuffer s) 0 = AODV_RREP"
    using p(1) by (simp add: write_buf_def RREP_bytes_def)
  with assms show ?thesis
    by (simp add: process_aodv_def carried_def readFromSock_def processRecvMsg_def processRREP_def sm_simps Let_def
        numeral_2_eq_2 AODVBUFSIZE_def length_RREP_bytes rrep.dec_enc)
qed

lemma config_ticks: "config (s\<lparr>ticks := k\<rparr>) = config s"
  by (simp add: config_def)

text \<open>A new route is installed in the kernel and then reported to the agent.\<close>

definition announced :: "ip \<Rightarrow> ip \<Rightarrow> node \<Rightarrow> bool" where
  "announced dst nhop s \<longleftrightarrow> (\<exists>es es'. outs s = es @ reply_effect dst IP_FOUND # es'
     \<and> Add_route dst 32 nhop (ifindex (env s)) 100 0 \<in> set es)"

lemma since_announced: "announced dst nhop s \<Longrightarrow> since s t \<Longrightarrow> config t = config s \<Longrightarrow> announced dst nhop t"
  by (fastforce simp: announced_def since_def dest: config_fields)

lemma insertRoute_outs:
  assumes "map_of (rTableMap s) (rt_dest_ip e) = None" "om_ok (rTableMap s)" "insertRoute e s = Inr (x, t)"
  shows "Add_route (rt_dest_ip e) 32 (rt_next_hop e) (ifindex (env s)) 100 0 \<in> set (outs t)" "config t = config s"
  using assms
  by (auto simp: insertRoute_def addRoute_def findRoute_def add_kroute_def emit_def sm_simps map_of_om_insert config_def
      split: option.splits)

lemma told:
  assumes "andthen m (andthen (la_reply d IP_FOUND) n) s = Inr (x, s')" "via (prim r) always n"
    and m: "\<And>y t. m s = Inr (y, t) \<Longrightarrow> Add_route d 32 h (ifindex (env s)) 100 0 \<in> set (outs t) \<and> config t = config s"
  shows "announced d h s'"
proof -
  from andthen_Inr [OF assms(1)] obtain y t where t: "m s = Inr (y, t)" "andthen (la_reply d IP_FOUND) n t = Inr (x, s')" by blast
  from andthen_Inr [OF t(2)] obtain z u where u: "la_reply d IP_FOUND t = Inr (z, u)" "n u = Inr (x, s')" by blast
  have "since u s'" "config s' = config u"
    using grows.via_keeps [OF assms(2) TrueI since_refl u(2)] conf.via_keeps [OF assms(2) TrueI refl u(2)] by simp_all
  moreover have "announced d h u"
    using u(1) m [OF t(1)] config_fields [of t s]
    by (intro announced_def [THEN iffD2] exI [of _ "outs t"] exI [of _ "[]"])
      (auto simp: la_reply_def emit_def sm_simps)
  ultimately show ?thesis by (rule since_announced [rotated])
qed

lemma neighbor_announced:
  assumes "map_of (rTableMap s) n = None" "om_ok (rTableMap s)" "neighborUpdate n src sq life s = Inr (x, s')"
  shows "announced n n s'"
proof -
  have v: "via (prim (Suc 0)) always (bnd (removeRREQTimer n) (\<lambda>ret'.
      andthen (whenM (ret' = LR_TIMER) (lr_delete n)) (renew_neighbor_timer n src)))"
    by (intro via_intros)
  show ?thesis
    by (rule told [OF assms(3) [unfolded neighborUpdate_def neighbor_found_def] v])
      (use assms(1) insertRoute_outs [OF _ assms(2), of "createEntry n sq 1 n life ACTIVE_ROUTE"]
        in \<open>auto simp: neighbor_route_def findRoute_def sm_simps createEntry_def\<close>)
qed

lemma forward_announced:
  assumes "map_of (rTableMap s) (rp_dest_ip p) = None" "om_ok (rTableMap s)" "forwardRouteUpdate h p s = Inr (x, s')"
  shows "announced (rp_dest_ip p) h s'"
proof -
  let ?d = "rp_dest_ip p"
  have v: "via (prim (Suc 0)) always (bnd (removeRREQTimer ?d) (\<lambda>ret'.
      whenM (ret' = LR_TIMER)
        (andthen (lr_delete ?d)
        (bnd (findRoute ?d) (\<lambda>r.
         case r of None \<Rightarrow> ret ()
         | Some e \<Rightarrow> whenM (rt_hop_cnt e > rt_last_hop_cnt e) (generateRERR ?d 1 False))))))"
    by (intro via_intros)
  show ?thesis
    by (rule told [OF assms(3) [unfolded forwardRouteUpdate_def route_found_def Let_def] v])
      (use assms(1,2) insertRoute_outs [of "s\<lparr>ticks := Suc (ticks s)\<rparr>" "createEntry ?d sq hops h life ACTIVE_ROUTE" for sq hops life]
        in \<open>auto simp: findRoute_def getcurrtime_def sm_simps createEntry_def config_ticks\<close>)
qed

text \<open>The second half of \<open>recvRREP\<close>: a node on the way notes the precursor and passes the RREP on.\<close>

definition pass_RREP :: "RREP \<Rightarrow> (node, int \<times> RREP) sm" where
  "pass_RREP p =
     bnd (gets g_my_ip) (\<lambda>my_ip.
      if rp_src_ip p \<noteq> my_ip \<and> rp_src_ip p \<noteq> 0 then
        bnd (findActiveRoute (rp_dest_ip p)) (\<lambda>dst.
        bnd (findActiveRoute (rp_src_ip p)) (\<lambda>src.
        andthen
          (case dst of None \<Rightarrow> ret ()
           | Some _ \<Rightarrow>
               (case src of None \<Rightarrow> ret ()
                | Some e \<Rightarrow> write_route (rp_dest_ip p) (addToPrecursor (rt_next_hop e))))
        (bnd (gets rrepAckFlag) (\<lambda>ack.
         ret (SEND_RREP, p\<lparr>rp_hop_cnt := rp_hop_cnt p + 1, rp_A := ack\<rparr>)))))
      else ret (0, p))"

text \<open>What an RREP needs of a node to be taken in there.\<close>

definition takes_reply :: "nat \<Rightarrow> ip \<Rightarrow> RREP \<Rightarrow> node \<Rightarrow> bool" where
  "takes_reply T h p s \<longleftrightarrow> fit T s \<and> h \<noteq> g_my_ip s \<and> (rp_dest_ip p = h \<longrightarrow> rp_hop_cnt p = 0)
     \<and> (rp_dest_ip p \<noteq> h \<longrightarrow> is_news (rp_dest_ip p) (rp_dest_seq_num p) (rp_hop_cnt p) (map_of (rTableMap s)))"

lemma takes_reply_new:
  "fit T s \<Longrightarrow> h \<noteq> g_my_ip s \<Longrightarrow> rp_dest_ip p = h \<longrightarrow> rp_hop_cnt p = 0 \<Longrightarrow>
   map_of (rTableMap s) (rp_dest_ip p) = None \<Longrightarrow> takes_reply T h p s"
  by (simp add: takes_reply_def is_news_def)

text \<open>The route it leaves, of which \<open>leads\<close> says besides that it lives on.\<close>

definition points :: "ip \<Rightarrow> ip \<Rightarrow> nat \<Rightarrow> node \<Rightarrow> bool" where
  "points dst nhop k s \<longleftrightarrow> (\<exists>e. map_of (rTableMap s) dst = Some e \<and> rt_next_hop e = nhop
     \<and> unat (rt_hop_cnt e) = k \<and> rt_routing_flags e = ACTIVE_ROUTE)"

text \<open>The precursors of a route: the nodes known to use it.\<close>

definition precursors :: "ip \<Rightarrow> node \<Rightarrow> ip list option" where
  "precursors dst s = map_option rt_precursors (map_of (rTableMap s) dst)"

lemma learn_fresh: "m dst = None \<Longrightarrow> map_option rt_precursors (learn dst seq nhop hops life m dst) = Some []"
  by (simp add: learn_def createEntry_def)

lemma meet_fresh: "m n = None \<Longrightarrow> map_option rt_precursors (meet n seq life m n) = Some []"
  by (simp add: meet_def createEntry_def)

lemma leads_points: "leads T dst nhop k s \<Longrightarrow> points dst nhop k s"
  by (auto simp: leads_def points_def)

lemma recv_rrep_routes:
  assumes "takes_reply T h p s" and p: "unat (rp_hop_cnt p) < 255"
  shows "\<exists>t. RREP_recvRREP h p s = pass_RREP p t \<and> fit T t \<and> config t = config s \<and> since s t
    \<and> points (rp_dest_ip p) h (Suc (unat (rp_hop_cnt p))) t
    \<and> (rp_lifetime p = 30000 \<longrightarrow> leads T (rp_dest_ip p) h (Suc (unat (rp_hop_cnt p))) t)
    \<and> (map_of (rTableMap s) (rp_dest_ip p) = None \<longrightarrow>
        announced (rp_dest_ip p) h t \<and> precursors (rp_dest_ip p) t = Some [])
    \<and> (\<forall>k. k \<noteq> h \<longrightarrow> k \<noteq> rp_dest_ip p \<longrightarrow> map_of (rTableMap t) k = map_of (rTableMap s) k)"
proof -
  from assms(1) have fit: "fit T s" and hop: "rp_dest_ip p = h \<longrightarrow> rp_hop_cnt p = 0"
    and news: "rp_dest_ip p \<noteq> h \<longrightarrow> is_news (rp_dest_ip p) (rp_dest_seq_num p) (rp_hop_cnt p) (map_of (rTableMap s))"
    by (simp_all add: takes_reply_def)
  let ?new = "map_of (rTableMap s) (rp_dest_ip p) = None"
  let ?seq = "if rp_dest_ip p = h then rp_dest_seq_num p else 0"
  let ?life = "clock (env s) (ticks s) + 4000"
  let ?m = "neighborUpdate h (rp_src_ip p) ?seq ?life"
  note ft = fit_tock(1) [OF fit]
  obtain y t where t: "?m (tock s) = Inr (y, t)" "fit T t" "config t = config (tock s)" "since (tock s) t"
    by (rule fit_runs [OF via_neighborUpdate runs_neighborUpdate ft])
  have wf: "rt_wf (rTableMap (tock s))" "om_ok (rTableMap (tock s))" using ft by (auto simp: fit_def safe_wf_def rt_wf_def)
  have tab: "map_of (rTableMap t) = meet h ?seq ?life (map_of (rTableMap s))"
    using neighbor_meets [OF wf(1) t(1)] by (simp add: tock_def)
  have cst: "config t = config s" "since s t" using t(3,4) by (simp_all add: fit_tock(2)) (simp add: since_def tock_def)
  have recv: "RREP_recvRREP h p s = andthen (whenM (rp_dest_ip p \<noteq> h) (forwardRouteUpdate h p)) (pass_RREP p) t"
    using t(1) by (simp add: RREP_recvRREP_def pass_RREP_def [abs_def] getcurrtime_def tock_def bnd_apply [of getcurrtime]
        bnd_apply [of "\<lambda>s. Inr (_ s)"] andthen_apply [of "neighborUpdate _ _ _ _"] Let_def)
  have calm: "calm T s" "calm T t" using fit t(2) by (simp_all add: fit_def)
  show ?thesis
  proof (cases "rp_dest_ip p = h")
    case True
    with hop leads_meet [OF calm(1) order_refl, of t h ?seq "map_of (rTableMap s)"] tab
    have "leads T (rp_dest_ip p) h (Suc (unat (rp_hop_cnt p))) t" by simp
    moreover note leads_points [OF this]
    moreover have "?new \<longrightarrow> announced (rp_dest_ip p) h t \<and> precursors (rp_dest_ip p) t = Some []"
      using neighbor_announced [OF _ wf(2) t(1)] True by (simp add: tock_def precursors_def tab meet_fresh)
    moreover have "RREP_recvRREP h p s = pass_RREP p t" using recv True by (simp add: andthen_apply whenM_apply)
    moreover have "map_of (rTableMap t) k = map_of (rTableMap s) k" if "k \<noteq> h" for k
      using tab meet_other [OF that] by simp
    ultimately show ?thesis using t(2) cst by (intro exI [of _ t]) simp
  next
    case False
    obtain w t2 where t2: "forwardRouteUpdate h p t = Inr (w, t2)" "fit T t2" "config t2 = config t" "since t t2"
      by (rule fit_runs [OF via_forward handler_leaf(3) t(2)])
    have ok: "om_ok (rTableMap t)" using t(2) by (simp add: fit_def safe_wf_def rt_wf_def)
    from rebootForward_learns [OF ok, of h p] forward_same_table [OF t2(1)]
    have tab2: "map_of (rTableMap t2) = learn (rp_dest_ip p) (rp_dest_seq_num p) h (rp_hop_cnt p)
        (\<lambda>_. clock (env t) (ticks t) + ucast (rp_lifetime p)) (map_of (rTableMap t))"
      by auto
    have same: "map_of (rTableMap t) (rp_dest_ip p) = map_of (rTableMap s) (rp_dest_ip p)"
      using tab meet_other [OF False] by simp
    with news False have "is_news (rp_dest_ip p) (rp_dest_seq_num p) (rp_hop_cnt p) (map_of (rTableMap t))"
      by (simp add: is_news_def)
    from learn_news [OF this p, of h "\<lambda>_. clock (env t) (ticks t) + ucast (rp_lifetime p)"] obtain e where
      e: "map_of (rTableMap t2) (rp_dest_ip p) = Some e" "rt_next_hop e = h" "rt_routing_flags e = ACTIVE_ROUTE"
        "unat (rt_hop_cnt e) = Suc (unat (rp_hop_cnt p))" "rt_lifetime e = clock (env t) (ticks t) + ucast (rp_lifetime p)"
      unfolding tab2 by auto
    have "unat (clock (env t) (ticks t)) < T + 2500" "T \<le> unat (clock (env t) (ticks t))" "T < 2 ^ 62"
      using calm(2) by (simp_all add: calm_def)
    with unat_later [of "clock (env t) (ticks t)" T 30000]
    have "rp_lifetime p = 30000 \<longrightarrow> T + 2500 \<le> unat (rt_lifetime e)" by (simp add: e(5))
    with e have "points (rp_dest_ip p) h (Suc (unat (rp_hop_cnt p))) t2"
      "rp_lifetime p = 30000 \<longrightarrow> leads T (rp_dest_ip p) h (Suc (unat (rp_hop_cnt p))) t2"
      by (auto simp: leads_def points_def)
    moreover from recv False t2(1) have "RREP_recvRREP h p s = pass_RREP p t2" by (simp add: andthen_apply whenM_apply)
    moreover have "?new \<longrightarrow> announced (rp_dest_ip p) h t2 \<and> precursors (rp_dest_ip p) t2 = Some []"
      using forward_announced [OF _ ok t2(1)] same by (simp add: precursors_def tab2 learn_fresh)
    moreover have "map_of (rTableMap t2) k = map_of (rTableMap s) k" if "k \<noteq> h" "k \<noteq> rp_dest_ip p" for k
      using learn_other [OF that(2)] meet_other [OF that(1)] tab tab2 by simp
    moreover have "config t2 = config s" "since s t2" using t2(3) cst(1) since_trans [OF cst(2) t2(4)] by simp_all
    ultimately show ?thesis using t2(2) by (intro exI [of _ t2]) simp
  qed
qed

lemma leads_precursor:
  "leads T d g k (s\<lparr>rTableMap := om_modify d' (addToPrecursor x) (rTableMap s)\<rparr>) = leads T d g k s"
  by (auto simp: leads_def map_of_om_modify)

lemma ack_clear: "\<not> rp_A p \<Longrightarrow> p\<lparr>rp_hop_cnt := n, rp_A := False\<rparr> = p\<lparr>rp_hop_cnt := n\<rparr>"
  by (cases p) simp

lemma pass_reply:
  assumes fit: "fit T s" and src: "rp_src_ip p \<noteq> g_my_ip s" "rp_src_ip p \<noteq> 0" "leads T (rp_src_ip p) g k s"
    and dst: "leads T (rp_dest_ip p) h l s" "precursors (rp_dest_ip p) s = Some []" and p: "\<not> rp_A p"
  shows "\<exists>t. pass_RREP p s = Inr ((SEND_RREP, p\<lparr>rp_hop_cnt := rp_hop_cnt p + 1\<rparr>), t) \<and> fit T t \<and> config t = config s
    \<and> since s t \<and> leads T (rp_src_ip p) g k t \<and> leads T (rp_dest_ip p) h l t
    \<and> precursors (rp_dest_ip p) t = Some [g]"
proof -
  have calm: "calm T s" "calm T (tock s)" using fit fit_tock(1) [OF fit] by (simp_all add: fit_def)
  have lt: "leads T d g k (tock s) = leads T d g k s" for d g k by (simp add: leads_def tock_def)
  have act: "active_at (rp_dest_ip p) s" "active_at (rp_src_ip p) (tock s)"
    using leads_active [OF calm(1) dst(1)] leads_active [OF calm(2)] src(3) by (auto simp: lt)
  from dst(1) src(3) obtain d e where e: "map_of (rTableMap s) (rp_dest_ip p) = Some d"
    "map_of (rTableMap s) (rp_src_ip p) = Some e" "rt_next_hop e = g" by (auto simp: leads_def)
  have ack: "\<not> rrepAckFlag s" using fit by (simp add: fit_def safe_wf_def safe_def ack_free_def)
  let ?t = "(tock (tock s))\<lparr>rTableMap := om_modify (rp_dest_ip p) (addToPrecursor (rt_next_hop e)) (rTableMap s)\<rparr>"
  have tab: "rTableMap (tock s) = rTableMap s" "rTableMap (tock (tock s)) = rTableMap s" by (simp_all add: tock_def)
  have run: "pass_RREP p s = Inr ((SEND_RREP, p\<lparr>rp_hop_cnt := rp_hop_cnt p + 1\<rparr>), ?t)"
    using src(1,2) act e p ack
    by (simp add: pass_RREP_def findActiveRoute_run write_route_def sm_simps)
      (simp add: tab tock_def write_route_def sm_simps ack_clear [OF p])
  have "via (prim 0) always (pass_RREP p)"
    unfolding pass_RREP_def by (intro via_intros)
  note fit_keeps [OF this TrueI run fit]
  moreover have "leads T d g k ?t = leads T d g k s" for d g k
    using leads_precursor [where s = "tock (tock s)"] by (simp add: tab(2)) (simp add: leads_def tock_def)
  moreover have "precursors (rp_dest_ip p) ?t = Some [g]"
    using dst(2) e by (simp add: precursors_def map_of_om_modify addToPrecursor_def)
  ultimately show ?thesis using run src(3) dst(1) by blast
qed

lemma takes_reply_run:
  assumes "takes_reply T h p s" "rp_type p = AODV_RREP" "RREP_copy p = p" "\<not> rp_A p" "unat (rp_hop_cnt p) < 255"
  obtains t where "process_aodv (carried h ttl to (RREP_bytes p)) s =
        bnd (pass_RREP p) (\<lambda>(result, p'). whenM (result = SEND_RREP) (send_RREP (rp_src_ip p') p')) t"
      "fit T t" "config t = config s" "since s t" "points (rp_dest_ip p) h (Suc (unat (rp_hop_cnt p))) t"
      "rp_lifetime p = 30000 \<longrightarrow> leads T (rp_dest_ip p) h (Suc (unat (rp_hop_cnt p))) t"
      "map_of (rTableMap s) (rp_dest_ip p) = None \<longrightarrow>
        announced (rp_dest_ip p) h t \<and> precursors (rp_dest_ip p) t = Some []"
      "\<forall>k. k \<noteq> h \<longrightarrow> k \<noteq> rp_dest_ip p \<longrightarrow> map_of (rTableMap t) k = map_of (rTableMap s) k"
proof -
  let ?s = "s\<lparr>recvBuffer := write_buf (RREP_bytes p) (recvBuffer s)\<rparr>"
  have s: "takes_reply T h p ?s" "h \<noteq> g_my_ip s" "\<not> duringReboot s"
    using assms(1) by (simp_all add: takes_reply_def) (simp add: fit_def)
  from recv_rrep_routes [OF s(1) assms(5)] obtain t where
    t: "RREP_recvRREP h p ?s = pass_RREP p t" "fit T t" "config t = config s" "since s t"
      "points (rp_dest_ip p) h (Suc (unat (rp_hop_cnt p))) t"
      "rp_lifetime p = 30000 \<longrightarrow> leads T (rp_dest_ip p) h (Suc (unat (rp_hop_cnt p))) t"
      "map_of (rTableMap s) (rp_dest_ip p) = None \<longrightarrow>
        announced (rp_dest_ip p) h t \<and> precursors (rp_dest_ip p) t = Some []"
      "\<forall>k. k \<noteq> h \<longrightarrow> k \<noteq> rp_dest_ip p \<longrightarrow> map_of (rTableMap t) k = map_of (rTableMap s) k"
    by (auto simp: since_def)
  from rrep_arrives [OF assms(2-4) s(2,3)] t(1) show ?thesis
    using that [OF _ t(2-)] by (simp add: bnd_apply)
qed

lemma takes_reply_new_run:
  assumes "takes_reply T h p s" "plain_RREP p" "unat (rp_hop_cnt p) < 255" "map_of (rTableMap s) (rp_dest_ip p) = None"
  obtains t where "process_aodv (carried h ttl to (RREP_bytes p)) s =
        bnd (pass_RREP p) (\<lambda>(result, p'). whenM (result = SEND_RREP) (send_RREP (rp_src_ip p') p')) t"
      "fit T t" "config t = config s" "since s t"
      "leads T (rp_dest_ip p) h (Suc (unat (rp_hop_cnt p))) t" "announced (rp_dest_ip p) h t"
      "precursors (rp_dest_ip p) t = Some []"
      "\<forall>k. k \<noteq> h \<longrightarrow> k \<noteq> rp_dest_ip p \<longrightarrow> map_of (rTableMap t) k = map_of (rTableMap s) k"
proof -
  from assms(2) have p: "rp_type p = AODV_RREP" "RREP_copy p = p" "\<not> rp_A p" "rp_lifetime p = 30000"
    by (simp_all add: plain_RREP_def)
  show ?thesis
    by (rule takes_reply_run [OF assms(1) p(1-3) assms(3)], rule that) (simp_all add: p(4) assms(4))
qed

text \<open>On the way the RREP is sent on to the next hop towards the originator.\<close>

lemma forward_reply:
  assumes "takes_reply T h p s" "plain_RREP p" "unat (rp_hop_cnt p) < 255" "map_of (rTableMap s) (rp_dest_ip p) = None"
    and src: "rp_src_ip p \<noteq> g_my_ip s" "rp_src_ip p \<noteq> 0" "rp_src_ip p \<noteq> h" "rp_src_ip p \<noteq> rp_dest_ip p"
      "leads T (rp_src_ip p) g k s" "g \<noteq> 0"
  shows "\<exists>s'. process_aodv (carried h ttl to (RREP_bytes p)) s = Inr ((), s') \<and> fit T s' \<and> config s' = config s
    \<and> leads T (rp_dest_ip p) h (Suc (unat (rp_hop_cnt p))) s' \<and> leads T (rp_src_ip p) g k s'
    \<and> announced (rp_dest_ip p) h s' \<and> precursors (rp_dest_ip p) s' = Some [g]
    \<and> dispatched s s' = Some (carried (g_my_ip s) (socket_ttl (outs s')) g
        (RREP_bytes (p\<lparr>rp_hop_cnt := rp_hop_cnt p + 1\<rparr>)))"
proof -
  let ?p = "p\<lparr>rp_hop_cnt := rp_hop_cnt p + 1\<rparr>"
  from assms(2) have p: "\<not> rp_A p" by (simp add: plain_RREP_def)
  from takes_reply_new_run [OF assms(1-4)] obtain t where
    t: "process_aodv (carried h ttl to (RREP_bytes p)) s =
        bnd (pass_RREP p) (\<lambda>(result, p'). whenM (result = SEND_RREP) (send_RREP (rp_src_ip p') p')) t"
      "fit T t" "config t = config s" "since s t"
      "leads T (rp_dest_ip p) h (Suc (unat (rp_hop_cnt p))) t" "announced (rp_dest_ip p) h t"
      "precursors (rp_dest_ip p) t = Some []"
      "\<forall>k. k \<noteq> h \<longrightarrow> k \<noteq> rp_dest_ip p \<longrightarrow> map_of (rTableMap t) k = map_of (rTableMap s) k"
    by blast
  have ip: "g_my_ip t = g_my_ip s" using config_fields [OF t(3)] by simp
  have st: "leads T (rp_src_ip p) g k t" using src t(8) by (simp add: leads_def)
  from src(1) ip have other: "rp_src_ip p \<noteq> g_my_ip t" by simp
  from pass_reply [OF t(2) other src(2) st t(5,7) p] obtain u where
    u: "pass_RREP p t = Inr ((SEND_RREP, ?p), u)" "fit T u" "config u = config t" "since t u"
      "leads T (rp_src_ip p) g k u" "leads T (rp_dest_ip p) h (Suc (unat (rp_hop_cnt p))) u"
      "precursors (rp_dest_ip p) u = Some [g]" by blast
  from send_reply [OF u(2,5) src(6), of ?p] p obtain s' where
    s': "send_RREP (rp_src_ip p) ?p u = Inr ((), s')" "fit T s'" "config s' = config u"
      "outs s' = outs u @ [] @ [Sendto g (RREP_bytes ?p)]" "leads T (rp_src_ip p) g k s'"
      "\<forall>d. d \<noteq> rp_src_ip p \<longrightarrow> map_of (rTableMap s') d = map_of (rTableMap u) d" by auto
  have "leads T (rp_dest_ip p) h (Suc (unat (rp_hop_cnt p))) s'" "precursors (rp_dest_ip p) s' = Some [g]"
    using u(6,7) s'(6) src(4) by (simp_all add: leads_def precursors_def)
  moreover have cs: "config s' = config s" using s'(3) u(3) t(3) by simp
  moreover have "process_aodv (carried h ttl to (RREP_bytes p)) s = Inr ((), s')"
    using t(1) u(1) s'(1) by (simp add: bnd_apply whenM_apply)
  moreover have "announced (rp_dest_ip p) h s'"
    using since_announced [OF t(6) u(4,3)] s'(3,4) since_announced [of _ _ u s'] by (simp add: since_def)
  moreover note since_last [OF since_trans [OF t(4) u(4)] s'(4)]
  ultimately show ?thesis using s'(2,5) config_fields [OF cs] by auto
qed

text \<open>At the originator it ends.\<close>

lemma receive_reply:
  assumes "takes_reply T h p s" "plain_RREP p" "unat (rp_hop_cnt p) < 255" "map_of (rTableMap s) (rp_dest_ip p) = None" "rp_src_ip p = g_my_ip s"
  shows "\<exists>s'. process_aodv (carried h ttl to (RREP_bytes p)) s = Inr ((), s') \<and> fit T s' \<and> config s' = config s
    \<and> leads T (rp_dest_ip p) h (Suc (unat (rp_hop_cnt p))) s' \<and> announced (rp_dest_ip p) h s'"
proof -
  from assms(2) have p: "\<not> rp_A p" by (simp add: plain_RREP_def)
  from takes_reply_new_run [OF assms(1-4)] obtain t where
    t: "process_aodv (carried h ttl to (RREP_bytes p)) s =
        bnd (pass_RREP p) (\<lambda>(result, p'). whenM (result = SEND_RREP) (send_RREP (rp_src_ip p') p')) t"
      "fit T t" "config t = config s"
      "leads T (rp_dest_ip p) h (Suc (unat (rp_hop_cnt p))) t" "announced (rp_dest_ip p) h t"
      "precursors (rp_dest_ip p) t = Some []"
    by blast
  have "pass_RREP p t = Inr ((0, p), t)" using assms(5) config_fields [OF t(3)] by (simp add: pass_RREP_def sm_simps)
  with t show ?thesis by (simp add: bnd_apply whenM_apply)
qed

end
