(* ===== verification/Events.thy ===== *)
theory Events
  imports Daemon
begin

text \<open>
  The daemon as a transition system: it starts as \<open>main\<close> leaves it, and its steps are the
  calls of \<open>mainDaemonLoop\<close> and of the signal handler, one datagram, one message of the agent
  or one alarm at a time. The locale \<open>daemon_invariant\<close> turns a predicate that the primitive
  steps keep into one of all reachable states.
\<close>

section \<open>Starts and steps\<close>

definition fresh :: "node \<Rightarrow> bool" where
  "fresh s \<longleftrightarrow> (\<exists>atoi args v rbuf sbuf. parse_arguments atoi args (initial_node v rbuf sbuf) = Some s)"

definition node_init :: "node \<Rightarrow> bool" where
  "node_init s \<longleftrightarrow> (\<exists>s0 my_ip. fresh s0 \<and> aodv_daemon_init my_ip s0 = Inr ((), s))"

inductive node_step :: "node \<Rightarrow> node \<Rightarrow> bool" where
  packet: "process_aodv r s = Inr ((), s') \<Longrightarrow> node_step s s'"
| agent: "recv_la_data b s = Inr ((), s') \<Longrightarrow> node_step s s'"
| alarm: "scheduleTimer n s = Inr ((), s') \<Longrightarrow> node_step s s'"

inductive_cases node_stepE: "node_step s s'"

text \<open>What the options of the command line do not touch.\<close>

lemma parse_arguments_fields:
  "parse_arguments atoi args s = Some s' \<Longrightarrow>
   rTableMap s' = rTableMap s \<and> rreq_list s' = rreq_list s \<and> fw_rreq_list s' = fw_rreq_list s
   \<and> local_repair_list s' = local_repair_list s \<and> timerQ s' = timerQ s \<and> bList s' = bList s
   \<and> outs s' = outs s \<and> duringReboot s' = duringReboot s \<and> ticks s' = ticks s"
  by (induction atoi args s rule: parse_arguments.induct)
    (auto simp: apply_option_def split: list.splits if_splits)

lemma fresh_fields:
  assumes "fresh s"
  shows "rTableMap s = [] \<and> rreq_list s = [] \<and> fw_rreq_list s = [] \<and> local_repair_list s = []
     \<and> timerQ s = [] \<and> bList s = [] \<and> outs s = [] \<and> duringReboot s \<and> ticks s = 0"
  using assms parse_arguments_fields by (fastforce simp: fresh_def initial_node_def)

text \<open>From a fresh state to an initial one: two timers and the address.\<close>

lemma node_init_via:
  assumes "node_init s"
  obtains s0 s1 a where "fresh s0" "(prim (Suc (Suc 0)))\<^sup>*\<^sup>* s0 s1" "s = s1\<lparr>g_my_ip := a\<rparr>"
proof -
  from assms obtain s0 a where s0: "fresh s0" and run: "aodv_daemon_init a s0 = Inr ((), s)"
    by (auto simp: node_init_def)
  from run obtain t s1 where t: "setRebootTimer s0 = Inr ((), t)" "setPeriodicTimer t = Inr ((), s1)"
    and s: "s = s1\<lparr>g_my_ip := a\<rparr>"
    by (auto simp: aodv_daemon_init_def sm_simps split: sum.splits)
  have "(prim (Suc (Suc 0)))\<^sup>*\<^sup>* s0 s1"
    using viaD [OF via_aodv_timers(1) TrueI t(1)] viaD [OF via_aodv_timers(2) TrueI t(2)]
    by (rule rtranclp_trans)
  with s0 s show thesis by (intro that [of s0 s1 a])
qed

lemma node_step_via:
  assumes "node_step s s'" "pending_ok s"
  shows "(prim (Suc (Suc 0)))\<^sup>*\<^sup>* s s'"
  using assms
  by (auto elim!: node_stepE dest: viaD [OF via_process_aodv, of always, OF TrueI]
      viaD [OF via_recv_la_data, of always, OF TrueI] viaD [OF via_scheduleTimer])

lemma node_init_pending: "node_init s \<Longrightarrow> pending_ok s"
proof (erule node_init_via)
  fix s0 s1 a
  assume s0: "fresh s0" "(prim (Suc (Suc 0)))\<^sup>*\<^sup>* s0 s1" and s: "s = s1\<lparr>g_my_ip := a\<rparr>"
  have "pending_ok s0" using fresh_fields [OF s0(1)] by (simp add: pending_ok_def)
  then have "pending_ok s1" by (rule pending.steps_inv [OF s0(2)])
  then show "pending_ok s" by (simp add: s pending_ok_def ttl_ok_def)
qed

interpretation waiting: invariant_of node_init node_step pending_ok
  by unfold_locales (auto intro: node_init_pending pending.steps_inv node_step_via)

text \<open>After the reboot phase the reset of the reboot timer is out of reach.\<close>

lemma via_process_asl_booted: "via (prim (Suc r)) (\<lambda>s. \<not> duringReboot s) (process_asl i)"
proof (rule viaI)
  fix s x s'
  assume "\<not> duringReboot s" and run: "process_asl i s = Inr (x, s')"
  let ?m = "bnd (findActiveRoute (ri_dst_ip i)) (\<lambda>r. case r of Some _ \<Rightarrow> la_reply (ri_dst_ip i) IP_FOUND
      | None \<Rightarrow> if ri_src_ip i = g_my_ip s then process_asl_local i else process_asl_transit i)"
  have "via (prim (Suc r)) always ?m"
    unfolding process_asl_local_def process_asl_transit_def by (intro via_intros) simp_all
  moreover from \<open>\<not> duringReboot s\<close> run have "?m s = Inr (x, s')"
    by (simp add: process_asl_def Let_def gets_apply bnd_apply [of "gets _"])
  ultimately show "(prim (Suc r))\<^sup>*\<^sup>* s s'" by (auto dest: viaD)
qed

lemma node_step_booted:
  assumes "node_step s s'" "pending_ok s" "\<not> duringReboot s"
  shows "(prim (Suc 0))\<^sup>*\<^sup>* s s'"
  using assms(1)
proof (cases rule: node_step.cases)
  case (agent b)
  let ?m = "LAMessage_parse_stream (write_buf (take 1024 b) (\<lambda>_. 0))"
  show ?thesis
  proof (cases "b = []")
    case False
    with agent assms(3) show ?thesis
      by (auto simp: recv_la_data_def Let_def intro: viaD [OF via_process_asl_booted])
  qed (use agent in \<open>simp add: recv_la_data_def ret_def\<close>)
qed (use assms in \<open>auto dest: viaD [OF via_process_aodv, of always, OF TrueI] viaD [OF via_scheduleTimer]\<close>)

text \<open>
  A request for a packet of another node, and the runs without such a request in the reboot phase: in these
  the reset of the reboot timer is out of reach altogether.
\<close>

definition transit_request :: "u8 list \<Rightarrow> node \<Rightarrow> bool" where
  "transit_request b s \<longleftrightarrow> b \<noteq> [] \<and> la_src_address (LAMessage_parse_stream (write_buf (take 1024 b) (\<lambda>_. 0))) \<noteq> g_my_ip s"

inductive calm_step :: "node \<Rightarrow> node \<Rightarrow> bool" where
  calm_packet: "process_aodv r s = Inr ((), s') \<Longrightarrow> calm_step s s'"
| calm_reboot: "recv_la_data b s = Inr ((), s') \<Longrightarrow> duringReboot s \<Longrightarrow> \<not> transit_request b s \<Longrightarrow> calm_step s s'"
| calm_agent: "recv_la_data b s = Inr ((), s') \<Longrightarrow> \<not> duringReboot s \<Longrightarrow> calm_step s s'"
| calm_alarm: "scheduleTimer n s = Inr ((), s') \<Longrightarrow> calm_step s s'"

lemma calm_step_node: "calm_step s s' \<Longrightarrow> node_step s s'"
  by (erule calm_step.cases) (auto intro: node_step.intros)

lemma calm_step_via:
  assumes "calm_step s s'" "pending_ok s"
  shows "(prim (Suc 0))\<^sup>*\<^sup>* s s'"
  using assms(1)
proof cases
  case (calm_reboot b)
  show ?thesis
  proof (cases "b = []")
    case False
    let ?m = "LAMessage_parse_stream (write_buf (take 1024 b) (\<lambda>_. 0))"
    from calm_reboot False have "la_reply (la_dst_address ?m) IP_NOFOUND s = Inr ((), s')"
      by (simp add: recv_la_data_def process_asl_def transit_request_def gets_apply bnd_apply [of "gets _"] Let_def)
    moreover have "via (prim (Suc 0)) always (la_reply (la_dst_address ?m) IP_NOFOUND)" by (intro via_intros) simp_all
    ultimately show ?thesis by (auto dest: viaD)
  qed (use calm_reboot in \<open>simp add: recv_la_data_def ret_def\<close>)
next
  case (calm_agent b)
  show ?thesis by (rule node_step_booted [OF node_step.agent [OF calm_agent(1)] assms(2) calm_agent(2)])
qed (use assms in \<open>auto dest: viaD [OF via_process_aodv, of always, OF TrueI] viaD [OF via_scheduleTimer]\<close>)

lemma node_init_sorted:
  assumes "node_init s"
  shows "sorted (map tm_timeout (timerQ s))"
proof -
  from assms obtain s0 a where s0: "fresh s0" and run: "aodv_daemon_init a s0 = Inr ((), s)"
    by (auto simp: node_init_def)
  from run obtain t s1 where t: "setRebootTimer s0 = Inr ((), t)" "setPeriodicTimer t = Inr ((), s1)"
    and s: "s = s1\<lparr>g_my_ip := a\<rparr>"
    by (auto simp: aodv_daemon_init_def sm_simps split: sum.splits)
  have "(prim (Suc 0))\<^sup>*\<^sup>* s0 s1"
    using viaD [OF via_aodv_timers(1) TrueI t(1)] viaD [OF via_aodv_timers(2) TrueI t(2)]
    by (rule rtranclp_trans)
  from ordered.steps_inv [OF this] fresh_fields [OF s0] show ?thesis by (simp add: s)
qed

interpretation calm: invariant_of node_init calm_step "\<lambda>s. sorted (map tm_timeout (timerQ s)) \<and> pending_ok s"
  by unfold_locales
    (auto simp: node_init_sorted node_init_pending intro: ordered.steps_inv calm_step_via
      pending.steps_inv dest: node_step_via [OF calm_step_node])

section \<open>Invariants of the daemon\<close>

locale daemon_invariant = closed_under "prim (Suc (Suc 0))" I for I :: "node \<Rightarrow> bool" +
  fixes init :: "node \<Rightarrow> bool"
  assumes init_node: "init s \<Longrightarrow> node_init s"
    and init_inv: "init s \<Longrightarrow> I s"

sublocale daemon_invariant \<subseteq> both: invariant_of init node_step "\<lambda>s. I s \<and> pending_ok s"
  by unfold_locales
    (auto simp: init_inv node_init_pending init_node intro: steps_inv pending.steps_inv
      dest: node_step_via)

context daemon_invariant
begin

lemma holds: "reach init node_step s \<Longrightarrow> I s"
  by (simp add: both.reach_inv)

end

text \<open>A predicate that holds of fresh states and does not depend on the address holds initially.\<close>

lemma node_init_inv:
  assumes "closed_under (prim (Suc (Suc 0))) I"
    and fresh: "\<And>s. fresh s \<Longrightarrow> I s" and address: "\<And>s a. I s \<Longrightarrow> I (s\<lparr>g_my_ip := a\<rparr>)"
    and init: "node_init s"
  shows "I s"
  using init
proof (rule node_init_via)
  fix s0 s1 a
  assume s0: "fresh s0" "(prim (Suc (Suc 0)))\<^sup>*\<^sup>* s0 s1" and s: "s = s1\<lparr>g_my_ip := a\<rparr>"
  show "I s"
    unfolding s by (intro address closed_under.steps_inv [OF assms(1) s0(2)] fresh s0(1))
qed

interpretation table_inv: daemon_invariant "\<lambda>s. rt_wf (rTableMap s)" node_init
  by unfold_locales
    (erule node_init_inv [OF table.closed_under_axioms, rotated -1] table.closed | simp add: fresh_fields)+

interpretation seen_inv: daemon_invariant
  "\<lambda>s. distinct (map (\<lambda>e. (fw_src_ip e, fw_rreq_id e)) (fw_rreq_list s))" node_init
  by unfold_locales
    (erule node_init_inv [OF seen.closed_under_axioms, rotated -1] seen.closed | simp add: fresh_fields)+

interpretation repair_inv: daemon_invariant "\<lambda>s. distinct (map lr_dest_ip (local_repair_list s))" node_init
  by unfold_locales
    (erule node_init_inv [OF repair.closed_under_axioms, rotated -1] repair.closed | simp add: fresh_fields)+

interpretation typed_inv: daemon_invariant timers_typed node_init
  by unfold_locales
    (erule node_init_inv [OF typed.closed_under_axioms, rotated -1] typed.closed | simp add: fresh_fields timers_typed_def)+

interpretation named_inv: daemon_invariant timers_named node_init
  by unfold_locales
    (erule node_init_inv [OF named.closed_under_axioms, rotated -1] named.closed | simp add: fresh_fields timers_named_def)+

interpretation bl_one_inv: daemon_invariant "\<lambda>s. length (bList s) \<le> 1" node_init
  by unfold_locales
    (erule node_init_inv [OF bl_one.closed_under_axioms, rotated -1] bl_one.closed | simp add: fresh_fields)+

interpretation effects_inv: daemon_invariant "\<lambda>s. \<forall>e \<in> set (outs s). effect_ok e" node_init
  by unfold_locales
    (erule node_init_inv [OF effects.closed_under_axioms, rotated -1] effects.closed | simp add: fresh_fields)+

interpretation pending_inv: daemon_invariant pending_ok node_init
  by unfold_locales (auto intro: pending.closed node_init_pending)

text \<open>Started without the RREP-ACK option, the daemon stays free of it.\<close>

definition node_init_noack :: "node \<Rightarrow> bool" where
  "node_init_noack s \<longleftrightarrow> node_init s \<and> \<not> rrepAckFlag s"

lemma noack_start: "node_init_noack s \<Longrightarrow> ack_free s"
proof -
  assume s: "node_init_noack s"
  have "closed_under (prim (Suc (Suc 0))) (\<lambda>s. rrepAckFlag s \<or> ack_free s)"
    by unfold_locales (auto dest: ackfree.closed ack_config [OF r_into_rtranclp])
  then have "rrepAckFlag s \<or> ack_free s"
    by (rule node_init_inv)
      (use s in \<open>auto simp: node_init_noack_def ack_free_def fresh_fields\<close>)
  with s show "ack_free s" by (simp add: node_init_noack_def)
qed

interpretation ackfree_inv: daemon_invariant ack_free node_init_noack
  by unfold_locales (auto simp: noack_start node_init_noack_def intro: ackfree.closed)

end
