(* ===== verification/Scheduler.thy ===== *)
theory Scheduler
  imports Daemon
begin

text \<open>
  The scheduler against its specification: with a queue in order and a clock that does not
  run backwards, \<open>scheduleTimer\<close> calls exactly the timers that were due, first to last,
  removes each after its call, and arms the interval timer for the first that is left. In
  particular its loop ends: the fuel that is enough is the number of due timers plus one.
\<close>

definition due :: "u64 \<Rightarrow> timer list \<Rightarrow> timer list" where
  "due c q = filter (\<lambda>t. tm_timeout t \<le> c) q"

abbreviation (input) steady :: "nat \<Rightarrow> env \<Rightarrow> bool" where
  "steady k v \<equiv> steady_clock k (clock v)"

section \<open>What a timer function does to the queue\<close>

text \<open>The due timers are \<open>ds\<close>, the reading \<open>k\<close> of the clock is past.\<close>

definition due_are :: "nat \<Rightarrow> timer list \<Rightarrow> node \<Rightarrow> bool" where
  "due_are k ds s \<longleftrightarrow> k < ticks s \<and> steady k (env s) \<and> sorted (map tm_timeout (timerQ s))
     \<and> due (clock (env s) k) (timerQ s) = ds"

interpretation dues: closed_under "prim 0" "due_are k ds" for k ds
proof unfold_locales
  fix s t
  assume "prim 0 s t" and d: "due_are k ds s"
  then show "due_are k ds t"
  proof cases
    case (timer_new u j v)
    have "clock (env s) k < clock (env s) j + v"
      by (rule steady_clock_later) (use timer_new d in \<open>simp_all add: due_are_def\<close>)
    with timer_new d show ?thesis
      by (simp add: due_are_def tq.sorted_add due_def tq.due_add)
  qed (auto simp: due_are_def)
qed

lemma due_head:
  assumes "due_are k (t # ds) s"
  obtains q where "timerQ s = t # q" "due (clock (env s) k) q = ds" "tm_timeout t \<le> clock (env s) k"
proof -
  let ?c = "clock (env s) k"
  from assms have so: "sorted (map tm_timeout (timerQ s))" and d: "due ?c (timerQ s) = t # ds"
    by (simp_all add: due_are_def)
  with tq.due_takeWhile [OF so, of ?c] have "takeWhile (\<lambda>u. tm_timeout u \<le> ?c) (timerQ s) = t # ds"
    by (simp add: due_def)
  then obtain q where q: "timerQ s = t # q" "tm_timeout t \<le> ?c"
    by (cases "timerQ s") (auto split: if_splits)
  with d show thesis by (intro that [of q]) (simp_all add: due_def)
qed

lemma due_none:
  assumes "due_are k [] s"
  shows "\<forall>t \<in> set (timerQ s). clock (env s) k < tm_timeout t"
  using assms by (auto simp: due_are_def due_def filter_empty_conv not_le)

section \<open>The loop\<close>

definition fire :: "timer \<Rightarrow> (node, unit) sm" where
  "fire t = andthen (run_handler (tm_handler t) (tm_data t)) (bnd (erase_timer (tm_id t)) (\<lambda>_. ret ()))"

definition next_timer :: "(node, nat option) sm" where
  "next_timer = gets (\<lambda>s. begin_at (timerQ s))"

text \<open>
  One call: afterwards the rest of the due timers is due, and the iterator is at the head.
\<close>

lemma run_handler_due:
  assumes "due_are k ds s" "pending_ok s" "t \<in> set (timerQ s)"
    and run: "run_handler (tm_handler t) (tm_data t) s = Inr (x, s')"
  shows "due_are k ds s' \<and> pending_ok s' \<and> env s' = env s"
proof -
  have "firing t s" using assms by (simp add: firing_def)
  note steps = viaD [OF via_run_handler [of 0] this run]
  show ?thesis
    using dues.steps_inv [OF steps assms(1)] pending.steps_inv [OF steps assms(2)]
      config_fields [OF conf.steps_inv [OF steps refl]] by simp
qed

lemma erase_head:
  assumes "timerQ s = t # q"
  shows "erase_timer (tm_id t) s = Inr (begin_at q, s\<lparr>timerQ := q\<rparr>)"
  using assms by (auto simp: erase_timer_def sm_simps begin_at_def split: list.split)

lemma loop_runs_due:
  assumes "due_are k ds s" "pending_ok s" "length ds < n"
  shows "schedule_loop n (clock (env s) k) (begin_at (timerQ s)) s = bnd (forM ds fire) (\<lambda>_. next_timer) s"
  using assms
proof (induction ds arbitrary: n s)
  case Nil
  then obtain m where n: "n = Suc m" by (cases n) auto
  from due_none [OF Nil(1)] show ?case
    by (cases "timerQ s") (auto simp: n timer_at_def begin_at_def next_timer_def sm_simps not_le)
next
  case (Cons t ds)
  then obtain m where n: "n = Suc m" "length ds < m" by (cases n) auto
  let ?c = "clock (env s) k"
  from due_head [OF Cons.prems(1)] obtain q where
    q: "timerQ s = t # q" and t: "tm_timeout t \<le> ?c" by blast
  show ?case
  proof (cases "run_handler (tm_handler t) (tm_data t) s")
    case (Inl e)
    then show ?thesis
      by (simp add: n q begin_at_def timer_at_def t sm_simps fire_def)
  next
    case (Inr r)
    then obtain s1 where s1: "run_handler (tm_handler t) (tm_data t) s = Inr ((), s1)"
      by (cases r) auto
    from run_handler_due [OF Cons.prems(1,2) _ s1] q
    have due1: "due_are k (t # ds) s1" "pending_ok s1" "env s1 = env s" by simp_all
    from due_head [OF due1(1)] obtain q1 where
      q1: "timerQ s1 = t # q1" "due (clock (env s1) k) q1 = ds" by blast
    let ?s2 = "s1\<lparr>timerQ := q1\<rparr>"
    have due2: "due_are k ds ?s2" "pending_ok ?s2"
      using due1 q1 by (auto simp: due_are_def pending_ok_def ttl_ok_def)
    from Cons.IH [OF due2 n(2)] show ?thesis
      by (simp add: n(1) q begin_at_def timer_at_def t sm_simps fire_def s1 erase_head [OF q1(1)] due1(3))
  qed
qed

text \<open>Arming the interval timer for the first timer that is left.\<close>

definition rearm :: "u64 \<Rightarrow> (node, unit) sm" where
  "rearm currtime =
     bnd (gets timerQ) (\<lambda>q.
     case q of [] \<Rightarrow> ret () | t # _ \<Rightarrow> setRealTimer (tm_timeout t - currtime))"

definition schedule_spec :: "(node, unit) sm" where
  "schedule_spec =
     bnd (gets timerQ) (\<lambda>q.
     bnd getcurrtime (\<lambda>currtime.
     andthen (forM (due currtime q) fire) (rearm currtime)))"

lemma forM_fire_due:
  assumes "due_are k ds s" "pending_ok s" "forM ds fire s = Inr (x, s')"
  shows "due_are k [] s' \<and> env s' = env s"
  using assms
proof (induction ds arbitrary: s)
  case (Cons t ds)
  from due_head [OF Cons.prems(1)] obtain q where q: "timerQ s = t # q" by blast
  from Cons.prems(3) obtain s1 n s2 where
    s1: "run_handler (tm_handler t) (tm_data t) s = Inr ((), s1)" and
    s2: "erase_timer (tm_id t) s1 = Inr (n, s2)" and rest: "forM ds fire s2 = Inr (x, s')"
    by (auto simp: fire_def [of t] sm_simps split: sum.splits)
  from run_handler_due [OF Cons.prems(1,2) _ s1] q
  have due1: "due_are k (t # ds) s1" "pending_ok s1" "env s1 = env s" by simp_all
  from due_head [OF due1(1)] obtain q1 where
    q1: "timerQ s1 = t # q1" "due (clock (env s1) k) q1 = ds" by blast
  with s2 have "s2 = s1\<lparr>timerQ := q1\<rparr>" by (simp add: erase_head)
  with due1 q1 have "due_are k ds s2" "pending_ok s2" "env s2 = env s"
    by (auto simp: due_are_def pending_ok_def ttl_ok_def)
  with Cons.IH [OF _ _ rest] show ?case by simp
qed (simp add: ret_def)

lemma start_due:
  assumes "steady (ticks s) (env s)" "sorted (map tm_timeout (timerQ s))" "pending_ok s"
  shows "due_are (ticks s) (due (clock (env s) (ticks s)) (timerQ s)) (s\<lparr>ticks := Suc (ticks s)\<rparr>)"
    "pending_ok (s\<lparr>ticks := Suc (ticks s)\<rparr>)"
  using assms by (simp_all add: due_are_def pending_ok_def ttl_ok_def)

lemma timer_at_begin: "timer_at (begin_at q) q = (case q of [] \<Rightarrow> None | t # _ \<Rightarrow> Some t)"
  by (simp add: timer_at_def begin_at_def split: list.split)

theorem schedule_meets_spec:
  assumes ok: "steady (ticks s) (env s)" "sorted (map tm_timeout (timerQ s))" "pending_ok s"
    and fuel: "length (due (clock (env s) (ticks s)) (timerQ s)) < fuel"
  shows "scheduleTimer fuel s = schedule_spec s"
proof -
  let ?s = "s\<lparr>ticks := Suc (ticks s)\<rparr>" and ?c = "clock (env s) (ticks s)"
  let ?ds = "due ?c (timerQ s)"
  note start = start_due [OF ok]
  have loop: "schedule_loop fuel ?c (begin_at (timerQ s)) ?s = bnd (forM ?ds fire) (\<lambda>_. next_timer) ?s"
    using loop_runs_due [OF start fuel] by simp
  show ?thesis
  proof (cases "forM ?ds fire ?s")
    case (Inl e)
    then show ?thesis
      by (simp add: scheduleTimer_def schedule_spec_def getcurrtime_def sm_simps loop)
  next
    case (Inr r)
    then obtain s' where s': "forM ?ds fire ?s = Inr ((), s')" by (cases r) auto
    from forM_fire_due [OF start s'] have left: "due_are (ticks s) [] s'" "env s' = env s" by simp_all
    from due_none [OF left(1)] left(2) have "\<forall>t \<in> set (timerQ s'). ?c < tm_timeout t" by simp
    moreover from loop s' have "schedule_loop fuel ?c (begin_at (timerQ s)) ?s = Inr (begin_at (timerQ s'), s')"
      by (simp add: sm_simps next_timer_def)
    ultimately show ?thesis
      using s'
      by (cases "timerQ s'")
        (auto simp: scheduleTimer_def schedule_spec_def rearm_def getcurrtime_def sm_simps
          timer_at_begin intro: le_less_trans [OF word_zero_le])
  qed
qed

section \<open>The loop ends\<close>

text \<open>Only the loop's own fuel can run out: no timer function raises that fault.\<close>

definition unfuelled :: "('s, 'a) sm \<Rightarrow> bool" where
  "unfuelled m \<longleftrightarrow> (\<forall>s. m s \<noteq> Inl OutOfFuel)"

named_theorems unfuelled_intros \<open>functions that do not run out of fuel\<close>

lemma unfuelled_basic [unfuelled_intros]:
  "unfuelled (ret x)" "unfuelled (gets f)" "unfuelled (upd g)" "unfuelled (raise NullDeref)"
  "unfuelled (raise EndDeref)" "unfuelled (raise Diverges)" "unfuelled (raise (HeapOverflow a b))"
  "unfuelled getcurrtime"
  by (simp_all add: unfuelled_def sm_simps getcurrtime_def)

lemma unfuelled_bnd [unfuelled_intros]:
  "unfuelled m \<Longrightarrow> (\<And>x. unfuelled (f x)) \<Longrightarrow> unfuelled (bnd m f)"
  by (auto simp: unfuelled_def bnd_def split: sum.splits)

lemma unfuelled_andthen [unfuelled_intros]: "unfuelled m \<Longrightarrow> unfuelled n \<Longrightarrow> unfuelled (andthen m n)"
  by (simp add: andthen_def unfuelled_bnd)

lemma unfuelled_cases [unfuelled_intros]:
  "(b \<Longrightarrow> unfuelled m) \<Longrightarrow> (\<not> b \<Longrightarrow> unfuelled n) \<Longrightarrow> unfuelled (if b then m else n)"
  "(b \<Longrightarrow> unfuelled k) \<Longrightarrow> unfuelled (whenM b k)"
  "(\<And>x. x = e \<Longrightarrow> unfuelled (h x)) \<Longrightarrow> unfuelled (Let e h)"
  by (auto simp: whenM_def unfuelled_def ret_def)

lemma unfuelled_case_option [unfuelled_intros]:
  "unfuelled m \<Longrightarrow> (\<And>y. unfuelled (f y)) \<Longrightarrow> unfuelled (case x of None \<Rightarrow> m | Some y \<Rightarrow> f y)"
  by (cases x) auto

lemma unfuelled_case_list [unfuelled_intros]:
  "unfuelled m \<Longrightarrow> (\<And>y ys. unfuelled (f y ys)) \<Longrightarrow> unfuelled (case x of [] \<Rightarrow> m | y # ys \<Rightarrow> f y ys)"
  by (cases x) auto

lemma unfuelled_forM [unfuelled_intros]: "(\<And>x. unfuelled (f x)) \<Longrightarrow> unfuelled (forM xs f)"
  by (induction xs) (auto intro: unfuelled_intros)

lemma unfuelled_foldM [unfuelled_intros]: "(\<And>b x. unfuelled (f b x)) \<Longrightarrow> unfuelled (foldM f b xs)"
  by (induction xs arbitrary: b) (auto intro: unfuelled_intros)

lemma unfuelled_send [unfuelled_intros]: "unfuelled (send_bytes d t bs)"
  unfolding send_bytes_def sendPacket_def copyToSendBuf_def emit_def by (intro unfuelled_intros)

lemma unfuelled_la_reply [unfuelled_intros]: "unfuelled (la_reply d v)"
  unfolding la_reply_def emit_def by (intro unfuelled_intros)

lemma unfuelled_timers [unfuelled_intros]:
  "unfuelled (timer_add v h d)" "unfuelled (set_timer v h d)" "unfuelled (setRealTimer v)"
  unfolding set_timer_def timer_add_def setLowestTimer_def setRealTimer_def emit_def
  by (intro unfuelled_intros)+

lemma unfuelled_generateRERR [unfuelled_intros]: "unfuelled (generateRERR d n b)"
  unfolding generateRERR_def rerr_block_def getPrecAddr_def findRoute_def
  by (intro unfuelled_intros)

lemma unfuelled_table [unfuelled_intros]:
  "unfuelled (findRoute k)" "unfuelled (write_route k f)" "unfuelled (add_kroute e)"
  "unfuelled (del_kroute e)" "unfuelled (lr_add k)" "unfuelled (lr_delete k)"
  "unfuelled (getDestSeqNum k)"
  unfolding findRoute_def write_route_def add_kroute_def del_kroute_def emit_def lr_add_def
    lr_delete_def getDestSeqNum_def
  by (intro unfuelled_intros)+

lemma unfuelled_idle [unfuelled_intros]: "unfuelled (FO_query_route_idle_time d f)"
proof -
  have "unfuelled (scan_route_check d f i ls)" for i ls
  proof (induction ls arbitrary: i)
    case (Cons l ls)
    then show ?case by (simp, intro unfuelled_intros)
  qed (simp add: unfuelled_intros)
  then show ?thesis unfolding FO_query_route_idle_time_def by (intro unfuelled_intros)
qed

lemma unfuelled_refresh [unfuelled_intros]: "unfuelled refreshEntries"
  unfolding refreshEntries_def refresh_entry_def route_idle_time_def least_idle_def expire_route_def
    expire_over_def
  by (intro unfuelled_intros)

lemma unfuelled_lists [unfuelled_intros]:
  "unfuelled fw_rreqL_updateEntries" "unfuelled black_list_updateEntries"
  "unfuelled (black_list_addToList d t)"
proof -
  have "unfuelled (fw_rreqL_update_from front l)" for front l
  proof (induction l arbitrary: front)
    case (Cons e l)
    then show ?case by (simp, intro unfuelled_intros)
  qed (simp add: unfuelled_intros)
  then show "unfuelled fw_rreqL_updateEntries"
    unfolding fw_rreqL_updateEntries_def by (intro unfuelled_intros)
qed (unfold black_list_updateEntries_def black_list_addToList_def black_list_inList_def,
    (intro unfuelled_intros)+)

lemma unfuelled_addAllValidRoutes [unfuelled_intros]: "unfuelled addAllValidRoutes"
  unfolding addAllValidRoutes_def
  by (intro unfuelled_bnd unfuelled_basic unfuelled_forM)
    (auto split: prod.split intro: unfuelled_intros)

lemma unfuelled_resend [unfuelled_intros]: "unfuelled (resendRREQ d)"
  unfolding resendRREQ_def resend_entry_def rreqL_write_def rreqL_deleteFromList_def setRREQTimer_def
  by (intro unfuelled_intros)

lemma unfuelled_handlers [unfuelled_intros]:
  "unfuelled sendHello" "unfuelled (LR_handler d)" "unfuelled (rrep_ack_handler d)"
  "unfuelled (neighbor_timeout_handler d)"
  unfolding sendHello_def LR_handler_def rrep_ack_handler_def neighbor_timeout_handler_def
    break_neighbor_def break_over_def
  by (intro unfuelled_intros)+

lemma unfuelled_run_handler: "unfuelled (run_handler h d)"
  by (cases h)
    (simp_all only: run_handler.simps rebootHandler_def periodicHandler_def, (intro unfuelled_intros)+)

lemma unfuelled_fire: "unfuelled (fire t)"
  unfolding fire_def erase_timer_def
  by (intro unfuelled_intros unfuelled_run_handler) (auto split: prod.split intro: unfuelled_intros)

lemma unfuelled_spec: "unfuelled schedule_spec"
  unfolding schedule_spec_def rearm_def by (intro unfuelled_intros unfuelled_fire)

end
