(* ===== verification/Examples.thy ===== *)
theory Examples
  imports Events Scheduler Faults Traffic
begin

text \<open>
  Concrete runs of the daemon, the inputs at which the properties of theory
  \<open>Spec2Isabelle\<close> are exercised: a machine whose clock stands still at a given time, the
  daemon as \<open>main\<close> starts it, a hello message and an RREQ from a neighbour.
\<close>

definition quiet_env :: "u64 \<Rightarrow> env" where
  "quiet_env t = \<lparr>clock = (\<lambda>_. t), proc_route_check = (\<lambda>_. Some []), malloc_usable = (\<lambda>_. 24),
     ifindex = 2, junk_rflags = (\<lambda>_. 0), junk_ttl = (\<lambda>_. 0), junk_precAddr = (\<lambda>_. 0),
     junk_rrep = (\<lambda>_. RREP_new 0 0 0 0 0)\<rparr>"

lemma quiet_env_fields [simp]:
  "clock (quiet_env t) k = t" "proc_route_check (quiet_env t) k = Some []"
  "malloc_usable (quiet_env t) n = 24" "ifindex (quiet_env t) = 2"
  "junk_rflags (quiet_env t) k = 0" "junk_ttl (quiet_env t) k = 0"
  "junk_precAddr (quiet_env t) k = 0" "junk_rrep (quiet_env t) k = RREP_new 0 0 0 0 0"
  by (simp_all add: quiet_env_def)

definition first_env :: env where
  "first_env = (quiet_env 1000)\<lparr>clock := (\<lambda>k. if k < 4 then 1000 else 17000)\<rparr>"

lemma first_env_fields [simp]:
  "clock first_env k = (if k < 4 then 1000 else 17000)" "proc_route_check first_env k = Some []"
  "malloc_usable first_env n = 24" "ifindex first_env = 2" "junk_rflags first_env k = 0"
  by (simp_all add: first_env_def quiet_env_def)

text \<open>The clock shows one second for four readings, and seventeen seconds then.\<close>

definition blank :: node where
  "blank = initial_node first_env (\<lambda>_. 0) (\<lambda>_. 0)"

lemmas blank_fields = blank_def initial_node_def

text \<open>The daemon at the start of its main loop, at address 1, one second after the epoch.\<close>

definition started :: node where
  "started = blank\<lparr>ticks := 3, next_id := 2, g_my_ip := 1, outs := [Setitimer 15 0, Setitimer 1 0],
     timerQ := [\<lparr>tm_timeout = 2000, tm_handler = PeriodicHandler,
                  tm_data = \<lparr>td_type = PERIODIC_TIMER, td_data = 0\<rparr>, tm_id = 1\<rparr>,
                \<lparr>tm_timeout = 16000, tm_handler = RebootHandler,
                  tm_data = \<lparr>td_type = REBOOT_TIMER, td_data = 0\<rparr>, tm_id = 0\<rparr>]\<rparr>"

lemma blank_starts: "aodv_daemon_init 1 blank = Inr ((), started)"
  by (simp add: aodv_daemon_init_def setRebootTimer_def setPeriodicTimer_def set_timer_first_def
      set_timer_def timer_add_def setLowestTimer_def setRealTimer_def emit_def getcurrtime_def sm_simps
      Let_def started_def blank_fields period_values)

lemma node_init_started: "node_init started"
proof -
  have "fresh blank"
    unfolding fresh_def blank_def
    by (intro exI [of _ "\<lambda>_. 0"] exI [of _ "[]"] exI) simp
  with blank_starts show ?thesis by (auto simp: node_init_def)
qed

definition hello_message :: received where
  "hello_message = Datagram 2 (RREP_bytes (RREP_new 2 7 0 0 4000)) None 0"

text \<open>The daemon after a hello message of the neighbour 2.\<close>

definition met :: node where
  "met = started\<lparr>ticks := 4, recvBuffer := write_buf (RREP_bytes (RREP_new 2 7 0 0 4000)) (\<lambda>_. 0),
     rTableMap := [(2, createEntry 2 7 1 2 5000 ACTIVE_ROUTE)]\<rparr>"

lemma message_types:
  "write_buf (RREQ_bytes q) b 0 = rq_type q" "write_buf (RREP_bytes p) b 0 = rp_type p"
  by (simp_all add: write_buf_def RREQ_bytes_def RREP_bytes_def)

lemma RREP_copy_new: "RREP_copy (RREP_new d n src h lt) = RREP_new d n src h lt"
  by (simp add: RREP_copy_def RREP_new_def)

lemma RREP_new_fields:
  "rp_type (RREP_new d n src h lt) = AODV_RREP" "rp_dest_ip (RREP_new d n src h lt) = d"
  "rp_dest_seq_num (RREP_new d n src h lt) = n" "rp_src_ip (RREP_new d n src h lt) = src"
  "rp_hop_cnt (RREP_new d n src h lt) = h" "rp_lifetime (RREP_new d n src h lt) = lt"
  "\<not> rp_A (RREP_new d n src h lt)"
  by (simp_all add: RREP_new_def)

lemma started_hears: "process_aodv hello_message started = Inr ((), met)"
  using rrep.dec_enc [of "RREP_new 2 7 0 0 4000" "\<lambda>_. 0"]
  by (simp add: process_aodv_def hello_message_def readFromSock_def processRecvMsg_def
      processRREP_def reboot_RREP_def rebootNeighborUpdate_def findRoute_def addRoute_def getcurrtime_def
      sm_simps Let_def met_def started_def blank_fields AODVBUFSIZE_def length_RREP_bytes
      message_types RREP_copy_new RREP_new_fields)

text \<open>
  The daemon after an alarm at seventeen seconds: the periodic function invalidates the route,
  which was not used, and the end of the reboot phase sends a hello message.
\<close>

definition own_hello :: "u8 list" where
  "own_hello = RREP_bytes (RREP_new 1 0 0 0 4000)"

definition awake :: node where
  "awake = met\<lparr>ticks := 9, duringReboot := False, next_id := 4, sendBuffer := write_buf own_hello (\<lambda>_. 0),
     rTableMap := [(2, \<lparr>rt_dest_ip = 2, rt_dest_seq_num = 8, rt_interface = 0, rt_hop_cnt = INFINITY_HOPS,
         rt_last_hop_cnt = 1, rt_next_hop = 2, rt_precursors = [], rt_lifetime = 32000,
         rt_routing_flags = INVALID_ROUTE\<rparr>)],
     timerQ := [\<lparr>tm_timeout = 18000, tm_handler = PeriodicHandler,
                  tm_data = \<lparr>td_type = PERIODIC_TIMER, td_data = 0\<rparr>, tm_id = 2\<rparr>,
                \<lparr>tm_timeout = 19000, tm_handler = SendHello,
                  tm_data = \<lparr>td_type = HELLO_TIMER, td_data = 0\<rparr>, tm_id = 3\<rparr>],
     outs := outs met @ [Del_route \<lparr>kr_dst = 2, kr_gateway = 1, kr_genmask = 4294967295, kr_flags = 7,
         kr_metric = 1\<rparr>, SetTTL 1, Sendto BROADCAST_ADDR own_hello, Setitimer 1 0]\<rparr>"

lemmas alarm_run = scheduleTimer_def getcurrtime_def sm_simps begin_at_def timer_at_def
  periodicHandler_def refreshEntries_def refresh_entry_def route_idle_time_def least_idle_def
  FO_query_route_idle_time_def expire_route_def expire_over_def findRoute_def
  write_route_def fw_rreqL_updateEntries_def black_list_updateEntries_def timer_add_def
  del_kroute_def emit_def Let_def sendHello_def send_bytes_def sendPacket_def copyToSendBuf_def
  genSndData_def setRealTimer_def rebootHandler_def addAllValidRoutes_def erase_timer_def
  om_keys_def om_modify_def gen_krtentry_def createEntry_def invalidate_def

lemmas state_fields = awake_def met_def started_def blank_fields

lemma met_wakes: "scheduleTimer (Suc (Suc (Suc 0))) met = Inr ((), awake)"
  by (simp add: alarm_run state_fields own_hello_def word_le_nat_alt word_less_nat_alt period_values
      read_write_buf)

text \<open>The daemon after the next hello message of its neighbour: the route is back.\<close>

definition heard :: node where
  "heard = awake\<lparr>ticks := 12, next_id := 5,
     recvBuffer := write_buf (RREP_bytes (RREP_new 2 7 0 0 4000)) (recvBuffer awake),
     rTableMap := [(2, \<lparr>rt_dest_ip = 2, rt_dest_seq_num = 7, rt_interface = 0, rt_hop_cnt = 1,
         rt_last_hop_cnt = 1, rt_next_hop = 2, rt_precursors = [], rt_lifetime = 21000,
         rt_routing_flags = ACTIVE_ROUTE\<rparr>)],
     timerQ := timerQ awake @ [\<lparr>tm_timeout = 21000, tm_handler = NeighborTimeout,
         tm_data = \<lparr>td_type = ACTIVE_ROUTE_TIMER, td_data = 2\<rparr>, tm_id = 4\<rparr>],
     outs := outs awake @ [Add_route 2 32 2 2 100 0, La_send (LAMessage_generate_stream
       \<lparr>la_cmd = LA_ODS_REPLY, la_dst_address = 2, la_src_address = 0, la_protocol = 0,
        la_result = IP_FOUND\<rparr>)]\<rparr>"

lemmas packet_run = process_aodv_def readFromSock_def processRecvMsg_def processRREP_def
  RREP_recvRREP_def neighborUpdate_def neighbor_route_def neighbor_found_def renew_neighbor_timer_def
  add_kroute_at_def add_kroute_def la_reply_def removeRREQTimer_def remove_timer_def set_timer_def
  setLowestTimer_def AODVBUFSIZE_def is_rreq_timer_def

lemma awake_hears: "process_aodv hello_message awake = Inr ((), heard)"
  using rrep.dec_enc [of "RREP_new 2 7 0 0 4000" "recvBuffer awake"]
  by (simp add: hello_message_def packet_run alarm_run heard_def state_fields length_RREP_bytes
      message_types RREP_copy_new RREP_new_fields set_route_def word_less_nat_alt)

text \<open>The daemon after the agent asked for a route to 9 for a UDP packet: an RREQ is out.\<close>

definition request :: LAMessage where
  "request = \<lparr>la_cmd = LA_ODS_REQUEST, la_dst_address = 9, la_src_address = 1, la_protocol = 17,
     la_result = 0\<rparr>"

definition own_rreq :: RREQ where
  "own_rreq = \<lparr>rq_type = AODV_RREQ, rq_J = False, rq_R = False, rq_G = False, rq_reserved1 = 0,
     rq_reserved2 = 0, rq_hop_cnt = 0, rq_rreq_id = 1, rq_dest_ip = 9, rq_dest_seq_num = 0,
     rq_src_ip = 1, rq_src_seq_num = 1\<rparr>"

definition asking :: node where
  "asking = heard\<lparr>ticks := 15, next_id := 6, rreqId := 1, localSeqNum := 1, needToSendHello := False,
     rreq_list := [\<lparr>pe_rreqOb = own_rreq, pe_retries = 0, pe_ttl = 1\<rparr>],
     sendBuffer := write_buf (RREQ_bytes own_rreq) (\<lambda>_. 0),
     timerQ := \<lparr>tm_timeout = 18000, tm_handler = ResendRREQ,
         tm_data = \<lparr>td_type = RREQ_TIMER, td_data = 9\<rparr>, tm_id = 5\<rparr> # timerQ heard,
     outs := outs heard @ [Setitimer 1 0, SetTTL 1, Sendto BROADCAST_ADDR (RREQ_bytes own_rreq)]\<rparr>"

lemmas agent_run = recv_la_data_def process_asl_def process_asl_local_def sendRREQ_def
  RREQ_createRREQ_def getDestSeqNum_def hold_route_def start_search_def first_ttl_def getTTL_def
  rreqL_addToList_def rreqPendingList_addToList_def setRREQTimer_def findActiveRoute_def

lemma heard_asks: "recv_la_data (LAMessage_generate_stream request) heard = Inr ((), asking)"
proof -
  have "take 1024 (LAMessage_generate_stream request) = LAMessage_generate_stream request"
    "LAMessage_generate_stream request \<noteq> []"
    by (simp_all add: length_LAMessage) (simp add: LAMessage_generate_stream_def)
  then show ?thesis
    by (simp add: agent_run packet_run alarm_run asking_def heard_def state_fields lamsg.dec_enc request_def
        own_rreq_def param_values read_write_buf)
qed

text \<open>These states are reached, by a daemon without the RREP-ACK option.\<close>

lemma reach_started: "reach node_init_noack node_step started"
proof (rule reach_init)
  have "\<not> rrepAckFlag started" by (simp add: started_def blank_fields)
  with node_init_started show "node_init_noack started" by (simp add: node_init_noack_def)
qed

lemma reach_noack_met: "reach node_init_noack node_step met"
  by (rule reach_step [OF reach_started packet [OF started_hears]])

lemma reach_noack_awake: "reach node_init_noack node_step awake"
  by (rule reach_step [OF reach_noack_met alarm [OF met_wakes]])

lemma reach_noack_heard: "reach node_init_noack node_step heard"
  by (rule reach_step [OF reach_noack_awake packet [OF awake_hears]])

lemma reach_noack_asking: "reach node_init_noack node_step asking"
  by (rule reach_step [OF reach_noack_heard agent [OF heard_asks]])

lemma reach_of_noack: "reach node_init_noack node_step s \<Longrightarrow> reach node_init node_step s"
  by (induction rule: reach.induct) (auto simp: node_init_noack_def intro: reach.intros)

text \<open>The agent asks for nothing in the reboot phase of this run.\<close>

lemma calm_heard: "reach node_init calm_step heard"
proof -
  have "reach node_init calm_step started" by (rule reach_init) (rule node_init_started)
  then have "reach node_init calm_step met" by (rule reach_step) (rule calm_packet [OF started_hears])
  then have "reach node_init calm_step awake" by (rule reach_step) (rule calm_alarm [OF met_wakes])
  then show ?thesis by (rule reach_step) (rule calm_packet [OF awake_hears])
qed

lemmas reach_met = reach_of_noack [OF reach_noack_met]
  and reach_awake = reach_of_noack [OF reach_noack_awake]
  and reach_heard = reach_of_noack [OF reach_noack_heard]
  and reach_asking = reach_of_noack [OF reach_noack_asking]

lemma reachable_wf_heard: "rt_wf (rTableMap heard)"
  by (rule table_inv.holds [OF reach_heard])

lemma safe_heard: "ack_free heard" "12 \<le> malloc_usable (env heard) 4"
  by (rule ackfree_inv.holds [OF reach_noack_heard]) (simp add: heard_def state_fields)

lemma safe_asking: "12 \<le> malloc_usable (env asking) 4" "expandingRingSearch asking"
  by (simp_all add: asking_def heard_def state_fields)

lemma safe_wf_reach: "reach node_init_noack node_step s \<Longrightarrow> 12 \<le> malloc_usable (env s) 4 \<Longrightarrow> safe_wf s"
  by (simp add: safe_wf_def safe_def ackfree_inv.holds table_inv.holds reach_of_noack)

end
