(* ===== verification/Netlink.thy ===== *)
theory Netlink
  imports Messages
begin

text \<open>
  The netlink messages between the ODS kernel module (\<open>kernel_module/ODS_kernel\<close>) and its
  library in user space (\<open>lib/ODS\<close>): the header \<open>struct nlmsghdr\<close>, of which the program uses
  the type and the sender, and the memory images of \<open>struct rt_info\<close> (a packet that waits for
  a route) and \<open>struct rt_result\<close> (the answer). Both sides declare the structures with the
  same layout (x86-64, GCC): \<open>protocol\<close> is followed by three and \<open>mac_dst_addr\<close> by two bytes
  of padding.
\<close>

abbreviation (input) NLMSG_TYPE_INIT :: "16 word" where "NLMSG_TYPE_INIT \<equiv> 0"
abbreviation (input) NLMSG_TYPE_INFO :: "16 word" where "NLMSG_TYPE_INFO \<equiv> 1"
abbreviation (input) NLMSG_TYPE_EXIT :: "16 word" where "NLMSG_TYPE_EXIT \<equiv> 2"

text \<open>\<open>LOCAL\<close> and \<open>OTHER\<close> of the module, \<open>PACKET_FROM_LOCAL\<close> and \<open>PACKET_FROM_OTHER\<close> of the library.\<close>

abbreviation (input) LOCAL :: u32 where "LOCAL \<equiv> 0"
abbreviation (input) OTHER :: u32 where "OTHER \<equiv> 1"

text \<open>\<open>nl_data\<close> is the memory from \<open>NLMSG_DATA\<close> on.\<close>

record nlmsg =
  nl_len :: nat
  nl_type :: "16 word"
  nl_pid :: u32
  nl_data :: buffer

record rt_message =
  ri_dst :: ip
  ri_src :: ip
  ri_proto :: u8
  ri_packet_source_type :: u32
  ri_mac_dst_addr :: "u8 list"

definition rt_info_bytes :: "buffer \<Rightarrow> rt_message \<Rightarrow> u8 list" where
  "rt_info_bytes pad i = le32 (ri_dst i) @ le32 (ri_src i) @ [ri_proto i, pad 0, pad 1, pad 2]
     @ le32 (ri_packet_source_type i) @ ri_mac_dst_addr i @ [pad 3, pad 4]"

definition rt_info_at :: "buffer \<Rightarrow> rt_message" where
  "rt_info_at b = \<lparr>ri_dst = read32 b 0, ri_src = read32 b 4, ri_proto = b 8,
     ri_packet_source_type = read32 b 12, ri_mac_dst_addr = map b [16..<22]\<rparr>"

record rt_result =
  rr_now_ip :: ip
  rr_result :: u32

definition rt_result_bytes :: "rt_result \<Rightarrow> u8 list" where
  "rt_result_bytes r = le32 (rr_now_ip r) @ le32 (rr_result r)"

definition rt_result_at :: "buffer \<Rightarrow> rt_result" where
  "rt_result_at b = \<lparr>rr_now_ip = read32 b 0, rr_result = read32 b 4\<rparr>"

lemma length_rt_info_bytes: "length (rt_info_bytes pad i) = 18 + length (ri_mac_dst_addr i)"
  by (simp add: rt_info_bytes_def)

lemma length_rt_result_bytes: "length (rt_result_bytes r) = 8"
  by (simp add: rt_result_bytes_def)

interpretation rtinfo: codec "rt_info_bytes pad" rt_info_at "\<lambda>i. length (ri_mac_dst_addr i) = 6" for pad
proof
  fix i :: rt_message and b
  assume mac: "length (ri_mac_dst_addr i) = 6"
  let ?p = "[ri_proto i, pad 0, pad 1, pad 2]"
  let ?b = "write_buf (rt_info_bytes pad i) b"
  have "read32 ?b 0 = ri_dst i"
    using read32_append [of "[]" 0 "ri_dst i"] by (simp add: rt_info_bytes_def)
  moreover have "read32 ?b 4 = ri_src i"
    using read32_append [of "le32 (ri_dst i)" 4 "ri_src i"] by (simp add: rt_info_bytes_def)
  moreover have "read32 ?b 12 = ri_packet_source_type i"
    using read32_append [of "le32 (ri_dst i) @ le32 (ri_src i) @ ?p" 12 "ri_packet_source_type i"]
    by (simp add: rt_info_bytes_def)
  moreover have "?b 8 = ri_proto i"
    by (simp add: write_buf_def rt_info_bytes_def nth_append)
  moreover have "map ?b [16..<22] = ri_mac_dst_addr i"
    using map_write_buf_append [of "le32 (ri_dst i) @ le32 (ri_src i) @ ?p
        @ le32 (ri_packet_source_type i)" 16 "ri_mac_dst_addr i" 6] mac
    by (simp add: rt_info_bytes_def)
  ultimately show "rt_info_at ?b = i" by (simp add: rt_info_at_def)
qed

interpretation rtresult: codec rt_result_bytes rt_result_at "\<lambda>_. True"
  using read32_append [of "[]" 0]  read32_append [of "le32 v" 4 w "[]" for v w]
  by unfold_locales (simp add: rt_result_at_def rt_result_bytes_def)

end
