(* ===== verification/Packet_Queue.thy ===== *)
theory Packet_Queue
  imports Netlink
begin

text \<open>
  The ODS kernel module (\<open>kernel_module/ODS_kernel\<close>): the netfilter hook that steals packets
  routed to the device \<open>mytun\<close> (\<open>packet_judgment.c\<close>), the queue they wait in
  (\<open>packet_queue.c\<close>), and the netlink messages that ask user space for routes and bring its
  answers (\<open>info_transmission.c\<close>). A packet is an \<open>sk_buff\<close>, of which the module uses the
  headers and the route attached to it. The list of the queue is kept in the order of its
  \<open>next\<close> pointers: \<open>list_add\<close> puts an element in front, and the searches follow \<open>prev\<close>.
\<close>

section \<open>Packets, the module's variables and its environment\<close>

text \<open>
  \<open>sk_id\<close> is the identity of the packet; \<open>sk_dst_dev\<close> is the device of the attached route,
  \<open>skb_dst (skb)->dev->name\<close>.
\<close>

record sk_buff =
  sk_id :: nat
  sk_daddr :: ip
  sk_saddr :: ip
  sk_protocol :: u8
  sk_tos :: u8
  sk_h_dest :: "u8 list"
  sk_dst_dev :: string

record packet_queue_element =
  el_skb :: sk_buff
  el_src_ip :: ip
  el_dst_ip :: ip
  el_type :: u32
  el_mac_dst_addr :: "u8 list"
  el_dev :: string
  el_protocol :: u8

record packet_queue_head =
  qh_len :: int
  qh_maxlen :: int
  qh_list :: "packet_queue_element list"

text \<open>A pointer of the module, and what becomes of it after \<open>kfree\<close>.\<close>

datatype 'a kptr = Null | Ptr 'a | Freed

text \<open>
  What the module gets from the kernel, by a running number of requests: whether an allocation
  succeeds; the device \<open>ip_route_output\<close> and \<open>ip_route_input_noref\<close> find for a destination,
  source and type of service (\<open>None\<close>: an error); six bytes of an uninitialised variable; what
  \<open>nf_register_net_hook\<close> returns; whether \<open>netlink_kernel_create\<close> succeeds.
\<close>

record kenv =
  k_alloc :: "nat \<Rightarrow> bool"
  k_route_output :: "nat \<Rightarrow> ip \<Rightarrow> ip \<Rightarrow> u8 \<Rightarrow> string option"
  k_route_input :: "nat \<Rightarrow> ip \<Rightarrow> ip \<Rightarrow> u8 \<Rightarrow> string option"
  k_junk :: "nat \<Rightarrow> u8 list"
  k_register :: "nat \<Rightarrow> int"
  k_netlink :: "nat \<Rightarrow> bool"

text \<open>What the module does to its environment.\<close>

datatype keffect =
    Kfree_skb sk_buff
  | Xmit sk_buff
  | Netlink_unicast u32 nlmsg

record kmod =
  kenv :: kenv
  kticks :: nat
  my_queue_head :: "packet_queue_head kptr"
  transmission_flag :: bool
  user_pid :: u32
  socket_of_netlink :: bool
  hooks :: "u32 list"
  kouts :: "keffect list"

abbreviation (input) TUNNAME :: string where "TUNNAME \<equiv> ''mytun''"
abbreviation (input) SENDDEV :: string where "SENDDEV \<equiv> ''ens33''"
abbreviation (input) MAX_PACKET_NUMBER :: int where "MAX_PACKET_NUMBER \<equiv> 1000"
abbreviation (input) NF_DROP :: u32 where "NF_DROP \<equiv> 0"
abbreviation (input) NF_ACCEPT :: u32 where "NF_ACCEPT \<equiv> 1"
abbreviation (input) NF_STOLEN :: u32 where "NF_STOLEN \<equiv> 2"

definition ask :: "(kenv \<Rightarrow> nat \<Rightarrow> 'a) \<Rightarrow> (kmod, 'a) sm" where
  "ask f = (\<lambda>s. Inr (f (kenv s) (kticks s), s\<lparr>kticks := Suc (kticks s)\<rparr>))"

definition kemit :: "keffect \<Rightarrow> (kmod, unit) sm" where
  "kemit e = upd (\<lambda>s. s\<lparr>kouts := kouts s @ [e]\<rparr>)"

text \<open>Access through the pointer \<open>my_queue_head\<close>, reading and writing.\<close>

definition the_queue :: "(kmod, packet_queue_head) sm" where
  "the_queue =
     bnd (gets my_queue_head) (\<lambda>p.
     case p of Null \<Rightarrow> raise NullDeref | Freed \<Rightarrow> raise UseAfterFree | Ptr h \<Rightarrow> ret h)"

definition put_queue :: "packet_queue_head \<Rightarrow> (kmod, unit) sm" where
  "put_queue h = upd (\<lambda>s. s\<lparr>my_queue_head := Ptr h\<rparr>)"

section \<open>The queue\<close>

definition element_of :: "sk_buff \<Rightarrow> u32 \<Rightarrow> packet_queue_element" where
  "element_of skb type =
     \<lparr>el_skb = skb, el_src_ip = sk_saddr skb, el_dst_ip = sk_daddr skb, el_type = type,
      el_mac_dst_addr = sk_h_dest skb, el_dev = sk_dst_dev skb, el_protocol = sk_protocol skb\<rparr>"

definition packet_enqueue :: "sk_buff \<Rightarrow> u32 \<Rightarrow> (kmod, int) sm" where
  "packet_enqueue skb type =
     bnd (ask k_alloc) (\<lambda>ok.
     if \<not> ok then ret 1
     else
       bnd the_queue (\<lambda>h.
       if qh_len h < qh_maxlen h then
         andthen (put_queue (h\<lparr>qh_list := element_of skb type # qh_list h, qh_len := qh_len h + 1\<rparr>))
           (ret 0)
       else ret 1))"

text \<open>The first element of a list that satisfies a test, and the list without it.\<close>

fun take_first :: "('a \<Rightarrow> bool) \<Rightarrow> 'a list \<Rightarrow> ('a \<times> 'a list) option" where
  "take_first p [] = None"
| "take_first p (x # xs) =
     (if p x then Some (x, xs) else map_option (\<lambda>(y, r). (y, x # r)) (take_first p xs))"

definition packet_dequeue ::
    "(packet_queue_element \<Rightarrow> ip \<Rightarrow> int) option \<Rightarrow> ip \<Rightarrow> (kmod, packet_queue_element option) sm" where
  "packet_dequeue cmp now_ip =
     bnd the_queue (\<lambda>h.
     case take_first (\<lambda>e. case cmp of None \<Rightarrow> True | Some c \<Rightarrow> c e now_ip \<noteq> 0) (rev (qh_list h)) of
       None \<Rightarrow> ret None
     | Some (e, l) \<Rightarrow>
         andthen (put_queue (h\<lparr>qh_list := rev l, qh_len := qh_len h - 1\<rparr>)) (ret (Some e)))"

definition judge_ip :: "packet_queue_element \<Rightarrow> ip \<Rightarrow> int" where
  "judge_ip now_entry now_ip = (if el_dst_ip now_entry = now_ip then 1 else 0)"

definition pending_ip :: "ip \<Rightarrow> (kmod, bool) sm" where
  "pending_ip now_ip =
     bnd the_queue (\<lambda>h. ret (list_ex (\<lambda>e. el_dst_ip e = now_ip) (rev (qh_list h))))"

definition init_packet_queue :: "(kmod, int) sm" where
  "init_packet_queue =
     bnd (ask k_alloc) (\<lambda>ok.
     if \<not> ok then andthen (upd (\<lambda>s. s\<lparr>my_queue_head := Null\<rparr>)) (ret 1)
     else andthen (put_queue \<lparr>qh_len = 0, qh_maxlen = MAX_PACKET_NUMBER, qh_list = []\<rparr>) (ret 0))"

section \<open>Messages to user space\<close>

text \<open>
  \<open>alloc_skb\<close> and \<open>nlmsg_put\<close> of 40 bytes, 16 for the header; the padding of the structure is
  not initialised. \<open>netlink_unicast\<close> goes through the module's socket.
\<close>

definition send_rtinfo :: "rt_message \<Rightarrow> (kmod, int) sm" where
  "send_rtinfo now_info =
     bnd (ask k_alloc) (\<lambda>ok.
     if \<not> ok then ret (- 1)
     else
       bnd (ask k_junk) (\<lambda>pad.
       bnd (gets socket_of_netlink) (\<lambda>sock.
       bnd (gets user_pid) (\<lambda>pid.
       if \<not> sock then raise NullDeref
       else andthen
         (kemit (Netlink_unicast pid \<lparr>nl_len = 40, nl_type = NLMSG_TYPE_INFO, nl_pid = 0,
            nl_data = write_buf (rt_info_bytes (\<lambda>i. pad ! i) now_info) (\<lambda>_. 0)\<rparr>))
         (ret 0)))))"

definition transmit_rtinfo :: "sk_buff \<Rightarrow> u32 \<Rightarrow> (kmod, unit) sm" where
  "transmit_rtinfo skb type =
     bnd (ask k_junk) (\<lambda>junk.
     bnd (send_rtinfo \<lparr>ri_dst = sk_daddr skb, ri_src = sk_saddr skb, ri_proto = sk_protocol skb,
            ri_packet_source_type = type,
            ri_mac_dst_addr = (if type = OTHER then sk_h_dest skb else junk)\<rparr>) (\<lambda>_.
     ret ()))"

section \<open>Packets that arrive\<close>

definition receive_packet :: "sk_buff \<Rightarrow> u32 \<Rightarrow> (kmod, int) sm" where
  "receive_packet skb type =
     bnd (gets transmission_flag) (\<lambda>enqueue_flag.
     if \<not> enqueue_flag then andthen (kemit (Kfree_skb skb)) (ret 1)
     else
       bnd (pending_ip (sk_daddr skb)) (\<lambda>pending.
       andthen (whenM (\<not> pending) (transmit_rtinfo skb type))
       (bnd (packet_enqueue skb type) (\<lambda>enqueue_ret.
        andthen (whenM (enqueue_ret \<noteq> 0) (kemit (Kfree_skb skb))) (ret 0)))))"

definition judgment_packet :: "sk_buff \<Rightarrow> bool" where
  "judgment_packet skb = (sk_dst_dev skb \<noteq> TUNNAME)"

definition check_packet :: "u32 \<Rightarrow> sk_buff \<Rightarrow> (kmod, u32) sm" where
  "check_packet hookindex skb =
     (if judgment_packet skb then ret NF_ACCEPT
      else if hookindex = LOCAL then andthen (bnd (receive_packet skb LOCAL) (\<lambda>_. ret ())) (ret NF_STOLEN)
      else if hookindex = OTHER then andthen (bnd (receive_packet skb OTHER) (\<lambda>_. ret ())) (ret NF_STOLEN)
      else ret NF_STOLEN)"

section \<open>Packets that are released\<close>

text \<open>
  \<open>ip_route_output\<close> returns an error as a pointer into the last page of memory, which
  \<open>reroute\<close> attaches to the packet as it is; a failed \<open>ip_route_input_noref\<close> leaves the route
  of the packet alone.
\<close>

definition reroute :: "sk_buff \<Rightarrow> u32 \<Rightarrow> (kmod, sk_buff) sm" where
  "reroute skb type =
     (if type = LOCAL then
        bnd (ask k_route_output) (\<lambda>rt.
        case rt (sk_daddr skb) (sk_saddr skb) (sk_tos skb) of
          None \<Rightarrow> raise WildPointer
        | Some dev \<Rightarrow> ret (skb\<lparr>sk_dst_dev := dev\<rparr>))
      else if type = OTHER then
        bnd (ask k_route_input) (\<lambda>rt.
        case rt (sk_daddr skb) (sk_saddr skb) (sk_tos skb) of
          None \<Rightarrow> ret skb
        | Some dev \<Rightarrow> ret (skb\<lparr>sk_dst_dev := dev\<rparr>))
      else ret skb)"

text \<open>
  \<open>ip_local_out\<close> sends a packet on its way through the hooks, at \<open>POST_ROUTING\<close> through the
  module's own \<open>check_packet\<close> as long as that is registered there.
\<close>

definition ip_local_out :: "sk_buff \<Rightarrow> (kmod, unit) sm" where
  "ip_local_out skb =
     bnd (gets hooks) (\<lambda>hs.
     bnd (if LOCAL \<in> set hs then check_packet LOCAL skb else ret NF_ACCEPT) (\<lambda>verdict.
     whenM (verdict = NF_ACCEPT) (kemit (Xmit skb))))"

fun send_packet :: "nat \<Rightarrow> ip \<Rightarrow> u32 \<Rightarrow> (kmod, unit) sm" where
  "send_packet 0 dst_ip verdict = raise OutOfFuel"
| "send_packet (Suc n) dst_ip verdict =
     bnd (packet_dequeue (Some judge_ip) dst_ip) (\<lambda>now_entry.
     case now_entry of None \<Rightarrow> ret ()
     | Some e \<Rightarrow>
         andthen
           (if verdict = NF_DROP then kemit (Kfree_skb (el_skb e))
            else if verdict = NF_ACCEPT then bnd (reroute (el_skb e) (el_type e)) ip_local_out
            else ret ())
           (send_packet n dst_ip verdict))"

text \<open>\<open>while (my_queue_head->len)\<close>; the route of each packet gets another device first.\<close>

fun cleanup_packet_queue :: "nat \<Rightarrow> (kmod, unit) sm" where
  "cleanup_packet_queue 0 = raise OutOfFuel"
| "cleanup_packet_queue (Suc n) =
     bnd the_queue (\<lambda>h.
     if qh_len h = 0 then ret ()
     else
       bnd (packet_dequeue None 0) (\<lambda>entry.
       case entry of None \<Rightarrow> raise NullDeref
       | Some e \<Rightarrow>
           andthen (kemit (Kfree_skb ((el_skb e)\<lparr>sk_dst_dev := SENDDEV\<rparr>))) (cleanup_packet_queue n)))"

definition clear_packet_queue :: "nat \<Rightarrow> (kmod, unit) sm" where
  "clear_packet_queue n =
     andthen (cleanup_packet_queue n) (upd (\<lambda>s. s\<lparr>my_queue_head := Freed\<rparr>))"

section \<open>Messages from user space\<close>

definition deal_init_msg :: "nlmsg \<Rightarrow> (kmod, unit) sm" where
  "deal_init_msg m = upd (\<lambda>s. s\<lparr>user_pid := nl_pid m, transmission_flag := True\<rparr>)"

definition deal_info_msg :: "nat \<Rightarrow> nlmsg \<Rightarrow> (kmod, unit) sm" where
  "deal_info_msg fuel m =
     (let r = rt_result_at (nl_data m) in
      if rr_result r = IP_FOUND then send_packet fuel (rr_now_ip r) NF_ACCEPT
      else send_packet fuel (rr_now_ip r) NF_DROP)"

definition deal_exit_msg :: "nlmsg \<Rightarrow> (kmod, unit) sm" where
  "deal_exit_msg m = upd (\<lambda>s. s\<lparr>user_pid := nl_pid m, transmission_flag := False\<rparr>)"

definition recv_msg :: "nat \<Rightarrow> nlmsg \<Rightarrow> (kmod, unit) sm" where
  "recv_msg fuel m =
     (if nl_type m = NLMSG_TYPE_INIT then deal_init_msg m
      else if nl_type m = NLMSG_TYPE_INFO then deal_info_msg fuel m
      else if nl_type m = NLMSG_TYPE_EXIT then deal_exit_msg m
      else ret ())"

section \<open>Loading and unloading\<close>

definition init_judgment_hook :: "(kmod, int) sm" where
  "init_judgment_hook =
     bnd (ask k_register) (\<lambda>ret_forward.
     andthen (whenM (ret_forward = 0) (upd (\<lambda>s. s\<lparr>hooks := OTHER # hooks s\<rparr>)))
     (bnd (ask k_register) (\<lambda>ret_postrouting.
      andthen (whenM (ret_postrouting = 0) (upd (\<lambda>s. s\<lparr>hooks := LOCAL # hooks s\<rparr>)))
        (ret (if ret_forward = 0 \<and> ret_postrouting = 0 then 0 else 1)))))"

definition init_netlink :: "(kmod, int) sm" where
  "init_netlink =
     bnd (ask k_netlink) (\<lambda>ok.
     andthen (upd (\<lambda>s. s\<lparr>socket_of_netlink := ok\<rparr>)) (ret (if ok then 0 else 1)))"

definition clear_netlink :: "(kmod, unit) sm" where
  "clear_netlink =
     bnd (gets socket_of_netlink) (\<lambda>sock.
     whenM sock (upd (\<lambda>s. s\<lparr>socket_of_netlink := False\<rparr>)))"

definition clear_judgment_hook :: "(kmod, unit) sm" where
  "clear_judgment_hook = upd (\<lambda>s. s\<lparr>hooks := []\<rparr>)"

definition init_mymodule :: "(kmod, int) sm" where
  "init_mymodule =
     bnd init_judgment_hook (\<lambda>judgment_hook_ret.
     if judgment_hook_ret \<noteq> 0 then ret 1
     else
       bnd init_packet_queue (\<lambda>packet_queue_ret.
       if packet_queue_ret \<noteq> 0 then ret 1
       else
         bnd init_netlink (\<lambda>netlink_ret.
         if netlink_ret \<noteq> 0 then ret 1 else ret 0)))"

definition exit_mymodule :: "nat \<Rightarrow> (kmod, unit) sm" where
  "exit_mymodule fuel =
     andthen clear_netlink (andthen (clear_packet_queue fuel) clear_judgment_hook)"

end
