(* ===== verification/Packet_Laws.thy ===== *)
theory Packet_Laws
  imports Packet_Queue "HOL-Library.Multiset"
begin

text \<open>
  What the ODS kernel module promises: its queue is first-in first-out for every destination
  (locale \<open>fifo\<close>), no packet is lost or doubled (\<open>account\<close>), and as long as the module is not
  being unloaded no hook runs into an invalid pointer (\<open>kmod_inv\<close>, over the steps
  \<open>kmod_step\<close>).
\<close>

section \<open>The queue as a first-in first-out store\<close>

locale fifo =
  fixes items :: "'q \<Rightarrow> 'a list" and enq :: "'a \<Rightarrow> 'q \<Rightarrow> 'q"
    and deq :: "('a \<Rightarrow> bool) \<Rightarrow> 'q \<Rightarrow> ('a \<times> 'q) option"
  assumes items_enq: "items (enq x q) = items q @ [x]"
    and deq_None: "deq p q = None \<longleftrightarrow> (\<forall>x \<in> set (items q). \<not> p x)"
    and deq_Some: "deq p q = Some (x, q') \<Longrightarrow>
        \<exists>a b. items q = a @ x # b \<and> items q' = a @ b \<and> p x \<and> (\<forall>u \<in> set a. \<not> p u)"
begin

lemma deq_oldest: "deq p q = Some (x, q') \<Longrightarrow> filter p (items q) = x # filter p (items q')"
  by (drule deq_Some) auto

lemma deq_others:
  "deq p q = Some (x, q') \<Longrightarrow> filter (\<lambda>u. \<not> p u) (items q') = filter (\<lambda>u. \<not> p u) (items q)"
  by (drule deq_Some) auto

lemma deq_length: "deq p q = Some (x, q') \<Longrightarrow> length (items q) = Suc (length (items q'))"
  by (drule deq_Some) auto

lemma deq_sat: "deq p q = Some (x, q') \<Longrightarrow> p x"
  by (drule deq_Some) auto

lemma deq_mset: "deq p q = Some (x, q') \<Longrightarrow> mset (items q) = add_mset x (mset (items q'))"
  by (drule deq_Some) auto

lemma deq_empty: "deq p q = None \<Longrightarrow> filter p (items q) = [] \<and> filter (\<lambda>u. \<not> p u) (items q) = items q"
  by (auto simp: deq_None filter_empty_conv intro!: filter_True)

end

definition deq_last :: "('a \<Rightarrow> bool) \<Rightarrow> 'a list \<Rightarrow> ('a \<times> 'a list) option" where
  "deq_last p l = map_option (\<lambda>(x, r). (x, rev r)) (take_first p (rev l))"

lemma take_first_None: "take_first p xs = None \<longleftrightarrow> (\<forall>x \<in> set xs. \<not> p x)"
  by (induction xs) auto

lemma take_first_Some:
  "take_first p xs = Some (x, r) \<Longrightarrow> \<exists>a b. xs = a @ x # b \<and> r = a @ b \<and> p x \<and> (\<forall>u \<in> set a. \<not> p u)"
proof (induction xs arbitrary: r)
  case (Cons y ys)
  show ?case
  proof (cases "p y")
    case True
    with Cons.prems show ?thesis by (intro exI [of _ "[]"] exI [of _ ys]) auto
  next
    case False
    with Cons.prems obtain r' where r: "take_first p ys = Some (x, r')" "r = y # r'"
      by (auto split: prod.splits)
    from Cons.IH [OF r(1)] obtain a b where "ys = a @ x # b \<and> r' = a @ b \<and> p x \<and> (\<forall>u \<in> set a. \<not> p u)"
      by blast
    with False r(2) show ?thesis by (intro exI [of _ "y # a"] exI [of _ b]) auto
  qed
qed simp

interpretation pq: fifo rev Cons deq_last
proof
  fix p :: "'a \<Rightarrow> bool" and l x l'
  show "deq_last p l = None \<longleftrightarrow> (\<forall>x \<in> set (rev l). \<not> p x)"
    by (simp add: deq_last_def take_first_None)
  show "deq_last p l = Some (x, l') \<Longrightarrow>
      \<exists>a b. rev l = a @ x # b \<and> rev l' = a @ b \<and> p x \<and> (\<forall>u \<in> set a. \<not> p u)"
    by (auto simp: deq_last_def dest: take_first_Some)
qed simp

lemma packet_dequeue_eq:
  "packet_dequeue cmp now_ip =
     bnd the_queue (\<lambda>h.
     case deq_last (\<lambda>e. case cmp of None \<Rightarrow> True | Some c \<Rightarrow> c e now_ip \<noteq> 0) (qh_list h) of
       None \<Rightarrow> ret None
     | Some (e, l) \<Rightarrow>
         andthen (put_queue (h\<lparr>qh_list := l, qh_len := qh_len h - 1\<rparr>)) (ret (Some e)))"
  unfolding packet_dequeue_def
  by (intro arg_cong [where f = "bnd the_queue"] ext)
    (auto simp: deq_last_def split: option.split)

section \<open>Well-formed queues\<close>

definition elem_ok :: "packet_queue_element \<Rightarrow> bool" where
  "elem_ok e \<longleftrightarrow> e = element_of (el_skb e) (el_type e) \<and> (el_type e = LOCAL \<or> el_type e = OTHER)
     \<and> sk_dst_dev (el_skb e) = TUNNAME"

definition head_ok :: "packet_queue_head \<Rightarrow> bool" where
  "head_ok h \<longleftrightarrow> qh_len h = int (length (qh_list h)) \<and> qh_maxlen h = MAX_PACKET_NUMBER
     \<and> qh_len h \<le> MAX_PACKET_NUMBER \<and> (\<forall>e \<in> set (qh_list h). elem_ok e)"

definition kmod_inv :: "kmod \<Rightarrow> bool" where
  "kmod_inv s \<longleftrightarrow> (transmission_flag s \<longrightarrow> socket_of_netlink s)
     \<and> (socket_of_netlink s \<longrightarrow> (\<exists>h. my_queue_head s = Ptr h \<and> head_ok h))
     \<and> (\<forall>h. my_queue_head s = Ptr h \<longrightarrow> head_ok h)"

text \<open>The packets that wait for a destination, oldest first, and whether there are any.\<close>

definition waiting :: "ip \<Rightarrow> packet_queue_head \<Rightarrow> packet_queue_element list" where
  "waiting dst h = filter (\<lambda>e. el_dst_ip e = dst) (rev (qh_list h))"

lemma elem_ok_element: "type = LOCAL \<or> type = OTHER \<Longrightarrow> sk_dst_dev skb = TUNNAME \<Longrightarrow> elem_ok (element_of skb type)"
  by (auto simp: elem_ok_def element_of_def)

lemma kmod_inv_queue:
  "kmod_inv s \<Longrightarrow> transmission_flag s \<Longrightarrow> \<exists>h. my_queue_head s = Ptr h \<and> head_ok h \<and> socket_of_netlink s"
  by (auto simp: kmod_inv_def)

lemmas queue_run = the_queue_def put_queue_def ask_def kemit_def sm_simps

text \<open>The message that asks for the route of a packet.\<close>

definition request_of :: "sk_buff \<Rightarrow> u32 \<Rightarrow> u8 list \<Rightarrow> buffer \<Rightarrow> nlmsg" where
  "request_of skb type junk pad =
     \<lparr>nl_len = 40, nl_type = NLMSG_TYPE_INFO, nl_pid = 0,
      nl_data = write_buf (rt_info_bytes pad
        \<lparr>ri_dst = sk_daddr skb, ri_src = sk_saddr skb, ri_proto = sk_protocol skb,
         ri_packet_source_type = type,
         ri_mac_dst_addr = (if type = OTHER then sk_h_dest skb else junk)\<rparr>) (\<lambda>_. 0)\<rparr>"

text \<open>
  A packet that arrives while the library is connected: whether a request is sent, whether the
  packet is queued, and nothing else.
\<close>

lemma receive_packet_run:
  assumes "transmission_flag s" "my_queue_head s = Ptr h" "socket_of_netlink s" "head_ok h"
  obtains asks acc ticks' where
    "receive_packet skb type s = Inr (0, s\<lparr>kticks := ticks',
       kouts := kouts s @ asks @ (if acc then [] else [Kfree_skb skb]),
       my_queue_head := Ptr (if acc then h\<lparr>qh_list := element_of skb type # qh_list h,
         qh_len := qh_len h + 1\<rparr> else h)\<rparr>)"
    "acc \<longrightarrow> qh_len h < MAX_PACKET_NUMBER"
    "asks = [] \<or> waiting (sk_daddr skb) h = []
       \<and> (\<exists>junk pad. asks = [Netlink_unicast (user_pid s) (request_of skb type junk pad)])"
    "(\<forall>k. k_alloc (kenv s) k) \<longrightarrow>
       acc = (qh_len h < MAX_PACKET_NUMBER) \<and> (asks = [] \<longleftrightarrow> waiting (sk_daddr skb) h \<noteq> [])"
proof -
  let ?t = "kticks s"
  let ?pend = "waiting (sk_daddr skb) h \<noteq> []"
  have pend: "list_ex (\<lambda>e. el_dst_ip e = sk_daddr skb) (qh_list h) = ?pend"
    by (simp add: waiting_def list_ex_iff filter_empty_conv)
  have max: "qh_maxlen h = MAX_PACKET_NUMBER" using assms by (simp add: head_ok_def)
  show thesis
  proof (cases ?pend)
    case True
    show thesis
      by (rule that [where asks = "[]" and ticks' = "Suc ?t"
          and acc = "k_alloc (kenv s) ?t \<and> qh_len h < MAX_PACKET_NUMBER"])
        (use assms True in \<open>auto simp: receive_packet_def pending_ip_def packet_enqueue_def queue_run pend max\<close>)
  next
    case False
    let ?t2 = "if k_alloc (kenv s) (Suc ?t) then Suc (Suc (Suc ?t)) else Suc (Suc ?t)"
    show thesis
      by (rule that [where ticks' = "Suc ?t2" and asks =
          "if k_alloc (kenv s) (Suc ?t)
           then [Netlink_unicast (user_pid s) (request_of skb type (k_junk (kenv s) ?t)
             (\<lambda>i. k_junk (kenv s) (Suc (Suc ?t)) ! i))] else []"
          and acc = "k_alloc (kenv s) ?t2 \<and> qh_len h < MAX_PACKET_NUMBER"])
        (use assms False in \<open>auto simp: receive_packet_def pending_ip_def packet_enqueue_def transmit_rtinfo_def
          send_rtinfo_def request_of_def queue_run pend max\<close>)
  qed
qed

section \<open>Releasing the packets of a destination\<close>

definition others :: "ip \<Rightarrow> packet_queue_head \<Rightarrow> packet_queue_element list" where
  "others dst h = filter (\<lambda>e. el_dst_ip e \<noteq> dst) (rev (qh_list h))"

definition without :: "ip \<Rightarrow> packet_queue_head \<Rightarrow> packet_queue_head" where
  "without dst h = h\<lparr>qh_list := rev (others dst h), qh_len := qh_len h - int (length (waiting dst h))\<rparr>"

definition release :: "u32 \<Rightarrow> packet_queue_element \<Rightarrow> (kmod, unit) sm" where
  "release verdict e =
     (if verdict = NF_DROP then kemit (Kfree_skb (el_skb e))
      else if verdict = NF_ACCEPT then bnd (reroute (el_skb e) (el_type e)) ip_local_out
      else ret ())"

lemma send_packet_Suc:
  "send_packet (Suc n) dst verdict =
     bnd (packet_dequeue (Some judge_ip) dst) (\<lambda>r.
     case r of None \<Rightarrow> ret () | Some e \<Rightarrow> andthen (release verdict e) (send_packet n dst verdict))"
  by (simp only: send_packet.simps release_def)

lemma judge_ip_eq: "(judge_ip e dst \<noteq> 0) = (el_dst_ip e = dst)"
  by (simp add: judge_ip_def)

lemma dequeue_none:
  assumes "my_queue_head s = Ptr h" "waiting dst h = []"
  shows "packet_dequeue (Some judge_ip) dst s = Inr (None, s)"
proof -
  from assms(2) have "deq_last (\<lambda>e. el_dst_ip e = dst) (qh_list h) = None"
    by (simp add: pq.deq_None waiting_def filter_empty_conv)
  with assms(1) show ?thesis by (simp add: packet_dequeue_eq judge_ip_eq queue_run)
qed

lemma dequeue_some:
  assumes q: "my_queue_head s = Ptr h" and w: "waiting dst h = e # r"
  obtains l where
    "packet_dequeue (Some judge_ip) dst s =
       Inr (Some e, s\<lparr>my_queue_head := Ptr (h\<lparr>qh_list := l, qh_len := qh_len h - 1\<rparr>)\<rparr>)"
    "waiting dst (h\<lparr>qh_list := l, qh_len := qh_len h - 1\<rparr>) = r"
    "others dst (h\<lparr>qh_list := l, qh_len := qh_len h - 1\<rparr>) = others dst h"
    "mset (qh_list h) = add_mset e (mset l)" "el_dst_ip e = dst"
proof -
  let ?p = "\<lambda>e. el_dst_ip e = dst"
  have "e \<in> set (waiting dst h)" using w by simp
  then have "e \<in> set (qh_list h)" "?p e" by (simp_all add: waiting_def)
  then have "deq_last ?p (qh_list h) \<noteq> None" by (auto simp: pq.deq_None)
  then obtain e' l where d: "deq_last ?p (qh_list h) = Some (e', l)" by auto
  from pq.deq_oldest [OF d] w have [simp]: "e' = e" and r: "filter ?p (rev l) = r"
    by (simp_all add: waiting_def)
  from pq.deq_mset [OF d] have "mset (qh_list h) = add_mset e (mset l)" by simp
  with q d r pq.deq_others [OF d] pq.deq_sat [OF d] show thesis
    by (intro that [of l]) (simp_all add: packet_dequeue_eq judge_ip_eq queue_run waiting_def others_def)
qed

text \<open>
  Whatever releasing one packet sends, \<open>send_packet\<close> sends it for each packet of the
  destination, oldest first, and takes these packets, and no others, off the queue.
\<close>

lemma send_packet_releases_those:
  assumes one: "\<And>s e. kenv s = E \<Longrightarrow> elem_ok e \<Longrightarrow> el_dst_ip e = dst \<Longrightarrow> Q e \<Longrightarrow>
      \<exists>t. release verdict e s = Inr ((), s\<lparr>kouts := kouts s @ [out e], kticks := t\<rparr>)"
  shows "my_queue_head s = Ptr h \<Longrightarrow> (\<forall>e \<in> set (qh_list h). elem_ok e) \<Longrightarrow> kenv s = E \<Longrightarrow>
    (\<forall>e \<in> set (waiting dst h). Q e) \<Longrightarrow> length (waiting dst h) < n \<Longrightarrow>
    \<exists>t. send_packet n dst verdict s = Inr ((), s\<lparr>my_queue_head := Ptr (without dst h),
      kouts := kouts s @ map out (waiting dst h), kticks := t\<rparr>)"
proof (induction n arbitrary: s h)
  case (Suc n)
  show ?case
  proof (cases "waiting dst h")
    case Nil
    then have "others dst h = rev (qh_list h)"
      by (auto simp: others_def waiting_def filter_empty_conv intro!: filter_True)
    with Nil have w: "without dst h = h" by (simp add: without_def)
    show ?thesis
      unfolding send_packet_Suc w
      using Nil Suc.prems(1) by (intro exI [of _ "kticks s"]) (simp add: queue_run dequeue_none)
  next
    case (Cons e r)
    obtain l where l: "packet_dequeue (Some judge_ip) dst s =
        Inr (Some e, s\<lparr>my_queue_head := Ptr (h\<lparr>qh_list := l, qh_len := qh_len h - 1\<rparr>)\<rparr>)"
      "waiting dst (h\<lparr>qh_list := l, qh_len := qh_len h - 1\<rparr>) = r"
      "others dst (h\<lparr>qh_list := l, qh_len := qh_len h - 1\<rparr>) = others dst h"
      "mset (qh_list h) = add_mset e (mset l)" "el_dst_ip e = dst"
      by (rule dequeue_some [OF Suc.prems(1) Cons])
    let ?h = "h\<lparr>qh_list := l, qh_len := qh_len h - 1\<rparr>"
    let ?s = "s\<lparr>my_queue_head := Ptr ?h\<rparr>"
    have sets: "set (qh_list h) = insert e (set l)"
      using l(4) by (metis set_mset_add_mset_insert set_mset_mset)
    with Suc.prems(2) have ok: "elem_ok e" "\<forall>e \<in> set (qh_list ?h). elem_ok e" by simp_all
    have "Q e" using Suc.prems(4) Cons by simp
    with one [of ?s e] ok(1) l(5) Suc.prems(3) obtain t where
      t: "release verdict e ?s = Inr ((), ?s\<lparr>kouts := kouts s @ [out e], kticks := t\<rparr>)"
      by auto
    let ?u = "?s\<lparr>kouts := kouts s @ [out e], kticks := t\<rparr>"
    have "\<exists>t. send_packet n dst verdict ?u = Inr ((), ?u\<lparr>my_queue_head := Ptr (without dst ?h),
        kouts := kouts ?u @ map out (waiting dst ?h), kticks := t\<rparr>)"
      by (rule Suc.IH) (use Suc.prems ok(2) Cons l(2) in simp_all)
    moreover have "without dst ?h = without dst h"
      using l(2,3) Cons by (simp add: without_def)
    ultimately show ?thesis
      unfolding send_packet_Suc using l(1,2) t Cons by (simp add: bnd_apply andthen_apply)
  qed
qed simp

lemma send_packet_releases:
  assumes "\<And>s e. kenv s = E \<Longrightarrow> elem_ok e \<Longrightarrow> el_dst_ip e = dst \<Longrightarrow>
      \<exists>t. release verdict e s = Inr ((), s\<lparr>kouts := kouts s @ [out e], kticks := t\<rparr>)"
    and "my_queue_head s = Ptr h" "\<forall>e \<in> set (qh_list h). elem_ok e" "kenv s = E" "length (waiting dst h) < n"
  shows "\<exists>t. send_packet n dst verdict s = Inr ((), s\<lparr>my_queue_head := Ptr (without dst h),
      kouts := kouts s @ map out (waiting dst h), kticks := t\<rparr>)"
  by (rule send_packet_releases_those [where Q = "\<lambda>_. True", OF assms(1) assms(2-4) _ assms(5)]) simp_all

lemma release_drop: "\<exists>t. release NF_DROP e s = Inr ((), s\<lparr>kouts := kouts s @ [Kfree_skb (el_skb e)], kticks := t\<rparr>)"
  by (intro exI [of _ "kticks s"]) (simp add: release_def queue_run)

text \<open>A route that leads to another device than \<open>mytun\<close> lets a packet through.\<close>

definition routed :: "kenv \<Rightarrow> ip \<Rightarrow> string \<Rightarrow> bool" where
  "routed E dst dev \<longleftrightarrow> (\<forall>k src tos. k_route_output E k dst src tos = Some dev
     \<and> k_route_input E k dst src tos = Some dev)"

lemma release_accept:
  assumes "routed (kenv s) (el_dst_ip e) dev" "dev \<noteq> TUNNAME" "elem_ok e"
  shows "\<exists>t. release NF_ACCEPT e s =
    Inr ((), s\<lparr>kouts := kouts s @ [Xmit ((el_skb e)\<lparr>sk_dst_dev := dev\<rparr>)], kticks := t\<rparr>)"
proof -
  from assms(3) have d: "el_dst_ip e = sk_daddr (el_skb e)" and t: "el_type e = LOCAL \<or> el_type e = OTHER"
    unfolding elem_ok_def by (metis element_of_def packet_queue_element.select_convs(3), simp)
  with assms(1,2) show ?thesis
    by (intro exI [of _ "Suc (kticks s)"])
      (auto simp: release_def reroute_def ip_local_out_def check_packet_def judgment_packet_def routed_def queue_run)
qed

section \<open>A route that leads back to the module\<close>

text \<open>
  When the route of a destination still leads to \<open>mytun\<close>, \<open>ip_local_out\<close> brings each released
  packet back to the queue.
\<close>

definition looped :: "kenv \<Rightarrow> ip \<Rightarrow> bool" where
  "looped E dst \<longleftrightarrow> (\<forall>k. k_alloc E k) \<and> (\<forall>k src tos. k_route_output E k dst src tos = Some TUNNAME
     \<and> (k_route_input E k dst src tos = None \<or> k_route_input E k dst src tos = Some TUNNAME))"

lemma check_packet_steals:
  assumes "transmission_flag s" "my_queue_head s = Ptr h" "socket_of_netlink s" "head_ok h"
    "hookindex = LOCAL \<or> hookindex = OTHER" "sk_dst_dev skb = TUNNAME"
    "\<forall>k. k_alloc (kenv s) k" "qh_len h < MAX_PACKET_NUMBER"
  shows "\<exists>t outs. check_packet hookindex skb s = Inr (NF_STOLEN, s\<lparr>kticks := t, kouts := outs,
    my_queue_head := Ptr (h\<lparr>qh_list := element_of skb hookindex # qh_list h, qh_len := qh_len h + 1\<rparr>)\<rparr>)"
proof -
  obtain asks acc t where
    r: "receive_packet skb hookindex s = Inr (0, s\<lparr>kticks := t,
       kouts := kouts s @ asks @ (if acc then [] else [Kfree_skb skb]),
       my_queue_head := Ptr (if acc then h\<lparr>qh_list := element_of skb hookindex # qh_list h,
         qh_len := qh_len h + 1\<rparr> else h)\<rparr>)"
    and acc: "(\<forall>k. k_alloc (kenv s) k) \<longrightarrow> acc = (qh_len h < MAX_PACKET_NUMBER)
      \<and> (asks = [] \<longleftrightarrow> waiting (sk_daddr skb) h \<noteq> [])"
    by (rule receive_packet_run [OF assms(1-4), of skb hookindex])
  have "check_packet hookindex skb s = andthen (bnd (receive_packet skb hookindex) (\<lambda>_. ret ())) (ret NF_STOLEN) s"
    using assms(5,6) by (auto simp: check_packet_def judgment_packet_def)
  with r acc assms(7,8) show ?thesis
    by (intro exI [of _ t] exI [of _ "kouts s @ asks"]) (simp add: bnd_apply andthen_apply ret_apply)
qed

lemma looped_input: "looped E dst \<Longrightarrow> k_route_input E k dst src tos = Some dev \<Longrightarrow> dev = TUNNAME"
  unfolding looped_def by (metis option.distinct(1) option.inject)

lemma head_ok_smaller:
  "head_ok h \<Longrightarrow> mset (qh_list h) = add_mset e (mset l) \<Longrightarrow>
   head_ok (h\<lparr>qh_list := l, qh_len := qh_len h - 1\<rparr>) \<and> elem_ok e \<and> qh_len h - 1 < MAX_PACKET_NUMBER"
proof -
  assume h: "head_ok h" and m: "mset (qh_list h) = add_mset e (mset l)"
  from m have "set (qh_list h) = insert e (set l)" "length (qh_list h) = Suc (length l)"
    by (metis set_mset_add_mset_insert set_mset_mset, metis size_add_mset size_mset)
  with h show ?thesis by (simp add: head_ok_def)
qed

lemma head_ok_larger:
  "head_ok h \<Longrightarrow> elem_ok e \<Longrightarrow> qh_len h < MAX_PACKET_NUMBER \<Longrightarrow>
   head_ok (h\<lparr>qh_list := e # qh_list h, qh_len := qh_len h + 1\<rparr>)"
  by (simp add: head_ok_def)

lemma release_returns_packet:
  assumes s: "transmission_flag s" "my_queue_head s = Ptr h" "socket_of_netlink s" "head_ok h"
      "qh_len h < MAX_PACKET_NUMBER" "LOCAL \<in> set (hooks s)"
    and loop: "looped (kenv s) dst" and e: "elem_ok e" "el_dst_ip e = dst"
  shows "\<exists>t outs e'. release NF_ACCEPT e s = Inr ((), s\<lparr>kticks := t, kouts := outs,
      my_queue_head := Ptr (h\<lparr>qh_list := e' # qh_list h, qh_len := qh_len h + 1\<rparr>)\<rparr>)
    \<and> elem_ok e' \<and> el_dst_ip e' = dst"
proof -
  from e have d: "dst = sk_daddr (el_skb e)" and t: "el_type e = LOCAL \<or> el_type e = OTHER"
    and dev: "sk_dst_dev (el_skb e) = TUNNAME"
    unfolding elem_ok_def by (metis element_of_def packet_queue_element.select_convs(3), simp_all)
  let ?skb = "(el_skb e)\<lparr>sk_dst_dev := TUNNAME\<rparr>" and ?s = "s\<lparr>kticks := Suc (kticks s)\<rparr>"
  have "reroute (el_skb e) (el_type e) s = Inr (?skb, ?s)"
    using t loop dev d looped_input [OF loop]
    by (cases "el_skb e") (auto simp: reroute_def looped_def queue_run split: option.splits)
  moreover obtain t outs where "check_packet LOCAL ?skb ?s = Inr (NF_STOLEN, ?s\<lparr>kticks := t, kouts := outs,
    my_queue_head := Ptr (h\<lparr>qh_list := element_of ?skb LOCAL # qh_list h, qh_len := qh_len h + 1\<rparr>)\<rparr>)"
    using check_packet_steals [of ?s h LOCAL ?skb] s loop by (auto simp: looped_def)
  ultimately show ?thesis
    using s(6) d elem_ok_element [of LOCAL ?skb]
    by (intro exI [of _ t] exI [of _ outs] exI [of _ "element_of ?skb LOCAL"])
      (simp add: release_def ip_local_out_def queue_run element_of_def)
qed

lemma send_packet_never_ends:
  "transmission_flag s \<Longrightarrow> my_queue_head s = Ptr h \<Longrightarrow> socket_of_netlink s \<Longrightarrow> head_ok h \<Longrightarrow>
   LOCAL \<in> set (hooks s) \<Longrightarrow> looped (kenv s) dst \<Longrightarrow> waiting dst h \<noteq> [] \<Longrightarrow>
   send_packet n dst NF_ACCEPT s = Inl OutOfFuel"
proof (induction n arbitrary: s h)
  case 0
  then show ?case by (simp add: raise_apply)
next
  case (Suc n)
  from Suc.prems(7) obtain e r where w: "waiting dst h = e # r" by (cases "waiting dst h") auto
  obtain l where l: "packet_dequeue (Some judge_ip) dst s =
      Inr (Some e, s\<lparr>my_queue_head := Ptr (h\<lparr>qh_list := l, qh_len := qh_len h - 1\<rparr>)\<rparr>)"
    "mset (qh_list h) = add_mset e (mset l)" "el_dst_ip e = dst"
    by (rule dequeue_some [OF Suc.prems(2) w])
  let ?h = "h\<lparr>qh_list := l, qh_len := qh_len h - 1\<rparr>"
  note small = head_ok_smaller [OF Suc.prems(4) l(2)]
  obtain t outs e' where e': "release NF_ACCEPT e (s\<lparr>my_queue_head := Ptr ?h\<rparr>) =
      Inr ((), s\<lparr>my_queue_head := Ptr ?h, kticks := t, kouts := outs,
        my_queue_head := Ptr (?h\<lparr>qh_list := e' # qh_list ?h, qh_len := qh_len ?h + 1\<rparr>)\<rparr>)"
    "elem_ok e'" "el_dst_ip e' = dst"
    using release_returns_packet [of "s\<lparr>my_queue_head := Ptr ?h\<rparr>" ?h dst e] Suc.prems small l(3) by auto
  have "send_packet n dst NF_ACCEPT (s\<lparr>my_queue_head := Ptr ?h, kticks := t, kouts := outs,
        my_queue_head := Ptr (?h\<lparr>qh_list := e' # qh_list ?h, qh_len := qh_len ?h + 1\<rparr>)\<rparr>) = Inl OutOfFuel"
    by (rule Suc.IH [of _ "?h\<lparr>qh_list := e' # qh_list ?h, qh_len := qh_len ?h + 1\<rparr>"])
      (use Suc.prems small e'(2,3) head_ok_larger [of ?h e'] in \<open>simp_all add: waiting_def\<close>)
  then show ?case
    unfolding send_packet_Suc using l(1) e'(1) by (simp add: bnd_apply andthen_apply)
qed

section \<open>No packet is lost or doubled\<close>

fun effect_ids :: "keffect \<Rightarrow> nat list" where
  "effect_ids (Kfree_skb skb) = [sk_id skb]"
| "effect_ids (Xmit skb) = [sk_id skb]"
| "effect_ids (Netlink_unicast p m) = []"

definition queued_ids :: "kmod \<Rightarrow> nat list" where
  "queued_ids s = (case my_queue_head s of Ptr h \<Rightarrow> map (\<lambda>e. sk_id (el_skb e)) (qh_list h) | _ \<Rightarrow> [])"

text \<open>The packets in the module's hands, and those it has freed or sent on.\<close>

definition account :: "kmod \<Rightarrow> nat multiset" where
  "account s = mset (queued_ids s) + mset (concat (map effect_ids (kouts s)))"

lemma account_ticks [simp]: "account (s\<lparr>kticks := t\<rparr>) = account s"
  by (simp add: account_def queued_ids_def)

lemma account_emit: "account (s\<lparr>kouts := kouts s @ [e]\<rparr>) = account s + mset (effect_ids e)"
  by (simp add: account_def queued_ids_def)

lemma transmit_account: "transmit_rtinfo skb type s = Inr (x, s') \<Longrightarrow> account s' = account s"
  by (auto simp: transmit_rtinfo_def send_rtinfo_def queue_run account_def queued_ids_def
      split: if_splits sum.splits)

lemma enqueue_account:
  "packet_enqueue skb type s = Inr (r, s') \<Longrightarrow>
   account s' = account s + (if r = 0 then {#sk_id skb#} else {#})"
  by (auto simp: packet_enqueue_def queue_run account_def queued_ids_def element_of_def
      split: if_splits sum.splits kptr.splits)

lemma receive_account:
  "receive_packet skb type s = Inr (r, s') \<Longrightarrow> account s' = add_mset (sk_id skb) (account s)"
  by (auto simp: receive_packet_def pending_ip_def bnd_apply andthen_apply gets_apply whenM_apply ret_apply
      kemit_def upd_apply account_emit the_queue_def raise_apply
      dest!: enqueue_account transmit_account split: if_splits sum.splits kptr.splits prod.splits)

lemma check_packet_account:
  assumes "check_packet hookindex skb s = Inr (v, s')" "hookindex = LOCAL \<or> hookindex = OTHER"
  shows "account s' = account s + (if v = NF_ACCEPT then {#} else {#sk_id skb#})"
  using assms
  by (auto simp: check_packet_def bnd_apply andthen_apply ret_apply dest!: receive_account
      split: if_splits sum.splits prod.splits)

lemma reroute_account: "reroute skb type s = Inr (skb', s') \<Longrightarrow> account s' = account s \<and> sk_id skb' = sk_id skb"
  by (auto simp: reroute_def ask_def bnd_apply ret_apply raise_apply split: if_splits option.splits)

lemma local_out_account: "ip_local_out skb s = Inr (x, s') \<Longrightarrow> account s' = add_mset (sk_id skb) (account s)"
  by (auto simp: ip_local_out_def bnd_apply gets_apply whenM_apply kemit_def upd_apply ret_apply account_emit
      dest!: check_packet_account split: if_splits sum.splits prod.splits)

lemma release_account:
  assumes "release verdict e s = Inr (x, s')" "verdict = NF_DROP \<or> verdict = NF_ACCEPT"
  shows "account s' = add_mset (sk_id (el_skb e)) (account s)"
  using assms
  by (auto simp: release_def bnd_apply kemit_def upd_apply account_emit
      dest!: reroute_account local_out_account split: if_splits sum.splits prod.splits)

lemma dequeue_account:
  assumes "packet_dequeue cmp dst s = Inr (r, s')"
  shows "account s = account s' + (case r of None \<Rightarrow> {#} | Some e \<Rightarrow> {#sk_id (el_skb e)#})"
proof -
  from assms obtain h where h: "my_queue_head s = Ptr h"
    by (cases "my_queue_head s") (auto simp: packet_dequeue_eq queue_run)
  let ?d = "deq_last (\<lambda>e. case cmp of None \<Rightarrow> True | Some c \<Rightarrow> c e dst \<noteq> 0) (qh_list h)"
  show ?thesis
  proof (cases ?d)
    case None
    with assms h show ?thesis by (auto simp: packet_dequeue_eq queue_run)
  next
    case (Some p)
    then obtain e l where d: "?d = Some (e, l)" by (cases p) auto
    with pq.deq_mset [OF d] have "mset (qh_list h) = add_mset e (mset l)" by simp
    then have "mset (map (\<lambda>e. sk_id (el_skb e)) (qh_list h))
        = add_mset (sk_id (el_skb e)) (mset (map (\<lambda>e. sk_id (el_skb e)) l))"
      by (simp add: mset_map)
    with assms h d show ?thesis by (auto simp: packet_dequeue_eq queue_run account_def queued_ids_def)
  qed
qed

lemma send_packet_account:
  "verdict = NF_DROP \<or> verdict = NF_ACCEPT \<Longrightarrow> send_packet n dst verdict s = Inr ((), s') \<Longrightarrow>
   account s' = account s"
proof (induction n arbitrary: s)
  case (Suc n)
  from Suc.prems(2) obtain r t where r: "packet_dequeue (Some judge_ip) dst s = Inr (r, t)"
    by (auto simp: bnd_apply split: sum.splits)
  show ?case
  proof (cases r)
    case None
    with Suc.prems(2) r dequeue_account [OF r] show ?thesis
      by (simp add: send_packet_Suc bnd_apply ret_apply del: send_packet.simps)
  next
    case (Some e)
    with Suc.prems(2) r obtain u where u: "release verdict e t = Inr ((), u)" "send_packet n dst verdict u = Inr ((), s')"
      by (auto simp: send_packet_Suc bnd_apply andthen_apply simp del: send_packet.simps split: sum.splits)
    with Suc.IH [OF Suc.prems(1) u(2)] release_account [OF u(1) Suc.prems(1)] dequeue_account [OF r] Some
    show ?thesis by simp
  qed
qed (simp add: raise_apply)

lemma recv_msg_account: "recv_msg fuel m s = Inr ((), s') \<Longrightarrow> account s' = account s"
  by (auto simp: recv_msg_def deal_info_msg_def deal_init_msg_def deal_exit_msg_def upd_apply ret_apply Let_def
      account_def queued_ids_def dest: send_packet_account [unfolded account_def queued_ids_def, rotated] split: if_splits)

end
