(* ===== verification/Packet_System.thy ===== *)
theory Packet_System
  imports Packet_Laws
begin

text \<open>
  The ODS kernel module as a whole: its steps from loading on, the invariant \<open>kmod_inv\<close> of the
  states it reaches, what unloading does, and the properties of the module with examples.
\<close>

section \<open>Steps and reachable states\<close>

text \<open>Before it is loaded. A positive result of \<open>init_mymodule\<close> does not keep the kernel from loading it.\<close>

definition unloaded :: "kmod \<Rightarrow> bool" where
  "unloaded s \<longleftrightarrow> my_queue_head s = Null \<and> \<not> transmission_flag s \<and> \<not> socket_of_netlink s
     \<and> hooks s = [] \<and> kouts s = []"

definition kmod_start :: "kmod \<Rightarrow> bool" where
  "kmod_start s \<longleftrightarrow> (\<exists>s0 r. unloaded s0 \<and> init_mymodule s0 = Inr (r, s))"

text \<open>The netfilter hooks call the module, and messages come in through its socket.\<close>

inductive kmod_step :: "kmod \<Rightarrow> kmod \<Rightarrow> bool" where
  packet: "hookindex \<in> set (hooks s) \<Longrightarrow> check_packet hookindex skb s = Inr (v, s') \<Longrightarrow> kmod_step s s'"
| message: "socket_of_netlink s \<Longrightarrow> recv_msg n m s = Inr ((), s') \<Longrightarrow> kmod_step s s'"

inductive_cases kmod_stepE: "kmod_step s s'"

lemma kmod_inv_ticks [simp]: "kmod_inv (s\<lparr>kticks := t\<rparr>) = kmod_inv s"
  by (simp add: kmod_inv_def)

lemma kmod_inv_outs [simp]: "kmod_inv (s\<lparr>kouts := es\<rparr>) = kmod_inv s"
  by (simp add: kmod_inv_def)

lemma kmod_inv_put: "kmod_inv s \<Longrightarrow> head_ok h \<Longrightarrow> kmod_inv (s\<lparr>my_queue_head := Ptr h\<rparr>)"
  by (auto simp: kmod_inv_def)

lemma runs_receive_packet:
  assumes "type = LOCAL \<or> type = OTHER" "sk_dst_dev skb = TUNNAME"
  shows "runs kmod_inv (receive_packet skb type)"
proof (rule runsI)
  fix s assume inv: "kmod_inv s"
  show "\<exists>x s'. receive_packet skb type s = Inr (x, s') \<and> kmod_inv s'"
  proof (cases "transmission_flag s")
    case False
    with inv show ?thesis by (simp add: receive_packet_def queue_run)
  next
    case True
    from kmod_inv_queue [OF inv True] obtain h where
      h: "my_queue_head s = Ptr h" "head_ok h" "socket_of_netlink s" by auto
    obtain asks acc t where
      r: "receive_packet skb type s = Inr (0, s\<lparr>kticks := t,
       kouts := kouts s @ asks @ (if acc then [] else [Kfree_skb skb]),
       my_queue_head := Ptr (if acc then h\<lparr>qh_list := element_of skb type # qh_list h,
         qh_len := qh_len h + 1\<rparr> else h)\<rparr>)"
      and acc: "acc \<longrightarrow> qh_len h < MAX_PACKET_NUMBER"
      by (rule receive_packet_run [OF True h(1,3,2)])
    have "head_ok (if acc then h\<lparr>qh_list := element_of skb type # qh_list h, qh_len := qh_len h + 1\<rparr> else h)"
      using h(2) acc elem_ok_element [OF assms] head_ok_larger [of h] by simp
    with inv r show ?thesis
      by (auto intro!: kmod_inv_put [of "s\<lparr>kticks := t, kouts := es\<rparr>" for es])
  qed
qed

lemma runs_check_packet: "runs kmod_inv (check_packet hookindex skb)"
  unfolding check_packet_def
  by (intro runs_if runs_ret runs_andthen runs_bnd runs_receive_packet) (auto simp: judgment_packet_def)

lemma keeps_ask [keeps_intros]: "keeps kmod_inv (ask f)"
  by (auto intro!: keepsI simp: ask_def)

lemma keeps_kemit [keeps_intros]: "keeps kmod_inv (kemit e)"
  unfolding kemit_def by (rule keeps_upd) simp

lemma keeps_dequeue [keeps_intros]: "keeps kmod_inv (packet_dequeue cmp dst)"
proof (rule keepsI)
  fix s r s'
  assume inv: "kmod_inv s" and d: "packet_dequeue cmp dst s = Inr (r, s')"
  from d obtain h where h: "my_queue_head s = Ptr h"
    by (cases "my_queue_head s") (auto simp: packet_dequeue_eq queue_run)
  with inv have ok: "head_ok h" by (simp add: kmod_inv_def)
  show "kmod_inv s'"
  proof (cases "deq_last (\<lambda>e. case cmp of None \<Rightarrow> True | Some c \<Rightarrow> c e dst \<noteq> 0) (qh_list h)")
    case None
    with d h inv show ?thesis by (auto simp: packet_dequeue_eq queue_run)
  next
    case (Some p)
    obtain e l where p: "p = (e, l)" by (cases p)
    from pq.deq_mset [OF Some [unfolded p]] have "mset (qh_list h) = add_mset e (mset l)" by simp
    from head_ok_smaller [OF ok this] d h inv Some p show ?thesis
      by (auto simp: packet_dequeue_eq queue_run intro: kmod_inv_put)
  qed
qed

lemma keeps_release: "keeps kmod_inv (release verdict e)"
  unfolding release_def reroute_def ip_local_out_def
  by (intro keeps_intros runs_keeps [OF runs_check_packet])

lemma keeps_send_packet: "keeps kmod_inv (send_packet n dst verdict)"
proof (induction n)
  case (Suc n)
  show ?case unfolding send_packet_Suc by (intro keeps_intros keeps_release Suc.IH)
qed (simp add: keeps_raise)

lemma keeps_recv_msg: "keeps (\<lambda>s. kmod_inv s \<and> socket_of_netlink s) (recv_msg fuel m)"
proof -
  have "keeps (\<lambda>s. socket_of_netlink s = c) (send_packet n dst verdict)" for c n dst verdict
  proof (induction n)
    case (Suc n)
    have a: "keeps (\<lambda>s. socket_of_netlink s = c) (ask f)" for f :: "kenv \<Rightarrow> nat \<Rightarrow> 'a"
      by (auto intro!: keepsI simp: ask_def)
    have e: "keeps (\<lambda>s. socket_of_netlink s = c) (kemit e)" for e
      unfolding kemit_def by (rule keeps_upd) simp
    have q: "keeps (\<lambda>s. socket_of_netlink s = c) the_queue"
      by (auto intro!: keepsI simp: queue_run split: kptr.splits)
    have p: "keeps (\<lambda>s. socket_of_netlink s = c) (put_queue h)" for h
      unfolding put_queue_def by (rule keeps_upd) simp
    show ?case
      unfolding send_packet_Suc release_def packet_dequeue_def reroute_def ip_local_out_def check_packet_def
        receive_packet_def pending_ip_def transmit_rtinfo_def send_rtinfo_def packet_enqueue_def
      by (intro keeps_intros a e q p Suc.IH)
  qed (simp add: keeps_raise)
  then have "keeps socket_of_netlink (send_packet n dst verdict)" for n dst verdict
    by (rule keeps_of_unchanged [where f = socket_of_netlink and P = "\<lambda>b. b"])
  then have send: "keeps (\<lambda>s. kmod_inv s \<and> socket_of_netlink s) (send_packet n dst verdict)" for n dst verdict
    by (intro keeps_conj keeps_send_packet)
  show ?thesis
    unfolding recv_msg_def deal_info_msg_def deal_init_msg_def deal_exit_msg_def
    by (intro keeps_intros send) (auto simp: kmod_inv_def)
qed

lemma kmod_start_inv: "kmod_start s \<Longrightarrow> kmod_inv s"
  by (auto simp: kmod_start_def unloaded_def init_mymodule_def init_judgment_hook_def init_packet_queue_def
      init_netlink_def queue_run kmod_inv_def head_ok_def split: if_splits)

interpretation kmod: invariant_of kmod_start kmod_step kmod_inv
proof
  fix s t assume "kmod_step s t" "kmod_inv s"
  then show "kmod_inv t"
    by (auto elim!: kmod_stepE dest: keepsD [OF runs_keeps [OF runs_check_packet]]
        keepsD [OF keeps_recv_msg, OF conjI])
qed (rule kmod_start_inv)

section \<open>Unloading\<close>

lemma dequeue_any:
  assumes "my_queue_head s = Ptr h" "qh_list h = l @ [e]"
  shows "packet_dequeue None 0 s =
    Inr (Some e, s\<lparr>my_queue_head := Ptr (h\<lparr>qh_list := l, qh_len := qh_len h - 1\<rparr>)\<rparr>)"
  using assms by (simp add: packet_dequeue_eq deq_last_def queue_run)

definition freed_by_cleanup :: "packet_queue_element \<Rightarrow> keffect" where
  "freed_by_cleanup e = Kfree_skb ((el_skb e)\<lparr>sk_dst_dev := SENDDEV\<rparr>)"

lemma cleanup_run:
  "my_queue_head s = Ptr h \<Longrightarrow> qh_len h = int (length (qh_list h)) \<Longrightarrow> length (qh_list h) < n \<Longrightarrow>
   cleanup_packet_queue n s = Inr ((), s\<lparr>my_queue_head := Ptr (h\<lparr>qh_list := [], qh_len := 0\<rparr>),
     kouts := kouts s @ map freed_by_cleanup (rev (qh_list h))\<rparr>)"
proof (induction n arbitrary: s h)
  case (Suc n)
  show ?case
  proof (cases "qh_list h" rule: rev_cases)
    case Nil
    with Suc.prems have "h\<lparr>qh_list := [], qh_len := 0\<rparr> = h" by simp
    with Suc.prems Nil show ?thesis by (simp add: queue_run)
  next
    case (snoc l e)
    let ?h = "h\<lparr>qh_list := l, qh_len := qh_len h - 1\<rparr>"
    let ?s = "s\<lparr>my_queue_head := Ptr ?h, kouts := kouts s @ [freed_by_cleanup e]\<rparr>"
    have "cleanup_packet_queue n ?s = Inr ((), ?s\<lparr>my_queue_head := Ptr (?h\<lparr>qh_list := [], qh_len := 0\<rparr>),
       kouts := kouts ?s @ map freed_by_cleanup (rev (qh_list ?h))\<rparr>)"
      by (rule Suc.IH) (use Suc.prems snoc in simp_all)
    with Suc.prems snoc dequeue_any [OF Suc.prems(1) snoc] show ?thesis
      by (simp add: queue_run freed_by_cleanup_def)
  qed
qed simp

lemma head_ok_length: "head_ok h \<Longrightarrow> length (qh_list h) \<le> 1000"
  by (auto simp: head_ok_def)

lemma waiting_length: "head_ok h \<Longrightarrow> length (waiting dst h) \<le> 1000"
  using head_ok_length [of h] length_filter_le [of "\<lambda>e. el_dst_ip e = dst" "rev (qh_list h)"]
  by (simp add: waiting_def del: length_filter_le)

section \<open>Sequences of events\<close>

datatype hook = POSTROUTING | FORWARD
datatype kevent = At_hook hook sk_buff | Incoming nlmsg

text \<open>The identities of the packets that an event, or a sequence of events, puts in the module's hands.\<close>

primrec handle_event :: "nat \<Rightarrow> kevent \<Rightarrow> (kmod, nat list) sm" where
  "handle_event fuel (At_hook hk skb) =
     bnd (check_packet (case hk of POSTROUTING \<Rightarrow> LOCAL | FORWARD \<Rightarrow> OTHER) skb) (\<lambda>v.
     ret (if v = NF_ACCEPT then [] else [sk_id skb]))"
| "handle_event fuel (Incoming m) = bnd (recv_msg fuel m) (\<lambda>_. ret [])"

primrec handle_events :: "nat \<Rightarrow> kevent list \<Rightarrow> (kmod, nat list) sm" where
  "handle_events fuel [] = ret []"
| "handle_events fuel (e # es) =
     bnd (handle_event fuel e) (\<lambda>v. bnd (handle_events fuel es) (\<lambda>vs. ret (v @ vs)))"

lemma handle_event_account:
  "handle_event fuel e s = Inr (v, s') \<Longrightarrow> account s' = account s + mset v"
  by (cases e) (auto simp: bnd_apply ret_apply dest!: check_packet_account recv_msg_account
      split: sum.splits hook.splits if_splits)

section \<open>A packet for \<open>mytun\<close>, and the answers of user space\<close>

lemma tun_packet_run:
  assumes "kmod_inv s" "transmission_flag s" "my_queue_head s = Ptr h" "\<forall>k. k_alloc (kenv s) k"
    and "sk_dst_dev skb = TUNNAME" "hookindex = LOCAL \<or> hookindex = OTHER"
  shows "\<exists>t junk pad. check_packet hookindex skb s = Inr (NF_STOLEN, s\<lparr>kticks := t,
    kouts := kouts s
      @ (if waiting (sk_daddr skb) h = []
         then [Netlink_unicast (user_pid s) (request_of skb hookindex junk pad)] else [])
      @ (if qh_len h < MAX_PACKET_NUMBER then [] else [Kfree_skb skb]),
    my_queue_head := Ptr (if qh_len h < MAX_PACKET_NUMBER
      then h\<lparr>qh_list := element_of skb hookindex # qh_list h, qh_len := qh_len h + 1\<rparr> else h)\<rparr>)"
proof -
  from kmod_inv_queue [OF assms(1,2)] assms(3) have h: "socket_of_netlink s" "head_ok h" by simp_all
  have "check_packet hookindex skb s = andthen (bnd (receive_packet skb hookindex) (\<lambda>_. ret ())) (ret NF_STOLEN) s"
    using assms(5,6) by (auto simp: check_packet_def judgment_packet_def)
  moreover obtain asks acc t where
    "receive_packet skb hookindex s = Inr (0, s\<lparr>kticks := t,
       kouts := kouts s @ asks @ (if acc then [] else [Kfree_skb skb]),
       my_queue_head := Ptr (if acc then h\<lparr>qh_list := element_of skb hookindex # qh_list h,
         qh_len := qh_len h + 1\<rparr> else h)\<rparr>)"
    "asks = [] \<or> waiting (sk_daddr skb) h = []
       \<and> (\<exists>junk pad. asks = [Netlink_unicast (user_pid s) (request_of skb hookindex junk pad)])"
    "(\<forall>k. k_alloc (kenv s) k) \<longrightarrow>
       acc = (qh_len h < MAX_PACKET_NUMBER) \<and> (asks = [] \<longleftrightarrow> waiting (sk_daddr skb) h \<noteq> [])"
    by (rule receive_packet_run [OF assms(2,3) h, of skb hookindex])
  ultimately show ?thesis
    using assms(4) by (fastforce simp: bnd_apply andthen_apply ret_apply)
qed

lemma route_found_run:
  assumes "kmod_inv s" "my_queue_head s = Ptr h" "1000 < fuel"
    and "nl_type m = NLMSG_TYPE_INFO" "rt_result_at (nl_data m) = \<lparr>rr_now_ip = dst, rr_result = IP_FOUND\<rparr>"
    and "routed (kenv s) dst dev" "dev \<noteq> TUNNAME"
  shows "\<exists>t. recv_msg fuel m s = Inr ((), s\<lparr>my_queue_head := Ptr (without dst h),
    kouts := kouts s @ map (\<lambda>e. Xmit ((el_skb e)\<lparr>sk_dst_dev := dev\<rparr>)) (waiting dst h), kticks := t\<rparr>)"
proof -
  from assms(1,2) have h: "head_ok h" by (simp add: kmod_inv_def)
  have "\<exists>t. send_packet fuel dst NF_ACCEPT s = Inr ((), s\<lparr>my_queue_head := Ptr (without dst h),
    kouts := kouts s @ map (\<lambda>e. Xmit ((el_skb e)\<lparr>sk_dst_dev := dev\<rparr>)) (waiting dst h), kticks := t\<rparr>)"
    by (rule send_packet_releases [where E = "kenv s"])
      (use assms h waiting_length [OF h, of dst] release_accept [of _ _ dev] in \<open>auto simp: head_ok_def\<close>)
  with assms(4,5) show ?thesis by (simp add: recv_msg_def deal_info_msg_def)
qed

lemma route_missing_run:
  assumes "kmod_inv s" "my_queue_head s = Ptr h" "1000 < fuel"
    and "nl_type m = NLMSG_TYPE_INFO" "rr_result (rt_result_at (nl_data m)) \<noteq> IP_FOUND"
    and "rr_now_ip (rt_result_at (nl_data m)) = dst"
  shows "\<exists>t. recv_msg fuel m s = Inr ((), s\<lparr>my_queue_head := Ptr (without dst h),
    kouts := kouts s @ map (\<lambda>e. Kfree_skb (el_skb e)) (waiting dst h), kticks := t\<rparr>)"
proof -
  from assms(1,2) have h: "head_ok h" by (simp add: kmod_inv_def)
  have "\<exists>t. send_packet fuel dst NF_DROP s = Inr ((), s\<lparr>my_queue_head := Ptr (without dst h),
    kouts := kouts s @ map (\<lambda>e. Kfree_skb (el_skb e)) (waiting dst h), kticks := t\<rparr>)"
    by (rule send_packet_releases [where E = "kenv s"])
      (use assms h waiting_length [OF h, of dst] release_drop in \<open>auto simp: head_ok_def\<close>)
  with assms(4-6) show ?thesis by (auto simp: recv_msg_def deal_info_msg_def Let_def)
qed

section \<open>Examples\<close>

definition quiet_kernel :: kenv where
  "quiet_kernel = \<lparr>k_alloc = \<lambda>_. True, k_route_output = \<lambda>_ _ _ _. Some ''wlan0'',
     k_route_input = \<lambda>_ _ _ _. Some ''wlan0'', k_junk = \<lambda>_. replicate 6 0, k_register = \<lambda>_. 0,
     k_netlink = \<lambda>_. True\<rparr>"

definition blank_module :: kmod where
  "blank_module = \<lparr>kenv = quiet_kernel, kticks = 0, my_queue_head = Null, transmission_flag = False,
     user_pid = - 1, socket_of_netlink = False, hooks = [], kouts = []\<rparr>"

definition connected :: kmod where
  "connected = blank_module\<lparr>kticks := 4, my_queue_head := Ptr \<lparr>qh_len = 0, qh_maxlen = 1000, qh_list = []\<rparr>,
     transmission_flag := True, user_pid := 77, socket_of_netlink := True, hooks := [LOCAL, OTHER]\<rparr>"

definition tun_packet :: "nat \<Rightarrow> ip \<Rightarrow> sk_buff" where
  "tun_packet i dst = \<lparr>sk_id = i, sk_daddr = dst, sk_saddr = 1, sk_protocol = 6, sk_tos = 0,
     sk_h_dest = replicate 6 0, sk_dst_dev = TUNNAME\<rparr>"

definition two_held :: packet_queue_head where
  "two_held = \<lparr>qh_len = 2, qh_maxlen = 1000,
     qh_list = [element_of (tun_packet 2 9) LOCAL, element_of (tun_packet 1 5) LOCAL]\<rparr>"

definition holding :: kmod where
  "holding = connected\<lparr>my_queue_head := Ptr two_held\<rparr>"

lemmas kernel_fields = quiet_kernel_def blank_module_def connected_def holding_def two_held_def
  tun_packet_def element_of_def

lemma reach_connected: "reach kmod_start kmod_step connected"
proof -
  let ?s = "connected\<lparr>transmission_flag := False, user_pid := - 1\<rparr>"
  have "kmod_start ?s"
    unfolding kmod_start_def
    by (intro exI [of _ blank_module] exI [of _ 0])
      (simp add: unloaded_def init_mymodule_def init_judgment_hook_def init_packet_queue_def init_netlink_def
        queue_run kernel_fields)
  then have "reach kmod_start kmod_step ?s" by (rule reach_init)
  moreover
  have "recv_msg 0 \<lparr>nl_len = 0, nl_type = 0, nl_pid = 77, nl_data = \<lambda>_. 0\<rparr> ?s = Inr ((), connected)"
    by (simp add: recv_msg_def deal_init_msg_def upd_apply kernel_fields)
  then have "kmod_step ?s connected" by (rule message [rotated]) (simp add: kernel_fields)
  ultimately show ?thesis by (rule reach_step)
qed

lemma holding_inv: "kmod_inv holding" "head_ok two_held"
  by (auto simp: kmod_inv_def head_ok_def elem_ok_def kernel_fields)

definition reply_message :: "ip \<Rightarrow> u32 \<Rightarrow> nlmsg" where
  "reply_message dst res = \<lparr>nl_len = 1040, nl_type = NLMSG_TYPE_INFO, nl_pid = 77,
     nl_data = write_buf (rt_result_bytes \<lparr>rr_now_ip = dst, rr_result = res\<rparr>) (\<lambda>_. 0)\<rparr>"

lemma reply_message_fields [simp]:
  "nl_type (reply_message dst res) = NLMSG_TYPE_INFO"
  "rt_result_at (nl_data (reply_message dst res)) = \<lparr>rr_now_ip = dst, rr_result = res\<rparr>"
  by (simp_all add: reply_message_def rtresult.dec_enc)

section \<open>Properties\<close>

text \<open>
  C27. A packet for \<open>mytun\<close> that arrives while the library is connected: user space is asked for
  its route exactly when no other packet of the same destination waits, with the packet's own
  addresses in the request; the packet is appended to the queue, or freed when the queue holds
  its 1000 packets.
\<close>

theorem check_packet_asks_and_queues:
  assumes "kmod_inv s" "transmission_flag s" "my_queue_head s = Ptr h" "\<forall>k. k_alloc (kenv s) k"
    and "sk_dst_dev skb = TUNNAME" "hookindex = LOCAL \<or> hookindex = OTHER"
  shows "\<exists>t junk pad. check_packet hookindex skb s = Inr (NF_STOLEN, s\<lparr>kticks := t,
    kouts := kouts s
      @ (if waiting (sk_daddr skb) h = []
         then [Netlink_unicast (user_pid s) (request_of skb hookindex junk pad)] else [])
      @ (if qh_len h < MAX_PACKET_NUMBER then [] else [Kfree_skb skb]),
    my_queue_head := Ptr (if qh_len h < MAX_PACKET_NUMBER
      then h\<lparr>qh_list := element_of skb hookindex # qh_list h, qh_len := qh_len h + 1\<rparr> else h)\<rparr>)"
  using assms by (rule tun_packet_run)

theorem check_packet_asks_and_queues_witness:
  "\<exists>s' s''. check_packet OTHER (tun_packet 3 9) holding = Inr (NF_STOLEN, s') \<and> kouts s' = []
    \<and> check_packet OTHER (tun_packet 3 7) holding = Inr (NF_STOLEN, s'') \<and> length (kouts s'') = 1
    \<and> (\<exists>h. my_queue_head s'' = Ptr h \<and> qh_len h = 3)"
proof -
  have h: "kmod_inv holding" "transmission_flag holding" "my_queue_head holding = Ptr two_held"
      "\<forall>k. k_alloc (kenv holding) k"
    by (rule holding_inv(1)) (simp_all add: kernel_fields)
  have dev: "sk_dst_dev (tun_packet i d) = TUNNAME" "sk_daddr (tun_packet i d) = d" for i d
    by (simp_all add: tun_packet_def)
  have w: "waiting 9 two_held \<noteq> []" "waiting 7 two_held = []" "qh_len two_held = 2" "kouts holding = []"
    by (simp_all add: waiting_def kernel_fields)
  show ?thesis
    using check_packet_asks_and_queues [OF h dev(1), of OTHER 3 9]
      check_packet_asks_and_queues [OF h dev(1), of OTHER 3 7] by (auto simp: dev w)
qed

text \<open>
  When user space reports a route for a destination, every packet that waits for it gets the
  new route and is sent, oldest first, provided the route leads to another device than
  \<open>mytun\<close>; the packets for other destinations stay in their order. 1001 rounds are always
  enough.
\<close>

theorem route_found_sends_waiting:
  assumes "kmod_inv s" "my_queue_head s = Ptr h" "1000 < fuel"
    and "nl_type m = NLMSG_TYPE_INFO" "rt_result_at (nl_data m) = \<lparr>rr_now_ip = dst, rr_result = IP_FOUND\<rparr>"
    and "routed (kenv s) dst dev" "dev \<noteq> TUNNAME"
  shows "\<exists>t. recv_msg fuel m s = Inr ((), s\<lparr>my_queue_head := Ptr (without dst h),
    kouts := kouts s @ map (\<lambda>e. Xmit ((el_skb e)\<lparr>sk_dst_dev := dev\<rparr>)) (waiting dst h), kticks := t\<rparr>)"
  using assms by (rule route_found_run)

theorem route_found_sends_waiting_witness:
  "\<exists>s'. recv_msg 1001 (reply_message 5 IP_FOUND) holding = Inr ((), s')
    \<and> kouts s' = [Xmit ((tun_packet 1 5)\<lparr>sk_dst_dev := ''wlan0''\<rparr>)]
    \<and> (\<exists>h. my_queue_head s' = Ptr h \<and> qh_list h = [element_of (tun_packet 2 9) LOCAL])"
proof -
  have w: "map el_skb (waiting 5 two_held) = [tun_packet 1 5]"
      "others 5 two_held = [element_of (tun_packet 2 9) LOCAL]" "kouts holding = []"
    by (simp_all add: waiting_def others_def kernel_fields)
  have r: "my_queue_head holding = Ptr two_held" "(1000::nat) < 1001" "routed (kenv holding) 5 ''wlan0''"
    by (simp_all add: routed_def kernel_fields)
  show ?thesis
    using route_found_sends_waiting [OF holding_inv(1) r(1,2) reply_message_fields(1,2) r(3)] w
    by (fastforce simp: without_def)
qed

text \<open>When user space reports that there is no route, the same packets are freed, in the same order.\<close>

theorem route_missing_frees_waiting:
  assumes "kmod_inv s" "my_queue_head s = Ptr h" "1000 < fuel"
    and "nl_type m = NLMSG_TYPE_INFO" "rr_result (rt_result_at (nl_data m)) \<noteq> IP_FOUND"
    and "rr_now_ip (rt_result_at (nl_data m)) = dst"
  shows "\<exists>t. recv_msg fuel m s = Inr ((), s\<lparr>my_queue_head := Ptr (without dst h),
    kouts := kouts s @ map (\<lambda>e. Kfree_skb (el_skb e)) (waiting dst h), kticks := t\<rparr>)"
  using assms by (rule route_missing_run)

theorem route_missing_frees_waiting_witness:
  "\<exists>s'. recv_msg 1001 (reply_message 9 IP_NOFOUND) holding = Inr ((), s')
    \<and> kouts s' = [Kfree_skb (tun_packet 2 9)]"
proof -
  have w: "map el_skb (waiting 9 two_held) = [tun_packet 2 9]" "kouts holding = []"
    by (simp_all add: waiting_def kernel_fields)
  have r: "my_queue_head holding = Ptr two_held" "(1000::nat) < 1001" by (simp_all add: kernel_fields)
  show ?thesis
    using route_missing_frees_waiting [OF holding_inv(1) r reply_message_fields(1), of 9 IP_NOFOUND 9] w
    by fastforce
qed

text \<open>
  C31. When user space reports a route while the kernel still routes the destination to
  \<open>mytun\<close>, the loop of \<open>send_packet\<close> never ends: every packet it releases runs through the
  module's own hook at \<open>POST_ROUTING\<close> and is queued again.
\<close>

theorem route_to_tun_loops:
  assumes "kmod_inv s" "transmission_flag s" "my_queue_head s = Ptr h" "LOCAL \<in> set (hooks s)"
    and "looped (kenv s) dst" "waiting dst h \<noteq> []"
    and "nl_type m = NLMSG_TYPE_INFO" "rt_result_at (nl_data m) = \<lparr>rr_now_ip = dst, rr_result = IP_FOUND\<rparr>"
  shows "recv_msg fuel m s = Inl OutOfFuel"
proof -
  from kmod_inv_queue [OF assms(1,2)] assms(3) have "socket_of_netlink s" "head_ok h" by simp_all
  with send_packet_never_ends [OF assms(2,3) _ _ assms(4-6)] assms(7,8) show ?thesis
    by (simp add: recv_msg_def deal_info_msg_def)
qed

theorem route_to_tun_loops_witness:
  "recv_msg 5000 (reply_message 5 IP_FOUND)
     (holding\<lparr>kenv := quiet_kernel\<lparr>k_route_output := \<lambda>_ _ _ _. Some TUNNAME,
        k_route_input := \<lambda>_ _ _ _. None\<rparr>\<rparr>) = Inl OutOfFuel"
  by (rule route_to_tun_loops [where dst = 5 and h = two_held])
    (use holding_inv(1) in \<open>simp_all add: looped_def waiting_def kmod_inv_def kernel_fields\<close>)

text \<open>
  C28. No packet is lost or doubled, whatever the sequence of hook calls and messages: of the
  packets the module has taken, each is either still queued, freed or sent, exactly once.
\<close>

theorem packets_accounted:
  assumes "handle_events fuel es s = Inr (stolen, s')"
  shows "account s' = account s + mset stolen"
  using assms
proof (induction es arbitrary: s stolen)
  case (Cons e es)
  then obtain v t rest where e: "handle_event fuel e s = Inr (v, t)"
    and rest: "handle_events fuel es t = Inr (rest, s')" and st: "stolen = v @ rest"
    by (auto simp: bnd_apply ret_apply split: sum.splits)
  from Cons.IH [OF rest] handle_event_account [OF e] st show ?case by simp
qed (simp add: ret_apply)

theorem packets_accounted_witness:
  "\<exists>s'. handle_events 1001 [At_hook POSTROUTING (tun_packet 3 5), Incoming (reply_message 5 IP_FOUND)] holding
      = Inr ([3], s') \<and> account s' = {#1, 2, 3#}"
proof -
  have "handle_events 1001 [At_hook POSTROUTING (tun_packet 3 5), Incoming (reply_message 5 IP_FOUND)] holding
    \<in> {Inr ([3], s') | s'. True}"
  proof -
    have h: "kmod_inv holding" "transmission_flag holding" "my_queue_head holding = Ptr two_held"
        "\<forall>k. k_alloc (kenv holding) k" "sk_dst_dev (tun_packet 3 5) = TUNNAME"
      by (rule holding_inv(1)) (simp_all add: kernel_fields)
    from tun_packet_run [OF h, of LOCAL] obtain s1 h1 where
      c: "check_packet LOCAL (tun_packet 3 5) holding = Inr (NF_STOLEN, s1)"
      and s1: "my_queue_head s1 = Ptr h1" "kenv s1 = quiet_kernel"
      by (auto simp: kernel_fields)
    from runsD [OF runs_check_packet h(1), of LOCAL "tun_packet 3 5"] c have inv: "kmod_inv s1" by simp
    have r: "(1000::nat) < 1001" "routed (kenv s1) 5 ''wlan0''"
      by (simp_all add: s1(2) routed_def quiet_kernel_def)
    from route_found_run [OF inv s1(1) r(1) reply_message_fields(1,2) r(2)] c show ?thesis
      by (auto simp: bnd_apply ret_apply tun_packet_def)
  qed
  then obtain s' where
    s': "handle_events 1001 [At_hook POSTROUTING (tun_packet 3 5), Incoming (reply_message 5 IP_FOUND)] holding
      = Inr ([3], s')" by blast
  from packets_accounted [OF this] have "account s' = {#1, 2, 3#}"
    by (simp add: account_def queued_ids_def kernel_fields)
  with s' show ?thesis by blast
qed

text \<open>
  C29. In every state the loaded module reaches, both hooks return for every packet: no access
  through a null or dangling pointer; and the queue never holds more than its 1000 packets.
\<close>

theorem hooks_return:
  assumes "reach kmod_start kmod_step s"
  shows "\<exists>v s'. check_packet hookindex skb s = Inr (v, s')
    \<and> (\<forall>h. my_queue_head s' = Ptr h \<longrightarrow> length (qh_list h) \<le> 1000)"
  using runsD [OF runs_check_packet kmod.reach_inv [OF assms]] head_ok_length
  by (fastforce simp: kmod_inv_def)

theorem hooks_return_witness:
  "\<exists>v s'. check_packet LOCAL (tun_packet 1 5) connected = Inr (v, s')"
  using hooks_return [OF reach_connected] by blast

text \<open>
  Unloading while the library is still connected: once \<open>exit_mymodule\<close> has released the
  socket, a packet that asks for a route goes through a null pointer, and once the queue is
  freed any packet for \<open>mytun\<close> goes through a dangling one; the hooks are removed last.
\<close>

theorem unloading_faults:
  assumes "kmod_inv s" "transmission_flag s" "my_queue_head s = Ptr h" "\<forall>k. k_alloc (kenv s) k"
    and "1000 < fuel" "sk_dst_dev skb = TUNNAME" "waiting (sk_daddr skb) h = []"
    and "hookindex = LOCAL \<or> hookindex = OTHER"
  shows "\<exists>s1 s2. clear_netlink s = Inr ((), s1) \<and> check_packet hookindex skb s1 = Inl NullDeref
    \<and> clear_packet_queue fuel s1 = Inr ((), s2) \<and> check_packet hookindex skb s2 = Inl UseAfterFree"
proof -
  from kmod_inv_queue [OF assms(1,2)] assms(3) have sock: "socket_of_netlink s" and h: "head_ok h" by simp_all
  let ?s1 = "s\<lparr>socket_of_netlink := False\<rparr>"
  let ?s2 = "?s1\<lparr>my_queue_head := Freed, kouts := kouts s @ map freed_by_cleanup (rev (qh_list h))\<rparr>"
  have w: "\<not> list_ex (\<lambda>e. el_dst_ip e = sk_daddr skb) (qh_list h)"
    using assms(7) by (auto simp: waiting_def list_ex_iff filter_empty_conv)
  have "clear_netlink s = Inr ((), ?s1)" using sock by (simp add: clear_netlink_def queue_run)
  moreover have "check_packet hookindex skb ?s1 = Inl NullDeref"
    using assms(2,3,4,6,8) w
    by (auto simp: check_packet_def judgment_packet_def receive_packet_def pending_ip_def transmit_rtinfo_def
        send_rtinfo_def queue_run)
  moreover have "clear_packet_queue fuel ?s1 = Inr ((), ?s2)"
    using cleanup_run [of ?s1 h fuel] assms(3,5) h head_ok_length [OF h]
    by (simp add: clear_packet_queue_def queue_run head_ok_def)
  moreover have "check_packet hookindex skb ?s2 = Inl UseAfterFree"
    using assms(2,6,8)
    by (auto simp: check_packet_def judgment_packet_def receive_packet_def pending_ip_def queue_run)
  ultimately show ?thesis by blast
qed

theorem unloading_faults_witness:
  "\<exists>s1 s2. clear_netlink holding = Inr ((), s1) \<and> check_packet OTHER (tun_packet 3 7) s1 = Inl NullDeref
    \<and> clear_packet_queue 1001 s1 = Inr ((), s2) \<and> check_packet OTHER (tun_packet 3 7) s2 = Inl UseAfterFree"
  by (rule unloading_faults [where h = two_held]) (use holding_inv(1) in \<open>simp_all add: waiting_def kernel_fields\<close>)

end
