(* ===== verification/Inet.thy ===== *)
theory Inet
  imports Prelude
begin

text \<open>
  Internet addresses as text, and the comparison of sequence numbers: \<open>utils.c\<close> of the two
  kernel modules (\<open>route_check\<close> and \<open>ODS_kernel\<close> have the same code). A C string is the list of
  its characters before the NUL; an address is kept in network byte order, so that its first
  part is the lowest byte on the little-endian machine. The locale \<open>printer\<close> states what a
  reader of printed addresses relies on.
\<close>

section \<open>Characters and decimal numbers\<close>

definition isascii :: "char \<Rightarrow> bool" where "isascii c = (of_char c < (128 :: nat))"

definition isdigit :: "char \<Rightarrow> bool" where
  "isdigit c = (48 \<le> (of_char c :: nat) \<and> of_char c \<le> (57 :: nat))"

definition islower :: "char \<Rightarrow> bool" where
  "islower c = (97 \<le> (of_char c :: nat) \<and> of_char c \<le> (122 :: nat))"

definition isxdigit :: "char \<Rightarrow> bool" where
  "isxdigit c = (isdigit c \<or> 97 \<le> (of_char c :: nat) \<and> of_char c \<le> (102 :: nat)
     \<or> 65 \<le> (of_char c :: nat) \<and> of_char c \<le> (70 :: nat))"

definition isspace :: "char \<Rightarrow> bool" where
  "isspace c = (of_char c = (32 :: nat) \<or> 9 \<le> (of_char c :: nat) \<and> of_char c \<le> (13 :: nat))"

definition digit :: "nat \<Rightarrow> char" where "digit n = char_of (48 + n)"

text \<open>The conversions \<open>%d\<close> and \<open>%lu\<close> of \<open>sprintf\<close> for a number that is not negative.\<close>

fun decimal :: "nat \<Rightarrow> string" where
  "decimal n = (if n < 10 then [digit n] else decimal (n div 10) @ [digit (n mod 10)])"

declare decimal.simps [simp del]

lemma digit_chars: "n < 10 \<Longrightarrow> isdigit (digit n) \<and> isascii (digit n) \<and> of_char (digit n) = 48 + n"
  by (simp add: isdigit_def isascii_def digit_def)

lemma decimal_nonempty [simp]: "decimal n \<noteq> []"
  by (subst decimal.simps) simp

lemma decimal_digits: "c \<in> set (decimal n) \<Longrightarrow> isdigit c"
  by (induction n rule: decimal.induct) (subst (asm) (2) decimal.simps, auto simp: digit_chars split: if_splits)

lemma digit_0: "digit 0 = CHR ''0''"
  by code_simp

lemma decimal_0: "decimal 0 = ''0''"
  by (subst decimal.simps) (simp add: digit_0)

lemma decimal_hd: "0 < n \<Longrightarrow> (of_char (hd (decimal n)) :: nat) \<noteq> 48"
proof (induction n rule: decimal.induct)
  case (1 n)
  then show ?case
    by (subst decimal.simps) (simp add: digit_chars)
qed

text \<open>Reading digits from the left.\<close>

definition digits_value :: "nat \<Rightarrow> string \<Rightarrow> nat" where
  "digits_value v ds = foldl (\<lambda>v c. v * 10 + (of_char c - 48)) v ds"

lemma digits_value_decimal: "digits_value 0 (decimal n) = n"
proof (induction n rule: decimal.induct)
  case (1 n)
  show ?case
  proof (cases "n < 10")
    case True
    then show ?thesis by (subst decimal.simps) (simp add: digits_value_def digit_chars)
  next
    case False
    with 1 show ?thesis by (subst decimal.simps) (simp add: digits_value_def digit_chars)
  qed
qed

section \<open>Printing and reading addresses\<close>

text \<open>Byte \<open>i\<close> of an address in memory.\<close>

definition ip_byte :: "ip \<Rightarrow> nat \<Rightarrow> nat" where
  "ip_byte a i = unat (le32 a ! i)"

definition inet_ntoa :: "ip \<Rightarrow> string" where
  "inet_ntoa ina = decimal (ip_byte ina 0) @ ''.'' @ decimal (ip_byte ina 1) @ ''.''
     @ decimal (ip_byte ina 2) @ ''.'' @ decimal (ip_byte ina 3)"

text \<open>
  \<open>inet_aton\<close>: a leading \<open>0\<close> or \<open>0x\<close> sets the base, the digits are collected in an
  \<open>unsigned int\<close>, decimal digits in every base.
\<close>

definition number_base :: "string \<Rightarrow> u32 \<times> string" where
  "number_base cp =
     (case cp of
        c # r \<Rightarrow>
          if c = CHR ''0'' then
            (case r of d # r' \<Rightarrow> if d = CHR ''x'' \<or> d = CHR ''X'' then (16, r') else (8, r)
             | [] \<Rightarrow> (8, []))
          else (10, cp)
      | [] \<Rightarrow> (10, []))"

fun scan_number :: "u32 \<Rightarrow> u32 \<Rightarrow> string \<Rightarrow> u32 \<times> string" where
  "scan_number base val [] = (val, [])"
| "scan_number base val (c # cp) =
     (if isascii c \<and> isdigit c then scan_number base (val * base + (of_char c - 48)) cp
      else if base = 16 \<and> isascii c \<and> isxdigit c then
        scan_number base (push_bit 4 val + (of_char c + 10 - (if islower c then 97 else 65))) cp
      else (val, c # cp))"

lemma number_base_length: "length (snd (number_base cp)) \<le> length cp"
  by (auto simp: number_base_def split: list.split)

lemma scan_number_length: "length (snd (scan_number base val cp)) \<le> length cp"
  by (induction base val cp rule: scan_number.induct) auto

definition htonl :: "u32 \<Rightarrow> u32" where
  "htonl w = push_bit 24 w OR push_bit 8 (w AND 0xFF00) OR (drop_bit 8 w AND 0xFF00) OR drop_bit 24 w"

definition concoct :: "u32 list \<Rightarrow> u32 \<Rightarrow> u32 option" where
  "concoct parts val =
     (case parts of
        [] \<Rightarrow> Some val
      | [a] \<Rightarrow> if val > 0xFFFFFF then None else Some (val OR push_bit 24 a)
      | [a, b] \<Rightarrow> if val > 0xFFFF then None else Some (val OR (push_bit 24 a OR push_bit 16 b))
      | [a, b, c] \<Rightarrow>
          if val > 0xFF then None else Some (val OR (push_bit 24 a OR push_bit 16 b OR push_bit 8 c))
      | _ \<Rightarrow> Some val)"

function aton_parts :: "u32 list \<Rightarrow> string \<Rightarrow> ip option" where
  "aton_parts parts cp =
     (let (base, cp1) = number_base cp; (val, cp2) = scan_number base 0 cp1 in
      case cp2 of
        [] \<Rightarrow> map_option htonl (concoct parts val)
      | c # r \<Rightarrow>
          if c = CHR ''.'' then
            (if length parts \<ge> 3 \<or> val > 0xFF then None else aton_parts (parts @ [val]) r)
          else if \<not> isascii c \<or> \<not> isspace c then None
          else map_option htonl (concoct parts val))"
  by pat_completeness auto

termination
proof (relation "measure (\<lambda>(parts, cp). length cp)")
  fix parts cp x base cp1 y val cp2 c r
  assume x: "x = number_base cp" "(base, cp1) = x" and y: "y = scan_number base 0 cp1" "(val, cp2) = y" and "cp2 = c # r"
  then have "length (c # r) = length (snd y)" "length cp1 = length (snd x)" by (metis snd_conv)+
  then have "length r < length cp"
    using number_base_length [of cp] scan_number_length [of base 0 cp1] by (simp add: x(1) y(1))
  then show "((parts @ [val], r), (parts, cp)) \<in> measure (\<lambda>(parts, cp). length cp)" by simp
qed simp

declare aton_parts.simps [simp del]

definition inet_aton :: "string \<Rightarrow> ip option" where
  "inet_aton cp = aton_parts [] cp"

text \<open>The signed comparison of two sequence numbers, whose difference wraps around.\<close>

definition seq_less_or_equal :: "u32 \<Rightarrow> u32 \<Rightarrow> int" where
  "seq_less_or_equal seq_one seq_two = (if sint (seq_one - seq_two) > 0 then 0 else 1)"

section \<open>What is printed is read back\<close>

lemma scan_digits:
  "(\<And>c. c \<in> set ds \<Longrightarrow> isdigit c) \<Longrightarrow> (case r of [] \<Rightarrow> True | c # _ \<Rightarrow> \<not> isdigit c) \<Longrightarrow>
   scan_number 10 (of_nat v) (ds @ r) = (of_nat (digits_value v ds), r)"
proof (induction ds arbitrary: v)
  case Nil
  then show ?case by (cases r) (simp_all add: digits_value_def)
next
  case (Cons c ds)
  then have c: "isdigit c" by simp
  then have "isascii c" and n: "48 \<le> (of_char c :: nat)" by (auto simp: isdigit_def isascii_def)
  have "(of_char c :: u32) = of_nat (of_char c)" by (simp add: of_nat_of_char)
  with n have "of_nat v * 10 + (of_char c - 48 :: u32) = of_nat (v * 10 + (of_char c - 48))"
    by (simp add: of_nat_diff)
  then have "scan_number 10 (of_nat v) ((c # ds) @ r)
      = scan_number 10 (of_nat (v * 10 + (of_char c - 48))) (ds @ r)"
    using c \<open>isascii c\<close> by (simp del: of_nat_add of_nat_mult)
  also have "\<dots> = (of_nat (digits_value (v * 10 + (of_char c - 48)) ds), r)"
    by (rule Cons.IH) (use Cons.prems in simp_all)
  finally show ?case by (simp add: digits_value_def)
qed

lemma scan_decimal:
  assumes "case r of [] \<Rightarrow> True | c # _ \<Rightarrow> c = CHR ''.''"
  shows "(case number_base (decimal n @ r) of (base, cp1) \<Rightarrow> scan_number base 0 cp1) = (of_nat n, r)"
proof (cases "n = 0")
  case True
  with assms show ?thesis
    by (cases r) (simp_all add: decimal_0 number_base_def isdigit_def isascii_def)
next
  case False
  then obtain c ds where d: "decimal n = c # ds" "(of_char c :: nat) \<noteq> 48"
    using decimal_hd [of n] by (cases "decimal n") auto
  then have "number_base (decimal n @ r) = (10, decimal n @ r)" by (auto simp: number_base_def)
  moreover have "scan_number 10 (of_nat 0) (decimal n @ r) = (of_nat (digits_value 0 (decimal n)), r)"
    by (rule scan_digits) (use assms decimal_digits in \<open>auto simp: isdigit_def split: list.splits\<close>)
  ultimately show ?thesis by (simp add: digits_value_decimal)
qed

lemma aton_part:
  assumes "n < 256" "length parts < 3"
  shows "aton_parts parts (decimal n @ ''.'' @ r) = aton_parts (parts @ [of_nat n]) r"
proof -
  from assms(1) have "\<not> (of_nat n :: u32) > 0xFF" by (simp add: word_less_nat_alt unat_of_nat)
  with scan_decimal [of "''.'' @ r" n] assms(2) show ?thesis
    by (subst aton_parts.simps) (auto split: prod.splits)
qed

lemma aton_last: "aton_parts parts (decimal n) = map_option htonl (concoct parts (of_nat n))"
  using scan_decimal [of "[]" n] by (subst aton_parts.simps) (auto split: prod.splits)

lemma ip_byte_word: "of_nat (ip_byte a i) = (ucast (le32 a ! i) :: u32)"
  by (simp add: ip_byte_def)

lemma htonl_mask:
  "htonl w = push_bit 24 w OR push_bit 8 (w AND push_bit 8 (mask 8))
     OR (drop_bit 8 w AND push_bit 8 (mask 8)) OR drop_bit 24 w"
  by (simp add: htonl_def mask_eq_exp_minus_1)

lemma htonl_bytes:
  "htonl (ucast (le32 a ! 3) OR (push_bit 24 (ucast (le32 a ! 0)) OR push_bit 16 (ucast (le32 a ! 1))
     OR push_bit 8 (ucast (le32 a ! 2)))) = (a :: u32)"
proof (rule bit_word_eqI)
  fix n assume "n < LENGTH(32)"
  then consider "n < 8" | "8 \<le> n \<and> n < 16" | "16 \<le> n \<and> n < 24" | "24 \<le> n \<and> n < 32" by fastforce
  then show "bit (htonl (ucast (le32 a ! 3) OR (push_bit 24 (ucast (le32 a ! 0))
      OR push_bit 16 (ucast (le32 a ! 1)) OR push_bit 8 (ucast (le32 a ! 2))))) n = bit a n"
    by cases (auto simp: htonl_mask le32_def bit_simps numeral_2_eq_2 numeral_3_eq_3)
qed

locale printer =
  fixes show' :: "'a \<Rightarrow> string" and read' :: "string \<Rightarrow> 'a option"
  assumes read_show: "read' (show' a) = Some a"
begin

lemma show_inject: "show' a = show' b \<longleftrightarrow> a = b"
  by (metis read_show option.inject)

end

lemma inet_aton_ntoa: "inet_aton (inet_ntoa a) = Some a"
proof -
  have b: "ip_byte a i < 256" for i using unsigned_less [of "le32 a ! i"] by (simp add: ip_byte_def)
  have "\<not> (of_nat (ip_byte a 3) :: u32) > 0xFF" using b [of 3] by (simp add: word_less_nat_alt unat_of_nat)
  then show ?thesis
    using htonl_bytes [of a]
    by (simp add: inet_aton_def inet_ntoa_def aton_part [OF b, simplified] aton_last concoct_def ip_byte_word)
qed

interpretation inet: printer inet_ntoa inet_aton
  by unfold_locales (rule inet_aton_ntoa)

section \<open>Properties\<close>

text \<open>
  Every address that \<open>inet_ntoa\<close> prints is read back by \<open>inet_aton\<close>.
\<close>

theorem inet_round_trip: "inet_aton (inet_ntoa a) = Some a"
  by (rule inet.read_show)

text \<open>
  \<open>seq_less_or_equal\<close> orders sequence numbers around the wrap: each of the \<open>2 ^ 31 - 1\<close>
  numbers that follow a number is larger than it, and the number itself is not.
\<close>

theorem seq_order_wraps:
  assumes "0 < d" "d < 2 ^ 31"
  shows "seq_less_or_equal s (s + of_nat d) = 1 \<and> seq_less_or_equal (s + of_nat d) s = 0
    \<and> seq_less_or_equal s s = 1"
proof -
  have d: "sint (of_nat d :: u32) = int d" "sint (- of_nat d :: u32) = - int d"
    using assms sint_sbintrunc' [where bin = "int d" and 'a = 32] sint_sbintrunc' [where bin = "- int d" and 'a = 32]
      signed_take_bit_int_eq_self [of 31 "int d"] signed_take_bit_int_eq_self [of 31 "- int d"]
    by simp_all
  with assms show ?thesis by (simp add: seq_less_or_equal_def)
qed

theorem seq_order_wraps_witness:
  "seq_less_or_equal 0xFFFFFFFF (0xFFFFFFFF + of_nat 5) = 1 \<and> seq_less_or_equal (0xFFFFFFFF + of_nat 5) 0xFFFFFFFF = 0"
  using seq_order_wraps [of 5 "0xFFFFFFFF"] by simp

end
