(* ===== verification/Scan.thy ===== *)
theory Scan
  imports Inet
begin

text \<open>
  Text files: the characters between which \<open>sprintf\<close> puts its numbers, the conversions of
  \<open>fscanf\<close> that the programs use, and that they read back what was printed.
\<close>

section \<open>Printing\<close>

definition signed_decimal :: "int \<Rightarrow> string" where
  "signed_decimal i = (if i < 0 then CHR ''-'' # decimal (nat (- i)) else decimal (nat i))"

definition newline :: char where "newline = CHR 0x0A"
definition tab :: char where "tab = CHR 0x09"

section \<open>The conversions of \<open>fscanf\<close>\<close>

definition skip_space :: "string \<Rightarrow> string" where
  "skip_space = dropWhile isspace"

definition scan_unsigned :: "string \<Rightarrow> (nat \<times> string) option" where
  "scan_unsigned cs =
     (let ds = takeWhile isdigit cs in
      if ds = [] then None else Some (digits_value 0 ds, dropWhile isdigit cs))"

definition scan_signed :: "string \<Rightarrow> (int \<times> string) option" where
  "scan_signed cs =
     (case cs of
        c # r \<Rightarrow> if c = CHR ''-'' then map_option (\<lambda>(n, r). (- int n, r)) (scan_unsigned r)
                 else map_option (\<lambda>(n, r). (int n, r)) (scan_unsigned cs)
      | [] \<Rightarrow> None)"

section \<open>What is printed is read back\<close>

lemma digit_not_space: "isdigit c \<Longrightarrow> \<not> isspace c"
  by (auto simp: isdigit_def isspace_def)

lemma space_chars [simp]: "isspace tab" "isspace newline" "isspace CHR '' ''" "\<not> isdigit tab" "\<not> isdigit newline"
    "\<not> isdigit CHR '' ''"
  by (simp_all add: isspace_def isdigit_def tab_def newline_def)

lemma ntoa_chars: "c \<in> set (inet_ntoa a) \<Longrightarrow> \<not> isspace c"
  by (auto simp: inet_ntoa_def isspace_def dest!: decimal_digits simp: isdigit_def)

lemma ntoa_nonempty [simp]: "inet_ntoa a \<noteq> []"
  by (simp add: inet_ntoa_def)

lemma take_drop_class:
  assumes "\<And>c. c \<in> set xs \<Longrightarrow> P c" "\<not> P y"
  shows "takeWhile P (xs @ y # r) = xs" "dropWhile P (xs @ y # r) = y # r"
  using assms by (simp_all add: takeWhile_append2 dropWhile_append2)

lemma skip_space_start [simp]: "isspace c \<Longrightarrow> skip_space (c # r) = skip_space r"
  "\<not> isspace c \<Longrightarrow> skip_space (c # r) = c # r" "skip_space [] = []"
  by (simp_all add: skip_space_def)

lemma skip_space_decimal [simp]: "skip_space (decimal n @ r) = decimal n @ r"
  using decimal_digits [of "hd (decimal n)" n] by (cases "decimal n") (auto simp: digit_not_space)

lemma skip_space_ntoa [simp]: "skip_space (inet_ntoa a @ r) = inet_ntoa a @ r"
  using ntoa_chars [of "hd (inet_ntoa a)" a] by (cases "inet_ntoa a") auto

lemma scan_unsigned_decimal: "\<not> isdigit c \<Longrightarrow> scan_unsigned (decimal n @ c # r) = Some (n, c # r)"
  using take_drop_class [of "decimal n" isdigit c r] decimal_digits [of _ n]
  by (simp add: scan_unsigned_def digits_value_decimal)

lemma scan_signed_decimal:
  assumes "\<not> isdigit c"
  shows "scan_signed (skip_space (signed_decimal i @ c # r)) = Some (i, c # r)"
proof (cases "i < 0")
  case True
  moreover have "\<not> isspace CHR ''-''" by (simp add: isspace_def)
  ultimately show ?thesis
    using assms by (simp add: signed_decimal_def scan_signed_def scan_unsigned_decimal)
next
  case False
  obtain d ds where d: "decimal (nat i) = d # ds" by (cases "decimal (nat i)") auto
  with decimal_digits [of d "nat i"] have "d \<noteq> CHR ''-''" by (auto simp: isdigit_def)
  have "skip_space (signed_decimal i @ c # r) = d # ds @ c # r"
    using False skip_space_decimal [of "nat i" "c # r"] unfolding d by (simp add: signed_decimal_def d)
  moreover have "scan_unsigned (d # ds @ c # r) = Some (nat i, c # r)"
    using scan_unsigned_decimal [OF assms, of "nat i" r] unfolding d by simp
  ultimately show ?thesis using False \<open>d \<noteq> _\<close> by (simp add: scan_signed_def)
qed

end
