(* ===== verification/Route_Cache.thy ===== *)
theory Route_Cache
  imports Scan
begin

text \<open>
  The kernel module \<open>route_check\<close> (\<open>kernel_module/route_check\<close>): the time of last use of each
  destination and source, kept in a linked list of \<open>struct route_cache_entry\<close> on the heap
  (\<open>route_cache.c\<close>), the netfilter hook that fills it (\<open>module_main.c\<close>), its clock
  (\<open>utils.c\<close>) and the text it shows in \<open>/proc/asl/route_check\<close>. The locale \<open>time_table\<close> states
  what the hook promises of the list.
\<close>

section \<open>The heap\<close>

text \<open>A \<open>None\<close> in the heap is memory that is free; \<open>prev\<close> of the structure is never used.\<close>

record route_cache_entry =
  rc_dst_ip :: ip
  rc_last_use_time :: u64
  rc_valid_flag :: int
  rc_next :: "nat option"

text \<open>
  The environment: the wall clock in seconds and nanoseconds and the success of allocations, by
  a running number; the module's variables and its heap. A new block gets the address \<open>rc_fresh\<close>.
\<close>

record rcache =
  rc_clock :: "nat \<Rightarrow> u64 \<times> u64"
  rc_alloc :: "nat \<Rightarrow> bool"
  rc_ticks :: nat
  rc_heap :: "nat \<rightharpoonup> route_cache_entry"
  rc_fresh :: nat
  route_cache :: "nat option"

abbreviation (input) EXPIRE_TIME :: u64 where "EXPIRE_TIME \<equiv> 30"

definition at :: "nat \<Rightarrow> (rcache, route_cache_entry) sm" where
  "at a = bnd (gets (\<lambda>s. rc_heap s a)) (\<lambda>r. case r of None \<Rightarrow> raise UseAfterFree | Some e \<Rightarrow> ret e)"

definition assign :: "nat \<Rightarrow> (route_cache_entry \<Rightarrow> route_cache_entry) \<Rightarrow> (rcache, unit) sm" where
  "assign a f = bnd (at a) (\<lambda>e. upd (\<lambda>s. s\<lparr>rc_heap := (rc_heap s)(a \<mapsto> f e)\<rparr>))"

definition kfree :: "nat \<Rightarrow> (rcache, unit) sm" where
  "kfree a = bnd (at a) (\<lambda>e. upd (\<lambda>s. s\<lparr>rc_heap := (rc_heap s)(a := None)\<rparr>))"

definition rc_request :: "(rcache \<Rightarrow> nat \<Rightarrow> 'a) \<Rightarrow> (rcache, 'a) sm" where
  "rc_request f = (\<lambda>s. Inr (f s (rc_ticks s), s\<lparr>rc_ticks := Suc (rc_ticks s)\<rparr>))"

text \<open>Milliseconds from seconds, to which the code adds microseconds.\<close>

definition rc_getcurrtime :: "(rcache, u64) sm" where
  "rc_getcurrtime = bnd (rc_request rc_clock) (\<lambda>(sec, nsec). ret (sec * 1000 + nsec div 1000))"

section \<open>The list operations\<close>

text \<open>
  The loops follow \<open>next\<close>; a list without a cycle has at most \<open>rc_fresh\<close> nodes, which bounds
  their rounds.
\<close>

fun find_loop :: "nat \<Rightarrow> ip \<Rightarrow> int \<Rightarrow> nat option \<Rightarrow> (rcache, nat option) sm" where
  "find_loop n dst_ip vFlag None = ret None"
| "find_loop 0 dst_ip vFlag (Some a) = raise OutOfFuel"
| "find_loop (Suc n) dst_ip vFlag (Some a) =
     bnd (at a) (\<lambda>e.
     if dst_ip = rc_dst_ip e \<and> vFlag = rc_valid_flag e then ret (Some a)
     else find_loop n dst_ip vFlag (rc_next e))"

definition find_route_cache_entry :: "ip \<Rightarrow> int \<Rightarrow> (rcache, nat option) sm" where
  "find_route_cache_entry dst_ip vFlag =
     bnd (gets rc_fresh) (\<lambda>n. bnd (gets route_cache) (\<lambda>p. find_loop n dst_ip vFlag p))"

definition insert_route_cache_entry :: "ip \<Rightarrow> u64 \<Rightarrow> int \<Rightarrow> (rcache, int) sm" where
  "insert_route_cache_entry dst_ip last_use_time vFlag =
     bnd (rc_request rc_alloc) (\<lambda>ok.
     if \<not> ok then ret 1
     else
       andthen (upd (\<lambda>s. s\<lparr>rc_heap := (rc_heap s)(rc_fresh s \<mapsto> \<lparr>rc_dst_ip = dst_ip,
             rc_last_use_time = last_use_time, rc_valid_flag = vFlag, rc_next = route_cache s\<rparr>),
           route_cache := Some (rc_fresh s), rc_fresh := Suc (rc_fresh s)\<rparr>))
         (ret 0))"

fun delete_old_loop :: "nat \<Rightarrow> u64 \<Rightarrow> nat option \<Rightarrow> nat option \<Rightarrow> (rcache, unit) sm" where
  "delete_old_loop n curr_time prev_entry None = ret ()"
| "delete_old_loop 0 curr_time prev_entry (Some a) = raise OutOfFuel"
| "delete_old_loop (Suc n) curr_time prev_entry (Some a) =
     bnd (at a) (\<lambda>e.
     if curr_time > rc_last_use_time e + EXPIRE_TIME then
       andthen
         (case prev_entry of
            None \<Rightarrow> upd (\<lambda>s. s\<lparr>route_cache := None\<rparr>)
          | Some p \<Rightarrow> assign p (\<lambda>pe. pe\<lparr>rc_next := rc_next e\<rparr>))
       (andthen (kfree a) (delete_old_loop n curr_time prev_entry (rc_next e)))
     else delete_old_loop n curr_time (Some a) (rc_next e))"

definition delete_old_route_cache_entries :: "(rcache, unit) sm" where
  "delete_old_route_cache_entries =
     bnd rc_getcurrtime (\<lambda>curr_time.
     bnd (gets rc_fresh) (\<lambda>n.
     bnd (gets route_cache) (\<lambda>p. delete_old_loop n curr_time None p)))"

text \<open>\<open>delete_route_cache_entry\<close> never moves \<open>prev_entry\<close>, which stays null.\<close>

fun delete_loop :: "nat \<Rightarrow> nat \<Rightarrow> nat option \<Rightarrow> (rcache, int) sm" where
  "delete_loop n dead_entry None = ret 1"
| "delete_loop 0 dead_entry (Some a) = raise OutOfFuel"
| "delete_loop (Suc n) dead_entry (Some a) =
     (if a = dead_entry then
        andthen (upd (\<lambda>s. s\<lparr>route_cache := None\<rparr>)) (andthen (kfree a) (ret 0))
      else bnd (at a) (\<lambda>e. delete_loop n dead_entry (rc_next e)))"

definition delete_route_cache_entry :: "nat \<Rightarrow> (rcache, int) sm" where
  "delete_route_cache_entry dead_entry =
     bnd (gets rc_fresh) (\<lambda>n. bnd (gets route_cache) (\<lambda>p. delete_loop n dead_entry p))"

fun cleanup_loop :: "nat \<Rightarrow> nat option \<Rightarrow> (rcache, unit) sm" where
  "cleanup_loop n None = ret ()"
| "cleanup_loop 0 (Some a) = raise OutOfFuel"
| "cleanup_loop (Suc n) (Some a) = bnd (at a) (\<lambda>e. andthen (kfree a) (cleanup_loop n (rc_next e)))"

definition cleanup_route_cache :: "(rcache, unit) sm" where
  "cleanup_route_cache =
     bnd (gets rc_fresh) (\<lambda>n. bnd (gets route_cache) (\<lambda>p. cleanup_loop n p))"

definition init_route_cache :: "(rcache, int) sm" where
  "init_route_cache = andthen (upd (\<lambda>s. s\<lparr>route_cache := None\<rparr>)) (ret 0)"

section \<open>The hook and the text in /proc\<close>

text \<open>
  \<open>input_handler\<close> for a packet with these addresses. The test \<open>udp_hdr (skb) != NULL\<close> always
  holds: the header pointer is an offset into the packet.
\<close>

definition touch_entry :: "ip \<Rightarrow> u64 \<Rightarrow> int \<Rightarrow> (rcache, unit) sm" where
  "touch_entry a last_use_time vFlag =
     bnd (find_route_cache_entry a vFlag) (\<lambda>tmp_entry.
     case tmp_entry of
       None \<Rightarrow> bnd (insert_route_cache_entry a last_use_time vFlag) (\<lambda>_. ret ())
     | Some p \<Rightarrow> assign p (\<lambda>e. e\<lparr>rc_last_use_time := last_use_time\<rparr>))"

definition input_handler :: "ip \<Rightarrow> ip \<Rightarrow> (rcache, u32) sm" where
  "input_handler dst_ip src_ip =
     bnd rc_getcurrtime (\<lambda>last_use_time.
     andthen (touch_entry dst_ip last_use_time 1)
     (andthen (touch_entry src_ip last_use_time 0) (ret 1)))"

definition cache_title :: string where
  "cache_title = ''Destination'' @ [tab] @ '' Last_use_time(In msec)'' @ [tab] @ '' Valid Flag'' @ [newline]"

definition cache_line :: "route_cache_entry \<Rightarrow> string" where
  "cache_line e = inet_ntoa (rc_dst_ip e) @ [tab] @ '' '' @ decimal (unat (rc_last_use_time e))
     @ [tab, tab] @ '' '' @ signed_decimal (rc_valid_flag e) @ [newline]"

fun text_loop :: "nat \<Rightarrow> nat option \<Rightarrow> (rcache, string) sm" where
  "text_loop n None = ret []"
| "text_loop 0 (Some a) = raise OutOfFuel"
| "text_loop (Suc n) (Some a) =
     bnd (at a) (\<lambda>e. bnd (text_loop n (rc_next e)) (\<lambda>t. ret (cache_line e @ t)))"

text \<open>
  \<open>read_route_cache_proc\<close> with a buffer of \<open>buffer_length\<close> bytes and the file position
  \<open>offset\<close>: the result, the bytes copied to the reader, and the new position. The text is built
  in a block of \<open>buffer_length\<close> bytes, whatever its length; the first title is overwritten
  by the second.
\<close>

definition read_route_cache_proc :: "nat \<Rightarrow> nat \<Rightarrow> (rcache, int \<times> string \<times> nat) sm" where
  "read_route_cache_proc buffer_length offset =
     bnd (rc_request rc_alloc) (\<lambda>ok.
     bnd (gets rc_fresh) (\<lambda>n. bnd (gets route_cache) (\<lambda>p.
     if \<not> ok then raise NullDeref
     else
       bnd (text_loop n p) (\<lambda>t.
       let text = cache_title @ t; len = length text; need = max (len + 1) 57 in
       if need > buffer_length then raise (HeapOverflow need buffer_length)
       else if offset \<ge> len then ret (if buffer_length = 0 then 0 else - 6, [], offset)
       else
         let count = (if offset + buffer_length > len then len - offset else buffer_length) in
         ret (int count, take count (drop offset text), offset + count)))))"

end
