(* ===== verification/Cache_Laws.thy ===== *)
theory Cache_Laws
  imports Route_Cache "HOL-Library.AList"
begin

text \<open>
  What the module \<open>route_check\<close> keeps: its linked list in the heap (\<open>rc_list\<close>) represents an
  association list from (address, flag) to times (\<open>cached\<close>), without duplicate keys in every
  reachable state; the hook updates it like a table; the two deletions lose more than they
  should.
\<close>

section \<open>A table of times\<close>

locale time_table =
  fixes look :: "'t \<Rightarrow> 'k \<Rightarrow> 'v option" and touch :: "'k \<Rightarrow> 'v \<Rightarrow> 't \<Rightarrow> 't" and ok :: "'t \<Rightarrow> bool"
  assumes look_touch: "look (touch k v t) k' = (if k' = k then Some v else look t k')"
    and ok_touch: "ok t \<Longrightarrow> ok (touch k v t)"
begin

lemma look_touch_two:
  "k \<noteq> k' \<Longrightarrow> look (touch k' v (touch k v t)) = (look t)(k \<mapsto> v, k' \<mapsto> v)"
  by (auto simp: fun_eq_iff look_touch)

lemma look_touch_same: "look (touch k w (touch k v t)) = look (touch k w t)"
  by (auto simp: fun_eq_iff look_touch)

end

definition touch :: "'k \<Rightarrow> 'v \<Rightarrow> ('k \<times> 'v) list \<Rightarrow> ('k \<times> 'v) list" where
  "touch k v l = (if map_of l k = None then (k, v) # l else AList.update k v l)"

lemma keys_touch: "map fst (touch k v l) = (if k \<in> fst ` set l then map fst l else k # map fst l)"
  by (auto simp: touch_def map_of_eq_None_iff update_keys)

interpretation times: time_table map_of touch "\<lambda>l. distinct (map fst l)"
proof
  fix k k' :: 'k and v :: 'v and t
  show "map_of (touch k v t) k' = (if k' = k then Some v else map_of t k')"
    by (auto simp: touch_def update_conv)
  show "distinct (map fst t) \<Longrightarrow> distinct (map fst (touch k v t))"
    by (simp add: keys_touch)
qed

section \<open>The list in the heap\<close>

primrec rc_list :: "(nat \<rightharpoonup> route_cache_entry) \<Rightarrow> nat option \<Rightarrow> nat list \<Rightarrow> bool" where
  "rc_list h p [] = (p = None)"
| "rc_list h p (a # as) = (p = Some a \<and> (\<exists>e. h a = Some e \<and> rc_list h (rc_next e) as))"

definition entry_of :: "route_cache_entry \<Rightarrow> (ip \<times> int) \<times> u64" where
  "entry_of e = ((rc_dst_ip e, rc_valid_flag e), rc_last_use_time e)"

definition content :: "(nat \<rightharpoonup> route_cache_entry) \<Rightarrow> nat list \<Rightarrow> ((ip \<times> int) \<times> u64) list" where
  "content h as = map (\<lambda>a. entry_of (the (h a))) as"

definition cached :: "rcache \<Rightarrow> ((ip \<times> int) \<times> u64) list \<Rightarrow> bool" where
  "cached s l \<longleftrightarrow> dom (rc_heap s) \<subseteq> {..<rc_fresh s}
     \<and> (\<exists>as. rc_list (rc_heap s) (route_cache s) as \<and> content (rc_heap s) as = l)"

lemma rc_list_other [simp]: "a \<notin> set as \<Longrightarrow> rc_list (h(a := x)) p as = rc_list h p as"
  by (induction as arbitrary: p) auto

lemma content_other [simp]: "a \<notin> set as \<Longrightarrow> content (h(a := x)) as = content h as"
  by (auto simp: content_def)

lemma rc_list_dom: "rc_list h p as \<Longrightarrow> set as \<subseteq> dom h"
  by (induction as arbitrary: p) auto

lemma rc_list_unique: "rc_list h p as \<Longrightarrow> rc_list h p bs \<Longrightarrow> as = bs"
proof (induction as arbitrary: p bs)
  case (Cons a as)
  then show ?case by (cases bs) auto
next
  case Nil
  then show ?case by (cases bs) auto
qed

lemma rc_list_append: "rc_list h p (as @ bs) \<Longrightarrow> \<exists>q. rc_list h q bs"
  by (induction as arbitrary: p) auto

text \<open>A list that ends has no cycle, so no two nodes of it are the same.\<close>

lemma rc_list_distinct: "rc_list h p as \<Longrightarrow> distinct as"
proof (induction as arbitrary: p)
  case (Cons a as)
  then obtain e where e: "h a = Some e" "rc_list h (rc_next e) as" by auto
  have "a \<notin> set as"
  proof
    assume "a \<in> set as"
    then obtain xs ys where s: "as = xs @ a # ys" by (auto simp: in_set_conv_decomp)
    with rc_list_append [of h "rc_next e" xs "a # ys"] e have "rc_list h (rc_next e) ys" by auto
    from rc_list_unique [OF e(2) this] s have "length as = length ys" "length as = Suc (length xs + length ys)"
      by simp_all
    then show False by simp
  qed
  with Cons.IH [OF e(2)] show ?case by simp
qed simp

lemma rc_list_length:
  assumes "dom h \<subseteq> {..<n}" "rc_list h p as"
  shows "length as \<le> n"
  using card_mono [of "{..<n}" "set as"] rc_list_dom [OF assms(2)] assms(1)
    distinct_card [OF rc_list_distinct [OF assms(2)]] by auto

lemmas cache_run = at_def assign_def kfree_def rc_request_def sm_simps

section \<open>Searching and touching\<close>

lemma find_loop_run:
  "rc_list (rc_heap s) p as \<Longrightarrow> length as \<le> n \<Longrightarrow>
   find_loop n dst f p s = Inr (find (\<lambda>a. fst (entry_of (the (rc_heap s a))) = (dst, f)) as, s)"
proof (induction n arbitrary: p as)
  case 0
  then show ?case by (cases as) (simp_all add: cache_run)
next
  case (Suc n)
  then show ?case by (cases as) (auto simp: cache_run entry_of_def)
qed

lemma find_entry_run:
  assumes "dom (rc_heap s) \<subseteq> {..<rc_fresh s}" "rc_list (rc_heap s) (route_cache s) as"
  shows "find_route_cache_entry dst f s =
    Inr (find (\<lambda>a. fst (entry_of (the (rc_heap s a))) = (dst, f)) as, s)"
  using find_loop_run [OF assms(2) rc_list_length [OF assms]]
  by (simp add: find_route_cache_entry_def cache_run)

lemma rc_list_same_next:
  "rc_list h p as \<Longrightarrow> h a = Some e \<Longrightarrow> rc_next e' = rc_next e \<Longrightarrow> rc_list (h(a \<mapsto> e')) p as"
  by (induction as arbitrary: p) auto

lemma content_touch:
  "distinct as \<Longrightarrow> set as \<subseteq> dom h \<Longrightarrow> find (\<lambda>a. fst (entry_of (the (h a))) = k) as = Some a \<Longrightarrow>
   content (h(a \<mapsto> (the (h a))\<lparr>rc_last_use_time := t\<rparr>)) as = AList.update k t (content h as)"
proof (induction as)
  case (Cons b as)
  show ?case
  proof (cases "b = a")
    case True
    with Cons.prems have "content (h(a \<mapsto> (the (h a))\<lparr>rc_last_use_time := t\<rparr>)) as = content h as"
      by auto
    moreover have "fst (entry_of (the (h a))) = k"
      using Cons.prems(3) True by (auto simp: find_Some_iff split: if_splits)
    ultimately show ?thesis using True by (simp add: content_def entry_of_def)
  next
    case False
    with Cons.prems have "fst (entry_of (the (h b))) \<noteq> k" by (auto split: if_splits)
    with Cons False show ?thesis by (cases "entry_of (the (h b))") (auto simp: content_def)
  qed
qed simp

lemma find_content: "find (\<lambda>a. fst (entry_of (the (h a))) = k) as = None \<longleftrightarrow> map_of (content h as) k = None"
  by (auto simp: find_None_iff map_of_eq_None_iff content_def)

lemma touch_entry_run:
  assumes "cached s l"
  obtains s' where "touch_entry a t f s = Inr ((), s')" "cached s' (touch (a, f) t l) \<or> cached s' l"
    "rc_alloc s (rc_ticks s) \<longrightarrow> cached s' (touch (a, f) t l)" "rc_alloc s' = rc_alloc s"
proof -
  from assms obtain as where d: "dom (rc_heap s) \<subseteq> {..<rc_fresh s}"
    and as: "rc_list (rc_heap s) (route_cache s) as" and l: "content (rc_heap s) as = l"
    by (auto simp: cached_def)
  let ?find = "find (\<lambda>x. fst (entry_of (the (rc_heap s x))) = (a, f)) as"
  note run = find_entry_run [OF d as, of a f]
  show thesis
  proof (cases ?find)
    case (Some p)
    then have p: "p \<in> set as" by (auto simp: find_Some_iff)
    with rc_list_dom [OF as] obtain e where e: "rc_heap s p = Some e" by auto
    let ?s = "s\<lparr>rc_heap := (rc_heap s)(p \<mapsto> e\<lparr>rc_last_use_time := t\<rparr>)\<rparr>"
    have "content (rc_heap ?s) as = AList.update (a, f) t l"
      using content_touch [OF rc_list_distinct [OF as] rc_list_dom [OF as] Some, of t] e l by simp
    moreover have "map_of l (a, f) \<noteq> None"
      using find_content [of "rc_heap s" "(a, f)" as] Some l by auto
    ultimately have "cached ?s (touch (a, f) t l)"
      using d rc_list_same_next [OF as e] e by (auto simp: cached_def touch_def intro!: exI [of _ as])
    moreover have "touch_entry a t f s = Inr ((), ?s)"
      by (simp add: touch_entry_def cache_run run Some e)
    ultimately show thesis by (auto intro: that)
  next
    case None
    then have none: "map_of l (a, f) = None" using find_content [of "rc_heap s" "(a, f)" as] l by auto
    show thesis
    proof (cases "rc_alloc s (rc_ticks s)")
      case True
      let ?e = "\<lparr>rc_dst_ip = a, rc_last_use_time = t, rc_valid_flag = f, rc_next = route_cache s\<rparr>"
      let ?s = "s\<lparr>rc_ticks := Suc (rc_ticks s), rc_heap := (rc_heap s)(rc_fresh s \<mapsto> ?e),
        route_cache := Some (rc_fresh s), rc_fresh := Suc (rc_fresh s)\<rparr>"
      have fresh: "rc_fresh s \<notin> set as" using rc_list_dom [OF as] d by auto
      then have "rc_list (rc_heap ?s) (route_cache s) as" "content (rc_heap ?s) as = l"
        using as l by simp_all
      then have "rc_list (rc_heap ?s) (route_cache ?s) (rc_fresh s # as)"
          "content (rc_heap ?s) (rc_fresh s # as) = touch (a, f) t l"
        using none by (simp_all add: content_def entry_of_def touch_def)
      then have "cached ?s (touch (a, f) t l)" using d unfolding cached_def by auto
      moreover have "touch_entry a t f s = Inr ((), ?s)"
        using True by (simp add: touch_entry_def insert_route_cache_entry_def cache_run run None)
      ultimately show thesis by (auto intro: that)
    next
      case False
      let ?s = "s\<lparr>rc_ticks := Suc (rc_ticks s)\<rparr>"
      have "cached ?s l" using assms by (simp add: cached_def)
      moreover have "touch_entry a t f s = Inr ((), ?s)"
        using False by (simp add: touch_entry_def insert_route_cache_entry_def cache_run run None)
      ultimately show thesis using False by (auto intro: that)
    qed
  qed
qed

section \<open>The hook\<close>

definition reading :: "rcache \<Rightarrow> u64" where
  "reading s = (let (sec, nsec) = rc_clock s (rc_ticks s) in sec * 1000 + nsec div 1000)"

lemma getcurrtime_run: "rc_getcurrtime s = Inr (reading s, s\<lparr>rc_ticks := Suc (rc_ticks s)\<rparr>)"
  by (simp add: rc_getcurrtime_def reading_def cache_run split: prod.split)

lemma cached_ticks [simp]: "cached (s\<lparr>rc_ticks := t\<rparr>) l = cached s l"
  by (simp add: cached_def)

text \<open>The hook with and without failing allocations.\<close>

lemma input_handler_run:
  assumes "cached s l"
  obtains s' l' where "input_handler dst src s = Inr (1, s')" "cached s' l'"
    "distinct (map fst l) \<longrightarrow> distinct (map fst l')"
    "(\<forall>k. rc_alloc s k) \<longrightarrow> l' = touch (src, 0) (reading s) (touch (dst, 1) (reading s) l)"
proof -
  let ?t = "reading s" and ?s = "s\<lparr>rc_ticks := Suc (rc_ticks s)\<rparr>"
  from assms have "cached ?s l" by simp
  from touch_entry_run [OF this, of dst ?t 1] obtain s1 where
    s1: "touch_entry dst ?t 1 ?s = Inr ((), s1)" "cached s1 (touch (dst, 1) ?t l) \<or> cached s1 l"
      "rc_alloc s (Suc (rc_ticks s)) \<longrightarrow> cached s1 (touch (dst, 1) ?t l)" "rc_alloc s1 = rc_alloc s"
    by auto
  then obtain l1 where l1: "cached s1 l1" "l1 = touch (dst, 1) ?t l \<or> l1 = l"
      "rc_alloc s (Suc (rc_ticks s)) \<longrightarrow> l1 = touch (dst, 1) ?t l" by blast
  from touch_entry_run [OF l1(1), of src ?t 0] obtain s2 where
    s2: "touch_entry src ?t 0 s1 = Inr ((), s2)" "cached s2 (touch (src, 0) ?t l1) \<or> cached s2 l1"
      "rc_alloc s1 (rc_ticks s1) \<longrightarrow> cached s2 (touch (src, 0) ?t l1)"
    by auto
  then obtain l2 where l2: "cached s2 l2" "l2 = touch (src, 0) ?t l1 \<or> l2 = l1"
      "rc_alloc s1 (rc_ticks s1) \<longrightarrow> l2 = touch (src, 0) ?t l1" by blast
  have "input_handler dst src s = Inr (1, s2)"
    using s1(1) s2(1) by (simp add: input_handler_def getcurrtime_run sm_simps)
  moreover have "distinct (map fst l) \<longrightarrow> distinct (map fst l2)"
    using l1(2) l2(2) by (auto intro: times.ok_touch)
  moreover have "(\<forall>k. rc_alloc s k) \<longrightarrow> l2 = touch (src, 0) ?t (touch (dst, 1) ?t l)"
    using l1(3) l2(3) s1(4) by simp
  ultimately show thesis using l2(1) by (intro that [of s2 l2])
qed

section \<open>The deletions\<close>

definition expired :: "u64 \<Rightarrow> u64 \<Rightarrow> bool" where
  "expired now t \<longleftrightarrow> now > t + EXPIRE_TIME"

abbreviation (input) keep :: "(nat \<rightharpoonup> route_cache_entry) \<Rightarrow> u64 \<Rightarrow> nat \<Rightarrow> bool" where
  "keep h now a \<equiv> \<not> expired now (rc_last_use_time (the (h a)))"

text \<open>
  The loop behind a node \<open>q\<close> that stays: the expired nodes are unlinked and freed, the other
  nodes keep their contents and their order.
\<close>

lemma delete_old_behind:
  "rc_list (rc_heap s) p as \<Longrightarrow> q \<notin> set as \<Longrightarrow> rc_heap s q = Some e \<Longrightarrow> rc_next e = p \<Longrightarrow>
   length as \<le> n \<Longrightarrow> \<exists>h. delete_old_loop n now (Some q) p s = Inr ((), s\<lparr>rc_heap := h\<rparr>)
     \<and> dom h \<subseteq> dom (rc_heap s)
     \<and> rc_list h (Some q) (q # filter (keep (rc_heap s) now) as)
     \<and> content h (q # filter (keep (rc_heap s) now) as) = content (rc_heap s) (q # filter (keep (rc_heap s) now) as)
     \<and> (\<forall>a. a \<notin> insert q (set as) \<longrightarrow> h a = rc_heap s a)"
proof (induction as arbitrary: n p q e s)
  case Nil
  then show ?case by (cases n) (auto simp: cache_run intro!: exI [of _ "rc_heap s"])
next
  case (Cons a as)
  then obtain m where n: "n = Suc m" "length as \<le> m" by (cases n) auto
  from Cons.prems obtain ea where a: "p = Some a" "rc_heap s a = Some ea" "rc_list (rc_heap s) (rc_next ea) as"
    by auto
  from rc_list_distinct [OF Cons.prems(1)] have da: "a \<notin> set as" "distinct as" by auto
  have qa: "q \<noteq> a" "q \<notin> set as" using Cons.prems(2) by auto
  show ?case
  proof (cases "expired now (rc_last_use_time ea)")
    case True
    let ?s = "s\<lparr>rc_heap := (rc_heap s)(q \<mapsto> e\<lparr>rc_next := rc_next ea\<rparr>, a := None)\<rparr>"
    have l: "rc_list (rc_heap ?s) (rc_next ea) as" using a(3) da qa by simp
    have run: "delete_old_loop n now (Some q) p s = delete_old_loop m now (Some q) (rc_next ea) ?s"
      using True a Cons.prems(3) qa n by (simp add: cache_run expired_def fun_upd_twist)
    have same: "filter (keep (rc_heap ?s) now) as = filter (keep (rc_heap s) now) as"
      by (rule filter_cong) (use da qa in auto)
    have q: "rc_heap ?s q = Some (e\<lparr>rc_next := rc_next ea\<rparr>)" using qa by simp
    have next': "rc_next (e\<lparr>rc_next := rc_next ea\<rparr>) = rc_next ea" by simp
    obtain h where
      h: "delete_old_loop m now (Some q) (rc_next ea) ?s = Inr ((), ?s\<lparr>rc_heap := h\<rparr>)" "dom h \<subseteq> dom (rc_heap ?s)"
        "rc_list h (Some q) (q # filter (keep (rc_heap s) now) as)"
        "content h (q # filter (keep (rc_heap s) now) as) = content (rc_heap ?s) (q # filter (keep (rc_heap s) now) as)"
        "\<forall>x. x \<notin> insert q (set as) \<longrightarrow> h x = rc_heap ?s x"
      using Cons.IH [OF l qa(2) q next' n(2)] unfolding same by blast
    have r: "delete_old_loop n now (Some q) p s = Inr ((), s\<lparr>rc_heap := h\<rparr>)" unfolding run h(1) by simp
    have c: "content (rc_heap ?s) (q # filter (keep (rc_heap s) now) as)
        = content (rc_heap s) (q # filter (keep (rc_heap s) now) as)"
      using qa da Cons.prems(3) by (auto simp: content_def entry_of_def)
    have d: "dom (rc_heap ?s) \<subseteq> dom (rc_heap s)" using Cons.prems(3) by auto
    show ?thesis
    proof (intro exI [of _ h] conjI r)
      show "dom h \<subseteq> dom (rc_heap s)" using h(2) d by blast
      show "rc_list h (Some q) (q # filter (keep (rc_heap s) now) (a # as))"
        "content h (q # filter (keep (rc_heap s) now) (a # as))
          = content (rc_heap s) (q # filter (keep (rc_heap s) now) (a # as))"
        using h(3,4) c True a by (simp_all del: rc_list.simps)
      show "\<forall>x. x \<notin> insert q (set (a # as)) \<longrightarrow> h x = rc_heap s x" using h(5) by auto
    qed
  next
    case False
    have run: "delete_old_loop n now (Some q) p s = delete_old_loop m now (Some a) (rc_next ea) s"
      using False a n by (simp add: cache_run expired_def)
    from Cons.IH [OF a(3) da(1) a(2) refl n(2)] run obtain h where
      h: "delete_old_loop n now (Some q) p s = Inr ((), s\<lparr>rc_heap := h\<rparr>)" "dom h \<subseteq> dom (rc_heap s)"
        "rc_list h (Some a) (a # filter (keep (rc_heap s) now) as)"
        "content h (a # filter (keep (rc_heap s) now) as) = content (rc_heap s) (a # filter (keep (rc_heap s) now) as)"
        "\<forall>x. x \<notin> insert a (set as) \<longrightarrow> h x = rc_heap s x"
      by auto
    with qa Cons.prems(3,4) a False show ?thesis
      by (intro exI [of _ h]) (auto simp: content_def)
  qed
qed

text \<open>When the first entry has expired, the list is cut off there.\<close>

lemma delete_old_front:
  "rc_list (rc_heap s) p as \<Longrightarrow> route_cache s = None \<Longrightarrow> length as \<le> n \<Longrightarrow>
   \<exists>h. delete_old_loop n now None p s = Inr ((), s\<lparr>rc_heap := h\<rparr>) \<and> dom h \<subseteq> dom (rc_heap s)"
proof (induction as arbitrary: n p s)
  case Nil
  then show ?case by (cases n) (auto simp: cache_run intro!: exI [of _ "rc_heap s"])
next
  case (Cons a as)
  then obtain m where n: "n = Suc m" "length as \<le> m" by (cases n) auto
  from Cons.prems obtain ea where a: "p = Some a" "rc_heap s a = Some ea" "rc_list (rc_heap s) (rc_next ea) as"
    by auto
  from rc_list_distinct [OF Cons.prems(1)] have da: "a \<notin> set as" by auto
  show ?case
  proof (cases "expired now (rc_last_use_time ea)")
    case True
    let ?s = "s\<lparr>rc_heap := (rc_heap s)(a := None)\<rparr>"
    have "s\<lparr>route_cache := None, rc_heap := (rc_heap s)(a := None)\<rparr> = ?s"
      using Cons.prems(2) by (cases s) simp
    then have "delete_old_loop n now None p s = delete_old_loop m now None (rc_next ea) ?s"
      using True a n by (simp add: cache_run expired_def)
    with Cons.IH [of ?s "rc_next ea" m] a(3) da Cons.prems(2) n(2) show ?thesis by fastforce
  next
    case False
    then have "delete_old_loop n now None p s = delete_old_loop m now (Some a) (rc_next ea) s"
      using a n by (simp add: cache_run expired_def)
    with delete_old_behind [OF a(3) da a(2) refl n(2), of now] show ?thesis by auto
  qed
qed

lemma delete_old_run:
  assumes "cached s l"
  obtains s' where "delete_old_route_cache_entries s = Inr ((), s')"
    "cached s' (if l \<noteq> [] \<and> expired (reading s) (snd (hd l)) then []
       else filter (\<lambda>e. \<not> expired (reading s) (snd e)) l)"
proof -
  from assms obtain as where d: "dom (rc_heap s) \<subseteq> {..<rc_fresh s}"
    and as: "rc_list (rc_heap s) (route_cache s) as" and l: "content (rc_heap s) as = l"
    by (auto simp: cached_def)
  note len = rc_list_length [OF d as]
  let ?now = "reading s" and ?s = "s\<lparr>rc_ticks := Suc (rc_ticks s)\<rparr>"
  have run: "delete_old_route_cache_entries s = delete_old_loop (rc_fresh s) ?now None (route_cache s) ?s"
    by (simp add: delete_old_route_cache_entries_def getcurrtime_run cache_run)
  show thesis
  proof (cases as)
    case Nil
    with as l run assms show thesis by (intro that [of ?s]) (simp_all add: cache_run content_def)
  next
    case (Cons a as')
    with as len obtain e m where e: "route_cache s = Some a" "rc_heap s a = Some e"
        "rc_list (rc_heap s) (rc_next e) as'" and m: "rc_fresh s = Suc m" "length as' \<le> m"
      by (cases "rc_fresh s") auto
    from rc_list_distinct [OF as] Cons have da: "a \<notin> set as'" by simp
    have hd: "l \<noteq> []" "snd (hd l) = rc_last_use_time e"
      using l Cons e(2) by (auto simp: content_def entry_of_def)
    show thesis
    proof (cases "expired ?now (rc_last_use_time e)")
      case True
      let ?t = "?s\<lparr>route_cache := None, rc_heap := (rc_heap s)(a := None)\<rparr>"
      have "delete_old_route_cache_entries s = delete_old_loop m ?now None (rc_next e) ?t"
        using True e m unfolding run by (simp add: cache_run expired_def)
      moreover obtain h where "delete_old_loop m ?now None (rc_next e) ?t = Inr ((), ?t\<lparr>rc_heap := h\<rparr>)"
          "dom h \<subseteq> dom (rc_heap ?t)"
        using delete_old_front [of ?t "rc_next e" as' m ?now] e(3) da m(2) by auto
      ultimately show thesis
        using True hd d by (intro that [of "?t\<lparr>rc_heap := h\<rparr>"]) (auto simp: cached_def content_def)
    next
      case False
      have "delete_old_route_cache_entries s = delete_old_loop m ?now (Some a) (rc_next e) ?s"
        using False e m unfolding run by (simp add: cache_run expired_def)
      moreover obtain h where
        h: "delete_old_loop m ?now (Some a) (rc_next e) ?s = Inr ((), ?s\<lparr>rc_heap := h\<rparr>)"
          "dom h \<subseteq> dom (rc_heap s)" "rc_list h (Some a) (a # filter (keep (rc_heap s) ?now) as')"
          "content h (a # filter (keep (rc_heap s) ?now) as') = content (rc_heap s) (a # filter (keep (rc_heap s) ?now) as')"
        using delete_old_behind [of ?s "rc_next e" as' a e m ?now] e da m(2) by auto
      moreover have "content (rc_heap s) (a # filter (keep (rc_heap s) ?now) as')
          = filter (\<lambda>e. \<not> expired ?now (snd e)) l"
        using Cons e(2) False unfolding l [symmetric] by (simp add: content_def filter_map entry_of_def o_def)
      ultimately show thesis
        using False hd d e(1)
        by (intro that [of "?s\<lparr>rc_heap := h\<rparr>"]) (auto simp: cached_def simp del: rc_list.simps intro!: exI)
    qed
  qed
qed

lemma delete_loop_run:
  "rc_list (rc_heap s) p as \<Longrightarrow> length as \<le> n \<Longrightarrow>
   delete_loop n dead p s = (if dead \<in> set as
     then Inr (0, s\<lparr>route_cache := None, rc_heap := (rc_heap s)(dead := None)\<rparr>) else Inr (1, s))"
proof (induction n arbitrary: p as)
  case 0
  then show ?case by (cases as) (simp_all add: cache_run)
next
  case (Suc n)
  have "kfree a (s\<lparr>route_cache := None\<rparr>) = Inr ((), s\<lparr>route_cache := None, rc_heap := (rc_heap s)(a := None)\<rparr>)"
    if "rc_heap s a = Some e" for a e
    using that by (simp add: cache_run)
  with Suc show ?case by (cases as) (auto simp: sm_simps at_def fun_upd_def)
qed

section \<open>Steps and properties\<close>

definition cache_start :: "rcache \<Rightarrow> bool" where
  "cache_start s \<longleftrightarrow> rc_heap s = Map.empty \<and> route_cache s = None"

inductive cache_step :: "rcache \<Rightarrow> rcache \<Rightarrow> bool" where
  packet: "input_handler dst src s = Inr (v, s') \<Longrightarrow> cache_step s s'"
| reader: "read_route_cache_proc n k s = Inr (r, s') \<Longrightarrow> cache_step s s'"

inductive_cases cache_stepE: "cache_step s s'"

definition cache_inv :: "rcache \<Rightarrow> bool" where
  "cache_inv s \<longleftrightarrow> (\<exists>l. cached s l \<and> distinct (map fst l))"

lemma text_loop_run:
  "rc_list (rc_heap s) p as \<Longrightarrow> length as \<le> n \<Longrightarrow>
   text_loop n p s = Inr (concat (map (\<lambda>a. cache_line (the (rc_heap s a))) as), s)"
proof (induction n arbitrary: p as)
  case 0
  then show ?case by (cases as) (simp_all add: cache_run)
next
  case (Suc n)
  then show ?case by (cases as) (auto simp: cache_run)
qed

lemma proc_keeps: "read_route_cache_proc n k s = Inr (r, s') \<Longrightarrow> cached s l \<Longrightarrow> cached s' l"
proof -
  assume r: "read_route_cache_proc n k s = Inr (r, s')" and c: "cached s l"
  then obtain as where as: "rc_list (rc_heap s) (route_cache s) as" "length as \<le> rc_fresh s"
    using rc_list_length by (auto simp: cached_def)
  have "text_loop (rc_fresh s) (route_cache s) (s\<lparr>rc_ticks := Suc (rc_ticks s)\<rparr>)
      = Inr (concat (map (\<lambda>a. cache_line (the (rc_heap s a))) as), s\<lparr>rc_ticks := Suc (rc_ticks s)\<rparr>)"
    using text_loop_run [of "s\<lparr>rc_ticks := Suc (rc_ticks s)\<rparr>" "route_cache s" as "rc_fresh s"] as by simp
  with r c show ?thesis
    by (auto simp: read_route_cache_proc_def rc_request_def sm_simps Let_def split: if_splits)
qed

interpretation cache: invariant_of cache_start cache_step cache_inv
proof
  fix s assume "cache_start s"
  then have "cached s []" by (auto simp: cache_start_def cached_def content_def intro!: exI [of _ "[]"])
  then show "cache_inv s" unfolding cache_inv_def by force
next
  fix s t assume "cache_inv s" "cache_step s t"
  from \<open>cache_inv s\<close> obtain l where l: "cached s l" "distinct (map fst l)" by (auto simp: cache_inv_def)
  from \<open>cache_step s t\<close> show "cache_inv t"
  proof (rule cache_stepE)
    fix dst src v assume "input_handler dst src s = Inr (v, t)"
    with input_handler_run [OF l(1), of dst src] l(2) show ?thesis by (auto simp: cache_inv_def)
  next
    fix n k r assume "read_route_cache_proc n k s = Inr (r, t)"
    from proc_keeps [OF this l(1)] l(2) show ?thesis by (auto simp: cache_inv_def)
  qed
qed

text \<open>Deleting an entry of the list, whichever it is, empties the list.\<close>

lemma delete_entry_empties:
  assumes "cached s l" "rc_list (rc_heap s) (route_cache s) as" "dead \<in> set as"
  shows "\<exists>s'. delete_route_cache_entry dead s = Inr (0, s') \<and> cached s' []"
proof -
  from assms(1) have d: "dom (rc_heap s) \<subseteq> {..<rc_fresh s}" by (simp add: cached_def)
  let ?s = "s\<lparr>route_cache := None, rc_heap := (rc_heap s)(dead := None)\<rparr>"
  have "delete_route_cache_entry dead s = Inr (0, ?s)"
    using delete_loop_run [OF assms(2) rc_list_length [OF d assms(2)], of dead] assms(3)
    by (simp add: delete_route_cache_entry_def cache_run)
  moreover have "cached ?s []" using d by (auto simp: cached_def content_def intro!: exI [of _ "[]"])
  ultimately show ?thesis by blast
qed

definition quiet_cache :: rcache where
  "quiet_cache = \<lparr>rc_clock = \<lambda>k. (of_nat k, 999999999), rc_alloc = \<lambda>_. True, rc_ticks = 0,
     rc_heap = Map.empty, rc_fresh = 0, route_cache = None\<rparr>"

definition two_used :: rcache where
  "two_used = quiet_cache\<lparr>rc_ticks := 3, rc_fresh := 2, route_cache := Some 1,
     rc_heap := [0 \<mapsto> \<lparr>rc_dst_ip = 5, rc_last_use_time = 1000000, rc_valid_flag = 1, rc_next = None\<rparr>,
       1 \<mapsto> \<lparr>rc_dst_ip = 1, rc_last_use_time = 7, rc_valid_flag = 0, rc_next = Some 0\<rparr>]\<rparr>"

lemma cached_two_used: "cached two_used [((1, 0), 7), ((5, 1), 1000000)]"
  by (auto simp: cached_def two_used_def content_def entry_of_def intro!: exI [of _ "[1, 0]"] split: if_splits)

lemma reading_two_used [simp]: "reading two_used = 1002999"
  by (simp add: reading_def two_used_def quiet_cache_def)

lemma alloc_two_used [simp]: "rc_alloc two_used k"
  by (simp add: two_used_def quiet_cache_def)

section \<open>Properties\<close>

text \<open>
  C36. The hook of \<open>route_check\<close> sets the times of the packet's destination (flag 1) and of its
  source (flag 0) to the clock reading, and changes no other entry of the table.
\<close>

theorem input_handler_touches:
  assumes "cached s l" "\<forall>k. rc_alloc s k"
  shows "\<exists>s' l'. input_handler dst src s = Inr (1, s') \<and> cached s' l'
    \<and> map_of l' = (map_of l)((dst, 1) \<mapsto> reading s, (src, 0) \<mapsto> reading s)"
proof -
  obtain s' l' where "input_handler dst src s = Inr (1, s')" "cached s' l'"
      "(\<forall>k. rc_alloc s k) \<longrightarrow> l' = touch (src, 0) (reading s) (touch (dst, 1) (reading s) l)"
    by (rule input_handler_run [OF assms(1), of dst src])
  with assms(2) show ?thesis
    by (intro exI [of _ s'] exI [of _ l']) (simp add: times.look_touch_two)
qed

theorem input_handler_touches_witness:
  "\<exists>s' l'. input_handler 5 9 two_used = Inr (1, s') \<and> cached s' l'
    \<and> map_of l' (5, 1) = Some 1002999 \<and> map_of l' (9, 0) = Some 1002999 \<and> map_of l' (1, 0) = Some 7"
proof -
  from input_handler_touches [OF cached_two_used, of 5 9] obtain s' l' where
    "input_handler 5 9 two_used = Inr (1, s')" "cached s' l'"
    "map_of l' = [(1, 0) \<mapsto> 7, (5, 1) \<mapsto> 1002999, (9, 0) \<mapsto> 1002999]" by auto
  then show ?thesis by (intro exI [of _ s'] exI [of _ l']) simp
qed

text \<open>
  In every reachable state, with or without failed allocations, the cache is a list without
  cycle and without two entries for the same address and flag, and a search returns, with an
  entry exactly when there is one.
\<close>

theorem reachable_cache_ok:
  assumes "reach cache_start cache_step s"
  shows "\<exists>l. cached s l \<and> distinct (map fst l)
    \<and> (\<forall>dst f. \<exists>r. find_route_cache_entry dst f s = Inr (r, s) \<and> (r \<noteq> None) = ((dst, f) \<in> fst ` set l))"
proof -
  from cache.reach_inv [OF assms] obtain l as where l: "cached s l" "distinct (map fst l)"
    and d: "dom (rc_heap s) \<subseteq> {..<rc_fresh s}" and as: "rc_list (rc_heap s) (route_cache s) as"
    and c: "content (rc_heap s) as = l"
    by (auto simp: cache_inv_def cached_def)
  have "\<exists>r. find_route_cache_entry dst f s = Inr (r, s) \<and> (r \<noteq> None) = ((dst, f) \<in> fst ` set l)" for dst f
    using find_entry_run [OF d as, of dst f] find_content [of "rc_heap s" "(dst, f)" as]
    by (simp add: c map_of_eq_None_iff del: not_None_eq)
  with l show ?thesis by blast
qed

theorem reachable_cache_ok_witness:
  "\<exists>s l. input_handler 5 1 quiet_cache = Inr (1, s) \<and> cached s l \<and> distinct (map fst l)"
proof -
  have s: "cache_start quiet_cache" by (simp add: cache_start_def quiet_cache_def)
  have "cached quiet_cache []"
    by (auto simp: quiet_cache_def cached_def content_def intro!: exI [of _ "[]"])
  from input_handler_touches [OF this] obtain t where t: "input_handler 5 1 quiet_cache = Inr (1, t)"
    by (fastforce simp: quiet_cache_def)
  then have "cache_step quiet_cache t" by (rule cache_step.packet)
  with reach_init [of cache_start, OF s] have "reach cache_start cache_step t" by (rule reach_step)
  from reachable_cache_ok [OF this] t show ?thesis by blast
qed

text \<open>
  \<open>delete_old_route_cache_entries\<close> removes the expired entries only when the first entry has
  not expired; otherwise the whole list is lost, entries in use included.
\<close>

theorem delete_old_loses_list:
  assumes "cached s l"
  shows "\<exists>s'. delete_old_route_cache_entries s = Inr ((), s')
    \<and> cached s' (if l \<noteq> [] \<and> expired (reading s) (snd (hd l)) then []
        else filter (\<lambda>e. \<not> expired (reading s) (snd e)) l)"
  using delete_old_run [OF assms] by blast

theorem delete_old_loses_list_witness:
  "\<exists>s'. delete_old_route_cache_entries (two_used\<lparr>rc_clock := \<lambda>_. (1000, 10)\<rparr>) = Inr ((), s') \<and> cached s' []"
proof -
  have c: "cached (two_used\<lparr>rc_clock := \<lambda>_. (1000, 10)\<rparr>) [((1, 0), 7), ((5, 1), 1000000)]"
    using cached_two_used by (simp add: cached_def)
  from delete_old_loses_list [OF c] show ?thesis
    by (simp add: expired_def reading_def word_less_nat_alt)
qed

text \<open>
  The module's clock runs backwards: the code adds microseconds to milliseconds, so a reading
  at the end of a second is larger than the next one, at the beginning of the following second.
\<close>

theorem clock_runs_backwards:
  assumes "rc_clock s (rc_ticks s) = (sec, 999999999)" "rc_clock s (Suc (rc_ticks s)) = (sec + 1, 0)"
    and "unat sec < 2 ^ 50"
  shows "\<exists>t1 s1 t2 s2. rc_getcurrtime s = Inr (t1, s1) \<and> rc_getcurrtime s1 = Inr (t2, s2) \<and> t2 < t1"
proof -
  have small: "unat sec * 1000 + 1000000 < 2 ^ 64" using assms(3) by simp
  have a: "unat (sec * 1000 + 999999) = unat sec * 1000 + 999999"
    using small by (simp add: unat_word_ariths)
  have b: "unat ((sec + 1) * 1000) = unat sec * 1000 + 1000"
    using small by (simp add: distrib_right unat_word_ariths)
  have "(sec + 1) * 1000 < sec * 1000 + (999999 :: u64)" unfolding word_less_nat_alt a b by simp
  with assms(1,2) show ?thesis by (simp add: getcurrtime_run reading_def)
qed

theorem clock_runs_backwards_witness:
  "\<exists>t1 s1 t2 s2. let s = quiet_cache\<lparr>rc_clock := \<lambda>k. if k = 0 then (7, 999999999) else (8, 0)\<rparr> in
     rc_getcurrtime s = Inr (t1, s1) \<and> rc_getcurrtime s1 = Inr (t2, s2) \<and> t2 < t1"
  using clock_runs_backwards [of "quiet_cache\<lparr>rc_clock := \<lambda>k. if k = 0 then (7, 999999999) else (8, 0)\<rparr>" 7]
  by (simp add: quiet_cache_def)

end
