(* ===== verification/Proc_File.thy ===== *)
theory Proc_File
  imports Cache_Laws Routing_Table
begin

text \<open>
  The file \<open>/proc/asl/route_check\<close> between the kernel module that writes it
  (\<open>read_route_cache_proc\<close>) and the AODV daemon that reads it
  (\<open>FO_query_route_idle_time\<close> of \<open>lib/FO/fo.cpp\<close>: one \<open>fgets\<close>, then \<open>fscanf\<close> with the
  format \<open>%s %lu %d\<close> up to the end of the file). The daemon's \<open>inet_aton\<close> is the C library's;
  of it only is used that it reads back printed addresses.
\<close>

section \<open>The reader\<close>

text \<open>\<open>fgets\<close> with room for \<open>n\<close> characters: up to and including the newline.\<close>

fun fgets_rest :: "nat \<Rightarrow> string \<Rightarrow> string" where
  "fgets_rest (Suc n) (c # cs) = (if c = newline then cs else fgets_rest n cs)"
| "fgets_rest n cs = cs"

text \<open>
  One call of \<open>fscanf\<close> that matches all three conversions; \<open>None\<close> at the end of the file and
  for text of another form, on which the daemon's loop would go on with old values.
\<close>

definition scan_line :: "string \<Rightarrow> ((string \<times> nat \<times> int) \<times> string) option" where
  "scan_line cs =
     (let cs1 = skip_space cs; sip = takeWhile (\<lambda>c. \<not> isspace c) cs1 in
      if sip = [] then None
      else
        (case scan_unsigned (skip_space (dropWhile (\<lambda>c. \<not> isspace c) cs1)) of
           None \<Rightarrow> None
         | Some (t, cs2) \<Rightarrow>
             (case scan_signed (skip_space cs2) of
                None \<Rightarrow> None
              | Some (f, cs3) \<Rightarrow> Some ((sip, t, f), skip_space cs3))))"

fun scan_lines :: "nat \<Rightarrow> string \<Rightarrow> (string \<times> nat \<times> int) list" where
  "scan_lines 0 cs = []"
| "scan_lines (Suc n) cs =
     (case scan_line cs of None \<Rightarrow> [] | Some (l, r) \<Rightarrow> l # scan_lines n r)"

definition proc_lines :: "(string \<Rightarrow> ip option) \<Rightarrow> string \<Rightarrow> proc_line list" where
  "proc_lines aton text =
     map (\<lambda>(sip, t, f). \<lparr>pl_addr = aton sip, pl_last_use = of_nat t, pl_flag = f\<rparr>)
       (scan_lines (length text) (fgets_rest 119 text))"

section \<open>What is written is read back\<close>

lemma scan_cache_line:
  "scan_line (cache_line e @ r) =
     Some ((inet_ntoa (rc_dst_ip e), unat (rc_last_use_time e), rc_valid_flag e), skip_space r)"
proof -
  let ?rest = "'' '' @ decimal (unat (rc_last_use_time e)) @ [tab, tab] @ '' ''
     @ signed_decimal (rc_valid_flag e) @ newline # r"
  have "takeWhile (\<lambda>c. \<not> isspace c) (inet_ntoa (rc_dst_ip e) @ tab # ?rest) = inet_ntoa (rc_dst_ip e)"
      "dropWhile (\<lambda>c. \<not> isspace c) (inet_ntoa (rc_dst_ip e) @ tab # ?rest) = tab # ?rest"
    by (rule take_drop_class; auto dest: ntoa_chars)+
  moreover have "scan_signed (skip_space (signed_decimal (rc_valid_flag e) @ newline # r))
      = Some (rc_valid_flag e, newline # r)"
    by (rule scan_signed_decimal) simp
  ultimately show ?thesis
    by (simp add: scan_line_def cache_line_def Let_def scan_unsigned_decimal)
qed

lemma skip_space_line [simp]: "skip_space (cache_line e @ r) = cache_line e @ r"
  by (simp add: cache_line_def)

lemma scan_cache_lines:
  "length es \<le> n \<Longrightarrow> scan_lines n (concat (map cache_line es)) =
     map (\<lambda>e. (inet_ntoa (rc_dst_ip e), unat (rc_last_use_time e), rc_valid_flag e)) es"
proof (induction es arbitrary: n)
  case Nil
  then show ?case by (cases n) (simp_all add: scan_line_def Let_def)
next
  case (Cons e es)
  then obtain m where "n = Suc m" "length es \<le> m" by (cases n) auto
  moreover have "skip_space (concat (map cache_line es)) = concat (map cache_line es)"
    by (cases es) simp_all
  ultimately show ?case using Cons.IH by (simp add: scan_cache_line)
qed

lemma title_skipped: "fgets_rest 119 (cache_title @ r) = r"
  by (simp add: cache_title_def numeral_eq_Suc tab_def newline_def)

lemma lines_fit: "length es \<le> length (cache_title @ concat (map cache_line es))"
  by (induction es) (simp_all add: cache_line_def)

section \<open>From the kernel's table to the daemon's idle times\<close>

definition line_of :: "(ip \<times> int) \<times> u64 \<Rightarrow> proc_line" where
  "line_of e = \<lparr>pl_addr = Some (fst (fst e)), pl_last_use = snd e, pl_flag = snd (fst e)\<rparr>"

lemma scan_without:
  "(dst, f) \<notin> fst ` set l \<Longrightarrow> scan_route_check dst f i (map line_of l) s = Inr (i, s)"
  by (induction l arbitrary: i) (auto simp: line_of_def sm_simps image_iff split: prod.splits)

lemma scan_unique:
  "distinct (map fst l) \<Longrightarrow> map_of l (dst, f) = Some t \<Longrightarrow>
   scan_route_check dst f i (map line_of l) s =
     Inr (sint (ucast (clock (env s) (ticks s) - t) :: u32), s\<lparr>ticks := Suc (ticks s)\<rparr>)"
proof (induction l arbitrary: i)
  case (Cons e l)
  show ?case
  proof (cases "fst e = (dst, f)")
    case True
    then have "(dst, f) \<notin> fst ` set l" "snd e = t" using Cons.prems by (cases e; auto)+
    with True show ?thesis
      by (cases e) (auto simp: line_of_def getcurrtime_def sm_simps scan_without [unfolded line_of_def])
  next
    case False
    then have "scan_route_check dst f i (map line_of (e # l)) s = scan_route_check dst f i (map line_of l) s"
      by (cases e) (auto simp: line_of_def)
    with Cons False show ?thesis by (cases e) auto
  qed
qed simp

text \<open>When a read from the start of the file returns, it has returned the whole text.\<close>

lemma read_whole:
  assumes "cached s l" "read_route_cache_proc n 0 s = Inr ((k, text, pos), s')"
  obtains es where "text = cache_title @ concat (map cache_line es)" "map entry_of es = l"
proof -
  from assms(1) obtain as where d: "dom (rc_heap s) \<subseteq> {..<rc_fresh s}"
    and as: "rc_list (rc_heap s) (route_cache s) as" and l: "content (rc_heap s) as = l"
    by (auto simp: cached_def)
  let ?s = "s\<lparr>rc_ticks := Suc (rc_ticks s)\<rparr>" and ?es = "map (\<lambda>a. the (rc_heap s a)) as"
  have "text_loop (rc_fresh s) (route_cache s) ?s = Inr (concat (map cache_line ?es), ?s)"
    using text_loop_run [of ?s "route_cache s" as "rc_fresh s"] rc_list_length [OF d as] as
    by (simp add: o_def)
  with assms(2) have "text = cache_title @ concat (map cache_line ?es)"
    by (auto simp: read_route_cache_proc_def rc_request_def sm_simps Let_def cache_title_def split: if_splits)
  moreover have "map entry_of ?es = l" using l by (simp add: content_def o_def)
  ultimately show thesis by (rule that)
qed

lemma proc_lines_text:
  assumes "\<And>a. aton (inet_ntoa a) = Some a"
  shows "proc_lines aton (cache_title @ concat (map cache_line es)) = map (\<lambda>e. line_of (entry_of e)) es"
  using lines_fit [of es]
  by (simp add: proc_lines_def title_skipped scan_cache_lines assms line_of_def entry_of_def o_def split_def)

lemma idle_time_of_cache:
  assumes "\<forall>a. aton (inet_ntoa a) = Some a"
    and "cached c l" "distinct (map fst l)" "read_route_cache_proc n 0 c = Inr ((k, text, pos), c')"
    and "proc_route_check (env s) (ticks s) = Some (proc_lines aton text)"
  shows "FO_query_route_idle_time dst f s =
    (case map_of l (dst, f) of
       None \<Rightarrow> Inr (- 1, s)
     | Some t \<Rightarrow> Inr (sint (ucast (clock (env s) (ticks s) - t) :: u32), s\<lparr>ticks := Suc (ticks s)\<rparr>))"
proof -
  obtain es where "text = cache_title @ concat (map cache_line es)" and es: "map entry_of es = l"
    by (rule read_whole [OF assms(2,4)])
  with proc_lines_text [of aton es] assms(1) have "proc_lines aton text = map line_of l"
    by (simp add: es [symmetric] o_def)
  then have q: "FO_query_route_idle_time dst f s = scan_route_check dst f (- 1) (map line_of l) s"
    by (simp add: FO_query_route_idle_time_def sm_simps assms(5))
  show ?thesis
  proof (cases "map_of l (dst, f)")
    case None
    then have "(dst, f) \<notin> fst ` set l" by (simp add: map_of_eq_None_iff)
    from scan_without [OF this] None show ?thesis by (simp add: q)
  next
    case (Some t)
    with scan_unique [OF assms(3) Some] show ?thesis by (simp add: q)
  qed
qed

end
