(* ===== verification/Agent.thy ===== *)
theory Agent
  imports Netlink
begin

text \<open>
  The Local Agent process (\<open>LA\<close>) with the library it talks to the ODS kernel module through
  (\<open>lib/ODS/ods_userspace_netlink.cpp\<close>): requests come from the kernel, go to the first client
  that is a routing daemon, and the daemon's replies go back to the kernel.
\<close>

section \<open>The state\<close>

text \<open>
  The environment, by a running number where it may change: whether \<open>malloc\<close> succeeds, the
  interfaces of \<open>getifaddrs\<close>, each with what \<open>get_mac\<close> gets for it: a socket and the hardware address,
  \<open>if_nametoindex\<close>, what follows a local variable on the stack, the uninitialised \<open>type\<close> of a
  new \<open>LAServ\<close> and the uninitialised request of \<open>la_ods_message_handle\<close>; the results of the
  calls that set up the \<open>mytun\<close> device and the netlink socket.
\<close>

record route_request =
  rq_now_dst_ip :: ip
  rq_now_src_ip :: ip
  rq_now_protocol :: u8
  rq_input_ifindex :: int

record route_reply =
  rp_now_ip :: ip
  rp_now_result :: u32

record aenv =
  a_malloc :: "nat \<Rightarrow> bool"
  a_ifaddrs :: "nat \<Rightarrow> (string \<times> int \<times> u8 list option) list"
  a_nametoindex :: "u8 list \<Rightarrow> int"
  a_stack :: "nat \<Rightarrow> u8 list"
  a_junk_type :: "nat \<Rightarrow> u32"
  a_junk_request :: "nat \<Rightarrow> route_request"
  a_pid :: u32
  a_setreuid :: int
  a_open_tun :: int
  a_ioctl_setiff :: int
  a_ioctl_nocsum :: int
  a_socket :: int

record LAServ =
  ls_sock_fd :: int
  ls_type :: u32

text \<open>Messages to the kernel, bytes to a client, closed descriptors, shell commands.\<close>

datatype aeffect = Netlink_send int nlmsg | Client_send int "u8 list" | Close int | Shell string

record agent =
  aenv :: aenv
  aticks :: nat
  nlfd :: int
  ods_fd :: int
  command_server_fd :: int
  la_serv_list :: "LAServ list"
  fd_list :: "int list"
  fd_num :: int
  rbits_fd :: "int list"
  aouts :: "aeffect list"

abbreviation (input) LA_CLIENT_DAEMON :: u32 where "LA_CLIENT_DAEMON \<equiv> 0"
abbreviation (input) FD_ADD :: int where "FD_ADD \<equiv> 0"
abbreviation (input) FD_DEL :: int where "FD_DEL \<equiv> 1"
abbreviation (input) FD_SETSIZE :: int where "FD_SETSIZE \<equiv> 1024"
abbreviation (input) TUN_DEV_NAME :: string where "TUN_DEV_NAME \<equiv> ''mytun''"

definition aask :: "(aenv \<Rightarrow> nat \<Rightarrow> 'a) \<Rightarrow> (agent, 'a) sm" where
  "aask f = (\<lambda>s. Inr (f (aenv s) (aticks s), s\<lparr>aticks := Suc (aticks s)\<rparr>))"

definition aemit :: "aeffect \<Rightarrow> (agent, unit) sm" where
  "aemit e = upd (\<lambda>s. s\<lparr>aouts := aouts s @ [e]\<rparr>)"

section \<open>The ODS library\<close>

text \<open>
  A message of \<open>NLMSG_SPACE (MAX_PAYLOAD)\<close> bytes from zeroed memory, whose allocation is not
  checked and which is never freed.
\<close>

definition ods_send :: "16 word \<Rightarrow> u8 list \<Rightarrow> (agent, unit) sm" where
  "ods_send type payload =
     bnd (aask a_malloc) (\<lambda>ok.
     if \<not> ok then raise NullDeref
     else
       bnd (gets nlfd) (\<lambda>fd. bnd (gets (\<lambda>s. a_pid (aenv s))) (\<lambda>pid.
       aemit (Netlink_send fd \<lparr>nl_len = 1040, nl_type = type, nl_pid = pid,
         nl_data = write_buf payload (\<lambda>_. 0)\<rparr>))))"

definition string_bytes :: "string \<Rightarrow> u8 list" where
  "string_bytes = map of_char"

definition ods_send_init_msg :: "(agent, unit) sm" where
  "ods_send_init_msg = ods_send NLMSG_TYPE_INIT (string_bytes ''Hello you, my kernel moudle!'')"

definition ods_send_info_msg :: "u64 \<Rightarrow> u32 \<Rightarrow> (agent, unit) sm" where
  "ods_send_info_msg dest_ip result =
     ods_send NLMSG_TYPE_INFO (rt_result_bytes \<lparr>rr_now_ip = ucast dest_ip, rr_result = result\<rparr>)"

definition ods_send_exit_msg :: "(agent, unit) sm" where
  "ods_send_exit_msg =
     ods_send NLMSG_TYPE_EXIT (string_bytes ''Userspace netlink is going to be exit soon'')"

text \<open>
  \<open>recvmsg\<close> into zeroed memory; \<open>None\<close> stands for its failure, which the code does not see.
\<close>

definition ods_recv_msg :: "nlmsg option \<Rightarrow> (agent, rt_message) sm" where
  "ods_recv_msg received =
     bnd (aask a_malloc) (\<lambda>ok.
     if \<not> ok then raise NullDeref
     else ret (rt_info_at (case received of None \<Rightarrow> (\<lambda>_. 0) | Some m \<Rightarrow> nl_data m)))"

definition ods_init_user_socket :: "(agent, int) sm" where
  "ods_init_user_socket =
     bnd (gets (\<lambda>s. a_socket (aenv s))) (\<lambda>fd.
     andthen (upd (\<lambda>s. s\<lparr>nlfd := fd\<rparr>)) (ret (if fd = - 1 then 0 else fd)))"

definition ods_close_user_socket :: "(agent, unit) sm" where
  "ods_close_user_socket = bnd (gets nlfd) (\<lambda>fd. aemit (Close fd))"

definition ods_init_tun_dev :: "(agent, int) sm" where
  "ods_init_tun_dev =
     bnd (gets aenv) (\<lambda>v.
     if a_setreuid v < 0 then ret (- 1)
     else if a_open_tun v < 0 then ret (- 1)
     else if a_ioctl_setiff v < 0 then andthen (aemit (Close (a_open_tun v))) (ret (- 1))
     else
       andthen (aemit (Shell ''/sbin/ifconfig mytun 127.0.0.2 netmask 255.255.255.255 up''))
         (if a_ioctl_nocsum v < 0 then andthen (aemit (Close (a_open_tun v))) (ret (- 1))
          else ret (a_open_tun v)))"

definition ods_turn_up :: "(agent, int) sm" where
  "ods_turn_up =
     bnd ods_init_tun_dev (\<lambda>tun_fd.
     if tun_fd < 0 then ret (- 1)
     else
       bnd ods_init_user_socket (\<lambda>netlink_ret.
       if netlink_ret < 0 then andthen (aemit (Shell ''rmmod ods_kernel_module.ko'')) (ret (- 1))
       else andthen ods_send_init_msg (gets nlfd)))"

definition ods_turn_down :: "(agent, unit) sm" where
  "ods_turn_down = andthen ods_send_exit_msg ods_close_user_socket"

text \<open>
  The hardware address of an interface, given the socket made for it and what \<open>SIOCGIFHWADDR\<close>
  finds; \<open>None\<close> for the result -1.
\<close>

definition get_mac :: "int \<Rightarrow> u8 list option \<Rightarrow> u8 list option" where
  "get_mac sockfd hwaddr = (if sockfd < 0 then None else hwaddr)"

definition mac_address_cmp :: "u8 list \<Rightarrow> u8 list \<Rightarrow> bool" where
  "mac_address_cmp mac1 mac2 = list_all (\<lambda>i. mac1 ! i = mac2 ! i) [0..<6]"

text \<open>
  The loop over the interfaces: \<open>None\<close> when \<open>get_mac\<close> fails, otherwise the index, which is
  looked up under the six bytes of the hardware address (and what follows them on the stack up
  to a zero byte) instead of the interface's name.
\<close>

fun find_input :: "(u8 list \<Rightarrow> int) \<Rightarrow> u8 list \<Rightarrow> u8 list \<Rightarrow> (string \<times> int \<times> u8 list option) list \<Rightarrow> int option" where
  "find_input nametoindex stack mac_addr [] = Some (- 1)"
| "find_input nametoindex stack mac_addr ((name, sockfd, hwaddr) # ifs) =
     (if name = TUN_DEV_NAME then find_input nametoindex stack mac_addr ifs
      else
        (case get_mac sockfd hwaddr of
           None \<Rightarrow> None
         | Some interface_address \<Rightarrow>
             if mac_address_cmp mac_addr interface_address
             then Some (nametoindex (takeWhile (\<lambda>b. b \<noteq> 0) (mac_addr @ stack)))
             else find_input nametoindex stack mac_addr ifs))"

definition ODS_get_route_request :: "nlmsg option \<Rightarrow> route_request \<Rightarrow> (agent, int \<times> route_request) sm" where
  "ODS_get_route_request received now_request =
     bnd (aask a_malloc) (\<lambda>ok.
     if \<not> ok then ret (- 1, now_request)
     else
       bnd (ods_recv_msg received) (\<lambda>now_info.
       let r = \<lparr>rq_now_dst_ip = ri_dst now_info, rq_now_src_ip = ri_src now_info,
                rq_now_protocol = ri_proto now_info, rq_input_ifindex = - 1\<rparr> in
       if ri_packet_source_type now_info = OTHER then
         bnd (aask a_ifaddrs) (\<lambda>ifs. bnd (aask a_stack) (\<lambda>stack.
         bnd (gets (\<lambda>s. a_nametoindex (aenv s))) (\<lambda>nametoindex.
         case find_input nametoindex stack (ri_mac_dst_addr now_info) ifs of
           None \<Rightarrow> ret (- 1, r)
         | Some i \<Rightarrow> ret (0, r\<lparr>rq_input_ifindex := i\<rparr>))))
       else ret (0, r)))"

definition ODS_feedback_route_reply :: "route_reply \<Rightarrow> (agent, int) sm" where
  "ODS_feedback_route_reply now_reply =
     andthen (ods_send_info_msg (ucast (rp_now_ip now_reply)) (rp_now_result now_reply)) (ret 0)"

section \<open>The set of descriptors\<close>

definition la_fdset_init :: "(agent, int) sm" where
  "la_fdset_init =
     andthen (upd (\<lambda>s. s\<lparr>fd_list := (if ods_fd s < 0 then [] else [ods_fd s]) @ [command_server_fd s]\<rparr>))
       (ret 0)"

definition la_fdset_update :: "int \<Rightarrow> int \<Rightarrow> (agent, int) sm" where
  "la_fdset_update type fd =
     andthen
       (if type = FD_ADD then upd (\<lambda>s. s\<lparr>fd_list := fd_list s @ [fd]\<rparr>)
        else if type = FD_DEL then upd (\<lambda>s. s\<lparr>fd_list := remove1 fd (fd_list s)\<rparr>)
        else ret ())
       (ret 0)"

text \<open>
  \<open>FD_SET\<close> sets a bit of an array of 1024; nothing keeps a descriptor from lying behind it.
\<close>

definition la_fdset_register :: "(agent, unit) sm" where
  "la_fdset_register =
     andthen (upd (\<lambda>s. s\<lparr>fd_num := 0, rbits_fd := []\<rparr>))
       (bnd (gets fd_list) (\<lambda>fds.
        forM fds (\<lambda>fd.
          if fd < 0 \<or> FD_SETSIZE \<le> fd then raise (HeapOverflow (nat fd div 8 + 1) 128)
          else upd (\<lambda>s. s\<lparr>rbits_fd := rbits_fd s @ [fd],
                 fd_num := (if fd \<ge> fd_num s then fd + 1 else fd_num s)\<rparr>))))"

section \<open>The three kinds of events\<close>

definition la_ods_message_handle :: "nlmsg option \<Rightarrow> (agent, unit) sm" where
  "la_ods_message_handle received =
     bnd (aask a_junk_request) (\<lambda>junk.
     bnd (ODS_get_route_request received junk) (\<lambda>(r, now_request).
     bnd (gets la_serv_list) (\<lambda>clients.
     case find (\<lambda>c. ls_type c = LA_CLIENT_DAEMON) clients of
       None \<Rightarrow> ret ()
     | Some c \<Rightarrow>
         aemit (Client_send (ls_sock_fd c) (LAMessage_generate_stream
           \<lparr>la_cmd = LA_ODS_REQUEST, la_dst_address = rq_now_dst_ip now_request,
            la_src_address = rq_now_src_ip now_request, la_protocol = rq_now_protocol now_request,
            la_result = 0\<rparr>)))))"

text \<open>What \<open>accept\<close> gives: a descriptor, nothing to accept, or an error.\<close>

datatype accepted = Accepted int | Again | Accept_failed

definition la_command_server_accept :: "accepted \<Rightarrow> (agent, int) sm" where
  "la_command_server_accept acc =
     (case acc of
        Again \<Rightarrow> ret 0
      | Accept_failed \<Rightarrow> ret (- 1)
      | Accepted client_sock \<Rightarrow>
          bnd (aask a_junk_type) (\<lambda>type.
          andthen (upd (\<lambda>s. s\<lparr>la_serv_list := la_serv_list s @ [\<lparr>ls_sock_fd = client_sock, ls_type = type\<rparr>]\<rparr>))
            (andthen (bnd (la_fdset_update FD_ADD client_sock) (\<lambda>_. ret ())) (ret 0))))"

text \<open>The list without the first client of a descriptor; whether there was one.\<close>

fun drop_client :: "int \<Rightarrow> LAServ list \<Rightarrow> bool \<times> LAServ list" where
  "drop_client fd [] = (False, [])"
| "drop_client fd (c # cs) =
     (if ls_sock_fd c = fd then (True, cs) else (let (b, l) = drop_client fd cs in (b, c # l)))"

text \<open>
  \<open>recv\<close> of at most 1023 bytes into a zeroed buffer; the empty list stands for the end of the
  connection and for an error.
\<close>

definition la_serv_handle_message :: "int \<Rightarrow> u8 list \<Rightarrow> (agent, int) sm" where
  "la_serv_handle_message fd bytes =
     andthen
       (if bytes \<noteq> [] then
          let m = LAMessage_parse_stream (write_buf (take 1023 bytes) (\<lambda>_. 0)) in
          if la_cmd m = LA_ODS_REPLY then
            bnd (ODS_feedback_route_reply \<lparr>rp_now_ip = la_dst_address m, rp_now_result = la_result m\<rparr>) (\<lambda>_. ret ())
          else ret ()
        else
          bnd (gets (\<lambda>s. drop_client fd (la_serv_list s))) (\<lambda>(found, l).
          andthen (whenM found (andthen (aemit (Close fd)) (upd (\<lambda>s. s\<lparr>la_serv_list := l\<rparr>))))
            (bnd (la_fdset_update FD_DEL fd) (\<lambda>_. ret ()))))
       (ret 0)"

section \<open>The main loop\<close>

text \<open>
  What one round of the loop reads: the result of \<open>select\<close> (negative for an error, \<open>io_eintr\<close>
  when that was an interruption by a signal), the descriptors it reports, and what reading each
  of them gives.
\<close>

record la_io =
  io_select :: int
  io_eintr :: bool
  io_ready :: "int list"
  io_recvmsg :: "nlmsg option"
  io_accept :: accepted
  io_recv :: "int \<Rightarrow> u8 list"

text \<open>
  The loop over \<open>fd_list\<close> by index, from \<open>i\<close>; the handlers may change the list. The fuel
  counts its rounds.
\<close>

fun la_serve :: "nat \<Rightarrow> la_io \<Rightarrow> nat \<Rightarrow> (agent, unit) sm" where
  "la_serve 0 io i = raise OutOfFuel"
| "la_serve (Suc n) io i =
     bnd (gets id) (\<lambda>s.
     if i \<ge> length (fd_list s) then ret ()
     else
       let fd = fd_list s ! i in
       andthen
         (whenM (fd \<in> set (rbits_fd s))
           (if fd = ods_fd s then la_ods_message_handle (io_recvmsg io)
            else if fd = command_server_fd s then
              bnd (la_command_server_accept (io_accept io)) (\<lambda>_. ret ())
            else bnd (la_serv_handle_message fd (io_recv io fd)) (\<lambda>_. ret ())))
         (la_serve n io (Suc i)))"

text \<open>One round of \<open>la_main_loop\<close>; \<open>False\<close> when the loop ends. An interrupted \<open>select\<close> leaves the set as it was.\<close>

definition la_main_round :: "nat \<Rightarrow> la_io \<Rightarrow> (agent, bool) sm" where
  "la_main_round fuel io =
     andthen la_fdset_register
     (if io_select io < 0 \<and> \<not> io_eintr io then ret False
      else
        andthen (whenM (\<not> io_select io < 0) (upd (\<lambda>s. s\<lparr>rbits_fd := io_ready io\<rparr>)))
        (andthen (la_serve fuel io 0) (ret True)))"

end
