(* ===== verification/Agent_Laws.thy ===== *)
theory Agent_Laws
  imports Agent
begin

text \<open>
  What the Local Agent guarantees: its two tables, the descriptors it listens to and the clients
  behind them, agree whenever it waits for events (\<open>agent_ok\<close>), one round of its loop ends, and
  a request of the kernel module reaches the first routing daemon unchanged. The locale
  \<open>descriptor_set\<close> is the contract between the two tables.
\<close>

section \<open>The two tables\<close>

locale descriptor_set =
  fixes fds :: "'s \<Rightarrow> int list" and clients :: "'s \<Rightarrow> int list" and own :: "'s \<Rightarrow> int list"
    and connect disconnect :: "int \<Rightarrow> 's \<Rightarrow> 's"
  assumes fds_connect: "fds (connect fd s) = fds s @ [fd]"
    and clients_connect: "clients (connect fd s) = clients s @ [fd]"
    and own_connect: "own (connect fd s) = own s"
    and fds_disconnect: "fds (disconnect fd s) = remove1 fd (fds s)"
    and clients_disconnect: "clients (disconnect fd s) = remove1 fd (clients s)"
    and own_disconnect: "own (disconnect fd s) = own s"
begin

lemma agree_connect:
  "fds s = own s @ clients s \<Longrightarrow> fds (connect fd s) = own (connect fd s) @ clients (connect fd s)"
  by (simp add: fds_connect clients_connect own_connect)

lemma distinct_connect: "distinct (fds s) \<Longrightarrow> fd \<notin> set (fds s) \<Longrightarrow> distinct (fds (connect fd s))"
  by (simp add: fds_connect)

lemma agree_disconnect:
  "fds s = own s @ clients s \<Longrightarrow> fd \<notin> set (own s) \<Longrightarrow>
   fds (disconnect fd s) = own (disconnect fd s) @ clients (disconnect fd s)"
  by (simp add: fds_disconnect clients_disconnect own_disconnect remove1_append)

lemma distinct_disconnect: "distinct (fds s) \<Longrightarrow> distinct (fds (disconnect fd s))"
  by (simp add: fds_disconnect)

lemma gone: "distinct (fds s) \<Longrightarrow> fd \<notin> set (fds (disconnect fd s))"
  by (simp add: fds_disconnect)

lemma connect_disconnect: "fd \<notin> set (fds s) \<Longrightarrow> fds (disconnect fd (connect fd s)) = fds s"
  by (simp add: fds_disconnect fds_connect remove1_append)

end

text \<open>The agent's own descriptors, and what a connection and its end do to the two tables.\<close>

definition own_fds :: "agent \<Rightarrow> int list" where
  "own_fds s = (if ods_fd s < 0 then [] else [ods_fd s]) @ [command_server_fd s]"

definition client_fds :: "agent \<Rightarrow> int list" where
  "client_fds s = map ls_sock_fd (la_serv_list s)"

definition add_client :: "u32 \<Rightarrow> int \<Rightarrow> agent \<Rightarrow> agent" where
  "add_client type fd s = s\<lparr>la_serv_list := la_serv_list s @ [\<lparr>ls_sock_fd = fd, ls_type = type\<rparr>],
     fd_list := fd_list s @ [fd]\<rparr>"

definition del_client :: "int \<Rightarrow> agent \<Rightarrow> agent" where
  "del_client fd s = s\<lparr>la_serv_list := snd (drop_client fd (la_serv_list s)),
     fd_list := remove1 fd (fd_list s)\<rparr>"

lemma drop_client_fds: "map ls_sock_fd (snd (drop_client fd l)) = remove1 fd (map ls_sock_fd l)"
  by (induction l) (auto split: prod.splits)

lemma drop_client_found: "fst (drop_client fd l) \<longleftrightarrow> fd \<in> ls_sock_fd ` set l"
  by (induction l) (auto split: prod.splits)

interpretation tables: descriptor_set fd_list client_fds own_fds "add_client type" del_client for type
  by unfold_locales
    (simp_all add: add_client_def del_client_def client_fds_def own_fds_def drop_client_fds)

definition agent_ok :: "agent \<Rightarrow> bool" where
  "agent_ok s \<longleftrightarrow> fd_list s = own_fds s @ client_fds s \<and> distinct (fd_list s)
     \<and> (\<forall>fd \<in> set (fd_list s). 0 \<le> fd \<and> fd < FD_SETSIZE)"

lemma agent_ok_frame:
  "fd_list t = fd_list s \<Longrightarrow> la_serv_list t = la_serv_list s \<Longrightarrow> ods_fd t = ods_fd s \<Longrightarrow>
   command_server_fd t = command_server_fd s \<Longrightarrow> agent_ok s \<Longrightarrow> agent_ok t"
  by (auto simp: agent_ok_def own_fds_def client_fds_def)

lemma agent_ok_add:
  assumes "agent_ok s" "fd \<notin> set (fd_list s)" "0 \<le> fd" "fd < FD_SETSIZE"
  shows "agent_ok (add_client type fd s)"
proof -
  have "fd_list (add_client type fd s) = fd_list s @ [fd]" by (rule tables.fds_connect)
  moreover from assms(1)
  have "fd_list (add_client type fd s) = own_fds (add_client type fd s) @ client_fds (add_client type fd s)"
    by (intro tables.agree_connect) (simp add: agent_ok_def)
  ultimately show ?thesis using assms unfolding agent_ok_def
    by (simp only: distinct_append) auto
qed

lemma agent_ok_del: "agent_ok s \<Longrightarrow> fd \<notin> set (own_fds s) \<Longrightarrow> agent_ok (del_client fd s)"
  using tables.agree_disconnect [of s fd] tables.distinct_disconnect [of s fd] set_remove1_subset [of fd "fd_list s"]
  unfolding agent_ok_def by (auto simp: tables.fds_disconnect simp del: set_remove1_subset)

section \<open>The handlers\<close>

text \<open>What a handler leaves alone: all but the effects, the requests to the environment and the named tables.\<close>

definition tables_of :: "agent \<Rightarrow> aenv \<times> int \<times> int \<times> int \<times> LAServ list \<times> int list \<times> int list" where
  "tables_of s = (aenv s, nlfd s, ods_fd s, command_server_fd s, la_serv_list s, fd_list s, rbits_fd s)"

abbreviation (input) memory :: "aenv \<Rightarrow> bool" where
  "memory v \<equiv> \<forall>k. a_malloc v k"

lemma agent_ok_tables: "tables_of t = tables_of s \<Longrightarrow> agent_ok s \<Longrightarrow> agent_ok t"
  by (rule agent_ok_frame [of t s]) (simp_all add: tables_of_def)

lemmas agent_simps = aask_def aemit_def sm_simps

lemma ods_send_run:
  "memory (aenv s) \<Longrightarrow> \<exists>s'. ods_send type payload s = Inr ((), s') \<and> tables_of s' = tables_of s
     \<and> aouts s' = aouts s @ [Netlink_send (nlfd s) \<lparr>nl_len = 1040, nl_type = type,
         nl_pid = a_pid (aenv s), nl_data = write_buf payload (\<lambda>_. 0)\<rparr>]"
  by (simp add: ods_send_def agent_simps tables_of_def)

lemma feedback_run:
  assumes "memory (aenv s)"
  shows "\<exists>s'. ODS_feedback_route_reply r s = Inr (0, s') \<and> tables_of s' = tables_of s
     \<and> aouts s' = aouts s @ [Netlink_send (nlfd s) \<lparr>nl_len = 1040, nl_type = NLMSG_TYPE_INFO,
         nl_pid = a_pid (aenv s), nl_data = write_buf (rt_result_bytes
           \<lparr>rr_now_ip = rp_now_ip r, rr_result = rp_now_result r\<rparr>) (\<lambda>_. 0)\<rparr>]"
proof -
  have "ucast (ucast (rp_now_ip r) :: u64) = rp_now_ip r"
    by (rule bit_word_eqI) (simp add: bit_simps)
  with ods_send_run [OF assms, of NLMSG_TYPE_INFO "rt_result_bytes
           \<lparr>rr_now_ip = rp_now_ip r, rr_result = rp_now_result r\<rparr>"] show ?thesis
    by (auto simp: ODS_feedback_route_reply_def ods_send_info_msg_def sm_simps)
qed

text \<open>The request read from a message of the module; only a transit packet needs the interfaces.\<close>

lemma get_request_run:
  assumes "memory (aenv s)"
  shows "\<exists>r q s'. ODS_get_route_request received junk s = Inr ((r, q), s')
     \<and> tables_of s' = tables_of s \<and> aouts s' = aouts s
     \<and> (let i = rt_info_at (case received of None \<Rightarrow> (\<lambda>_. 0) | Some m \<Rightarrow> nl_data m) in
        rq_now_dst_ip q = ri_dst i \<and> rq_now_src_ip q = ri_src i \<and> rq_now_protocol q = ri_proto i)"
  using assms
  by (auto simp: ODS_get_route_request_def ods_recv_msg_def agent_simps tables_of_def Let_def
      split: option.splits)

abbreviation (input) daemons :: "agent \<Rightarrow> LAServ list" where
  "daemons s \<equiv> filter (\<lambda>c. ls_type c = LA_CLIENT_DAEMON) (la_serv_list s)"

lemma find_filter: "find p l = (case filter p l of [] \<Rightarrow> None | x # _ \<Rightarrow> Some x)"
  by (induction l) auto

lemma ods_message_run:
  assumes "memory (aenv s)"
  shows "\<exists>s'. la_ods_message_handle received s = Inr ((), s') \<and> tables_of s' = tables_of s
     \<and> (let i = rt_info_at (case received of None \<Rightarrow> (\<lambda>_. 0) | Some m \<Rightarrow> nl_data m) in
        aouts s' = aouts s @ (case daemons s of [] \<Rightarrow> [] | c # _ \<Rightarrow>
          [Client_send (ls_sock_fd c) (LAMessage_generate_stream
             \<lparr>la_cmd = LA_ODS_REQUEST, la_dst_address = ri_dst i, la_src_address = ri_src i,
              la_protocol = ri_proto i, la_result = 0\<rparr>)]))"
proof -
  let ?s = "s\<lparr>aticks := Suc (aticks s)\<rparr>" and ?j = "a_junk_request (aenv s) (aticks s)"
  have t: "tables_of ?s = tables_of s" "aouts ?s = aouts s" "memory (aenv ?s)"
    using assms by (simp_all add: tables_of_def)
  from get_request_run [OF t(3), of received ?j] obtain r q s' where
    q: "ODS_get_route_request received ?j ?s = Inr ((r, q), s')" "tables_of s' = tables_of s" "aouts s' = aouts s"
      "rq_now_dst_ip q = ri_dst (rt_info_at (case received of None \<Rightarrow> (\<lambda>_. 0) | Some m \<Rightarrow> nl_data m))"
      "rq_now_src_ip q = ri_src (rt_info_at (case received of None \<Rightarrow> (\<lambda>_. 0) | Some m \<Rightarrow> nl_data m))"
      "rq_now_protocol q = ri_proto (rt_info_at (case received of None \<Rightarrow> (\<lambda>_. 0) | Some m \<Rightarrow> nl_data m))"
    by (auto simp: t Let_def)
  moreover from q(2) have "la_serv_list s' = la_serv_list s" by (simp add: tables_of_def)
  ultimately show ?thesis
    by (cases "daemons s") (simp_all add: la_ods_message_handle_def agent_simps find_filter tables_of_def Let_def)
qed

text \<open>The end of a connection and a message that is not a reply send nothing to the kernel.\<close>

definition client_gone :: "int \<Rightarrow> agent \<Rightarrow> agent" where
  "client_gone fd s = (del_client fd s)\<lparr>aouts := aouts s @
     (if fst (drop_client fd (la_serv_list s)) then [Close fd] else [])\<rparr>"

lemma drop_client_none: "\<not> fst (drop_client fd l) \<Longrightarrow> snd (drop_client fd l) = l"
  by (induction l) (auto split: prod.splits if_splits)

lemma disconnect_run: "la_serv_handle_message fd [] s = Inr (0, client_gone fd s)"
  by (auto simp: la_serv_handle_message_def la_fdset_update_def agent_simps client_gone_def
      del_client_def drop_client_none split: prod.splits)

lemma client_data_run:
  assumes "memory (aenv s)" "bytes \<noteq> []"
  shows "\<exists>s'. la_serv_handle_message fd bytes s = Inr (0, s') \<and> tables_of s' = tables_of s
     \<and> (let m = LAMessage_parse_stream (write_buf (take 1023 bytes) (\<lambda>_. 0)) in
        aouts s' = aouts s @ (if la_cmd m = LA_ODS_REPLY
          then [Netlink_send (nlfd s) \<lparr>nl_len = 1040, nl_type = NLMSG_TYPE_INFO, nl_pid = a_pid (aenv s),
                  nl_data = write_buf (rt_result_bytes
                    \<lparr>rr_now_ip = la_dst_address m, rr_result = la_result m\<rparr>) (\<lambda>_. 0)\<rparr>]
          else []))"
proof (cases "la_cmd (LAMessage_parse_stream (write_buf (take 1023 bytes) (\<lambda>_. 0))) = LA_ODS_REPLY")
  case True
  let ?m = "LAMessage_parse_stream (write_buf (take 1023 bytes) (\<lambda>_. 0))"
  from feedback_run [OF assms(1), of "\<lparr>rp_now_ip = la_dst_address ?m, rp_now_result = la_result ?m\<rparr>"]
  show ?thesis using assms(2) True by (auto simp: la_serv_handle_message_def sm_simps Let_def)
next
  case False
  then show ?thesis using assms(2) by (simp add: la_serv_handle_message_def sm_simps Let_def tables_of_def)
qed

lemma accept_run:
  "la_command_server_accept acc s = (case acc of
     Again \<Rightarrow> Inr (0, s) | Accept_failed \<Rightarrow> Inr (- 1, s)
   | Accepted fd \<Rightarrow> Inr (0, (add_client (a_junk_type (aenv s) (aticks s)) fd s)\<lparr>aticks := Suc (aticks s)\<rparr>))"
  by (cases acc) (simp_all add: la_command_server_accept_def la_fdset_update_def agent_simps add_client_def)

section \<open>One round of the main loop\<close>

lemma register_run:
  assumes "\<forall>fd \<in> set (fd_list s). 0 \<le> fd \<and> fd < FD_SETSIZE"
  shows "\<exists>n. la_fdset_register s = Inr ((), s\<lparr>fd_num := n, rbits_fd := fd_list s\<rparr>)"
proof -
  have "\<forall>fd \<in> set fds. 0 \<le> fd \<and> fd < FD_SETSIZE \<Longrightarrow>
    \<exists>n. forM fds (\<lambda>fd. if fd < 0 \<or> FD_SETSIZE \<le> fd then raise (HeapOverflow (nat fd div 8 + 1) 128)
          else upd (\<lambda>s. s\<lparr>rbits_fd := rbits_fd s @ [fd],
                 fd_num := (if fd \<ge> fd_num s then fd + 1 else fd_num s)\<rparr>)) t
      = Inr ((), t\<lparr>fd_num := n, rbits_fd := rbits_fd t @ fds\<rparr>)" for fds t
  proof (induction fds arbitrary: t)
    case Nil
    then show ?case by (auto simp: sm_simps intro!: exI [of _ "fd_num t"])
  next
    case (Cons fd fds)
    let ?t = "t\<lparr>rbits_fd := rbits_fd t @ [fd], fd_num := (if fd \<ge> fd_num t then fd + 1 else fd_num t)\<rparr>"
    have "?t\<lparr>fd_num := n, rbits_fd := rbits_fd ?t @ fds\<rparr> = t\<lparr>fd_num := n, rbits_fd := rbits_fd t @ fd # fds\<rparr>" for n
      by (cases t) simp
    with Cons.IH [of ?t] Cons.prems show ?case by (auto simp: sm_simps)
  qed
  from this [OF assms, of "s\<lparr>fd_num := 0, rbits_fd := []\<rparr>"] show ?thesis
    by (auto simp: la_fdset_register_def sm_simps)
qed

text \<open>
  The invariant of the loop at index \<open>i\<close>: as long as the listening socket has not had its turn,
  the descriptor that \<open>accept\<close> gives is not in use.
\<close>

definition fresh_fd :: "accepted \<Rightarrow> agent \<Rightarrow> bool" where
  "fresh_fd acc s \<longleftrightarrow> (case acc of Accepted fd \<Rightarrow> fd \<notin> set (fd_list s) \<and> 0 \<le> fd \<and> fd < FD_SETSIZE | _ \<Rightarrow> True)"

definition serving :: "accepted \<Rightarrow> nat \<Rightarrow> agent \<Rightarrow> bool" where
  "serving acc i s \<longleftrightarrow> agent_ok s \<and> memory (aenv s) \<and> (i < length (own_fds s) \<longrightarrow> fresh_fd acc s)"

lemma serving_frame: "tables_of t = tables_of s \<Longrightarrow> serving acc i s \<Longrightarrow> serving acc (Suc i) t"
  using agent_ok_tables [of t s] by (auto simp: serving_def tables_of_def fresh_fd_def own_fds_def cong: accepted.case_cong)

lemma own_position:
  assumes "agent_ok s" "i < length (fd_list s)"
  shows "i < length (own_fds s) \<longleftrightarrow> fd_list s ! i \<in> set (own_fds s)"
proof -
  from assms(1) have eq: "fd_list s = own_fds s @ client_fds s" and d: "distinct (fd_list s)"
    unfolding agent_ok_def by blast+
  from eq d have "distinct (own_fds s @ client_fds s)" by (rule subst)
  with eq show ?thesis using assms(2) nth_mem [of "i - length (own_fds s)" "client_fds s"]
    by (auto simp: nth_append split: if_splits)
qed

text \<open>What is left of the loop: the descriptors from \<open>i\<close> on, and one that may still be accepted.\<close>

definition rounds_left :: "nat \<Rightarrow> agent \<Rightarrow> nat" where
  "rounds_left i s = length (fd_list s) - i + (if i < length (own_fds s) then 1 else 0)"

text \<open>One turn of the loop: the handler returns, and fewer rounds are left.\<close>

definition serve_fd :: "la_io \<Rightarrow> int \<Rightarrow> (agent, unit) sm" where
  "serve_fd io fd = bnd (gets id) (\<lambda>s.
     whenM (fd \<in> set (rbits_fd s))
       (if fd = ods_fd s then la_ods_message_handle (io_recvmsg io)
        else if fd = command_server_fd s then
          bnd (la_command_server_accept (io_accept io)) (\<lambda>_. ret ())
        else bnd (la_serv_handle_message fd (io_recv io fd)) (\<lambda>_. ret ())))"

lemma la_serve_Suc:
  "la_serve (Suc n) io i s = (if i \<ge> length (fd_list s) then Inr ((), s)
     else andthen (serve_fd io (fd_list s ! i)) (la_serve n io (Suc i)) s)"
  by (simp add: serve_fd_def sm_simps Let_def)

lemma frame_turn:
  assumes "serving acc i s" "i < length (fd_list s)" "tables_of t = tables_of s"
  shows "serving acc (Suc i) t \<and> rounds_left (Suc i) t < rounds_left i s"
  using assms serving_frame [of t s acc i] by (auto simp: rounds_left_def tables_of_def own_fds_def)

lemma turn_run:
  assumes "serving (io_accept io) i s" "i < length (fd_list s)"
  shows "\<exists>t. serve_fd io (fd_list s ! i) s = Inr ((), t) \<and> serving (io_accept io) (Suc i) t
    \<and> rounds_left (Suc i) t < rounds_left i s"
proof -
  let ?fd = "fd_list s ! i"
  from assms(1) have ok: "agent_ok s" "memory (aenv s)" by (simp_all add: serving_def)
  have own: "i < length (own_fds s) \<longleftrightarrow> ?fd \<in> set (own_fds s)" by (rule own_position [OF ok(1) assms(2)])
  consider "?fd \<notin> set (rbits_fd s)" | "?fd \<in> set (rbits_fd s)" "?fd = ods_fd s"
    | "?fd \<in> set (rbits_fd s)" "?fd \<noteq> ods_fd s" "?fd = command_server_fd s"
    | "?fd \<in> set (rbits_fd s)" "?fd \<noteq> ods_fd s" "?fd \<noteq> command_server_fd s" by blast
  then show ?thesis
  proof cases
    case 1
    then show ?thesis using frame_turn [OF assms refl] by (simp add: serve_fd_def sm_simps)
  next
    case 2
    from ods_message_run [OF ok(2)] obtain t where
      t: "la_ods_message_handle (io_recvmsg io) s = Inr ((), t)" "tables_of t = tables_of s" by blast
    from frame_turn [OF assms t(2)] t(1) 2 show ?thesis by (simp add: serve_fd_def sm_simps)
  next
    case 3
    show ?thesis
    proof (cases "io_accept io")
      case (Accepted fd)
      let ?t = "(add_client (a_junk_type (aenv s) (aticks s)) fd s)\<lparr>aticks := Suc (aticks s)\<rparr>"
      have i: "i < length (own_fds s)" using own 3(3) by (simp add: own_fds_def)
      with 3 ok(1) have last: "Suc i = length (own_fds s)"
        by (auto simp: agent_ok_def own_fds_def nth_append split: if_splits)
      from assms(1) i Accepted have "fd \<notin> set (fd_list s)" "0 \<le> fd" "fd < FD_SETSIZE"
        by (simp_all add: serving_def fresh_fd_def)
      with ok(1) have "agent_ok (add_client (a_junk_type (aenv s) (aticks s)) fd s)" by (rule agent_ok_add)
      then have "agent_ok ?t" by (rule agent_ok_frame [rotated -1]) simp_all
      moreover have "own_fds ?t = own_fds s" "aenv ?t = aenv s" "length (fd_list ?t) = Suc (length (fd_list s))"
        by (simp_all add: own_fds_def add_client_def)
      ultimately show ?thesis using 3 ok(2) last i assms(2) Accepted
        by (intro exI [of _ ?t]) (simp add: serve_fd_def sm_simps accept_run serving_def rounds_left_def)
    qed (use frame_turn [OF assms refl] 3 in \<open>simp_all add: serve_fd_def sm_simps accept_run\<close>)
  next
    case 4
    show ?thesis
    proof (cases "io_recv io ?fd = []")
      case True
      have notown: "?fd \<notin> set (own_fds s)" using 4 by (simp add: own_fds_def)
      let ?t = "client_gone ?fd s"
      have "agent_ok (del_client ?fd s)" by (rule agent_ok_del [OF ok(1) notown])
      then have "agent_ok ?t" by (rule agent_ok_frame [rotated -1]) (simp_all add: client_gone_def)
      moreover have "own_fds ?t = own_fds s" "aenv ?t = aenv s" "length (fd_list ?t) \<le> length (fd_list s)"
        by (simp_all add: own_fds_def client_gone_def del_client_def length_remove1)
      ultimately show ?thesis using 4 ok(2) notown own assms(2) True
        by (intro exI [of _ ?t]) (simp add: serve_fd_def sm_simps disconnect_run serving_def rounds_left_def)
    next
      case False
      from client_data_run [OF ok(2) False] obtain t where
        t: "la_serv_handle_message ?fd (io_recv io ?fd) s = Inr (0, t)" "tables_of t = tables_of s" by blast
      from frame_turn [OF assms t(2)] t(1) 4 show ?thesis by (simp add: serve_fd_def sm_simps)
    qed
  qed
qed

lemma la_serve_run:
  "serving (io_accept io) i s \<Longrightarrow> rounds_left i s < n \<Longrightarrow>
   \<exists>t. la_serve n io i s = Inr ((), t) \<and> agent_ok t \<and> memory (aenv t)"
proof (induction n arbitrary: i s)
  case (Suc n)
  show ?case
  proof (cases "i < length (fd_list s)")
    case True
    from turn_run [OF Suc.prems(1) True] obtain t where
      t: "serve_fd io (fd_list s ! i) s = Inr ((), t)" "serving (io_accept io) (Suc i) t"
        "rounds_left (Suc i) t < rounds_left i s" by blast
    with Suc.IH [OF t(2)] Suc.prems(2) True show ?thesis
      by (simp add: la_serve_Suc sm_simps del: la_serve.simps)
  next
    case False
    then show ?thesis using Suc.prems(1) by (auto simp: la_serve_Suc serving_def simp del: la_serve.simps)
  qed
qed simp

text \<open>
  The runs of the agent: it starts with its own descriptors only and a list without clients, and
  a round gives it a descriptor of a new connection that is not in use.
\<close>

definition agent_start :: "agent \<Rightarrow> bool" where
  "agent_start s \<longleftrightarrow> (\<exists>s0. la_fdset_init s0 = Inr (0, s) \<and> la_serv_list s0 = []
     \<and> ods_fd s0 \<noteq> command_server_fd s0 \<and> ods_fd s0 < FD_SETSIZE
     \<and> 0 \<le> command_server_fd s0 \<and> command_server_fd s0 < FD_SETSIZE \<and> memory (aenv s0))"

inductive agent_step :: "agent \<Rightarrow> agent \<Rightarrow> bool" where
  round: "fresh_fd (io_accept io) s \<Longrightarrow> la_main_round fuel io s = Inr (True, t) \<Longrightarrow> agent_step s t"

inductive_cases agent_stepE: "agent_step s t"

definition agent_inv :: "agent \<Rightarrow> bool" where
  "agent_inv s \<longleftrightarrow> agent_ok s \<and> memory (aenv s)"

lemma main_round_run:
  assumes "agent_inv s" "fresh_fd (io_accept io) s" "length (fd_list s) + 1 < fuel"
  shows "\<exists>t. la_main_round fuel io s = Inr (0 \<le> io_select io \<or> io_eintr io, t) \<and> agent_inv t"
proof -
  from assms(1) have ok: "agent_ok s" "memory (aenv s)" by (auto simp: agent_inv_def)
  from ok(1) have "\<forall>fd \<in> set (fd_list s). 0 \<le> fd \<and> fd < FD_SETSIZE" unfolding agent_ok_def by blast
  from register_run [OF this] obtain n where
    reg: "la_fdset_register s = Inr ((), s\<lparr>fd_num := n, rbits_fd := fd_list s\<rparr>)" by blast
  have serving: "serving (io_accept io) 0 (s\<lparr>fd_num := n, rbits_fd := r\<rparr>)" for r
  proof -
    have "agent_ok (s\<lparr>fd_num := n, rbits_fd := r\<rparr>)"
      using ok(1) by (rule agent_ok_frame [rotated -1]) simp_all
    then show ?thesis using ok(2) assms(2)
      by (simp add: serving_def fresh_fd_def cong: accepted.case_cong)
  qed
  have left: "rounds_left 0 (s\<lparr>fd_num := n, rbits_fd := r\<rparr>) < fuel" for r
    using assms(3) by (simp add: rounds_left_def)
  have "\<exists>t. la_serve fuel io 0 (s\<lparr>fd_num := n, rbits_fd := r\<rparr>) = Inr ((), t) \<and> agent_inv t" for r
    using la_serve_run [OF serving left] by (auto simp: agent_inv_def)
  from this [of "fd_list s"] this [of "io_ready io"] show ?thesis
    using assms(1) ok agent_ok_frame [of "s\<lparr>fd_num := n, rbits_fd := fd_list s\<rparr>" s]
    by (auto simp: la_main_round_def sm_simps reg agent_inv_def)
qed

text \<open>More fuel does not change the result.\<close>

lemma la_serve_more: "la_serve n io i s = Inr r \<Longrightarrow> n \<le> m \<Longrightarrow> la_serve m io i s = Inr r"
proof (induction n arbitrary: i s m)
  case (Suc n)
  then obtain m' where m: "m = Suc m'" "n \<le> m'" by (cases m) auto
  from Suc.prems(1) Suc.IH [of "Suc i" _ m'] m show ?case
    by (auto simp: la_serve_Suc andthen_apply simp del: la_serve.simps split: if_splits sum.splits)
qed (simp add: raise_def)

lemma la_main_round_more:
  "la_main_round n io s = Inr r \<Longrightarrow> n \<le> m \<Longrightarrow> la_main_round m io s = Inr r"
  by (auto simp: la_main_round_def sm_simps dest!: la_serve_more [of n io 0 _ _ m] split: sum.splits if_splits)

interpretation agent: invariant_of agent_start agent_step agent_inv
proof
  fix s
  assume "agent_start s"
  then show "agent_inv s"
    by (auto simp: agent_start_def la_fdset_init_def sm_simps agent_inv_def agent_ok_def own_fds_def client_fds_def)
next
  fix s t
  assume s: "agent_inv s" and "agent_step s t"
  then obtain io fuel where io: "fresh_fd (io_accept io) s" "la_main_round fuel io s = Inr (True, t)"
    by (auto elim: agent_stepE)
  let ?m = "max fuel (length (fd_list s) + 2)"
  from io(2) have "la_main_round ?m io s = Inr (True, t)" by (rule la_main_round_more) simp
  with main_round_run [OF s io(1), of ?m] show "agent_inv t" by auto
qed

section \<open>An example\<close>

text \<open>A machine with one interface, on which the first client is a daemon.\<close>

definition quiet_machine :: aenv where
  "quiet_machine = \<lparr>a_malloc = \<lambda>_. True, a_ifaddrs = \<lambda>_. [(''wlan0'', 7, Some [2, 0, 0, 0, 0, 1])],
     a_nametoindex = \<lambda>_. 0, a_stack = \<lambda>_. [0], a_junk_type = \<lambda>_. 0,
     a_junk_request = \<lambda>_. \<lparr>rq_now_dst_ip = 0, rq_now_src_ip = 0, rq_now_protocol = 0, rq_input_ifindex = 0\<rparr>,
     a_pid = 77, a_setreuid = 0, a_open_tun = 4, a_ioctl_setiff = 0, a_ioctl_nocsum = 0, a_socket = 5\<rparr>"

definition idle_agent :: agent where
  "idle_agent = \<lparr>aenv = quiet_machine, aticks = 0, nlfd = 5, ods_fd = 5, command_server_fd = 6,
     la_serv_list = [], fd_list = [5, 6], fd_num = 0, rbits_fd = [], aouts = []\<rparr>"

definition one_daemon :: agent where
  "one_daemon = idle_agent\<lparr>aticks := 1, la_serv_list := [\<lparr>ls_sock_fd = 7, ls_type = 0\<rparr>], fd_list := [5, 6, 7],
     fd_num := 7, rbits_fd := [6]\<rparr>"

definition connecting :: la_io where
  "connecting = \<lparr>io_select = 1, io_eintr = False, io_ready = [6], io_recvmsg = None, io_accept = Accepted 7,
     io_recv = \<lambda>_. []\<rparr>"

lemmas agent_fields = quiet_machine_def idle_agent_def one_daemon_def connecting_def

lemma connecting_round: "la_main_round (Suc (Suc (Suc (Suc 0)))) connecting idle_agent = Inr (True, one_daemon)"
  by (simp add: la_main_round_def la_fdset_register_def agent_simps accept_run add_client_def agent_fields Let_def)

lemma reach_one_daemon: "reach agent_start agent_step one_daemon"
proof -
  have "agent_start idle_agent"
    unfolding agent_start_def
    by (intro exI [of _ "idle_agent\<lparr>fd_list := []\<rparr>"]) (simp add: la_fdset_init_def sm_simps agent_fields)
  then have "reach agent_start agent_step idle_agent" by (rule reach_init)
  moreover have "agent_step idle_agent one_daemon"
    by (rule round [OF _ connecting_round]) (simp add: fresh_fd_def agent_fields)
  ultimately show ?thesis by (rule reach_step)
qed

section \<open>Properties\<close>

text \<open>
  C35. One round of the agent's main loop ends, whatever its descriptors deliver, and afterwards
  the set of descriptors it listens to is again exactly its own and those of its clients, each
  once. Two rounds more than there are descriptors are enough, although the handlers add to the
  list and take from it while the loop runs.
\<close>

theorem agent_rounds_return:
  assumes "reach agent_start agent_step s" "fresh_fd (io_accept io) s" "length (fd_list s) + 1 < fuel"
  shows "\<exists>b t. la_main_round fuel io s = Inr (b, t)
    \<and> fd_list t = own_fds t @ map ls_sock_fd (la_serv_list t) \<and> distinct (fd_list t)"
proof -
  from main_round_run [OF agent.reach_inv [OF assms(1)] assms(2,3)] obtain b t where
    t: "la_main_round fuel io s = Inr (b, t)" "agent_inv t" by blast
  from t(2) have "fd_list t = own_fds t @ map ls_sock_fd (la_serv_list t)" "distinct (fd_list t)"
    unfolding agent_inv_def agent_ok_def client_fds_def by blast+
  with t(1) show ?thesis by blast
qed

theorem agent_rounds_return_witness:
  "\<exists>b t. la_main_round 5 (connecting\<lparr>io_ready := [5, 6, 7], io_accept := Accepted 8\<rparr>) one_daemon = Inr (b, t)
    \<and> fd_list t = own_fds t @ map ls_sock_fd (la_serv_list t)"
  using agent_rounds_return [OF reach_one_daemon, of "connecting\<lparr>io_ready := [5, 6, 7], io_accept := Accepted 8\<rparr>" 5]
  by (auto simp: fresh_fd_def agent_fields)

text \<open>
  A message of the kernel module changes nothing of the agent's tables, and is passed on as
  one message of 17 bytes to the first client whose type is that of a daemon, which reads from it
  the addresses and the protocol of the packet; without such a client it is dropped.
\<close>

theorem requests_reach_first_daemon:
  assumes "\<forall>k. a_malloc (aenv s) k" "length (ri_mac_dst_addr i) = 6"
    and "nl_data m = write_buf (rt_info_bytes pad i) b"
  shows "\<exists>s'. la_ods_message_handle (Some m) s = Inr ((), s') \<and> tables_of s' = tables_of s
    \<and> (case filter (\<lambda>c. ls_type c = LA_CLIENT_DAEMON) (la_serv_list s) of
         [] \<Rightarrow> aouts s' = aouts s
       | c # _ \<Rightarrow> \<exists>bytes. aouts s' = aouts s @ [Client_send (ls_sock_fd c) bytes] \<and> length bytes = 17
           \<and> LAMessage_parse_stream (write_buf bytes (\<lambda>_. 0)) = \<lparr>la_cmd = LA_ODS_REQUEST,
               la_dst_address = ri_dst i, la_src_address = ri_src i, la_protocol = ri_proto i, la_result = 0\<rparr>)"
  using ods_message_run [OF assms(1), of "Some m"] rtinfo.dec_enc [OF assms(2), of pad b]
  by (auto simp: assms(3) Let_def lamsg.dec_enc length_LAMessage split: list.split)

theorem requests_reach_first_daemon_witness:
  "let i = \<lparr>ri_dst = 9, ri_src = 1, ri_proto = 17, ri_packet_source_type = OTHER, ri_mac_dst_addr = [2, 0, 0, 0, 0, 1]\<rparr>;
       m = \<lparr>nl_len = 40, nl_type = 1, nl_pid = 0, nl_data = write_buf (rt_info_bytes (\<lambda>_. 0) i) (\<lambda>_. 0)\<rparr> in
   \<exists>s' bytes. la_ods_message_handle (Some m) one_daemon = Inr ((), s') \<and> aouts s' = [Client_send 7 bytes]
     \<and> la_dst_address (LAMessage_parse_stream (write_buf bytes (\<lambda>_. 0))) = 9"
  using requests_reach_first_daemon [of one_daemon "\<lparr>ri_dst = 9, ri_src = 1, ri_proto = 17,
      ri_packet_source_type = OTHER, ri_mac_dst_addr = [2, 0, 0, 0, 0, 1]\<rparr>"
      "\<lparr>nl_len = 40, nl_type = 1, nl_pid = 0, nl_data = write_buf (rt_info_bytes (\<lambda>_. 0)
        \<lparr>ri_dst = 9, ri_src = 1, ri_proto = 17, ri_packet_source_type = OTHER, ri_mac_dst_addr = [2, 0, 0, 0, 0, 1]\<rparr>) (\<lambda>_. 0)\<rparr>"
      "\<lambda>_. 0" "\<lambda>_. 0"]
  by (fastforce simp: agent_fields Let_def)

end
