(* ===== verification/Platform.thy ===== *)
theory Platform
  imports Examples Packet_System Proc_File Agent_Laws
begin

text \<open>
  The parts of the platform at work together, connected by the bytes they exchange: a packet
  that the ODS kernel module holds, its request on the way through the Local Agent to the AODV
  daemon, the daemon's answer on the way back, and what becomes of the packet; and the text the
  \<open>route_check\<close> module shows to the daemon.
\<close>

section \<open>Messages on their way\<close>

text \<open>What the agent reads from the request of the kernel module; the addresses of the MAC header do not matter.\<close>

lemma request_read:
  "ri_dst (rt_info_at (nl_data (request_of skb type junk pad))) = sk_daddr skb"
  "ri_src (rt_info_at (nl_data (request_of skb type junk pad))) = sk_saddr skb"
  "ri_proto (rt_info_at (nl_data (request_of skb type junk pad))) = sk_protocol skb"
proof -
  let ?b = "nl_data (request_of skb type junk pad)"
  have "read32 ?b 0 = sk_daddr skb"
    using read32_append [of "[]" 0 "sk_daddr skb"] by (simp add: request_of_def rt_info_bytes_def)
  moreover have "read32 ?b 4 = sk_saddr skb"
    using read32_append [of "le32 (sk_daddr skb)" 4 "sk_saddr skb"] by (simp add: request_of_def rt_info_bytes_def)
  moreover have "?b 8 = sk_protocol skb"
    by (simp add: write_buf_def request_of_def rt_info_bytes_def nth_append)
  ultimately show "ri_dst (rt_info_at ?b) = sk_daddr skb" "ri_src (rt_info_at ?b) = sk_saddr skb"
    "ri_proto (rt_info_at ?b) = sk_protocol skb"
    by (simp_all add: rt_info_at_def)
qed

abbreviation (input) daemon_request :: "sk_buff \<Rightarrow> LAMessage" where
  "daemon_request skb \<equiv> \<lparr>la_cmd = LA_ODS_REQUEST, la_dst_address = sk_daddr skb,
     la_src_address = sk_saddr skb, la_protocol = sk_protocol skb, la_result = 0\<rparr>"

abbreviation (input) daemon_reply :: "ip \<Rightarrow> u32 \<Rightarrow> LAMessage" where
  "daemon_reply dst v \<equiv> \<lparr>la_cmd = LA_ODS_REPLY, la_dst_address = dst, la_src_address = 0,
     la_protocol = 0, la_result = v\<rparr>"

lemma stream_read:
  "la_msg \<noteq> [] \<Longrightarrow> 17 \<le> n \<Longrightarrow> la_msg = LAMessage_generate_stream m \<Longrightarrow>
   LAMessage_parse_stream (write_buf (take n la_msg) b) = m"
  by (simp add: length_LAMessage lamsg.dec_enc)

lemma stream_nonempty: "LAMessage_generate_stream m \<noteq> []"
  using length_LAMessage [of m] by fastforce

text \<open>The agent passes a request on to its first daemon, and a daemon's reply to the kernel.\<close>

lemma agent_forwards:
  assumes "memory (aenv a)" "daemons a = c # cs"
  shows "\<exists>a'. la_ods_message_handle (Some (request_of skb type junk pad)) a = Inr ((), a')
    \<and> tables_of a' = tables_of a
    \<and> aouts a' = aouts a @ [Client_send (ls_sock_fd c) (LAMessage_generate_stream (daemon_request skb))]"
  using ods_message_run [OF assms(1), of "Some (request_of skb type junk pad)"] assms(2)
  by (simp add: request_read Let_def)

definition kernel_reply :: "agent \<Rightarrow> ip \<Rightarrow> u32 \<Rightarrow> nlmsg" where
  "kernel_reply a dst v = \<lparr>nl_len = 1040, nl_type = NLMSG_TYPE_INFO, nl_pid = a_pid (aenv a),
     nl_data = write_buf (rt_result_bytes \<lparr>rr_now_ip = dst, rr_result = v\<rparr>) (\<lambda>_. 0)\<rparr>"

lemma kernel_reply_read [simp]:
  "nl_type (kernel_reply a dst v) = NLMSG_TYPE_INFO"
  "rt_result_at (nl_data (kernel_reply a dst v)) = \<lparr>rr_now_ip = dst, rr_result = v\<rparr>"
  by (simp_all add: kernel_reply_def rtresult.dec_enc)

lemma agent_replies:
  assumes "memory (aenv a)"
  shows "\<exists>a'. la_serv_handle_message fd (LAMessage_generate_stream (daemon_reply dst v)) a = Inr (0, a')
    \<and> tables_of a' = tables_of a \<and> aouts a' = aouts a @ [Netlink_send (nlfd a) (kernel_reply a dst v)]"
  using client_data_run [OF assms stream_nonempty [of "daemon_reply dst v"], of fd]
  by (simp add: stream_read [OF stream_nonempty] Let_def kernel_reply_def)

lemma daemon_reads:
  "recv_la_data (LAMessage_generate_stream (daemon_request skb)) =
     process_asl \<lparr>ri_dst_ip = sk_daddr skb, ri_src_ip = sk_saddr skb, ri_protocol = sk_protocol skb\<rparr>"
  by (simp add: recv_la_data_def Let_def stream_read [OF stream_nonempty] stream_nonempty)

text \<open>A packet that is the first of its destination, held and released again.\<close>

abbreviation (input) held :: "sk_buff \<Rightarrow> u32 \<Rightarrow> packet_queue_head \<Rightarrow> packet_queue_head" where
  "held skb type h \<equiv> h\<lparr>qh_list := element_of skb type # qh_list h, qh_len := qh_len h + 1\<rparr>"

lemma waiting_held:
  assumes "waiting (sk_daddr skb) h = []"
  shows "waiting (sk_daddr skb) (held skb type h) = [element_of skb type]"
    and "without (sk_daddr skb) (held skb type h) = h"
proof -
  show w: "waiting (sk_daddr skb) (held skb type h) = [element_of skb type]"
    using assms by (simp add: waiting_def element_of_def)
  have "filter (\<lambda>e. el_dst_ip e \<noteq> sk_daddr skb) (rev (qh_list h)) = rev (qh_list h)"
    using assms by (auto simp: waiting_def filter_empty_conv)
  then have "rev (others (sk_daddr skb) (held skb type h)) = qh_list h"
    by (simp add: others_def element_of_def)
  with w show "without (sk_daddr skb) (held skb type h) = h" by (simp add: without_def)
qed

lemma packet_held:
  assumes "kmod_inv k" "transmission_flag k" "my_queue_head k = Ptr h" "\<forall>n. k_alloc (kenv k) n"
    and "qh_len h < MAX_PACKET_NUMBER" "waiting (sk_daddr skb) h = []"
    and "sk_dst_dev skb = TUNNAME" "type = LOCAL \<or> type = OTHER"
  shows "\<exists>t junk pad. check_packet type skb k = Inr (NF_STOLEN, k\<lparr>kticks := t,
      kouts := kouts k @ [Netlink_unicast (user_pid k) (request_of skb type junk pad)],
      my_queue_head := Ptr (held skb type h)\<rparr>)"
  using tun_packet_run [OF assms(1-4,7,8)] assms(5,6) by simp

section \<open>From the packet to the route and back\<close>

lemma el_skb_element [simp]: "el_skb (element_of skb type) = skb"
  by (simp add: element_of_def)

text \<open>The last timeout of a search.\<close>

lemma resend_gives_up:
  assumes "rreqPendingList_inList (rreq_list d) (td_data tm) = Some e"
    and "pe_retries (next_try (expandingRingSearch d) e) > RREQ_RETRIES"
  shows "\<exists>d1. resendRREQ tm d = Inr ((), d1)
    \<and> outs d1 = outs d @ [La_send (LAMessage_generate_stream (daemon_reply (td_data tm) IP_NOFOUND))]"
  using assms
  by (simp add: resendRREQ_def rreqL_write_def rreqL_deleteFromList_def la_reply_def emit_def sm_simps Let_def)

text \<open>
  C5. A packet for a destination to which the daemon has a live route: held by the kernel module,
  its request goes through the agent to the daemon, whose answer goes the same way back and
  releases the packet over the new route; the queue is then what it was before.
\<close>

theorem packet_leaves_over_known_route:
  assumes "kmod_inv k" "transmission_flag k" "my_queue_head k = Ptr h" "\<forall>n. k_alloc (kenv k) n"
    and "qh_len h < MAX_PACKET_NUMBER" "waiting (sk_daddr skb) h = []"
    and "sk_dst_dev skb = TUNNAME" "type = LOCAL \<or> type = OTHER"
    and "routed (kenv k) (sk_daddr skb) dev" "dev \<noteq> TUNNAME"
    and "memory (aenv a)" "daemons a = c # cs"
    and "\<not> duringReboot d" "active_at (sk_daddr skb) d"
  shows "\<exists>k1 m a1 req d1 reply a2 ans k2.
      check_packet type skb k = Inr (NF_STOLEN, k1)
    \<and> kouts k1 = kouts k @ [Netlink_unicast (user_pid k) m]
    \<and> la_ods_message_handle (Some m) a = Inr ((), a1)
    \<and> aouts a1 = aouts a @ [Client_send (ls_sock_fd c) req]
    \<and> recv_la_data req d = Inr ((), d1) \<and> outs d1 = outs d @ [La_send reply]
    \<and> la_serv_handle_message (ls_sock_fd c) reply a1 = Inr (0, a2)
    \<and> aouts a2 = aouts a1 @ [Netlink_send (nlfd a) ans]
    \<and> recv_msg 1001 ans k1 = Inr ((), k2)
    \<and> kouts k2 = kouts k1 @ [Xmit (skb\<lparr>sk_dst_dev := dev\<rparr>)] \<and> my_queue_head k2 = Ptr h"
proof -
  from packet_held [OF assms(1-8)] obtain t junk pad k1 where
    k1: "check_packet type skb k = Inr (NF_STOLEN, k1)"
      "kouts k1 = kouts k @ [Netlink_unicast (user_pid k) (request_of skb type junk pad)]"
      "my_queue_head k1 = Ptr (held skb type h)" "kenv k1 = kenv k"
    by auto
  from runsD [OF runs_check_packet assms(1), of type skb] k1(1) have inv: "kmod_inv k1" by simp
  from agent_forwards [OF assms(11,12), of skb type junk pad] obtain a1 where
    a1: "la_ods_message_handle (Some (request_of skb type junk pad)) a = Inr ((), a1)" "tables_of a1 = tables_of a"
      "aouts a1 = aouts a @ [Client_send (ls_sock_fd c) (LAMessage_generate_stream (daemon_request skb))]"
    by blast
  from a1(2) assms(11) have mem: "memory (aenv a1)" "nlfd a1 = nlfd a" by (simp_all add: tables_of_def)
  from agent_replies [OF mem(1), of "ls_sock_fd c" "sk_daddr skb" IP_FOUND] obtain a2 where
    a2: "la_serv_handle_message (ls_sock_fd c)
        (LAMessage_generate_stream (daemon_reply (sk_daddr skb) IP_FOUND)) a1 = Inr (0, a2)"
      "aouts a2 = aouts a1 @ [Netlink_send (nlfd a) (kernel_reply a1 (sk_daddr skb) IP_FOUND)]"
    by (auto simp: mem(2))
  let ?d1 = "(tock d)\<lparr>outs := outs d @ [reply_effect (sk_daddr skb) IP_FOUND]\<rparr>"
  have d1: "recv_la_data (LAMessage_generate_stream (daemon_request skb)) d = Inr ((), ?d1)"
    using process_asl_found [OF assms(13)] assms(14) by (simp add: daemon_reads)
  from route_found_run [OF inv k1(3) _ kernel_reply_read, of 1001 "sk_daddr skb" dev a1] assms(9,10) k1(4)
  obtain k2 where k2: "recv_msg 1001 (kernel_reply a1 (sk_daddr skb) IP_FOUND) k1 = Inr ((), k2)"
    "kouts k2 = kouts k1 @ [Xmit (skb\<lparr>sk_dst_dev := dev\<rparr>)]" "my_queue_head k2 = Ptr h"
    by (auto simp: waiting_held [OF assms(6)])
  have "outs ?d1 = outs d @ [reply_effect (sk_daddr skb) IP_FOUND]" by simp
  with k1(1,2) a1(1,3) a2 d1 k2 show ?thesis by blast
qed

theorem packet_leaves_over_known_route_witness:
  "\<exists>k1 req d1 ans k2. check_packet LOCAL (tun_packet 3 2) holding = Inr (NF_STOLEN, k1)
    \<and> recv_la_data req heard = Inr ((), d1) \<and> recv_msg 1001 ans k1 = Inr ((), k2)
    \<and> kouts k2 = kouts k1 @ [Xmit ((tun_packet 3 2)\<lparr>sk_dst_dev := ''wlan0''\<rparr>)] \<and> my_queue_head k2 = Ptr two_held"
proof -
  have k: "kmod_inv holding" "transmission_flag holding" "my_queue_head holding = Ptr two_held"
      "\<forall>n. k_alloc (kenv holding) n" "qh_len two_held < MAX_PACKET_NUMBER"
      "waiting (sk_daddr (tun_packet 3 2)) two_held = []" "sk_dst_dev (tun_packet 3 2) = TUNNAME"
    by (rule holding_inv(1)) (simp_all add: kernel_fields waiting_def)
  have r: "routed (kenv holding) (sk_daddr (tun_packet 3 2)) ''wlan0''" by (simp add: routed_def kernel_fields)
  have a: "memory (aenv one_daemon)" "daemons one_daemon = [\<lparr>ls_sock_fd = 7, ls_type = 0\<rparr>]"
    by (simp_all add: agent_fields)
  have d: "\<not> duringReboot heard" "active_at (sk_daddr (tun_packet 3 2)) heard"
    by (simp_all add: active_at_def heard_def state_fields tun_packet_def word_less_nat_alt)
  from packet_leaves_over_known_route [OF k _ r _ a d, of LOCAL] show ?thesis by (simp; blast)
qed

text \<open>
  C6. A search that the daemon gives up frees the packets that waited for it: the daemon's
  \<open>IP_NOFOUND\<close> goes through the agent to the kernel module, which takes exactly the packets of
  that destination off its queue and frees them, oldest first.
\<close>

theorem failed_search_frees_packets:
  assumes "rreqPendingList_inList (rreq_list d) (td_data tm) = Some e"
    and "pe_retries (next_try (expandingRingSearch d) e) > RREQ_RETRIES"
    and "memory (aenv a)" "kmod_inv k" "my_queue_head k = Ptr h"
  shows "\<exists>d1 reply a1 ans k1. resendRREQ tm d = Inr ((), d1) \<and> outs d1 = outs d @ [La_send reply]
    \<and> la_serv_handle_message fd reply a = Inr (0, a1) \<and> aouts a1 = aouts a @ [Netlink_send (nlfd a) ans]
    \<and> recv_msg 1001 ans k = Inr ((), k1) \<and> my_queue_head k1 = Ptr (without (td_data tm) h)
    \<and> kouts k1 = kouts k @ map (\<lambda>e. Kfree_skb (el_skb e)) (waiting (td_data tm) h)"
proof -
  from resend_gives_up [OF assms(1,2)] obtain d1 where d1: "resendRREQ tm d = Inr ((), d1)"
    "outs d1 = outs d @ [La_send (LAMessage_generate_stream (daemon_reply (td_data tm) IP_NOFOUND))]" by blast
  from agent_replies [OF assms(3), of fd "td_data tm" IP_NOFOUND] obtain a1 where
    a1: "la_serv_handle_message fd (LAMessage_generate_stream (daemon_reply (td_data tm) IP_NOFOUND)) a = Inr (0, a1)"
      "aouts a1 = aouts a @ [Netlink_send (nlfd a) (kernel_reply a (td_data tm) IP_NOFOUND)]" by auto
  from route_missing_run [OF assms(4,5), of 1001 "kernel_reply a (td_data tm) IP_NOFOUND"] obtain k1 where
    "recv_msg 1001 (kernel_reply a (td_data tm) IP_NOFOUND) k = Inr ((), k1)"
    "my_queue_head k1 = Ptr (without (td_data tm) h)"
    "kouts k1 = kouts k @ map (\<lambda>e. Kfree_skb (el_skb e)) (waiting (td_data tm) h)"
    by auto
  with d1 a1 show ?thesis by blast
qed

theorem failed_search_frees_packets_witness:
  "\<exists>d1 reply a1 ans k1. resendRREQ \<lparr>td_type = RREQ_TIMER, td_data = 9\<rparr>
      (asking\<lparr>rreq_list := [\<lparr>pe_rreqOb = own_rreq, pe_retries = 2, pe_ttl = 35\<rparr>]\<rparr>) = Inr ((), d1)
    \<and> la_serv_handle_message 7 reply one_daemon = Inr (0, a1) \<and> aouts a1 = [Netlink_send 5 ans] \<and> recv_msg 1001 ans holding = Inr ((), k1)
    \<and> kouts k1 = [Kfree_skb (tun_packet 2 9)]"
proof -
  let ?d = "asking\<lparr>rreq_list := [\<lparr>pe_rreqOb = own_rreq, pe_retries = 2, pe_ttl = 35\<rparr>]\<rparr>"
  have e: "rreqPendingList_inList (rreq_list ?d) (td_data \<lparr>td_type = RREQ_TIMER, td_data = 9\<rparr>)
      = Some \<lparr>pe_rreqOb = own_rreq, pe_retries = 2, pe_ttl = 35\<rparr>"
    by (simp add: own_rreq_def)
  have n: "pe_retries (next_try (expandingRingSearch ?d) \<lparr>pe_rreqOb = own_rreq, pe_retries = 2, pe_ttl = 35\<rparr>)
      > RREQ_RETRIES"
    by (simp add: next_try_def param_values asking_def heard_def state_fields)
  have a: "memory (aenv one_daemon)" "my_queue_head holding = Ptr two_held"
      "map el_skb (waiting 9 two_held) = [tun_packet 2 9]" "kouts holding = []" "aouts one_daemon = []" "nlfd one_daemon = 5"
    by (simp_all add: agent_fields kernel_fields waiting_def)
  have t: "td_data \<lparr>td_type = RREQ_TIMER, td_data = 9\<rparr> = 9" by simp
  from failed_search_frees_packets [OF e n a(1) holding_inv(1) a(2), of 7, unfolded t] obtain d1 reply a1 ans k1 where
    "resendRREQ \<lparr>td_type = RREQ_TIMER, td_data = 9\<rparr> ?d = Inr ((), d1)"
    "la_serv_handle_message 7 reply one_daemon = Inr (0, a1)" "aouts a1 = aouts one_daemon @ [Netlink_send (nlfd one_daemon) ans]" "recv_msg 1001 ans holding = Inr ((), k1)"
    "kouts k1 = kouts holding @ map (\<lambda>e. Kfree_skb (el_skb e)) (waiting 9 two_held)"
    by blast
  moreover have "map (\<lambda>e. Kfree_skb (el_skb e)) (waiting 9 two_held) = map Kfree_skb (map el_skb (waiting 9 two_held))"
    by simp
  ultimately show ?thesis unfolding a(3-) by auto
qed

text \<open>
  What can happen to the loaded module while a destination is not answered: packets of any kind at its hooks,
  and messages of user space that begin or end the connection, are of an unknown type, or answer another destination.
\<close>

inductive unanswered :: "ip \<Rightarrow> kmod \<Rightarrow> kmod \<Rightarrow> bool" for dst :: ip where
  packet: "check_packet hookindex skb k = Inr (v, k') \<Longrightarrow> unanswered dst k k'"
| message: "nl_type m = NLMSG_TYPE_INFO \<longrightarrow> rr_now_ip (rt_result_at (nl_data m)) \<noteq> dst \<Longrightarrow>
    recv_msg fuel m k = Inr ((), k') \<Longrightarrow> unanswered dst k k'"

fun asks_for :: "ip \<Rightarrow> keffect \<Rightarrow> bool" where
  "asks_for dst (Netlink_unicast pid m) \<longleftrightarrow> ri_dst (rt_info_at (nl_data m)) = dst"
| "asks_for dst _ \<longleftrightarrow> False"

text \<open>The element stays in the queue, and what was asked for its destination stays the same.\<close>

definition stays :: "packet_queue_element \<Rightarrow> keffect list \<Rightarrow> kmod \<Rightarrow> bool" where
  "stays e asked k \<longleftrightarrow> kmod_inv k \<and> socket_of_netlink k \<and> (\<exists>h. my_queue_head k = Ptr h \<and> e \<in> set (qh_list h))
     \<and> filter (asks_for (el_dst_ip e)) (kouts k) = asked"

lemma stays_ask [keeps_intros]: "keeps (stays e asked) (ask f)"
  by (auto intro!: keepsI simp: ask_def stays_def)

lemma stays_kemit [keeps_intros]: "\<not> asks_for (el_dst_ip e) x \<Longrightarrow> keeps (stays e asked) (kemit x)"
  unfolding kemit_def by (rule keeps_upd) (simp add: stays_def)

lemma stays_receive:
  assumes "type = LOCAL \<or> type = OTHER" "sk_dst_dev skb = TUNNAME"
  shows "keeps (stays e asked) (receive_packet skb type)"
proof (rule keepsI)
  fix k r k' assume st: "stays e asked k" and run: "receive_packet skb type k = Inr (r, k')"
  then have inv: "kmod_inv k'" using runsD [OF runs_receive_packet [OF assms], of k] by (simp add: stays_def)
  show "stays e asked k'"
  proof (cases "transmission_flag k")
    case False
    with st run show ?thesis by (auto simp: receive_packet_def queue_run stays_def)
  next
    case True
    from st obtain h where h: "my_queue_head k = Ptr h" "e \<in> set (qh_list h)" by (auto simp: stays_def)
    with st have ok: "head_ok h" "socket_of_netlink k" by (auto simp: stays_def kmod_inv_def)
    obtain asks acc t where
      r: "receive_packet skb type k = Inr (0, k\<lparr>kticks := t,
       kouts := kouts k @ asks @ (if acc then [] else [Kfree_skb skb]),
       my_queue_head := Ptr (if acc then h\<lparr>qh_list := element_of skb type # qh_list h,
         qh_len := qh_len h + 1\<rparr> else h)\<rparr>)"
      and asks: "asks = [] \<or> waiting (sk_daddr skb) h = []
       \<and> (\<exists>junk pad. asks = [Netlink_unicast (user_pid k) (request_of skb type junk pad)])"
      by (rule receive_packet_run [OF True h(1) ok(2,1), of skb type])
    have "waiting (el_dst_ip e) h \<noteq> []" using h(2) by (auto simp: waiting_def filter_empty_conv)
    with asks have "filter (asks_for (el_dst_ip e)) asks = []" by (auto simp: request_read)
    with st run r h ok(2) inv show ?thesis by (auto simp: stays_def)
  qed
qed

lemma stays_check_packet: "keeps (stays e asked) (check_packet hookindex skb)"
  unfolding check_packet_def by (intro keeps_intros stays_receive) (auto simp: judgment_packet_def)

lemma stays_dequeue:
  assumes "dst \<noteq> el_dst_ip e"
  shows "keeps (stays e asked) (packet_dequeue (Some judge_ip) dst)"
proof (rule keepsI)
  fix k r k' assume st: "stays e asked k" and run: "packet_dequeue (Some judge_ip) dst k = Inr (r, k')"
  from keepsD [OF keeps_dequeue _ run] st have inv: "kmod_inv k'" by (simp add: stays_def)
  from st obtain h where h: "my_queue_head k = Ptr h" "e \<in> set (qh_list h)" by (auto simp: stays_def)
  show "stays e asked k'"
  proof (cases "waiting dst h")
    case Nil
    with st run dequeue_none [OF h(1)] show ?thesis by simp
  next
    case (Cons f fs)
    obtain l where l: "packet_dequeue (Some judge_ip) dst k =
        Inr (Some f, k\<lparr>my_queue_head := Ptr (h\<lparr>qh_list := l, qh_len := qh_len h - 1\<rparr>)\<rparr>)"
      "mset (qh_list h) = add_mset f (mset l)" "el_dst_ip f = dst"
      by (rule dequeue_some [OF h(1) Cons])
    have "set (qh_list h) = insert f (set l)" using l(2) by (metis set_mset_add_mset_insert set_mset_mset)
    with h(2) l(3) assms have "e \<in> set l" by auto
    with st run l(1) inv show ?thesis by (auto simp: stays_def)
  qed
qed

lemma stays_send_packet: "dst \<noteq> el_dst_ip e \<Longrightarrow> keeps (stays e asked) (send_packet n dst verdict)"
proof (induction n)
  case (Suc n)
  then show ?case
    unfolding send_packet_Suc release_def reroute_def ip_local_out_def
    by (intro keeps_intros stays_dequeue stays_check_packet) simp_all
qed (simp add: keeps_raise)

lemma stays_recv_msg:
  assumes "nl_type m = NLMSG_TYPE_INFO \<longrightarrow> rr_now_ip (rt_result_at (nl_data m)) \<noteq> el_dst_ip e"
  shows "keeps (stays e asked) (recv_msg fuel m)"
proof (cases "nl_type m = NLMSG_TYPE_INFO")
  case True
  with assms show ?thesis
    unfolding recv_msg_def deal_info_msg_def Let_def by (intro keeps_if stays_send_packet) simp_all
next
  case False
  then show ?thesis
    unfolding recv_msg_def deal_init_msg_def deal_exit_msg_def
    by (intro keeps_intros) (auto simp: stays_def kmod_inv_def)
qed

lemma stays_unanswered: "(unanswered (el_dst_ip e))\<^sup>*\<^sup>* k k' \<Longrightarrow> stays e asked k \<Longrightarrow> stays e asked k'"
proof (induction rule: rtranclp_induct)
  case (step k1 k2)
  from step.hyps(2) show ?case
  proof cases
    case packet
    then show ?thesis by (rule keepsD [OF stays_check_packet step.IH [OF step.prems]])
  next
    case (message m fuel)
    from message(2) show ?thesis by (rule keepsD [OF stays_recv_msg [OF message(1)] step.IH [OF step.prems]])
  qed
qed

lemma still_there:
  "(unanswered dst)\<^sup>*\<^sup>* k k' \<Longrightarrow> stays e asked k \<Longrightarrow> el_dst_ip e = dst \<Longrightarrow>
   (\<exists>h. my_queue_head k' = Ptr h \<and> e \<in> set (qh_list h)) \<and> filter (asks_for dst) (kouts k') = asked"
  using stays_unanswered [of e k k' asked] by (simp add: stays_def)

text \<open>
  C7. A request that the agent cannot hand to a daemon is lost for good: the agent drops it
  without an answer, and whatever then happens to the loaded module, packets of that destination and of others, answers for
  other destinations, or the library going and coming back, as long as no answer for the destination itself
  arrives the packet stays in the queue and the module does not ask for the destination again.
\<close>

theorem lost_request_never_repeated:
  assumes "kmod_inv k" "transmission_flag k" "my_queue_head k = Ptr h" "\<forall>n. k_alloc (kenv k) n"
    and "qh_len h < MAX_PACKET_NUMBER" "waiting (sk_daddr skb) h = []"
    and "sk_dst_dev skb = TUNNAME" "type = LOCAL \<or> type = OTHER"
    and "memory (aenv a)" "daemons a = []"
  shows "\<exists>k1 m a1. check_packet type skb k = Inr (NF_STOLEN, k1)
    \<and> kouts k1 = kouts k @ [Netlink_unicast (user_pid k) m] \<and> asks_for (sk_daddr skb) (Netlink_unicast (user_pid k) m)
    \<and> la_ods_message_handle (Some m) a = Inr ((), a1) \<and> aouts a1 = aouts a
    \<and> (\<forall>k2. (unanswered (sk_daddr skb))\<^sup>*\<^sup>* k1 k2 \<longrightarrow>
        (\<exists>h2. my_queue_head k2 = Ptr h2 \<and> element_of skb type \<in> set (qh_list h2))
        \<and> filter (asks_for (sk_daddr skb)) (kouts k2) = filter (asks_for (sk_daddr skb)) (kouts k1))"
proof -
  from packet_held [OF assms(1-8)] obtain t junk pad k1 where
    k1: "check_packet type skb k = Inr (NF_STOLEN, k1)"
      "kouts k1 = kouts k @ [Netlink_unicast (user_pid k) (request_of skb type junk pad)]"
      "my_queue_head k1 = Ptr (held skb type h)" "socket_of_netlink k1"
    using kmod_inv_queue [OF assms(1,2)] by auto
  from runsD [OF runs_check_packet assms(1), of type skb] k1(1) have inv: "kmod_inv k1" by simp
  from ods_message_run [OF assms(9), of "Some (request_of skb type junk pad)"] assms(10) obtain a1 where
    a1: "la_ods_message_handle (Some (request_of skb type junk pad)) a = Inr ((), a1)" "aouts a1 = aouts a"
    by (auto simp: Let_def)
  let ?e = "element_of skb type" and ?asked = "filter (asks_for (sk_daddr skb)) (kouts k1)"
  have dst: "el_dst_ip ?e = sk_daddr skb" by (simp add: element_of_def)
  have "stays ?e ?asked k1" using inv k1(3,4) by (simp add: stays_def dst)
  then have later: "\<forall>k2. (unanswered (sk_daddr skb))\<^sup>*\<^sup>* k1 k2 \<longrightarrow>
      (\<exists>h2. my_queue_head k2 = Ptr h2 \<and> ?e \<in> set (qh_list h2)) \<and> filter (asks_for (sk_daddr skb)) (kouts k2) = ?asked"
    using still_there [OF _ _ dst] by blast
  have asked: "asks_for (sk_daddr skb) (Netlink_unicast (user_pid k) (request_of skb type junk pad))"
    by (simp add: request_read)
  show ?thesis by (rule exI)+ (rule conjI [OF k1(1) conjI [OF k1(2) conjI [OF asked conjI [OF a1(1) conjI [OF a1(2) later]]]]])
qed

theorem lost_request_never_repeated_witness:
  "\<exists>k1 k2 h2. check_packet OTHER (tun_packet 3 7) holding = Inr (NF_STOLEN, k1) \<and> length (kouts k1) = 1
    \<and> check_packet LOCAL (tun_packet 4 7) k1 = Inr (NF_STOLEN, k2)
    \<and> my_queue_head k2 = Ptr h2 \<and> element_of (tun_packet 3 7) OTHER \<in> set (qh_list h2)
    \<and> filter (asks_for 7) (kouts k2) = kouts k1"
proof -
  have k: "kmod_inv holding" "transmission_flag holding" "my_queue_head holding = Ptr two_held"
      "\<forall>n. k_alloc (kenv holding) n" "qh_len two_held < MAX_PACKET_NUMBER"
      "waiting (sk_daddr (tun_packet 3 7)) two_held = []" "sk_dst_dev (tun_packet 3 7) = TUNNAME"
    by (rule holding_inv(1)) (simp_all add: kernel_fields waiting_def)
  have a: "memory (aenv idle_agent)" "daemons idle_agent = []" by (simp_all add: agent_fields)
  have o: "kouts holding = []" "sk_daddr (tun_packet 3 7) = 7" by (simp_all add: kernel_fields)
  from lost_request_never_repeated [OF k _ a, of OTHER] obtain k1 m where
    k1: "check_packet OTHER (tun_packet 3 7) holding = Inr (NF_STOLEN, k1)" "kouts k1 = [Netlink_unicast (user_pid holding) m]"
      "asks_for 7 (Netlink_unicast (user_pid holding) m)"
    and later: "\<forall>k2. (unanswered 7)\<^sup>*\<^sup>* k1 k2 \<longrightarrow> (\<exists>h2. my_queue_head k2 = Ptr h2 \<and> element_of (tun_packet 3 7) OTHER \<in> set (qh_list h2))
        \<and> filter (asks_for 7) (kouts k2) = filter (asks_for 7) (kouts k1)"
    unfolding o by auto
  have "kmod_inv k1" using runsD [OF runs_check_packet k(1), of OTHER "tun_packet 3 7"] k1(1) by simp
  from runsD [OF runs_check_packet this, of LOCAL "tun_packet 4 7"] obtain v k2 where
    k2: "check_packet LOCAL (tun_packet 4 7) k1 = Inr (v, k2)" by auto
  have "v = NF_STOLEN" using k2 by (auto simp: check_packet_def judgment_packet_def tun_packet_def sm_simps split: sum.splits)
  moreover have "(unanswered 7)\<^sup>*\<^sup>* k1 k2" using unanswered.packet [OF k2] by (rule r_into_rtranclp)
  ultimately show ?thesis using later k1 k2 by auto
qed

text \<open>
  C37. What the daemon learns from \<open>/proc/asl/route_check\<close>: with a reader of addresses that reads
  back what the module prints, and a cache with one entry for each address and flag, the idle
  time of a destination is the daemon's clock less the time of last use, as a signed 32-bit
  number, and \<open>-1\<close> for a destination that is not in the cache.
\<close>

theorem idle_time_from_cache:
  assumes "\<forall>a. aton (inet_ntoa a) = Some a"
    and "cached c l" "distinct (map fst l)" "read_route_cache_proc n 0 c = Inr ((k, text, pos), c')"
    and "proc_route_check (env s) (ticks s) = Some (proc_lines aton text)"
  shows "FO_query_route_idle_time dst f s =
    (case map_of l (dst, f) of
       None \<Rightarrow> Inr (- 1, s)
     | Some t \<Rightarrow> Inr (sint (ucast (clock (env s) (ticks s) - t) :: u32), s\<lparr>ticks := Suc (ticks s)\<rparr>))"
  using assms by (rule idle_time_of_cache)

theorem idle_time_from_cache_witness:
  "\<exists>k shown pos c'. read_route_cache_proc 200 0 two_used = Inr ((k, shown, pos), c')
    \<and> (let s = heard\<lparr>env := (quiet_env 1000)\<lparr>proc_route_check := \<lambda>_. Some (proc_lines inet_aton shown)\<rparr>\<rparr> in
        FO_query_route_idle_time 1 0 s = Inr (993, s\<lparr>ticks := Suc (ticks s)\<rparr>))"
proof -
  let ?old = "\<lparr>rc_dst_ip = 5, rc_last_use_time = 1000000, rc_valid_flag = 1, rc_next = None\<rparr>"
  let ?new = "\<lparr>rc_dst_ip = 1, rc_last_use_time = 7, rc_valid_flag = 0, rc_next = Some 0\<rparr>"
  have "length (cache_line ?old) = 21" "length (cache_line ?new) = 15"
    by (simp_all add: cache_line_def inet_ntoa_def ip_byte_def signed_decimal_def le32_def)
      (simp_all add: decimal.simps)
  then obtain k shown pos c' where r: "read_route_cache_proc 200 0 two_used = Inr ((k, shown, pos), c')"
    by (simp add: read_route_cache_proc_def rc_request_def at_def sm_simps two_used_def quiet_cache_def
        numeral_2_eq_2 cache_title_def Let_def)
  let ?s = "heard\<lparr>env := (quiet_env 1000)\<lparr>proc_route_check := \<lambda>_. Some (proc_lines inet_aton shown)\<rparr>\<rparr>"
  have "FO_query_route_idle_time 1 0 ?s = Inr (993, ?s\<lparr>ticks := Suc (ticks ?s)\<rparr>)"
    using idle_time_from_cache [OF _ cached_two_used _ r, of inet_aton ?s 1 0]
    by (simp add: inet.read_show quiet_env_def)
  with r show ?thesis by (auto simp: Let_def)
qed

end
