(* ===== verification/Path.thy ===== *)
theory Path
  imports Network Platform
begin

text \<open>
  Route discovery along a line of nodes of any length: the RREQ of an originator is passed on
  from node to node to its destination, and the RREP it sends takes the way back. Afterwards
  every node of the line has a route forward and a route back, over its neighbours in the line and
  with the hop counts of the line. By induction over the line, from the steps of \<open>Network\<close>.
\<close>

section \<open>Routes along a line\<close>

text \<open>
  Each node leads to \<open>dst\<close> over the node behind it in the list, the last one directly; and, the
  other way round, each leads to \<open>src\<close> over the node in front of it, the first one over \<open>h\<close>, where
  \<open>src\<close> is \<open>k\<close> hops from \<open>h\<close>. The time that a node's clock shows depends on the node.
\<close>

fun ahead :: "(ip \<Rightarrow> nat) \<Rightarrow> ip \<Rightarrow> node list \<Rightarrow> bool" where
  "ahead T dst [] \<longleftrightarrow> True"
| "ahead T dst (s # ss) \<longleftrightarrow>
     leads (T (g_my_ip s)) dst (case ss of [] \<Rightarrow> dst | t # _ \<Rightarrow> g_my_ip t) (Suc (length ss)) s \<and> ahead T dst ss"

fun behind :: "(ip \<Rightarrow> nat) \<Rightarrow> ip \<Rightarrow> ip \<Rightarrow> nat \<Rightarrow> node list \<Rightarrow> bool" where
  "behind T src h k [] \<longleftrightarrow> True"
| "behind T src h k (s # ss) \<longleftrightarrow>
     leads (T (g_my_ip s)) src h (Suc k) s \<and> behind T src (g_my_ip s) (Suc k) ss"

text \<open>On the way back: the only node known to use the route to \<open>dst\<close> is the next one, the last one's is \<open>src\<close>.\<close>

fun used_by :: "ip \<Rightarrow> ip \<Rightarrow> node list \<Rightarrow> bool" where
  "used_by dst src [] \<longleftrightarrow> True"
| "used_by dst src (s # ss) \<longleftrightarrow>
     precursors dst s = Some [case ss of [] \<Rightarrow> src | t # _ \<Rightarrow> g_my_ip t] \<and> used_by dst src ss"

lemma behind_snoc:
  "behind T src h k (ss @ [s]) \<longleftrightarrow> behind T src h k ss
     \<and> leads (T (g_my_ip s)) src (last (h # map g_my_ip ss)) (Suc (k + length ss)) s"
  by (induction ss arbitrary: h k) auto

lemma ahead_rev: "behind T src src 0 ss \<Longrightarrow> ahead T src (rev ss)"
proof (induction ss rule: rev_induct)
  case (snoc s ss)
  have "(case rev ss of [] \<Rightarrow> src | t # _ \<Rightarrow> g_my_ip t) = last (src # map g_my_ip ss)"
    by (cases ss rule: rev_cases) auto
  with snoc show ?case by (simp add: behind_snoc)
qed simp

section \<open>The RREQ on its way\<close>

text \<open>
  What a node between originator and destination brings along: the RREQ is new to it, it has no
  route to the destination, and none to the originator that is as recent as the RREQ.
\<close>

definition stale :: "ip \<Rightarrow> u32 \<Rightarrow> node \<Rightarrow> bool" where
  "stale src seq s \<longleftrightarrow> (case map_of (rTableMap s) src of None \<Rightarrow> True
     | Some e \<Rightarrow> rt_routing_flags e = ACTIVE_ROUTE \<longrightarrow> rt_dest_seq_num e < seq)"

definition joins :: "(ip \<Rightarrow> nat) \<Rightarrow> RREQ \<Rightarrow> node \<Rightarrow> bool" where
  "joins T q s \<longleftrightarrow> fit (T (g_my_ip s)) s \<and> \<not> known_rreq q s \<and> stale (rq_src_ip q) (rq_src_seq_num q) s"

lemma joins_takes:
  assumes "joins T q s" "g_my_ip s \<noteq> h" "rq_src_ip q \<noteq> g_my_ip s" "rq_src_ip q = h \<longrightarrow> rq_hop_cnt q = 0"
  shows "takes (T (g_my_ip s)) h q s"
  using assms by (auto simp: joins_def takes_def stale_def is_news_def newer_def word_less_nat_alt split: option.splits)

lemma joins_hop [simp]: "joins T (q\<lparr>rq_hop_cnt := n\<rparr>) s = joins T q s"
  by (simp add: joins_def known_rreq_def)

lemma plain_RREQ_hop [simp]: "plain_RREQ (q\<lparr>rq_hop_cnt := n\<rparr>) = plain_RREQ q"
proof -
  have "RREQ_copy (q\<lparr>rq_hop_cnt := n\<rparr>) = (RREQ_copy q)\<lparr>rq_hop_cnt := n\<rparr>" by (simp add: RREQ_copy_def)
  then show ?thesis by (cases q) (auto simp: plain_RREQ_def RREQ_copy_def)
qed

lemma plain_RREP_hop [simp]: "plain_RREP (p\<lparr>rp_hop_cnt := n\<rparr>) = plain_RREP p"
  by (cases p) (auto simp: plain_RREP_def RREP_copy_def)

lemma request_pass:
  assumes q: "plain_RREQ q" "rq_dest_ip q = g_my_ip d" "unat (rq_hop_cnt q) + length ss < 35"
    and h: "rq_src_ip q = h \<longrightarrow> rq_hop_cnt q = 0" "h \<noteq> 0" "0 \<notin> g_my_ip ` set ss"
    and line: "distinct (h # map g_my_ip (ss @ [d]))" "rq_src_ip q \<notin> g_my_ip ` set (ss @ [d])"
    and nodes: "\<forall>s \<in> set (ss @ [d]). joins T q s" "\<forall>s \<in> set ss. map_of (rTableMap s) (rq_dest_ip q) = None"
    and ttl: "int (length ss) < ttl" "ttl \<le> 256"
  shows "\<exists>ss' d' n t. relay (Some (carried h ttl BROADCAST_ADDR (RREQ_bytes q))) (ss @ [d])
        = Inr (Some (carried (g_my_ip d) t (last (h # map g_my_ip ss))
            (RREP_bytes (RREP_new (g_my_ip d) n (rq_src_ip q) 0 30000))), ss' @ [d'])
    \<and> map config ss' = map config ss \<and> config d' = config d \<and> fit (T (g_my_ip d)) d'
    \<and> behind T (rq_src_ip q) h (unat (rq_hop_cnt q)) (ss' @ [d'])
    \<and> (\<forall>s \<in> set ss'. fit (T (g_my_ip s)) s \<and> map_of (rTableMap s) (rq_dest_ip q) = None)"
  using assms
proof (induction ss arbitrary: h q ttl)
  case Nil
  from Nil have "takes (T (g_my_ip d)) h q d" by (intro joins_takes) auto
  from answer_request [OF this, of ttl BROADCAST_ADDR] Nil obtain d' n where
    "process_aodv (carried h ttl BROADCAST_ADDR (RREQ_bytes q)) d = Inr ((), d')" "config d' = config d" "fit (T (g_my_ip d)) d'"
    "leads (T (g_my_ip d)) (rq_src_ip q) h (Suc (unat (rq_hop_cnt q))) d'"
    "dispatched d d' = Some (carried (g_my_ip d) (socket_ttl (outs d')) h
        (RREP_bytes (RREP_new (g_my_ip d) n (rq_src_ip q) 0 30000)))"
    by auto
  then show ?case
    by (intro exI [of _ "[]"] exI [of _ d'] exI [of _ n] exI [of _ "socket_ttl (outs d')"])
      (simp add: config_fields [of d' d])
next
  case (Cons s ss)
  let ?q = "q\<lparr>rq_hop_cnt := rq_hop_cnt q + 1\<rparr>"
  have take: "takes (T (g_my_ip s)) h q s" using Cons.prems by (intro joins_takes) auto
  have dst: "rq_dest_ip q \<noteq> g_my_ip s" "rq_dest_ip q \<noteq> h" "rq_dest_ip q \<noteq> rq_src_ip q"
    "map_of (rTableMap s) (rq_dest_ip q) = None" "unat (rq_hop_cnt q) < 35" "1 < ttl"
    using Cons.prems by auto
  from forward_request [OF take Cons.prems(1) dst(5) dst(1-4) dst(6) Cons.prems(12), of BROADCAST_ADDR] obtain s' where
    s': "process_aodv (carried h ttl BROADCAST_ADDR (RREQ_bytes q)) s = Inr ((), s')" "fit (T (g_my_ip s)) s'"
      "config s' = config s" "leads (T (g_my_ip s)) (rq_src_ip q) h (Suc (unat (rq_hop_cnt q))) s'"
      "map_of (rTableMap s') (rq_dest_ip q) = None"
      "dispatched s s' = Some (carried (g_my_ip s) (ttl - 1) BROADCAST_ADDR (RREQ_bytes ?q))"
    by blast
  have hops: "unat (rq_hop_cnt q + 1) = Suc (unat (rq_hop_cnt q))" using dst(5) by (intro hop_Suc) simp
  have "\<exists>ss' d' n t. relay (Some (carried (g_my_ip s) (ttl - 1) BROADCAST_ADDR (RREQ_bytes ?q))) (ss @ [d])
        = Inr (Some (carried (g_my_ip d) t (last (g_my_ip s # map g_my_ip ss))
            (RREP_bytes (RREP_new (g_my_ip d) n (rq_src_ip ?q) 0 30000))), ss' @ [d'])
    \<and> map config ss' = map config ss \<and> config d' = config d \<and> fit (T (g_my_ip d)) d'
    \<and> behind T (rq_src_ip ?q) (g_my_ip s) (unat (rq_hop_cnt ?q)) (ss' @ [d'])
    \<and> (\<forall>s \<in> set ss'. fit (T (g_my_ip s)) s \<and> map_of (rTableMap s) (rq_dest_ip ?q) = None)"
    by (rule Cons.IH) (use Cons.prems in \<open>auto simp: hops\<close>)
  then obtain ss' d' n t where r: "relay (Some (carried (g_my_ip s) (ttl - 1) BROADCAST_ADDR (RREQ_bytes ?q))) (ss @ [d])
        = Inr (Some (carried (g_my_ip d) t (last (g_my_ip s # map g_my_ip ss))
            (RREP_bytes (RREP_new (g_my_ip d) n (rq_src_ip q) 0 30000))), ss' @ [d'])"
      "map config ss' = map config ss" "config d' = config d" "fit (T (g_my_ip d)) d'"
      "behind T (rq_src_ip q) (g_my_ip s) (Suc (unat (rq_hop_cnt q))) (ss' @ [d'])"
      "\<forall>s \<in> set ss'. fit (T (g_my_ip s)) s \<and> map_of (rTableMap s) (rq_dest_ip q) = None"
    by (auto simp: hops)
  have "g_my_ip s' = g_my_ip s" using config_fields [OF s'(3)] by simp
  with s' r show ?case
    by (intro exI [of _ "s' # ss'"] exI [of _ d'] exI [of _ n] exI [of _ t]) simp
qed

section \<open>The RREP on its way back\<close>

lemma reply_pass:
  assumes p: "plain_RREP p" "rp_src_ip p = g_my_ip o'" "rp_src_ip p \<noteq> rp_dest_ip p"
      "unat (rp_hop_cnt p) + length ss < 255" "rp_dest_ip p = h \<longrightarrow> rp_hop_cnt p = 0"
    and line: "distinct (h # map g_my_ip (ss @ [o']))" "0 \<notin> g_my_ip ` set (ss @ [o'])"
    and nodes: "\<forall>s \<in> set (ss @ [o']). fit (T (g_my_ip s)) s \<and> map_of (rTableMap s) (rp_dest_ip p) = None"
      "rp_dest_ip p \<notin> g_my_ip ` set (ss @ [o'])" "ahead T (rp_src_ip p) ss"
  shows "\<exists>d ss' o''. relay (Some (carried h ttl (g_my_ip (hd (ss @ [o']))) (RREP_bytes p))) (ss @ [o'])
        = Inr (d, ss' @ [o'']) \<and> map config ss' = map config ss \<and> config o'' = config o'
    \<and> behind T (rp_dest_ip p) h (unat (rp_hop_cnt p)) (ss' @ [o'']) \<and> ahead T (rp_src_ip p) ss'
    \<and> used_by (rp_dest_ip p) (rp_src_ip p) ss' \<and> announced (rp_dest_ip p) (last (h # map g_my_ip ss)) o''
    \<and> (\<forall>s \<in> set (ss' @ [o'']). fit (T (g_my_ip s)) s)"
  using assms
proof (induction ss arbitrary: h p ttl)
  case Nil
  then have "takes_reply (T (g_my_ip o')) h p o'" by (intro takes_reply_new) auto
  from receive_reply [OF this, of ttl "g_my_ip o'"] Nil obtain o'' where
    "process_aodv (carried h ttl (g_my_ip o') (RREP_bytes p)) o' = Inr ((), o'')" "config o'' = config o'"
    "leads (T (g_my_ip o')) (rp_dest_ip p) h (Suc (unat (rp_hop_cnt p))) o''" "announced (rp_dest_ip p) h o''"
    "fit (T (g_my_ip o')) o''"
    by auto
  then show ?case
    by (intro exI [of _ "dispatched o' o''"] exI [of _ "[]"] exI [of _ o'']) (simp add: config_fields [of o'' o'])
next
  case (Cons s ss)
  let ?p = "p\<lparr>rp_hop_cnt := rp_hop_cnt p + 1\<rparr>" and ?g = "g_my_ip (hd (ss @ [o']))"
  have take: "takes_reply (T (g_my_ip s)) h p s" "map_of (rTableMap s) (rp_dest_ip p) = None"
    using Cons.prems by (auto intro: takes_reply_new)
  have g: "(case ss of [] \<Rightarrow> rp_src_ip p | t # _ \<Rightarrow> g_my_ip t) = ?g"
    using Cons.prems(2) by (cases ss) simp_all
  have lead: "leads (T (g_my_ip s)) (rp_src_ip p) ?g (Suc (length ss)) s" using Cons.prems(10) by (simp add: g)
  have "?g \<noteq> 0" using Cons.prems(7) by (cases ss) auto
  moreover have "rp_src_ip p \<noteq> g_my_ip s" "rp_src_ip p \<noteq> 0" "rp_src_ip p \<noteq> h" "unat (rp_hop_cnt p) < 255"
    using Cons.prems(2,4,6,7) by auto
  ultimately obtain s' where
    s': "process_aodv (carried h ttl (g_my_ip s) (RREP_bytes p)) s = Inr ((), s')" "fit (T (g_my_ip s)) s'"
      "config s' = config s" "leads (T (g_my_ip s)) (rp_dest_ip p) h (Suc (unat (rp_hop_cnt p))) s'"
      "leads (T (g_my_ip s)) (rp_src_ip p) ?g (Suc (length ss)) s'" "precursors (rp_dest_ip p) s' = Some [?g]"
      "dispatched s s' = Some (carried (g_my_ip s) (socket_ttl (outs s')) ?g (RREP_bytes ?p))"
    using forward_reply [OF take(1) Cons.prems(1) _ take(2) _ _ _ Cons.prems(3) lead, of ttl "g_my_ip s"] by blast
  have hops: "unat (rp_hop_cnt p + 1) = Suc (unat (rp_hop_cnt p))" using Cons.prems(4) by (intro hop_Suc) simp
  have "\<exists>d ss' o''. relay (Some (carried (g_my_ip s) (socket_ttl (outs s')) ?g (RREP_bytes ?p))) (ss @ [o'])
        = Inr (d, ss' @ [o'']) \<and> map config ss' = map config ss \<and> config o'' = config o'
    \<and> behind T (rp_dest_ip ?p) (g_my_ip s) (unat (rp_hop_cnt ?p)) (ss' @ [o'']) \<and> ahead T (rp_src_ip ?p) ss'
    \<and> used_by (rp_dest_ip ?p) (rp_src_ip ?p) ss' \<and> announced (rp_dest_ip ?p) (last (g_my_ip s # map g_my_ip ss)) o''
    \<and> (\<forall>s \<in> set (ss' @ [o'']). fit (T (g_my_ip s)) s)"
    by (rule Cons.IH) (use Cons.prems in \<open>auto simp: hops\<close>)
  then obtain d ss' o'' where r:
      "relay (Some (carried (g_my_ip s) (socket_ttl (outs s')) ?g (RREP_bytes ?p))) (ss @ [o']) = Inr (d, ss' @ [o''])"
      "map config ss' = map config ss" "config o'' = config o'"
      "behind T (rp_dest_ip p) (g_my_ip s) (Suc (unat (rp_hop_cnt p))) (ss' @ [o''])" "ahead T (rp_src_ip p) ss'"
      "used_by (rp_dest_ip p) (rp_src_ip p) ss'"
      "announced (rp_dest_ip p) (last (g_my_ip s # map g_my_ip ss)) o''" "\<forall>s \<in> set (ss' @ [o'']). fit (T (g_my_ip s)) s"
    by (auto simp: hops)
  have ips: "map g_my_ip ss' = map g_my_ip ss" "g_my_ip s' = g_my_ip s" "length ss' = length ss"
    using r(2) config_fields [OF s'(3)] by (auto simp: list_eq_iff_nth_eq config_def dest: map_eq_imp_length_eq)
  have "(case ss' of [] \<Rightarrow> rp_src_ip p | t # _ \<Rightarrow> g_my_ip t) = ?g"
    using ips(1) g by (cases ss; cases ss') auto
  with s' r ips have "ahead T (rp_src_ip p) (s' # ss')" "behind T (rp_dest_ip p) h (unat (rp_hop_cnt p)) ((s' # ss') @ [o''])"
      "used_by (rp_dest_ip p) (rp_src_ip p) (s' # ss')" "fit (T (g_my_ip s')) s'"
    by simp_all
  with s' r show ?case
    by (intro exI [of _ d] exI [of _ "s' # ss'"] exI [of _ o'']) simp
qed

lemma map_config_ips: "map config ss' = map config ss \<Longrightarrow> map g_my_ip ss' = map g_my_ip ss"
  by (auto simp: list_eq_iff_nth_eq config_def dest: map_eq_imp_length_eq)

lemma discovery_line:
  assumes q: "plain_RREQ q" "rq_hop_cnt q = 0" "rq_src_ip q = g_my_ip o'" "rq_dest_ip q = g_my_ip d"
    and line: "distinct (map g_my_ip (o' # ss @ [d]))" "0 \<notin> g_my_ip ` set (o' # ss @ [d])"
    and nodes: "\<forall>s \<in> set (ss @ [d]). joins T q s" "fit (T (g_my_ip o')) o'"
      "\<forall>s \<in> set (o' # ss). map_of (rTableMap s) (g_my_ip d) = None"
    and ttl: "int (length ss) < ttl" "ttl \<le> 256" "length ss < 35"
  shows "\<exists>reply ss' d' ss'' o'' end'.
      relay (Some (carried (g_my_ip o') ttl BROADCAST_ADDR (RREQ_bytes q))) (ss @ [d]) = Inr (Some reply, ss' @ [d'])
    \<and> relay (Some reply) (rev ss' @ [o']) = Inr (end', rev ss'' @ [o''])
    \<and> map config ss'' = map config ss \<and> config d' = config d \<and> config o'' = config o'
    \<and> ahead T (g_my_ip d) (o'' # ss'') \<and> ahead T (g_my_ip o') (d' # rev ss'')
    \<and> used_by (g_my_ip d) (g_my_ip o') (rev ss'') \<and> announced (g_my_ip d) (g_my_ip (hd (ss @ [d]))) o''
    \<and> (\<forall>s \<in> set (o'' # ss'' @ [d']). fit (T (g_my_ip s)) s)"
proof -
  let ?src = "g_my_ip o'" and ?dst = "g_my_ip d"
  have "\<exists>ss' d' n t. relay (Some (carried ?src ttl BROADCAST_ADDR (RREQ_bytes q))) (ss @ [d])
        = Inr (Some (carried ?dst t (last (?src # map g_my_ip ss))
            (RREP_bytes (RREP_new ?dst n (rq_src_ip q) 0 30000))), ss' @ [d'])
    \<and> map config ss' = map config ss \<and> config d' = config d \<and> fit (T (g_my_ip d)) d'
    \<and> behind T (rq_src_ip q) ?src (unat (rq_hop_cnt q)) (ss' @ [d'])
    \<and> (\<forall>s \<in> set ss'. fit (T (g_my_ip s)) s \<and> map_of (rTableMap s) (rq_dest_ip q) = None)"
    by (rule request_pass) (use assms in auto)
  then obtain ss' d' n t where r:
      "relay (Some (carried ?src ttl BROADCAST_ADDR (RREQ_bytes q))) (ss @ [d])
        = Inr (Some (carried ?dst t (last (?src # map g_my_ip ss)) (RREP_bytes (RREP_new ?dst n ?src 0 30000))), ss' @ [d'])"
      "map config ss' = map config ss" "config d' = config d" "fit (T ?dst) d'" "behind T ?src ?src 0 (ss' @ [d'])"
      "\<forall>s \<in> set ss'. fit (T (g_my_ip s)) s \<and> map_of (rTableMap s) ?dst = None"
    using q by auto
  let ?p = "RREP_new ?dst n ?src 0 30000"
  have p: "plain_RREP ?p" "rp_dest_ip ?p = ?dst" "rp_src_ip ?p = ?src" "rp_hop_cnt ?p = 0"
    by (simp_all add: plain_RREP_def RREP_new_def RREP_copy_def)
  note ips = map_config_ips [OF r(2)]
  then have len: "length ss' = length ss" and set_ips: "g_my_ip ` set ss' = g_my_ip ` set ss"
    by (metis length_map) (metis ips list.set_map)
  have homeward: "ahead T ?src (rev (ss' @ [d']))" by (rule ahead_rev [OF r(5)])
  have first_hop: "last (?src # map g_my_ip ss) = g_my_ip (hd (rev ss' @ [o']))"
    unfolding ips [symmetric] by (cases ss' rule: rev_cases) auto
  have rev_ips: "map g_my_ip (rev ss') = rev (map g_my_ip ss)" by (simp add: rev_map [symmetric] ips)
  have "\<exists>e us o''. relay (Some (carried ?dst t (g_my_ip (hd (rev ss' @ [o']))) (RREP_bytes ?p))) (rev ss' @ [o'])
        = Inr (e, us @ [o'']) \<and> map config us = map config (rev ss') \<and> config o'' = config o'
    \<and> behind T (rp_dest_ip ?p) ?dst (unat (rp_hop_cnt ?p)) (us @ [o'']) \<and> ahead T (rp_src_ip ?p) us
    \<and> used_by (rp_dest_ip ?p) (rp_src_ip ?p) us \<and> announced (rp_dest_ip ?p) (last (?dst # map g_my_ip (rev ss'))) o''
    \<and> (\<forall>s \<in> set (us @ [o'']). fit (T (g_my_ip s)) s)"
  proof (rule reply_pass)
    show "distinct (?dst # map g_my_ip (rev ss' @ [o']))" using line(1) by (simp add: rev_ips set_ips) auto
    show "\<forall>s \<in> set (rev ss' @ [o']). fit (T (g_my_ip s)) s \<and> map_of (rTableMap s) (rp_dest_ip ?p) = None"
      using r(6) nodes(2,3) p(2) by auto
  qed (use assms r p homeward len in \<open>auto simp: set_ips\<close>)
  then obtain e us o'' where u: "relay (Some (carried ?dst t (last (?src # map g_my_ip ss)) (RREP_bytes ?p))) (rev ss' @ [o'])
        = Inr (e, us @ [o''])" "map config us = map config (rev ss')" "config o'' = config o'"
      "behind T ?dst ?dst 0 (us @ [o''])" "ahead T ?src us" "used_by ?dst ?src us" "announced ?dst (last (?dst # map g_my_ip (rev ss'))) o''"
      "\<forall>s \<in> set (us @ [o'']). fit (T (g_my_ip s)) s"
    unfolding first_hop p by auto
  have ups: "map g_my_ip us = rev (map g_my_ip ss)" using map_config_ips [OF u(2)] by (simp add: rev_ips)
  then have ulen: "length us = length ss" by (metis length_map length_rev)
  have cfg: "map config (rev us) = map config ss" using u(2) r(2) by (metis rev_map rev_rev_ident)
  have fwd: "ahead T ?dst (o'' # rev us)" using ahead_rev [OF u(4)] by simp
  have same: "(case us of [] \<Rightarrow> ?src | t # _ \<Rightarrow> g_my_ip t) = (case rev ss' of [] \<Rightarrow> ?src | t # _ \<Rightarrow> g_my_ip t)"
    using arg_cong [OF trans [OF ups rev_ips [symmetric]], of hd] ulen len by (cases us; cases "rev ss'") auto
  have bwd: "ahead T ?src (d' # us)" using homeward u(5) ulen len by (simp add: same)
  have hd: "last (?dst # map g_my_ip (rev ss')) = g_my_ip (hd (ss @ [d]))"
    unfolding rev_ips by (cases ss) auto
  have "g_my_ip d' = ?dst" using config_fields [OF r(3)] by simp
  with r(1,3,4) u cfg fwd bwd show ?thesis
    unfolding hd by (intro exI [of _ "carried ?dst t (last (?src # map g_my_ip ss)) (RREP_bytes ?p)"]
        exI [of _ ss'] exI [of _ d'] exI [of _ "rev us"] exI [of _ o''] exI [of _ e]) simp
qed

section \<open>With the agent and the kernel module\<close>

text \<open>A line of three nodes at the addresses 1, 5 and 9: the first asks for the last.\<close>

definition resting :: "ip \<Rightarrow> node" where
  "resting a = awake\<lparr>g_my_ip := a, rTableMap := [], env := quiet_env 17000\<rparr>"

definition searching :: node where
  "searching = (resting 1)\<lparr>rreq_list := [\<lparr>pe_rreqOb = own_rreq, pe_retries = 0, pe_ttl = 3\<rparr>]\<rparr>"

lemma resting_fit: "fit 17000 (resting a)" "fit 17000 searching"
proof -
  have "safe_wf awake" by (rule safe_wf_reach [OF reach_noack_awake]) (simp add: state_fields)
  then show "fit 17000 (resting a)" "fit 17000 searching"
    by (simp_all add: fit_def calm_def safe_wf_def safe_def ack_free_def searching_def resting_def)
      (simp_all add: awake_def)
qed

lemma resting_joins: "joins (\<lambda>_. 17000) own_rreq (resting a)"
  using resting_fit(1) [of a]
  by (simp add: joins_def stale_def known_rreq_def own_rreq_def resting_def state_fields)

text \<open>
  C1. Route discovery finds its route. An RREQ of \<open>o'\<close> for \<open>d\<close> goes from node to node along a line
  of up to 34 nodes in between that do not know it, \<open>d\<close> answers, and the RREP comes back over the
  same nodes: no handler faults, every message reaches the node it is meant for, and in the end each
  node of the line has an active route to either end, over its neighbours in the line and with the
  right number of hops; a node in between knows one node that uses its route to \<open>d\<close>, the one before it; \<open>o'\<close> has installed the route in its kernel and then told its agent. The nodes
  are of the kind that does not fault (\<open>safe_wf\<close>), and their clocks advance by less than two and
  a half seconds, the time for which a route to a neighbour is sure to live.
\<close>

theorem route_discovery_along_line:
  assumes "plain_RREQ q" "rq_hop_cnt q = 0" "rq_src_ip q = g_my_ip o'" "rq_dest_ip q = g_my_ip d"
    and "distinct (map g_my_ip (o' # ss @ [d]))" "0 \<notin> g_my_ip ` set (o' # ss @ [d])"
    and "\<forall>s \<in> set (ss @ [d]). joins T q s" "fit (T (g_my_ip o')) o'"
      "\<forall>s \<in> set (o' # ss). map_of (rTableMap s) (g_my_ip d) = None"
    and "int (length ss) < ttl" "ttl \<le> 256" "length ss < 35"
  shows "\<exists>reply ss' d' ss'' o'' end'.
      relay (Some (carried (g_my_ip o') ttl BROADCAST_ADDR (RREQ_bytes q))) (ss @ [d]) = Inr (Some reply, ss' @ [d'])
    \<and> relay (Some reply) (rev ss' @ [o']) = Inr (end', rev ss'' @ [o''])
    \<and> map config ss'' = map config ss \<and> config d' = config d \<and> config o'' = config o'
    \<and> ahead T (g_my_ip d) (o'' # ss'') \<and> ahead T (g_my_ip o') (d' # rev ss'')
    \<and> used_by (g_my_ip d) (g_my_ip o') (rev ss'') \<and> announced (g_my_ip d) (g_my_ip (hd (ss @ [d]))) o''
    \<and> (\<forall>s \<in> set (o'' # ss'' @ [d']). fit (T (g_my_ip s)) s)"
  using assms by (rule discovery_line)

theorem route_discovery_along_line_witness:
  "\<exists>reply s' d' end' s'' o''.
      relay (Some (carried 1 3 BROADCAST_ADDR (RREQ_bytes own_rreq))) [resting 5, resting 9] = Inr (Some reply, [s', d'])
    \<and> relay (Some reply) [s', searching] = Inr (end', [s'', o''])
    \<and> leads 17000 9 5 2 o'' \<and> leads 17000 9 9 1 s'' \<and> leads 17000 1 1 1 s'' \<and> leads 17000 1 5 2 d'
    \<and> precursors 9 s'' = Some [1]"
proof -
  have ip: "g_my_ip searching = 1" "g_my_ip (resting a) = a" "rTableMap searching = []" "rTableMap (resting a) = []" for a
    by (simp_all add: searching_def resting_def)
  have q: "plain_RREQ own_rreq" "rq_hop_cnt own_rreq = 0" "rq_src_ip own_rreq = 1" "rq_dest_ip own_rreq = 9"
    by (simp_all add: own_rreq_def plain_RREQ_def RREQ_copy_def)
  from route_discovery_along_line [of own_rreq searching "resting 9" "[resting 5]" "\<lambda>_. 17000" 3]
  obtain reply ss' d' ss'' o'' end' where r:
      "relay (Some (carried 1 3 BROADCAST_ADDR (RREQ_bytes own_rreq))) [resting 5, resting 9] = Inr (Some reply, ss' @ [d'])"
      "relay (Some reply) (rev ss' @ [searching]) = Inr (end', rev ss'' @ [o''])"
      "map config ss'' = [config (resting 5)]" "ahead (\<lambda>_. 17000) 9 (o'' # ss'')" "ahead (\<lambda>_. 17000) 1 (d' # rev ss'')"
      "used_by 9 1 (rev ss'')"
    by (auto simp: ip q resting_fit resting_joins)
  from r(3) obtain s'' where s'': "ss'' = [s'']" "g_my_ip s'' = 5" by (auto simp: config_def ip)
  have "length (ss' @ [d']) = 2" using relay_length [OF r(1)] by simp
  then obtain s' where "ss' = [s']" by (cases ss') auto
  with r s'' show ?thesis by (auto simp: numeral_2_eq_2)
qed

lemma announced_release:
  assumes "announced dst g o''"
    and "memory (aenv a)" "kmod_inv k" "my_queue_head k = Ptr h" "routed (kenv k) dst dev" "dev \<noteq> TUNNAME"
  shows "\<exists>bytes a1 ans k1. La_send bytes \<in> set (outs o'')
    \<and> la_serv_handle_message fd bytes a = Inr (0, a1) \<and> aouts a1 = aouts a @ [Netlink_send (nlfd a) ans]
    \<and> recv_msg 1001 ans k = Inr ((), k1) \<and> my_queue_head k1 = Ptr (without dst h)
    \<and> kouts k1 = kouts k @ map (\<lambda>e. Xmit ((el_skb e)\<lparr>sk_dst_dev := dev\<rparr>)) (waiting dst h)"
proof -
  let ?bytes = "LAMessage_generate_stream (daemon_reply dst IP_FOUND)"
  have told: "La_send ?bytes \<in> set (outs o'')" using assms(1) by (auto simp: announced_def)
  from agent_replies [OF assms(2), of fd dst IP_FOUND] obtain a1 where
    a1: "la_serv_handle_message fd ?bytes a = Inr (0, a1)"
      "aouts a1 = aouts a @ [Netlink_send (nlfd a) (kernel_reply a dst IP_FOUND)]" by blast
  from route_found_run [OF assms(3,4) _ kernel_reply_read(1) kernel_reply_read(2) [of a dst IP_FOUND] assms(5,6), of 1001]
  obtain k1 where
    "recv_msg 1001 (kernel_reply a dst IP_FOUND) k = Inr ((), k1)" "my_queue_head k1 = Ptr (without dst h)"
    "kouts k1 = kouts k @ map (\<lambda>e. Xmit ((el_skb e)\<lparr>sk_dst_dev := dev\<rparr>)) (waiting dst h)"
    by auto
  with told a1 show ?thesis by blast
qed

text \<open>
  What route discovery is for: after it, the reply that the originator gives its agent goes to
  the kernel module, which sends every packet that waited for the destination over the new route,
  oldest first, and keeps the others.
\<close>

theorem discovered_route_releases_packets:
  assumes "plain_RREQ q" "rq_hop_cnt q = 0" "rq_src_ip q = g_my_ip o'" "rq_dest_ip q = g_my_ip d"
    and "distinct (map g_my_ip (o' # ss @ [d]))" "0 \<notin> g_my_ip ` set (o' # ss @ [d])"
    and "\<forall>s \<in> set (ss @ [d]). joins T q s" "fit (T (g_my_ip o')) o'"
      "\<forall>s \<in> set (o' # ss). map_of (rTableMap s) (g_my_ip d) = None"
    and "int (length ss) < ttl" "ttl \<le> 256" "length ss < 35"
    and "memory (aenv a)" "kmod_inv k" "my_queue_head k = Ptr h" "routed (kenv k) (g_my_ip d) dev" "dev \<noteq> TUNNAME"
  shows "\<exists>reply ss' d' ss'' o'' end' bytes a1 ans k1.
      relay (Some (carried (g_my_ip o') ttl BROADCAST_ADDR (RREQ_bytes q))) (ss @ [d]) = Inr (Some reply, ss' @ [d'])
    \<and> relay (Some reply) (rev ss' @ [o']) = Inr (end', ss'' @ [o''])
    \<and> La_send bytes \<in> set (outs o'')
    \<and> la_serv_handle_message fd bytes a = Inr (0, a1) \<and> aouts a1 = aouts a @ [Netlink_send (nlfd a) ans]
    \<and> recv_msg 1001 ans k = Inr ((), k1) \<and> my_queue_head k1 = Ptr (without (g_my_ip d) h)
    \<and> kouts k1 = kouts k @ map (\<lambda>e. Xmit ((el_skb e)\<lparr>sk_dst_dev := dev\<rparr>)) (waiting (g_my_ip d) h)"
proof -
  from discovery_line [OF assms(1-12)] obtain reply ss' d' ss'' o'' end' where r:
      "relay (Some (carried (g_my_ip o') ttl BROADCAST_ADDR (RREQ_bytes q))) (ss @ [d]) = Inr (Some reply, ss' @ [d'])"
      "relay (Some reply) (rev ss' @ [o']) = Inr (end', rev ss'' @ [o''])"
      "announced (g_my_ip d) (g_my_ip (hd (ss @ [d]))) o''"
    by blast
  from announced_release [OF r(3) assms(13-17)] obtain bytes a1 ans k1 where
    "La_send bytes \<in> set (outs o'')" "la_serv_handle_message fd bytes a = Inr (0, a1)"
    "aouts a1 = aouts a @ [Netlink_send (nlfd a) ans]" "recv_msg 1001 ans k = Inr ((), k1)"
    "my_queue_head k1 = Ptr (without (g_my_ip d) h)"
    "kouts k1 = kouts k @ map (\<lambda>e. Xmit ((el_skb e)\<lparr>sk_dst_dev := dev\<rparr>)) (waiting (g_my_ip d) h)"
    by blast
  with r(1,2) show ?thesis by blast
qed

theorem discovered_route_releases_packets_witness:
  "\<exists>reply s' d' s'' o'' end' bytes a1 ans k1.
      relay (Some (carried 1 3 BROADCAST_ADDR (RREQ_bytes own_rreq))) [resting 5, resting 9] = Inr (Some reply, [s', d'])
    \<and> relay (Some reply) [s', searching] = Inr (end', [s'', o'']) \<and> La_send bytes \<in> set (outs o'')
    \<and> la_serv_handle_message 7 bytes one_daemon = Inr (0, a1) \<and> aouts a1 = aouts one_daemon @ [Netlink_send 5 ans]
    \<and> recv_msg 1001 ans holding = Inr ((), k1) \<and> kouts k1 = [Xmit ((tun_packet 2 9)\<lparr>sk_dst_dev := ''wlan0''\<rparr>)]"
proof -
  have ip: "g_my_ip searching = 1" "g_my_ip (resting a) = a" "rTableMap searching = []" "rTableMap (resting a) = []" for a
    by (simp_all add: searching_def resting_def)
  have q: "plain_RREQ own_rreq" "rq_hop_cnt own_rreq = 0" "rq_src_ip own_rreq = 1" "rq_dest_ip own_rreq = 9"
    by (simp_all add: own_rreq_def plain_RREQ_def RREQ_copy_def)
  have a: "memory (aenv one_daemon)" "my_queue_head holding = Ptr two_held" "map el_skb (waiting 9 two_held) = [tun_packet 2 9]"
      "kouts holding = []" "nlfd one_daemon = 5" "routed (kenv holding) 9 ''wlan0''"
    by (simp_all add: agent_fields kernel_fields waiting_def routed_def)
  have w: "map (\<lambda>e. Xmit ((el_skb e)\<lparr>sk_dst_dev := ''wlan0''\<rparr>)) (waiting 9 two_held)
      = map (\<lambda>p. Xmit (p\<lparr>sk_dst_dev := ''wlan0''\<rparr>)) (map el_skb (waiting 9 two_held))" by simp
  from discovered_route_releases_packets [of own_rreq searching "resting 9" "[resting 5]" "\<lambda>_. 17000" 3
      one_daemon holding two_held "''wlan0''" 7, unfolded ip, OF q]
  obtain reply ss' d' ss'' o'' end' bytes a1 ans k1 where r:
      "relay (Some (carried 1 3 BROADCAST_ADDR (RREQ_bytes own_rreq))) [resting 5, resting 9] = Inr (Some reply, ss' @ [d'])"
      "relay (Some reply) (rev ss' @ [searching]) = Inr (end', ss'' @ [o''])" "La_send bytes \<in> set (outs o'')"
      "la_serv_handle_message 7 bytes one_daemon = Inr (0, a1)" "aouts a1 = aouts one_daemon @ [Netlink_send 5 ans]"
      "recv_msg 1001 ans holding = Inr ((), k1)" "kouts k1 = [Xmit ((tun_packet 2 9)\<lparr>sk_dst_dev := ''wlan0''\<rparr>)]"
    by (auto simp: ip q resting_fit resting_joins a(1,2,4-6) holding_inv(1) w a(3))
  have "length (ss' @ [d']) = 2" using relay_length [OF r(1)] by simp
  then obtain s' where s': "ss' = [s']" by (cases ss') auto
  have "length (ss'' @ [o'']) = 2" using relay_length [OF r(2)] s' by simp
  then obtain s'' where "ss'' = [s'']" by (cases ss'') auto
  with r s' show ?thesis by auto
qed

end
