(* ===== verification/Loops.thy ===== *)
theory Loops
  imports Path
begin

text \<open>
  The sequence numbers of AODV are there to keep routes free of loops. In this code every message
  of a neighbour that does not name the neighbour as its originator sets the number of the
  neighbour to 0. When the neighbour is lost and searched for, the RREQ asks for a route that may
  be as old as any, and the node behind answers it with the route that leads back.
\<close>

section \<open>A message of the neighbour: its number is forgotten\<close>

lemma known_request_run:
  assumes "fit T s" "known_rreq q s" "plain_RREQ q" "rq_src_ip q \<noteq> g_my_ip s" "rq_src_ip q \<noteq> h" "h \<noteq> g_my_ip s"
  shows "\<exists>s' life. process_aodv (carried h ttl to (RREQ_bytes q)) s = Inr ((), s') \<and> fit T s' \<and> config s' = config s
    \<and> map_of (rTableMap s') = meet h 0 life (map_of (rTableMap s))"
proof -
  let ?s = "s\<lparr>recvBuffer := write_buf (RREQ_bytes q) (recvBuffer s)\<rparr>"
  let ?d = "\<lparr>ad_src_ip = h, ad_dest_ip = to, ad_ttl = ttl - 1\<rparr>"
  have fit: "fit T ?s" "known_rreq q ?s" and boot: "\<not> duringReboot ?s" using assms(1,2) by (simp, simp, simp add: fit_def)
  have black: "blacklist_inList (bList ?s) h = Some False" "rt_wf (rTableMap (tock ?s))"
    using assms(1) by (auto simp: fit_def safe_wf_def safe_def ack_free_def blacklist_inList_eq tock_def)
  have q: "rq_type q = AODV_RREQ" "RREQ_copy q = q" "RREQ_at (recvBuffer ?s) = q"
    using assms(3) by (simp_all add: plain_RREQ_def rreq.dec_enc)
  obtain y t where t: "neighbor_of_RREQ h q ?s (tock ?s) = Inr (y, t)" "fit T t" "config t = config (tock ?s)"
      "since (tock ?s) t"
    by (rule fit_runs [OF via_neighborUpdate runs_neighborUpdate fit_tock(1) [OF fit(1)]])
      (auto simp: neighbor_of_RREQ_def)
  have vt: "view t = view ?s"
    using view_same [OF view_kept_neighborUpdate t(1) [unfolded neighbor_of_RREQ_def]] by simp
  then have known: "known_rreq q t" using fit(2) view_fields [OF vt] by (simp add: known_rreq_def)
  have "RREQ_recvRREQ h q ?s = Inr ((0, q), t)"
    using black(1) assms(4) t(1) known
    by (simp add: recvRREQ_run andthen_apply consider_RREQ_def known_rreq_def sm_simps)
  moreover have "process_aodv (carried h ttl to (RREQ_bytes q)) s = bnd (RREQ_recvRREQ h q) (act_on_RREQ ?d q) ?s"
    using rreq_arrives [OF q(1) assms(6)] processRREQ_run [OF boot, of ?d] by (simp only: q(2,3) aodvData.simps)
  ultimately have "process_aodv (carried h ttl to (RREQ_bytes q)) s = Inr ((), t)"
    by (simp add: bnd_apply act_on_RREQ_def ret_def)
  moreover have "\<exists>life. map_of (rTableMap t) = meet h 0 life (map_of (rTableMap s))"
    using neighbor_meets [OF black(2) t(1) [unfolded neighbor_of_RREQ_def]] assms(5) by (auto simp: tock_def)
  moreover have "config t = config s" using t(3) fit_tock(2) [of ?s] by simp
  ultimately show ?thesis using t(2) by blast
qed

section \<open>The neighbour is lost\<close>

text \<open>The loop over the other routes leaves the entry of the neighbour alone, and returns.\<close>

lemma break_over_run:
  assumes "map_of (rTableMap s) dst = Some e" "rt_dest_ip e = dst"
  shows "\<exists>s'. break_over dst k s = Inr ((), s') \<and> map_of (rTableMap s') dst = Some e
    \<and> (\<forall>d. localRepair_findInList (local_repair_list s) d \<noteq> None \<longrightarrow> localRepair_findInList (local_repair_list s') d \<noteq> None)"
  using assms lrepair.mem_add
  by (cases "k = dst"; cases "map_of (rTableMap s) k")
    (auto simp: break_over_def findRoute_def lr_add_def getcurrtime_def write_route_def del_kroute_def emit_def
      sm_simps map_of_om_modify)

lemma break_loop_run:
  "map_of (rTableMap s) dst = Some e \<Longrightarrow> rt_dest_ip e = dst \<Longrightarrow> localRepair_findInList (local_repair_list s) dst \<noteq> None \<Longrightarrow>
   \<exists>s'. forM ks (break_over dst) s = Inr ((), s') \<and> map_of (rTableMap s') dst = Some e
     \<and> localRepair_findInList (local_repair_list s') dst \<noteq> None"
proof (induction ks arbitrary: s)
  case (Cons k ks)
  from break_over_run [OF Cons.prems(1,2), of k] Cons.prems(3) obtain t where
    t: "break_over dst k s = Inr ((), t)" "map_of (rTableMap t) dst = Some e"
      "localRepair_findInList (local_repair_list t) dst \<noteq> None" by blast
  from Cons.IH [OF t(2) Cons.prems(2) t(3)] t(1) show ?case by (simp add: andthen_apply)
qed (simp add: ret_def)

lemma neighbor_lost_run:
  assumes "rt_wf (rTableMap s)" "map_of (rTableMap s) dst = Some e" "rt_hop_cnt e \<noteq> INFINITY_HOPS"
  shows "\<exists>s' e'. neighbor_timeout_handler \<lparr>td_type = ty, td_data = dst\<rparr> s = Inr ((), s')
    \<and> map_of (rTableMap s') dst = Some e' \<and> rt_routing_flags e' = BROKEN_ROUTE
    \<and> rt_dest_seq_num e' = rt_dest_seq_num e + 1 \<and> rt_precursors e' = rt_precursors e
    \<and> localRepair_findInList (local_repair_list s') dst \<noteq> None"
proof -
  let ?h = "neighbor_timeout_handler \<lparr>td_type = ty, td_data = dst\<rparr>"
  have d: "rt_dest_ip e = dst" using assms(1,2) by (auto dest: rt_wf_dest)
  let ?s1 = "s\<lparr>local_repair_list := localRepair_addToList dst (local_repair_list s)\<rparr>"
  have "\<exists>t e'. break_neighbor dst e ?s1 = Inr ((), t) \<and> map_of (rTableMap t) dst = Some e'
      \<and> rt_routing_flags e' = BROKEN_ROUTE \<and> rt_dest_seq_num e' = rt_dest_seq_num e + 1 \<and> rt_dest_ip e' = dst
      \<and> rt_precursors e' = rt_precursors e \<and> local_repair_list t = local_repair_list ?s1"
    using assms(2,3) d
    by (simp add: break_neighbor_def getcurrtime_def write_route_def del_kroute_def emit_def sm_simps map_of_om_modify)
  then obtain t e' where t: "break_neighbor dst e ?s1 = Inr ((), t)" "map_of (rTableMap t) dst = Some e'"
      "rt_routing_flags e' = BROKEN_ROUTE" "rt_dest_seq_num e' = rt_dest_seq_num e + 1" "rt_dest_ip e' = dst"
      "rt_precursors e' = rt_precursors e" "local_repair_list t = local_repair_list ?s1" by blast
  have "localRepair_findInList (local_repair_list t) dst \<noteq> None"
    using lrepair.mem_add_same by (simp add: t(7))
  from break_loop_run [OF t(2,5) this, of "om_keys (rTableMap t)"] obtain s' where
    s': "forM (om_keys (rTableMap t)) (break_over dst) t = Inr ((), s')" "map_of (rTableMap s') dst = Some e'"
      "localRepair_findInList (local_repair_list s') dst \<noteq> None" by blast
  have "?h s = Inr ((), s')"
    using t(1) s'(1) assms(2) by (simp add: neighbor_timeout_handler_def lr_add_def findRoute_def sm_simps)
  with s'(2,3) t(3,4,6) show ?thesis by blast
qed

lemma neighbor_lost:
  assumes "fit T s" "map_of (rTableMap s) dst = Some e" "rt_hop_cnt e \<noteq> INFINITY_HOPS"
  shows "\<exists>s' e'. neighbor_timeout_handler \<lparr>td_type = ty, td_data = dst\<rparr> s = Inr ((), s') \<and> fit T s' \<and> config s' = config s
    \<and> map_of (rTableMap s') dst = Some e' \<and> rt_routing_flags e' = BROKEN_ROUTE
    \<and> rt_dest_seq_num e' = rt_dest_seq_num e + 1"
proof -
  have "rt_wf (rTableMap s)" using assms(1) by (simp add: fit_def safe_wf_def)
  from neighbor_lost_run [OF this assms(2,3)] obtain s' e' where
    s': "neighbor_timeout_handler \<lparr>td_type = ty, td_data = dst\<rparr> s = Inr ((), s')" "map_of (rTableMap s') dst = Some e'"
      "rt_routing_flags e' = BROKEN_ROUTE" "rt_dest_seq_num e' = rt_dest_seq_num e + 1" by blast
  with fit_keeps [OF via_neighbor_timeout [of 0 always] TrueI s'(1) assms(1)] show ?thesis by blast
qed

section \<open>It is searched for\<close>

lemma search_again:
  assumes "fit T s" "map_of (rTableMap s) dst = Some e" "rt_routing_flags e \<noteq> ACTIVE_ROUTE" "dst \<noteq> g_my_ip s"
    "expandingRingSearch s"
  shows "\<exists>s' q ttl. sendRREQ dst 0 s = Inr ((), s') \<and> fit T s' \<and> config s' = config s
    \<and> (\<exists>e'. map_of (rTableMap s') dst = Some e' \<and> rt_routing_flags e' \<noteq> ACTIVE_ROUTE)
    \<and> plain_RREQ q \<and> rq_src_ip q = g_my_ip s \<and> rq_dest_ip q = dst \<and> rq_hop_cnt q = 0
    \<and> rq_rreq_id q = rreqId s + 1 \<and> rq_dest_seq_num q = rt_dest_seq_num e \<and> \<not> rq_G q
    \<and> dispatched s s' = Some (carried (g_my_ip s) ttl BROADCAST_ADDR (RREQ_bytes q))"
proof -
  obtain x s' where s': "sendRREQ dst 0 s = Inr (x, s')" "fit T s'" "config s' = config s" "since s s'"
    by (rule fit_runs [OF via_sendRREQ runs_sendRREQ assms(1)])
  from s'(1) assms(4) have "bnd (RREQ_createRREQ dst 0) (\<lambda>q. andthen (hold_route dst) (start_search dst q)) s
      = Inr (x, s')"
    by (simp add: sendRREQ_def gets_apply bnd_apply [of "gets _"])
  from bnd_Inr [OF this] obtain q t1 where q: "RREQ_createRREQ dst 0 s = Inr (q, t1)" and
    rest: "andthen (hold_route dst) (start_search dst q) t1 = Inr (x, s')" by blast
  from q assms(2) have q': "q = \<lparr>rq_type = AODV_RREQ, rq_J = False, rq_R = False, rq_G = False,
            rq_reserved1 = 0, rq_reserved2 = 0, rq_hop_cnt = 0, rq_rreq_id = rreqId s + 1,
            rq_dest_ip = dst, rq_dest_seq_num = rt_dest_seq_num e, rq_src_ip = g_my_ip s,
            rq_src_seq_num = localSeqNum s + 1\<rparr>" "rTableMap t1 = rTableMap s" "config t1 = config s" "outs t1 = outs s"
    by (auto simp: RREQ_createRREQ_def getDestSeqNum_def findRoute_def sm_simps config_def)
  from andthen_Inr [OF rest] obtain y t2 where t2: "hold_route dst t1 = Inr (y, t2)" and
    rest2: "start_search dst q t2 = Inr (x, s')" by blast
  have held: "\<exists>e'. map_of (rTableMap t2) dst = Some e' \<and> rt_routing_flags e' \<noteq> ACTIVE_ROUTE"
    using t2 q'(2) assms(2,3)
    by (auto simp: hold_route_def findRoute_def write_route_def getcurrtime_def sm_simps map_of_om_modify)
  have same2: "config t2 = config s" "outs t2 = outs s"
    using t2 q'(2-) by (auto simp: hold_route_def findRoute_def write_route_def getcurrtime_def sm_simps config_def
        split: option.splits)
  from bnd_Inr [OF rest2 [unfolded start_search_def]] obtain ttl t3 where
    t3: "first_ttl dst t2 = Inr (ttl, t3)" and
    rest3: "andthen (rreqL_addToList q ttl)
        (andthen (setRREQTimer dst ttl) (send_bytes BROADCAST_ADDR ttl (RREQ_bytes q))) t3 = Inr (x, s')"
    by blast
  have ring: "expandingRingSearch t2" using config_fields [OF same2(1)] assms(5) by simp
  from first_ttl_pv [OF t3] ring have ttl: "ttl \<noteq> 0" by simp
  have same3: "rTableMap t3 = rTableMap t2" "outs t3 = outs t2"
    using t3 by (auto simp: first_ttl_def getTTL_def isRouteValid_def findRoute_def getcurrtime_def sm_simps
        split: option.splits if_splits)
  from rest3 obtain t4 where
    t4: "setRREQTimer dst ttl (t3\<lparr>rreq_list := rreqPendingList_addToList q 0 ttl (rreq_list t3)\<rparr>) = Inr ((), t4)"
    and send: "send_bytes BROADCAST_ADDR ttl (RREQ_bytes q) t4 = Inr (x, s')"
    by (auto simp: rreqL_addToList_def upd_def andthen_apply split: sum.splits)
  have t4': "rTableMap t4 = rTableMap t3" "since t3 t4"
    using t4 by (auto simp: setRREQTimer_def set_timer_run setRealTimer_def emit_def sm_simps Let_def since_def
        split: if_splits)
  note so = send_bytes_outs [OF send ttl]
  have since: "since s t4" using t4'(2) same3(2) same2(2) by (simp add: since_def)
  obtain es where "outs s' = outs t4 @ es @ [Sendto BROADCAST_ADDR (RREQ_bytes q)]" using so(1) by metis
  from since_last [OF since this] config_fields [OF s'(3)]
  have "dispatched s s' = Some (carried (g_my_ip s) (socket_ttl (outs s')) BROADCAST_ADDR (RREQ_bytes q))" by simp
  moreover have "\<exists>e'. map_of (rTableMap s') dst = Some e' \<and> rt_routing_flags e' \<noteq> ACTIVE_ROUTE"
    using held so(2) t4'(1) same3(1) by simp
  moreover have "plain_RREQ q" by (simp add: q'(1) plain_RREQ_def RREQ_copy_def)
  ultimately show ?thesis using s'(1-3)
    by (intro exI [of _ s'] exI [of _ q] exI [of _ "socket_ttl (outs s')"]) (simp add: q'(1))
qed

section \<open>The answer of the node behind\<close>

text \<open>A node with a route that is recent enough answers in place of the destination.\<close>

lemma answer_from_route:
  assumes "takes T h q s" "plain_RREQ q" "rq_hop_cnt q = 0" "rq_src_ip q = h" "\<not> rq_G q" "h \<noteq> 0"
    and dst: "rq_dest_ip q \<noteq> g_my_ip s" "rq_dest_ip q \<noteq> h"
      "leads T (rq_dest_ip q) g k s" "map_of (rTableMap s) (rq_dest_ip q) = Some e" "rq_dest_seq_num q \<le> rt_dest_seq_num e"
  shows "\<exists>s' p t. process_aodv (carried h ttl to (RREQ_bytes q)) s = Inr ((), s') \<and> fit T s' \<and> config s' = config s
    \<and> points (rq_dest_ip q) g k s' \<and> rp_type p = AODV_RREP \<and> RREP_copy p = p \<and> \<not> rp_A p
    \<and> rp_dest_ip p = rq_dest_ip q \<and> rp_src_ip p = h \<and> unat (rp_hop_cnt p) = k \<and> rp_dest_seq_num p = rt_dest_seq_num e
    \<and> dispatched s s' = Some (carried (g_my_ip s) t h (RREP_bytes p))"
proof -
  let ?dst = "rq_dest_ip q"
  have hop: "unat (rq_hop_cnt q) < 35" using assms(3) by simp
  from takes_run [OF assms(1,2) hop] obtain t where
    t: "process_aodv (carried h ttl to (RREQ_bytes q)) s =
        bnd (answer_or_forward q) (act_on_RREQ \<lparr>ad_src_ip = h, ad_dest_ip = to, ad_ttl = ttl - 1\<rparr> q) t"
      "fit T t" "config t = config s" "since s t" "leads T h h (Suc (unat (rq_hop_cnt q))) t"
      "\<forall>k. k \<noteq> h \<longrightarrow> k \<noteq> rq_src_ip q \<longrightarrow> map_of (rTableMap t) k = map_of (rTableMap s) k"
    using assms(4) by blast
  have ip: "g_my_ip t = g_my_ip s" using config_fields [OF t(3)] by simp
  have et: "map_of (rTableMap t) ?dst = Some e" "leads T ?dst g k t"
    using t(6) dst(2-4) assms(4) by (simp_all add: leads_def)
  obtain res q' u where u: "answer_or_forward q t = Inr ((res, q'), u)" using answer_or_forward_returns by blast
  have act: "rt_routing_flags e = ACTIVE_ROUTE" using et by (simp add: leads_def)
  from answer_or_forward_cases [OF u] et(1) act dst(5) ip
  have u': "rTableMap u = rTableMap t" "res = GEN_RREP" "q' = q" by (auto split: if_splits)
  note uk = fit_keeps [OF via_answer_or_forward [of 0 always] TrueI u t(2)]
  have ipu: "g_my_ip u = g_my_ip s" "\<not> rrepAckFlag u"
    using config_fields [OF uk(2)] ip uk(1) by (simp_all add: fit_def safe_wf_def safe_def ack_free_def)
  have lu: "leads T ?dst g k u" "leads T h h 1 u" "map_of (rTableMap u) ?dst = Some e"
    using et t(5) u'(1) assms(3) by (simp_all add: leads_def)
  obtain eh where eh: "map_of (rTableMap u) h = Some eh" "rt_next_hop eh = h" using lu(2) by (auto simp: leads_def)
  let ?junk = "junk_rrep (env u) (ticks u)"
  obtain p v where v: "RREP_createRREP h q ?junk u = Inr (p, v)" "fit T v" "config v = config u" "since u v"
    by (rule fit_runs [OF via_createRREP runs_createRREP uk(1)])
  have calm: "calm T u" using uk(1) by (simp add: fit_def)
  have au: "active_at ?dst u" by (rule leads_active [OF calm lu(1)])
  have p: "rp_type p = AODV_RREP" "RREP_copy p = p" "\<not> rp_A p" "rp_dest_ip p = ?dst" "rp_src_ip p = h"
      "rp_hop_cnt p = rt_hop_cnt e" "rp_dest_seq_num p = rt_dest_seq_num e"
    and rv: "\<And>d. leads T d x l v = leads T d x l u" for x l
    using v(1) dst(1,2) ipu lu(3) au assms(4)
    by (auto simp: RREP_createRREP_def findActiveRoute_run sm_simps Let_def RREP_header_def RREP_copy_def tock_def
        getcurrtime_def write_route_def leads_def map_of_om_modify split: option.splits if_splits)
  have "leads T h h 1 v" "leads T ?dst g k v" using lu by (simp_all add: rv)
  note lv = this
  from send_reply [OF v(2) lv(1) assms(6) p(3)] obtain s' where
    s': "send_RREP h p v = Inr ((), s')" "fit T s'" "config s' = config v" "outs s' = outs v @ [] @ [Sendto h (RREP_bytes p)]"
      "\<forall>d. d \<noteq> h \<longrightarrow> map_of (rTableMap s') d = map_of (rTableMap v) d" by auto
  have cs: "config s' = config s" using s'(3) v(3) uk(2) t(3) by simp
  have "process_aodv (carried h ttl to (RREQ_bytes q)) s = Inr ((), s')"
    using t(1) u u' v(1) s'(1) assms(4,5)
    by (simp add: bnd_apply andthen_apply act_on_RREQ_def whenM_apply reply_RREQ_def send_gratuitous_def gets_apply)
  moreover note since_last [OF since_trans [OF since_trans [OF t(4) uk(3)] v(4)] s'(4)]
  moreover have "points ?dst g k s'" using lv(2) s'(5) dst(2) leads_points by (auto simp: leads_def points_def)
  moreover have "unat (rp_hop_cnt p) = k" using lu(1,3) p(6) by (simp add: leads_def)
  ultimately show ?thesis using s'(2) cs p config_fields [OF cs]
    by (intro exI [of _ s'] exI [of _ p] exI [of _ "socket_ttl (outs s')"]) simp
qed

section \<open>The loop\<close>

lemma answer_taken:
  assumes "takes_reply T h p s" "rp_type p = AODV_RREP" "RREP_copy p = p" "\<not> rp_A p" "unat (rp_hop_cnt p) < 255"
    "rp_src_ip p = g_my_ip s"
  shows "\<exists>x s'. relay (Some (carried h ttl (g_my_ip s) (RREP_bytes p))) [s] = Inr (x, [s'])
    \<and> points (rp_dest_ip p) h (Suc (unat (rp_hop_cnt p))) s'"
proof -
  from takes_reply_run [OF assms(1-5)] obtain t where
    t: "process_aodv (carried h ttl (g_my_ip s) (RREP_bytes p)) s =
        bnd (pass_RREP p) (\<lambda>(result, p'). whenM (result = SEND_RREP) (send_RREP (rp_src_ip p') p')) t"
      "config t = config s" "points (rp_dest_ip p) h (Suc (unat (rp_hop_cnt p))) t"
    by blast
  have "pass_RREP p t = Inr ((0, p), t)" using assms(6) config_fields [OF t(2)] by (simp add: pass_RREP_def sm_simps)
  with t show ?thesis by (simp add: bnd_apply whenM_apply)
qed

text \<open>
  C3. The code makes routing loops, without a message being lost and without a reboot. Node \<open>a\<close> has \<open>n\<close> as
  a neighbour, and \<open>b\<close> reaches \<open>n\<close> over \<open>a\<close>. A message in which \<open>n\<close> passes on what another node
  began makes \<open>a\<close> forget the sequence number of \<open>n\<close>; then \<open>a\<close> loses \<open>n\<close>, tells nobody, and searches for
  it; the RREQ asks for the number 1, and \<open>b\<close> answers it. In the end \<open>a\<close> reaches \<open>n\<close> over node \<open>b\<close>, and \<open>b\<close>
  reaches it over \<open>a\<close>. The only condition on the numbers is that \<open>b\<close> knows one for \<open>n\<close> other than 0.
\<close>

theorem lost_number_makes_loop:
  assumes "fit T a" "expandingRingSearch a" "known_rreq q0 a" "plain_RREQ q0" "rq_src_ip q0 \<notin> {g_my_ip a, n}"
    and "fit U b" "\<forall>i. \<not> fwRreqList_inList (fw_rreq_list b) (g_my_ip a) i" "leads U n (g_my_ip a) k b" "k < 255"
    and "map_of (rTableMap b) n = Some e" "1 \<le> rt_dest_seq_num e"
    and "distinct [g_my_ip a, g_my_ip b, n]" "g_my_ip a \<noteq> 0"
  shows "\<exists>a1 a2 a3 req b' reply x a4.
      process_aodv (carried n ttl BROADCAST_ADDR (RREQ_bytes q0)) a = Inr ((), a1) \<and> points n n 1 a1
    \<and> neighbor_timeout_handler \<lparr>td_type = ACTIVE_ROUTE_TIMER, td_data = n\<rparr> a1 = Inr ((), a2)
    \<and> sendRREQ n 0 a2 = Inr ((), a3) \<and> dispatched a2 a3 = Some req
    \<and> relay (Some req) [b] = Inr (Some reply, [b']) \<and> relay (Some reply) [a3] = Inr (x, [a4])
    \<and> points n (g_my_ip b) (Suc k) a4 \<and> points n (g_my_ip a) k b'"
proof -
  let ?A = "g_my_ip a" and ?B = "g_my_ip b"
  from known_request_run [OF assms(1,3,4), of n ttl BROADCAST_ADDR] assms(5,12) obtain a1 life where
    a1: "process_aodv (carried n ttl BROADCAST_ADDR (RREQ_bytes q0)) a = Inr ((), a1)" "fit T a1" "config a1 = config a"
      "map_of (rTableMap a1) = meet n 0 life (map_of (rTableMap a))"
    by auto
  from a1(4) obtain e1 where e1: "map_of (rTableMap a1) n = Some e1" "rt_dest_seq_num e1 = 0" "rt_hop_cnt e1 = 1"
      "rt_next_hop e1 = n" "rt_routing_flags e1 = ACTIVE_ROUTE"
    by (auto simp: meet_def createEntry_def set_route_def split: option.splits)
  from neighbor_lost [OF a1(2) e1(1), of ACTIVE_ROUTE_TIMER] e1(2,3) obtain a2 e2 where
    a2: "neighbor_timeout_handler \<lparr>td_type = ACTIVE_ROUTE_TIMER, td_data = n\<rparr> a1 = Inr ((), a2)" "fit T a2"
      "config a2 = config a1" and
    e2: "map_of (rTableMap a2) n = Some e2" "rt_routing_flags e2 = BROKEN_ROUTE" "rt_dest_seq_num e2 = 1"
    by auto
  have ip2: "g_my_ip a2 = ?A" "expandingRingSearch a2"
    using config_fields [OF a2(3)] config_fields [OF a1(3)] assms(2) by simp_all
  from search_again [OF a2(2) e2(1), unfolded ip2] e2(2,3) assms(12) ip2 obtain a3 q t where
    a3: "sendRREQ n 0 a2 = Inr ((), a3)" "fit T a3" "config a3 = config a2"
      "dispatched a2 a3 = Some (carried ?A t BROADCAST_ADDR (RREQ_bytes q))"
    and e3: "\<exists>e'. map_of (rTableMap a3) n = Some e' \<and> rt_routing_flags e' \<noteq> ACTIVE_ROUTE"
    and q: "plain_RREQ q" "rq_src_ip q = ?A" "rq_dest_ip q = n" "rq_hop_cnt q = 0" "rq_dest_seq_num q = 1" "\<not> rq_G q"
    by auto
  have take: "takes U ?A q b" using assms(6,7,12) q by (auto simp: takes_def known_rreq_def)
  have rt: "rq_dest_ip q \<noteq> ?B" "rq_dest_ip q \<noteq> ?A" "leads U (rq_dest_ip q) ?A k b"
      "map_of (rTableMap b) (rq_dest_ip q) = Some e" "rq_dest_seq_num q \<le> rt_dest_seq_num e"
    using q assms(8,10-12) by auto
  from answer_from_route [OF take q(1,4,2,6) assms(13) rt, of t BROADCAST_ADDR] q(3) obtain b' p t' where
    b': "process_aodv (carried ?A t BROADCAST_ADDR (RREQ_bytes q)) b = Inr ((), b')" "points n ?A k b'"
      "dispatched b b' = Some (carried ?B t' ?A (RREP_bytes p))"
    and p: "rp_type p = AODV_RREP" "RREP_copy p = p" "\<not> rp_A p" "rp_dest_ip p = n" "rp_src_ip p = ?A" "unat (rp_hop_cnt p) = k"
    by auto
  have ip3: "g_my_ip a3 = ?A" using config_fields [OF a3(3)] ip2 by simp
  have "takes_reply T ?B p a3" using a3(2) e3 p assms(12) ip3 by (auto simp: takes_reply_def is_news_def)
  from answer_taken [OF this p(1-3) _ trans [OF p(5) ip3 [symmetric]], of t', unfolded ip3] p(4,6) assms(9) obtain x a4 where
    "relay (Some (carried ?B t' ?A (RREP_bytes p))) [a3] = Inr (x, [a4])" "points n ?B (Suc k) a4"
    by auto
  moreover have "relay (Some (carried ?A t BROADCAST_ADDR (RREQ_bytes q))) [b]
      = Inr (Some (carried ?B t' ?A (RREP_bytes p)), [b'])"
    using b' by simp
  moreover have "points n n 1 a1" using e1 by (simp add: points_def)
  ultimately show ?thesis using a1(1) a2(1) a3(1,4) b'(2) by blast
qed

text \<open>Node 1 has seen an RREQ of node 7; node 5 reaches node 9 over node 1, with the number 7.\<close>

definition informed :: node where
  "informed = (resting 1)\<lparr>fw_rreq_list := [\<lparr>fw_src_ip = 7, fw_rreq_id = 1, fw_lifetime = 40000\<rparr>]\<rparr>"

definition behind_it :: node where
  "behind_it = (resting 5)\<lparr>rTableMap := [(9, createEntry 9 7 2 1 30000 ACTIVE_ROUTE)]\<rparr>"

lemma loop_nodes_fit: "fit 17000 informed" "fit 17000 behind_it"
proof -
  show "fit 17000 informed"
    using resting_fit(1) [of 1] by (simp add: fit_def calm_def safe_wf_def safe_def ack_free_def informed_def)
  have "rt_wf [(9, createEntry 9 7 2 1 30000 ACTIVE_ROUTE)]"
    using rt_wf_insert [OF rt_wf_Nil entry_wf_createEntry, of ACTIVE_ROUTE 9 7 2 1 30000] by simp
  then show "fit 17000 behind_it"
    using resting_fit(1) [of 5] by (simp add: fit_def calm_def safe_wf_def safe_def ack_free_def behind_it_def)
qed

theorem lost_number_makes_loop_witness:
  "\<exists>a1 a2 a3 req b' reply x a4.
      process_aodv (carried 9 4 BROADCAST_ADDR (RREQ_bytes (own_rreq\<lparr>rq_src_ip := 7, rq_dest_ip := 8\<rparr>))) informed = Inr ((), a1)
    \<and> neighbor_timeout_handler \<lparr>td_type = ACTIVE_ROUTE_TIMER, td_data = 9\<rparr> a1 = Inr ((), a2)
    \<and> sendRREQ 9 0 a2 = Inr ((), a3) \<and> dispatched a2 a3 = Some req
    \<and> relay (Some req) [behind_it] = Inr (Some reply, [b']) \<and> relay (Some reply) [a3] = Inr (x, [a4])
    \<and> points 9 5 3 a4 \<and> points 9 1 2 b'"
proof -
  let ?q = "own_rreq\<lparr>rq_src_ip := 7, rq_dest_ip := 8\<rparr>"
  have ip: "g_my_ip informed = 1" "g_my_ip behind_it = 5" by (simp_all add: informed_def behind_it_def resting_def)
  have q: "plain_RREQ ?q" "known_rreq ?q informed" "expandingRingSearch informed"
    by (simp_all add: plain_RREQ_def RREQ_copy_def own_rreq_def known_rreq_def informed_def resting_def state_fields)
  have e: "map_of (rTableMap behind_it) 9 = Some (createEntry 9 7 2 1 30000 ACTIVE_ROUTE)"
    "\<forall>i. \<not> fwRreqList_inList (fw_rreq_list behind_it) 1 i" "1 \<le> rt_dest_seq_num (createEntry 9 7 2 1 30000 ACTIVE_ROUTE)"
    by (simp_all add: behind_it_def resting_def state_fields createEntry_def word_le_nat_alt)
  have l: "leads 17000 9 1 2 behind_it" using e(1) by (simp add: leads_def createEntry_def)
  have a: "rq_src_ip ?q \<notin> {g_my_ip informed, 9}" "distinct [g_my_ip informed, g_my_ip behind_it, 9]"
    "g_my_ip informed \<noteq> 0" "(2 :: nat) < 255"
    by (simp_all add: ip)
  have three: "(3 :: nat) = Suc 2" by simp
  show ?thesis
    using lost_number_makes_loop [OF loop_nodes_fit(1) q(3,2,1) a(1) loop_nodes_fit(2) e(2) [folded ip(1)] l [folded ip(1)]
        a(4) e(1,3) a(2,3), of 4]
    unfolding three ip by blast
qed

end
