(* ===== verification/Breaks.thy ===== *)
theory Breaks
  imports Loops
begin

text \<open>
  What becomes of a route when its last link breaks. The node in front of the break tries to
  repair it for the first packet it has to pass on; when nobody answers it sends a RERR to the
  node that uses the route. That node, if it in turn knows one node that uses the route, writes
  the address of that node through a null pointer and ends.
\<close>

section \<open>The node in front of the break\<close>

text \<open>After the reboot phase, in a state in which a handler cannot fault.\<close>

definition settled :: "node \<Rightarrow> bool" where
  "settled s \<longleftrightarrow> safe_wf s \<and> \<not> duringReboot s"

interpretation settled: closed_under "prim r" settled for r
proof unfold_locales
  fix s t assume p: "prim r s t" and f: "settled s"
  have "safe_wf t" using p f safe.closed table.closed by (auto simp: settled_def safe_wf_def)
  moreover have "\<not> duringReboot t" using p f by (cases; simp add: settled_def)
  ultimately show "settled t" by (simp add: settled_def)
qed

lemma settled_keeps:
  assumes "via (prim r) always m" "m s = Inr (x, s')" "settled s"
  shows "settled s'" "config s' = config s" "since s s'"
  using settled.via_keeps [OF assms(1) TrueI assms(3,2)] conf.via_keeps [OF assms(1) TrueI refl assms(2)]
    grows.via_keeps [OF assms(1) TrueI since_refl assms(2)] by simp_all

text \<open>The repair: an RREQ, and a timer for it, of which nothing in the table is changed.\<close>

lemma repair_run:
  assumes "settled s" "map_of (rTableMap s) (ri_dst_ip i) = Some e" "rt_routing_flags e = BROKEN_ROUTE"
    and "localRepair_findInList (local_repair_list s) (ri_dst_ip i) \<noteq> None" "ri_src_ip i \<noteq> g_my_ip s"
  obtains s' where "process_asl i s = Inr ((), s')" "settled s'" "config s' = config s" "rTableMap s' = rTableMap s"
    "\<exists>t \<in> set (timerQ s'). tm_handler t = LR_Timer \<and> tm_data t = \<lparr>td_type = LR_TIMER, td_data = ri_dst_ip i\<rparr>"
proof -
  let ?dst = "ri_dst_ip i" and ?fl = "if ri_protocol i = IPPROTO_TCP then 1 else 0"
  have boot: "\<not> duringReboot s" and act: "\<not> active_at ?dst s"
    using assms(1-3) by (simp_all add: settled_def active_at_def)
  have asl: "process_asl i s = doLocalRepair ?dst (ri_src_ip i) ?fl (tock s)"
    using boot act assms(2-5)
    by (simp add: process_asl_def process_asl_transit_def Let_def gets_apply bnd_apply findActiveRoute_run tock_def
        findRoute_def whenM_apply)
  have "runs safe_wf (process_asl i)" "safe_wf s" using runs_process_asl assms(1) by (simp_all add: settled_def)
  from runsD [OF this] obtain s' where s': "process_asl i s = Inr ((), s')" by auto
  note run = s' [unfolded asl]
  have "\<exists>q t1. RREQ_createRREQ ?dst ?fl (tock s) = Inr (q, t1) \<and> rTableMap t1 = rTableMap s"
    using assms(2) by (simp add: RREQ_createRREQ_def getDestSeqNum_def findRoute_def sm_simps tock_def)
  then obtain q t1 where q: "RREQ_createRREQ ?dst ?fl (tock s) = Inr (q, t1)" "rTableMap t1 = rTableMap s" by blast
  let ?ttl = "uint (rt_last_hop_cnt e) + LOCAL_ADD_TTL"
  from run q assms(2) have "andthen (setLRTimer ?dst ?ttl) (send_bytes BROADCAST_ADDR ?ttl (RREQ_bytes q)) t1 = Inr ((), s')"
    by (simp add: doLocalRepair_def bnd_apply findRoute_def gets_apply Let_def)
  then obtain t2 where t2: "setLRTimer ?dst ?ttl t1 = Inr ((), t2)" "send_bytes BROADCAST_ADDR ?ttl (RREQ_bytes q) t2 = Inr ((), s')"
    by (auto simp: andthen_apply split: sum.splits)
  have timer: "rTableMap t2 = rTableMap t1"
    "\<exists>t \<in> set (timerQ t2). tm_handler t = LR_Timer \<and> tm_data t = \<lparr>td_type = LR_TIMER, td_data = ?dst\<rparr>"
    using t2(1)
    by (auto simp: setLRTimer_def set_timer_run setRealTimer_def emit_def sm_simps Let_def set_timer_insert
        split: if_splits)
  have "rTableMap s' = rTableMap t2" "timerQ s' = timerQ t2"
    using t2(2) by (auto simp: send_bytes_def sendPacket_def copyToSendBuf_def genSndData_def emit_def sm_simps split: if_splits)
  with that [OF s' settled_keeps(1,2) [OF via_process_asl s' assms(1)]] timer q(2) show ?thesis by simp
qed

text \<open>The repair fails: the RERR, with the number of the broken route, to the one node that uses it.\<close>

definition lost_route :: "ip \<Rightarrow> u32 \<Rightarrow> RERR" where
  "lost_route dst seq = RERR_setUnrchDest dst seq (RERR_setDestCnt 1 RERR_new)"

lemma lost_route_ok:
  "RERR_ok (lost_route dst seq)" "\<not> re_N (lost_route dst seq)" "re_type (lost_route dst seq) = AODV_RERR"
  "re_unreachable_dest (lost_route dst seq) = [\<lparr>ud_dest_ip = dst, ud_dest_seq_num = seq\<rparr>]"
  "re_dest_cnt (lost_route dst seq) = 1"
  by (simp_all add: lost_route_def RERR_ok_def RERR_setUnrchDest_def RERR_setDestCnt_def RERR_new_def)

lemma tell_user:
  assumes "settled s" "map_of (rTableMap s) dst = Some e" "rt_precursors e = [p]"
  shows "\<exists>s'. generateRERR dst 0 False s = Inr ((), s') \<and> settled s' \<and> config s' = config s \<and> since s s'
    \<and> dispatched s s' = Some (carried (g_my_ip s) 1 p (RERR_bytes (lost_route dst (rt_dest_seq_num e))))"
proof -
  let ?r = "lost_route dst (rt_dest_seq_num e)"
  have mem: "12 \<le> malloc_usable (env s) 4" and safe: "safe s"
    using assms(1) by (simp_all add: settled_def safe_wf_def safe_def)
  from runsD [OF runs_send_bytes safe, of p 1 "RERR_bytes ?r"] obtain s' where
    s': "send_bytes p 1 (RERR_bytes ?r) s = Inr ((), s')" by auto
  have new: "RERR_setNFlag 0 RERR_new = RERR_new" by (simp add: RERR_setNFlag_def RERR_new_def)
  have run: "generateRERR dst 0 False s = Inr ((), s')"
    using assms(2,3) s' mem lost_route_ok(5) [of dst "rt_dest_seq_num e"]
    by (simp add: generateRERR_def findRoute_def rerr_block_def getPrecAddr_def getPrecCnt_def sm_simps Let_def new
        rerr_bytes_one lost_route_def)
  note k = settled_keeps [OF via_generateRERR run assms(1)]
  have "outs s' = outs s @ [SetTTL 1] @ [Sendto p (RERR_bytes ?r)]" using send_bytes_outs(1) [OF s'] by simp
  from since_last [OF since_refl this] config_fields [OF k(2)]
  have "dispatched s s' = Some (carried (g_my_ip s) 1 p (RERR_bytes ?r))"
    using send_bytes_outs(1) [OF s'] by (simp add: socket_ttl_def)
  with run k show ?thesis by blast
qed

lemma dropWhile_app: "dropWhile P (xs @ ys) = (if dropWhile P xs = [] then dropWhile P ys else dropWhile P xs @ ys)"
  by (induction xs) auto

lemma dispatched_after:
  "since s t \<Longrightarrow> dispatched t u = Some m \<Longrightarrow> since t u \<Longrightarrow> dispatched s u = Some m"
  by (auto simp: dispatched_def since_def dropWhile_app simp del: dropWhile_eq_Nil_conv split: list.splits)

lemma dispatched_repairs: "dispatched s (u\<lparr>local_repair_list := l\<rparr>) = dispatched s u"
  unfolding dispatched_def by (simp cong: list.case_cong effect.case_cong)

lemma repair_fails:
  assumes "settled s" "map_of (rTableMap s) dst = Some e" "rt_precursors e = [p]"
  shows "\<exists>s'. LR_handler \<lparr>td_type = ty, td_data = dst\<rparr> s = Inr ((), s') \<and> settled s' \<and> config s' = config s
    \<and> dispatched s s' = Some (carried (g_my_ip s) 1 p (RERR_bytes (lost_route dst (rt_dest_seq_num e))))"
proof -
  let ?f = "\<lambda>e. e\<lparr>rt_last_hop_cnt := rt_hop_cnt e, rt_hop_cnt := INFINITY_HOPS,
      rt_lifetime := clock (env s) (ticks s) + DELETE_PERIOD, rt_routing_flags := INVALID_ROUTE\<rparr>"
  let ?t = "s\<lparr>outs := outs s @ [reply_effect dst IP_NOFOUND], ticks := Suc (ticks s),
      rTableMap := om_modify dst ?f (rTableMap s)\<rparr>"
  have t: "settled ?t" "map_of (rTableMap ?t) dst = Some (?f e)" "config ?t = config s" "since s ?t"
  proof -
    let ?m = "andthen (la_reply dst IP_NOFOUND) (bnd getcurrtime (\<lambda>now. write_route dst (\<lambda>e. e\<lparr>rt_last_hop_cnt := rt_hop_cnt e,
        rt_hop_cnt := INFINITY_HOPS, rt_lifetime := now + DELETE_PERIOD, rt_routing_flags := INVALID_ROUTE\<rparr>)))"
    have m: "?m s = Inr ((), ?t)"
      by (simp add: la_reply_def emit_def write_route_def getcurrtime_def sm_simps)
    have "via (prim 1) always ?m"
      by (intro via_intros via_write_wf) (auto simp: entry_wf_def)
    note settled_keeps [OF this m assms(1)]
    then show "settled ?t" "config ?t = config s" "since s ?t" by simp_all
    show "map_of (rTableMap ?t) dst = Some (?f e)" using assms(2) by (simp add: map_of_om_modify)
  qed
  from tell_user [OF t(1,2), of p] assms(3) obtain u where
    u: "generateRERR dst 0 False ?t = Inr ((), u)" "settled u" "config u = config s" "since ?t u"
      "dispatched ?t u = Some (carried (g_my_ip s) 1 p (RERR_bytes (lost_route dst (rt_dest_seq_num e))))"
    using t(3) by auto
  let ?s' = "u\<lparr>local_repair_list := localRepair_deleteFromList dst (local_repair_list u)\<rparr>"
  have run: "LR_handler \<lparr>td_type = ty, td_data = dst\<rparr> s = Inr ((), ?s')"
    using assms(2) u(1)
    by (simp add: LR_handler_def la_reply_def emit_def lr_delete_def write_route_def getcurrtime_def findRoute_def
        gets_apply bnd_apply andthen_apply upd_def ret_def)
  have "dispatched ?t ?s' = dispatched ?t u" "since ?t ?s'"
    using u(4) by (simp_all add: dispatched_repairs since_def)
  with dispatched_after [OF t(4), of ?s'] u(5) settled_keeps [OF via_LR_handler run assms(1)] run show ?thesis by auto
qed

section \<open>The node that is told\<close>

lemma rerr_arrives:
  assumes "RERR_ok r" "\<not> re_N r" "re_type r = AODV_RERR" "h \<noteq> g_my_ip s" "\<not> duringReboot s" "length (RERR_bytes r) < 1000"
  shows "process_aodv (carried h ttl to (RERR_bytes r)) s =
    andthen (neighborUpdate h h 0 (clock (env s) (ticks s) + ALLOWED_HELLO_LOSS * HELLO_INTERVAL))
      (andthen (RERR_updateInvalidEntries r)
        (bnd (RERR_createNewRERR r h RERR_new) (\<lambda>(result, r'). whenM result (send_new_RERR r'))))
      (tock (s\<lparr>recvBuffer := write_buf (RERR_bytes r) (recvBuffer s)\<rparr>))"
proof -
  have first: "write_buf (RERR_bytes r) (recvBuffer s) 0 = AODV_RERR"
    using assms(3) by (simp add: write_buf_def RERR_bytes_def)
  with assms show ?thesis
    by (simp add: process_aodv_def carried_def readFromSock_def processRecvMsg_def processRERR_def sm_simps Let_def
        numeral_2_eq_2 AODVBUFSIZE_def rerr.dec_enc RERR_getN_def getcurrtime_def tock_def)
qed

text \<open>A RERR for a route that one other node uses.\<close>

lemma single_precursor_faults:
  assumes "re_unreachable_dest r = d # ds" "map_of (rTableMap s) (ud_dest_ip d) = Some e"
    and "rt_hop_cnt e \<noteq> INFINITY_HOPS" "rt_next_hop e = h" "length (rt_precursors e) = 1"
  shows "RERR_createNewRERR r h RERR_new s = Inl NullDeref"
proof -
  let ?s = "s\<lparr>ticks := Suc (ticks s)\<rparr>" and ?c = "clock (env s) (ticks s)"
  from runsD [OF runs_withdraw_route TrueI] have "\<exists>x s'. withdraw_route ?c (ud_dest_ip d) d e ?s = Inr (x, s')"
    by blast
  then obtain s' where "withdraw_route ?c (ud_dest_ip d) d e ?s = Inr ((), s')" by auto
  with assms show ?thesis
    by (simp add: RERR_createNewRERR_def createNewRERR_step_def count_precursors_def getcurrtime_def
        findRoute_def lost_over_def getPrecCnt_def sm_simps Let_def)
qed

lemma told_node_ends:
  assumes "settled s" "map_of (rTableMap s) dst = Some e" "rt_hop_cnt e \<noteq> INFINITY_HOPS" "rt_next_hop e = h"
    and "length (rt_precursors e) = 1" "h \<noteq> g_my_ip s" "dst \<noteq> h"
  shows "process_aodv (carried h ttl to (RERR_bytes (lost_route dst seq))) s = Inl NullDeref"
proof -
  let ?r = "lost_route dst seq"
  let ?s = "tock (s\<lparr>recvBuffer := write_buf (RERR_bytes ?r) (recvBuffer s)\<rparr>)"
  let ?n = "neighborUpdate h h 0 (clock (env s) (ticks s) + ALLOWED_HELLO_LOSS * HELLO_INTERVAL)"
  have len: "length (RERR_bytes ?r) < 1000" by (simp add: length_RERR_bytes lost_route_ok)
  have safe: "safe_wf ?s" "\<not> duringReboot s"
    using assms(1) by (simp_all add: settled_def safe_wf_def safe_def ack_free_def tock_def)
  from runsD [OF runs_neighborUpdate safe(1), of h h 0 "clock (env s) (ticks s) + ALLOWED_HELLO_LOSS * HELLO_INTERVAL"]
  obtain t where t: "?n ?s = Inr ((), t)" by auto
  have wf: "rt_wf (rTableMap ?s)" using safe(1) by (simp add: safe_wf_def)
  from neighbor_meets [OF wf t] have e: "map_of (rTableMap t) dst = Some e"
    using assms(2,7) by (simp add: meet_other tock_def)
  have "RERR_updateInvalidEntries ?r t = Inr ((), t)"
    using e assms(3) by (simp add: RERR_updateInvalidEntries_def lost_route_ok raise_seq_def findRoute_def sm_simps)
  moreover have "RERR_createNewRERR ?r h RERR_new t = Inl NullDeref"
    by (rule single_precursor_faults [OF lost_route_ok(4)]) (use e assms(3-5) in simp_all)
  ultimately show ?thesis
    unfolding rerr_arrives [OF lost_route_ok(1-3) assms(6) safe(2) len]
    using t by (simp add: andthen_apply bnd_apply)
qed

section \<open>Together\<close>

lemma link_broken:
  assumes "settled b" "map_of (rTableMap b) n = Some e" "rt_hop_cnt e \<noteq> INFINITY_HOPS" "rt_precursors e = [g_my_ip a]"
    and "ri_dst_ip i = n" "ri_src_ip i \<noteq> g_my_ip b"
    and "settled a" "map_of (rTableMap a) n = Some f" "rt_hop_cnt f \<noteq> INFINITY_HOPS" "rt_next_hop f = g_my_ip b"
      "length (rt_precursors f) = 1" "g_my_ip a \<noteq> g_my_ip b" "n \<noteq> g_my_ip b"
  shows "\<exists>b1 b2 b3 m.
      neighbor_timeout_handler \<lparr>td_type = ACTIVE_ROUTE_TIMER, td_data = n\<rparr> b = Inr ((), b1)
    \<and> process_asl i b1 = Inr ((), b2)
    \<and> (\<exists>t \<in> set (timerQ b2). tm_handler t = LR_Timer \<and> tm_data t = \<lparr>td_type = LR_TIMER, td_data = n\<rparr>)
    \<and> run_handler LR_Timer \<lparr>td_type = LR_TIMER, td_data = n\<rparr> b2 = Inr ((), b3)
    \<and> dispatched b2 b3 = Some (carried (g_my_ip b) 1 (g_my_ip a) m)
    \<and> process_aodv (carried (g_my_ip b) 1 (g_my_ip a) m) a = Inl NullDeref"
proof -
  have "rt_wf (rTableMap b)" using assms(1) by (simp add: settled_def safe_wf_def)
  from neighbor_lost_run [OF this assms(2,3)] obtain b1 e1 where
    b1: "neighbor_timeout_handler \<lparr>td_type = ACTIVE_ROUTE_TIMER, td_data = n\<rparr> b = Inr ((), b1)"
      "map_of (rTableMap b1) n = Some e1" "rt_routing_flags e1 = BROKEN_ROUTE" "rt_precursors e1 = rt_precursors e"
      "localRepair_findInList (local_repair_list b1) n \<noteq> None" by blast
  note k1 = settled_keeps [OF via_neighbor_timeout b1(1) assms(1)]
  have ip1: "g_my_ip b1 = g_my_ip b" using config_fields [OF k1(2)] by simp
  from repair_run [OF k1(1), of i, unfolded assms(5), OF b1(2,3,5)] assms(6) ip1 obtain b2 where
    b2: "process_asl i b1 = Inr ((), b2)" "settled b2" "config b2 = config b1" "rTableMap b2 = rTableMap b1"
      "\<exists>t \<in> set (timerQ b2). tm_handler t = LR_Timer \<and> tm_data t = \<lparr>td_type = LR_TIMER, td_data = n\<rparr>"
    by auto
  from repair_fails [OF b2(2), of n e1 "g_my_ip a" LR_TIMER] b1(2,4) b2(4) assms(4) obtain b3 where
    b3: "LR_handler \<lparr>td_type = LR_TIMER, td_data = n\<rparr> b2 = Inr ((), b3)"
      "dispatched b2 b3 = Some (carried (g_my_ip b2) 1 (g_my_ip a) (RERR_bytes (lost_route n (rt_dest_seq_num e1))))"
    by auto
  have ip2: "g_my_ip b2 = g_my_ip b" using config_fields [OF b2(3)] ip1 by simp
  from told_node_ends [OF assms(7-11) _ assms(13)] assms(12)
  have "process_aodv (carried (g_my_ip b) 1 (g_my_ip a) (RERR_bytes (lost_route n (rt_dest_seq_num e1)))) a = Inl NullDeref"
    by auto
  with b1(1) b2(1,5) b3 ip2 show ?thesis by auto
qed

text \<open>
  A broken link ends a daemon two hops before it. Node \<open>b\<close> loses its neighbour \<open>n\<close>; the packet for \<open>n\<close> that
  it is asked to pass on makes it try a repair, whose timer it starts; when the timer expires it
  sends a RERR to \<open>a\<close>, the one node that uses its route. If \<open>a\<close> has one node that uses its route in turn,
  its handler writes through a null pointer. Both have one after every route discovery along a line
  (\<open>route_discovery_along_line\<close>, \<open>used_by\<close>): every node of a line but the first and the last.
\<close>

theorem broken_link_ends_daemon:
  assumes "settled b" "map_of (rTableMap b) n = Some e" "rt_hop_cnt e \<noteq> INFINITY_HOPS" "rt_precursors e = [g_my_ip a]"
    and "ri_dst_ip i = n" "ri_src_ip i \<noteq> g_my_ip b"
    and "settled a" "map_of (rTableMap a) n = Some f" "rt_hop_cnt f \<noteq> INFINITY_HOPS" "rt_next_hop f = g_my_ip b"
      "length (rt_precursors f) = 1" "g_my_ip a \<noteq> g_my_ip b" "n \<noteq> g_my_ip b"
  shows "\<exists>b1 b2 b3 m.
      neighbor_timeout_handler \<lparr>td_type = ACTIVE_ROUTE_TIMER, td_data = n\<rparr> b = Inr ((), b1)
    \<and> process_asl i b1 = Inr ((), b2)
    \<and> (\<exists>t \<in> set (timerQ b2). tm_handler t = LR_Timer \<and> tm_data t = \<lparr>td_type = LR_TIMER, td_data = n\<rparr>)
    \<and> run_handler LR_Timer \<lparr>td_type = LR_TIMER, td_data = n\<rparr> b2 = Inr ((), b3)
    \<and> dispatched b2 b3 = Some (carried (g_my_ip b) 1 (g_my_ip a) m)
    \<and> process_aodv (carried (g_my_ip b) 1 (g_my_ip a) m) a = Inl NullDeref"
  using assms by (rule link_broken)

text \<open>Node 1 sends to node 9 over 5 and 6.\<close>

definition passing :: "ip \<Rightarrow> ip \<Rightarrow> u8 \<Rightarrow> ip \<Rightarrow> node" where
  "passing me next' hops user = (resting me)\<lparr>rTableMap :=
     [(9, addToPrecursor user (createEntry 9 7 hops next' 30000 ACTIVE_ROUTE))]\<rparr>"

lemma passing_settled: "settled (passing me next' hops user)"
proof -
  have "entry_wf 9 (addToPrecursor user (createEntry 9 7 hops next' 30000 ACTIVE_ROUTE))"
    by (intro entry_wf_addToPrecursor entry_wf_createEntry) simp
  from rt_wf_insert [OF rt_wf_Nil this]
  have "rt_wf [(9, addToPrecursor user (createEntry 9 7 hops next' 30000 ACTIVE_ROUTE))]" by simp
  then show ?thesis
    using resting_fit(1) [of me]
    by (simp add: settled_def fit_def safe_wf_def safe_def ack_free_def passing_def)
qed

theorem broken_link_ends_daemon_witness:
  "\<exists>b1 b2 b3 m.
      neighbor_timeout_handler \<lparr>td_type = ACTIVE_ROUTE_TIMER, td_data = 9\<rparr> (passing 6 9 1 5) = Inr ((), b1)
    \<and> process_asl \<lparr>ri_dst_ip = 9, ri_src_ip = 1, ri_protocol = 17\<rparr> b1 = Inr ((), b2)
    \<and> run_handler LR_Timer \<lparr>td_type = LR_TIMER, td_data = 9\<rparr> b2 = Inr ((), b3)
    \<and> dispatched b2 b3 = Some (carried 6 1 5 m) \<and> process_aodv (carried 6 1 5 m) (passing 5 6 2 1) = Inl NullDeref"
proof -
  have ip: "g_my_ip (passing me next' hops user) = me" for me next' hops user by (simp add: passing_def resting_def)
  have e: "map_of (rTableMap (passing me next' hops user)) 9
      = Some (addToPrecursor user (createEntry 9 7 hops next' 30000 ACTIVE_ROUTE))" for me next' hops user
    by (simp add: passing_def)
  have p: "rt_hop_cnt (addToPrecursor user (createEntry 9 7 hops next' 30000 ACTIVE_ROUTE)) = hops"
      "rt_next_hop (addToPrecursor user (createEntry 9 7 hops next' 30000 ACTIVE_ROUTE)) = next'"
      "rt_precursors (addToPrecursor user (createEntry 9 7 hops next' 30000 ACTIVE_ROUTE)) = [user]" for hops next' user
    by (simp_all add: addToPrecursor_def createEntry_def)
  show ?thesis
    using broken_link_ends_daemon [OF passing_settled [of 6 9 1 5] e _ _ _ _ passing_settled [of 5 6 2 1] e,
        of "\<lparr>ri_dst_ip = 9, ri_src_ip = 1, ri_protocol = 17\<rparr>", unfolded ip p]
    by simp blast
qed

lemma ahead_end: "ahead T dst (us @ [a, b]) \<Longrightarrow> leads (T (g_my_ip a)) dst (g_my_ip b) 2 a \<and> leads (T (g_my_ip b)) dst dst 1 b"
  by (induction us) (auto simp: numeral_2_eq_2)

lemma fit_later: "fit T s \<Longrightarrow> 12 \<le> malloc_usable E 4 \<Longrightarrow> settled (s\<lparr>env := E\<rparr>)"
  by (simp add: fit_def settled_def safe_wf_def safe_def ack_free_def)

text \<open>
  C4. Every route that is discovered over at least two nodes in between can end a daemon. The RREQ
  and the RREP of a route discovery go along the line of \<open>route_discovery_along_line\<close>. Later, under any
  clocks, the node \<open>b''\<close> in front of the destination loses it; the packet that \<open>b''\<close> is then asked to pass on
  makes it try a repair, whose timer it starts; when that timer expires it sends a RERR to the node
  \<open>a''\<close> before it, whose handler writes through a null pointer.
\<close>

theorem discovered_route_ends_daemon:
  assumes "plain_RREQ q" "rq_hop_cnt q = 0" "rq_src_ip q = g_my_ip o'" "rq_dest_ip q = g_my_ip d"
    and "distinct (map g_my_ip (o' # ss @ [d]))" "0 \<notin> g_my_ip ` set (o' # ss @ [d])"
    and "\<forall>s \<in> set (ss @ [d]). joins T q s" "fit (T (g_my_ip o')) o'"
      "\<forall>s \<in> set (o' # ss). map_of (rTableMap s) (g_my_ip d) = None"
    and "int (length ss) < ttl" "ttl \<le> 256" "length ss < 35"
    and "ss = us @ [a, b]" "ri_dst_ip i = g_my_ip d" "ri_src_ip i \<noteq> g_my_ip b"
    and "12 \<le> malloc_usable E 4" "12 \<le> malloc_usable F 4"
  shows "\<exists>reply ss' d' us'' a'' b'' o'' end' b1 b2 b3 m.
      relay (Some (carried (g_my_ip o') ttl BROADCAST_ADDR (RREQ_bytes q))) (ss @ [d]) = Inr (Some reply, ss' @ [d'])
    \<and> relay (Some reply) (rev ss' @ [o']) = Inr (end', rev (us'' @ [a'', b'']) @ [o''])
    \<and> map config (us'' @ [a'', b'']) = map config ss
    \<and> neighbor_timeout_handler \<lparr>td_type = ACTIVE_ROUTE_TIMER, td_data = g_my_ip d\<rparr> (b''\<lparr>env := E\<rparr>) = Inr ((), b1)
    \<and> process_asl i b1 = Inr ((), b2)
    \<and> (\<exists>t \<in> set (timerQ b2). tm_handler t = LR_Timer \<and> tm_data t = \<lparr>td_type = LR_TIMER, td_data = g_my_ip d\<rparr>)
    \<and> run_handler LR_Timer \<lparr>td_type = LR_TIMER, td_data = g_my_ip d\<rparr> b2 = Inr ((), b3)
    \<and> dispatched b2 b3 = Some (carried (g_my_ip b) 1 (g_my_ip a) m)
    \<and> process_aodv (carried (g_my_ip b) 1 (g_my_ip a) m) (a''\<lparr>env := F\<rparr>) = Inl NullDeref"
proof -
  let ?dst = "g_my_ip d"
  from discovery_line [OF assms(1-12)] obtain reply ss' d' ss'' o'' end' where r:
      "relay (Some (carried (g_my_ip o') ttl BROADCAST_ADDR (RREQ_bytes q))) (ss @ [d]) = Inr (Some reply, ss' @ [d'])"
      "relay (Some reply) (rev ss' @ [o']) = Inr (end', rev ss'' @ [o''])" "map config ss'' = map config ss"
      "ahead T ?dst (o'' # ss'')" "used_by ?dst (g_my_ip o') (rev ss'')" "\<forall>s \<in> set ss''. fit (T (g_my_ip s)) s"
    by auto
  obtain us'' a'' b'' where u: "ss'' = us'' @ [a'', b'']" "config a'' = config a" "config b'' = config b"
    using r(3) unfolding assms(13) by (auto simp: map_eq_append_conv map_eq_Cons_conv)
  have ip: "g_my_ip a'' = g_my_ip a" "g_my_ip b'' = g_my_ip b"
    using config_fields [OF u(2)] config_fields [OF u(3)] by simp_all
  have dist: "g_my_ip a \<noteq> g_my_ip b" "?dst \<noteq> g_my_ip b" using assms(5) unfolding assms(13) by auto
  have "ahead T ?dst ((o'' # us'') @ [a'', b''])" using r(4) by (simp add: u(1))
  from ahead_end [OF this] obtain e f where
    f: "map_of (rTableMap a'') ?dst = Some f" "rt_next_hop f = g_my_ip b" "unat (rt_hop_cnt f) = 2" and
    e: "map_of (rTableMap b'') ?dst = Some e" "unat (rt_hop_cnt e) = 1"
    by (auto simp: leads_def ip)
  have hops: "rt_hop_cnt e \<noteq> INFINITY_HOPS" "rt_hop_cnt f \<noteq> INFINITY_HOPS" using e(2) f(3) by auto
  have used: "rt_precursors e = [g_my_ip a]" "length (rt_precursors f) = 1"
    using r(5) e(1) f(1) by (auto simp: u(1) precursors_def ip)
  have later: "settled (b''\<lparr>env := E\<rparr>)" "settled (a''\<lparr>env := F\<rparr>)"
    using r(6) fit_later assms(16,17) by (auto simp: u(1))
  have "\<exists>b1 b2 b3 m.
      neighbor_timeout_handler \<lparr>td_type = ACTIVE_ROUTE_TIMER, td_data = ?dst\<rparr> (b''\<lparr>env := E\<rparr>) = Inr ((), b1)
    \<and> process_asl i b1 = Inr ((), b2)
    \<and> (\<exists>t \<in> set (timerQ b2). tm_handler t = LR_Timer \<and> tm_data t = \<lparr>td_type = LR_TIMER, td_data = ?dst\<rparr>)
    \<and> run_handler LR_Timer \<lparr>td_type = LR_TIMER, td_data = ?dst\<rparr> b2 = Inr ((), b3)
    \<and> dispatched b2 b3 = Some (carried (g_my_ip (b''\<lparr>env := E\<rparr>)) 1 (g_my_ip (a''\<lparr>env := F\<rparr>)) m)
    \<and> process_aodv (carried (g_my_ip (b''\<lparr>env := E\<rparr>)) 1 (g_my_ip (a''\<lparr>env := F\<rparr>)) m) (a''\<lparr>env := F\<rparr>) = Inl NullDeref"
    by (rule link_broken [OF later(1) _ hops(1) _ assms(14) _ later(2) _ hops(2)])
      (use e f used dist assms(15) in \<open>simp_all add: ip\<close>)
  then obtain b1 b2 b3 m where
    "neighbor_timeout_handler \<lparr>td_type = ACTIVE_ROUTE_TIMER, td_data = ?dst\<rparr> (b''\<lparr>env := E\<rparr>) = Inr ((), b1)"
    "process_asl i b1 = Inr ((), b2)"
    "\<exists>t \<in> set (timerQ b2). tm_handler t = LR_Timer \<and> tm_data t = \<lparr>td_type = LR_TIMER, td_data = ?dst\<rparr>"
    "run_handler LR_Timer \<lparr>td_type = LR_TIMER, td_data = ?dst\<rparr> b2 = Inr ((), b3)"
    "dispatched b2 b3 = Some (carried (g_my_ip b) 1 (g_my_ip a) m)"
    "process_aodv (carried (g_my_ip b) 1 (g_my_ip a) m) (a''\<lparr>env := F\<rparr>) = Inl NullDeref"
    by (simp add: ip) blast
  with r(1-3) show ?thesis unfolding u(1) by blast
qed

theorem discovered_route_ends_daemon_witness:
  "\<exists>reply ss' d' a'' b'' o'' end' b1 b2 b3 m.
      relay (Some (carried 1 3 BROADCAST_ADDR (RREQ_bytes own_rreq))) [resting 5, resting 6, resting 9] = Inr (Some reply, ss' @ [d'])
    \<and> relay (Some reply) (rev ss' @ [searching]) = Inr (end', [b'', a'', o''])
    \<and> neighbor_timeout_handler \<lparr>td_type = ACTIVE_ROUTE_TIMER, td_data = 9\<rparr> (b''\<lparr>env := quiet_env 30000\<rparr>) = Inr ((), b1)
    \<and> process_asl \<lparr>ri_dst_ip = 9, ri_src_ip = 1, ri_protocol = 17\<rparr> b1 = Inr ((), b2)
    \<and> run_handler LR_Timer \<lparr>td_type = LR_TIMER, td_data = 9\<rparr> b2 = Inr ((), b3)
    \<and> dispatched b2 b3 = Some (carried 6 1 5 m)
    \<and> process_aodv (carried 6 1 5 m) (a''\<lparr>env := quiet_env 30000\<rparr>) = Inl NullDeref"
proof -
  have ip: "g_my_ip searching = 1" "g_my_ip (resting a) = a" "rTableMap searching = []" "rTableMap (resting a) = []" for a
    by (simp_all add: searching_def resting_def)
  have q: "plain_RREQ own_rreq" "rq_hop_cnt own_rreq = 0" "rq_src_ip own_rreq = 1" "rq_dest_ip own_rreq = 9"
    by (simp_all add: own_rreq_def plain_RREQ_def RREQ_copy_def)
  have m: "12 \<le> malloc_usable (quiet_env 30000) 4" by (simp add: state_fields)
  from discovered_route_ends_daemon [of own_rreq searching "resting 9" "[resting 5, resting 6]" "\<lambda>_. 17000" 3 "[]" "resting 5" "resting 6"
      "\<lparr>ri_dst_ip = 9, ri_src_ip = 1, ri_protocol = 17\<rparr>", OF _ _ _ _ _ _ _ _ _ _ _ _ _ _ _ m m]
  obtain reply ss' d' us'' a'' b'' o'' end' b1 b2 b3 m where r:
      "relay (Some (carried 1 3 BROADCAST_ADDR (RREQ_bytes own_rreq))) [resting 5, resting 6, resting 9] = Inr (Some reply, ss' @ [d'])"
      "relay (Some reply) (rev ss' @ [searching]) = Inr (end', rev (us'' @ [a'', b'']) @ [o''])"
      "map config (us'' @ [a'', b'']) = map config [resting 5, resting 6]"
      "neighbor_timeout_handler \<lparr>td_type = ACTIVE_ROUTE_TIMER, td_data = 9\<rparr> (b''\<lparr>env := quiet_env 30000\<rparr>) = Inr ((), b1)"
      "process_asl \<lparr>ri_dst_ip = 9, ri_src_ip = 1, ri_protocol = 17\<rparr> b1 = Inr ((), b2)"
      "run_handler LR_Timer \<lparr>td_type = LR_TIMER, td_data = 9\<rparr> b2 = Inr ((), b3)"
      "dispatched b2 b3 = Some (carried 6 1 5 m)"
      "process_aodv (carried 6 1 5 m) (a''\<lparr>env := quiet_env 30000\<rparr>) = Inl NullDeref"
    by (auto simp: ip q resting_fit resting_joins)
  from r(3) have "us'' = []" by (cases us'') auto
  with r show ?thesis by auto
qed

end
