(* ===== verification/Delivery.thy ===== *)
theory Delivery
  imports Path
begin

text \<open>
  What a search comes to: when its timer runs out, the daemon asks again with a larger time to live;
  with the RREQ that follows the route is found, and the kernel module sends the packets that
  have waited for it. At most four timeouts of a search repeat it.
\<close>

section \<open>The search goes on\<close>

text \<open>The RREQ of the next attempt, to a destination of which the table has no entry.\<close>

definition next_request :: "RREQ \<Rightarrow> node \<Rightarrow> RREQ" where
  "next_request q s = q\<lparr>rq_rreq_id := rreqId s + 1, rq_dest_seq_num := 0, rq_src_seq_num := localSeqNum s + 1\<rparr>"

lemma next_request_fields [simp]:
  "rq_src_ip (next_request q s) = rq_src_ip q" "rq_dest_ip (next_request q s) = rq_dest_ip q"
  "rq_hop_cnt (next_request q s) = rq_hop_cnt q" "plain_RREQ (next_request q s) = plain_RREQ q"
proof -
  show "plain_RREQ (next_request q s) = plain_RREQ q"
    by (cases q) (auto simp: next_request_def plain_RREQ_def RREQ_copy_def)
qed (simp_all add: next_request_def)

lemma send_bytes_counts:
  "send_bytes dst ttl bs s = Inr (x, s') \<Longrightarrow>
    rreqId s' = rreqId s \<and> localSeqNum s' = localSeqNum s \<and> rreq_list s' = rreq_list s"
  by (auto simp: send_bytes_def sendPacket_def copyToSendBuf_def genSndData_def emit_def sm_simps split: if_splits)

lemma pending_found:
  "rreqPendingList_inList l dst = Some e \<Longrightarrow> rq_dest_ip (pe_rreqOb e') = rq_dest_ip (pe_rreqOb e) \<Longrightarrow>
    rq_dest_ip (pe_rreqOb e'') = rq_dest_ip (pe_rreqOb e) \<Longrightarrow>
    rreqPendingList_inList (rreqPendingList_write dst e'' (rreqPendingList_write dst e' l)) dst = Some e''"
  by (intro rreqPendingList_inList_write) (auto dest: rreqPendingList_inList_Some intro: rreqPendingList_inList_write)

lemma resend_dispatches:
  assumes "fit T s" "pending_ok s" "rreqPendingList_inList (rreq_list s) dst = Some e" "map_of (rTableMap s) dst = None"
    and "pe_retries (next_try (expandingRingSearch s) e) \<le> RREQ_RETRIES"
    and "0 < pe_ttl (next_try (expandingRingSearch s) e)" "pe_ttl (next_try (expandingRingSearch s) e) < 256"
  shows "\<exists>s'. resendRREQ \<lparr>td_type = ty, td_data = dst\<rparr> s = Inr ((), s') \<and> fit T s' \<and> config s' = config s
    \<and> rTableMap s' = rTableMap s \<and> rreqId s' = rreqId s + 1 \<and> localSeqNum s' = localSeqNum s + 1
    \<and> rreqPendingList_inList (rreq_list s') dst =
        Some ((next_try (expandingRingSearch s) e)\<lparr>pe_rreqOb := next_request (pe_rreqOb e) s\<rparr>)
    \<and> dispatched s s' = Some (carried (g_my_ip s) (pe_ttl (next_try (expandingRingSearch s) e)) BROADCAST_ADDR
        (RREQ_bytes (next_request (pe_rreqOb e) s)))"
proof -
  let ?e = "next_try (expandingRingSearch s) e" and ?d = "\<lparr>td_type = ty, td_data = dst\<rparr>"
  let ?q = "next_request (pe_rreqOb e) s" and ?ttl = "pe_ttl ?e"
  have ob: "pe_rreqOb ?e = pe_rreqOb e" by (simp add: next_try_def Let_def)
  have safe: "safe_wf s" using assms(1) by (simp add: fit_def)
  from runsD [OF runs_resendRREQ safe, of ?d] obtain s' where s': "resendRREQ ?d s = Inr ((), s')" by auto
  note k = fit_keeps [OF via_resendRREQ assms(2) s' assms(1)]
  let ?t = "s\<lparr>rreqId := rreqId s + 1, localSeqNum := localSeqNum s + 1,
      rreq_list := rreqPendingList_write dst (?e\<lparr>pe_rreqOb := ?q\<rparr>) (rreqPendingList_write dst ?e (rreq_list s))\<rparr>"
  have q: "(pe_rreqOb e)\<lparr>rq_rreq_id := rreqId s + 1, rq_dest_seq_num := 0, rq_src_seq_num := localSeqNum s + 1\<rparr> = ?q"
    by (simp add: next_request_def)
  have few: "\<not> RREQ_RETRIES < pe_retries ?e" using assms(5) by simp
  have "andthen (setRREQTimer dst ?ttl) (send_bytes BROADCAST_ADDR ?ttl (RREQ_bytes ?q)) ?t = Inr ((), s')"
    using s' assms(3,4) few
    by (simp add: resendRREQ_def resend_entry_def rreqL_write_def getDestSeqNum_def findRoute_def upd_def gets_apply
        bnd_apply andthen_apply ret_apply Let_def ob q)
  then obtain u where u: "setRREQTimer dst ?ttl ?t = Inr ((), u)"
      "send_bytes BROADCAST_ADDR ?ttl (RREQ_bytes ?q) u = Inr ((), s')"
    by (auto simp: andthen_apply split: sum.splits)
  have u': "rTableMap u = rTableMap s" "since s u"
    using u(1) by (auto simp: setRREQTimer_def set_timer_run setRealTimer_def emit_def sm_simps Let_def since_def
        split: if_splits)
  have ttl: "?ttl \<noteq> 0" using assms(6) by simp
  note so = send_bytes_outs [OF u(2) ttl]
  have o: "outs s' = outs u @ [SetTTL ?ttl] @ [Sendto BROADCAST_ADDR (RREQ_bytes ?q)]"
    using so(1) assms(6,7) by simp
  from since_last [OF u'(2) o] config_fields [OF k(2)]
  have "dispatched s s' = Some (carried (g_my_ip s) ?ttl BROADCAST_ADDR (RREQ_bytes ?q))"
    by (simp add: o socket_ttl_def)
  moreover have "rreq_list u = rreq_list ?t" "rreqId u = rreqId ?t" "localSeqNum u = localSeqNum ?t"
    using u(1) by (auto simp: setRREQTimer_def set_timer_run setRealTimer_def emit_def sm_simps Let_def split: if_splits)
  with send_bytes_counts [OF u(2)] pending_found [OF assms(3)] ob
  have "rreqId s' = rreqId s + 1 \<and> localSeqNum s' = localSeqNum s + 1 \<and> rreqPendingList_inList (rreq_list s') dst = Some (?e\<lparr>pe_rreqOb := ?q\<rparr>)"
    by simp
  ultimately show ?thesis using s' k so(2) u'(1) by simp
qed

section \<open>The repetitions of a search\<close>

text \<open>
  \<open>resent dst ring n e e'\<close>: \<open>n\<close> timeouts of the search for \<open>dst\<close>, each of which repeats the RREQ (it takes a new
  id), turn its entry from \<open>e\<close> into \<open>e'\<close>. Between the timeouts anything may happen that leaves the entry as it is.
\<close>

inductive resent :: "ip \<Rightarrow> bool \<Rightarrow> nat \<Rightarrow> rreq_list_entry \<Rightarrow> rreq_list_entry \<Rightarrow> bool" for dst ring where
  resent_none: "resent dst ring 0 e e"
| resent_again: "resent dst ring n e e' \<Longrightarrow> rreqPendingList_inList (rreq_list s) dst = Some e' \<Longrightarrow>
    expandingRingSearch s = ring \<Longrightarrow> resendRREQ \<lparr>td_type = RREQ_TIMER, td_data = dst\<rparr> s = Inr ((), s') \<Longrightarrow>
    rreqId s' \<noteq> rreqId s \<Longrightarrow> rreqPendingList_inList (rreq_list s') dst = Some e'' \<Longrightarrow>
    resent dst ring (Suc n) e e''"

lemma next_try_update: "next_try ring (e\<lparr>pe_rreqOb := q\<rparr>) = (next_try ring e)\<lparr>pe_rreqOb := q\<rparr>"
  by (simp add: next_try_def Let_def)

lemma resend_kept:
  assumes "resendRREQ \<lparr>td_type = ty, td_data = dst\<rparr> s = Inr ((), s')" "rreqPendingList_inList (rreq_list s) dst = Some e"
    and "pe_retries (next_try (expandingRingSearch s) e) \<le> RREQ_RETRIES"
  shows "rreqId s' = rreqId s + 1
    \<and> (\<exists>q. rreqPendingList_inList (rreq_list s') dst = Some ((next_try (expandingRingSearch s) e)\<lparr>pe_rreqOb := q\<rparr>))"
proof -
  let ?e = "next_try (expandingRingSearch s) e"
  have "resend_entry dst ?e (s\<lparr>rreq_list := rreqPendingList_write dst ?e (rreq_list s)\<rparr>) = Inr ((), s')"
    using assms by (simp add: resendRREQ_def rreqL_write_def sm_simps Let_def split: if_splits)
  then have "\<exists>q u v. setRREQTimer dst (pe_ttl ?e) u = Inr ((), v) \<and> send_bytes BROADCAST_ADDR (pe_ttl ?e) (RREQ_bytes q) v = Inr ((), s')
      \<and> rreq_list u = rreqPendingList_write dst (?e\<lparr>pe_rreqOb := q\<rparr>) (rreqPendingList_write dst ?e (rreq_list s))
      \<and> rreqId u = rreqId s + 1 \<and> rq_dest_ip q = rq_dest_ip (pe_rreqOb e)"
    by (auto simp: resend_entry_def rreqL_write_def getDestSeqNum_def findRoute_def upd_def gets_apply
        bnd_apply andthen_apply ret_apply Let_def split: option.splits sum.splits intro!: exI)
  then obtain q u v where u: "setRREQTimer dst (pe_ttl ?e) u = Inr ((), v)" "send_bytes BROADCAST_ADDR (pe_ttl ?e) (RREQ_bytes q) v = Inr ((), s')"
      "rreq_list u = rreqPendingList_write dst (?e\<lparr>pe_rreqOb := q\<rparr>) (rreqPendingList_write dst ?e (rreq_list s))"
      "rreqId u = rreqId s + 1" "rq_dest_ip q = rq_dest_ip (pe_rreqOb e)"
    by blast
  from u(1) have "rreq_list v = rreq_list u \<and> rreqId v = rreqId u"
    by (auto simp: setRREQTimer_def set_timer_run setRealTimer_def emit_def sm_simps Let_def split: if_splits)
  with send_bytes_counts [OF u(2)] u(3-5) show ?thesis
    using pending_found [OF assms(2), of ?e "?e\<lparr>pe_rreqOb := q\<rparr>"] by auto
qed

lemma new_id_few:
  "resendRREQ \<lparr>td_type = ty, td_data = dst\<rparr> s = Inr ((), s') \<Longrightarrow> rreqPendingList_inList (rreq_list s) dst = Some e \<Longrightarrow>
   rreqId s' \<noteq> rreqId s \<Longrightarrow> pe_retries (next_try (expandingRingSearch s) e) \<le> RREQ_RETRIES"
  by (auto simp: resendRREQ_def rreqL_write_def rreqL_deleteFromList_def la_reply_def emit_def sm_simps
      Let_def not_less [symmetric])

lemma resent_once:
  assumes "safe_wf s" "rreqPendingList_inList (rreq_list s) dst = Some e"
    and "pe_retries (next_try (expandingRingSearch s) e) \<le> RREQ_RETRIES"
  shows "\<exists>e'. resent dst (expandingRingSearch s) 1 e e'"
proof -
  from runsD [OF runs_resendRREQ assms(1)]
  obtain s' where s': "resendRREQ \<lparr>td_type = RREQ_TIMER, td_data = dst\<rparr> s = Inr ((), s')" by auto
  with resend_kept [OF s' assms(2,3)] resent_again [OF resent_none assms(2) refl s'] show ?thesis by auto
qed

lemma resent_bounded:
  assumes "resent dst ring n e e'" "pe_retries e \<le> RREQ_RETRIES" "ring \<longrightarrow> 1 \<le> pe_ttl e"
  shows "n \<le> 4 \<and> (\<exists>q. e' = ((next_try ring ^^ n) e)\<lparr>pe_rreqOb := q\<rparr>)"
  using assms
proof induction
  case (resent_none e)
  show ?case by (rule conjI, simp) (rule exI [of _ "pe_rreqOb e"], simp)
next
  case (resent_again n e e' s s' e'')
  then obtain q where n: "n \<le> 4" and e': "e' = ((next_try ring ^^ n) e)\<lparr>pe_rreqOb := q\<rparr>" by blast
  note few = new_id_few [OF resent_again.hyps(4,2,5)]
  note kept = resend_kept [OF resent_again.hyps(4,2) few]
  have "pe_retries ((next_try ring ^^ Suc n) e) \<le> RREQ_RETRIES"
    using few resent_again.hyps(3) by (simp add: e' next_try_update)
  with retries_run_out [OF resent_again.prems] have "Suc n \<noteq> 5" by (metis not_less)
  with n kept resent_again.hyps(3,6) show ?case by (auto simp: e' next_try_update)
qed

section \<open>The packets leave\<close>

text \<open>
  A search delivers its packets. The timer of a search for \<open>d\<close> runs out, the daemon broadcasts the
  next RREQ with the next time to live; over a line of nodes that is shorter than that it reaches \<open>d\<close>,
  and the RREP comes back; the daemon's message to its agent becomes the answer to the kernel module,
  which sends every packet that waited for \<open>d\<close> over the new route, oldest first, and keeps the
  others.
\<close>

theorem search_delivers_packets:
  assumes "fit (T (g_my_ip o')) o'" "pending_ok o'" "rreqPendingList_inList (rreq_list o') (g_my_ip d) = Some e"
    and "plain_RREQ (pe_rreqOb e)" "rq_hop_cnt (pe_rreqOb e) = 0" "rq_src_ip (pe_rreqOb e) = g_my_ip o'"
    and "next_try (expandingRingSearch o') e = n" "pe_retries n \<le> RREQ_RETRIES" "int (length ss) < pe_ttl n" "pe_ttl n \<le> NET_DIAMETER"
    and "distinct (map g_my_ip (o' # ss @ [d]))" "0 \<notin> g_my_ip ` set (o' # ss @ [d])"
    and "\<forall>s \<in> set (ss @ [d]). joins T (next_request (pe_rreqOb e) o') s"
      "\<forall>s \<in> set (o' # ss). map_of (rTableMap s) (g_my_ip d) = None"
    and "memory (aenv a)" "kmod_inv k" "my_queue_head k = Ptr h" "routed (kenv k) (g_my_ip d) dev" "dev \<noteq> TUNNAME"
  shows "\<exists>o1 req reply ss' d' ss'' o'' end' bytes a1 ans k1.
      resendRREQ \<lparr>td_type = RREQ_TIMER, td_data = g_my_ip d\<rparr> o' = Inr ((), o1) \<and> dispatched o' o1 = Some req
    \<and> relay (Some req) (ss @ [d]) = Inr (Some reply, ss' @ [d'])
    \<and> relay (Some reply) (rev ss' @ [o1]) = Inr (end', rev ss'' @ [o''])
    \<and> map config ss'' = map config ss \<and> ahead T (g_my_ip d) (o'' # ss'') \<and> La_send bytes \<in> set (outs o'')
    \<and> la_serv_handle_message fd bytes a = Inr (0, a1) \<and> aouts a1 = aouts a @ [Netlink_send (nlfd a) ans]
    \<and> recv_msg 1001 ans k = Inr ((), k1) \<and> my_queue_head k1 = Ptr (without (g_my_ip d) h)
    \<and> kouts k1 = kouts k @ map (\<lambda>e. Xmit ((el_skb e)\<lparr>sk_dst_dev := dev\<rparr>)) (waiting (g_my_ip d) h)"
proof -
  let ?q = "next_request (pe_rreqOb e) o'"
  have dst: "rq_dest_ip (pe_rreqOb e) = g_my_ip d" using assms(3) by (auto dest: rreqPendingList_inList_Some)
  have ttl: "pe_retries (next_try (expandingRingSearch o') e) \<le> RREQ_RETRIES"
      "0 < pe_ttl (next_try (expandingRingSearch o') e)" "pe_ttl (next_try (expandingRingSearch o') e) < 256"
    using assms(7-10) by (simp_all add: param_values)
  from resend_dispatches [OF assms(1-3) _ ttl, of RREQ_TIMER] assms(7,14) obtain o1 where
    o1: "resendRREQ \<lparr>td_type = RREQ_TIMER, td_data = g_my_ip d\<rparr> o' = Inr ((), o1)" "fit (T (g_my_ip o')) o1"
      "config o1 = config o'" "rTableMap o1 = rTableMap o'"
      "dispatched o' o1 = Some (carried (g_my_ip o') (pe_ttl n) BROADCAST_ADDR (RREQ_bytes ?q))"
    by auto
  have ip: "g_my_ip o1 = g_my_ip o'" using config_fields [OF o1(3)] by simp
  have "\<exists>reply ss' d' ss'' o'' end'.
      relay (Some (carried (g_my_ip o1) (pe_ttl n) BROADCAST_ADDR (RREQ_bytes ?q))) (ss @ [d]) = Inr (Some reply, ss' @ [d'])
    \<and> relay (Some reply) (rev ss' @ [o1]) = Inr (end', rev ss'' @ [o''])
    \<and> map config ss'' = map config ss \<and> config d' = config d \<and> config o'' = config o1
    \<and> ahead T (g_my_ip d) (o'' # ss'') \<and> ahead T (g_my_ip o1) (d' # rev ss'')
    \<and> used_by (g_my_ip d) (g_my_ip o1) (rev ss'') \<and> announced (g_my_ip d) (g_my_ip (hd (ss @ [d]))) o''
    \<and> (\<forall>s \<in> set (o'' # ss'' @ [d']). fit (T (g_my_ip s)) s)"
    by (rule discovery_line) (use assms(4-6,9-14) dst ip o1(2,4) in \<open>auto simp: param_values\<close>)
  then obtain reply ss' d' ss'' o'' end' where r:
      "relay (Some (carried (g_my_ip o1) (pe_ttl n) BROADCAST_ADDR (RREQ_bytes ?q))) (ss @ [d]) = Inr (Some reply, ss' @ [d'])"
      "relay (Some reply) (rev ss' @ [o1]) = Inr (end', rev ss'' @ [o''])" "ahead T (g_my_ip d) (o'' # ss'')"
      "map config ss'' = map config ss" "announced (g_my_ip d) (g_my_ip (hd (ss @ [d]))) o''"
    by blast
  from announced_release [OF r(5) assms(15-19)] obtain bytes a1 ans k1 where
    "La_send bytes \<in> set (outs o'')" "la_serv_handle_message fd bytes a = Inr (0, a1)"
    "aouts a1 = aouts a @ [Netlink_send (nlfd a) ans]" "recv_msg 1001 ans k = Inr ((), k1)"
    "my_queue_head k1 = Ptr (without (g_my_ip d) h)"
    "kouts k1 = kouts k @ map (\<lambda>e. Xmit ((el_skb e)\<lparr>sk_dst_dev := dev\<rparr>)) (waiting (g_my_ip d) h)"
    by blast
  with o1(1,5) r(1-4) show ?thesis unfolding ip by blast
qed

theorem search_delivers_packets_witness:
  "\<exists>o1 req reply s' d' s'' o'' end' bytes a1 ans k1.
      resendRREQ \<lparr>td_type = RREQ_TIMER, td_data = 9\<rparr> searching = Inr ((), o1) \<and> dispatched searching o1 = Some req
    \<and> relay (Some req) [resting 5, resting 9] = Inr (Some reply, [s', d'])
    \<and> relay (Some reply) [s', o1] = Inr (end', [s'', o'']) \<and> leads 17000 9 5 2 o'' \<and> La_send bytes \<in> set (outs o'')
    \<and> la_serv_handle_message 7 bytes one_daemon = Inr (0, a1) \<and> aouts a1 = aouts one_daemon @ [Netlink_send 5 ans]
    \<and> recv_msg 1001 ans holding = Inr ((), k1) \<and> kouts k1 = [Xmit ((tun_packet 2 9)\<lparr>sk_dst_dev := ''wlan0''\<rparr>)]"
proof -
  let ?e = "\<lparr>pe_rreqOb = own_rreq, pe_retries = 0, pe_ttl = 3\<rparr>" and ?n = "\<lparr>pe_rreqOb = own_rreq, pe_retries = 0, pe_ttl = 5\<rparr>"
  have ip: "g_my_ip searching = 1" "g_my_ip (resting a) = a" "rTableMap searching = []" "rTableMap (resting a) = []" for a
    by (simp_all add: searching_def resting_def)
  have e: "rreqPendingList_inList (rreq_list searching) 9 = Some ?e" "pending_ok searching"
      "next_try (expandingRingSearch searching) ?e = ?n"
    by (simp_all add: searching_def resting_def state_fields own_rreq_def pending_ok_def ttl_ok_def next_try_def param_values)
  have q: "plain_RREQ own_rreq" "rq_hop_cnt own_rreq = 0" "rq_src_ip own_rreq = 1"
    by (simp_all add: own_rreq_def plain_RREQ_def RREQ_copy_def)
  have j: "joins (\<lambda>_. 17000) (next_request own_rreq searching) (resting a)" for a
    using resting_fit(1) [of a]
    by (simp add: joins_def stale_def known_rreq_def resting_def state_fields)
  have a: "memory (aenv one_daemon)" "my_queue_head holding = Ptr two_held" "map el_skb (waiting 9 two_held) = [tun_packet 2 9]"
      "kouts holding = []" "nlfd one_daemon = 5" "routed (kenv holding) 9 ''wlan0''"
    by (simp_all add: agent_fields kernel_fields waiting_def routed_def)
  have w: "map (\<lambda>e. Xmit ((el_skb e)\<lparr>sk_dst_dev := ''wlan0''\<rparr>)) (waiting 9 two_held)
      = map (\<lambda>p. Xmit (p\<lparr>sk_dst_dev := ''wlan0''\<rparr>)) (map el_skb (waiting 9 two_held))" by simp
  from search_delivers_packets [of "\<lambda>_. 17000" searching "resting 9" ?e ?n "[resting 5]" one_daemon holding two_held
      "''wlan0''" 7]
  obtain o1 req reply ss' d' ss'' o'' end' bytes a1 ans k1 where r:
      "resendRREQ \<lparr>td_type = RREQ_TIMER, td_data = 9\<rparr> searching = Inr ((), o1)" "dispatched searching o1 = Some req"
      "relay (Some req) [resting 5, resting 9] = Inr (Some reply, ss' @ [d'])"
      "relay (Some reply) (rev ss' @ [o1]) = Inr (end', rev ss'' @ [o''])" "ahead (\<lambda>_. 17000) 9 (o'' # ss'')"
      "map config ss'' = [config (resting 5)]" "La_send bytes \<in> set (outs o'')" "la_serv_handle_message 7 bytes one_daemon = Inr (0, a1)"
      "aouts a1 = aouts one_daemon @ [Netlink_send 5 ans]"
      "recv_msg 1001 ans holding = Inr ((), k1)" "kouts k1 = [Xmit ((tun_packet 2 9)\<lparr>sk_dst_dev := ''wlan0''\<rparr>)]"
    by (auto simp: ip resting_fit j e q a holding_inv(1) w param_values)
  have "length (ss' @ [d']) = 2" using relay_length [OF r(3)] by simp
  then obtain s' where s': "ss' = [s']" by (cases ss') auto
  have "length (rev ss'' @ [o'']) = 2" using relay_length [OF r(4)] s' by simp
  then obtain s'' where s'': "ss'' = [s'']" by (cases ss'') auto
  have "g_my_ip s'' = 5 \<and> leads 17000 9 5 2 o''"
    using r(5,6) s'' ip by (auto simp: config_def numeral_2_eq_2)
  with r s' s'' show ?thesis by auto
qed

end
