(* ===== verification/Search.thy ===== *)
theory Search
  imports Delivery
begin

text \<open>
  A whole search: an RREQ that does not get as far as its destination dies out, the daemon's timer
  runs out and the next RREQ goes further, until one arrives (expanding ring search, \<open>resendRREQ\<close>
  in \<open>LA_Client_aodv/aodv.cc\<close>).
\<close>

section \<open>Attempts\<close>

text \<open>
  One attempt after the other: the timer of the search runs out at \<open>o'\<close>, and its RREQ is followed
  along the line. The first attempt that is answered is the last. Before each attempt the nodes are
  given the environment, by address, that they read from during it.
\<close>

definition wake :: "(ip \<Rightarrow> env) \<Rightarrow> node \<Rightarrow> node" where
  "wake v s = s\<lparr>env := v (g_my_ip s)\<rparr>"

fun attempts :: "(ip \<Rightarrow> env) list \<Rightarrow> ip \<Rightarrow> node \<Rightarrow> node list \<Rightarrow> fault + received option \<times> node \<times> node list" where
  "attempts [] dst o' ss = Inr (None, o', ss)"
| "attempts (v # vs) dst o' ss =
     (case resendRREQ \<lparr>td_type = RREQ_TIMER, td_data = dst\<rparr> (wake v o') of
        Inl f \<Rightarrow> Inl f
      | Inr (_, o1) \<Rightarrow>
          (case relay (dispatched (wake v o') o1) (map (wake v) ss) of
             Inl f \<Rightarrow> Inl f
           | Inr (None, ss') \<Rightarrow> attempts vs dst o1 ss'
           | Inr (Some reply, ss') \<Rightarrow> Inr (Some reply, o1, ss')))"

text \<open>A clock that advances by less than two and a half seconds, and the allocator of \<open>safe\<close>.\<close>

definition slow_env :: "nat \<Rightarrow> env \<Rightarrow> bool" where
  "slow_env T v \<longleftrightarrow> T < 2 ^ 62 \<and> 12 \<le> malloc_usable v 4
     \<and> (\<forall>k. T \<le> unat (clock v k) \<and> unat (clock v k) < T + 2500)"

definition sound :: "node \<Rightarrow> bool" where
  "sound s \<longleftrightarrow> safe_wf s \<and> \<not> duringReboot s"

lemma fit_sound: "fit T s \<Longrightarrow> sound s"
  by (simp add: fit_def sound_def)

lemma wake_fields [simp]:
  "g_my_ip (wake v s) = g_my_ip s" "rTableMap (wake v s) = rTableMap s" "rreq_list (wake v s) = rreq_list s"
  "rreqId (wake v s) = rreqId s" "localSeqNum (wake v s) = localSeqNum s" "fw_rreq_list (wake v s) = fw_rreq_list s"
  "expandingRingSearch (wake v s) = expandingRingSearch s" "no_repair (wake v s) = no_repair s"
  "pending_ok (wake v s) = pending_ok s" "next_request q (wake v s) = next_request q s"
  by (simp_all add: wake_def no_repair_def pending_ok_def ttl_ok_def next_request_def)

lemma wake_fit: "sound s \<Longrightarrow> slow_env T (v (g_my_ip s)) \<Longrightarrow> fit T (wake v s)"
  by (simp add: sound_def fit_def safe_wf_def safe_def ack_free_def calm_def slow_env_def wake_def)

section \<open>An RREQ that dies out\<close>

text \<open>
  A node that has seen no RREQ of \<open>src\<close> after the one numbered \<open>i\<close>, and no later sequence number of it.
\<close>

definition behind_on :: "ip \<Rightarrow> u32 \<Rightarrow> u32 \<Rightarrow> node \<Rightarrow> bool" where
  "behind_on src i n s \<longleftrightarrow> sound s \<and> no_repair s \<and> (\<forall>j > i. \<not> fwRreqList_inList (fw_rreq_list s) src j)
     \<and> (\<forall>e. map_of (rTableMap s) src = Some e \<longrightarrow> rt_routing_flags e = ACTIVE_ROUTE \<longrightarrow> rt_dest_seq_num e \<le> n)"

lemma behind_on_joins:
  assumes "behind_on (rq_src_ip q) i n s" "i < rq_rreq_id q" "n < rq_src_seq_num q" "slow_env (T (g_my_ip s)) (v (g_my_ip s))"
  shows "joins T q (wake v s)"
  using assms wake_fit [of s "T (g_my_ip s)" v]
  by (auto simp: behind_on_def joins_def known_rreq_def stale_def split: option.splits)

lemma behind_on_later: "behind_on src i n s \<Longrightarrow> i \<le> j \<Longrightarrow> n \<le> m \<Longrightarrow> behind_on src j m s"
  unfolding behind_on_def by (meson le_less_trans order_trans)

lemma behind_on_wake [simp]: "12 \<le> malloc_usable (v (g_my_ip s)) 4 \<Longrightarrow> behind_on src i n s \<Longrightarrow> behind_on src i n (wake v s)"
  by (simp add: behind_on_def sound_def safe_wf_def safe_def ack_free_def) (simp add: wake_def)

lemma took_behind_on:
  assumes "took q s s'" "behind_on (rq_src_ip q) i n s" "i \<le> rq_rreq_id q" "fit T s'"
  shows "behind_on (rq_src_ip q) (rq_rreq_id q) (rq_src_seq_num q) s'"
proof -
  have "\<not> fwRreqList_inList (fw_rreq_list s') (rq_src_ip q) j" if "rq_rreq_id q < j" for j
    using that assms(1,2) le_less_trans [OF assms(3) that] by (auto simp: took_def seen_more_def behind_on_def)
  with assms(1,2) fit_sound [OF assms(4)] show ?thesis
    by (auto simp: took_def behind_on_def numbered_def)
qed

lemma request_dies:
  assumes q: "plain_RREQ q" "unat (rq_hop_cnt q) + length ss < 35"
    and h: "rq_src_ip q = h \<longrightarrow> rq_hop_cnt q = 0" "rq_dest_ip q \<noteq> h" "rq_dest_ip q \<noteq> rq_src_ip q"
    and line: "distinct (h # map g_my_ip ss)" "rq_src_ip q \<notin> g_my_ip ` set ss" "rq_dest_ip q \<notin> g_my_ip ` set ss"
    and nodes: "\<forall>s \<in> set ss. joins T q s \<and> behind_on (rq_src_ip q) i n s \<and> map_of (rTableMap s) (rq_dest_ip q) = None"
      "i < rq_rreq_id q" "n < rq_src_seq_num q"
    and ttl: "ttl \<le> int (length ss)" "1 \<le> ttl" "ttl \<le> 256"
  shows "\<exists>ss'. relay (Some (carried h ttl BROADCAST_ADDR (RREQ_bytes q))) ss = Inr (None, ss')
    \<and> map config ss' = map config ss
    \<and> (\<forall>s \<in> set ss'. behind_on (rq_src_ip q) (rq_rreq_id q) (rq_src_seq_num q) s
        \<and> map_of (rTableMap s) (rq_dest_ip q) = None)"
  using assms
proof (induction ss arbitrary: h q ttl)
  case (Cons s ss)
  let ?q = "q\<lparr>rq_hop_cnt := rq_hop_cnt q + 1\<rparr>"
  have take: "takes (T (g_my_ip s)) h q s" using Cons.prems by (intro joins_takes) auto
  have b: "behind_on (rq_src_ip q) i n s" "no_repair s" "i \<le> rq_rreq_id q" "n \<le> rq_src_seq_num q"
    using Cons.prems(9-11) by (auto simp: behind_on_def)
  have dst: "rq_dest_ip q \<noteq> g_my_ip s" "rq_dest_ip q \<noteq> h" "rq_dest_ip q \<noteq> rq_src_ip q"
    "map_of (rTableMap s) (rq_dest_ip q) = None" "unat (rq_hop_cnt q) < 35"
    using Cons.prems by auto
  show ?case
  proof (cases "ttl \<le> 1")
    case True
    from last_request [OF take Cons.prems(1) dst(5) b(2) dst(1-4) True, of BROADCAST_ADDR] obtain s' where
      s': "process_aodv (carried h ttl BROADCAST_ADDR (RREQ_bytes q)) s = Inr ((), s')" "fit (T (g_my_ip s)) s'"
        "config s' = config s" "map_of (rTableMap s') (rq_dest_ip q) = None" "took q s s'" "dispatched s s' = None"
      by blast
    from took_behind_on [OF s'(5) b(1,3) s'(2)]
    have "behind_on (rq_src_ip q) (rq_rreq_id q) (rq_src_seq_num q) s'" .
    moreover have "behind_on (rq_src_ip q) (rq_rreq_id q) (rq_src_seq_num q) t
        \<and> map_of (rTableMap t) (rq_dest_ip q) = None" if "t \<in> set ss" for t
      using Cons.prems(9) that b(3,4) behind_on_later by auto
    moreover have "relay None ss = Inr (None, ss)" by (cases ss) simp_all
    ultimately show ?thesis using s' by (intro exI [of _ "s' # ss"]) simp
  next
    case False
    then have ttl: "1 < ttl" by simp
    from forward_request [OF take Cons.prems(1) dst(5) dst(1-4) ttl Cons.prems(14), of BROADCAST_ADDR] obtain s' where
      s': "process_aodv (carried h ttl BROADCAST_ADDR (RREQ_bytes q)) s = Inr ((), s')" "fit (T (g_my_ip s)) s'"
        "config s' = config s" "map_of (rTableMap s') (rq_dest_ip q) = None" "took q s s'"
        "dispatched s s' = Some (carried (g_my_ip s) (ttl - 1) BROADCAST_ADDR (RREQ_bytes ?q))"
      by blast
    have hops: "unat (rq_hop_cnt q + 1) = Suc (unat (rq_hop_cnt q))" using dst(5) by (intro hop_Suc) simp
    have "\<exists>ss'. relay (Some (carried (g_my_ip s) (ttl - 1) BROADCAST_ADDR (RREQ_bytes ?q))) ss = Inr (None, ss')
      \<and> map config ss' = map config ss
      \<and> (\<forall>s \<in> set ss'. behind_on (rq_src_ip ?q) (rq_rreq_id ?q) (rq_src_seq_num ?q) s
          \<and> map_of (rTableMap s) (rq_dest_ip ?q) = None)"
      by (rule Cons.IH) (use Cons.prems ttl in \<open>auto simp: hops\<close>)
    then obtain ss' where "relay (Some (carried (g_my_ip s) (ttl - 1) BROADCAST_ADDR (RREQ_bytes ?q))) ss = Inr (None, ss')"
      "map config ss' = map config ss" "\<forall>s \<in> set ss'. behind_on (rq_src_ip q) (rq_rreq_id q) (rq_src_seq_num q) s
          \<and> map_of (rTableMap s) (rq_dest_ip q) = None"
      by auto
    with s' took_behind_on [OF s'(5) b(1,3) s'(2)] show ?thesis by (intro exI [of _ "s' # ss'"]) simp
  qed
qed simp

section \<open>The attempt that arrives\<close>

lemma count_up:
  fixes n :: u32
  assumes "unat n + Suc k < 2 ^ 32"
  shows "n < n + 1" "unat (n + 1) + k < 2 ^ 32"
  using assms by (simp_all add: word_less_nat_alt unat_word_ariths)

lemma next_ring:
  assumes "pe_retries e = 0" "0 < pe_ttl e" "pe_ttl e < TTL_THRESHOLD"
  shows "pe_retries (next_try True e) \<le> RREQ_RETRIES" "0 < pe_ttl (next_try True e)" "pe_ttl (next_try True e) \<le> NET_DIAMETER"
    "pe_ttl e + TTL_INCREMENT < TTL_THRESHOLD \<Longrightarrow> pe_retries (next_try True e) = 0 \<and> pe_ttl (next_try True e) = pe_ttl e + TTL_INCREMENT"
    "\<not> pe_ttl e + TTL_INCREMENT < TTL_THRESHOLD \<Longrightarrow> pe_ttl (next_try True e) = NET_DIAMETER"
  using assms by (simp_all add: next_try_def Let_def param_values)

text \<open>One attempt, as far as the originator is concerned.\<close>

lemma attempt_starts:
  assumes "sound o'" "pending_ok o'" "expandingRingSearch o'" "rreqPendingList_inList (rreq_list o') dst = Some e"
    and "pe_retries e = 0" "0 < pe_ttl e" "pe_ttl e < TTL_THRESHOLD" "map_of (rTableMap o') dst = None" "slow_env T (v (g_my_ip o'))"
  shows "\<exists>o1. resendRREQ \<lparr>td_type = RREQ_TIMER, td_data = dst\<rparr> (wake v o') = Inr ((), o1) \<and> fit T o1
    \<and> g_my_ip o1 = g_my_ip o' \<and> expandingRingSearch o1 \<and> pending_ok o1
    \<and> rTableMap o1 = rTableMap o' \<and> rreqId o1 = rreqId o' + 1 \<and> localSeqNum o1 = localSeqNum o' + 1
    \<and> rreqPendingList_inList (rreq_list o1) dst = Some ((next_try True e)\<lparr>pe_rreqOb := next_request (pe_rreqOb e) o'\<rparr>)
    \<and> dispatched (wake v o') o1 = Some (carried (g_my_ip o') (pe_ttl (next_try True e)) BROADCAST_ADDR
        (RREQ_bytes (next_request (pe_rreqOb e) o')))"
proof -
  note n = next_ring [OF assms(5-7)]
  have small: "pe_ttl (next_try True e) < 256" using n(3) by (simp add: param_values)
  have hyps: "fit T (wake v o')" "pending_ok (wake v o')" "rreqPendingList_inList (rreq_list (wake v o')) dst = Some e"
    "map_of (rTableMap (wake v o')) dst = None" "pe_retries (next_try (expandingRingSearch (wake v o')) e) \<le> RREQ_RETRIES"
    "0 < pe_ttl (next_try (expandingRingSearch (wake v o')) e)" "pe_ttl (next_try (expandingRingSearch (wake v o')) e) < 256"
    using assms wake_fit n small by simp_all
  from resend_dispatches [OF hyps, of RREQ_TIMER] assms(3) obtain o1 where
    o1: "resendRREQ \<lparr>td_type = RREQ_TIMER, td_data = dst\<rparr> (wake v o') = Inr ((), o1)" "fit T o1"
      "config o1 = config (wake v o')" "rTableMap o1 = rTableMap o'" "rreqId o1 = rreqId o' + 1" "localSeqNum o1 = localSeqNum o' + 1"
      "rreqPendingList_inList (rreq_list o1) dst = Some ((next_try True e)\<lparr>pe_rreqOb := next_request (pe_rreqOb e) o'\<rparr>)"
      "dispatched (wake v o') o1 = Some (carried (g_my_ip o') (pe_ttl (next_try True e)) BROADCAST_ADDR
        (RREQ_bytes (next_request (pe_rreqOb e) o')))"
    by auto
  moreover have "pending_ok o1"
    using pending.via_keeps [OF via_resendRREQ hyps(2) hyps(2) o1(1)] .
  ultimately show ?thesis using assms(3) config_fields [OF o1(3)] by simp
qed

text \<open>What a search needs: the originator, with its entry of the list of pending RREQs, and the line.\<close>

definition seeks :: "node \<Rightarrow> ip \<Rightarrow> rreq_list_entry \<Rightarrow> bool" where
  "seeks o' dst e \<longleftrightarrow> sound o' \<and> pending_ok o' \<and> expandingRingSearch o'
     \<and> rreqPendingList_inList (rreq_list o') dst = Some e \<and> pe_retries e = 0 \<and> 0 < pe_ttl e \<and> pe_ttl e < TTL_THRESHOLD
     \<and> plain_RREQ (pe_rreqOb e) \<and> rq_hop_cnt (pe_rreqOb e) = 0 \<and> rq_src_ip (pe_rreqOb e) = g_my_ip o'"

definition waits :: "node \<Rightarrow> node list \<Rightarrow> node \<Rightarrow> bool" where
  "waits o' ss d \<longleftrightarrow> distinct (map g_my_ip (o' # ss @ [d])) \<and> 0 \<notin> g_my_ip ` set (o' # ss @ [d])
     \<and> (\<forall>s \<in> set (ss @ [d]). behind_on (g_my_ip o') (rreqId o') (localSeqNum o') s)
     \<and> (\<forall>s \<in> set (o' # ss). map_of (rTableMap s) (g_my_ip d) = None)"

lemma attempt_fails:
  assumes "seeks o' (g_my_ip d) e" "waits o' ss d" "length ss < 35" "unat (rreqId o') + Suc k < 2 ^ 32" "unat (localSeqNum o') + Suc k < 2 ^ 32"
    and "pe_ttl e + TTL_INCREMENT < TTL_THRESHOLD" "pe_ttl e + TTL_INCREMENT \<le> int (length ss)"
    and T: "\<And>a. slow_env (T a) (v a)"
  shows "\<exists>o1 ss' d' e'. attempts (v # vs) (g_my_ip d) o' (ss @ [d]) = attempts vs (g_my_ip d) o1 (ss' @ [d'])
    \<and> map g_my_ip ss' = map g_my_ip ss \<and> g_my_ip d' = g_my_ip d \<and> g_my_ip o1 = g_my_ip o'
    \<and> seeks o1 (g_my_ip d) e' \<and> pe_ttl e' = pe_ttl e + TTL_INCREMENT \<and> waits o1 ss' d'
    \<and> rreqId o1 = rreqId o' + 1 \<and> localSeqNum o1 = localSeqNum o' + 1"
proof -
  let ?dst = "g_my_ip d" and ?q = "next_request (pe_rreqOb e) o'" and ?n = "next_try True e"
  from assms(1) have e: "sound o'" "pending_ok o'" "expandingRingSearch o'" "rreqPendingList_inList (rreq_list o') ?dst = Some e"
      "pe_retries e = 0" "0 < pe_ttl e" "pe_ttl e < TTL_THRESHOLD" "plain_RREQ (pe_rreqOb e)"
      "rq_hop_cnt (pe_rreqOb e) = 0" "rq_src_ip (pe_rreqOb e) = g_my_ip o'"
    by (simp_all add: seeks_def)
  from assms(2) have w: "distinct (map g_my_ip (o' # ss @ [d]))" "0 \<notin> g_my_ip ` set (o' # ss @ [d])"
      "\<forall>s \<in> set (ss @ [d]). behind_on (g_my_ip o') (rreqId o') (localSeqNum o') s"
      "\<forall>s \<in> set (o' # ss). map_of (rTableMap s) ?dst = None"
    by (simp_all add: waits_def)
  from w(4) have none: "map_of (rTableMap o') ?dst = None" by simp
  have dst: "rq_dest_ip (pe_rreqOb e) = ?dst" using e(4) by (auto dest: rreqPendingList_inList_Some)
  have n: "pe_retries ?n = 0" "pe_ttl ?n = pe_ttl e + TTL_INCREMENT" using next_ring(4) [OF e(5-7) assms(6)] by simp_all
  from attempt_starts [where T = "T (g_my_ip o')" and v = v, OF e(1-7) none T] obtain o1 where
    o1: "resendRREQ \<lparr>td_type = RREQ_TIMER, td_data = ?dst\<rparr> (wake v o') = Inr ((), o1)" "fit (T (g_my_ip o')) o1"
      "g_my_ip o1 = g_my_ip o'" "expandingRingSearch o1" "pending_ok o1" "rTableMap o1 = rTableMap o'"
      "rreqId o1 = rreqId o' + 1" "localSeqNum o1 = localSeqNum o' + 1"
      "rreqPendingList_inList (rreq_list o1) ?dst = Some (?n\<lparr>pe_rreqOb := ?q\<rparr>)"
      "dispatched (wake v o') o1 = Some (carried (g_my_ip o') (pe_ttl ?n) BROADCAST_ADDR (RREQ_bytes ?q))"
    by blast
  have nums: "rq_rreq_id ?q = rreqId o' + 1" "rq_src_seq_num ?q = localSeqNum o' + 1" by (simp_all add: next_request_def)
  have m: "12 \<le> malloc_usable (v a) 4" for a using T [of a] by (simp add: slow_env_def)
  have b: "behind_on (g_my_ip o') (rreqId o') (localSeqNum o') s" if "s \<in> set (ss @ [d])" for s using w(3) that by blast
  have "\<exists>ss'. relay (Some (carried (g_my_ip o') (pe_ttl ?n) BROADCAST_ADDR (RREQ_bytes ?q))) (map (wake v) ss) = Inr (None, ss')
    \<and> map config ss' = map config (map (wake v) ss)
    \<and> (\<forall>s \<in> set ss'. behind_on (rq_src_ip ?q) (rq_rreq_id ?q) (rq_src_seq_num ?q) s
        \<and> map_of (rTableMap s) (rq_dest_ip ?q) = None)"
  proof (rule request_dies [where T = T and i = "rreqId o'" and n = "localSeqNum o'"])
    show "\<forall>s \<in> set (map (wake v) ss). joins T ?q s \<and> behind_on (rq_src_ip ?q) (rreqId o') (localSeqNum o') s
        \<and> map_of (rTableMap s) (rq_dest_ip ?q) = None"
      using behind_on_joins [of ?q "rreqId o'" "localSeqNum o'" _ T v] b w(4) nums e(10) dst T m
        count_up(1) [OF assms(4)] count_up(1) [OF assms(5)] by auto
    show "pe_ttl ?n \<le> 256" using assms(6) n(2) by (simp add: param_values)
  qed (use e(6,8-10) n(2) w(1) dst assms(3,7) nums count_up(1) [OF assms(4)] count_up(1) [OF assms(5)] in
      \<open>auto simp: comp_def param_values\<close>)
  then obtain ss' where ss': "relay (Some (carried (g_my_ip o') (pe_ttl ?n) BROADCAST_ADDR (RREQ_bytes ?q))) (map (wake v) ss)
        = Inr (None, ss')" "map config ss' = map config (map (wake v) ss)"
      "\<forall>s \<in> set ss'. behind_on (g_my_ip o') (rreqId o' + 1) (localSeqNum o' + 1) s \<and> map_of (rTableMap s) ?dst = None"
    using nums e(10) dst by auto
  have last: "relay None [wake v d] = Inr (None, [wake v d])" by simp
  from relay_append [OF ss'(1) this] o1(1,10)
  have run: "attempts (v # vs) ?dst o' (ss @ [d]) = attempts vs ?dst o1 (ss' @ [wake v d])" by simp
  have ips: "map g_my_ip ss' = map g_my_ip ss" using map_config_ips [OF ss'(2)] by (simp add: comp_def)
  have "behind_on (g_my_ip o') (rreqId o' + 1) (localSeqNum o' + 1) (wake v d)"
    using behind_on_later [OF b] m count_up(1) [OF assms(4)] count_up(1) [OF assms(5)] by (simp add: less_imp_le)
  moreover have "g_my_ip ` set ss' = g_my_ip ` set ss" using arg_cong [OF ips, of set] by simp
  ultimately have "waits o1 ss' (wake v d)"
    using ss'(3) w ips o1(3,6-8) by (simp add: waits_def)
  moreover have "seeks o1 ?dst (?n\<lparr>pe_rreqOb := ?q\<rparr>)"
    using o1 n assms(6) e fit_sound [OF o1(2)] by (simp add: seeks_def param_values)
  ultimately show ?thesis using run ips o1(3,7,8) n(2)
    by (intro exI [of _ o1] exI [of _ ss'] exI [of _ "wake v d"] exI [of _ "?n\<lparr>pe_rreqOb := ?q\<rparr>"]) simp
qed

lemma attempt_arrives:
  assumes "seeks o' (g_my_ip d) e" "waits o' ss d" "length ss < 35" "unat (rreqId o') + Suc k < 2 ^ 32" "unat (localSeqNum o') + Suc k < 2 ^ 32"
    and "int (length ss) < pe_ttl (next_try True e)"
    and T: "\<And>a. slow_env (T a) (v a)"
  shows "\<exists>reply o1 ss' d' ss'' o'' end'. attempts (v # vs) (g_my_ip d) o' (ss @ [d]) = Inr (Some reply, o1, ss' @ [d'])
    \<and> relay (Some reply) (rev ss' @ [o1]) = Inr (end', rev ss'' @ [o'']) \<and> map g_my_ip ss'' = map g_my_ip ss
    \<and> ahead T (g_my_ip d) (o'' # ss'') \<and> announced (g_my_ip d) (g_my_ip (hd (ss @ [d]))) o''"
proof -
  let ?dst = "g_my_ip d" and ?q = "next_request (pe_rreqOb e) o'" and ?n = "next_try True e"
  from assms(1) have e: "sound o'" "pending_ok o'" "expandingRingSearch o'" "rreqPendingList_inList (rreq_list o') ?dst = Some e"
      "pe_retries e = 0" "0 < pe_ttl e" "pe_ttl e < TTL_THRESHOLD" "plain_RREQ (pe_rreqOb e)"
      "rq_hop_cnt (pe_rreqOb e) = 0" "rq_src_ip (pe_rreqOb e) = g_my_ip o'"
    by (simp_all add: seeks_def)
  from assms(2) have w: "distinct (map g_my_ip (o' # ss @ [d]))" "0 \<notin> g_my_ip ` set (o' # ss @ [d])"
      "\<forall>s \<in> set (ss @ [d]). behind_on (g_my_ip o') (rreqId o') (localSeqNum o') s"
      "\<forall>s \<in> set (o' # ss). map_of (rTableMap s) ?dst = None"
    by (simp_all add: waits_def)
  from w(4) have none: "map_of (rTableMap o') ?dst = None" by simp
  have dst: "rq_dest_ip (pe_rreqOb e) = ?dst" using e(4) by (auto dest: rreqPendingList_inList_Some)
  from attempt_starts [where T = "T (g_my_ip o')" and v = v, OF e(1-7) none T] obtain o1 where
    o1: "resendRREQ \<lparr>td_type = RREQ_TIMER, td_data = ?dst\<rparr> (wake v o') = Inr ((), o1)" "fit (T (g_my_ip o')) o1"
      "g_my_ip o1 = g_my_ip o'" "rTableMap o1 = rTableMap o'"
      "dispatched (wake v o') o1 = Some (carried (g_my_ip o') (pe_ttl ?n) BROADCAST_ADDR (RREQ_bytes ?q))"
    by blast
  have nums: "rq_rreq_id ?q = rreqId o' + 1" "rq_src_seq_num ?q = localSeqNum o' + 1" by (simp_all add: next_request_def)
  let ?ss = "map (wake v) ss" and ?d = "wake v d"
  have "\<exists>reply ss' d' ss'' o'' end'.
      relay (Some (carried (g_my_ip o1) (pe_ttl ?n) BROADCAST_ADDR (RREQ_bytes ?q))) (?ss @ [?d]) = Inr (Some reply, ss' @ [d'])
    \<and> relay (Some reply) (rev ss' @ [o1]) = Inr (end', rev ss'' @ [o''])
    \<and> map config ss'' = map config ?ss \<and> config d' = config ?d \<and> config o'' = config o1
    \<and> ahead T (g_my_ip ?d) (o'' # ss'') \<and> ahead T (g_my_ip o1) (d' # rev ss'')
    \<and> used_by (g_my_ip ?d) (g_my_ip o1) (rev ss'') \<and> announced (g_my_ip ?d) (g_my_ip (hd (?ss @ [?d]))) o''
    \<and> (\<forall>s \<in> set (o'' # ss'' @ [d']). fit (T (g_my_ip s)) s)"
  proof (rule discovery_line)
    show "\<forall>s \<in> set (?ss @ [?d]). joins T ?q s"
      using behind_on_joins [of ?q "rreqId o'" "localSeqNum o'" _ T v] w(3) nums e(10) T
        count_up(1) [OF assms(4)] count_up(1) [OF assms(5)] by auto
    show "distinct (map g_my_ip (o1 # ?ss @ [?d]))" using w(1) o1(3) by (simp add: comp_def)
    show "0 \<notin> g_my_ip ` set (o1 # ?ss @ [?d])" using w(2) o1(3) by (simp add: image_image)
    show "pe_ttl ?n \<le> 256" using next_ring(3) [OF e(5-7)] by (simp add: param_values)
  qed (use e w(4) o1 dst assms(3,6) in auto)
  then obtain reply ss' d' ss'' o'' end' where r:
      "relay (Some (carried (g_my_ip o1) (pe_ttl ?n) BROADCAST_ADDR (RREQ_bytes ?q))) (?ss @ [?d]) = Inr (Some reply, ss' @ [d'])"
      "relay (Some reply) (rev ss' @ [o1]) = Inr (end', rev ss'' @ [o''])" "map config ss'' = map config ?ss"
      "ahead T ?dst (o'' # ss'')" "announced (g_my_ip ?d) (g_my_ip (hd (?ss @ [?d]))) o''"
    by auto
  have "map g_my_ip ss'' = map g_my_ip ss" using map_config_ips [OF r(3)] by (simp add: comp_def)
  moreover have "announced ?dst (g_my_ip (hd (ss @ [d]))) o''" using r(5) by (cases ss) simp_all
  moreover have "attempts (v # vs) ?dst o' (ss @ [d]) = Inr (Some reply, o1, ss' @ [d'])"
    using o1(1,3,5) r(1) by simp
  ultimately show ?thesis using r(2,4) by blast
qed

lemma attempts_arrive:
  assumes "seeks o' (g_my_ip d) e" "waits o' ss d" "length ss < 35"
    and "unat (rreqId o') + length vs < 2 ^ 32" "unat (localSeqNum o') + length vs < 2 ^ 32"
    and "TTL_THRESHOLD \<le> pe_ttl e + TTL_INCREMENT * int (length vs)"
    and "\<forall>v \<in> set vs. \<exists>T. \<forall>a. slow_env (T a) (v a)"
  shows "\<exists>reply o1 ss' d' ss'' o'' end' T. attempts vs (g_my_ip d) o' (ss @ [d]) = Inr (Some reply, o1, ss' @ [d'])
    \<and> relay (Some reply) (rev ss' @ [o1]) = Inr (end', rev ss'' @ [o'']) \<and> map g_my_ip ss'' = map g_my_ip ss
    \<and> ahead T (g_my_ip d) (o'' # ss'') \<and> announced (g_my_ip d) (g_my_ip (hd (ss @ [d]))) o''"
  using assms
proof (induction vs arbitrary: o' ss d e)
  case Nil
  then show ?case by (simp add: seeks_def)
next
  case (Cons v vs)
  from Cons.prems(7) obtain T where T: "\<And>a. slow_env (T a) (v a)" by auto
  have c: "unat (rreqId o') + Suc (length vs) < 2 ^ 32" "unat (localSeqNum o') + Suc (length vs) < 2 ^ 32"
    using Cons.prems(4,5) by simp_all
  show ?case
  proof (cases "int (length ss) < pe_ttl (next_try True e)")
    case True
    from attempt_arrives [where T = T and v = v, OF Cons.prems(1-3) c True T] show ?thesis by blast
  next
    case False
    have e: "pe_retries e = 0" "0 < pe_ttl e" "pe_ttl e < TTL_THRESHOLD" using Cons.prems(1) by (simp_all add: seeks_def)
    have low: "pe_ttl e + TTL_INCREMENT < TTL_THRESHOLD"
      using next_ring(5) [OF e] False Cons.prems(3) by (force simp: param_values)
    then have short: "pe_ttl e + TTL_INCREMENT \<le> int (length ss)" using next_ring(4) [OF e] False by simp
    from attempt_fails [where T = T and v = v and vs = vs, OF Cons.prems(1-3) c low short T] obtain o1 ss1 d1 e1 where
      f: "attempts (v # vs) (g_my_ip d) o' (ss @ [d]) = attempts vs (g_my_ip d) o1 (ss1 @ [d1])"
        "map g_my_ip ss1 = map g_my_ip ss" "g_my_ip d1 = g_my_ip d" "seeks o1 (g_my_ip d) e1"
        "pe_ttl e1 = pe_ttl e + TTL_INCREMENT" "waits o1 ss1 d1" "rreqId o1 = rreqId o' + 1" "localSeqNum o1 = localSeqNum o' + 1"
      by blast
    have len: "length ss1 = length ss" using f(2) by (rule map_eq_imp_length_eq)
    have hd: "g_my_ip (hd (ss1 @ [d1])) = g_my_ip (hd (ss @ [d]))" using f(2,3) by (cases ss; cases ss1) auto
    have "\<exists>reply o2 ss' d' ss'' o'' end' T. attempts vs (g_my_ip d1) o1 (ss1 @ [d1]) = Inr (Some reply, o2, ss' @ [d'])
      \<and> relay (Some reply) (rev ss' @ [o2]) = Inr (end', rev ss'' @ [o'']) \<and> map g_my_ip ss'' = map g_my_ip ss1
      \<and> ahead T (g_my_ip d1) (o'' # ss'') \<and> announced (g_my_ip d1) (g_my_ip (hd (ss1 @ [d1]))) o''"
    proof (rule Cons.IH)
      show "unat (rreqId o1) + length vs < 2 ^ 32" "unat (localSeqNum o1) + length vs < 2 ^ 32"
        using count_up(2) [OF c(1)] count_up(2) [OF c(2)] f(7,8) by simp_all
      show "TTL_THRESHOLD \<le> pe_ttl e1 + TTL_INCREMENT * int (length vs)"
        using Cons.prems(6) f(5) by (simp add: algebra_simps)
    qed (use f Cons.prems(3,7) len in auto)
    then show ?thesis unfolding f(1-3) hd .
  qed
qed

text \<open>
  C2. A search delivers its packets. The daemon looks for a destination up to 34 nodes away in a line
  of nodes that know nothing of it, and has asked with a time to live below \<open>TTL_THRESHOLD\<close>. An
  RREQ that does not get as far dies out without a fault, and when its timer runs out the next one goes
  further, on nodes that have kept a route to the originator. Within three such timeouts for a
  first time to live of 1, and in general as many as it takes to reach the threshold by
  \<open>TTL_INCREMENT\<close>, one arrives; the RREP that answers it comes back, every node on the way then has a
  route to the destination, and the daemon's message to its agent becomes the answer to the kernel module,
  which sends every packet that waited for the destination over the new route, oldest first, and keeps the
  others. Between the attempts nothing else happens at the nodes, and during each the clocks advance by
  less than two and a half seconds; the numbers of the RREQs do not wrap around.
\<close>

theorem ring_search_delivers_packets:
  assumes "seeks o' (g_my_ip d) e" "waits o' ss d" "length ss < 35"
    and "unat (rreqId o') + length vs < 2 ^ 32" "unat (localSeqNum o') + length vs < 2 ^ 32"
    and "TTL_THRESHOLD \<le> pe_ttl e + TTL_INCREMENT * int (length vs)"
    and "\<forall>v \<in> set vs. \<exists>T. \<forall>a. slow_env (T a) (v a)"
    and "memory (aenv a)" "kmod_inv k" "my_queue_head k = Ptr h" "routed (kenv k) (g_my_ip d) dev" "dev \<noteq> TUNNAME"
  shows "\<exists>reply o1 ss' d' ss'' o'' end' T bytes a1 ans k1.
      attempts vs (g_my_ip d) o' (ss @ [d]) = Inr (Some reply, o1, ss' @ [d'])
    \<and> relay (Some reply) (rev ss' @ [o1]) = Inr (end', rev ss'' @ [o'']) \<and> map g_my_ip ss'' = map g_my_ip ss
    \<and> ahead T (g_my_ip d) (o'' # ss'') \<and> La_send bytes \<in> set (outs o'')
    \<and> la_serv_handle_message fd bytes a = Inr (0, a1) \<and> aouts a1 = aouts a @ [Netlink_send (nlfd a) ans]
    \<and> recv_msg 1001 ans k = Inr ((), k1) \<and> my_queue_head k1 = Ptr (without (g_my_ip d) h)
    \<and> kouts k1 = kouts k @ map (\<lambda>e. Xmit ((el_skb e)\<lparr>sk_dst_dev := dev\<rparr>)) (waiting (g_my_ip d) h)"
proof -
  from attempts_arrive [OF assms(1-7)] obtain reply o1 ss' d' ss'' o'' end' T where
    r: "attempts vs (g_my_ip d) o' (ss @ [d]) = Inr (Some reply, o1, ss' @ [d'])"
      "relay (Some reply) (rev ss' @ [o1]) = Inr (end', rev ss'' @ [o''])" "map g_my_ip ss'' = map g_my_ip ss"
      "ahead T (g_my_ip d) (o'' # ss'')" "announced (g_my_ip d) (g_my_ip (hd (ss @ [d]))) o''"
    by blast
  from announced_release [OF r(5) assms(8-12)] obtain bytes a1 ans k1 where
    "La_send bytes \<in> set (outs o'')" "la_serv_handle_message fd bytes a = Inr (0, a1)"
    "aouts a1 = aouts a @ [Netlink_send (nlfd a) ans]" "recv_msg 1001 ans k = Inr ((), k1)"
    "my_queue_head k1 = Ptr (without (g_my_ip d) h)"
    "kouts k1 = kouts k @ map (\<lambda>e. Xmit ((el_skb e)\<lparr>sk_dst_dev := dev\<rparr>)) (waiting (g_my_ip d) h)"
    by blast
  with r(1-4) show ?thesis by blast
qed

text \<open>
  Three nodes in between: the RREQ with time to live 3 dies out at the last of them, the one with 5
  arrives.
\<close>

definition seeking :: node where
  "seeking = (resting 1)\<lparr>rreq_list := [\<lparr>pe_rreqOb = own_rreq, pe_retries = 0, pe_ttl = 1\<rparr>]\<rparr>"

theorem ring_search_delivers_packets_witness:
  "\<exists>reply o1 s1 s2 s3 d' t1 t2 t3 o'' end' bytes a1 ans k1.
      attempts [\<lambda>_. quiet_env 17000, \<lambda>_. quiet_env 20000, \<lambda>_. quiet_env 25000] 9 seeking [resting 5, resting 6, resting 7, resting 9]
        = Inr (Some reply, o1, [s1, s2, s3, d'])
    \<and> relay (Some reply) [s3, s2, s1, o1] = Inr (end', [t3, t2, t1, o'']) \<and> La_send bytes \<in> set (outs o'')
    \<and> la_serv_handle_message 7 bytes one_daemon = Inr (0, a1) \<and> aouts a1 = aouts one_daemon @ [Netlink_send 5 ans]
    \<and> recv_msg 1001 ans holding = Inr ((), k1) \<and> kouts k1 = [Xmit ((tun_packet 2 9)\<lparr>sk_dst_dev := ''wlan0''\<rparr>)]"
proof -
  let ?e = "\<lparr>pe_rreqOb = own_rreq, pe_retries = 0, pe_ttl = 1\<rparr>"
  let ?vs = "[\<lambda>_. quiet_env 17000, \<lambda>_. quiet_env 20000, \<lambda>_. quiet_env 25000] :: (ip \<Rightarrow> env) list"
  have ip: "g_my_ip seeking = 1" "g_my_ip (resting a) = a" "rTableMap seeking = []" "rTableMap (resting a) = []" for a
    by (simp_all add: seeking_def resting_def)
  have sound: "sound seeking" "sound (resting a)" for a
    using fit_sound [OF resting_fit(1) [of 1]] fit_sound [OF resting_fit(1) [of a]]
    by (simp_all add: seeking_def sound_def safe_wf_def safe_def ack_free_def)
  have seek: "seeks seeking 9 ?e"
    using sound by (simp add: seeks_def ip) (simp add: seeking_def resting_def state_fields own_rreq_def pending_ok_def
        ttl_ok_def param_values plain_RREQ_def RREQ_copy_def)
  have b: "behind_on 1 (rreqId seeking) (localSeqNum seeking) (resting a)" for a
    using sound(2) [of a] by (simp add: behind_on_def no_repair_def) (simp add: resting_def state_fields)
  have wait: "waits seeking [resting 5, resting 6, resting 7] (resting 9)"
    using b by (simp add: waits_def ip)
  have env: "slow_env t (quiet_env (word_of_nat t))" if "t < 2 ^ 20" for t
    using that by (simp add: slow_env_def quiet_env_def unat_of_nat)
  have a: "memory (aenv one_daemon)" "my_queue_head holding = Ptr two_held" "map el_skb (waiting 9 two_held) = [tun_packet 2 9]"
      "kouts holding = []" "nlfd one_daemon = 5" "routed (kenv holding) 9 ''wlan0''"
    by (simp_all add: agent_fields kernel_fields waiting_def routed_def)
  have w: "map (\<lambda>e. Xmit ((el_skb e)\<lparr>sk_dst_dev := ''wlan0''\<rparr>)) (waiting 9 two_held)
      = map (\<lambda>p. Xmit (p\<lparr>sk_dst_dev := ''wlan0''\<rparr>)) (map el_skb (waiting 9 two_held))" by simp
  have envs: "\<forall>v \<in> set ?vs. \<exists>T. \<forall>a. slow_env (T a) (v a)"
    using env [of 17000] env [of 20000] env [of 25000] by auto
  have nums: "unat (rreqId seeking) + length ?vs < 2 ^ 32" "unat (localSeqNum seeking) + length ?vs < 2 ^ 32"
    by (simp_all add: seeking_def resting_def state_fields)
  have rest: "length [resting 5, resting 6, resting 7] < 35" "TTL_THRESHOLD \<le> pe_ttl ?e + TTL_INCREMENT * int (length ?vs)"
      "''wlan0'' \<noteq> TUNNAME"
    by (simp_all add: param_values)
  from ring_search_delivers_packets [of seeking "resting 9" ?e "[resting 5, resting 6, resting 7]" ?vs one_daemon holding two_held
      "''wlan0''" 7, unfolded ip, OF seek wait rest(1) nums rest(2) envs a(1) holding_inv(1) a(2,6) rest(3)]
  obtain reply o1 ss' d' ss'' o'' end' bytes a1 ans k1 where r:
      "attempts ?vs 9 seeking ([resting 5, resting 6, resting 7] @ [resting 9]) = Inr (Some reply, o1, ss' @ [d'])"
      "relay (Some reply) (rev ss' @ [o1]) = Inr (end', rev ss'' @ [o''])"
      "map g_my_ip ss'' = map g_my_ip [resting 5, resting 6, resting 7]"
      "La_send bytes \<in> set (outs o'')" "la_serv_handle_message 7 bytes one_daemon = Inr (0, a1)"
      "aouts a1 = aouts one_daemon @ [Netlink_send (nlfd one_daemon) ans]" "recv_msg 1001 ans holding = Inr ((), k1)"
      "kouts k1 = kouts holding @ map (\<lambda>e. Xmit ((el_skb e)\<lparr>sk_dst_dev := ''wlan0''\<rparr>)) (waiting 9 two_held)"
    by blast
  have "length ss'' = 3" using arg_cong [OF r(3), of length] by simp
  then obtain t1 t2 t3 where t: "ss'' = [t1, t2, t3]" by (auto simp: numeral_3_eq_3 length_Suc_conv)
  have "length ss' = 3" using relay_length [OF r(2)] t by simp
  then obtain s1 s2 s3 where "ss' = [s1, s2, s3]" by (auto simp: numeral_3_eq_3 length_Suc_conv)
  with r t show ?thesis by (auto simp del: attempts.simps simp: a w)
qed

end
