(* ===== verification/Fo_Netlink.thy ===== *)
theory Fo_Netlink
  imports Messages
begin

text \<open>
  The forwarding operations of \<open>lib/FO/fo.cpp\<close>: requests to the routing socket of the kernel that
  add and delete a route, and the dump of the routing table. A request is the memory of
  \<open>struct rtreq\<close> up to \<open>nlmsg_len\<close>; a received datagram is the list of its bytes, in which a
  pointer is the rest of the buffer from there on.
\<close>

section \<open>Messages of the routing socket\<close>

abbreviation (input) NLMSG_ERROR :: "16 word" where "NLMSG_ERROR \<equiv> 2"
abbreviation (input) NLMSG_DONE :: "16 word" where "NLMSG_DONE \<equiv> 3"
abbreviation (input) RTM_NEWROUTE :: "16 word" where "RTM_NEWROUTE \<equiv> 24"
abbreviation (input) RTM_DELROUTE :: "16 word" where "RTM_DELROUTE \<equiv> 25"
abbreviation (input) RTM_GETROUTE :: "16 word" where "RTM_GETROUTE \<equiv> 26"
abbreviation (input) RTA_DST :: "16 word" where "RTA_DST \<equiv> 1"
abbreviation (input) RTA_OIF :: "16 word" where "RTA_OIF \<equiv> 4"
abbreviation (input) RTA_GATEWAY :: "16 word" where "RTA_GATEWAY \<equiv> 5"
abbreviation (input) RTA_PRIORITY :: "16 word" where "RTA_PRIORITY \<equiv> 6"
abbreviation (input) RTA_PREFSRC :: "16 word" where "RTA_PREFSRC \<equiv> 7"
abbreviation (input) RTA_TABLE :: "16 word" where "RTA_TABLE \<equiv> 15"

definition le16 :: "16 word \<Rightarrow> u8 list" where
  "le16 w = [ucast w, ucast (drop_bit 8 w)]"

definition at16 :: "u8 list \<Rightarrow> nat \<Rightarrow> 16 word" where
  "at16 xs i = ucast (xs ! i) OR push_bit 8 (ucast (xs ! (i + 1)))"

definition at32 :: "u8 list \<Rightarrow> nat \<Rightarrow> u32" where
  "at32 xs i = read32 (\<lambda>k. xs ! k) i"

text \<open>\<open>NLMSG_ALIGN\<close> and \<open>RTA_ALIGN\<close>.\<close>

definition align4 :: "nat \<Rightarrow> nat" where
  "align4 n = (n + 3) div 4 * 4"

text \<open>
  \<open>struct rtreq\<close>: the header, \<open>struct rtmsg\<close> and the used part of \<open>buf\<close>; the memory was zeroed,
  and the fields that the code never sets stay zero.
\<close>

record rtreq =
  nlmsg_len :: nat
  nlmsg_type :: "16 word"
  nlmsg_flags :: "16 word"
  rtm_family :: u8
  rtm_dst_len :: u8
  rtm_table :: u8
  rtm_protocol :: u8
  rtm_scope :: u8
  rtm_type :: u8
  rtm_flags :: u32
  rt_buf :: "u8 list"

definition request_bytes :: "rtreq \<Rightarrow> u8 list" where
  "request_bytes q = le32 (of_nat (nlmsg_len q)) @ le16 (nlmsg_type q) @ le16 (nlmsg_flags q)
     @ le32 0 @ le32 0
     @ [rtm_family q, rtm_dst_len q, 0, 0, rtm_table q, rtm_protocol q, rtm_scope q, rtm_type q]
     @ le32 (rtm_flags q) @ rt_buf q"

definition netlink_addreq :: "16 word \<Rightarrow> u8 list \<Rightarrow> rtreq \<Rightarrow> rtreq" where
  "netlink_addreq type data q =
     q\<lparr>rt_buf := rt_buf q @ replicate (align4 (nlmsg_len q) - nlmsg_len q) 0
         @ le16 (of_nat (4 + length data)) @ le16 type @ data,
       nlmsg_len := align4 (nlmsg_len q) + (4 + length data)\<rparr>"

section \<open>The requests\<close>

text \<open>
  The kernel's side of the socket: what \<open>sendmsg\<close> returns, what \<open>socket\<close> returns, and the
  datagrams that \<open>recvmsg\<close> will deliver, the empty one for an error; when there is none left the
  process waits for ever.
\<close>

datatype foeffect = Route_send int "u8 list" | Fo_close int

record fo =
  f_sendmsg :: "nat \<Rightarrow> int"
  f_socket :: int
  fticks :: nat
  f_replies :: "u8 list list"
  fo_socket_fd :: int
  fouts :: "foeffect list"

definition fo_sendmsg :: "rtreq \<Rightarrow> (fo, int) sm" where
  "fo_sendmsg q =
     bnd (gets (\<lambda>s. f_sendmsg s (fticks s))) (\<lambda>r.
     andthen (upd (\<lambda>s. s\<lparr>fticks := Suc (fticks s), fouts := fouts s @ [Route_send (fo_socket_fd s) (request_bytes q)]\<rparr>))
       (ret r))"

text \<open>\<open>recvmsg\<close> into a buffer of 1024 bytes; the rest of a longer datagram is lost.\<close>

definition fo_recvmsg :: "(fo, u8 list) sm" where
  "fo_recvmsg =
     bnd (gets f_replies) (\<lambda>rs.
     case rs of [] \<Rightarrow> raise Diverges
     | d # rs' \<Rightarrow> andthen (upd (\<lambda>s. s\<lparr>f_replies := rs'\<rparr>)) (ret (take 1024 d)))"

definition NLMSG_OK :: "u8 list \<Rightarrow> int \<Rightarrow> bool" where
  "NLMSG_OK h len \<longleftrightarrow> 16 \<le> len \<and> 16 \<le> unat (at32 h 0) \<and> int (unat (at32 h 0)) \<le> len"

definition netlink_send_update_request :: "rtreq \<Rightarrow> (fo, int) sm" where
  "netlink_send_update_request nl_hdr =
     bnd (fo_sendmsg nl_hdr) (\<lambda>sent.
     if sent \<le> 0 then ret (- 1)
     else
       bnd fo_recvmsg (\<lambda>h.
       if h = [] then ret (- 1)
       else if \<not> NLMSG_OK h (int (length h)) then ret (- 1)
       else if at16 h 4 \<noteq> NLMSG_ERROR then ret (- 1)
       else if 36 > unat (at32 h 0) then ret (- 1)
       else ret (sint (- at32 h 16))))"

definition init_fo_socket :: "(fo, int) sm" where
  "init_fo_socket =
     bnd (gets fo_socket_fd) (\<lambda>fd.
     if fd \<noteq> 0 then ret (- 1)
     else
       bnd (gets f_socket) (\<lambda>new.
       andthen (upd (\<lambda>s. s\<lparr>fo_socket_fd := new\<rparr>)) (ret (if new < 0 then - 1 else 0))))"

definition close_fo_socket :: "(fo, unit) sm" where
  "close_fo_socket = upd (\<lambda>s. s\<lparr>fouts := fouts s @ [Fo_close (fo_socket_fd s)]\<rparr>)"

text \<open>
  The request of \<open>FO_add_a_route\<close>: \<open>AF_INET\<close>, the main table, a static unicast route, on link;
  the flags \<open>REQUEST\<close>, \<open>ACK\<close>, \<open>CREATE\<close> and \<open>REPLACE\<close>.
\<close>

definition add_request :: "ip \<Rightarrow> u32 \<Rightarrow> ip \<Rightarrow> u32 \<Rightarrow> u32 \<Rightarrow> ip \<Rightarrow> rtreq" where
  "add_request dst netmask gateway ifindex metric src =
     (let q = netlink_addreq RTA_OIF (le32 ifindex)
            \<lparr>nlmsg_len = 28, nlmsg_type = RTM_NEWROUTE, nlmsg_flags = 0x505, rtm_family = 2,
             rtm_dst_len = ucast netmask, rtm_table = 254, rtm_protocol = 4, rtm_scope = 0, rtm_type = 1,
             rtm_flags = 4, rt_buf = []\<rparr>;
          q = (if 0 \<le> sint metric then netlink_addreq RTA_PRIORITY (le32 metric) q else q);
          q = (if src \<noteq> 0 then netlink_addreq RTA_PREFSRC (le32 src) q else q);
          q = netlink_addreq RTA_GATEWAY (le32 gateway) q
      in netlink_addreq RTA_DST (le32 dst) q)"

definition FO_add_a_route :: "ip \<Rightarrow> u32 \<Rightarrow> ip \<Rightarrow> u32 \<Rightarrow> u32 \<Rightarrow> ip \<Rightarrow> (fo, int) sm" where
  "FO_add_a_route dst netmask gateway ifindex metric src =
     bnd (netlink_send_update_request (add_request dst netmask gateway ifindex metric src)) (\<lambda>err.
     ret (if err \<noteq> 0 then - 1 else 0))"

definition delete_request :: "ip \<Rightarrow> ip \<Rightarrow> u32 \<Rightarrow> u32 \<Rightarrow> ip \<Rightarrow> rtreq" where
  "delete_request dst gateway ifindex metric src =
     (let q = \<lparr>nlmsg_len = 28, nlmsg_type = RTM_DELROUTE, nlmsg_flags = 5, rtm_family = 2,
             rtm_dst_len = 32, rtm_table = 254, rtm_protocol = 0, rtm_scope = 0, rtm_type = 1,
             rtm_flags = 4, rt_buf = []\<rparr>;
          q = (if 0 \<le> sint ifindex then netlink_addreq RTA_OIF (le32 ifindex) q else q);
          q = (if 0 \<le> sint metric then netlink_addreq RTA_PRIORITY (le32 metric) q else q);
          q = (if src \<noteq> 0 then netlink_addreq RTA_PREFSRC (le32 src) q else q);
          q = (if gateway \<noteq> 0 then netlink_addreq RTA_GATEWAY (le32 gateway) q else q)
      in (if dst \<noteq> 0 then netlink_addreq RTA_DST (le32 dst) q else q))"

definition FO_delete_a_route :: "ip \<Rightarrow> ip \<Rightarrow> u32 \<Rightarrow> u32 \<Rightarrow> ip \<Rightarrow> (fo, int) sm" where
  "FO_delete_a_route dst gateway ifindex metric src =
     (if dst = 0 \<and> gateway = 0 \<and> sint ifindex < 0 then ret (- 1)
      else
        bnd (netlink_send_update_request (delete_request dst gateway ifindex metric src)) (\<lambda>err.
        ret (if err \<noteq> 0 then - 1 else 0)))"

section \<open>The dump of the routing table\<close>

record route_entry =
  en_dst :: ip
  en_gateway :: ip
  en_ifindex :: u32
  en_metric :: u32
  en_src :: ip
  en_table :: u32

text \<open>\<open>sizeof (struct route_entry)\<close>, with the pointer that is never used.\<close>

abbreviation (input) ENTRY_SIZE :: nat where "ENTRY_SIZE \<equiv> 32"

definition empty_entry :: route_entry where
  "empty_entry = \<lparr>en_dst = 0, en_gateway = 0, en_ifindex = 0, en_metric = 0, en_src = 0, en_table = 0\<rparr>"

text \<open>
  One attribute: its first four bytes, however many it has, which lie behind the buffer when it
  has none at the end.
\<close>

definition set_attr :: "16 word \<Rightarrow> u8 list \<Rightarrow> route_entry \<Rightarrow> fault + route_entry" where
  "set_attr type data e =
     (if type \<notin> {RTA_OIF, RTA_GATEWAY, RTA_PREFSRC, RTA_DST, RTA_TABLE, RTA_PRIORITY} then Inr e
      else if length data < 4 then Inl OverRead
      else
        let v = at32 data 0 in
        Inr (if type = RTA_OIF then e\<lparr>en_ifindex := v\<rparr>
             else if type = RTA_GATEWAY then e\<lparr>en_gateway := v\<rparr>
             else if type = RTA_PREFSRC then e\<lparr>en_src := v\<rparr>
             else if type = RTA_DST then e\<lparr>en_dst := v\<rparr>
             else if type = RTA_TABLE then e\<lparr>en_table := v\<rparr>
             else e\<lparr>en_metric := v\<rparr>))"

function parse_attrs :: "u8 list \<Rightarrow> int \<Rightarrow> route_entry \<Rightarrow> fault + route_entry" where
  "parse_attrs rtAttr rtLen e =
     (let rta_len = unat (at16 rtAttr 0) in
      if \<not> (4 \<le> rtLen \<and> 4 \<le> rta_len \<and> int rta_len \<le> rtLen) then Inr e
      else
        (case set_attr (at16 rtAttr 2) (drop 4 rtAttr) e of
           Inl f \<Rightarrow> Inl f
         | Inr e' \<Rightarrow> parse_attrs (drop (align4 rta_len) rtAttr) (rtLen - int (align4 rta_len)) e'))"
  by pat_completeness auto
termination
  by (relation "measure (\<lambda>(_, rtLen, _). nat rtLen)") (auto simp: align4_def)

declare parse_attrs.simps [simp del]

definition parseRoutes :: "u8 list \<Rightarrow> route_entry \<Rightarrow> fault + route_entry" where
  "parseRoutes nlHdr rtInfo = parse_attrs (drop 28 nlHdr) (sint (at32 nlHdr 0 - 28)) rtInfo"

text \<open>
  The messages of one datagram. \<open>h\<close> is the receive buffer from the current message on, \<open>len\<close>
  what is left of the datagram. An entry is copied to \<open>table + entry_number * sizeof (struct
  route_entry)\<close>, which counts in entries.
\<close>

function message_loop ::
    "u8 list \<Rightarrow> int \<Rightarrow> bool \<Rightarrow> nat \<Rightarrow> route_entry list \<Rightarrow> fault + (bool \<times> nat \<times> route_entry list)" where
  "message_loop h len end_flag entry_number table =
     (if \<not> NLMSG_OK h len then Inr (end_flag, entry_number, table)
      else
        let n = align4 (unat (at32 h 0)) in
        if at16 h 4 = NLMSG_DONE then message_loop (drop n h) (len - int n) True entry_number table
        else if at16 h 4 = RTM_NEWROUTE then
          (case parseRoutes h empty_entry of
             Inl f \<Rightarrow> Inl f
           | Inr e \<Rightarrow>
               let i = entry_number * ENTRY_SIZE in
               if i \<ge> length table then Inl (HeapOverflow ((i + 1) * ENTRY_SIZE) (length table * ENTRY_SIZE))
               else message_loop (drop n h) (len - int n) end_flag (entry_number + 1) (table[i := e]))
        else message_loop (drop n h) (len - int n) end_flag entry_number table)"
  by pat_completeness auto
termination
  by (relation "measure (\<lambda>(_, len, _). nat len)") (auto simp: align4_def NLMSG_OK_def)

declare message_loop.simps [simp del]

text \<open>
  \<open>while (!end_flag)\<close>: what \<open>len\<close> is set to, \<open>None\<close> for the early return, and the caller's
  array. The receive buffer is zeroed before each call.
\<close>

fun dump_loop :: "u8 list list \<Rightarrow> nat \<Rightarrow> route_entry list \<Rightarrow> fault + ((nat option \<times> route_entry list) \<times> u8 list list)" where
  "dump_loop [] entry_number table = Inl Diverges"
| "dump_loop (d # ds) entry_number table =
     (let r = take 1024 d; h = r @ replicate (1024 - length r) 0 in
      if r = [] \<or> \<not> NLMSG_OK h (int (length r)) then Inr ((None, table), ds)
      else
        (case message_loop h (int (length r)) False entry_number table of
           Inl f \<Rightarrow> Inl f
         | Inr (end_flag, n, t) \<Rightarrow> if end_flag then Inr ((Some n, t), ds) else dump_loop ds n t))"

definition netlink_send_get_request :: "rtreq \<Rightarrow> route_entry list \<Rightarrow> (fo, nat option \<times> route_entry list) sm" where
  "netlink_send_get_request nl_hdr table =
     bnd (fo_sendmsg nl_hdr) (\<lambda>sent.
     if sent \<le> 0 then ret (None, table)
     else
       bnd (gets f_replies) (\<lambda>rs.
       case dump_loop rs 0 table of
         Inl f \<Rightarrow> raise f
       | Inr (r, rs') \<Rightarrow> andthen (upd (\<lambda>s. s\<lparr>f_replies := rs'\<rparr>)) (ret r)))"

definition get_request :: rtreq where
  "get_request = \<lparr>nlmsg_len = 28, nlmsg_type = RTM_GETROUTE, nlmsg_flags = 0x301, rtm_family = 2,
     rtm_dst_len = 0, rtm_table = 254, rtm_protocol = 0, rtm_scope = 0, rtm_type = 0, rtm_flags = 0, rt_buf = []\<rparr>"

definition FO_get_routes :: "route_entry list \<Rightarrow> (fo, int \<times> nat option \<times> route_entry list) sm" where
  "FO_get_routes table =
     bnd (netlink_send_get_request get_request table) (\<lambda>(len, t).
     ret (case len of None \<Rightarrow> (- 1, None, t) | Some n \<Rightarrow> (0, Some n, t)))"

section \<open>Bytes\<close>

lemma length_le16 [simp]: "length (le16 w) = 2"
  by (simp add: le16_def)

lemma at16_append: "length p = i \<Longrightarrow> at16 (p @ le16 w @ r) i = w"
proof -
  have "(ucast (ucast w :: u8) :: 16 word) OR push_bit 8 (ucast (ucast (drop_bit 8 w) :: u8)) = w"
  proof (rule bit_word_eqI)
    fix n assume "n < LENGTH(16)"
    then have "n < 8 \<or> 8 \<le> n \<and> n < 16" by auto
    then show "bit ((ucast (ucast w :: u8) :: 16 word) OR push_bit 8 (ucast (ucast (drop_bit 8 w) :: u8))) n = bit w n"
      by (auto simp: bit_simps)
  qed
  then show "length p = i \<Longrightarrow> at16 (p @ le16 w @ r) i = w"
    by (auto simp: at16_def le16_def nth_append)
qed

lemma at32_append: "length p = i \<Longrightarrow> at32 (p @ le32 w @ r) i = w"
  unfolding at32_def by (rule read32_le32) (simp_all add: nth_append)

lemmas at_start = at16_append [of "[]" 0, simplified] at32_append [of "[]" 0, simplified]

lemma length_request_bytes: "length (request_bytes q) = 28 + length (rt_buf q)"
  by (simp add: request_bytes_def)

text \<open>An attribute, and the attributes of a request in order.\<close>

definition attr :: "16 word \<times> u32 \<Rightarrow> u8 list" where
  "attr = (\<lambda>(type, v). le16 8 @ le16 type @ le32 v)"

lemma length_attr [simp]: "length (attr a) = 8"
  by (simp add: attr_def split: prod.split)

lemma length_attrs [simp]: "length (concat (map attr as)) = 8 * length as"
  by (induction as) simp_all

definition has_attrs :: "(16 word \<times> u32) list \<Rightarrow> rtreq \<Rightarrow> bool" where
  "has_attrs as q \<longleftrightarrow> rt_buf q = concat (map attr as) \<and> nlmsg_len q = 28 + 8 * length as"

lemma align4_multiple [simp]: "align4 (4 * n) = 4 * n"
  by (simp add: align4_def)

lemma align4_request [simp]: "align4 (28 + 8 * n) = 28 + 8 * n"
  using align4_multiple [of "7 + 2 * n"] by simp

lemma addreq_attrs: "has_attrs as q \<Longrightarrow> has_attrs (as @ [(type, v)]) (netlink_addreq type (le32 v) q)"
  by (simp add: has_attrs_def netlink_addreq_def attr_def)

lemma addreq_rest:
  "nlmsg_type (netlink_addreq type d q) = nlmsg_type q" "nlmsg_flags (netlink_addreq type d q) = nlmsg_flags q"
  by (simp_all add: netlink_addreq_def)

text \<open>Reading the attributes back.\<close>

definition apply_attr :: "16 word \<times> u32 \<Rightarrow> route_entry \<Rightarrow> route_entry" where
  "apply_attr = (\<lambda>(type, v) e. if type = RTA_OIF then e\<lparr>en_ifindex := v\<rparr>
     else if type = RTA_GATEWAY then e\<lparr>en_gateway := v\<rparr>
     else if type = RTA_PREFSRC then e\<lparr>en_src := v\<rparr>
     else if type = RTA_DST then e\<lparr>en_dst := v\<rparr>
     else if type = RTA_TABLE then e\<lparr>en_table := v\<rparr>
     else if type = RTA_PRIORITY then e\<lparr>en_metric := v\<rparr> else e)"

lemma set_attr_apply: "set_attr type (le32 v @ r) e = Inr (apply_attr (type, v) e)"
  by (auto simp: set_attr_def apply_attr_def at_start Let_def)

lemma parse_attrs_read:
  "parse_attrs (concat (map attr as) @ r) (8 * int (length as)) e = Inr (fold apply_attr as e)"
proof (induction as arbitrary: e)
  case Nil
  then show ?case by (simp add: parse_attrs.simps)
next
  case (Cons a as)
  obtain type v where a: "a = (type, v)" by (cases a)
  let ?x = "le16 8 @ le16 type @ le32 v @ concat (map attr as) @ r"
  have "at16 ?x 0 = 8" "at16 ?x 2 = type"
    using at16_append [of "le16 8" 2 type] by (simp_all add: at_start)
  moreover have "drop 4 ?x = le32 v @ concat (map attr as) @ r" "drop 8 ?x = concat (map attr as) @ r"
    by (simp_all add: le16_def le32_def)
  moreover have "align4 8 = 8" using align4_multiple [of 2] by simp
  ultimately show ?case using Cons.IH [of "apply_attr a e"]
    by (subst parse_attrs.simps) (simp add: a attr_def set_attr_apply)
qed

lemma parseRoutes_read:
  assumes "has_attrs as q" "length as < 1000"
  shows "parseRoutes (request_bytes q @ r) e = Inr (fold apply_attr as e)"
proof -
  let ?b = "request_bytes q @ r" and ?n = "nlmsg_len q"
  have at: "at32 ?b 0 = of_nat ?n"
    unfolding request_bytes_def append_assoc by (rule at_start)
  have n: "?n = 28 + 8 * length as" using assms(1) by (simp add: has_attrs_def)
  have "(of_nat ?n :: u32) - 28 = of_nat (8 * length as)" by (simp add: n)
  moreover have "sint (of_nat (8 * length as) :: u32) = 8 * int (length as)"
    using assms(2) unfolding signed_of_nat by (simp add: signed_take_bit_int_eq_self)
  moreover have "drop 28 ?b = concat (map attr as) @ r"
    using assms(1) by (simp add: request_bytes_def has_attrs_def le16_def le32_def)
  ultimately show ?thesis using parse_attrs_read [of as r e] by (simp add: parseRoutes_def at)
qed

text \<open>The attributes of the request that adds a route.\<close>

definition add_attrs :: "ip \<Rightarrow> ip \<Rightarrow> u32 \<Rightarrow> u32 \<Rightarrow> ip \<Rightarrow> (16 word \<times> u32) list" where
  "add_attrs dst gateway ifindex metric src = (RTA_OIF, ifindex) # (if 0 \<le> sint metric then [(RTA_PRIORITY, metric)] else [])
     @ (if src \<noteq> 0 then [(RTA_PREFSRC, src)] else []) @ [(RTA_GATEWAY, gateway), (RTA_DST, dst)]"

lemma has_attrs_none: "rt_buf q = [] \<Longrightarrow> nlmsg_len q = 28 \<Longrightarrow> has_attrs [] q"
  by (simp add: has_attrs_def)

lemma add_request_attrs: "has_attrs (add_attrs dst gateway ifindex metric src) (add_request dst netmask gateway ifindex metric src)"
proof -
  let ?q = "\<lparr>nlmsg_len = 28, nlmsg_type = RTM_NEWROUTE, nlmsg_flags = 0x505, rtm_family = 2,
     rtm_dst_len = ucast netmask, rtm_table = 254, rtm_protocol = 4, rtm_scope = 0, rtm_type = 1,
     rtm_flags = 4, rt_buf = []\<rparr>"
  have "has_attrs [] ?q" by (rule has_attrs_none) simp_all
  note first = addreq_attrs [OF this, of RTA_OIF ifindex]
  have optional: "has_attrs as q \<Longrightarrow> has_attrs (as @ (if b then [(type, v)] else [])) (if b then netlink_addreq type (le32 v) q else q)"
    for as q b type v
    using addreq_attrs [of as q type v] by simp
  from addreq_attrs [OF addreq_attrs [OF optional [OF optional [OF first,
        of "0 \<le> sint metric" RTA_PRIORITY metric], of "src \<noteq> 0" RTA_PREFSRC src], of RTA_GATEWAY gateway], of RTA_DST dst]
  show ?thesis by (simp add: add_request_def add_attrs_def Let_def cong: if_cong)
qed

lemma add_request_type: "nlmsg_type (add_request dst netmask gateway ifindex metric src) = RTM_NEWROUTE"
  by (simp add: add_request_def Let_def addreq_rest)

section \<open>Messages of a dump\<close>

definition route_message :: "rtreq \<Rightarrow> bool" where
  "route_message q \<longleftrightarrow> nlmsg_type q = RTM_NEWROUTE \<and> (\<exists>as. has_attrs as q \<and> length as < 1000)"

lemma header_read:
  "at32 (request_bytes q @ r) 0 = of_nat (nlmsg_len q)" "at16 (request_bytes q @ r) 4 = nlmsg_type q"
proof -
  show "at32 (request_bytes q @ r) 0 = of_nat (nlmsg_len q)"
    unfolding request_bytes_def append_assoc by (rule at_start)
  show "at16 (request_bytes q @ r) 4 = nlmsg_type q"
    unfolding request_bytes_def append_assoc by (rule at16_append) simp
qed

lemma message_loop_route:
  assumes "route_message q" "int (length (request_bytes q)) \<le> len"
  obtains e where "\<And>r. parseRoutes (request_bytes q @ r) empty_entry = Inr e"
    "\<And>r ef n t. message_loop (request_bytes q @ r) len ef n t =
      (if n * 32 \<ge> length t then Inl (HeapOverflow ((n * 32 + 1) * 32) (length t * 32))
       else message_loop r (len - int (length (request_bytes q))) ef (n + 1) (t[n * 32 := e]))"
proof -
  from assms(1) obtain as where as: "has_attrs as q" "length as < 1000" and type: "nlmsg_type q = RTM_NEWROUTE"
    by (auto simp: route_message_def)
  from as(1) have len: "nlmsg_len q = 28 + 8 * length as" "length (request_bytes q) = 28 + 8 * length as"
    by (simp_all add: has_attrs_def length_request_bytes)
  have "unat (of_nat (28 + 8 * length as) :: u32) = 28 + 8 * length as"
    unfolding unat_of_nat using as(2) by simp
  then have n: "unat (at32 (request_bytes q @ r) 0) = 28 + 8 * length as" for r by (simp only: header_read len)
  have ok: "NLMSG_OK (request_bytes q @ r) len" for r
    using assms(2) by (simp add: NLMSG_OK_def n len)
  have parse: "parseRoutes (request_bytes q @ r) empty_entry = Inr (fold apply_attr as empty_entry)" for r
    by (rule parseRoutes_read [OF as])
  show thesis
  proof (rule that [of "fold apply_attr as empty_entry"])
    fix r ef n t
    show "message_loop (request_bytes q @ r) len ef n t =
      (if n * 32 \<ge> length t then Inl (HeapOverflow ((n * 32 + 1) * 32) (length t * 32))
       else message_loop r (len - int (length (request_bytes q))) ef (n + 1) (t[n * 32 := fold apply_attr as empty_entry]))"
      by (subst message_loop.simps) (simp add: ok n header_read(2) type parse len(2) Let_def)
  qed (rule parse)
qed

text \<open>The answer of the kernel to a change: an error message with the code 0 for success.\<close>

definition ack :: "u32 \<Rightarrow> u8 list \<Rightarrow> u8 list" where
  "ack error rest = le32 36 @ le16 NLMSG_ERROR @ le16 0 @ le32 0 @ le32 0 @ le32 error @ rest"

lemma update_request_run:
  assumes "0 < f_sendmsg s (fticks s)" "f_replies s = ack error rest # rs" "16 \<le> length rest" "length rest \<le> 1000"
  shows "netlink_send_update_request q s = Inr (sint (- error), s\<lparr>fticks := Suc (fticks s),
    fouts := fouts s @ [Route_send (fo_socket_fd s) (request_bytes q)], f_replies := rs\<rparr>)"
proof -
  let ?h = "ack error rest"
  have "at32 ?h 0 = 36" "at16 ?h 4 = NLMSG_ERROR" "at32 ?h 16 = error"
    using at16_append [of "le32 36" 4 NLMSG_ERROR] at32_append [of "le32 36 @ le16 2 @ le16 0 @ le32 0 @ le32 0" 16 error]
    by (simp_all add: ack_def at_start)
  moreover have "take 1024 ?h = ?h" "?h \<noteq> []" "20 + length rest = length ?h"
    using assms(4) by (simp_all add: ack_def le32_def)
  ultimately show ?thesis using assms
    by (simp add: netlink_send_update_request_def fo_sendmsg_def fo_recvmsg_def sm_simps NLMSG_OK_def)
qed

lemma add_request_read:
  "parseRoutes (request_bytes (add_request dst netmask gateway ifindex metric src) @ rest) empty_entry =
     Inr \<lparr>en_dst = dst, en_gateway = gateway, en_ifindex = ifindex,
       en_metric = (if 0 \<le> sint metric then metric else 0), en_src = src, en_table = 0\<rparr>"
proof -
  have "length (add_attrs dst gateway ifindex metric src) < 1000" by (simp add: add_attrs_def)
  from parseRoutes_read [OF add_request_attrs this] show ?thesis
    by (simp add: add_attrs_def apply_attr_def empty_entry_def)
qed

section \<open>Properties\<close>

text \<open>
  C38. The request of \<open>FO_add_a_route\<close>, read as a route of a dump by \<open>parseRoutes\<close>, is the route:
  its destination, gateway, interface and source, and the metric unless it is negative; whatever
  follows in the buffer.
\<close>

theorem route_round_trip:
  "parseRoutes (request_bytes (add_request dst netmask gateway ifindex metric src) @ rest) empty_entry =
     Inr \<lparr>en_dst = dst, en_gateway = gateway, en_ifindex = ifindex,
       en_metric = (if 0 \<le> sint metric then metric else 0), en_src = src, en_table = 0\<rparr>"
  by (rule add_request_read)

text \<open>
  Adding a route sends one message, with a length field that is its own length and within the
  1052 bytes of \<open>struct rtreq\<close>, and returns 0 exactly when the kernel reports no error.
\<close>

theorem add_a_route_sends_one:
  assumes "0 < f_sendmsg s (fticks s)" "f_replies s = ack error rest # rs" "16 \<le> length rest" "length rest \<le> 1000"
  shows "\<exists>bytes. FO_add_a_route dst netmask gateway ifindex metric src s =
      Inr (if error = 0 then 0 else - 1, s\<lparr>fticks := Suc (fticks s),
        fouts := fouts s @ [Route_send (fo_socket_fd s) bytes], f_replies := rs\<rparr>)
    \<and> at32 bytes 0 = of_nat (length bytes) \<and> length bytes \<le> 68"
proof -
  let ?q = "add_request dst netmask gateway ifindex metric src" and ?as = "add_attrs dst gateway ifindex metric src"
  have "length (request_bytes ?q) = nlmsg_len ?q" "length (request_bytes ?q) = 28 + 8 * length ?as"
    using add_request_attrs [of dst gateway ifindex metric src netmask] by (simp_all add: has_attrs_def length_request_bytes)
  moreover have "length ?as \<le> 5" by (simp add: add_attrs_def)
  moreover have "at32 (request_bytes ?q) 0 = of_nat (nlmsg_len ?q)" using header_read(1) [of ?q "[]"] by simp
  moreover have "sint (- error) = 0 \<longleftrightarrow> error = 0" by (simp add: signed_eq_0_iff)
  ultimately show ?thesis
    using update_request_run [OF assms, of ?q] by (auto simp: FO_add_a_route_def sm_simps)
qed

theorem add_a_route_sends_one_witness:
  "let s = \<lparr>f_sendmsg = \<lambda>_. 68, f_socket = 3, fticks = 0, f_replies = [ack 0 (replicate 16 0)], fo_socket_fd = 3, fouts = []\<rparr> in
   \<exists>s'. FO_add_a_route 9 32 2 4 100 0 s = Inr (0, s') \<and> length (fouts s') = 1"
  using add_a_route_sends_one [of "\<lparr>f_sendmsg = \<lambda>_. 68, f_socket = 3, fticks = 0,
      f_replies = [ack 0 (replicate 16 0)], fo_socket_fd = 3, fouts = []\<rparr>" 0 "replicate 16 0" "[]" 9 32 2 4 100 0]
  by (auto simp: Let_def)

text \<open>
  A dump with two routes overflows the caller's array: the second entry is written 32 entries
  behind the first, so an array of up to 32 entries, of any size a caller would take for two
  routes, is not enough.
\<close>

theorem second_route_overflows:
  assumes "0 < f_sendmsg s (fticks s)"
    and "f_replies s = (request_bytes q1 @ request_bytes q2 @ rest) # ds" "route_message q1" "route_message q2"
    and "length (request_bytes q1 @ request_bytes q2 @ rest) \<le> 1024"
    and "1 \<le> length table" "length table \<le> 32"
  shows "FO_get_routes table s = Inl (HeapOverflow 1056 (32 * length table))"
proof -
  let ?d = "request_bytes q1 @ request_bytes q2 @ rest"
  let ?pad = "replicate (1024 - length ?d) 0"
  have l1: "int (length (request_bytes q1)) \<le> int (length ?d)"
    and l2: "int (length (request_bytes q2)) \<le> int (length ?d) - int (length (request_bytes q1))" by simp_all
  obtain e1 where e1: "\<And>r ef n t. message_loop (request_bytes q1 @ r) (int (length ?d)) ef n t =
      (if n * 32 \<ge> length t then Inl (HeapOverflow ((n * 32 + 1) * 32) (length t * 32))
       else message_loop r (int (length ?d) - int (length (request_bytes q1))) ef (n + 1) (t[n * 32 := e1]))"
    by (rule message_loop_route [OF assms(3) l1]) blast
  obtain e2 where e2: "\<And>r ef n t. message_loop (request_bytes q2 @ r) (int (length ?d) - int (length (request_bytes q1))) ef n t =
      (if n * 32 \<ge> length t then Inl (HeapOverflow ((n * 32 + 1) * 32) (length t * 32))
       else message_loop r (int (length ?d) - int (length (request_bytes q1)) - int (length (request_bytes q2))) ef (n + 1) (t[n * 32 := e2]))"
    by (rule message_loop_route [OF assms(4) l2]) blast
  have "take 1024 ?d = ?d" using assms(5) by simp
  moreover have "?d \<noteq> []" by (simp add: request_bytes_def le32_def)
  moreover have "message_loop (?d @ ?pad) (int (length ?d)) False 0 table = Inl (HeapOverflow 1056 (32 * length table))"
    using assms(6,7) e1 e2 by (cases table) (simp_all add: mult.commute)
  moreover have "NLMSG_OK (?d @ ?pad) (int (length ?d))"
  proof (rule ccontr)
    assume "\<not> NLMSG_OK (?d @ ?pad) (int (length ?d))"
    then have "message_loop (?d @ ?pad) (int (length ?d)) False 0 table = Inr (False, 0, table)"
      by (subst message_loop.simps) simp
    with calculation(3) show False by simp
  qed
  ultimately have "dump_loop (?d # ds) 0 table = Inl (HeapOverflow 1056 (32 * length table))"
    by (simp only: dump_loop.simps Let_def) simp
  with assms(1,2) show ?thesis
    by (simp add: FO_get_routes_def netlink_send_get_request_def fo_sendmsg_def sm_simps)
qed

theorem second_route_overflows_witness:
  "FO_get_routes (replicate 10 empty_entry) \<lparr>f_sendmsg = \<lambda>_. 28, f_socket = 3, fticks = 0,
     f_replies = [request_bytes (add_request 9 32 2 4 100 0) @ request_bytes (add_request 7 32 2 4 100 0)],
     fo_socket_fd = 3, fouts = []\<rparr> = Inl (HeapOverflow 1056 320)"
proof -
  have route: "route_message (add_request d 32 2 4 100 0)" for d
  proof -
    have "length (add_attrs d 2 4 100 0) < 1000" by (simp add: add_attrs_def)
    with add_request_attrs [of d 2 4 100 0 32] add_request_type show ?thesis unfolding route_message_def by blast
  qed
  have len: "length (request_bytes (add_request d 32 2 4 100 0)) = 60" for d
    using add_request_attrs [of d 2 4 100 0 32] by (simp add: has_attrs_def length_request_bytes add_attrs_def)
  show ?thesis
    using second_route_overflows [of "\<lparr>f_sendmsg = \<lambda>_. 28, f_socket = 3, fticks = 0,
     f_replies = [request_bytes (add_request 9 32 2 4 100 0) @ request_bytes (add_request 7 32 2 4 100 0)],
     fo_socket_fd = 3, fouts = []\<rparr>" "add_request 9 32 2 4 100 0" "add_request 7 32 2 4 100 0" "[]" "[]"
       "replicate 10 empty_entry"] route len by simp
qed

end
