(* ===== verification/Startup.thy ===== *)
theory Startup
  imports Examples Fo_Netlink
begin

text \<open>
  The process around the AODV daemon (\<open>main.cc\<close>, \<open>utils.cc\<close>, \<open>aodvSocket.cc\<close> and the first and last
  parts of \<open>aodv.cc\<close>): the command line, the sockets, the address of the interface, the table of
  handler functions and the main loop that calls them. Its rounds are runs of \<open>node_step\<close>.
\<close>

section \<open>The process\<close>

text \<open>
  What the system answers: the user, the sockets by the number of the call, the options of a
  socket, \<open>bind\<close>, the interfaces of \<open>SIOCGIFCONF\<close> (\<open>None\<close>: an error), \<open>connect\<close>; and what the
  uninitialised \<open>my_addr\<close> of \<open>aodv_init\<close> holds.
\<close>

datatype sockopt = So_bindtodevice string | So_reuseaddr int | So_broadcast int | So_priority int
  | Ip_recvttl int | Ip_pktinfo int

record ifreq =
  ifr_name :: string
  ifr_family :: int
  ifr_addr :: ip

record start_env =
  se_uid :: nat
  se_euid :: nat
  se_socket :: "nat \<Rightarrow> int"
  se_setsockopt :: "int \<Rightarrow> sockopt \<Rightarrow> int"
  se_bind :: "int \<Rightarrow> int"
  se_ifconf :: "int \<Rightarrow> ifreq list option"
  se_connect :: "int \<Rightarrow> int"
  se_junk_addr :: ip

datatype hfunc = Process_aodv_handler | Recv_la_data_handler

datatype syscall = Signal string string | Setsockopt int sockopt | Bind int ip nat | Connect int ip nat
  | Free_buffers | Exit int

text \<open>
  The state of the process: the daemon's globals in \<open>pnode\<close>, the forwarding library's in \<open>pfo\<close>;
  \<open>aodv_fd\<close> is the descriptor in \<open>aodvSock\<close>, \<open>handlers\<close> the entries of the array up to
  \<open>handler_cnt\<close>.
\<close>

record aodv_process =
  senv :: start_env
  socket_calls :: nat
  ifname :: string
  pnode :: node
  pfo :: fo
  aodv_fd :: int
  la_sock :: int
  handlers :: "(int \<times> hfunc) list"
  syscalls :: "syscall list"

abbreviation (input) AF_INET_FAMILY :: int where "AF_INET_FAMILY \<equiv> 2"
abbreviation (input) AODV_PORT :: nat where "AODV_PORT \<equiv> 654"
abbreviation (input) SERV_PORT :: nat where "SERV_PORT \<equiv> 12001"
abbreviation (input) LOOPBACK :: ip where "LOOPBACK \<equiv> 0x0100007F"
abbreviation (input) MAX_HANDLERS :: nat where "MAX_HANDLERS \<equiv> 8"

definition do_call :: "syscall \<Rightarrow> (aodv_process, unit) sm" where
  "do_call c = upd (\<lambda>p. p\<lparr>syscalls := syscalls p @ [c]\<rparr>)"

text \<open>\<open>exit (1)\<close> ends the process: what calls it has the result \<open>None\<close>.\<close>

definition exit1 :: "(aodv_process, 'a option) sm" where
  "exit1 = andthen (do_call (Exit 1)) (ret None)"

definition on_node :: "(node, 'a) sm \<Rightarrow> (aodv_process, 'a) sm" where
  "on_node m = (\<lambda>p. case m (pnode p) of Inl e \<Rightarrow> Inl e | Inr (x, s) \<Rightarrow> Inr (x, p\<lparr>pnode := s\<rparr>))"

definition on_fo :: "(fo, 'a) sm \<Rightarrow> (aodv_process, 'a) sm" where
  "on_fo m = (\<lambda>p. case m (pfo p) of Inl e \<Rightarrow> Inl e | Inr (x, f) \<Rightarrow> Inr (x, p\<lparr>pfo := f\<rparr>))"

section \<open>The command line\<close>

text \<open>
  \<open>strcpy\<close> into the ten bytes of \<open>interface\<close>; an option without its argument reads the null
  pointer behind the arguments.
\<close>

definition copy_interface :: "string \<Rightarrow> (aodv_process, unit) sm" where
  "copy_interface v =
     (if 10 < length v + 1 then raise (HeapOverflow (length v + 1) 10)
      else upd (\<lambda>p. p\<lparr>ifname := v\<rparr>))"

fun read_options :: "(string \<Rightarrow> int) \<Rightarrow> string list \<Rightarrow> (aodv_process, unit option) sm" where
  "read_options atoi [] = ret (Some ())"
| "read_options atoi (w # ws) =
     (case w of
        d # c # _ \<Rightarrow>
          if d = CHR ''-'' \<and> c = CHR ''h'' then exit1
          else if d = CHR ''-'' \<and> c = CHR ''i'' then
            (case ws of [] \<Rightarrow> raise NullDeref
             | v # ws' \<Rightarrow> andthen (copy_interface v) (read_options atoi ws'))
          else if d = CHR ''-'' \<and> c \<in> {CHR ''f'', CHR ''e'', CHR ''a'', CHR ''r''} then
            (case ws of [] \<Rightarrow> raise NullDeref
             | v # ws' \<Rightarrow> andthen (upd (\<lambda>p. p\<lparr>pnode := apply_option c (atoi v) (pnode p)\<rparr>))
                 (read_options atoi ws'))
          else read_options atoi ws
      | _ \<Rightarrow> read_options atoi ws)"

section \<open>Sockets and addresses\<close>

definition check_root :: "(aodv_process, int) sm" where
  "check_root = gets (\<lambda>p. if se_uid (senv p) \<noteq> 0 \<or> se_euid (senv p) \<noteq> 0 then - 1 else 0)"

definition open_socket :: "(aodv_process, int) sm" where
  "open_socket =
     bnd (gets (\<lambda>p. se_socket (senv p) (socket_calls p))) (\<lambda>fd.
     andthen (upd (\<lambda>p. p\<lparr>socket_calls := Suc (socket_calls p)\<rparr>)) (ret fd))"

text \<open>The options one after the other, until one fails; the socket then stays open.\<close>

fun set_options :: "int \<Rightarrow> sockopt list \<Rightarrow> (aodv_process, int) sm" where
  "set_options fd [] = ret fd"
| "set_options fd (opt # opts) =
     andthen (do_call (Setsockopt fd opt))
     (bnd (gets (\<lambda>p. se_setsockopt (senv p) fd opt)) (\<lambda>r.
      if r < 0 then ret (- 1) else set_options fd opts))"

definition aodv_init_socket :: "string \<Rightarrow> (aodv_process, int) sm" where
  "aodv_init_socket IF =
     bnd open_socket (\<lambda>fd.
     if fd = - 1 then ret (- 1)
     else set_options fd [So_bindtodevice IF, So_reuseaddr 1, So_broadcast 1, So_priority 0, Ip_recvttl 1, Ip_pktinfo 1])"

text \<open>The result and the address that \<open>addr\<close> points to afterwards, \<open>INADDR_ANY\<close>.\<close>

definition aodv_bind_socket :: "int \<Rightarrow> (aodv_process, int \<times> ip) sm" where
  "aodv_bind_socket fd =
     andthen (do_call (Bind fd 0 AODV_PORT))
     (bnd (gets (\<lambda>p. se_bind (senv p) fd)) (\<lambda>r. ret (if r = - 1 then - 1 else 0, 0)))"

text \<open>When the socket cannot be made, \<open>addr\<close> stays as it is.\<close>

definition createSock :: "string \<Rightarrow> ip \<Rightarrow> (aodv_process, int \<times> ip) sm" where
  "createSock IF addr =
     bnd (aodv_init_socket IF) (\<lambda>fd.
     andthen (upd (\<lambda>p. p\<lparr>aodv_fd := fd\<rparr>))
     (if fd < 0 then ret (- 1, addr)
      else bnd (aodv_bind_socket fd) (\<lambda>(r, a). ret (if r < 0 then - 1 else 0, a))))"

text \<open>
  The functions of \<open>utils.cc\<close> that nothing calls: the socket without the options that ask for the
  time to live and the destination of a datagram, and a socket for the kernel's routing table.
\<close>

definition utils_init_socket :: "string \<Rightarrow> (aodv_process, int) sm" where
  "utils_init_socket IF =
     bnd open_socket (\<lambda>fd.
     if fd = - 1 then ret (- 1)
     else set_options fd [So_bindtodevice IF, So_reuseaddr 1, So_broadcast 1, So_priority 0])"

definition utils_bind_socket :: "int \<Rightarrow> (aodv_process, int \<times> ip) sm" where
  "utils_bind_socket fd =
     andthen (do_call (Bind fd 0 AODV_PORT))
     (bnd (gets (\<lambda>p. se_bind (senv p) fd)) (\<lambda>r. ret (if r = - 1 then - 1 else 0, 0)))"

definition init_krtsocket :: "(aodv_process, int) sm" where
  "init_krtsocket = bnd open_socket (\<lambda>fd. ret (if fd < 0 then - 1 else fd))"

text \<open>
  The loop over the interfaces: every one whose name begins with the given one is a match, and
  each match overwrites the address. The buffer of 500 bytes has room for 12 entries.
\<close>

fun scan_interfaces :: "string \<Rightarrow> ifreq list \<Rightarrow> ip \<Rightarrow> ip" where
  "scan_interfaces IF [] a = a"
| "scan_interfaces IF (i # is) a =
     (if ifr_family i \<noteq> AF_INET_FAMILY then scan_interfaces IF is a
      else if take (length IF) (ifr_name i) = IF then scan_interfaces IF is (ifr_addr i)
      else scan_interfaces IF is a)"

definition get_interface_ip :: "int \<Rightarrow> string \<Rightarrow> ip \<Rightarrow> (aodv_process, int) sm" where
  "get_interface_ip fd IF addr =
     bnd (gets (\<lambda>p. se_ifconf (senv p) fd)) (\<lambda>r.
     case r of None \<Rightarrow> ret (- 1)
     | Some is \<Rightarrow>
         andthen (upd (\<lambda>p. p\<lparr>pnode := (pnode p)\<lparr>g_my_ip := scan_interfaces IF (take 12 is) addr\<rparr>\<rparr>)) (ret 0))"

section \<open>Initialization\<close>

definition register_handler_func :: "int \<Rightarrow> hfunc \<Rightarrow> (aodv_process, unit) sm" where
  "register_handler_func fd f =
     bnd (gets (\<lambda>p. length (handlers p))) (\<lambda>n.
     if MAX_HANDLERS \<le> n then raise (HeapOverflow (16 * (n + 1)) (16 * MAX_HANDLERS))
     else upd (\<lambda>p. p\<lparr>handlers := handlers p @ [(fd, f)]\<rparr>))"

text \<open>
  The socket to the agent: failures of \<open>socket\<close> and \<open>connect\<close> are printed, and the descriptor is
  registered whatever it is.
\<close>

definition connect_agent :: "(aodv_process, unit) sm" where
  "connect_agent =
     bnd open_socket (\<lambda>fd.
     andthen (upd (\<lambda>p. p\<lparr>la_sock := fd\<rparr>))
     (andthen (do_call (Connect fd LOOPBACK SERV_PORT))
       (register_handler_func fd Recv_la_data_handler)))"

definition aodv_init :: "string \<Rightarrow> (aodv_process, unit option) sm" where
  "aodv_init IF =
     bnd check_root (\<lambda>r.
     if r = - 1 then exit1
     else
       bnd (gets (\<lambda>p. se_junk_addr (senv p))) (\<lambda>junk.
       bnd (createSock IF junk) (\<lambda>(_, addr).
       bnd (gets aodv_fd) (\<lambda>fd.
       andthen (register_handler_func fd Process_aodv_handler)
       (bnd (get_interface_ip fd IF addr) (\<lambda>r.
        if r = - 1 then exit1
        else
          bnd (on_fo init_fo_socket) (\<lambda>fo_ret.
          if fo_ret < 0 then exit1
          else andthen connect_agent (ret (Some ()))))))))) "

definition registerSignal :: "(aodv_process, int) sm" where
  "registerSignal =
     andthen (do_call (Signal ''SIGALRM'' ''global_handler''))
     (andthen (do_call (Signal ''SIGINT'' ''sigint_timer_handler'')) (ret 0))"

section \<open>The main loop\<close>

text \<open>
  The set of descriptors: \<open>FD_SET\<close> in an array of 1024 bits on the stack, and the first number
  that is greater than every descriptor.
\<close>

fun watch :: "(int \<times> hfunc) list \<Rightarrow> int \<Rightarrow> (aodv_process, int) sm" where
  "watch [] nfds = ret nfds"
| "watch ((fd, f) # hs) nfds =
     (if fd < 0 \<or> 1024 \<le> fd then raise (StackOverflow (nat fd div 8 + 1) 128)
      else watch hs (if nfds \<le> fd then fd + 1 else nfds))"

text \<open>\<open>aodv_daemon\<close> up to the \<open>while\<close> of \<open>mainDaemonLoop\<close>.\<close>

definition aodv_daemon :: "string \<Rightarrow> (aodv_process, int option) sm" where
  "aodv_daemon IF =
     andthen registerSignal
     (andthen (on_node setRebootTimer)
     (andthen (on_node setPeriodicTimer)
     (bnd (aodv_init IF) (\<lambda>r.
      case r of None \<Rightarrow> ret None
      | Some _ \<Rightarrow> bnd (gets handlers) (\<lambda>hs. bnd (watch hs 0) (\<lambda>nfds. ret (Some nfds)))))))"

definition aodv_main :: "(string \<Rightarrow> int) \<Rightarrow> string list \<Rightarrow> (aodv_process, int option) sm" where
  "aodv_main atoi args =
     bnd (read_options atoi args) (\<lambda>r.
     case r of None \<Rightarrow> ret None | Some _ \<Rightarrow> bnd (gets ifname) aodv_daemon)"

text \<open>
  A round of the loop: \<open>select\<close> fails, as it does whenever the alarm interrupts it, or tells which
  descriptors are ready, and then the handlers of those are called in the order of the array; the
  datagram and the agent's bytes that they will read belong to the round.
\<close>

datatype select_answer = Select_error | Select_ready "int list" received "u8 list"

definition call_handler :: "received \<Rightarrow> u8 list \<Rightarrow> hfunc \<Rightarrow> (aodv_process, unit) sm" where
  "call_handler r bytes f =
     (case f of Process_aodv_handler \<Rightarrow> on_node (process_aodv r)
      | Recv_la_data_handler \<Rightarrow> on_node (recv_la_data bytes))"

definition call_ready :: "int list \<Rightarrow> received \<Rightarrow> u8 list \<Rightarrow> int \<times> hfunc \<Rightarrow> (aodv_process, unit) sm" where
  "call_ready ready r bytes h = whenM (fst h \<in> set ready) (call_handler r bytes (snd h))"

definition main_round :: "select_answer \<Rightarrow> (aodv_process, unit) sm" where
  "main_round a =
     (case a of Select_error \<Rightarrow> ret ()
      | Select_ready ready r bytes \<Rightarrow>
          bnd (gets handlers) (\<lambda>hs. forM hs (call_ready ready r bytes)))"

text \<open>The two signal handlers.\<close>

definition global_handler :: "nat \<Rightarrow> (aodv_process, unit) sm" where
  "global_handler fuel = on_node (scheduleTimer fuel)"

definition sigint_timer_handler :: "(aodv_process, unit option) sm" where
  "sigint_timer_handler = andthen (do_call Free_buffers) exit1"

inductive process_step :: "aodv_process \<Rightarrow> aodv_process \<Rightarrow> bool" where
  round: "main_round a p = Inr ((), p') \<Longrightarrow> process_step p p'"
| alarm: "global_handler n p = Inr ((), p') \<Longrightarrow> process_step p p'"

inductive_cases process_stepE: "process_step p p'"

section \<open>Lemmas\<close>

lemma on_node_apply: "on_node m p = (case m (pnode p) of Inl e \<Rightarrow> Inl e | Inr (x, s) \<Rightarrow> Inr (x, p\<lparr>pnode := s\<rparr>))"
  by (simp add: on_node_def)

text \<open>What a part of the start leaves alone, by pieces that do nothing to the daemon's globals.\<close>

lemma set_options_run:
  "\<exists>r cs. set_options fd opts p = Inr (r, p\<lparr>syscalls := syscalls p @ cs\<rparr>) \<and> (r = fd \<or> r = - 1)"
proof (induction opts arbitrary: p)
  case (Cons opt opts)
  let ?p = "p\<lparr>syscalls := syscalls p @ [Setsockopt fd opt]\<rparr>"
  from Cons obtain r cs where
    "set_options fd opts ?p = Inr (r, ?p\<lparr>syscalls := syscalls ?p @ cs\<rparr>)" "r = fd \<or> r = - 1"
    by blast
  then show ?case
    by (cases "se_setsockopt (senv p) fd opt < 0") (auto simp: sm_simps do_call_def)
qed (auto simp: sm_simps intro!: exI [of _ "[]"])

lemma aodv_init_socket_run:
  "\<exists>r cs. aodv_init_socket IF p = Inr (r, p\<lparr>socket_calls := Suc (socket_calls p), syscalls := syscalls p @ cs\<rparr>)
     \<and> (r = se_socket (senv p) (socket_calls p) \<or> r = - 1)"
proof (cases "se_socket (senv p) (socket_calls p) = - 1")
  case False
  let ?fd = "se_socket (senv p) (socket_calls p)"
  from set_options_run [of ?fd "[So_bindtodevice IF, So_reuseaddr 1, So_broadcast 1, So_priority 0, Ip_recvttl 1, Ip_pktinfo 1]"
      "p\<lparr>socket_calls := Suc (socket_calls p)\<rparr>"]
  obtain r cs where "set_options ?fd [So_bindtodevice IF, So_reuseaddr 1, So_broadcast 1, So_priority 0, Ip_recvttl 1, Ip_pktinfo 1]
      (p\<lparr>socket_calls := Suc (socket_calls p)\<rparr>)
    = Inr (r, p\<lparr>socket_calls := Suc (socket_calls p), syscalls := syscalls p @ cs\<rparr>)" "r = ?fd \<or> r = - 1"
    by auto
  with False show ?thesis
    unfolding aodv_init_socket_def open_socket_def by (auto simp: sm_simps simp del: set_options.simps)
qed (auto simp: aodv_init_socket_def open_socket_def sm_simps intro!: exI [of _ "[]"])

lemma createSock_run:
  "\<exists>r a fd cs. createSock IF addr p
     = Inr ((r, a), p\<lparr>socket_calls := Suc (socket_calls p), aodv_fd := fd, syscalls := syscalls p @ cs\<rparr>)
     \<and> (fd = se_socket (senv p) (socket_calls p) \<or> fd = - 1) \<and> a = (if fd < 0 then addr else 0)"
proof -
  from aodv_init_socket_run [of IF p] obtain fd cs where
    fd: "aodv_init_socket IF p = Inr (fd, p\<lparr>socket_calls := Suc (socket_calls p), syscalls := syscalls p @ cs\<rparr>)"
      "fd = se_socket (senv p) (socket_calls p) \<or> fd = - 1"
    by blast
  show ?thesis
  proof (cases "fd < 0")
    case True
    with fd show ?thesis
      by (intro exI [of _ "- 1"] exI [of _ addr] exI [of _ fd] exI [of _ cs]) (simp add: createSock_def sm_simps)
  next
    case False
    let ?r = "if se_bind (senv p) fd = - 1 then - 1 else 0 :: int"
    from fd False have "createSock IF addr p = Inr ((?r, 0),
        p\<lparr>socket_calls := Suc (socket_calls p), aodv_fd := fd, syscalls := syscalls p @ (cs @ [Bind fd 0 AODV_PORT])\<rparr>)"
      by (simp add: createSock_def sm_simps aodv_bind_socket_def do_call_def)
    with fd False show ?thesis by fastforce
  qed
qed

lemma aodv_init_running:
  assumes "aodv_init IF p = Inr (Some (), p')" "handlers p = []"
  shows "senv p' = senv p \<and> ifname p' = ifname p \<and> (\<exists>fd ifs. handlers p' = [(fd, Process_aodv_handler), (la_sock p', Recv_la_data_handler)] \<and> aodv_fd p' = fd
    \<and> la_sock p' = se_socket (senv p) (Suc (socket_calls p)) \<and> se_ifconf (senv p) fd = Some ifs
    \<and> pnode p' = (pnode p)\<lparr>g_my_ip := scan_interfaces IF (take 12 ifs) (if fd < 0 then se_junk_addr (senv p) else 0)\<rparr>)"
proof -
  from createSock_run [of IF "se_junk_addr (senv p)" p] obtain r a fd cs where
    sock: "createSock IF (se_junk_addr (senv p)) p
      = Inr ((r, a), p\<lparr>socket_calls := Suc (socket_calls p), aodv_fd := fd, syscalls := syscalls p @ cs\<rparr>)"
    "a = (if fd < 0 then se_junk_addr (senv p) else 0)"
    by blast
  let ?q = "p\<lparr>socket_calls := Suc (socket_calls p), aodv_fd := fd, syscalls := syscalls p @ cs\<rparr>"
  let ?rest = "\<lambda>r :: int. if r = - 1 then exit1 else bnd (on_fo init_fo_socket) (\<lambda>fo_ret.
      if fo_ret < 0 then exit1 else andthen connect_agent (ret (Some ())))"
  have exit: "exit1 q \<noteq> Inr (Some (), p')" for q by (simp add: exit1_def do_call_def sm_simps)
  from assms(1) exit have root: "check_root p = Inr (0, p)"
    by (auto simp: aodv_init_def check_root_def bnd_apply [of "gets _"] gets_apply split: if_splits)
  let ?q1 = "?q\<lparr>handlers := [(fd, Process_aodv_handler)]\<rparr>"
  have reg: "register_handler_func fd Process_aodv_handler ?q = Inr ((), ?q1)"
    using assms(2) by (simp add: register_handler_func_def sm_simps)
  have run: "bnd (get_interface_ip fd IF a) ?rest ?q1 = Inr (Some (), p')"
    using assms(1) root reg
    by (simp add: aodv_init_def bnd_apply [of check_root] bnd_apply [of "gets _"] bnd_apply [of "createSock _ _"]
        andthen_apply [of "register_handler_func _ _"] gets_apply sock)
  then obtain ifs where ifs: "se_ifconf (senv p) fd = Some ifs"
    using exit by (cases "se_ifconf (senv p) fd") (auto simp: get_interface_ip_def sm_simps)
  let ?q2 = "?q1\<lparr>pnode := (pnode p)\<lparr>g_my_ip := scan_interfaces IF (take 12 ifs) a\<rparr>\<rparr>"
  from run ifs have "?rest 0 ?q2 = Inr (Some (), p')"
    by (simp add: get_interface_ip_def bnd_apply [of "bnd _ _"] bnd_apply [of "gets _"] andthen_apply [of "upd _"] sm_simps)
  then obtain f where "andthen connect_agent (ret (Some ())) (?q2\<lparr>pfo := f\<rparr>) = Inr (Some (), p')"
    using exit by (auto simp: bnd_apply on_fo_def split: sum.splits if_splits)
  with ifs sock(2) show ?thesis
    by (auto simp: connect_agent_def open_socket_def register_handler_func_def do_call_def sm_simps)
qed

lemma read_options_parse:
  "read_options atoi args p = Inr (Some (), p') \<Longrightarrow>
   parse_arguments atoi args (pnode p) = Some (pnode p') \<and> (\<exists>v s. p' = p\<lparr>ifname := v, pnode := s\<rparr>)"
proof (induction atoi args arbitrary: p rule: read_options.induct)
  case (1 atoi)
  then show ?case by (auto simp: sm_simps intro!: exI [of _ "ifname p"] exI [of _ "pnode p"])
next
  case (2 atoi w ws)
  note run = 2(6)
  show ?case
  proof (cases "\<exists>d c r. w = d # c # r")
    case False
    with run 2(1,2) show ?thesis by (cases w; cases "tl w") auto
  next
    case True
    then obtain d c r where w: "w = d # c # r" by blast
    consider (usage) "d = CHR ''-''" "c = CHR ''h''" | (name) v ws' where "d = CHR ''-''" "c = CHR ''i''" "ws = v # ws'"
      | (missing) "d = CHR ''-''" "c \<in> {CHR ''i'', CHR ''f'', CHR ''e'', CHR ''a'', CHR ''r''}" "ws = []"
      | (option) v ws' where "d = CHR ''-''" "c \<in> {CHR ''f'', CHR ''e'', CHR ''a'', CHR ''r''}" "ws = v # ws'"
      | (other) "\<not> (d = CHR ''-'' \<and> c \<in> {CHR ''h'', CHR ''i'', CHR ''f'', CHR ''e'', CHR ''a'', CHR ''r''})"
      by (cases ws) auto
    then show ?thesis
    proof cases
      case (name v ws')
      with run w have r: "read_options atoi ws' (p\<lparr>ifname := v\<rparr>) = Inr (Some (), p')"
        by (auto simp: copy_interface_def sm_simps split: if_splits)
      obtain u s where "p' = p\<lparr>ifname := u, pnode := s\<rparr>" "parse_arguments atoi ws' (pnode p) = Some (pnode p')"
        using 2(3) [OF w refl _ _ name(3) r] name by auto
      with w name show ?thesis by (auto simp: apply_option_def)
    next
      case (option v ws')
      let ?p = "p\<lparr>pnode := apply_option c (atoi v) (pnode p)\<rparr>"
      from option run w have r: "read_options atoi ws' ?p = Inr (Some (), p')" by (auto simp: sm_simps)
      obtain u s where "p' = ?p\<lparr>ifname := u, pnode := s\<rparr>"
        "parse_arguments atoi ws' (apply_option c (atoi v) (pnode p)) = Some (pnode p')"
        using 2(4) [OF w refl _ _ _ option(3) r] option by auto
      with w option show ?thesis by (auto intro!: exI [of _ u] exI [of _ s])
    next
      case other
      with run w have r: "read_options atoi ws p = Inr (Some (), p')" by (auto split: if_splits)
      have "parse_arguments atoi ws (pnode p) = Some (pnode p') \<and> (\<exists>v s. p' = p\<lparr>ifname := v, pnode := s\<rparr>)"
        using 2(5) [OF w refl _ _ _ r] other by blast
      moreover have "parse_arguments atoi (w # ws) s = parse_arguments atoi ws s" for s
        using other w by auto
      ultimately show ?thesis by simp
    qed (use run w in \<open>auto simp: exit1_def do_call_def sm_simps\<close>)
  qed
qed

section \<open>The process runs the daemon\<close>

text \<open>The process as \<open>main\<close> finds it: the globals as initialised, the allocated buffers.\<close>

definition boot :: "start_env \<Rightarrow> fo \<Rightarrow> env \<Rightarrow> buffer \<Rightarrow> buffer \<Rightarrow> aodv_process" where
  "boot e f v rbuf sbuf =
     \<lparr>senv = e, socket_calls = 0, ifname = [], pnode = initial_node v rbuf sbuf, pfo = f,
      aodv_fd = 0, la_sock = 0, handlers = [], syscalls = []\<rparr>"

definition process_init :: "aodv_process \<Rightarrow> bool" where
  "process_init p \<longleftrightarrow> (\<exists>atoi args e f v rbuf sbuf nfds. aodv_main atoi args (boot e f v rbuf sbuf) = Inr (Some nfds, p))"

definition handling :: "aodv_process \<Rightarrow> bool" where
  "handling p \<longleftrightarrow> handlers p = [(aodv_fd p, Process_aodv_handler), (la_sock p, Recv_la_data_handler)]
     \<and> {aodv_fd p, la_sock p} \<subseteq> {0..<1024}"

lemma watch_run: "watch hs n p = Inr (m, p') \<Longrightarrow> p' = p \<and> fst ` set hs \<subseteq> {0..<1024}"
  by (induction hs n arbitrary: p rule: watch.induct) (auto simp: sm_simps split: if_splits)

lemma aodv_main_running:
  assumes "aodv_main atoi args (boot e f v rbuf sbuf) = Inr (Some nfds, p)"
  shows "node_init (pnode p)" "handling p"
    "senv p = e" "\<exists>ifs. se_ifconf e (aodv_fd p) = Some ifs \<and> g_my_ip (pnode p) = scan_interfaces (ifname p) (take 12 ifs) 0"
proof -
  let ?p0 = "boot e f v rbuf sbuf"
  from assms obtain p1 where p1: "read_options atoi args ?p0 = Inr (Some (), p1)" "aodv_daemon (ifname p1) p1 = Inr (Some nfds, p)"
    by (auto simp: aodv_main_def sm_simps split: sum.splits option.splits)
  have "parse_arguments atoi args (initial_node v rbuf sbuf) = Some (pnode p1)"
    using read_options_parse [OF p1(1)] by (simp add: boot_def)
  then have
    s0: "\<exists>atoi args v rbuf sbuf. parse_arguments atoi args (initial_node v rbuf sbuf) = Some (pnode p1)" by blast
  from read_options_parse [OF p1(1)] have st: "handlers p1 = []" "socket_calls p1 = 0" "senv p1 = e"
    by (auto simp: boot_def)
  let ?q = "\<lambda>s. p1\<lparr>syscalls := syscalls p1
      @ [Signal ''SIGALRM'' ''global_handler'', Signal ''SIGINT'' ''sigint_timer_handler''], pnode := s\<rparr>"
  from p1(2) obtain s1 s2 p3 where
    s: "setRebootTimer (pnode p1) = Inr ((), s1)" "setPeriodicTimer s1 = Inr ((), s2)" and
    p3: "aodv_init (ifname p1) (?q s2) = Inr (Some (), p3)" "watch (handlers p3) 0 p3 = Inr (nfds, p)"
    by (auto simp: aodv_daemon_def registerSignal_def do_call_def on_node_def sm_simps split: sum.splits option.splits)
  from aodv_init_running [OF p3(1)] st obtain ifs where
    h: "senv p3 = e" "ifname p3 = ifname p1" "handlers p3 = [(aodv_fd p3, Process_aodv_handler), (la_sock p3, Recv_la_data_handler)]" and
    a: "se_ifconf e (aodv_fd p3) = Some ifs"
      "pnode p3 = s2\<lparr>g_my_ip := scan_interfaces (ifname p1) (take 12 ifs) (if aodv_fd p3 < 0 then se_junk_addr e else 0)\<rparr>"
    by auto
  from watch_run [OF p3(2)] h have p: "p = p3" and fds: "{aodv_fd p, la_sock p} \<subseteq> {0..<1024}" by auto
  have "aodv_daemon_init (g_my_ip (pnode p)) (pnode p1) = Inr ((), pnode p)"
    using s a by (simp add: aodv_daemon_init_def sm_simps p)
  with s0 show "node_init (pnode p)" unfolding node_init_def fresh_def by blast
  from h p fds show "handling p" by (simp add: handling_def)
  from h p show "senv p = e" by simp
  show "\<exists>ifs. se_ifconf e (aodv_fd p) = Some ifs \<and> g_my_ip (pnode p) = scan_interfaces (ifname p) (take 12 ifs) 0"
    using a h(2) fds p by auto
qed

lemma call_handler_steps:
  assumes "call_handler r bytes f p = Inr ((), p')"
  shows "node_step (pnode p) (pnode p') \<and> p' = p\<lparr>pnode := pnode p'\<rparr>"
  using assms
  by (cases f) (auto simp: call_handler_def on_node_def intro: node_step.intros split: sum.splits)

lemma round_steps:
  assumes "forM hs (call_ready ready r bytes) p = Inr ((), p')"
  shows "node_step\<^sup>*\<^sup>* (pnode p) (pnode p') \<and> p' = p\<lparr>pnode := pnode p'\<rparr>"
  using assms
proof (induction hs arbitrary: p)
  case (Cons h hs)
  show ?case
  proof (cases "fst h \<in> set ready")
    case True
    with Cons.prems obtain q where q: "call_handler r bytes (snd h) p = Inr ((), q)"
      "forM hs (call_ready ready r bytes) q = Inr ((), p')"
      by (auto simp: call_ready_def [of _ _ _ h] sm_simps split: sum.splits)
    from call_handler_steps [OF q(1)] Cons.IH [OF q(2)] show ?thesis
      by (metis aodv_process.surjective aodv_process.update_convs(4) converse_rtranclp_into_rtranclp)
  qed (use Cons in \<open>simp add: call_ready_def sm_simps\<close>)
qed (auto simp: sm_simps)

lemma process_step_steps:
  assumes "process_step p p'"
  shows "node_step\<^sup>*\<^sup>* (pnode p) (pnode p') \<and> p' = p\<lparr>pnode := pnode p'\<rparr>"
  using assms
proof (cases rule: process_step.cases)
  case (round a)
  then show ?thesis
    by (cases a) (auto simp: main_round_def sm_simps dest: round_steps)
next
  case (alarm n)
  then show ?thesis
    by (auto simp: global_handler_def on_node_def intro!: r_into_rtranclp intro: node_step.alarm split: sum.splits)
qed

lemma reach_steps: "step\<^sup>*\<^sup>* s t \<Longrightarrow> reach init step s \<Longrightarrow> reach init step t"
  by (induction rule: rtranclp_induct) (auto intro: reach_step)

text \<open>Which interface gives the address: the last match.\<close>

definition matches :: "string \<Rightarrow> ifreq list \<Rightarrow> ifreq list" where
  "matches IF is = filter (\<lambda>i. ifr_family i = AF_INET_FAMILY \<and> take (length IF) (ifr_name i) = IF) is"

lemma scan_interfaces_last:
  "scan_interfaces IF is a = (if matches IF is = [] then a else ifr_addr (last (matches IF is)))"
  by (induction IF "is" a rule: scan_interfaces.induct) (auto simp: matches_def)

lemma node_step_config: "node_step s s' \<Longrightarrow> pending_ok s \<Longrightarrow> config s' = config s"
  by (metis conf.steps_inv node_step_via)

lemma steps_config:
  "node_step\<^sup>*\<^sup>* s t \<Longrightarrow> reach node_init node_step s \<Longrightarrow> config t = config s"
proof (induction rule: rtranclp_induct)
  case (step t u)
  then have "pending_ok t" by (intro waiting.reach_inv reach_steps [OF step(1)])
  with step show ?case by (simp add: node_step_config)
qed simp

definition process_ok :: "aodv_process \<Rightarrow> bool" where
  "process_ok p \<longleftrightarrow> reach node_init node_step (pnode p) \<and> handling p
     \<and> (\<exists>ifs. se_ifconf (senv p) (aodv_fd p) = Some ifs
          \<and> g_my_ip (pnode p) = (let ms = matches (ifname p) (take 12 ifs) in if ms = [] then 0 else ifr_addr (last ms)))"

interpretation process: invariant_of process_init process_step process_ok
proof
  fix p
  assume "process_init p"
  then obtain atoi args e f v rbuf sbuf nfds where run: "aodv_main atoi args (boot e f v rbuf sbuf) = Inr (Some nfds, p)"
    by (auto simp: process_init_def)
  from aodv_main_running [OF run] show "process_ok p"
    by (auto simp: process_ok_def scan_interfaces_last Let_def intro: reach_init)
next
  fix p p'
  assume ok: "process_ok p" and step: "process_step p p'"
  from process_step_steps [OF step] have s: "node_step\<^sup>*\<^sup>* (pnode p) (pnode p')" and p': "p' = p\<lparr>pnode := pnode p'\<rparr>" by simp_all
  have same: "senv p' = senv p" "aodv_fd p' = aodv_fd p" "la_sock p' = la_sock p" "handlers p' = handlers p" "ifname p' = ifname p"
    by (subst p', simp)+
  from ok s have "g_my_ip (pnode p') = g_my_ip (pnode p)"
    using config_fields [OF steps_config [OF s]] by (simp add: process_ok_def)
  with ok s show "process_ok p'"
    by (auto simp: process_ok_def same handling_def intro: reach_steps)
qed

section \<open>A process\<close>

text \<open>
  Root on a machine with three interfaces, started for \<open>eth1\<close>: the address is that of \<open>eth10\<close>.
\<close>

definition lan :: start_env where
  "lan = \<lparr>se_uid = 0, se_euid = 0, se_socket = (\<lambda>k. 4 + int k), se_setsockopt = (\<lambda>_ _. 0), se_bind = (\<lambda>_. 0),
     se_ifconf = (\<lambda>_. Some [\<lparr>ifr_name = ''lo'', ifr_family = 2, ifr_addr = LOOPBACK\<rparr>,
       \<lparr>ifr_name = ''eth1'', ifr_family = 2, ifr_addr = 1\<rparr>, \<lparr>ifr_name = ''eth10'', ifr_family = 2, ifr_addr = 7\<rparr>]),
     se_connect = (\<lambda>_. 0), se_junk_addr = 99\<rparr>"

definition fresh_fo :: fo where
  "fresh_fo = \<lparr>f_sendmsg = (\<lambda>_. 1), f_socket = 3, fticks = 0, f_replies = [], fo_socket_fd = 0, fouts = []\<rparr>"

definition running :: aodv_process where
  "running = \<lparr>senv = lan, socket_calls = 2, ifname = ''eth1'', pnode = started\<lparr>g_my_ip := 7\<rparr>,
     pfo = fresh_fo\<lparr>fo_socket_fd := 3\<rparr>, aodv_fd = 4, la_sock = 5,
     handlers = [(4, Process_aodv_handler), (5, Recv_la_data_handler)],
     syscalls = [Signal ''SIGALRM'' ''global_handler'', Signal ''SIGINT'' ''sigint_timer_handler'',
       Setsockopt 4 (So_bindtodevice ''eth1''), Setsockopt 4 (So_reuseaddr 1), Setsockopt 4 (So_broadcast 1),
       Setsockopt 4 (So_priority 0), Setsockopt 4 (Ip_recvttl 1), Setsockopt 4 (Ip_pktinfo 1), Bind 4 0 AODV_PORT,
       Connect 5 LOOPBACK SERV_PORT]\<rparr>"

lemma blank_timers: "\<exists>s. setRebootTimer blank = Inr ((), s) \<and> setPeriodicTimer s = Inr ((), started\<lparr>g_my_ip := 0\<rparr>)"
  by (simp add: setRebootTimer_def setPeriodicTimer_def set_timer_first_def
      set_timer_def timer_add_def setLowestTimer_def setRealTimer_def emit_def getcurrtime_def sm_simps
      Let_def started_def blank_fields period_values)

lemma process_init_running: "process_init running"
proof -
  let ?p = "boot lan fresh_fo first_env (\<lambda>_. 0) (\<lambda>_. 0)"
  from blank_timers obtain s where s: "setRebootTimer (initial_node first_env (\<lambda>_. 0) (\<lambda>_. 0)) = Inr ((), s)"
    "setPeriodicTimer s = Inr ((), started\<lparr>g_my_ip := 0\<rparr>)"
    unfolding blank_def by blast
  have "aodv_main (\<lambda>_. 0) [''-i'', ''eth1''] ?p = Inr (Some 6, running)"
    by (simp add: aodv_main_def copy_interface_def aodv_daemon_def registerSignal_def aodv_init_def do_call_def
        boot_def s on_node_def sm_simps)
      (simp add: check_root_def createSock_def aodv_init_socket_def open_socket_def aodv_bind_socket_def register_handler_func_def
        get_interface_ip_def connect_agent_def on_fo_def init_fo_socket_def sm_simps lan_def fresh_fo_def do_call_def running_def)
  then show ?thesis unfolding process_init_def by blast
qed

lemma reach_running: "reach process_init process_step running"
  using process_init_running by (rule reach_init)

section \<open>Properties\<close>

text \<open>
  C8. Every state of the process in its main loop is a state that the daemon of \<open>Events\<close> reaches, so
  what holds of those holds of the running program. The loop waits for exactly two descriptors,
  which fit the set of \<open>select\<close>, each with its own handler. The address that the daemon works with
  is that of the last among the first twelve interfaces whose name begins with the name it was
  started with (with \<open>eth1\<close> that may be \<open>eth10\<close>), or 0, and never changes.
\<close>

theorem process_runs_daemon:
  assumes "reach process_init process_step p"
  shows "reach node_init node_step (pnode p)
    \<and> handlers p = [(aodv_fd p, Process_aodv_handler), (la_sock p, Recv_la_data_handler)]
    \<and> {aodv_fd p, la_sock p} \<subseteq> {0..<1024}
    \<and> (\<exists>ifs. se_ifconf (senv p) (aodv_fd p) = Some ifs
         \<and> g_my_ip (pnode p) = (let ms = matches (ifname p) (take 12 ifs) in if ms = [] then 0 else ifr_addr (last ms)))"
  using process.reach_inv [OF assms] by (simp add: process_ok_def handling_def)

theorem process_runs_daemon_witness:
  "reach node_init node_step (pnode running) \<and> map fst (handlers running) = [4, 5]
   \<and> ifname running = ''eth1'' \<and> g_my_ip (pnode running) = 7
   \<and> (\<exists>ifs. se_ifconf lan 4 = Some ifs \<and> 7 = ifr_addr (last (matches ''eth1'' ifs)) \<and> map ifr_name ifs = [''lo'', ''eth1'', ''eth10''])"
  using process_runs_daemon [OF reach_running]
  by (auto simp: running_def lan_def Let_def matches_def)

text \<open>
  When the socket to the agent cannot be made, only a line is printed: the main loop then gives the
  descriptor -1 to \<open>FD_SET\<close>, which writes outside the set.
\<close>

lemma failed_agent_socket_faults:
  assumes "aodv_init IF p = Inr (Some (), p')" "handlers p = []" "se_socket (senv p) (Suc (socket_calls p)) < 0"
    "registerSignal q = Inr (0, q1)" "on_node setRebootTimer q1 = Inr ((), q2)" "on_node setPeriodicTimer q2 = Inr ((), p)"
  shows "\<exists>n. aodv_daemon IF q = Inl (StackOverflow n 128)"
proof -
  from aodv_init_running [OF assms(1,2)] assms(3) obtain fd la where
    "handlers p' = [(fd, Process_aodv_handler), (la, Recv_la_data_handler)]" "la < 0" by auto
  with assms(1,4-6) show ?thesis by (simp add: aodv_daemon_def sm_simps)
qed

text \<open>
  After the agent has closed its connection, \<open>select\<close> reports the descriptor as ready at once, \<open>recv\<close>
  returns 0, and the round changes nothing: the loop spins, and never connects again.
\<close>

lemma lost_agent_spins:
  assumes "handling p" "aodv_fd p \<noteq> la_sock p"
  shows "main_round (Select_ready [la_sock p] r []) p = Inr ((), p)"
  using assms by (simp add: main_round_def call_ready_def call_handler_def on_node_def recv_la_data_def handling_def sm_simps Let_def)

end
