(* ===== verification/La_Main.thy ===== *)
theory La_Main
  imports Agent_Laws Fo_Netlink
begin

text \<open>
  The start and the end of the Local Agent (\<open>LA/main.cpp\<close> and the server socket of
  \<open>LA/la_serv.cpp\<close>): the forwarding library, the ODS library, the default route that leads packets
  without a route into the device \<open>mytun\<close>, and the socket the routing daemons connect to.
\<close>

section \<open>The process\<close>

text \<open>
  What the system answers when the server socket is made, and \<open>if_nametoindex\<close>; \<open>sleep\<close> by the
  number of the call and the seconds asked for. The effects are those outside the two libraries.
\<close>

record la_env =
  le_socket :: int
  le_setsockopt :: "int \<Rightarrow> string \<Rightarrow> int"
  le_getfl :: int
  le_bind :: int
  le_listen :: int
  le_nametoindex :: "string \<Rightarrow> int"
  le_sleep :: "nat \<Rightarrow> int \<Rightarrow> int"

datatype la_effect = La_signal string | La_setsockopt int string | La_setfl int int | La_bind int ip nat
  | La_listen int int | La_close int | La_exit int | La_sleep int

record la_process =
  lenv :: la_env
  lagent :: agent
  lfo :: fo
  leffects :: "la_effect list"

abbreviation (input) COMMAND_PORT :: nat where "COMMAND_PORT \<equiv> 12001"
abbreviation (input) LA_LOOPBACK :: ip where "LA_LOOPBACK \<equiv> 0x0100007F"
abbreviation (input) O_NONBLOCK :: int where "O_NONBLOCK \<equiv> 2048"
abbreviation (input) TUN_GATEWAY :: ip where "TUN_GATEWAY \<equiv> 0x04030201"

definition la_emit :: "la_effect \<Rightarrow> (la_process, unit) sm" where
  "la_emit e = upd (\<lambda>p. p\<lparr>leffects := leffects p @ [e]\<rparr>)"

definition on_agent :: "(agent, 'a) sm \<Rightarrow> (la_process, 'a) sm" where
  "on_agent m = (\<lambda>p. case m (lagent p) of Inl e \<Rightarrow> Inl e | Inr (x, s) \<Rightarrow> Inr (x, p\<lparr>lagent := s\<rparr>))"

definition on_lfo :: "(fo, 'a) sm \<Rightarrow> (la_process, 'a) sm" where
  "on_lfo m = (\<lambda>p. case m (lfo p) of Inl e \<Rightarrow> Inl e | Inr (x, f) \<Rightarrow> Inr (x, p\<lparr>lfo := f\<rparr>))"

section \<open>The server socket\<close>

definition sockopt_reuseaddr :: "int \<Rightarrow> (la_process, int) sm" where
  "sockopt_reuseaddr sock =
     andthen (la_emit (La_setsockopt sock ''SO_REUSEADDR''))
     (bnd (gets (\<lambda>p. le_setsockopt (lenv p) sock ''SO_REUSEADDR'')) (\<lambda>r. ret (if r < 0 then - 1 else 0)))"

definition sockopt_reuseport :: "int \<Rightarrow> (la_process, int) sm" where
  "sockopt_reuseport sock =
     andthen (la_emit (La_setsockopt sock ''SO_REUSEPORT''))
     (bnd (gets (\<lambda>p. le_setsockopt (lenv p) sock ''SO_REUSEPORT'')) (\<lambda>r. ret (if r < 0 then - 1 else 0)))"

text \<open>The two options may fail without consequence; the variable \<open>command_server_fd\<close> is set at the end only.\<close>

definition la_command_server_socket_init :: "(la_process, int) sm" where
  "la_command_server_socket_init =
     bnd (gets lenv) (\<lambda>v.
     let accept_sock = le_socket v in
     if accept_sock < 0 then ret (- 1)
     else
       bnd (sockopt_reuseaddr accept_sock) (\<lambda>_.
       bnd (sockopt_reuseport accept_sock) (\<lambda>_.
       andthen (la_emit (La_setfl accept_sock (or (le_getfl v) O_NONBLOCK)))
       (andthen (la_emit (La_bind accept_sock LA_LOOPBACK COMMAND_PORT))
         (if le_bind v < 0 then andthen (la_emit (La_close accept_sock)) (ret (- 1))
          else
            andthen (la_emit (La_listen accept_sock 5))
            (if le_listen v < 0 then andthen (la_emit (La_close accept_sock)) (ret (- 1))
             else
               andthen (on_agent (upd (\<lambda>s. s\<lparr>command_server_fd := accept_sock\<rparr>))) (ret 0)))))))"

definition la_command_server_socket_close :: "(la_process, unit) sm" where
  "la_command_server_socket_close = bnd (gets (\<lambda>p. command_server_fd (lagent p))) (\<lambda>fd. la_emit (La_close fd))"

section \<open>Start and end\<close>

text \<open>
  \<open>main\<close> up to the main loop. Nothing that fails on the way stops it: not the netlink socket, the ODS library,
  the default route, nor the server socket.
\<close>

definition la_main :: "(la_process, unit) sm" where
  "la_main =
     andthen (la_emit (La_signal ''SIGINT''))
     (bnd (on_lfo init_fo_socket) (\<lambda>fo_ret.
      bnd (on_agent ods_turn_up) (\<lambda>fd.
      andthen (on_agent (upd (\<lambda>s. s\<lparr>ods_fd := fd\<rparr>)))
      (bnd (gets (\<lambda>p. le_nametoindex (lenv p) TUN_DEV_NAME)) (\<lambda>ifindex.
       bnd (on_lfo (FO_add_a_route 0 0 TUN_GATEWAY (of_int ifindex) 10 0)) (\<lambda>re.
       bnd la_command_server_socket_init (\<lambda>r.
       bnd (on_agent la_fdset_init) (\<lambda>r. ret ()))))))))"

definition close_function :: "(la_process, unit) sm" where
  "close_function =
     andthen (on_lfo close_fo_socket) (andthen (on_agent ods_turn_down) (la_emit (La_exit 0)))"

text \<open>
  Sleeping through the signals: \<open>sleep\<close> returns the seconds that are left when one interrupts it.
  The fuel counts the calls, by whose number the system answers.
\<close>

fun sleep_no_wake :: "nat \<Rightarrow> nat \<Rightarrow> int \<Rightarrow> (la_process, unit) sm" where
  "sleep_no_wake 0 k sec = raise OutOfFuel"
| "sleep_no_wake (Suc n) k sec =
     andthen (la_emit (La_sleep sec))
     (bnd (gets (\<lambda>p. le_sleep (lenv p) k sec)) (\<lambda>left.
      if left > 0 then sleep_no_wake n (Suc k) left else ret ()))"

text \<open>A \<open>sleep\<close> of which at least a second passes before a signal needs one call for each second.\<close>

lemma sleep_no_wake_returns:
  assumes "\<forall>k s. 0 < s \<longrightarrow> le_sleep (lenv p) k s < s"
  shows "0 < sec \<Longrightarrow> sec \<le> int n \<Longrightarrow> \<exists>cs. sleep_no_wake n k sec p = Inr ((), p\<lparr>leffects := leffects p @ cs\<rparr>)"
  using assms
proof (induction n arbitrary: k sec p)
  case (Suc n)
  let ?p = "p\<lparr>leffects := leffects p @ [La_sleep sec]\<rparr>" and ?left = "le_sleep (lenv p) k sec"
  show ?case
  proof (cases "0 < ?left")
    case True
    have "?left < sec" using Suc.prems(1,3) by blast
    with Suc.prems True Suc.IH [of ?left ?p "Suc k"] obtain cs where
      "sleep_no_wake n (Suc k) ?left ?p = Inr ((), ?p\<lparr>leffects := leffects ?p @ cs\<rparr>)"
      by auto
    with True show ?thesis
      by (intro exI [of _ "La_sleep sec # cs"]) (simp add: la_emit_def sm_simps)
  qed (auto simp: la_emit_def sm_simps)
qed simp

section \<open>The agent after its start\<close>

text \<open>The parts of the start.\<close>

definition server_socket_ok :: "la_env \<Rightarrow> bool" where
  "server_socket_ok e \<longleftrightarrow> 0 \<le> le_socket e \<and> 0 \<le> le_bind e \<and> 0 \<le> le_listen e"

lemma server_socket_run:
  "\<exists>r p'. la_command_server_socket_init p = Inr (r, p') \<and> lenv p' = lenv p \<and> lfo p' = lfo p
     \<and> lagent p' = (if server_socket_ok (lenv p) then (lagent p)\<lparr>command_server_fd := le_socket (lenv p)\<rparr> else lagent p)"
  by (auto simp: la_command_server_socket_init_def sockopt_reuseaddr_def sockopt_reuseport_def la_emit_def on_agent_def
      server_socket_ok_def sm_simps Let_def)

lemma turn_up_run:
  assumes "memory (aenv a)"
  shows "\<exists>fd a'. ods_turn_up a = Inr (fd, a') \<and> aenv a' = aenv a \<and> la_serv_list a' = la_serv_list a
     \<and> command_server_fd a' = command_server_fd a \<and> (fd = - 1 \<or> fd = a_socket (aenv a))"
  using assms
  by (auto simp: ods_turn_up_def ods_init_tun_dev_def ods_init_user_socket_def ods_send_init_msg_def ods_send_def
      agent_simps)

text \<open>
  The agent that begins: no clients, no descriptors yet, \<open>command_server_fd\<close> the 0 of a global
  variable.
\<close>

definition la_boot :: "la_env \<Rightarrow> aenv \<Rightarrow> fo \<Rightarrow> la_process" where
  "la_boot e v f = \<lparr>lenv = e, lagent = \<lparr>aenv = v, aticks = 0, nlfd = 0, ods_fd = - 1, command_server_fd = 0,
     la_serv_list = [], fd_list = [], fd_num = 0, rbits_fd = [], aouts = []\<rparr>, lfo = f, leffects = []\<rparr>"

section \<open>Properties\<close>

text \<open>
  C9. The start of the agent, when the kernel acknowledges the route: the default route that the kernel is
  told leads to the device \<open>mytun\<close>, and the descriptors the loop waits for are those of the ODS
  library and of the server socket, if it could be made, and of standard input otherwise. In the
  first case the agent is in a starting state of \<open>Agent_Laws\<close>.
\<close>

theorem agent_main_starts:
  assumes "memory v" "fo_socket_fd f = 0" "0 < f_sendmsg f (fticks f)" "f_replies f = ack error rest # rs"
    "16 \<le> length rest" "length rest \<le> 1000"
    and "a_socket v < FD_SETSIZE" "le_socket e < FD_SETSIZE" "a_socket v \<noteq> le_socket e"
  shows "\<exists>p bytes. la_main (la_boot e v f) = Inr ((), p)
    \<and> fouts (lfo p) = fouts f @ [Route_send (f_socket f) bytes]
    \<and> (\<forall>more. parseRoutes (bytes @ more) empty_entry = Inr (empty_entry\<lparr>en_gateway := TUN_GATEWAY,
         en_ifindex := of_int (le_nametoindex e TUN_DEV_NAME), en_metric := 10\<rparr>))
    \<and> fd_list (lagent p) = own_fds (lagent p)
    \<and> command_server_fd (lagent p) = (if server_socket_ok e then le_socket e else 0)
    \<and> (server_socket_ok e \<longrightarrow> agent_start (lagent p))"
proof -
  let ?a0 = "lagent (la_boot e v f)" and ?dev = "le_nametoindex e TUN_DEV_NAME"
  obtain fd a1 where a1: "ods_turn_up ?a0 = Inr (fd, a1)" "aenv a1 = v" "la_serv_list a1 = []" "command_server_fd a1 = 0"
      "fd = - 1 \<or> fd = a_socket v"
    using turn_up_run [of ?a0] assms(1) by (auto simp: la_boot_def)
  let ?f1 = "f\<lparr>fo_socket_fd := f_socket f\<rparr>" and ?q = "add_request 0 0 TUN_GATEWAY (of_int ?dev) 10 0"
  let ?p1 = "\<lparr>lenv = e, lagent = a1\<lparr>ods_fd := fd\<rparr>, lfo = ?f1\<lparr>fticks := Suc (fticks f),
      fouts := fouts f @ [Route_send (f_socket f) (request_bytes ?q)], f_replies := rs\<rparr>, leffects = [La_signal ''SIGINT'']\<rparr>"
  have fo: "init_fo_socket f = Inr (if f_socket f < 0 then - 1 else 0, ?f1)"
    using assms(2) by (simp add: init_fo_socket_def sm_simps)
  have route: "\<exists>r. FO_add_a_route 0 0 TUN_GATEWAY (of_int ?dev) 10 0 ?f1 = Inr (r, lfo ?p1)"
    using update_request_run [of ?f1 error rest rs ?q] assms(3-6) by (simp add: FO_add_a_route_def sm_simps)
  obtain r2 p2 where p2: "la_command_server_socket_init ?p1 = Inr (r2, p2)" "lfo p2 = lfo ?p1"
      "lagent p2 = (if server_socket_ok e then (lagent ?p1)\<lparr>command_server_fd := le_socket e\<rparr> else lagent ?p1)"
    using server_socket_run [of ?p1] by auto
  let ?a3 = "(lagent p2)\<lparr>fd_list := own_fds (lagent p2)\<rparr>"
  have init: "la_fdset_init (lagent p2) = Inr (0, ?a3)"
    by (simp add: la_fdset_init_def own_fds_def sm_simps)
  have "la_main (la_boot e v f) = Inr ((), p2\<lparr>lagent := ?a3\<rparr>)"
    using fo a1(1) route p2(1) init
    by (auto simp: la_main_def la_emit_def on_lfo_def on_agent_def sm_simps la_boot_def)
  moreover have "own_fds ?a3 = own_fds (lagent p2)" by (simp add: own_fds_def)
  moreover have "agent_start ?a3" if "server_socket_ok e"
    using that init p2(3) a1 assms(1,7-9) unfolding agent_start_def
    by (intro exI [of _ "lagent p2"]) (auto simp: server_socket_ok_def)
  moreover note add_request_read [of 0 0 TUN_GATEWAY "of_int ?dev" 10 0]
  ultimately show ?thesis
    using p2(2,3) a1(4) by (intro exI [of _ "p2\<lparr>lagent := ?a3\<rparr>"] exI [of _ "request_bytes ?q"]) (simp add: empty_entry_def)
qed

text \<open>Without the server socket, which another agent's port takes away, the loop waits for standard input.\<close>

definition quiet_agent_env :: aenv where
  "quiet_agent_env = \<lparr>a_malloc = (\<lambda>_. True), a_ifaddrs = (\<lambda>_. []), a_nametoindex = (\<lambda>_. 0), a_stack = (\<lambda>_. []),
     a_junk_type = (\<lambda>_. 0), a_junk_request = (\<lambda>_. \<lparr>rq_now_dst_ip = 0, rq_now_src_ip = 0, rq_now_protocol = 0, rq_input_ifindex = 0\<rparr>),
     a_pid = 1, a_setreuid = 0, a_open_tun = 5, a_ioctl_setiff = 0, a_ioctl_nocsum = 0, a_socket = 6\<rparr>"

definition port_taken :: la_env where
  "port_taken = \<lparr>le_socket = 7, le_setsockopt = (\<lambda>_ _. 0), le_getfl = 2, le_bind = - 1, le_listen = 0,
     le_nametoindex = (\<lambda>_. 9), le_sleep = (\<lambda>_ _. 0)\<rparr>"

theorem agent_main_starts_witness:
  "let f = \<lparr>f_sendmsg = \<lambda>_. 68, f_socket = 3, fticks = 0, f_replies = [ack 0 (replicate 16 0)], fo_socket_fd = 0, fouts = []\<rparr> in
   (\<exists>p. la_main (la_boot port_taken quiet_agent_env f) = Inr ((), p) \<and> 0 \<in> set (fd_list (lagent p)))
   \<and> (\<exists>p. la_main (la_boot (port_taken\<lparr>le_bind := 0\<rparr>) quiet_agent_env f) = Inr ((), p) \<and> agent_start (lagent p))"
proof -
  let ?f = "\<lparr>f_sendmsg = \<lambda>_. 68, f_socket = 3, fticks = 0, f_replies = [ack 0 (replicate 16 0)], fo_socket_fd = 0, fouts = []\<rparr>"
  show ?thesis
    using agent_main_starts [of quiet_agent_env ?f 0 "replicate 16 0" "[]" port_taken]
      agent_main_starts [of quiet_agent_env ?f 0 "replicate 16 0" "[]" "port_taken\<lparr>le_bind := 0\<rparr>"]
    by (auto simp: quiet_agent_env_def port_taken_def server_socket_ok_def own_fds_def Let_def)
qed

end
