(* ===== verification/Rc_Module.thy ===== *)
theory Rc_Module
  imports Cache_Laws
begin

text \<open>
  Loading and unloading the \<open>route_check\<close> module (\<open>module_main.c\<close>), what it prints of its cache
  (\<open>route_cache.c\<close>) and the timer that nothing starts (\<open>rc_timer.c\<close>).
\<close>

section \<open>The module\<close>

text \<open>
  The cache; whether the hook is registered, and what \<open>nf_register_net_hook\<close> returns; the entries
  in \<open>/proc\<close>; the lines in the kernel's log; the times at which timers will expire.
\<close>

record rc_module =
  rm_cache :: rcache
  rm_register :: int
  rm_hooked :: bool
  rm_proc :: "string list"
  rm_log :: "string list"
  rm_timers :: "u64 list"

definition on_cache :: "(rcache, 'a) sm \<Rightarrow> (rc_module, 'a) sm" where
  "on_cache f = (\<lambda>m. case f (rm_cache m) of Inl e \<Rightarrow> Inl e | Inr (x, c) \<Rightarrow> Inr (x, m\<lparr>rm_cache := c\<rparr>))"

text \<open>The results of the functions that make the entries of \<open>/proc\<close> are not looked at.\<close>

definition init_module :: "(rc_module, int) sm" where
  "init_module =
     bnd (gets rm_register) (\<lambda>result.
     if result \<noteq> 0 then ret 1
     else
       andthen (upd (\<lambda>m. m\<lparr>rm_hooked := True\<rparr>))
       (andthen (upd (\<lambda>m. m\<lparr>rm_proc := rm_proc m @ [''asl'', ''asl/route_check'']\<rparr>)) (ret 0)))"

definition cleanup_module :: "(rc_module, unit) sm" where
  "cleanup_module =
     andthen (upd (\<lambda>m. m\<lparr>rm_proc := remove1 ''asl/route_check'' (rm_proc m)\<rparr>))
     (andthen (upd (\<lambda>m. m\<lparr>rm_proc := remove1 ''asl'' (rm_proc m)\<rparr>))
       (upd (\<lambda>m. m\<lparr>rm_hooked := False\<rparr>)))"

definition printk :: "string \<Rightarrow> (rc_module, unit) sm" where
  "printk l = upd (\<lambda>m. m\<lparr>rm_log := rm_log m @ [l]\<rparr>)"

definition log_line :: "route_cache_entry \<Rightarrow> string" where
  "log_line e = inet_ntoa (rc_dst_ip e) @ '' '' @ [tab] @ '' '' @ decimal (unat (rc_last_use_time e))
     @ [tab] @ '' '' @ signed_decimal (rc_valid_flag e) @ '' '' @ [newline]"

fun print_loop :: "nat \<Rightarrow> nat option \<Rightarrow> (rc_module, unit) sm" where
  "print_loop n None = ret ()"
| "print_loop 0 (Some a) = raise OutOfFuel"
| "print_loop (Suc n) (Some a) =
     bnd (on_cache (at a)) (\<lambda>e. andthen (printk (log_line e)) (print_loop n (rc_next e)))"

definition print_route_cache :: "(rc_module, unit) sm" where
  "print_route_cache =
     andthen (printk (''-----------Route Cache---------------------------------'' @ [newline]))
     (andthen (printk (''Destination '' @ [tab] @ '' Source_IP (prev hop) '' @ [tab] @ '' Last_use_time (In msec, since the Epoch)'' @ [newline]))
     (bnd (gets (\<lambda>m. rc_fresh (rm_cache m))) (\<lambda>n. bnd (gets (\<lambda>m. route_cache (rm_cache m))) (\<lambda>p. print_loop n p))))"

text \<open>
  The timer's handler starts it again, \<open>EXPIRE_TIME\<close> seconds from the given time in ticks of
  which \<open>hz\<close> are a second; but nothing adds it first.
\<close>

definition sync_it :: int where "sync_it = 0"

definition rc_timer_handler :: "u64 \<Rightarrow> u64 \<Rightarrow> (rc_module, unit) sm" where
  "rc_timer_handler jiffies hz =
     (let r = sync_it in upd (\<lambda>m. m\<lparr>rm_timers := rm_timers m @ [jiffies + EXPIRE_TIME * hz]\<rparr>))"

section \<open>Its runs\<close>

text \<open>
  Packets reach the hook while it is registered, and readers the cache while its file is there. Loading gives the
  module's variables their initial values; blocks of an earlier time stay allocated.
\<close>

definition module_start :: "rc_module \<Rightarrow> bool" where
  "module_start m \<longleftrightarrow> rc_heap (rm_cache m) = Map.empty \<and> rc_fresh (rm_cache m) = 0 \<and> route_cache (rm_cache m) = None
     \<and> \<not> rm_hooked m \<and> rm_proc m = [] \<and> rm_timers m = []"

inductive module_step :: "rc_module \<Rightarrow> rc_module \<Rightarrow> bool" where
  load: "\<not> rm_hooked m \<Longrightarrow> init_module (m\<lparr>rm_cache := (rm_cache m)\<lparr>route_cache := None\<rparr>\<rparr>) = Inr (r, m') \<Longrightarrow> module_step m m'"
| packet: "rm_hooked m \<Longrightarrow> on_cache (input_handler dst src) m = Inr (v, m') \<Longrightarrow> module_step m m'"
| shown: "''asl/route_check'' \<in> set (rm_proc m) \<Longrightarrow> on_cache (read_route_cache_proc n pos) m = Inr (x, m') \<Longrightarrow> module_step m m'"
| unload: "cleanup_module m = Inr ((), m') \<Longrightarrow> module_step m m'"

inductive_cases module_stepE: "module_step m m'"

text \<open>The blocks that were ever allocated are those of the heap.\<close>

definition all_kept :: "rcache \<Rightarrow> bool" where
  "all_kept c \<longleftrightarrow> dom (rc_heap c) = {0..<rc_fresh c}"

lemma keeps_at [keeps_intros]: "keeps I (at a)"
  unfolding at_def by (intro keeps_intros)

lemma keeps_find_loop [keeps_intros]: "keeps I (find_loop n d v p)"
  by (induction n d v p rule: find_loop.induct) (simp_all add: keeps_intros keeps_at)

lemma keeps_assign [keeps_intros]: "keeps all_kept (assign a f)"
proof (rule keepsI)
  fix s x s'
  assume ok: "all_kept s" and run: "assign a f s = Inr (x, s')"
  then obtain e where "rc_heap s a = Some e" "s' = s\<lparr>rc_heap := (rc_heap s)(a \<mapsto> f e)\<rparr>"
    by (auto simp: assign_def at_def sm_simps split: option.splits)
  moreover from this ok have "a \<in> {0..<rc_fresh s}" by (auto simp: all_kept_def)
  ultimately show "all_kept s'" using ok by (simp add: all_kept_def insert_absorb del: atLeastLessThan_iff)
qed

lemma keeps_text_loop [keeps_intros]: "keeps I (text_loop n p)"
  by (induction n p rule: text_loop.induct) (auto intro!: keeps_intros)

lemma keeps_request: "keeps all_kept (rc_request f)"
  by (rule keepsI) (auto simp: rc_request_def all_kept_def)

lemma keeps_insert [keeps_intros]: "keeps all_kept (insert_route_cache_entry a t v)"
  unfolding insert_route_cache_entry_def
  by (intro keeps_intros keeps_request) (auto simp: all_kept_def)

lemma keeps_touch [keeps_intros]: "keeps all_kept (touch_entry a t v)"
  unfolding touch_entry_def find_route_cache_entry_def by (intro keeps_intros)

lemma keeps_input_handler: "keeps all_kept (input_handler dst src)"
  unfolding input_handler_def rc_getcurrtime_def by (intro keeps_intros keeps_request)

lemma keeps_read: "keeps all_kept (read_route_cache_proc n pos)"
  unfolding read_route_cache_proc_def Let_def by (intro keeps_intros keeps_request)

lemma quiet_kept [simp]: "all_kept (c\<lparr>route_cache := p\<rparr>) = all_kept c"
  by (simp add: all_kept_def)

lemma on_cache_keeps: "keeps I f \<Longrightarrow> on_cache f m = Inr (x, m') \<Longrightarrow> I (rm_cache m) \<Longrightarrow> I (rm_cache m')"
  by (auto simp: on_cache_def dest: keepsD split: sum.splits)

text \<open>While the hook is registered, and only then, the file is there.\<close>

definition module_inv :: "rc_module \<Rightarrow> bool" where
  "module_inv m \<longleftrightarrow> all_kept (rm_cache m)
     \<and> rm_proc m = (if rm_hooked m then [''asl'', ''asl/route_check''] else []) \<and> rm_timers m = []"

lemma on_cache_fields:
  "on_cache f m = Inr (x, m') \<Longrightarrow> rm_hooked m' = rm_hooked m \<and> rm_proc m' = rm_proc m \<and> rm_timers m' = rm_timers m"
  by (auto simp: on_cache_def split: sum.splits)

interpretation module: invariant_of module_start module_step module_inv
proof
  fix m m'
  assume inv: "module_inv m" and step: "module_step m m'"
  from step show "module_inv m'"
  proof (cases rule: module_step.cases)
    case (packet dst src v)
    with inv on_cache_fields [OF packet(2)] on_cache_keeps [OF keeps_input_handler packet(2)]
    show ?thesis by (simp add: module_inv_def)
  next
    case (shown n pos x)
    with inv on_cache_fields [OF shown(2)] on_cache_keeps [OF keeps_read shown(2)]
    show ?thesis by (simp add: module_inv_def)
  qed (use inv in \<open>auto simp: module_inv_def init_module_def cleanup_module_def sm_simps split: if_splits\<close>)
qed (simp add: module_start_def module_inv_def all_kept_def)

section \<open>Properties\<close>

text \<open>
  C12. The module never frees a block: in every state it reaches the heap holds every block that was
  ever allocated, and unloading it, which takes away the hook and the file, leaves them all
  there, without the module's pointer to them.
\<close>

theorem module_never_frees:
  assumes "reach module_start module_step m"
  shows "\<exists>m'. cleanup_module m = Inr ((), m') \<and> \<not> rm_hooked m' \<and> rm_proc m' = [] \<and> rm_timers m' = []
    \<and> dom (rc_heap (rm_cache m')) = {0..<rc_fresh (rm_cache m)}"
  using module.reach_inv [OF assms] by (simp add: module_inv_def all_kept_def cleanup_module_def sm_simps)

definition loaded :: rc_module where
  "loaded = \<lparr>rm_cache = quiet_cache, rm_register = 0, rm_hooked = True, rm_proc = [''asl'', ''asl/route_check''],
     rm_log = [], rm_timers = []\<rparr>"

theorem module_never_frees_witness:
  "\<exists>m m'. on_cache (input_handler 5 1) loaded = Inr (1, m) \<and> cleanup_module m = Inr ((), m')
     \<and> dom (rc_heap (rm_cache m')) = {0..<2}"
proof -
  let ?m0 = "loaded\<lparr>rm_hooked := False, rm_proc := []\<rparr>"
  have "module_start ?m0" by (simp add: module_start_def loaded_def quiet_cache_def)
  moreover have "module_step ?m0 loaded"
    by (rule module_step.load [where r = 0]) (simp_all add: init_module_def loaded_def quiet_cache_def sm_simps)
  ultimately have r: "reach module_start module_step loaded"
    using reach_init reach_step by metis
  obtain m where m: "on_cache (input_handler 5 1) loaded = Inr (1, m)" "rc_fresh (rm_cache m) = 2"
    by (simp add: on_cache_def loaded_def quiet_cache_def input_handler_def rc_getcurrtime_def touch_entry_def
        find_route_cache_entry_def insert_route_cache_entry_def at_def rc_request_def sm_simps)
  have "rm_hooked loaded" by (simp add: loaded_def)
  from module_never_frees [OF reach_step [OF r module_step.packet [OF this m(1)]]] m show ?thesis by auto
qed

end
