(* ===== verification/Ods_One.thy ===== *)
theory Ods_One
  imports Packet_System
begin

text \<open>
  Version 1.0 of the ODS kernel module (\<open>lib_code_test/ODS_oldversion_1.0/ODS_kernel\<close>). Its hook is
  registered at \<open>POST_ROUTING\<close> only and has the packets queued (\<open>NF_QUEUE\<close>); the kernel hands them to
  the module's queue handler as an \<open>nf_queue_entry\<close>, which \<open>nf_reinject\<close> takes back.
\<close>

section \<open>The module's variables\<close>

text \<open>
  \<open>myskb\<close> of an element is the packet of its entry, the same pointer. \<open>v1_elements\<close> counts the queue
  elements that are allocated and not freed.
\<close>

record nf_queue_entry =
  qe_skb :: sk_buff

record queue_element_v1 =
  v1_entry :: nf_queue_entry
  v1_src_ip :: ip
  v1_dst_ip :: ip
  v1_dev :: string
  v1_protocol :: u8

definition v1_skb :: "queue_element_v1 \<Rightarrow> sk_buff" where
  "v1_skb e = qe_skb (v1_entry e)"

record queue_head_v1 =
  v1_len :: int
  v1_maxlen :: int
  v1_list :: "queue_element_v1 list"

record kmod_v1 =
  v1_env :: kenv
  v1_ticks :: nat
  v1_queue :: "queue_head_v1 kptr"
  v1_flag :: bool
  v1_pid :: u32
  v1_socket :: bool
  v1_hook :: bool
  v1_handler :: bool
  v1_elements :: int
  v1_outs :: "keffect list"

abbreviation (input) NF_QUEUE :: u32 where "NF_QUEUE \<equiv> 3"

definition ask_v1 :: "(kenv \<Rightarrow> nat \<Rightarrow> 'a) \<Rightarrow> (kmod_v1, 'a) sm" where
  "ask_v1 f = (\<lambda>s. Inr (f (v1_env s) (v1_ticks s), s\<lparr>v1_ticks := Suc (v1_ticks s)\<rparr>))"

definition emit_v1 :: "keffect \<Rightarrow> (kmod_v1, unit) sm" where
  "emit_v1 e = upd (\<lambda>s. s\<lparr>v1_outs := v1_outs s @ [e]\<rparr>)"

definition the_queue_v1 :: "(kmod_v1, queue_head_v1) sm" where
  "the_queue_v1 =
     bnd (gets v1_queue) (\<lambda>p.
     case p of Null \<Rightarrow> raise NullDeref | Freed \<Rightarrow> raise UseAfterFree | Ptr h \<Rightarrow> ret h)"

definition put_queue_v1 :: "queue_head_v1 \<Rightarrow> (kmod_v1, unit) sm" where
  "put_queue_v1 h = upd (\<lambda>s. s\<lparr>v1_queue := Ptr h\<rparr>)"

definition count_element :: "int \<Rightarrow> (kmod_v1, unit) sm" where
  "count_element n = upd (\<lambda>s. s\<lparr>v1_elements := v1_elements s + n\<rparr>)"

text \<open>\<open>nf_reinject (entry, NF_DROP)\<close>: the kernel frees the packet.\<close>

definition nf_drop :: "nf_queue_entry \<Rightarrow> (kmod_v1, unit) sm" where
  "nf_drop entry = emit_v1 (Kfree_skb (qe_skb entry))"

section \<open>The queue\<close>

definition element_v1 :: "nf_queue_entry \<Rightarrow> queue_element_v1" where
  "element_v1 entry =
     (let skb = qe_skb entry in
      \<lparr>v1_entry = entry, v1_src_ip = sk_saddr skb, v1_dst_ip = sk_daddr skb, v1_dev = sk_dst_dev skb,
       v1_protocol = sk_protocol skb\<rparr>)"

definition packet_enqueue_v1 :: "nf_queue_entry \<Rightarrow> (kmod_v1, int) sm" where
  "packet_enqueue_v1 entry =
     bnd (ask_v1 k_alloc) (\<lambda>ok.
     if \<not> ok then ret 1
     else
       andthen (count_element 1)
       (bnd the_queue_v1 (\<lambda>h.
        if v1_len h < v1_maxlen h then
          andthen (put_queue_v1 (h\<lparr>v1_list := element_v1 entry # v1_list h, v1_len := v1_len h + 1\<rparr>)) (ret 0)
        else andthen (count_element (- 1)) (ret 1))))"

definition packet_dequeue_v1 ::
    "(queue_element_v1 \<Rightarrow> ip \<Rightarrow> int) option \<Rightarrow> ip \<Rightarrow> (kmod_v1, queue_element_v1 option) sm" where
  "packet_dequeue_v1 cmp now_ip =
     bnd the_queue_v1 (\<lambda>h.
     case take_first (\<lambda>e. case cmp of None \<Rightarrow> True | Some c \<Rightarrow> c e now_ip \<noteq> 0) (rev (v1_list h)) of
       None \<Rightarrow> ret None
     | Some (e, l) \<Rightarrow> andthen (put_queue_v1 (h\<lparr>v1_list := rev l, v1_len := v1_len h - 1\<rparr>)) (ret (Some e)))"

definition judge_ip_v1 :: "queue_element_v1 \<Rightarrow> ip \<Rightarrow> int" where
  "judge_ip_v1 now_entry now_ip = (if v1_dst_ip now_entry = now_ip then 1 else 0)"

definition pending_ip_v1 :: "ip \<Rightarrow> (kmod_v1, bool) sm" where
  "pending_ip_v1 now_ip =
     bnd the_queue_v1 (\<lambda>h. ret (list_ex (\<lambda>e. v1_dst_ip e = now_ip) (rev (v1_list h))))"

definition init_packet_queue_v1 :: "(kmod_v1, int) sm" where
  "init_packet_queue_v1 =
     bnd (ask_v1 k_alloc) (\<lambda>ok.
     if \<not> ok then andthen (upd (\<lambda>s. s\<lparr>v1_queue := Null\<rparr>)) (ret 1)
     else
       andthen (put_queue_v1 \<lparr>v1_len = 0, v1_maxlen = MAX_PACKET_NUMBER, v1_list = []\<rparr>)
       (andthen (upd (\<lambda>s. s\<lparr>v1_handler := True\<rparr>)) (ret 0)))"

section \<open>Messages to user space\<close>

text \<open>
  The structure has 16 bytes: no type of the packet, and the hardware address, which is never set,
  directly behind the protocol.
\<close>

definition rt_info_v1 :: "u8 \<Rightarrow> u8 list \<Rightarrow> sk_buff \<Rightarrow> u8 list" where
  "rt_info_v1 pad mac skb = le32 (sk_daddr skb) @ le32 (sk_saddr skb) @ [sk_protocol skb] @ mac @ [pad]"

definition send_rtinfo_v1 :: "(u8 \<Rightarrow> u8 list) \<Rightarrow> (kmod_v1, int) sm" where
  "send_rtinfo_v1 now_info =
     bnd (ask_v1 k_alloc) (\<lambda>ok.
     if \<not> ok then ret (- 1)
     else
       bnd (ask_v1 k_junk) (\<lambda>pad.
       bnd (gets v1_socket) (\<lambda>sock.
       bnd (gets v1_pid) (\<lambda>pid.
       if \<not> sock then raise NullDeref
       else andthen
         (emit_v1 (Netlink_unicast pid \<lparr>nl_len = 32, nl_type = NLMSG_TYPE_INFO, nl_pid = 0,
            nl_data = write_buf (now_info (pad ! 0)) (\<lambda>_. 0)\<rparr>))
         (ret 0)))))"

definition transmit_rtinfo_v1 :: "nf_queue_entry \<Rightarrow> (kmod_v1, unit) sm" where
  "transmit_rtinfo_v1 entry =
     bnd (ask_v1 k_junk) (\<lambda>mac.
     bnd (send_rtinfo_v1 (\<lambda>pad. rt_info_v1 pad mac (qe_skb entry))) (\<lambda>_. ret ()))"

section \<open>Packets that arrive\<close>

definition receive_packet_v1 :: "nf_queue_entry \<Rightarrow> (kmod_v1, int) sm" where
  "receive_packet_v1 entry =
     bnd (gets v1_flag) (\<lambda>enqueue_flag.
     if \<not> enqueue_flag then andthen (nf_drop entry) (ret 1)
     else
       bnd (pending_ip_v1 (sk_daddr (qe_skb entry))) (\<lambda>pending.
       andthen (whenM (\<not> pending) (transmit_rtinfo_v1 entry))
       (bnd (packet_enqueue_v1 entry) (\<lambda>enqueue_ret.
        if enqueue_ret \<noteq> 0 then andthen (nf_drop entry) (ret 1) else ret 0))))"

definition judgment_packet_v1 :: "string \<Rightarrow> bool" where
  "judgment_packet_v1 dst_dev = (dst_dev \<noteq> TUNNAME)"

definition check_packet_v1 :: "sk_buff \<Rightarrow> u32" where
  "check_packet_v1 skb = (if judgment_packet_v1 (sk_dst_dev skb) then NF_ACCEPT else NF_QUEUE)"

text \<open>
  What the kernel does with a packet that is to leave: the hook, and for \<open>NF_QUEUE\<close> the queue handler;
  without one the packet is freed.
\<close>

definition leave_v1 :: "sk_buff \<Rightarrow> (kmod_v1, unit) sm" where
  "leave_v1 skb =
     bnd (gets v1_hook) (\<lambda>hook. bnd (gets v1_handler) (\<lambda>handler.
     let verdict = (if hook then check_packet_v1 skb else NF_ACCEPT) in
     if verdict = NF_ACCEPT then emit_v1 (Xmit skb)
     else if handler then bnd (receive_packet_v1 \<lparr>qe_skb = skb\<rparr>) (\<lambda>_. ret ())
     else emit_v1 (Kfree_skb skb)))"

section \<open>Packets that are released\<close>

definition reroute_v1 :: "queue_element_v1 \<Rightarrow> (kmod_v1, sk_buff) sm" where
  "reroute_v1 now_entry =
     (let skb = v1_skb now_entry in
      bnd (ask_v1 k_route_input) (\<lambda>rt.
      case rt (sk_daddr skb) (sk_saddr skb) (sk_tos skb) of
        None \<Rightarrow> ret skb
      | Some dev \<Rightarrow> ret (skb\<lparr>sk_dst_dev := dev\<rparr>)))"

text \<open>An element is freed after \<open>ip_local_out\<close>, and not after \<open>nf_reinject\<close>.\<close>

fun send_packet_v1 :: "nat \<Rightarrow> ip \<Rightarrow> u32 \<Rightarrow> (kmod_v1, unit) sm" where
  "send_packet_v1 0 dst_ip verdict = raise OutOfFuel"
| "send_packet_v1 (Suc n) dst_ip verdict =
     bnd (packet_dequeue_v1 (Some judge_ip_v1) dst_ip) (\<lambda>now_entry.
     case now_entry of None \<Rightarrow> ret ()
     | Some e \<Rightarrow>
         andthen
           (if verdict = NF_DROP then nf_drop (v1_entry e)
            else if verdict = NF_ACCEPT then bnd (reroute_v1 e) (\<lambda>skb. andthen (leave_v1 skb) (count_element (- 1)))
            else ret ())
           (send_packet_v1 n dst_ip verdict))"

fun cleanup_packet_queue_v1 :: "nat \<Rightarrow> (kmod_v1, unit) sm" where
  "cleanup_packet_queue_v1 0 = raise OutOfFuel"
| "cleanup_packet_queue_v1 (Suc n) =
     bnd the_queue_v1 (\<lambda>h.
     if v1_len h = 0 then ret ()
     else
       bnd (packet_dequeue_v1 None 0) (\<lambda>entry.
       case entry of None \<Rightarrow> raise NullDeref
       | Some e \<Rightarrow>
           andthen (nf_drop \<lparr>qe_skb = (v1_skb e)\<lparr>sk_dst_dev := SENDDEV\<rparr>\<rparr>) (cleanup_packet_queue_v1 n)))"

definition clear_packet_queue_v1 :: "nat \<Rightarrow> (kmod_v1, unit) sm" where
  "clear_packet_queue_v1 n =
     andthen (cleanup_packet_queue_v1 n) (upd (\<lambda>s. s\<lparr>v1_queue := Freed, v1_handler := False\<rparr>))"

section \<open>Messages from user space\<close>

definition deal_init_msg_v1 :: "nlmsg \<Rightarrow> (kmod_v1, unit) sm" where
  "deal_init_msg_v1 m = upd (\<lambda>s. s\<lparr>v1_pid := nl_pid m, v1_flag := True\<rparr>)"

definition deal_info_msg_v1 :: "nat \<Rightarrow> nlmsg \<Rightarrow> (kmod_v1, unit) sm" where
  "deal_info_msg_v1 fuel m =
     (let now_result = rt_result_at (nl_data m) in
      if rr_result now_result = IP_FOUND then send_packet_v1 fuel (rr_now_ip now_result) NF_ACCEPT
      else send_packet_v1 fuel (rr_now_ip now_result) NF_DROP)"

definition recv_msg_v1 :: "nat \<Rightarrow> nlmsg \<Rightarrow> (kmod_v1, unit) sm" where
  "recv_msg_v1 fuel m =
     (if nl_type m = NLMSG_TYPE_INIT then deal_init_msg_v1 m
      else if nl_type m = NLMSG_TYPE_INFO then deal_info_msg_v1 fuel m
      else ret ())"

section \<open>Loading and unloading\<close>

text \<open>\<open>ret_forward\<close> is a variable that is never set: what it holds decides whether the module loads.\<close>

definition init_judgment_hook_v1 :: "int \<Rightarrow> (kmod_v1, int) sm" where
  "init_judgment_hook_v1 ret_forward =
     bnd (ask_v1 k_register) (\<lambda>ret_postrouting.
     andthen (whenM (ret_postrouting = 0) (upd (\<lambda>s. s\<lparr>v1_hook := True\<rparr>)))
       (ret (if ret_forward = 0 \<and> ret_postrouting = 0 then 0 else 1)))"

definition clear_judgment_hook_v1 :: "(kmod_v1, unit) sm" where
  "clear_judgment_hook_v1 = upd (\<lambda>s. s\<lparr>v1_hook := False\<rparr>)"

definition init_netlink_v1 :: "(kmod_v1, int) sm" where
  "init_netlink_v1 =
     bnd (ask_v1 k_netlink) (\<lambda>ok.
     andthen (upd (\<lambda>s. s\<lparr>v1_socket := ok\<rparr>)) (ret (if ok then 0 else 1)))"

definition clear_netlink_v1 :: "(kmod_v1, unit) sm" where
  "clear_netlink_v1 = bnd (gets v1_socket) (\<lambda>sock. whenM sock (upd (\<lambda>s. s\<lparr>v1_socket := False\<rparr>)))"

definition init_mymodule_v1 :: "int \<Rightarrow> (kmod_v1, int) sm" where
  "init_mymodule_v1 ret_forward =
     bnd (init_judgment_hook_v1 ret_forward) (\<lambda>judgment_hook_ret.
     if judgment_hook_ret \<noteq> 0 then ret 1
     else
       bnd init_packet_queue_v1 (\<lambda>packet_queue_ret.
       if packet_queue_ret \<noteq> 0 then ret 1
       else
         bnd init_netlink_v1 (\<lambda>netlink_ret.
         if netlink_ret \<noteq> 0 then ret 1 else ret 0)))"

definition exit_mymodule_v1 :: "nat \<Rightarrow> (kmod_v1, unit) sm" where
  "exit_mymodule_v1 fuel =
     andthen clear_netlink_v1 (andthen (clear_packet_queue_v1 fuel) clear_judgment_hook_v1)"

end
