(* ===== verification/Ods_Versions.thy ===== *)
theory Ods_Versions
  imports Ods_One
begin

text \<open>
  Version 1.0 of the ODS kernel module and the current one do the same to forwarded packets: a simulation
  between the two, operation by operation. What differs is the route of released packets of the node itself, for which
  version 1.0 asks the wrong function of the kernel, and the memory: version 1.0 loses a queue element for
  each packet it drops.
\<close>

section \<open>Simulations between state functions\<close>

text \<open>
  From related states both functions run into the same fault, or both return with related results
  in related states.
\<close>

definition sim :: "('s \<Rightarrow> 't \<Rightarrow> bool) \<Rightarrow> ('a \<Rightarrow> 'b \<Rightarrow> bool) \<Rightarrow> ('s, 'a) sm \<Rightarrow> ('t, 'b) sm \<Rightarrow> bool" where
  "sim R A m n \<longleftrightarrow> (\<forall>s t. R s t \<longrightarrow> rel_sum (=) (rel_prod A R) (m s) (n t))"

named_theorems sim_intros \<open>simulations of composed state functions\<close>

lemma sim_apply: "sim R A m n \<Longrightarrow> R s t \<Longrightarrow> rel_sum (=) (rel_prod A R) (m s) (n t)"
  by (simp add: sim_def)

lemma sim_ret [sim_intros]: "A x y \<Longrightarrow> sim R A (ret x) (ret y)"
  by (simp add: sim_def ret_apply)

lemma sim_raise [sim_intros]: "sim R A (raise e) (raise e)"
  by (simp add: sim_def raise_apply)

lemma sim_bnd: "sim R A m n \<Longrightarrow> (\<And>x y. A x y \<Longrightarrow> sim R B (f x) (g y)) \<Longrightarrow> sim R B (bnd m f) (bnd n g)"
  unfolding sim_def bnd_def by (fastforce elim!: rel_sum.cases split: sum.splits)

lemma sim_andthen [sim_intros]:
  "sim R ((=) :: unit \<Rightarrow> _) m n \<Longrightarrow> sim R B f g \<Longrightarrow> sim R B (andthen m f) (andthen n g)"
  unfolding andthen_def by (rule sim_bnd)

lemma sim_gets: "(\<And>s t. R s t \<Longrightarrow> A (f s) (g t)) \<Longrightarrow> sim R A (gets f) (gets g)"
  by (simp add: sim_def gets_apply)

lemma sim_upd [sim_intros]: "(\<And>s t. R s t \<Longrightarrow> R (f s) (g t)) \<Longrightarrow> sim R (=) (upd f) (upd g)"
  by (simp add: sim_def upd_apply)

lemma sim_if [sim_intros]:
  "b = c \<Longrightarrow> (c \<Longrightarrow> sim R A m n) \<Longrightarrow> (\<not> c \<Longrightarrow> sim R A m' n') \<Longrightarrow> sim R A (if b then m else m') (if c then n else n')"
  by simp

lemma sim_whenM [sim_intros]: "b = c \<Longrightarrow> (c \<Longrightarrow> sim R (=) m n) \<Longrightarrow> sim R (=) (whenM b m) (whenM c n)"
  by (simp add: sim_def whenM_apply)

section \<open>The two versions\<close>

text \<open>
  The versions look up the route of a released packet differently: version 1.0 by \<open>ip_route_input\<close>
  for every packet, the current one for packets of the node itself by \<open>ip_route_output\<close>. So
  they are compared for a set \<open>F\<close> of destinations to which packets are released; own packets to these
  are left out.
\<close>

definition same_elem :: "ip set \<Rightarrow> queue_element_v1 \<Rightarrow> packet_queue_element \<Rightarrow> bool" where
  "same_elem F e f \<longleftrightarrow> v1_skb e = el_skb f \<and> v1_dst_ip e = el_dst_ip f \<and> el_dst_ip f = sk_daddr (el_skb f)
     \<and> (el_type f = OTHER \<or> el_type f = LOCAL \<and> el_dst_ip f \<notin> F)"

definition same_head :: "ip set \<Rightarrow> queue_head_v1 \<Rightarrow> packet_queue_head \<Rightarrow> bool" where
  "same_head F h g \<longleftrightarrow> v1_len h = qh_len g \<and> v1_maxlen h = qh_maxlen g \<and> list_all2 (same_elem F) (v1_list h) (qh_list g)"

fun same_ptr :: "ip set \<Rightarrow> queue_head_v1 kptr \<Rightarrow> packet_queue_head kptr \<Rightarrow> bool" where
  "same_ptr F Null Null \<longleftrightarrow> True"
| "same_ptr F Freed Freed \<longleftrightarrow> True"
| "same_ptr F (Ptr h) (Ptr g) \<longleftrightarrow> same_head F h g"
| "same_ptr F _ _ \<longleftrightarrow> False"

text \<open>
  What can be seen of a module: the packets it frees and sends, and that it asks user space for the
  route of a destination, a source and a protocol (which both versions put first).
\<close>

datatype seen = Dropped sk_buff | Passed sk_buff | Asked u32 ip ip u8

fun seen_of :: "keffect \<Rightarrow> seen" where
  "seen_of (Kfree_skb p) = Dropped p"
| "seen_of (Xmit p) = Passed p"
| "seen_of (Netlink_unicast pid m) = Asked pid (read32 (nl_data m) 0) (read32 (nl_data m) 4) (nl_data m 8)"

text \<open>
  For packets that it forwards to these destinations the kernel has routes that do not lead into \<open>mytun\<close>: user
  space answers that a route was found after it has given the kernel the route.
\<close>

definition leads_out :: "ip set \<Rightarrow> kenv \<Rightarrow> bool" where
  "leads_out F E \<longleftrightarrow> (\<forall>dst \<in> F. \<forall>k src tos. \<exists>dev. dev \<noteq> TUNNAME \<and> k_route_input E k dst src tos = Some dev)"

lemma leads_outD:
  "leads_out F E \<Longrightarrow> dst \<in> F \<Longrightarrow> \<exists>dev. dev \<noteq> TUNNAME \<and> k_route_input E k dst src tos = Some dev"
  by (simp only: leads_out_def)

definition same_module :: "ip set \<Rightarrow> kmod_v1 \<Rightarrow> kmod \<Rightarrow> bool" where
  "same_module F s t \<longleftrightarrow> v1_env s = kenv t \<and> v1_ticks s = kticks t \<and> same_ptr F (v1_queue s) (my_queue_head t)
     \<and> v1_flag s = transmission_flag t \<and> v1_pid s = user_pid t \<and> v1_socket s = socket_of_netlink t
     \<and> v1_hook s = (LOCAL \<in> set (hooks t)) \<and> map seen_of (v1_outs s) = map seen_of (kouts t)
     \<and> leads_out F (kenv t)"

text \<open>Loaded: the hooks and the queue handler are registered.\<close>

definition same_loaded :: "ip set \<Rightarrow> kmod_v1 \<Rightarrow> kmod \<Rightarrow> bool" where
  "same_loaded F s t \<longleftrightarrow> same_module F s t \<and> v1_hook s \<and> v1_handler s \<and> set (hooks t) = {LOCAL, OTHER}"

text \<open>The relations that the operations on the queue need to know of a relation.\<close>

definition about_queue :: "ip set \<Rightarrow> (kmod_v1 \<Rightarrow> kmod \<Rightarrow> bool) \<Rightarrow> bool" where
  "about_queue F R \<longleftrightarrow> R = same_module F \<or> R = same_loaded F"

lemma about_queueI [simp]: "about_queue F (same_module F)" "about_queue F (same_loaded F)"
  by (simp_all add: about_queue_def)

lemma about_same: "about_queue F R \<Longrightarrow> R s t \<Longrightarrow> same_module F s t"
  by (auto simp: about_queue_def same_loaded_def)

lemma sim_ask [sim_intros]: "about_queue F R \<Longrightarrow> sim R (=) (ask_v1 f) (ask f)"
  by (auto simp: about_queue_def sim_def ask_v1_def ask_def same_loaded_def same_module_def)

lemma sim_emit: "about_queue F R \<Longrightarrow> seen_of e = seen_of f \<Longrightarrow> sim R (=) (emit_v1 e) (kemit f)"
  unfolding emit_v1_def kemit_def
  by (auto simp: about_queue_def sim_def upd_apply same_loaded_def same_module_def)

lemma sim_count: "about_queue F R \<Longrightarrow> sim R (=) n m \<Longrightarrow> sim R (=) (andthen n (count_element k)) m"
  by (fastforce simp: about_queue_def sim_def andthen_apply count_element_def upd_apply same_loaded_def same_module_def
      elim!: rel_sum.cases split: sum.splits)

lemma sim_count_first: "about_queue F R \<Longrightarrow> sim R A n m \<Longrightarrow> sim R A (andthen (count_element k) n) m"
  unfolding sim_def
proof (intro allI impI)
  fix s t assume q: "about_queue F R" and n: "\<forall>s t. R s t \<longrightarrow> rel_sum (=) (rel_prod A R) (n s) (m t)" and r: "R s t"
  from q r have "R (s\<lparr>v1_elements := v1_elements s + k\<rparr>) t"
    by (auto simp: about_queue_def same_loaded_def same_module_def)
  with n show "rel_sum (=) (rel_prod A R) (andthen (count_element k) n s) (m t)"
    by (simp add: andthen_apply count_element_def upd_apply)
qed

lemma sim_the_queue: "about_queue F R \<Longrightarrow> sim R (same_head F) the_queue_v1 the_queue"
proof -
  assume q: "about_queue F R"
  have "sim R (same_ptr F) (gets v1_queue) (gets my_queue_head)"
    by (rule sim_gets) (use about_same [OF q] in \<open>auto simp: same_module_def\<close>)
  then show ?thesis
    unfolding the_queue_v1_def the_queue_def
    by (rule sim_bnd) (auto elim!: same_ptr.elims intro!: sim_intros)
qed

lemma sim_put_queue: "about_queue F R \<Longrightarrow> same_head F h g \<Longrightarrow> sim R (=) (put_queue_v1 h) (put_queue g)"
  unfolding put_queue_v1_def put_queue_def
  by (rule sim_upd) (auto simp: about_queue_def same_loaded_def same_module_def)

section \<open>The operations on the queue\<close>

lemma take_first_related:
  "list_all2 A xs ys \<Longrightarrow> (\<And>x y. A x y \<Longrightarrow> p x = q y) \<Longrightarrow>
   rel_option (rel_prod (\<lambda>x y. A x y \<and> p x) (list_all2 A)) (take_first p xs) (take_first q ys)"
  by (induction xs ys rule: list_all2_induct) (auto simp: option.rel_map rel_prod_conv split: prod.splits elim: option.rel_mono_strong)

lemma same_headD:
  "same_head F h g \<Longrightarrow> list_all2 (same_elem F) (rev (v1_list h)) (rev (qh_list g))"
  by (simp add: same_head_def list_all2_rev)

lemma sim_dequeue:
  assumes q: "about_queue F R" and c: "\<And>e f. same_elem F e f \<Longrightarrow>
      (case cmp of None \<Rightarrow> True | Some c \<Rightarrow> c e dst \<noteq> 0) = (case cmp' of None \<Rightarrow> True | Some c \<Rightarrow> c f dst \<noteq> 0)"
  shows "sim R (rel_option (\<lambda>e f. same_elem F e f \<and> (case cmp of None \<Rightarrow> True | Some c \<Rightarrow> c e dst \<noteq> 0)))
    (packet_dequeue_v1 cmp dst) (packet_dequeue cmp' dst)"
  unfolding packet_dequeue_v1_def packet_dequeue_def
proof (rule sim_bnd [OF sim_the_queue [OF q]])
  fix h g assume h: "same_head F h g"
  let ?x = "take_first (\<lambda>e. case cmp of None \<Rightarrow> True | Some c \<Rightarrow> c e dst \<noteq> 0) (rev (v1_list h))"
  let ?y = "take_first (\<lambda>f. case cmp' of None \<Rightarrow> True | Some c \<Rightarrow> c f dst \<noteq> 0) (rev (qh_list g))"
  let ?taken = "\<lambda>e f. same_elem F e f \<and> (case cmp of None \<Rightarrow> True | Some c \<Rightarrow> c e dst \<noteq> 0)"
  have "rel_option (rel_prod ?taken (list_all2 (same_elem F))) ?x ?y"
    by (rule take_first_related [OF same_headD [OF h] c])
  then show "sim R (rel_option ?taken)
     (case ?x of None \<Rightarrow> ret None
        | Some (e, l) \<Rightarrow> andthen (put_queue_v1 (h\<lparr>v1_list := rev l, v1_len := v1_len h - 1\<rparr>)) (ret (Some e)))
     (case ?y of None \<Rightarrow> ret None
        | Some (e, l) \<Rightarrow> andthen (put_queue (g\<lparr>qh_list := rev l, qh_len := qh_len g - 1\<rparr>)) (ret (Some e)))"
  proof (cases rule: option.rel_cases)
    case (Some p r)
    then obtain e l f k where "p = (e, l)" "r = (f, k)" "?taken e f" "list_all2 (same_elem F) l k"
      by (cases p; cases r) auto
    with Some(1,2) h show ?thesis
      by (simp only: option.case prod.case)
        (intro sim_intros sim_put_queue [OF q], auto simp: same_head_def list_all2_rev)
  qed (simp add: sim_ret)
qed

lemma sim_pending: "about_queue F R \<Longrightarrow> sim R (=) (pending_ip_v1 dst) (pending_ip dst)"
  unfolding pending_ip_v1_def pending_ip_def
proof (rule sim_bnd [OF sim_the_queue], assumption, rule sim_ret)
  fix h g assume "same_head F h g"
  then have "list_all2 (same_elem F) (v1_list h) (qh_list g)" by (simp add: same_head_def)
  then have "list_ex (\<lambda>e. v1_dst_ip e = dst) (v1_list h) = list_ex (\<lambda>e. el_dst_ip e = dst) (qh_list g)"
    by (induction rule: list_all2_induct) (auto simp: same_elem_def)
  then show "list_ex (\<lambda>e. v1_dst_ip e = dst) (rev (v1_list h)) = list_ex (\<lambda>e. el_dst_ip e = dst) (rev (qh_list g))"
    by (simp add: list_ex_iff)
qed

lemma same_element:
  "type = LOCAL \<and> sk_daddr skb \<notin> F \<or> type = OTHER \<Longrightarrow> same_elem F (element_v1 \<lparr>qe_skb = skb\<rparr>) (element_of skb type)"
  by (auto simp: same_elem_def element_v1_def element_of_def v1_skb_def)

lemma sim_enqueue:
  assumes q: "about_queue F R" and t: "type = LOCAL \<and> sk_daddr skb \<notin> F \<or> type = OTHER"
  shows "sim R (=) (packet_enqueue_v1 \<lparr>qe_skb = skb\<rparr>) (packet_enqueue skb type)"
  unfolding packet_enqueue_v1_def packet_enqueue_def
proof (rule sim_bnd [OF sim_ask [OF q]], rule sim_if)
  fix x y :: bool
  assume "x = y"
  then show "(\<not> x) = (\<not> y)" by simp
  show "sim R (=) (ret 1) (ret 1)" by (rule sim_ret) simp
  show "sim R (=)
     (andthen (count_element 1) (bnd the_queue_v1 (\<lambda>h. if v1_len h < v1_maxlen h then
        andthen (put_queue_v1 (h\<lparr>v1_list := element_v1 \<lparr>qe_skb = skb\<rparr> # v1_list h, v1_len := v1_len h + 1\<rparr>)) (ret 0)
        else andthen (count_element (- 1)) (ret 1))))
     (bnd the_queue (\<lambda>h. if qh_len h < qh_maxlen h then
        andthen (put_queue (h\<lparr>qh_list := element_of skb type # qh_list h, qh_len := qh_len h + 1\<rparr>)) (ret 0)
        else ret 1))"
    by (rule sim_count_first [OF q], rule sim_bnd [OF sim_the_queue [OF q]])
      (intro sim_intros sim_count_first [OF q] sim_put_queue [OF q],
        auto simp: same_head_def same_element [OF t])
qed

section \<open>Requests and arrivals\<close>

lemma request_heads:
  "read32 (write_buf (rt_info_v1 pad mac skb) b) 0 = sk_daddr skb"
  "read32 (write_buf (rt_info_v1 pad mac skb) b) 4 = sk_saddr skb"
  "write_buf (rt_info_v1 pad mac skb) b 8 = sk_protocol skb"
  "read32 (write_buf (rt_info_bytes pad' i) b) 0 = ri_dst i"
  "read32 (write_buf (rt_info_bytes pad' i) b) 4 = ri_src i"
  "write_buf (rt_info_bytes pad' i) b 8 = ri_proto i"
  using read32_append [of "[]" 0] read32_append [of "le32 v" 4 for v]
  by (simp_all add: rt_info_v1_def rt_info_bytes_def) (simp_all add: write_buf_def nth_append)

lemma sim_transmit:
  assumes q: "about_queue F R"
  shows "sim R (=) (transmit_rtinfo_v1 \<lparr>qe_skb = skb\<rparr>) (transmit_rtinfo skb type)"
proof -
  have sock: "sim R (=) (gets v1_socket) (gets socket_of_netlink)" "sim R (=) (gets v1_pid) (gets user_pid)"
    by (rule sim_gets, use about_same [OF q] in \<open>auto simp: same_module_def\<close>)+
  have tell: "sim R (=) (emit_v1 (Netlink_unicast pid \<lparr>nl_len = n, nl_type = ty, nl_pid = 0,
        nl_data = write_buf (rt_info_v1 pad mac skb) (\<lambda>_. 0)\<rparr>))
      (kemit (Netlink_unicast pid' \<lparr>nl_len = n', nl_type = ty', nl_pid = 0,
        nl_data = write_buf (rt_info_bytes pad' \<lparr>ri_dst = sk_daddr skb, ri_src = sk_saddr skb, ri_proto = sk_protocol skb,
          ri_packet_source_type = type, ri_mac_dst_addr = mac'\<rparr>) (\<lambda>_. 0)\<rparr>))" if "pid = pid'"
    for pid pid' n n' ty ty' pad pad' mac mac'
    using that by (intro sim_emit [OF q]) (simp add: request_heads)
  show ?thesis
    unfolding transmit_rtinfo_v1_def transmit_rtinfo_def send_rtinfo_v1_def send_rtinfo_def nf_queue_entry.simps
    by (intro sim_bnd [OF sim_ask [OF q]] sim_bnd [where A = "(=) :: int \<Rightarrow> _"] sim_bnd [OF sock(1)] sim_bnd [OF sock(2)]
        sim_intros tell) auto
qed

lemma sim_receive:
  assumes q: "about_queue F R" and t: "type = LOCAL \<and> sk_daddr skb \<notin> F \<or> type = OTHER"
  shows "sim R (\<lambda>_ _. True) (receive_packet_v1 \<lparr>qe_skb = skb\<rparr>) (receive_packet skb type)"
proof -
  have flag: "sim R (=) (gets v1_flag) (gets transmission_flag)"
    by (rule sim_gets) (use about_same [OF q] in \<open>auto simp: same_module_def\<close>)
  have drop: "sim R (=) (nf_drop \<lparr>qe_skb = skb\<rparr>) (kemit (Kfree_skb skb))"
    unfolding nf_drop_def by (rule sim_emit [OF q]) simp
  have finish: "sim R (\<lambda>_ _. True) (if (r :: int) \<noteq> 0 then andthen (nf_drop \<lparr>qe_skb = skb\<rparr>) (ret (1 :: int)) else ret 0)
      (andthen (whenM (r' \<noteq> 0) (kemit (Kfree_skb skb))) (ret (0 :: int)))" if "r = r'" for r r'
    using that drop unfolding sim_def
    by (cases "r = 0") (fastforce simp: andthen_apply whenM_apply ret_apply elim!: rel_sum.cases split: sum.splits)+
  show ?thesis
    unfolding receive_packet_v1_def receive_packet_def nf_queue_entry.simps
    by (rule sim_bnd [OF flag], intro sim_if sim_andthen [OF drop] sim_ret sim_bnd [OF sim_pending [OF q]]
        sim_andthen sim_whenM sim_transmit [OF q] sim_bnd [OF sim_enqueue [OF q t]] finish)
      auto
qed

section \<open>Releases\<close>

lemma sim_trans_apply:
  assumes "sim R A m n" and "\<And>s t. R s t \<Longrightarrow> m' s = m s \<and> n' t = n t"
  shows "sim R A m' n'"
  using assms by (auto simp: sim_def)

lemma sim_leave:
  assumes "sk_dst_dev skb = TUNNAME \<longrightarrow> sk_daddr skb \<notin> F"
  shows "sim (same_loaded F) (=) (leave_v1 skb) (ip_local_out skb)"
proof (cases "sk_dst_dev skb = TUNNAME")
  case True
  have "sim (same_loaded F) (\<lambda>_ _. True) (receive_packet_v1 \<lparr>qe_skb = skb\<rparr>) (receive_packet skb LOCAL)"
    by (rule sim_receive) (use True assms in simp_all)
  then have "sim (same_loaded F) (=) (bnd (receive_packet_v1 \<lparr>qe_skb = skb\<rparr>) (\<lambda>_. ret ()))
      (bnd (receive_packet skb LOCAL) (\<lambda>_. ret ()))"
    by (rule sim_bnd) (rule sim_ret, simp)
  then show ?thesis
  proof (rule sim_trans_apply)
    fix s t assume "same_loaded F s t"
    then have "v1_hook s" "v1_handler s" "LOCAL \<in> set (hooks t)" by (auto simp: same_loaded_def)
    with True show "leave_v1 skb s = bnd (receive_packet_v1 \<lparr>qe_skb = skb\<rparr>) (\<lambda>_. ret ()) s
        \<and> ip_local_out skb t = bnd (receive_packet skb LOCAL) (\<lambda>_. ret ()) t"
      by (auto simp: leave_v1_def check_packet_v1_def judgment_packet_v1_def ip_local_out_def check_packet_def
          judgment_packet_def sm_simps Let_def split: sum.splits)
  qed
next
  case False
  have "sim (same_loaded F) (=) (emit_v1 (Xmit skb)) (kemit (Xmit skb))" by (rule sim_emit [OF about_queueI(2)]) simp
  then show ?thesis
  proof (rule sim_trans_apply)
    fix s t assume "same_loaded F s t"
    with False show "leave_v1 skb s = emit_v1 (Xmit skb) s \<and> ip_local_out skb t = kemit (Xmit skb) t"
      by (auto simp: leave_v1_def check_packet_v1_def judgment_packet_v1_def ip_local_out_def check_packet_def
          judgment_packet_def sm_simps Let_def same_loaded_def)
  qed
qed

text \<open>A forwarded packet to one of the destinations gets the same route, which leads out.\<close>

lemma sim_reroute:
  assumes "same_elem F e f" "el_dst_ip f \<in> F"
  shows "sim (same_loaded F) (\<lambda>p q. p = q \<and> sk_dst_dev q \<noteq> TUNNAME) (reroute_v1 e) (reroute (el_skb f) (el_type f))"
  unfolding sim_def
proof (intro allI impI)
  fix s t assume st: "same_loaded F s t"
  from assms have e: "v1_skb e = el_skb f" "el_type f = OTHER" "sk_daddr (el_skb f) \<in> F" by (auto simp: same_elem_def)
  from st have "leads_out F (kenv t)" by (simp add: same_loaded_def same_module_def)
  from leads_outD [OF this e(3)] obtain dev where "dev \<noteq> TUNNAME"
      "k_route_input (kenv t) (kticks t) (sk_daddr (el_skb f)) (sk_saddr (el_skb f)) (sk_tos (el_skb f)) = Some dev"
    by blast
  with st e(1,2) show "rel_sum (=) (rel_prod (\<lambda>p q. p = q \<and> sk_dst_dev q \<noteq> TUNNAME) (same_loaded F))
      (reroute_v1 e s) (reroute (el_skb f) (el_type f) t)"
    by (auto simp: same_loaded_def same_module_def reroute_v1_def reroute_def ask_v1_def ask_def sm_simps Let_def)
qed

definition release_v1 :: "u32 \<Rightarrow> queue_element_v1 \<Rightarrow> (kmod_v1, unit) sm" where
  "release_v1 verdict e =
     (if verdict = NF_DROP then nf_drop (v1_entry e)
      else if verdict = NF_ACCEPT then bnd (reroute_v1 e) (\<lambda>skb. andthen (leave_v1 skb) (count_element (- 1)))
      else ret ())"

lemma send_packet_v1_Suc:
  "send_packet_v1 (Suc n) dst verdict =
     bnd (packet_dequeue_v1 (Some judge_ip_v1) dst) (\<lambda>r.
     case r of None \<Rightarrow> ret () | Some e \<Rightarrow> andthen (release_v1 verdict e) (send_packet_v1 n dst verdict))"
  by (simp only: send_packet_v1.simps release_v1_def)

lemma sim_release:
  assumes e: "same_elem F e f" and found: "verdict = NF_ACCEPT \<longrightarrow> el_dst_ip f \<in> F"
  shows "sim (same_loaded F) (=) (release_v1 verdict e) (release verdict f)"
proof -
  have drop: "sim (same_loaded F) (=) (nf_drop (v1_entry e)) (kemit (Kfree_skb (el_skb f)))"
    unfolding nf_drop_def by (rule sim_emit [OF about_queueI(2)]) (use e in \<open>simp_all add: same_elem_def v1_skb_def\<close>)
  have out: "sim (same_loaded F) (=) (andthen (leave_v1 p) (count_element (- 1))) (ip_local_out q)"
    if "p = q \<and> sk_dst_dev q \<noteq> TUNNAME" for p q
    using that by (auto intro!: sim_count [OF about_queueI(2) sim_leave])
  have "sim (same_loaded F) (=) (bnd (reroute_v1 e) (\<lambda>skb. andthen (leave_v1 skb) (count_element (- 1))))
      (bnd (reroute (el_skb f) (el_type f)) ip_local_out)" if "verdict = NF_ACCEPT"
    using found that by (intro sim_bnd [OF sim_reroute [OF e]] out) simp_all
  with drop show ?thesis
    unfolding release_v1_def release_def by (intro sim_if sim_ret) simp_all
qed

lemma sim_send_packet:
  assumes "verdict = NF_ACCEPT \<longrightarrow> dst \<in> F"
  shows "sim (same_loaded F) (=) (send_packet_v1 n dst verdict) (send_packet n dst verdict)"
proof (induction n)
  case (Suc n)
  let ?taken = "\<lambda>e f. same_elem F e f \<and> (case Some judge_ip_v1 of None \<Rightarrow> True | Some c \<Rightarrow> c e dst \<noteq> 0)"
  have "sim (same_loaded F) (rel_option ?taken) (packet_dequeue_v1 (Some judge_ip_v1) dst) (packet_dequeue (Some judge_ip) dst)"
    by (rule sim_dequeue) (simp_all add: judge_ip_v1_def judge_ip_def same_elem_def)
  moreover have "sim (same_loaded F) (=) (release_v1 verdict e) (release verdict f)" if "?taken e f" for e f
    by (rule sim_release) (use that assms in \<open>auto simp: judge_ip_v1_def same_elem_def split: if_splits\<close>)
  ultimately show ?case
    unfolding send_packet_v1_Suc send_packet_Suc
    by (elim sim_bnd; elim option.rel_cases; simp only: option.case; intro sim_ret sim_andthen Suc refl; simp)
qed (simp add: sim_raise)

text \<open>The destination that a message of user space says a route was found for, if it does.\<close>

definition finds :: "nlmsg \<Rightarrow> ip \<Rightarrow> bool" where
  "finds m dst \<longleftrightarrow> nl_type m = NLMSG_TYPE_INFO \<and> rt_result_at (nl_data m) = \<lparr>rr_now_ip = dst, rr_result = IP_FOUND\<rparr>"

lemma sim_recv_msg:
  assumes "nl_type m \<noteq> NLMSG_TYPE_EXIT" "\<forall>dst. finds m dst \<longrightarrow> dst \<in> F"
  shows "sim (same_loaded F) (=) (recv_msg_v1 fuel m) (recv_msg fuel m)"
proof -
  have "sim (same_loaded F) (=) (deal_info_msg_v1 fuel m) (deal_info_msg fuel m)" if "nl_type m = NLMSG_TYPE_INFO"
    unfolding deal_info_msg_v1_def deal_info_msg_def Let_def
    by (intro sim_if sim_send_packet) (use assms(2) that in \<open>simp_all add: finds_def\<close>)
  with assms(1) show ?thesis
    unfolding recv_msg_v1_def recv_msg_def deal_init_msg_v1_def deal_init_msg_def
    by (intro sim_if sim_upd) (auto simp: same_loaded_def same_module_def sim_ret)
qed

section \<open>Sequences of events\<close>

text \<open>
  A packet on its way out of the node, forwarded or its own, and a message of user space. The current
  version sees a forwarded packet at two hooks.
\<close>

datatype ods_event = Leaving bool sk_buff | From_user nlmsg

primrec event_v1 :: "nat \<Rightarrow> ods_event \<Rightarrow> (kmod_v1, unit) sm" where
  "event_v1 fuel (Leaving forwarded skb) = leave_v1 skb"
| "event_v1 fuel (From_user m) = recv_msg_v1 fuel m"

primrec event_now :: "nat \<Rightarrow> ods_event \<Rightarrow> (kmod, unit) sm" where
  "event_now fuel (Leaving forwarded skb) =
     bnd (if forwarded then check_packet OTHER skb else ret NF_ACCEPT) (\<lambda>verdict.
     whenM (verdict = NF_ACCEPT) (ip_local_out skb))"
| "event_now fuel (From_user m) = recv_msg fuel m"

text \<open>
  The destinations for which a route is found in the course of the events, and that no own packet to one of them
  runs into the module.
\<close>

definition found_in :: "ods_event list \<Rightarrow> ip set" where
  "found_in es = {dst. \<exists>m. From_user m \<in> set es \<and> finds m dst}"

definition own_apart :: "ip set \<Rightarrow> ods_event \<Rightarrow> bool" where
  "own_apart F e \<longleftrightarrow> (\<forall>skb. e = Leaving False skb \<longrightarrow> sk_dst_dev skb = TUNNAME \<longrightarrow> sk_daddr skb \<notin> F)"

lemma sim_forwarded:
  assumes "own_apart F (Leaving forwarded skb)"
  shows "sim (same_loaded F) (=) (leave_v1 skb) (event_now fuel (Leaving forwarded skb))"
proof (cases "forwarded \<and> sk_dst_dev skb = TUNNAME")
  case True
  have "sim (same_loaded F) (\<lambda>_ _. True) (receive_packet_v1 \<lparr>qe_skb = skb\<rparr>) (receive_packet skb OTHER)"
    by (rule sim_receive [OF about_queueI(2)]) simp
  then have "sim (same_loaded F) (=) (bnd (receive_packet_v1 \<lparr>qe_skb = skb\<rparr>) (\<lambda>_. ret ()))
      (bnd (receive_packet skb OTHER) (\<lambda>_. ret ()))"
    by (rule sim_bnd) (rule sim_ret, simp)
  then show ?thesis
  proof (rule sim_trans_apply)
    fix s t assume "same_loaded F s t"
    then have "v1_hook s" "v1_handler s" by (auto simp: same_loaded_def)
    with True show "leave_v1 skb s = bnd (receive_packet_v1 \<lparr>qe_skb = skb\<rparr>) (\<lambda>_. ret ()) s
        \<and> event_now fuel (Leaving forwarded skb) t = bnd (receive_packet skb OTHER) (\<lambda>_. ret ()) t"
      by (auto simp: leave_v1_def check_packet_v1_def judgment_packet_v1_def check_packet_def
          judgment_packet_def sm_simps Let_def split: sum.splits)
  qed
next
  case False
  then have "event_now fuel (Leaving forwarded skb) = ip_local_out skb"
    by (auto simp: check_packet_def judgment_packet_def fun_eq_iff sm_simps)
  moreover have "sk_dst_dev skb = TUNNAME \<longrightarrow> sk_daddr skb \<notin> F" using False assms by (auto simp: own_apart_def)
  ultimately show ?thesis by (simp add: sim_leave del: event_now.simps)
qed

lemma sim_event:
  assumes "own_apart F e" "\<forall>m. e = From_user m \<longrightarrow> nl_type m \<noteq> NLMSG_TYPE_EXIT \<and> (\<forall>dst. finds m dst \<longrightarrow> dst \<in> F)"
  shows "sim (same_loaded F) (=) (event_v1 fuel e) (event_now fuel e)"
proof (cases e)
  case (Leaving forwarded skb)
  with sim_forwarded [OF assms(1) [unfolded Leaving], of fuel] show ?thesis by simp
next
  case (From_user m)
  with assms(2) show ?thesis by (simp add: sim_recv_msg)
qed

lemma sim_events:
  "\<forall>e \<in> set es. own_apart F e \<Longrightarrow> \<forall>m. From_user m \<in> set es \<longrightarrow> nl_type m \<noteq> NLMSG_TYPE_EXIT \<Longrightarrow> found_in es \<subseteq> F \<Longrightarrow>
   sim (same_loaded F) (=) (forM es (event_v1 fuel)) (forM es (event_now fuel))"
proof (induction es)
  case (Cons e es)
  have "sim (same_loaded F) (=) (event_v1 fuel e) (event_now fuel e)"
    by (rule sim_event) (use Cons.prems in \<open>auto simp: found_in_def\<close>)
  moreover have "found_in es \<subseteq> F" using Cons.prems(3) by (auto simp: found_in_def)
  ultimately show ?case using Cons by (auto intro: sim_andthen)
qed (simp add: sim_ret)

section \<open>Both return\<close>

definition at_work :: "ip set \<Rightarrow> kenv \<Rightarrow> kmod \<Rightarrow> bool" where
  "at_work F E t \<longleftrightarrow> kmod_inv t \<and> socket_of_netlink t \<and> kenv t = E
     \<and> (\<forall>h. my_queue_head t = Ptr h \<longrightarrow> (\<forall>e \<in> set (qh_list h). el_dst_ip e \<in> F \<longrightarrow> el_type e = OTHER))"

lemma at_work_put:
  "at_work F E t \<Longrightarrow> head_ok h \<Longrightarrow> \<forall>e \<in> set (qh_list h). el_dst_ip e \<in> F \<longrightarrow> el_type e = OTHER \<Longrightarrow>
   my_queue_head u = Ptr h \<Longrightarrow> kenv u = kenv t \<Longrightarrow> socket_of_netlink u \<Longrightarrow> at_work F E u"
  by (auto simp: at_work_def kmod_inv_def)

lemma at_work_queue:
  "at_work F E t \<Longrightarrow> \<exists>h. my_queue_head t = Ptr h \<and> head_ok h \<and> (\<forall>e \<in> set (qh_list h). el_dst_ip e \<in> F \<longrightarrow> el_type e = OTHER)"
  by (auto simp: at_work_def kmod_inv_def)

lemma release_apart:
  assumes "leads_out F (kenv s)" "elem_ok e" "verdict = NF_DROP \<or> verdict = NF_ACCEPT \<and> el_dst_ip e \<in> F \<and> el_type e = OTHER"
  shows "\<exists>es t. release verdict e s = Inr ((), s\<lparr>kouts := es, kticks := t\<rparr>)"
proof (cases "verdict = NF_DROP")
  case True
  then show ?thesis using release_drop [of e s] by auto
next
  case False
  with assms(3) have v: "verdict = NF_ACCEPT" "el_dst_ip e \<in> F" "el_type e = OTHER" by auto
  let ?p = "el_skb e"
  have "el_dst_ip e = sk_daddr ?p" using assms(2) unfolding elem_ok_def by (metis element_of_def packet_queue_element.select_convs(3))
  with v(2) have "sk_daddr ?p \<in> F" by simp
  from leads_outD [OF assms(1) this] obtain dev where dev: "dev \<noteq> TUNNAME"
      "k_route_input (kenv s) (kticks s) (sk_daddr ?p) (sk_saddr ?p) (sk_tos ?p) = Some dev"
    by blast
  then have "reroute ?p (el_type e) s = Inr (?p\<lparr>sk_dst_dev := dev\<rparr>, s\<lparr>kticks := Suc (kticks s)\<rparr>)"
    by (simp add: v(3) reroute_def ask_def sm_simps)
  moreover have "ip_local_out (?p\<lparr>sk_dst_dev := dev\<rparr>) u = Inr ((), u\<lparr>kouts := kouts u @ [Xmit (?p\<lparr>sk_dst_dev := dev\<rparr>)]\<rparr>)" for u
    using dev(1) by (simp add: ip_local_out_def check_packet_def judgment_packet_def kemit_def sm_simps)
  ultimately have "release verdict e s =
      Inr ((), s\<lparr>kouts := kouts s @ [Xmit (?p\<lparr>sk_dst_dev := dev\<rparr>)], kticks := Suc (kticks s)\<rparr>)"
    unfolding v(1) by (simp add: release_def bnd_apply)
  then show ?thesis by blast
qed

lemma send_packet_returns:
  "at_work F E s \<Longrightarrow> leads_out F E \<Longrightarrow> verdict = NF_DROP \<or> verdict = NF_ACCEPT \<and> dst \<in> F \<Longrightarrow> my_queue_head s = Ptr h \<Longrightarrow> head_ok h \<Longrightarrow>
   length (waiting dst h) < n \<Longrightarrow> \<exists>s'. send_packet n dst verdict s = Inr ((), s') \<and> at_work F E s'"
proof (induction n arbitrary: s h)
  case (Suc n)
  show ?case
  proof (cases "waiting dst h")
    case Nil
    with Suc.prems(1,4) show ?thesis unfolding send_packet_Suc by (simp add: bnd_apply ret_apply dequeue_none)
  next
    case (Cons e r)
    obtain l where l: "packet_dequeue (Some judge_ip) dst s =
        Inr (Some e, s\<lparr>my_queue_head := Ptr (h\<lparr>qh_list := l, qh_len := qh_len h - 1\<rparr>)\<rparr>)"
      "waiting dst (h\<lparr>qh_list := l, qh_len := qh_len h - 1\<rparr>) = r"
      "mset (qh_list h) = add_mset e (mset l)" "el_dst_ip e = dst"
      by (rule dequeue_some [OF Suc.prems(4) Cons])
    let ?h = "h\<lparr>qh_list := l, qh_len := qh_len h - 1\<rparr>"
    let ?s = "s\<lparr>my_queue_head := Ptr ?h\<rparr>"
    note small = head_ok_smaller [OF Suc.prems(5) l(3)]
    have sets: "set (qh_list h) = insert e (set l)" using l(3) by (metis set_mset_add_mset_insert set_mset_mset)
    have apart: "\<forall>e \<in> set (qh_list h). el_dst_ip e \<in> F \<longrightarrow> el_type e = OTHER"
      using Suc.prems(1,4) by (simp add: at_work_def)
    have "leads_out F (kenv ?s)" using Suc.prems(1,2) by (simp add: at_work_def)
    moreover have "verdict = NF_DROP \<or> verdict = NF_ACCEPT \<and> el_dst_ip e \<in> F \<and> el_type e = OTHER"
      using Suc.prems(3) apart sets l(4) by auto
    ultimately obtain es t where
      t: "release verdict e ?s = Inr ((), ?s\<lparr>kouts := es, kticks := t\<rparr>)" using release_apart [of F ?s e verdict] small by blast
    have rest: "\<forall>e \<in> set (qh_list ?h). el_dst_ip e \<in> F \<longrightarrow> el_type e = OTHER" using apart sets by simp
    have "at_work F E (?s\<lparr>kouts := es, kticks := t\<rparr>)"
      by (rule at_work_put [OF Suc.prems(1) _ rest]) (use Suc.prems(1) small in \<open>simp_all add: at_work_def\<close>)
    then have "\<exists>s'. send_packet n dst verdict (?s\<lparr>kouts := es, kticks := t\<rparr>) = Inr ((), s') \<and> at_work F E s'"
      by (rule Suc.IH [where h = ?h]) (use Suc.prems Cons l(2) small in simp_all)
    then show ?thesis unfolding send_packet_Suc using l(1) t by (simp add: bnd_apply andthen_apply)
  qed
qed simp

lemma runs_leaving:
  assumes "own_apart F (Leaving forwarded skb)"
  shows "runs (at_work F E) (event_now fuel (Leaving forwarded skb))"
proof (rule runsI)
  fix t assume w: "at_work F E t"
  then have inv: "kmod_inv t" by (simp add: at_work_def)
  have tun: "\<exists>t'. check_packet hk skb t = Inr (NF_STOLEN, t') \<and> at_work F E t'"
    if "sk_dst_dev skb = TUNNAME" "hk = LOCAL \<and> sk_daddr skb \<notin> F \<or> hk = OTHER" for hk
  proof -
    have eq: "check_packet hk skb t = andthen (bnd (receive_packet skb hk) (\<lambda>_. ret ())) (ret NF_STOLEN) t"
      using that by (auto simp: check_packet_def judgment_packet_def)
    show ?thesis
    proof (cases "transmission_flag t")
      case False
      with w show ?thesis unfolding eq by (auto simp: receive_packet_def queue_run at_work_def)
    next
      case True
      from that(2) have hk: "hk = LOCAL \<or> hk = OTHER" by blast
      from kmod_inv_queue [OF inv True] obtain h where h: "my_queue_head t = Ptr h" "head_ok h" "socket_of_netlink t" by auto
      obtain asks acc k where
        r: "receive_packet skb hk t = Inr (0, t\<lparr>kticks := k,
         kouts := kouts t @ asks @ (if acc then [] else [Kfree_skb skb]),
         my_queue_head := Ptr (if acc then h\<lparr>qh_list := element_of skb hk # qh_list h,
           qh_len := qh_len h + 1\<rparr> else h)\<rparr>)"
        and acc: "acc \<longrightarrow> qh_len h < MAX_PACKET_NUMBER"
        by (rule receive_packet_run [OF True h(1,3,2)])
      have ok: "head_ok (if acc then h\<lparr>qh_list := element_of skb hk # qh_list h, qh_len := qh_len h + 1\<rparr> else h)"
        using h(2) acc elem_ok_element [OF hk that(1)] head_ok_larger [of h] by simp
      let ?u = "t\<lparr>kticks := k, kouts := kouts t @ asks @ (if acc then [] else [Kfree_skb skb]),
         my_queue_head := Ptr (if acc then h\<lparr>qh_list := element_of skb hk # qh_list h,
           qh_len := qh_len h + 1\<rparr> else h)\<rparr>"
      have "\<forall>e \<in> set (qh_list (if acc then h\<lparr>qh_list := element_of skb hk # qh_list h, qh_len := qh_len h + 1\<rparr> else h)).
          el_dst_ip e \<in> F \<longrightarrow> el_type e = OTHER"
        using w h(1) that(2) by (auto simp: at_work_def element_of_def)
      then have "at_work F E ?u" by (rule at_work_put [OF w ok]) (simp_all add: h(3))
      moreover have "check_packet hk skb t = Inr (NF_STOLEN, ?u)"
        unfolding eq by (simp only: bnd_apply andthen_apply ret_apply r sum.case prod.case)
      ultimately show ?thesis by blast
    qed
  qed
  show "\<exists>x s'. event_now fuel (Leaving forwarded skb) t = Inr (x, s') \<and> at_work F E s'"
  proof (cases "sk_dst_dev skb = TUNNAME")
    case True
    show ?thesis
    proof (cases forwarded)
      case fw: True
      from tun [OF True, of OTHER] fw show ?thesis by (auto simp: queue_run)
    next
      case own: False
      with assms True have "sk_daddr skb \<notin> F" by (simp add: own_apart_def)
      with tun [OF True, of LOCAL] own w show ?thesis by (auto simp: ip_local_out_def queue_run at_work_def)
    qed
  next
    case False
    with w show ?thesis
      by (auto simp: ip_local_out_def check_packet_def judgment_packet_def queue_run at_work_def)
  qed
qed

lemma runs_from_user:
  assumes "leads_out F E" "1000 < fuel" "nl_type m \<noteq> NLMSG_TYPE_EXIT" "\<forall>dst. finds m dst \<longrightarrow> dst \<in> F"
  shows "runs (at_work F E) (event_now fuel (From_user m))"
proof (rule runsI)
  fix t assume w: "at_work F E t"
  from at_work_queue [OF w] obtain h where h: "my_queue_head t = Ptr h" "head_ok h" by blast
  have send: "\<exists>s'. send_packet fuel dst v t = Inr ((), s') \<and> at_work F E s'" if "v = NF_DROP \<or> v = NF_ACCEPT \<and> dst \<in> F" for dst v
    by (rule send_packet_returns [OF w assms(1) that h]) (use waiting_length [OF h(2), of dst] assms(2) in simp)
  have "at_work F E (t\<lparr>user_pid := p, transmission_flag := True\<rparr>)" for p
    using w by (auto simp: at_work_def kmod_inv_def)
  with send w assms(3,4) show "\<exists>x s'. event_now fuel (From_user m) t = Inr (x, s') \<and> at_work F E s'"
    by (auto simp: recv_msg_def deal_init_msg_def deal_info_msg_def upd_apply ret_apply Let_def finds_def)
qed

text \<open>The packets that a module holds, youngest first.\<close>

definition held_v1 :: "kmod_v1 \<Rightarrow> sk_buff list" where
  "held_v1 s = (case v1_queue s of Ptr h \<Rightarrow> map v1_skb (v1_list h) | _ \<Rightarrow> [])"

definition held :: "kmod \<Rightarrow> sk_buff list" where
  "held t = (case my_queue_head t of Ptr h \<Rightarrow> map el_skb (qh_list h) | _ \<Rightarrow> [])"

lemma same_held: "same_loaded F s t \<Longrightarrow> held_v1 s = held t"
proof -
  have "list_all2 (same_elem F) xs ys \<Longrightarrow> map v1_skb xs = map el_skb ys" for xs ys
    by (induction rule: list_all2_induct) (auto simp: same_elem_def)
  then show "same_loaded F s t \<Longrightarrow> held_v1 s = held t"
    by (auto simp: same_loaded_def same_module_def held_v1_def held_def same_head_def elim!: same_ptr.elims)
qed

lemma runs_events:
  assumes "leads_out F E" "1000 < fuel" "\<forall>e \<in> set es. own_apart F e" "found_in es \<subseteq> F"
    and "\<forall>m. From_user m \<in> set es \<longrightarrow> nl_type m \<noteq> NLMSG_TYPE_EXIT"
  shows "runs (at_work F E) (forM es (event_now fuel))"
proof (rule runs_forM)
  fix e assume e: "e \<in> set es"
  show "runs (at_work F E) (event_now fuel e)"
  proof (cases e)
    case (Leaving forwarded skb)
    with assms(3) e runs_leaving show ?thesis by blast
  next
    case (From_user m)
    with assms(4) e have "\<forall>dst. finds m dst \<longrightarrow> dst \<in> F" by (auto simp: found_in_def)
    with From_user assms(1,2,5) e runs_from_user show ?thesis by blast
  qed
qed

lemma same_at_work: "same_loaded F s t \<Longrightarrow> kmod_inv t \<Longrightarrow> socket_of_netlink t \<Longrightarrow> at_work F (kenv t) t"
proof -
  assume st: "same_loaded F s t" and inv: "kmod_inv t" "socket_of_netlink t"
  have others: "list_all2 (same_elem F) xs ys \<Longrightarrow> \<forall>e \<in> set ys. el_dst_ip e \<in> F \<longrightarrow> el_type e = OTHER" for xs ys
    by (induction rule: list_all2_induct) (auto simp: same_elem_def)
  have "\<forall>e \<in> set (qh_list h). el_dst_ip e \<in> F \<longrightarrow> el_type e = OTHER" if "my_queue_head t = Ptr h" for h
    using st that others by (cases "v1_queue s") (auto simp: same_loaded_def same_module_def same_head_def)
  with inv show "at_work F (kenv t) t" by (simp add: at_work_def)
qed

section \<open>Properties\<close>

text \<open>
  C30. The two versions of the kernel module do the same to forwarded packets, and to own packets as long as none
  of them is released. In a sequence of packets that leave the node and messages of the library, other than that
  it leaves, which version 1.0 does not know, both versions return, ask user space for the same
  routes, free and send the same packets in the same order with the same routes, and hold the same packets; memory for the queue
  and for requests may run out at any time. The destinations for which a route is found in the sequence
  (\<open>found_in\<close>) are destinations of forwarded packets only (\<open>own_apart\<close>, and \<open>same_elem\<close> for the packets held at
  the start), and the kernel has a route out of \<open>mytun\<close> for each packet forwarded to them (\<open>leads_out\<close>, a part of \<open>same_loaded\<close>).
\<close>

theorem versions_treat_packets_alike:
  assumes "same_loaded (found_in es) s t" "kmod_inv t" "socket_of_netlink t" "1000 < fuel"
    and "\<forall>e \<in> set es. own_apart (found_in es) e"
    and "\<forall>m. From_user m \<in> set es \<longrightarrow> nl_type m \<noteq> NLMSG_TYPE_EXIT"
  shows "\<exists>s' t'. forM es (event_v1 fuel) s = Inr ((), s') \<and> forM es (event_now fuel) t = Inr ((), t')
    \<and> map seen_of (v1_outs s') = map seen_of (kouts t') \<and> held_v1 s' = held t'"
proof -
  let ?F = "found_in es"
  have out: "leads_out ?F (kenv t)" using assms(1) by (simp add: same_loaded_def same_module_def)
  from runsD [OF runs_events [OF out assms(4,5) subset_refl assms(6)] same_at_work [OF assms(1-3)]] obtain t' where
    t': "forM es (event_now fuel) t = Inr ((), t')" by auto
  from sim_apply [OF sim_events [OF assms(5,6) subset_refl] assms(1), of fuel] t' obtain s' where
    s': "forM es (event_v1 fuel) s = Inr ((), s')" "same_loaded ?F s' t'"
    by (auto elim: rel_sum.cases)
  have "map seen_of (v1_outs s') = map seen_of (kouts t')" using s'(2) by (simp add: same_loaded_def same_module_def)
  with s' t' same_held [OF s'(2)] show ?thesis by blast
qed

definition connected_v1 :: kmod_v1 where
  "connected_v1 = \<lparr>v1_env = quiet_kernel, v1_ticks = 4, v1_queue = Ptr \<lparr>v1_len = 0, v1_maxlen = 1000, v1_list = []\<rparr>,
     v1_flag = True, v1_pid = 77, v1_socket = True, v1_hook = True, v1_handler = True, v1_elements = 0, v1_outs = []\<rparr>"

lemma same_connected: "same_loaded F connected_v1 connected" "kmod_inv connected"
  by (auto simp: same_loaded_def same_module_def connected_v1_def same_head_def kernel_fields leads_out_def
      kmod_inv_def head_ok_def)

theorem versions_treat_packets_alike_witness:
  "let es = [Leaving True (tun_packet 1 9), Leaving False (tun_packet 2 5), From_user (reply_message 9 IP_FOUND)] in
   \<exists>s' t'. forM es (event_v1 1001) connected_v1 = Inr ((), s') \<and> forM es (event_now 1001) connected = Inr ((), t')
    \<and> map seen_of (v1_outs s') = map seen_of (kouts t') \<and> held_v1 s' = held t'"
proof -
  let ?es = "[Leaving True (tun_packet 1 9), Leaving False (tun_packet 2 5), From_user (reply_message 9 IP_FOUND)]"
  have c: "socket_of_netlink connected" by (simp add: kernel_fields)
  have "found_in ?es = {9}" by (auto simp: found_in_def finds_def)
  then have o: "\<forall>e \<in> set ?es. own_apart (found_in ?es) e" by (simp add: own_apart_def kernel_fields)
  have k: "\<forall>m. From_user m \<in> set ?es \<longrightarrow> nl_type m \<noteq> NLMSG_TYPE_EXIT" by simp
  show ?thesis
    unfolding Let_def by (rule versions_treat_packets_alike [OF same_connected c _ o k]) simp
qed

text \<open>
  What differs: version 1.0 loses the memory of an element for each packet that it drops because no
  route was found.
\<close>

lemma drop_keeps_elements: "keeps (\<lambda>s. v1_elements s = c) (send_packet_v1 n dst NF_DROP)"
proof (induction n)
  case (Suc n)
  have d: "keeps (\<lambda>s. v1_elements s = c) (packet_dequeue_v1 cmp dst)" for cmp dst
    by (auto intro!: keepsI simp: packet_dequeue_v1_def the_queue_v1_def put_queue_v1_def sm_simps
        split: kptr.splits option.splits prod.splits)
  have e: "keeps (\<lambda>s. v1_elements s = c) (nf_drop x)" for x
    by (auto intro!: keepsI simp: nf_drop_def emit_v1_def upd_apply)
  show ?case
    unfolding send_packet_v1_Suc release_v1_def by (intro keeps_intros d) (simp_all add: e Suc)
qed (simp add: keeps_raise)

theorem dropped_elements_are_lost:
  assumes "same_loaded F s t" "kmod_inv t" "socket_of_netlink t" "1000 < fuel"
    and "nl_type m = NLMSG_TYPE_INFO" "rr_result (rt_result_at (nl_data m)) \<noteq> IP_FOUND"
  shows "\<exists>s'. recv_msg_v1 fuel m s = Inr ((), s') \<and> v1_elements s' = v1_elements s
    \<and> held_v1 s' = filter (\<lambda>p. sk_daddr p \<noteq> rr_now_ip (rt_result_at (nl_data m))) (held_v1 s)"
proof -
  let ?dst = "rr_now_ip (rt_result_at (nl_data m))"
  from assms(2,3) obtain h where h: "my_queue_head t = Ptr h" "head_ok h" by (auto simp: kmod_inv_def)
  from route_missing_run [OF assms(2) h(1) assms(4-6) refl] obtain k where
    t': "recv_msg fuel m t = Inr ((), t\<lparr>my_queue_head := Ptr (without ?dst h),
      kouts := kouts t @ map (\<lambda>e. Kfree_skb (el_skb e)) (waiting ?dst h), kticks := k\<rparr>)" by blast
  let ?t' = "t\<lparr>my_queue_head := Ptr (without ?dst h),
      kouts := kouts t @ map (\<lambda>e. Kfree_skb (el_skb e)) (waiting ?dst h), kticks := k\<rparr>"
  have "nl_type m \<noteq> NLMSG_TYPE_EXIT" "\<forall>dst. finds m dst \<longrightarrow> dst \<in> F" using assms(5,6) by (auto simp: finds_def)
  from sim_apply [OF sim_recv_msg [OF this] assms(1), of fuel] t' obtain s' where
    s': "recv_msg_v1 fuel m s = Inr ((), s')" "same_loaded F s' ?t'"
    by (auto elim: rel_sum.cases)
  have "v1_elements s' = v1_elements s"
    using keepsD [OF drop_keeps_elements refl, of fuel ?dst s] s'(1) assms(5,6)
    by (simp add: recv_msg_v1_def deal_info_msg_v1_def Let_def)
  moreover have "el_dst_ip e = sk_daddr (el_skb e)" if "e \<in> set (qh_list h)" for e
    using that h(2) unfolding head_ok_def elem_ok_def by (metis element_of_def packet_queue_element.select_convs(3))
  then have "held ?t' = filter (\<lambda>p. sk_daddr p \<noteq> ?dst) (held t)"
    using h(1) by (auto simp: held_def without_def others_def rev_filter filter_map o_def cong: filter_cong)
  ultimately show ?thesis using s' same_held [OF s'(2)] same_held [OF assms(1)] by auto
qed

theorem dropped_elements_are_lost_witness:
  "\<exists>s'. recv_msg_v1 1001 (reply_message 9 IP_NOFOUND) connected_v1 = Inr ((), s') \<and> v1_elements s' = 0"
  using dropped_elements_are_lost [OF same_connected, of 1001 "reply_message 9 IP_NOFOUND"]
  by (auto simp: kernel_fields connected_v1_def)

text \<open>
  And own packets: \<open>ip_route_input\<close> refuses a packet whose source is an address of the node itself, and leaves its route
  as it was. Version 1.0 then never comes back from the answer that a route was found, as the packet runs into its hook again and again;
  the current version asks \<open>ip_route_output\<close>, and sends the packet.
\<close>

definition refuses_own :: "kenv \<Rightarrow> ip \<Rightarrow> string \<Rightarrow> bool" where
  "refuses_own E dst dev \<longleftrightarrow> (\<forall>k src tos. k_route_input E k dst src tos = None \<and> k_route_output E k dst src tos = Some dev)"

lemma take_first_found:
  assumes "\<exists>x \<in> set xs. p x"
  shows "\<exists>x l. take_first p xs = Some (x, l) \<and> p x \<and> set xs = insert x (set l)"
proof -
  from assms have "take_first p xs \<noteq> None" by (auto simp: take_first_None)
  then obtain x l where t: "take_first p xs = Some (x, l)" by auto
  with take_first_Some [OF t] show ?thesis by auto
qed

lemma send_packet_v1_loops:
  "v1_hook s \<Longrightarrow> v1_handler s \<Longrightarrow> v1_flag s \<Longrightarrow> v1_socket s \<Longrightarrow> \<forall>k. k_alloc (v1_env s) k \<Longrightarrow> refuses_own (v1_env s) dst dev \<Longrightarrow>
   v1_queue s = Ptr h \<Longrightarrow> v1_len h \<le> v1_maxlen h \<Longrightarrow>
   \<forall>e \<in> set (v1_list h). v1_dst_ip e = sk_daddr (v1_skb e) \<and> sk_dst_dev (v1_skb e) = TUNNAME \<Longrightarrow>
   \<exists>e \<in> set (v1_list h). v1_dst_ip e = dst \<Longrightarrow> send_packet_v1 n dst NF_ACCEPT s = Inl OutOfFuel"
proof (induction n arbitrary: s h)
  case (Suc n)
  note p = Suc.prems
  have "\<exists>e \<in> set (rev (v1_list h)). judge_ip_v1 e dst \<noteq> 0" using p(10) by (simp add: judge_ip_v1_def)
  from take_first_found [OF this] obtain e l where
    e: "take_first (\<lambda>e. judge_ip_v1 e dst \<noteq> 0) (rev (v1_list h)) = Some (e, l)" "v1_dst_ip e = dst" "set (v1_list h) = insert e (set l)"
    by (auto simp: judge_ip_v1_def split: if_splits)
  let ?h = "h\<lparr>v1_list := rev l, v1_len := v1_len h - 1\<rparr>"
  have skb: "sk_daddr (v1_skb e) = dst" "sk_dst_dev (v1_skb e) = TUNNAME" using p(9) e(2,3) by auto
  let ?again = "?h\<lparr>v1_list := element_v1 \<lparr>qe_skb = v1_skb e\<rparr> # rev l, v1_len := v1_len h\<rparr>"
  have "\<exists>u. release_v1 NF_ACCEPT e (s\<lparr>v1_queue := Ptr ?h\<rparr>) = Inr ((), u) \<and> v1_queue u = Ptr ?again
      \<and> v1_hook u \<and> v1_handler u \<and> v1_flag u \<and> v1_socket u \<and> v1_env u = v1_env s"
    using p(1-6,8) skb
    by (cases "list_ex (\<lambda>e. v1_dst_ip e = dst) l")
      (simp_all add: release_v1_def reroute_v1_def leave_v1_def check_packet_v1_def judgment_packet_v1_def receive_packet_v1_def
        pending_ip_v1_def the_queue_v1_def transmit_rtinfo_v1_def send_rtinfo_v1_def ask_v1_def emit_v1_def packet_enqueue_v1_def
        put_queue_v1_def count_element_def refuses_own_def sm_simps Let_def)
  then obtain u where u: "release_v1 NF_ACCEPT e (s\<lparr>v1_queue := Ptr ?h\<rparr>) = Inr ((), u)" "v1_queue u = Ptr ?again"
      "v1_hook u" "v1_handler u" "v1_flag u" "v1_socket u" "v1_env u = v1_env s" by blast
  have again: "v1_skb (element_v1 \<lparr>qe_skb = v1_skb e\<rparr>) = v1_skb e" "v1_dst_ip (element_v1 \<lparr>qe_skb = v1_skb e\<rparr>) = dst"
    using skb by (simp_all add: element_v1_def v1_skb_def Let_def)
  have "send_packet_v1 n dst NF_ACCEPT u = Inl OutOfFuel"
    by (rule Suc.IH [OF u(3-6) _ _ u(2)]) (use p(5,6,8,9) u(7) e(3) skb again in simp_all)
  moreover have "packet_dequeue_v1 (Some judge_ip_v1) dst s = Inr (Some e, s\<lparr>v1_queue := Ptr ?h\<rparr>)"
    using p(7) e(1) by (simp add: packet_dequeue_v1_def the_queue_v1_def put_queue_v1_def sm_simps)
  ultimately show ?case unfolding send_packet_v1_Suc using u(1) by (simp add: bnd_apply andthen_apply)
qed (simp add: raise_apply)

theorem version_one_never_releases_own:
  assumes "same_loaded {} s t" "kmod_inv t" "transmission_flag t" "my_queue_head t = Ptr h" "\<forall>k. k_alloc (kenv t) k"
    and "waiting dst h \<noteq> []" "\<forall>e \<in> set (waiting dst h). el_type e = LOCAL"
    and "refuses_own (kenv t) dst dev" "dev \<noteq> TUNNAME" "finds m dst" "1000 < fuel"
  shows "recv_msg_v1 fuel m s = Inl OutOfFuel
    \<and> (\<exists>t'. recv_msg fuel m t = Inr ((), t') \<and> kouts t' = kouts t @ map (\<lambda>e. Xmit ((el_skb e)\<lparr>sk_dst_dev := dev\<rparr>)) (waiting dst h))"
proof
  from kmod_inv_queue [OF assms(2,3)] assms(4) have h: "head_ok h" "socket_of_netlink t" by auto
  from assms(1,4) obtain h1 where h1: "v1_queue s = Ptr h1" "same_head {} h1 h"
    by (cases "v1_queue s") (auto simp: same_loaded_def same_module_def)
  have st: "v1_hook s" "v1_handler s" "v1_flag s" "v1_socket s" "v1_env s = kenv t"
    using assms(1,3) h(2) by (auto simp: same_loaded_def same_module_def)
  have skbs: "map v1_skb (v1_list h1) = map el_skb (qh_list h)" "map v1_dst_ip (v1_list h1) = map el_dst_ip (qh_list h)"
  proof -
    have "list_all2 (same_elem {}) xs ys \<Longrightarrow> map v1_skb xs = map el_skb ys \<and> map v1_dst_ip xs = map el_dst_ip ys" for xs ys
      by (induction rule: list_all2_induct) (auto simp: same_elem_def)
    then show "map v1_skb (v1_list h1) = map el_skb (qh_list h)" "map v1_dst_ip (v1_list h1) = map el_dst_ip (qh_list h)"
      using h1(2) by (auto simp: same_head_def)
  qed
  have same: "v1_dst_ip e = sk_daddr (v1_skb e) \<and> sk_dst_dev (v1_skb e) = TUNNAME" if "e \<in> set (v1_list h1)" for e
  proof -
    have all: "list_all2 (same_elem {}) (v1_list h1) (qh_list h)" using h1(2) by (simp add: same_head_def)
    from that obtain i where i: "i < length (v1_list h1)" "v1_list h1 ! i = e" by (auto simp: in_set_conv_nth)
    with all have "qh_list h ! i \<in> set (qh_list h)" "same_elem {} e (qh_list h ! i)"
      by (auto simp: list_all2_conv_all_nth)
    with h(1) show ?thesis by (auto simp: same_elem_def head_ok_def elem_ok_def)
  qed
  have "dst \<in> set (map v1_dst_ip (v1_list h1))" using assms(6) by (auto simp: skbs(2) waiting_def filter_empty_conv)
  then have "\<exists>e \<in> set (v1_list h1). v1_dst_ip e = dst" by auto
  then have "send_packet_v1 fuel dst NF_ACCEPT s = Inl OutOfFuel"
    using st assms(5,8) h1 h(1) same
    by (intro send_packet_v1_loops [where h = h1 and dev = dev]) (auto simp: same_head_def head_ok_def)
  with assms(10) show "recv_msg_v1 fuel m s = Inl OutOfFuel"
    by (simp add: finds_def recv_msg_v1_def deal_info_msg_v1_def)
  let ?out = "\<lambda>e. Xmit ((el_skb e)\<lparr>sk_dst_dev := dev\<rparr>)"
  have one: "\<exists>k. release NF_ACCEPT e u = Inr ((), u\<lparr>kouts := kouts u @ [?out e], kticks := k\<rparr>)"
    if "kenv u = kenv t" "elem_ok e" "el_dst_ip e = dst" "el_type e = LOCAL" for u e
  proof -
    have "sk_daddr (el_skb e) = dst" using that(2,3) unfolding elem_ok_def by (metis element_of_def packet_queue_element.select_convs(3))
    with assms(8,9) that(1,4) show ?thesis
      by (intro exI [of _ "Suc (kticks u)"])
        (simp add: release_def reroute_def ip_local_out_def check_packet_def judgment_packet_def refuses_own_def queue_run)
  qed
  have "\<exists>k. send_packet fuel dst NF_ACCEPT t = Inr ((), t\<lparr>my_queue_head := Ptr (without dst h),
      kouts := kouts t @ map ?out (waiting dst h), kticks := k\<rparr>)"
    by (rule send_packet_releases_those [where Q = "\<lambda>e. el_type e = LOCAL" and E = "kenv t", OF one])
      (use assms(4,7,11) h(1) waiting_length [OF h(1), of dst] in \<open>simp_all add: head_ok_def\<close>)
  with assms(10) show "\<exists>t'. recv_msg fuel m t = Inr ((), t') \<and> kouts t' = kouts t @ map ?out (waiting dst h)"
    by (auto simp: finds_def recv_msg_def deal_info_msg_def)
qed

theorem version_one_never_releases_own_witness:
  "let E = quiet_kernel\<lparr>k_route_input := \<lambda>_ _ _ _. None\<rparr>; e = element_of (tun_packet 2 5) LOCAL in
   recv_msg_v1 1001 (reply_message 5 IP_FOUND) (connected_v1\<lparr>v1_env := E, v1_queue := Ptr \<lparr>v1_len = 1, v1_maxlen = 1000,
       v1_list = [element_v1 \<lparr>qe_skb = tun_packet 2 5\<rparr>]\<rparr>\<rparr>) = Inl OutOfFuel
   \<and> (\<exists>t'. recv_msg 1001 (reply_message 5 IP_FOUND) (connected\<lparr>kenv := E, my_queue_head := Ptr \<lparr>qh_len = 1, qh_maxlen = 1000, qh_list = [e]\<rparr>\<rparr>)
       = Inr ((), t') \<and> kouts t' = [Xmit ((tun_packet 2 5)\<lparr>sk_dst_dev := ''wlan0''\<rparr>)])"
proof -
  let ?E = "quiet_kernel\<lparr>k_route_input := \<lambda>_ _ _ _. None\<rparr>" and ?e = "element_of (tun_packet 2 5) LOCAL"
  let ?h = "\<lparr>qh_len = 1, qh_maxlen = 1000, qh_list = [?e]\<rparr>"
  let ?t = "connected\<lparr>kenv := ?E, my_queue_head := Ptr ?h\<rparr>"
  let ?s = "connected_v1\<lparr>v1_env := ?E, v1_queue := Ptr \<lparr>v1_len = 1, v1_maxlen = 1000, v1_list = [element_v1 \<lparr>qe_skb = tun_packet 2 5\<rparr>]\<rparr>\<rparr>"
  have a: "same_loaded {} ?s ?t" "kmod_inv ?t" "transmission_flag ?t" "my_queue_head ?t = Ptr ?h" "\<forall>k. k_alloc (kenv ?t) k"
      "refuses_own (kenv ?t) 5 ''wlan0''" "waiting 5 ?h = [?e]" "el_type ?e = LOCAL" "el_skb ?e = tun_packet 2 5" "kouts ?t = []"
    by (auto simp: same_loaded_def same_module_def same_head_def same_elem_def connected_v1_def element_v1_def v1_skb_def kernel_fields
        leads_out_def kmod_inv_def head_ok_def elem_ok_def refuses_own_def waiting_def Let_def)
  have "finds (reply_message 5 IP_FOUND) 5" by (simp add: finds_def)
  from version_one_never_releases_own [OF a(1-5) _ _ a(6) _ this, of 1001] a(7-10) show ?thesis by (simp add: Let_def)
qed

text \<open>
  The variable that is never set: with anything but 0 in it, loading fails after the hook has been
  registered, and nothing takes the hook back.
\<close>

theorem junk_prevents_loading:
  assumes "ret_forward \<noteq> 0" "k_register (v1_env s) (v1_ticks s) = 0"
  shows "\<exists>s'. init_mymodule_v1 ret_forward s = Inr (1, s') \<and> v1_hook s' \<and> v1_queue s' = v1_queue s"
  using assms by (simp add: init_mymodule_v1_def init_judgment_hook_v1_def ask_v1_def sm_simps)

theorem junk_prevents_loading_witness:
  "\<exists>s'. init_mymodule_v1 5 (connected_v1\<lparr>v1_hook := False, v1_queue := Null\<rparr>) = Inr (1, s') \<and> v1_hook s' \<and> v1_queue s' = Null"
  using junk_prevents_loading [of 5 "connected_v1\<lparr>v1_hook := False, v1_queue := Null\<rparr>"]
  by (simp add: connected_v1_def quiet_kernel_def)

end
