(* ===== verification/Router_Demo.thy ===== *)
theory Router_Demo
  imports Platform
begin

text \<open>
  The demonstration client of the agent (\<open>LA_Client_router_demo/main.cpp\<close>): a routing daemon that
  finds no route to anything. It greets the agent with a text, and answers every request.
\<close>

section \<open>The client\<close>

text \<open>The greeting, sent without its terminating zero.\<close>

definition demo_greeting :: "u8 list" where
  "demo_greeting = string_bytes (''hello engine'' @ [CHR 0x0A])"

text \<open>
  One round of the loop: what \<open>recv\<close> delivers into the zeroed buffer, its result unseen, is read
  as a request; the source address and the protocol of the answer are never set.
\<close>

definition demo_round :: "ip \<Rightarrow> u8 \<Rightarrow> u8 list \<Rightarrow> u8 list" where
  "demo_round junk_src junk_protocol received =
     (let now_message = LAMessage_parse_stream (write_buf (take 1024 received) (\<lambda>_. 0))
      in LAMessage_generate_stream \<lparr>la_cmd = LA_ODS_REPLY, la_dst_address = la_dst_address now_message,
           la_src_address = junk_src, la_protocol = junk_protocol, la_result = IP_NOFOUND\<rparr>)"

section \<open>With the agent and the kernel module\<close>

text \<open>The agent takes no notice of the greeting, whose first four bytes are no command.\<close>

lemma greeting_command: "la_cmd (LAMessage_parse_stream (write_buf (take 1023 demo_greeting) b)) \<noteq> LA_ODS_REPLY"
  by (simp add: demo_greeting_def string_bytes_def LAMessage_parse_stream_def read32_def write_buf_def)

lemma greeting_ignored:
  assumes "memory (aenv a)"
  shows "\<exists>a'. la_serv_handle_message fd demo_greeting a = Inr (0, a') \<and> tables_of a' = tables_of a \<and> aouts a' = aouts a"
  using client_data_run [OF assms, of demo_greeting fd] greeting_command
  by (simp add: Let_def demo_greeting_def string_bytes_def)

text \<open>It answers the first request that \<open>recv\<close> delivers; what follows in the same bytes is lost.\<close>

lemma write_buf_prefix: "write_buf (xs @ ys) b = write_buf xs (write_buf (xs @ ys) b)"
  by (rule ext) (simp add: write_buf_def nth_append)

lemma demo_answers:
  "demo_round src protocol (LAMessage_generate_stream r @ rest) =
     LAMessage_generate_stream ((daemon_reply (la_dst_address r) IP_NOFOUND)\<lparr>la_src_address := src, la_protocol := protocol\<rparr>)"
proof -
  have "take 1024 (LAMessage_generate_stream r @ rest) = LAMessage_generate_stream r @ take 1007 rest"
    by (simp add: length_LAMessage)
  then have "LAMessage_parse_stream (write_buf (take 1024 (LAMessage_generate_stream r @ rest)) (\<lambda>_. 0)) = r"
    using lamsg.dec_enc [of r, OF TrueI] write_buf_prefix [of "LAMessage_generate_stream r" "take 1007 rest" "\<lambda>_. 0"] by metis
  then show ?thesis by (simp add: demo_round_def)
qed

text \<open>Whatever the fields that are not set hold, the agent makes the same reply to the kernel of it.\<close>

lemma agent_replies_junk:
  assumes "memory (aenv a)"
  shows "\<exists>a'. la_serv_handle_message fd (LAMessage_generate_stream
        ((daemon_reply dst v)\<lparr>la_src_address := src, la_protocol := protocol\<rparr>)) a = Inr (0, a')
    \<and> tables_of a' = tables_of a \<and> aouts a' = aouts a @ [Netlink_send (nlfd a) (kernel_reply a dst v)]"
  using client_data_run [OF assms stream_nonempty, of fd "(daemon_reply dst v)\<lparr>la_src_address := src, la_protocol := protocol\<rparr>"]
  by (simp add: stream_read [OF stream_nonempty] Let_def kernel_reply_def)

section \<open>Properties\<close>

text \<open>
  With the demonstration client as its only daemon the platform refuses every packet: the request
  of a packet that the kernel module holds goes through the agent to the client, the answer back,
  and the packet is freed; the queue is then what it was.
\<close>

theorem demo_router_frees_packets:
  assumes "kmod_inv k" "transmission_flag k" "my_queue_head k = Ptr h" "\<forall>n. k_alloc (kenv k) n"
    and "qh_len h < MAX_PACKET_NUMBER" "waiting (sk_daddr skb) h = []"
    and "sk_dst_dev skb = TUNNAME" "type = LOCAL \<or> type = OTHER"
    and "memory (aenv a)" "daemons a = c # cs"
  shows "\<exists>k1 m a1 req a2 ans k2.
      check_packet type skb k = Inr (NF_STOLEN, k1) \<and> kouts k1 = kouts k @ [Netlink_unicast (user_pid k) m]
    \<and> la_ods_message_handle (Some m) a = Inr ((), a1) \<and> aouts a1 = aouts a @ [Client_send (ls_sock_fd c) req]
    \<and> la_serv_handle_message (ls_sock_fd c) (demo_round src protocol req) a1 = Inr (0, a2)
    \<and> aouts a2 = aouts a1 @ [Netlink_send (nlfd a) ans]
    \<and> recv_msg 1001 ans k1 = Inr ((), k2) \<and> kouts k2 = kouts k1 @ [Kfree_skb skb] \<and> my_queue_head k2 = Ptr h"
proof -
  let ?dst = "sk_daddr skb"
  from packet_held [OF assms(1-8)] obtain t junk pad k1 where
    k1: "check_packet type skb k = Inr (NF_STOLEN, k1)"
      "kouts k1 = kouts k @ [Netlink_unicast (user_pid k) (request_of skb type junk pad)]"
      "my_queue_head k1 = Ptr (held skb type h)"
    by auto
  from runsD [OF runs_check_packet assms(1), of type skb] k1(1) have inv: "kmod_inv k1" by simp
  from agent_forwards [OF assms(9,10), of skb type junk pad] obtain a1 where
    a1: "la_ods_message_handle (Some (request_of skb type junk pad)) a = Inr ((), a1)" "tables_of a1 = tables_of a"
      "aouts a1 = aouts a @ [Client_send (ls_sock_fd c) (LAMessage_generate_stream (daemon_request skb))]"
    by blast
  from a1(2) assms(9) have mem: "memory (aenv a1)" "nlfd a1 = nlfd a" by (simp_all add: tables_of_def)
  have req: "demo_round src protocol (LAMessage_generate_stream (daemon_request skb)) =
      LAMessage_generate_stream ((daemon_reply ?dst IP_NOFOUND)\<lparr>la_src_address := src, la_protocol := protocol\<rparr>)"
    using demo_answers [of src protocol "daemon_request skb" "[]"] by simp
  from agent_replies_junk [OF mem(1), where fd = "ls_sock_fd c" and dst = ?dst and v = IP_NOFOUND and src = src and protocol = protocol] obtain a2 where
    a2: "la_serv_handle_message (ls_sock_fd c) (demo_round src protocol (LAMessage_generate_stream (daemon_request skb))) a1 = Inr (0, a2)"
      "aouts a2 = aouts a1 @ [Netlink_send (nlfd a) (kernel_reply a1 ?dst IP_NOFOUND)]"
    by (auto simp: mem(2) req)
  from route_missing_run [OF inv k1(3), of 1001 "kernel_reply a1 ?dst IP_NOFOUND" ?dst]
  obtain k2 where "recv_msg 1001 (kernel_reply a1 ?dst IP_NOFOUND) k1 = Inr ((), k2)"
    "kouts k2 = kouts k1 @ [Kfree_skb skb]" "my_queue_head k2 = Ptr h"
    by (auto simp: waiting_held [OF assms(6)])
  with k1(1,2) a1(1,3) a2 show ?thesis by blast
qed

theorem demo_router_frees_packets_witness:
  "\<exists>k1 m a1 req a2 ans k2. check_packet LOCAL (tun_packet 3 2) holding = Inr (NF_STOLEN, k1)
    \<and> la_ods_message_handle (Some m) one_daemon = Inr ((), a1) \<and> aouts a1 = [Client_send 7 req]
    \<and> la_serv_handle_message 7 (demo_round 99 0 req) a1 = Inr (0, a2) \<and> recv_msg 1001 ans k1 = Inr ((), k2)
    \<and> kouts k2 = kouts k1 @ [Kfree_skb (tun_packet 3 2)] \<and> my_queue_head k2 = Ptr two_held"
proof -
  have k: "kmod_inv holding" "transmission_flag holding" "my_queue_head holding = Ptr two_held"
      "\<forall>n. k_alloc (kenv holding) n" "qh_len two_held < MAX_PACKET_NUMBER"
      "waiting (sk_daddr (tun_packet 3 2)) two_held = []" "sk_dst_dev (tun_packet 3 2) = TUNNAME"
    by (rule holding_inv(1)) (simp_all add: kernel_fields waiting_def)
  have a: "memory (aenv one_daemon)" "daemons one_daemon = [\<lparr>ls_sock_fd = 7, ls_type = 0\<rparr>]" "aouts one_daemon = []"
    by (simp_all add: agent_fields)
  from demo_router_frees_packets [OF k _ a(1,2), of LOCAL 99 0] show ?thesis unfolding a(3) by (simp; blast)
qed

end
