(* ===== verification/Nd_Hello.thy ===== *)
theory Nd_Hello
  imports Messages
begin

text \<open>
  The hello messages of the neighbour discovery (\<open>lib/ND\<close>): the tables of an interface
  (\<open>nd_interface.h\<close>, \<open>nd_one_hop_neighbor.h\<close>, \<open>nd_two_hop_neighbor.h\<close>), the bytes that
  \<open>generate_and_send_hello_message\<close> puts together and the reader in \<open>handle_hello_message\<close>.
\<close>

section \<open>The tables of an interface\<close>

abbreviation (input) NO_ENTRY :: u8 where "NO_ENTRY \<equiv> 0"
abbreviation (input) HEARD :: u8 where "HEARD \<equiv> 1"
abbreviation (input) SYMMETRIC :: u8 where "SYMMETRIC \<equiv> 2"
abbreviation (input) MESSAGE_BUFFER_SIZE :: nat where "MESSAGE_BUFFER_SIZE \<equiv> 32768"
abbreviation (input) LIVE_TIME :: u32 where "LIVE_TIME \<equiv> 6000"
abbreviation (input) IPV4_ADDR_LEN :: u8 where "IPV4_ADDR_LEN \<equiv> 4"

record TwoHopEntry =
  th_ip_address :: ip
  th_gateway_address :: ip
  th_status_value :: u8

record OneHopEntry =
  oh_ip_address :: ip
  oh_quality :: int
  oh_local_if_set :: "ip list"
  oh_two_hop_neighbor_set :: "TwoHopEntry list"
  oh_status :: u8
  oh_live_time :: u32

record InterfaceEntry =
  ie_name :: string
  ie_if_index :: int
  ie_listen_port :: int
  ie_interface_address :: ip
  ie_fd :: int
  ie_hello_interval :: u64
  ie_one_hop_neighbor_set :: "OneHopEntry list"

section \<open>The bytes of a message\<close>

text \<open>
  Four bytes of header, the addresses of all interfaces, the neighbours of this interface and
  their states, and the live time. The numbers of interfaces and neighbours are kept in one byte
  each; the lists are written in full.
\<close>

definition hello_bytes :: "ip list \<Rightarrow> OneHopEntry list \<Rightarrow> u8 list" where
  "hello_bytes addrs neighbors =
     [IPV4_ADDR_LEN, of_nat (length addrs), of_nat (length neighbors), 1]
     @ concat (map le32 addrs)
     @ concat (map (\<lambda>e. le32 (oh_ip_address e)) neighbors)
     @ map oh_status neighbors
     @ le32 LIVE_TIME"

section \<open>The reader\<close>

text \<open>What the reader takes from a message.\<close>

record hello =
  he_local_if_set :: "ip list"
  he_neighbor_set :: "ip list"
  he_status_set :: "u8 list"
  he_live_time :: u32

text \<open>\<open>memcpy\<close> of \<open>n\<close> bytes at \<open>pos\<close> of the message buffer, which lies on the heap.\<close>

definition nd_copy :: "buffer \<Rightarrow> nat \<Rightarrow> nat \<Rightarrow> fault + u8 list" where
  "nd_copy b pos n = (if pos + n \<le> MESSAGE_BUFFER_SIZE then Inr (map b [pos..<pos + n]) else Inl OverRead)"

text \<open>
  One address: \<open>addr_len\<close> bytes, as the message says, into a variable of four; the bytes that
  are not written are what the variable held.
\<close>

definition read_address :: "u8 list \<Rightarrow> nat \<Rightarrow> buffer \<Rightarrow> nat \<Rightarrow> fault + ip" where
  "read_address junk addr_len b pos =
     (case nd_copy b pos addr_len of
        Inl f \<Rightarrow> Inl f
      | Inr bs \<Rightarrow>
          if addr_len > 4 then Inl (StackOverflow addr_len 4)
          else Inr (read32 (write_buf bs (\<lambda>i. junk ! i)) 0))"

fun read_addresses :: "u8 list \<Rightarrow> nat \<Rightarrow> buffer \<Rightarrow> nat \<Rightarrow> nat \<Rightarrow> fault + ip list" where
  "read_addresses junk addr_len b pos 0 = Inr []"
| "read_addresses junk addr_len b pos (Suc n) =
     (case read_address junk addr_len b pos of
        Inl f \<Rightarrow> Inl f
      | Inr a \<Rightarrow>
          (case read_addresses junk addr_len b (pos + addr_len) n of Inl f \<Rightarrow> Inl f | Inr as \<Rightarrow> Inr (a # as)))"

definition parse_hello :: "u8 list \<Rightarrow> buffer \<Rightarrow> fault + hello" where
  "parse_hello junk b =
     (let addr_len = unat (b 0); local_if_number = unat (b 1); neighbor_number = unat (b 2);
          pos1 = 4 + local_if_number * addr_len;
          pos2 = pos1 + neighbor_number * addr_len;
          pos3 = pos2 + neighbor_number in
      case read_addresses junk addr_len b 4 local_if_number of
        Inl f \<Rightarrow> Inl f
      | Inr ifs \<Rightarrow>
          (case read_addresses junk addr_len b pos1 neighbor_number of
             Inl f \<Rightarrow> Inl f
           | Inr neighbors \<Rightarrow>
               (case nd_copy b pos2 neighbor_number of
                  Inl f \<Rightarrow> Inl f
                | Inr states \<Rightarrow>
                    (case nd_copy b pos3 4 of
                       Inl f \<Rightarrow> Inl f
                     | Inr _ \<Rightarrow>
                         Inr \<lparr>he_local_if_set = ifs, he_neighbor_set = neighbors, he_status_set = states,
                              he_live_time = read32 b pos3\<rparr>))))"

section \<open>Reading what was written\<close>

lemma length_concat_le32 [simp]: "length (concat (map (\<lambda>x. le32 (f x)) xs)) = 4 * length xs"
  by (induction xs) simp_all

lemma length_hello_bytes: "length (hello_bytes addrs ns) = 8 + 4 * length addrs + 5 * length ns"
  using length_concat_le32 [of "\<lambda>x. x" addrs] by (simp add: hello_bytes_def)

lemma read32_self: "read32 (write_buf (le32 v) b) 0 = v"
  using read32_append [of "[]" 0 v "[]"] by simp

lemma read_addresses_run:
  "pos = length p \<Longrightarrow> pos + 4 * length xs \<le> MESSAGE_BUFFER_SIZE \<Longrightarrow>
   read_addresses junk 4 (write_buf (p @ concat (map (\<lambda>x. le32 (f x)) xs) @ r) b) pos (length xs) = Inr (map f xs)"
proof (induction xs arbitrary: p pos)
  case (Cons x xs)
  let ?b = "write_buf (p @ concat (map (\<lambda>x. le32 (f x)) (x # xs)) @ r) b"
  have "map ?b [pos..<pos + 4] = le32 (f x)"
    using map_write_buf_append [of p pos "le32 (f x)" 4 "concat (map (\<lambda>x. le32 (f x)) xs) @ r" b] Cons.prems(1) by simp
  with Cons.prems have a: "read_address junk 4 ?b pos = Inr (f x)"
    by (simp add: read_address_def nd_copy_def read32_self)
  have "read_addresses junk 4 ?b (pos + 4) (length xs) = Inr (map f xs)"
    using Cons.IH [of "pos + 4" "p @ le32 (f x)"] Cons.prems by simp
  with a show ?case by simp
qed simp

lemma parse_hello_bytes:
  assumes "length addrs < 256" "length ns < 256"
  shows "parse_hello junk (write_buf (hello_bytes addrs ns) b) =
    Inr \<lparr>he_local_if_set = addrs, he_neighbor_set = map oh_ip_address ns, he_status_set = map oh_status ns,
         he_live_time = LIVE_TIME\<rparr>"
proof -
  let ?h = "[IPV4_ADDR_LEN, of_nat (length addrs), of_nat (length ns), 1] :: u8 list"
  let ?a = "concat (map le32 addrs)" and ?n = "concat (map (\<lambda>e. le32 (oh_ip_address e)) ns)"
    and ?s = "map oh_status ns" and ?b = "write_buf (hello_bytes addrs ns) b"
  have len: "length ?a = 4 * length addrs" using length_concat_le32 [of "\<lambda>x. x" addrs] by simp
  have u: "unat (of_nat (length addrs) :: u8) = length addrs" "unat (of_nat (length ns) :: u8) = length ns"
    unfolding unat_of_nat using assms by simp_all
  have head: "unat (?b 0) = 4" "unat (?b (Suc 0)) = length addrs" "unat (?b 2) = length ns"
    using u by (simp_all add: hello_bytes_def write_buf_def)
  have "read_addresses junk 4 ?b 4 (length addrs) = Inr addrs"
    using read_addresses_run [of 4 ?h addrs junk "\<lambda>x. x" "?n @ ?s @ le32 LIVE_TIME" b] assms
    by (simp add: hello_bytes_def)
  moreover have "read_addresses junk 4 ?b (4 + length addrs * 4) (length ns) = Inr (map oh_ip_address ns)"
    using read_addresses_run [of "4 + length addrs * 4" "?h @ ?a" ns junk oh_ip_address "?s @ le32 LIVE_TIME" b] assms len
    by (simp add: hello_bytes_def)
  moreover have "nd_copy ?b (4 + length addrs * 4 + length ns * 4) (length ns) = Inr ?s"
    using map_write_buf_append [of "?h @ ?a @ ?n" "4 + length addrs * 4 + length ns * 4" ?s "length ns" "le32 LIVE_TIME" b] assms len
    by (simp add: hello_bytes_def nd_copy_def)
  moreover have "read32 ?b (4 + length addrs * 4 + length ns * 4 + length ns) = LIVE_TIME"
    using read32_append [of "?h @ ?a @ ?n @ ?s" "4 + length addrs * 4 + length ns * 4 + length ns" LIVE_TIME "[]" b] len
    by (simp add: hello_bytes_def)
  ultimately show ?thesis using assms by (simp add: parse_hello_def Let_def head nd_copy_def)
qed

end
