(* ===== verification/Nd_Config.thy ===== *)
theory Nd_Config
  imports Scan
begin

text \<open>
  The configuration file of the neighbour discovery (\<open>parse_configure\<close> of \<open>lib/ND/nd.cpp\<close>): a
  line of any kind, then name, port and hello interval of an interface, each on a line of its own.
  A file is the list of its characters.
\<close>

section \<open>Reading lines and items\<close>

text \<open>An interface as the configuration file names it.\<close>

record interface_pair =
  ip_name :: string
  ip_listen_port :: int
  ip_hello_interval :: u64

text \<open>\<open>fgets\<close> with room for \<open>n\<close> characters; a C string ends at the first NUL.\<close>

fun fgets_line :: "nat \<Rightarrow> string \<Rightarrow> string \<times> string" where
  "fgets_line (Suc n) (c # cs) =
     (if c = newline then ([c], cs) else (let (l, r) = fgets_line n cs in (c # l, r)))"
| "fgets_line n cs = ([], cs)"

definition cstring :: "string \<Rightarrow> string" where
  "cstring = takeWhile (\<lambda>c. c \<noteq> CHR 0x00)"

text \<open>
  The directives of a format in front of a conversion: white space matches any, every other
  character itself; a character that does not match stays in the file.
\<close>

fun scan_literal :: "string \<Rightarrow> string \<Rightarrow> bool \<times> string" where
  "scan_literal [] cs = (True, cs)"
| "scan_literal (f # fs) cs =
     (if isspace f then scan_literal fs (skip_space cs)
      else (case cs of [] \<Rightarrow> (False, []) | c # r \<Rightarrow> if c = f then scan_literal fs r else (False, cs)))"

text \<open>The conversions \<open>%s\<close> and \<open>%d\<close> behind white space; a sign alone is taken from the file.\<close>

definition conv_s :: "string \<Rightarrow> string option \<times> string" where
  "conv_s cs =
     (let w = takeWhile (\<lambda>c. \<not> isspace c) cs in
      if w = [] then (None, cs) else (Some w, dropWhile (\<lambda>c. \<not> isspace c) cs))"

text \<open>\<open>%d\<close> reads a \<open>long\<close>, which stops at its bounds, and keeps its lower half.\<close>

definition to_int :: "int \<Rightarrow> int" where
  "to_int z = sint (word_of_int (max (- (2 ^ 63)) (min (2 ^ 63 - 1) z)) :: 32 word)"

definition conv_d :: "string \<Rightarrow> int option \<times> string" where
  "conv_d cs =
     (let (sign, body) = (case cs of c # r \<Rightarrow> if c = CHR ''-'' then (- 1, r) else if c = CHR ''+'' then (1, r) else (1, cs)
                          | [] \<Rightarrow> (1, []))
      in (case scan_unsigned body of
            None \<Rightarrow> (None, body)
          | Some (n, r) \<Rightarrow> (Some (to_int (sign * int n)), r)))"

text \<open>One call of \<open>fscanf\<close>: text, a conversion, and a newline, which takes all white space.\<close>

definition scan_item :: "string \<Rightarrow> (string \<Rightarrow> 'a option \<times> string) \<Rightarrow> string \<Rightarrow> 'a option \<times> string" where
  "scan_item fmt conv cs =
     (case scan_literal fmt cs of
        (False, r) \<Rightarrow> (None, r)
      | (True, r) \<Rightarrow>
          (case conv (skip_space r) of (None, r') \<Rightarrow> (None, r') | (Some x, r') \<Rightarrow> (Some x, skip_space r')))"

section \<open>The parser\<close>

text \<open>
  What the uninitialised variables of one turn of the loop hold: the text in \<open>ifname\<close> up to a
  NUL, and two numbers. A variable keeps it when its item is not found.
\<close>

record locals =
  lo_ifname :: string
  lo_port :: int
  lo_hello_interval :: int

text \<open>\<open>ifname\<close> and \<open>name\<close> have \<open>IF_NAMESIZE\<close> = 16 bytes.\<close>

definition read_pair :: "locals \<Rightarrow> string \<Rightarrow> fault + (interface_pair \<times> string)" where
  "read_pair junk cs =
     (let (w, cs1) = scan_item ''name = '' conv_s cs;
          (p, cs2) = scan_item ''port = '' conv_d cs1;
          (h, cs3) = scan_item ''hello_interval = '' conv_d cs2;
          need = (case w of None \<Rightarrow> 0 | Some x \<Rightarrow> length x + 1);
          ifname = (case w of None \<Rightarrow> lo_ifname junk | Some x \<Rightarrow> cstring x);
          port = (case p of None \<Rightarrow> lo_port junk | Some z \<Rightarrow> z);
          hello_interval = (case h of None \<Rightarrow> lo_hello_interval junk | Some z \<Rightarrow> z)
      in if need > 16 then Inl (StackOverflow need 16)
         else if length ifname \<ge> 16 then Inl OverRead
         else Inr (\<lparr>ip_name = ifname, ip_listen_port = port, ip_hello_interval = word_of_int hello_interval\<rparr>, cs3))"

lemma length_skip_space: "length (skip_space cs) \<le> length cs"
  by (simp add: skip_space_def length_dropWhile_le)

lemma length_fgets_line: "length (snd (fgets_line n cs)) \<le> length cs"
  by (induction n cs rule: fgets_line.induct) (auto simp: case_prod_unfold Let_def)

lemma length_scan_literal: "length (snd (scan_literal fs cs)) \<le> length cs"
proof (induction fs cs rule: scan_literal.induct)
  case (2 f fs cs)
  then show ?case using length_skip_space [of cs] by (auto split: list.split intro: order_trans le_SucI)
qed simp

lemma length_scan_item:
  assumes "\<And>cs. length (snd (conv cs)) \<le> length cs"
  shows "length (snd (scan_item fmt conv cs)) \<le> length cs"
proof -
  obtain b r where r: "scan_literal fmt cs = (b, r)" by fastforce
  obtain x r' where r': "conv (skip_space r) = (x, r')" by fastforce
  have "length r \<le> length cs" using length_scan_literal [of fmt cs] r by simp
  moreover have "length r' \<le> length (skip_space r)" using assms [of "skip_space r"] r' by simp
  ultimately show ?thesis
    using length_skip_space [of r] length_skip_space [of r']
    by (auto simp: scan_item_def r r' split: bool.split option.split)
qed

lemma length_conv_s: "length (snd (conv_s cs)) \<le> length cs"
  by (simp add: conv_s_def Let_def length_dropWhile_le)

lemma length_conv_d: "length (snd (conv_d cs)) \<le> length cs"
proof -
  have "length (dropWhile isdigit xs) \<le> length xs" for xs by (rule length_dropWhile_le)
  then show ?thesis
    by (auto simp: conv_d_def scan_unsigned_def Let_def intro: le_SucI split: list.split if_splits)
qed

lemma length_read_pair:
  assumes "read_pair junk cs = Inr (p, r)"
  shows "length r \<le> length cs"
proof -
  obtain w cs1 where w: "scan_item ''name = '' conv_s cs = (w, cs1)" by fastforce
  obtain p cs2 where p: "scan_item ''port = '' conv_d cs1 = (p, cs2)" by fastforce
  obtain h cs3 where h: "scan_item ''hello_interval = '' conv_d cs2 = (h, cs3)" by fastforce
  from assms have "r = cs3" by (auto simp: read_pair_def w p h Let_def split: if_splits)
  then show ?thesis
    using length_scan_item [of conv_s "''name = ''" cs] length_scan_item [of conv_d "''port = ''" cs1]
      length_scan_item [of conv_d "''hello_interval = ''" cs2] length_conv_s length_conv_d w p h by force
qed

lemma fgets_line_less:
  assumes "cs \<noteq> []"
  shows "length (snd (fgets_line 99 cs)) < length cs"
proof -
  obtain c r where cs: "cs = c # r" using assms by (cases cs) auto
  have "fgets_line 99 (c # r) = (if c = newline then ([c], r) else (c # fst (fgets_line 98 r), snd (fgets_line 98 r)))"
    using fgets_line.simps(1) [of 98 c r] by (simp add: case_prod_unfold Let_def)
  with length_fgets_line [of 98 r] show ?thesis by (simp add: cs)
qed

text \<open>
  The loop takes a line; one of a single character or behind a semicolon is skipped, any other
  starts an interface. \<open>junk k\<close> is what the variables hold in turn \<open>k\<close>.
\<close>

function parse_configure :: "(nat \<Rightarrow> locals) \<Rightarrow> nat \<Rightarrow> string \<Rightarrow> fault + interface_pair list" where
  "parse_configure junk k cs =
     (if cs = [] then Inr []
      else
        (let (buf, r) = fgets_line 99 cs in
         if length (cstring buf) = 1 then parse_configure junk (Suc k) r
         else if hd buf = CHR '';'' then parse_configure junk (Suc k) r
         else
           (case read_pair (junk k) r of
              Inl f \<Rightarrow> Inl f
            | Inr (p, r') \<Rightarrow>
                (case parse_configure junk (Suc k) r' of Inl f \<Rightarrow> Inl f | Inr ps \<Rightarrow> Inr (p # ps)))))"
  by pat_completeness auto

termination
proof (relation "measure (\<lambda>(junk, k, cs). length cs)")
  fix junk :: "nat \<Rightarrow> locals" and k :: nat and cs x buf r
  assume "cs \<noteq> []" "x = fgets_line 99 cs" "(buf, r) = x"
  with fgets_line_less [of cs] have less: "length r < length cs" by (metis snd_conv)
  then show "((junk, Suc k, r), (junk, k, cs)) \<in> measure (\<lambda>(junk, k, cs). length cs)"
    and "((junk, Suc k, r), (junk, k, cs)) \<in> measure (\<lambda>(junk, k, cs). length cs)" by simp_all
  fix y p r'
  assume "read_pair (junk k) r = Inr y" "(p, r') = y"
  with length_read_pair [of "junk k" r p r'] less
  show "((junk, Suc k, r'), (junk, k, cs)) \<in> measure (\<lambda>(junk, k, cs). length cs)" by simp
qed simp

declare parse_configure.simps [simp del]

section \<open>A file that is written in this form\<close>

text \<open>
  The section of an interface: a heading, the three lines and an empty line. Headings and names
  have no characters that end them early, and all fits its buffer and its type.
\<close>

definition section_text :: "string \<times> interface_pair \<Rightarrow> string" where
  "section_text = (\<lambda>(heading, p). heading @ newline # ''name = '' @ ip_name p @ newline # ''port = ''
     @ signed_decimal (ip_listen_port p) @ newline # ''hello_interval = '' @ decimal (unat (ip_hello_interval p))
     @ [newline, newline])"

definition section_ok :: "string \<times> interface_pair \<Rightarrow> bool" where
  "section_ok = (\<lambda>(heading, p). heading \<noteq> [] \<and> length heading \<le> 98 \<and> hd heading \<noteq> CHR '';'' \<and> \<not> isspace (hd heading)
     \<and> newline \<notin> set heading \<and> CHR 0x00 \<notin> set heading
     \<and> ip_name p \<noteq> [] \<and> length (ip_name p) \<le> 15 \<and> (\<forall>c \<in> set (ip_name p). \<not> isspace c \<and> c \<noteq> CHR 0x00)
     \<and> - (2 ^ 31) \<le> ip_listen_port p \<and> ip_listen_port p < 2 ^ 31 \<and> unat (ip_hello_interval p) < 2 ^ 31)"

lemma fgets_line_whole:
  "length l \<le> n \<Longrightarrow> newline \<notin> set l \<Longrightarrow> fgets_line (Suc n) (l @ newline # r) = (l @ [newline], r)"
proof (induction l arbitrary: n)
  case (Cons c l)
  then obtain m where "n = Suc m" "length l \<le> m" by (cases n) auto
  with Cons show ?case by auto
qed simp

lemma heading_line:
  assumes "length l \<le> 98" "newline \<notin> set l"
  shows "fgets_line 99 (l @ newline # r) = (l @ [newline], r)"
proof -
  have n: "(99 :: nat) = Suc 98" by simp
  show ?thesis unfolding n by (rule fgets_line_whole [OF assms])
qed

lemma cstring_id: "CHR 0x00 \<notin> set cs \<Longrightarrow> cstring cs = cs"
  unfolding cstring_def by (rule takeWhile_eq_all_conv [THEN iffD2]) auto

lemma isspace_letters [simp]:
  "\<not> isspace CHR ''n''" "\<not> isspace CHR ''a''" "\<not> isspace CHR ''m''" "\<not> isspace CHR ''e''" "\<not> isspace CHR ''=''"
  "\<not> isspace CHR ''p''" "\<not> isspace CHR ''o''" "\<not> isspace CHR ''r''" "\<not> isspace CHR ''t''" "\<not> isspace CHR ''h''"
  "\<not> isspace CHR ''l''" "\<not> isspace CHR ''_''" "\<not> isspace CHR ''i''" "\<not> isspace CHR ''v''" "\<not> isspace CHR ''-''"
  by (simp_all add: isspace_def)

lemma skip_space_word: "w \<noteq> [] \<Longrightarrow> \<forall>c \<in> set w. \<not> isspace c \<Longrightarrow> skip_space (w @ r) = w @ r"
  by (cases w) simp_all

lemma scan_name:
  assumes "w \<noteq> []" "\<forall>c \<in> set w. \<not> isspace c"
  shows "scan_item ''name = '' conv_s (''name = '' @ w @ newline # r) = (Some w, skip_space r)"
proof -
  have "takeWhile (\<lambda>c. \<not> isspace c) (w @ newline # r) = w" "dropWhile (\<lambda>c. \<not> isspace c) (w @ newline # r) = newline # r"
    by (rule take_drop_class; use assms in auto)+
  with assms(1) show ?thesis by (simp add: scan_item_def conv_s_def Let_def skip_space_word [OF assms])
qed

lemma to_int_small: "- (2 ^ 31) \<le> z \<Longrightarrow> z < 2 ^ 31 \<Longrightarrow> to_int z = z"
  by (simp add: to_int_def signed_of_int signed_take_bit_int_eq_self_iff min_def max_def)

lemma signed_decimal_start: "skip_space (signed_decimal z @ r) = signed_decimal z @ r"
  by (simp add: signed_decimal_def)

lemma conv_d_decimal:
  assumes "- (2 ^ 31) \<le> z" "z < 2 ^ 31"
  shows "conv_d (signed_decimal z @ newline # r) = (Some z, newline # r)"
proof (cases "z < 0")
  case True
  with assms show ?thesis by (simp add: conv_d_def signed_decimal_def scan_unsigned_decimal to_int_small)
next
  case False
  obtain d ds where d: "decimal (nat z) = d # ds" by (cases "decimal (nat z)") auto
  with decimal_digits [of d "nat z"] have "d \<noteq> CHR ''-''" "d \<noteq> CHR ''+''" by (auto simp: isdigit_def)
  with False assms scan_unsigned_decimal [of newline "nat z" r] show ?thesis
    by (simp add: conv_d_def signed_decimal_def d to_int_small)
qed

lemma scan_port:
  assumes "- (2 ^ 31) \<le> z" "z < 2 ^ 31"
  shows "scan_item ''port = '' conv_d (''port = '' @ signed_decimal z @ newline # r) = (Some z, skip_space r)"
  using conv_d_decimal [OF assms] by (simp add: scan_item_def signed_decimal_start)

lemma scan_interval:
  assumes "- (2 ^ 31) \<le> z" "z < 2 ^ 31"
  shows "scan_item ''hello_interval = '' conv_d (''hello_interval = '' @ signed_decimal z @ newline # r) = (Some z, skip_space r)"
  using conv_d_decimal [OF assms] by (simp add: scan_item_def signed_decimal_start)

text \<open>The lines of port and interval.\<close>

definition numbers_text :: "interface_pair \<Rightarrow> string \<Rightarrow> string" where
  "numbers_text p r = ''port = '' @ signed_decimal (ip_listen_port p) @ newline
      # ''hello_interval = '' @ decimal (unat (ip_hello_interval p)) @ newline # r"

lemma scan_numbers:
  assumes "section_ok (heading, p)"
  obtains t where "scan_item ''port = '' conv_d (numbers_text p r) = (Some (ip_listen_port p), t)"
    "scan_item ''hello_interval = '' conv_d t = (Some (int (unat (ip_hello_interval p))), skip_space r)"
proof
  let ?h = "int (unat (ip_hello_interval p))"
  let ?t = "''hello_interval = '' @ decimal (unat (ip_hello_interval p)) @ newline # r"
  have "- (2 ^ 31) \<le> ip_listen_port p" "ip_listen_port p < 2 ^ 31" using assms by (simp_all add: section_ok_def)
  from scan_port [OF this, of ?t] show "scan_item ''port = '' conv_d (numbers_text p r) = (Some (ip_listen_port p), ?t)"
    unfolding numbers_text_def by simp
  have "unat (ip_hello_interval p) < 2 ^ 31" using assms by (simp add: section_ok_def)
  then have "int (unat (ip_hello_interval p)) < int (2 ^ 31)" by (simp only: of_nat_less_iff)
  then have small: "?h < 2 ^ 31" by simp
  have dec: "decimal (unat (ip_hello_interval p)) = signed_decimal ?h" by (simp add: signed_decimal_def)
  show "scan_item ''hello_interval = '' conv_d ?t = (Some ?h, skip_space r)"
    unfolding dec by (rule scan_interval) (use small order_trans [of "- (2 ^ 31)" 0 ?h] in simp_all)
qed

lemma read_pair_section:
  assumes "section_ok (heading, p)"
  shows "read_pair junk (''name = '' @ ip_name p @ newline # numbers_text p r) = Inr (p, skip_space r)"
proof -
  from assms have ok: "ip_name p \<noteq> []" "\<forall>c \<in> set (ip_name p). \<not> isspace c" "length (ip_name p) \<le> 15"
    by (simp_all add: section_ok_def)
  obtain t where numbers: "scan_item ''port = '' conv_d (numbers_text p r) = (Some (ip_listen_port p), t)"
    "scan_item ''hello_interval = '' conv_d t = (Some (int (unat (ip_hello_interval p))), skip_space r)"
    using scan_numbers [OF assms] by blast
  have "skip_space (numbers_text p r) = numbers_text p r" by (simp add: numbers_text_def)
  with scan_name [OF ok(1,2), of "numbers_text p r"]
  have "scan_item ''name = '' conv_s (''name = '' @ ip_name p @ newline # numbers_text p r) = (Some (ip_name p), numbers_text p r)"
    by (simp only:)
  moreover have "cstring (ip_name p) = ip_name p" using assms by (intro cstring_id) (simp add: section_ok_def, blast)
  ultimately show ?thesis using ok(3) numbers by (simp only: read_pair_def) (simp add: Let_def)
qed

lemma parse_section:
  assumes ok: "section_ok (heading, p)" and r: "skip_space r = r"
  shows "parse_configure junk k (section_text (heading, p) @ r) =
    (case parse_configure junk (Suc k) r of Inl f \<Rightarrow> Inl f | Inr ps \<Rightarrow> Inr (p # ps))"
proof -
  let ?body = "''name = '' @ ip_name p @ newline # numbers_text p (newline # r)"
  have whole: "section_text (heading, p) @ r = heading @ newline # ?body"
    by (simp add: section_text_def numbers_text_def)
  from ok have h: "heading \<noteq> []" "length heading \<le> 98" "hd heading \<noteq> CHR '';''" "newline \<notin> set heading"
    "CHR 0x00 \<notin> set heading" by (simp_all add: section_ok_def)
  have "fgets_line 99 (heading @ newline # ?body) = (heading @ [newline], ?body)"
    by (rule heading_line [OF h(2,4)])
  moreover have "cstring (heading @ [newline]) = heading @ [newline]"
    using h(5) by (intro cstring_id) (simp add: newline_def)
  moreover have "read_pair (junk k) ?body = Inr (p, r)" using read_pair_section [OF ok, of "junk k" "newline # r"] r by simp
  ultimately show ?thesis
    unfolding whole using h(1,3) by (subst parse_configure.simps) (simp del: fgets_line.simps)
qed

lemma parse_sections:
  "\<forall>x \<in> set ss. section_ok x \<Longrightarrow> parse_configure junk k (concat (map section_text ss)) = Inr (map snd ss)"
proof (induction ss arbitrary: k)
  case Nil
  then show ?case by (simp add: parse_configure.simps)
next
  case (Cons x ss)
  obtain heading p where x: "x = (heading, p)" by (cases x)
  have "skip_space (concat (map section_text ss)) = concat (map section_text ss)"
  proof (cases ss)
    case (Cons y ys)
    with Cons.prems have "section_ok y" by simp
    then obtain c cs where "fst y = c # cs" "\<not> isspace c" by (cases "fst y") (auto simp: section_ok_def split: prod.splits)
    then show ?thesis by (simp add: Cons section_text_def case_prod_unfold)
  qed simp
  with Cons x show ?case by (simp add: parse_section)
qed

section \<open>Properties\<close>

text \<open>
  C39. A configuration file made of sections, each a heading, the three lines of an interface and an
  empty line, is read as the list of the interfaces it names, whatever the variables of the parser
  hold before.
\<close>

theorem configuration_round_trip:
  assumes "\<forall>x \<in> set sections. section_ok x"
  shows "parse_configure junk k (concat (map section_text sections)) = Inr (map snd sections)"
  using assms by (rule parse_sections)

theorem configuration_round_trip_witness:
  "parse_configure (\<lambda>_. \<lparr>lo_ifname = [], lo_port = 0, lo_hello_interval = 0\<rparr>) 0
     (concat (map section_text
       [(''[Interface1]'', \<lparr>ip_name = ''ens33'', ip_listen_port = 12345, ip_hello_interval = 2000\<rparr>),
        (''[Interface2]'', \<lparr>ip_name = ''lo'', ip_listen_port = 23456, ip_hello_interval = 2000\<rparr>)])) =
   Inr [\<lparr>ip_name = ''ens33'', ip_listen_port = 12345, ip_hello_interval = 2000\<rparr>,
     \<lparr>ip_name = ''lo'', ip_listen_port = 23456, ip_hello_interval = 2000\<rparr>]"
  by (subst configuration_round_trip) (simp_all add: section_ok_def isspace_def newline_def)

text \<open>A name of 16 characters or more is written behind the end of \<open>ifname\<close>.\<close>

theorem long_name_overflows:
  assumes "heading \<noteq> []" "length heading \<le> 98" "hd heading \<noteq> CHR '';''" "newline \<notin> set heading" "CHR 0x00 \<notin> set heading"
    "16 \<le> length w" "\<forall>c \<in> set w. \<not> isspace c"
  shows "parse_configure junk k (heading @ newline # ''name = '' @ w @ newline # r) = Inl (StackOverflow (length w + 1) 16)"
proof -
  let ?body = "''name = '' @ w @ newline # r"
  have "w \<noteq> []" using assms(6) by auto
  from scan_name [OF this assms(7)] have "scan_item ''name = '' conv_s ?body = (Some w, skip_space r)" .
  then have "read_pair (junk k) ?body = Inl (StackOverflow (length w + 1) 16)"
    using assms(6) by (simp only: read_pair_def) (simp add: case_prod_unfold Let_def)
  moreover have "fgets_line 99 (heading @ newline # ?body) = (heading @ [newline], ?body)"
    by (rule heading_line [OF assms(2,4)])
  moreover have "cstring (heading @ [newline]) = heading @ [newline]"
    using assms(5) by (intro cstring_id) (simp add: newline_def)
  ultimately show ?thesis using assms(1,3) by (subst parse_configure.simps) (simp del: fgets_line.simps)
qed

theorem long_name_overflows_witness:
  "parse_configure (\<lambda>_. \<lparr>lo_ifname = [], lo_port = 0, lo_hello_interval = 0\<rparr>) 0
     (''[Interface1]'' @ newline # ''name = '' @ ''aaaaaaaaaaaaaaaa'' @ [newline]) = Inl (StackOverflow 17 16)"
  by (subst long_name_overflows) (simp_all add: isspace_def newline_def)

text \<open>
  Without the heading the line of the name is taken for one: the interface has whatever name the
  parser's variable held, and the file is accepted.
\<close>

theorem missing_heading_loses_name:
  assumes "section_ok (heading, p)" "length (lo_ifname (junk k)) < 16"
  shows "parse_configure junk k (''name = '' @ ip_name p @ newline # numbers_text p []) = Inr [p\<lparr>ip_name := lo_ifname (junk k)\<rparr>]"
proof -
  obtain t where numbers: "scan_item ''port = '' conv_d (numbers_text p []) = (Some (ip_listen_port p), t)"
    "scan_item ''hello_interval = '' conv_d t = (Some (int (unat (ip_hello_interval p))), skip_space [])"
    using scan_numbers [OF assms(1)] by blast
  have "scan_item ''name = '' conv_s (numbers_text p []) = (None, numbers_text p [])"
    by (simp add: scan_item_def numbers_text_def)
  with numbers assms(2) have "read_pair (junk k) (numbers_text p []) = Inr (\<lparr>ip_name = lo_ifname (junk k),
      ip_listen_port = ip_listen_port p, ip_hello_interval = word_of_int (int (unat (ip_hello_interval p)))\<rparr>, [])"
    by (simp only: read_pair_def) (simp add: Let_def)
  then have pair: "read_pair (junk k) (numbers_text p []) = Inr (p\<lparr>ip_name := lo_ifname (junk k)\<rparr>, [])" by (cases p) simp
  from assms(1) have w: "\<forall>c \<in> set (ip_name p). \<not> isspace c \<and> c \<noteq> CHR 0x00" "length (ip_name p) \<le> 15"
    by (simp_all add: section_ok_def)
  have "newline \<notin> set (ip_name p)" "CHR 0x00 \<notin> set (ip_name p)" using w(1) space_chars(2) by blast+
  with w(2) have line: "length (''name = '' @ ip_name p) \<le> 98" "newline \<notin> set (''name = '' @ ip_name p)"
    "CHR 0x00 \<notin> set ((''name = '' @ ip_name p) @ [newline])" by (simp_all add: newline_def)
  have "''name = '' @ ip_name p @ newline # numbers_text p [] = (''name = '' @ ip_name p) @ newline # numbers_text p []" by simp
  with heading_line [OF line(1,2), of "numbers_text p []"] cstring_id [OF line(3)] pair show ?thesis
    by (subst parse_configure.simps) (simp add: parse_configure.simps [of _ _ "[]"] del: fgets_line.simps)
qed

theorem missing_heading_loses_name_witness:
  "parse_configure (\<lambda>_. \<lparr>lo_ifname = ''x'', lo_port = 0, lo_hello_interval = 0\<rparr>) 0 (''name = '' @ ''lo'' @ newline
     # numbers_text \<lparr>ip_name = ''lo'', ip_listen_port = 698, ip_hello_interval = 2000\<rparr> []) =
   Inr [\<lparr>ip_name = ''x'', ip_listen_port = 698, ip_hello_interval = 2000\<rparr>]"
  using missing_heading_loses_name [of "''[Interface1]''" "\<lparr>ip_name = ''lo'', ip_listen_port = 698, ip_hello_interval = 2000\<rparr>"
    "\<lambda>_. \<lparr>lo_ifname = ''x'', lo_port = 0, lo_hello_interval = 0\<rparr>" 0]
  by (simp add: section_ok_def isspace_def newline_def)

end
