(* ===== verification/Nd.thy ===== *)
theory Nd
  imports Nd_Hello Nd_Config Timers
begin

text \<open>
  The neighbour discovery library (\<open>lib/ND\<close>): hello messages sent and received on every
  interface, the table of neighbours they fill (\<open>nd_interface.cpp\<close>), the queue of timers that
  sends the next message and deletes silent neighbours (\<open>nd_timer_queue.cpp\<close>), and the functions
  for its user (\<open>nd.cpp\<close>). A pointer to an interface is its index in \<open>interface_entry_list\<close>,
  which does not change until \<open>nd_turn_down\<close> clears it.
\<close>

section \<open>The state\<close>

abbreviation (input) TIMER_TYPE_HELLO :: int where "TIMER_TYPE_HELLO \<equiv> 1"
abbreviation (input) TIMER_TYPE_ENTRY :: int where "TIMER_TYPE_ENTRY \<equiv> 2"

datatype nd_hfunc = Send_hello_message | Delete_one_hop_entry

record nd_timerData =
  nd_type :: int
  nd_data :: ip
  nd_contain :: nat

text \<open>\<open>nt_id\<close> tells list nodes with equal contents apart, as their addresses do.\<close>

record nd_timer =
  nt_timeout :: u64
  nt_handler :: nd_hfunc
  nt_data :: nd_timerData
  nt_id :: nat

text \<open>
  The environment, by a running number: the clock, whether \<open>malloc\<close> succeeds, the contents of a
  new block and of an uninitialised address.
\<close>

record nd_env =
  nd_clock :: "nat \<Rightarrow> u64"
  nd_malloc :: "nat \<Rightarrow> bool"
  nd_block :: "nat \<Rightarrow> buffer"
  nd_junk :: "nat \<Rightarrow> u8 list"

text \<open>The interval timer armed, a broadcast from a socket to a port with TTL 1, a closed socket.\<close>

datatype nd_effect = Nd_setitimer u64 u64 | Nd_broadcast int int "u8 list" | Nd_close int

record nd =
  nd_env :: nd_env
  nd_ticks :: nat
  interface_list :: "interface_pair list"
  interface_entry_list :: "InterfaceEntry list"
  nd_timerQ :: "nd_timer list"
  nd_next_id :: nat
  nd_outs :: "nd_effect list"

definition nd_ask :: "(nd_env \<Rightarrow> nat \<Rightarrow> 'a) \<Rightarrow> (nd, 'a) sm" where
  "nd_ask f = (\<lambda>s. Inr (f (nd_env s) (nd_ticks s), s\<lparr>nd_ticks := Suc (nd_ticks s)\<rparr>))"

definition nd_emit :: "nd_effect \<Rightarrow> (nd, unit) sm" where
  "nd_emit e = upd (\<lambda>s. s\<lparr>nd_outs := nd_outs s @ [e]\<rparr>)"

text \<open>Access to an interface through a pointer.\<close>

definition interface :: "nat \<Rightarrow> (nd, InterfaceEntry) sm" where
  "interface i =
     bnd (gets interface_entry_list) (\<lambda>l. if i < length l then ret (l ! i) else raise UseAfterFree)"

definition set_neighbors :: "nat \<Rightarrow> OneHopEntry list \<Rightarrow> (nd, unit) sm" where
  "set_neighbors i ns =
     upd (\<lambda>s. s\<lparr>interface_entry_list := (interface_entry_list s)
       [i := (interface_entry_list s ! i)\<lparr>ie_one_hop_neighbor_set := ns\<rparr>]\<rparr>)"

section \<open>The timer queue\<close>

definition nd_getcurrtime :: "(nd, u64) sm" where
  "nd_getcurrtime = nd_ask nd_clock"

definition nd_setRealTimer :: "u64 \<Rightarrow> (nd, unit) sm" where
  "nd_setRealTimer timeout =
     (let time_sec = timeout div 1000; time_usec = (timeout - time_sec * 1000) * 1000
      in nd_emit (Nd_setitimer time_sec time_usec))"

fun nd_timer_insert :: "nd_timer \<Rightarrow> nd_timer list \<Rightarrow> nd_timer list" where
  "nd_timer_insert t [] = [t]"
| "nd_timer_insert t (u # q) = (if nt_timeout t > nt_timeout u then u # nd_timer_insert t q else t # u # q)"

definition nd_timer_add :: "u64 \<Rightarrow> u64 \<Rightarrow> nd_hfunc \<Rightarrow> nd_timerData \<Rightarrow> (nd, unit) sm" where
  "nd_timer_add currtime timeVal func dataVal =
     bnd (nd_ask nd_malloc) (\<lambda>ok.
     if \<not> ok then raise NullDeref
     else upd (\<lambda>s. s\<lparr>nd_timerQ := nd_timer_insert \<lparr>nt_timeout = currtime + timeVal, nt_handler = func,
                    nt_data = dataVal, nt_id = nd_next_id s\<rparr> (nd_timerQ s),
                  nd_next_id := Suc (nd_next_id s)\<rparr>))"

definition nd_setLowestTimer :: "u64 \<Rightarrow> u64 \<Rightarrow> (nd, unit) sm" where
  "nd_setLowestTimer currtime timeVal =
     bnd (gets nd_timerQ) (\<lambda>q.
     case q of [] \<Rightarrow> raise EndDeref
     | t # _ \<Rightarrow> whenM (nt_timeout t = currtime + timeVal) (nd_setRealTimer timeVal))"

definition nd_set_timer :: "u64 \<Rightarrow> nd_hfunc \<Rightarrow> nd_timerData \<Rightarrow> (nd, unit) sm" where
  "nd_set_timer timeVal func dataVal =
     bnd nd_getcurrtime (\<lambda>currtime.
     andthen (nd_timer_add currtime timeVal func dataVal) (nd_setLowestTimer currtime timeVal))"

text \<open>The two comparisons of the types are the code's; the data is not compared.\<close>

definition is_set_now :: "nd_timer \<Rightarrow> nd_timer list \<Rightarrow> bool" where
  "is_set_now t q =
     (nd_type (nt_data (hd q)) = nd_type (nt_data t) \<and> nd_type (nt_data (hd q)) = nd_type (nt_data t)
      \<and> nd_contain (nt_data (hd q)) = nd_contain (nt_data t))"

text \<open>
  The first timer of a neighbour on an interface of the given name, the timer behind it and the
  queue without it. The loop reads the interface of every timer it passes.
\<close>

fun find_entry_timer :: "InterfaceEntry list \<Rightarrow> ip \<Rightarrow> string \<Rightarrow> nd_timer list
    \<Rightarrow> fault + (nd_timer \<times> nd_timer option \<times> nd_timer list) option" where
  "find_entry_timer ifs dst name [] = Inr None"
| "find_entry_timer ifs dst name (t # q) =
     (if nd_contain (nt_data t) \<ge> length ifs then Inl UseAfterFree
      else if nd_type (nt_data t) = TIMER_TYPE_ENTRY \<and> nd_data (nt_data t) = dst
        \<and> ie_name (ifs ! nd_contain (nt_data t)) = name
      then Inr (Some (t, (case q of [] \<Rightarrow> None | u # _ \<Rightarrow> Some u), q))
      else
        (case find_entry_timer ifs dst name q of
           Inl f \<Rightarrow> Inl f
         | Inr r \<Rightarrow> Inr (map_option (\<lambda>(x, n, q'). (x, n, t # q')) r)))"

definition remove_neighbor_entry_timer :: "ip \<Rightarrow> string \<Rightarrow> (nd, unit) sm" where
  "remove_neighbor_entry_timer dst_address interface_name =
     bnd (gets nd_timerQ) (\<lambda>q.
     bnd (gets interface_entry_list) (\<lambda>ifs.
     case find_entry_timer ifs dst_address interface_name q of
       Inl f \<Rightarrow> raise f
     | Inr None \<Rightarrow> ret ()
     | Inr (Some (t, newIter, q')) \<Rightarrow>
         andthen
           (if is_set_now t q then
              (case newIter of None \<Rightarrow> ret ()
               | Some u \<Rightarrow> bnd nd_getcurrtime (\<lambda>c. nd_setRealTimer (nt_timeout u - c)))
            else ret ())
           (upd (\<lambda>s. s\<lparr>nd_timerQ := q'\<rparr>))))"

section \<open>Sending\<close>

definition generate_and_send_hello_message :: "nat \<Rightarrow> (nd, int) sm" where
  "generate_and_send_hello_message i =
     bnd (interface i) (\<lambda>e.
     bnd (nd_ask nd_malloc) (\<lambda>ok.
     if \<not> ok then ret (- 1)
     else
       bnd (gets interface_entry_list) (\<lambda>ifs.
       let msg = hello_bytes (map ie_interface_address ifs) (ie_one_hop_neighbor_set e); len = length msg in
       if len > MESSAGE_BUFFER_SIZE then raise (HeapOverflow len MESSAGE_BUFFER_SIZE)
       else andthen (nd_emit (Nd_broadcast (ie_fd e) (ie_listen_port e) msg)) (ret (int len)))))"

definition send_hello_message :: "nd_timerData \<Rightarrow> (nd, unit) sm" where
  "send_hello_message param =
     (let i = nd_contain param in
      bnd (generate_and_send_hello_message i) (\<lambda>_.
      bnd (interface i) (\<lambda>e.
      if ie_hello_interval e = 0 then ret ()
      else nd_set_timer (ie_hello_interval e) Send_hello_message
        \<lparr>nd_type = TIMER_TYPE_HELLO, nd_data = 0, nd_contain = i\<rparr>)))"

definition start_discovery :: "(nd, unit) sm" where
  "start_discovery =
     bnd (gets (\<lambda>s. length (interface_entry_list s))) (\<lambda>n.
     forM [0..<n] (\<lambda>i. send_hello_message \<lparr>nd_type = TIMER_TYPE_HELLO, nd_data = 0, nd_contain = i\<rparr>))"

section \<open>Neighbours that fall silent\<close>

fun erase_neighbor :: "ip \<Rightarrow> OneHopEntry list \<Rightarrow> OneHopEntry list" where
  "erase_neighbor a [] = []"
| "erase_neighbor a (e # es) = (if oh_ip_address e = a then es else e # erase_neighbor a es)"

definition delete_one_hop_entry :: "nd_timerData \<Rightarrow> (nd, unit) sm" where
  "delete_one_hop_entry param =
     bnd (interface (nd_contain param)) (\<lambda>e.
     set_neighbors (nd_contain param) (erase_neighbor (nd_data param) (ie_one_hop_neighbor_set e)))"

definition nd_run_handler :: "nd_hfunc \<Rightarrow> nd_timerData \<Rightarrow> (nd, unit) sm" where
  "nd_run_handler h d =
     (case h of Send_hello_message \<Rightarrow> send_hello_message d | Delete_one_hop_entry \<Rightarrow> delete_one_hop_entry d)"

text \<open>An iterator is the identity of the timer it denotes, \<open>None\<close> for \<open>end ()\<close>.\<close>

definition nd_timer_at :: "nat option \<Rightarrow> nd_timer list \<Rightarrow> nd_timer option" where
  "nd_timer_at it q = (case it of None \<Rightarrow> None | Some i \<Rightarrow> find (\<lambda>t. nt_id t = i) q)"

definition nd_begin :: "nd_timer list \<Rightarrow> nat option" where
  "nd_begin q = (case q of [] \<Rightarrow> None | t # _ \<Rightarrow> Some (nt_id t))"

text \<open>The list without the node of an identity, and the position behind it.\<close>

fun nd_take :: "nat \<Rightarrow> nd_timer list \<Rightarrow> nat option \<times> nd_timer list" where
  "nd_take i [] = (None, [])"
| "nd_take i (t # q) = (if nt_id t = i then (nd_begin q, q) else (let (n, q') = nd_take i q in (n, t # q')))"

fun nd_schedule_loop :: "nat \<Rightarrow> u64 \<Rightarrow> nat option \<Rightarrow> (nd, nat option) sm" where
  "nd_schedule_loop 0 currtime it = raise OutOfFuel"
| "nd_schedule_loop (Suc n) currtime it =
     bnd (gets (\<lambda>s. nd_timer_at it (nd_timerQ s))) (\<lambda>r.
     case r of None \<Rightarrow> ret it
     | Some t \<Rightarrow>
         if nt_timeout t \<le> currtime then
           andthen (nd_run_handler (nt_handler t) (nt_data t))
           (bnd (gets (\<lambda>s. nd_take (nt_id t) (nd_timerQ s))) (\<lambda>(it', q).
            andthen (upd (\<lambda>s. s\<lparr>nd_timerQ := q\<rparr>)) (nd_schedule_loop n currtime it')))
         else ret it)"

definition nd_scheduleTimer :: "nat \<Rightarrow> (nd, unit) sm" where
  "nd_scheduleTimer fuel =
     bnd (gets (\<lambda>s. nd_begin (nd_timerQ s))) (\<lambda>it.
     bnd nd_getcurrtime (\<lambda>currtime.
     bnd (nd_schedule_loop fuel currtime it) (\<lambda>it'.
     bnd (gets (\<lambda>s. nd_timer_at it' (nd_timerQ s))) (\<lambda>r.
     case r of None \<Rightarrow> ret ()
     | Some t \<Rightarrow>
         whenM (nt_timeout t > 0 \<and> nt_timeout t > currtime) (nd_setRealTimer (nt_timeout t - currtime))))))"

section \<open>Receiving\<close>

definition two_hop_set :: "ip \<Rightarrow> ip \<Rightarrow> (ip \<times> u8) list \<Rightarrow> TwoHopEntry list" where
  "two_hop_set own src neighbors =
     map (\<lambda>(a, st). \<lparr>th_ip_address = a, th_gateway_address = src, th_status_value = st\<rparr>)
       (filter (\<lambda>(a, _). a \<noteq> own) neighbors)"

definition host_status :: "ip \<Rightarrow> (ip \<times> u8) list \<Rightarrow> u8" where
  "host_status own neighbors =
     (case find (\<lambda>(a, _). a = own) neighbors of None \<Rightarrow> NO_ENTRY | Some (_, st) \<Rightarrow> st)"

text \<open>The entry of a neighbour rewritten where it stands.\<close>

fun refresh_neighbor :: "ip \<Rightarrow> (OneHopEntry \<Rightarrow> OneHopEntry) \<Rightarrow> OneHopEntry list \<Rightarrow> OneHopEntry list" where
  "refresh_neighbor a f [] = []"
| "refresh_neighbor a f (e # es) = (if oh_ip_address e = a then f e # es else e # refresh_neighbor a f es)"

definition update_info :: "nat \<Rightarrow> ip \<Rightarrow> hello \<Rightarrow> (nd, unit) sm" where
  "update_info i src h =
     bnd (interface i) (\<lambda>e.
     let own = ie_interface_address e; ns = ie_one_hop_neighbor_set e;
         listed = zip (he_neighbor_set h) (he_status_set h);
         neighbor_status_in_host =
           (case find (\<lambda>x. oh_ip_address x = src) ns of None \<Rightarrow> NO_ENTRY | Some x \<Rightarrow> oh_status x);
         status = (if host_status own listed = NO_ENTRY then HEARD else SYMMETRIC);
         two = two_hop_set own src listed;
         tData = \<lparr>nd_type = TIMER_TYPE_ENTRY, nd_data = src, nd_contain = i\<rparr> in
     if neighbor_status_in_host = NO_ENTRY then
       andthen (set_neighbors i (ns @ [\<lparr>oh_ip_address = src, oh_quality = 0,
           oh_local_if_set = he_local_if_set h, oh_two_hop_neighbor_set = two, oh_status = status,
           oh_live_time = he_live_time h\<rparr>]))
         (nd_set_timer (ucast (he_live_time h)) Delete_one_hop_entry tData)
     else if neighbor_status_in_host = HEARD \<or> neighbor_status_in_host = SYMMETRIC then
       andthen (set_neighbors i (refresh_neighbor src (\<lambda>x. x\<lparr>oh_two_hop_neighbor_set := two,
           oh_local_if_set := he_local_if_set h, oh_live_time := he_live_time h, oh_status := status\<rparr>) ns))
       (andthen (remove_neighbor_entry_timer src (ie_name e))
         (nd_set_timer (ucast (he_live_time h)) Delete_one_hop_entry tData))
     else ret ())"

text \<open>
  A datagram of a source; \<open>None\<close> for an error of \<open>recvmsg\<close> or \<open>recvfrom\<close>. The block it is read
  into is not cleared. The time to live in the control messages is only printed.
\<close>

definition handle_hello_message :: "nat \<Rightarrow> (ip \<times> u8 list) option \<Rightarrow> (nd, unit) sm" where
  "handle_hello_message i received =
     bnd (interface i) (\<lambda>e.
     bnd (nd_ask nd_malloc) (\<lambda>ok.
     if \<not> ok then ret ()
     else
       (case received of None \<Rightarrow> ret ()
        | Some (src, bytes) \<Rightarrow>
            if bytes = [] then ret ()
            else if src = ie_interface_address e then ret ()
            else
              bnd (nd_ask nd_block) (\<lambda>block.
              bnd (nd_ask nd_junk) (\<lambda>junk.
              case parse_hello junk (write_buf (take MESSAGE_BUFFER_SIZE bytes) block) of
                Inl f \<Rightarrow> raise f
              | Inr h \<Rightarrow> update_info i src h)))))"

text \<open>One round of \<open>main_loop\<close>: the descriptors that \<open>select\<close> reports, and what they deliver.\<close>

definition nd_main_round :: "int list \<Rightarrow> (int \<Rightarrow> (ip \<times> u8 list) option) \<Rightarrow> (nd, unit) sm" where
  "nd_main_round ready received =
     bnd (gets (\<lambda>s. map ie_fd (interface_entry_list s))) (\<lambda>fds.
     forM [0..<length fds] (\<lambda>i.
       whenM (fds ! i \<in> set ready) (handle_hello_message i (received (fds ! i)))))"

section \<open>The functions for the user\<close>

fun interface_index :: "string \<Rightarrow> InterfaceEntry list \<Rightarrow> nat \<Rightarrow> nat option" where
  "interface_index name [] i = None"
| "interface_index name (e # es) i = (if ie_name e = name then Some i else interface_index name es (Suc i))"

definition nd_set_hello_interval :: "string \<Rightarrow> u64 \<Rightarrow> (nd, int) sm" where
  "nd_set_hello_interval name new_hello_interval =
     bnd (gets (\<lambda>s. interface_index name (interface_entry_list s) 0)) (\<lambda>index.
     case index of None \<Rightarrow> ret (- 1)
     | Some i \<Rightarrow>
         bnd (interface i) (\<lambda>e.
         andthen (upd (\<lambda>s. s\<lparr>interface_entry_list :=
             (interface_entry_list s)[i := (interface_entry_list s ! i)\<lparr>ie_hello_interval := new_hello_interval\<rparr>]\<rparr>))
         (andthen (whenM (ie_hello_interval e = 0)
             (send_hello_message \<lparr>nd_type = TIMER_TYPE_HELLO, nd_data = 0, nd_contain = i\<rparr>))
           (ret 0))))"

definition nd_send_hello_now :: "string \<Rightarrow> (nd, int) sm" where
  "nd_send_hello_now name =
     bnd (gets (\<lambda>s. interface_index name (interface_entry_list s) 0)) (\<lambda>index.
     case index of None \<Rightarrow> ret (- 1) | Some i \<Rightarrow> generate_and_send_hello_message i)"

text \<open>The new contents of the caller's list; \<open>None\<close> when it is left as it was.\<close>

definition nd_get_one_hop_neighbor_information :: "string \<Rightarrow> (nd, (ip \<times> u8) list option) sm" where
  "nd_get_one_hop_neighbor_information name =
     gets (\<lambda>s. map_option (\<lambda>i. map (\<lambda>x. (oh_ip_address x, oh_status x))
         (ie_one_hop_neighbor_set (interface_entry_list s ! i)))
       (interface_index name (interface_entry_list s) 0))"

definition clean_interface_entry_list :: "(nd, unit) sm" where
  "clean_interface_entry_list =
     bnd (gets (\<lambda>s. map ie_fd (interface_entry_list s))) (\<lambda>fds.
     andthen (forM fds (\<lambda>fd. nd_emit (Nd_close fd))) (upd (\<lambda>s. s\<lparr>interface_entry_list := []\<rparr>)))"

definition clean_timer_list :: "(nd, unit) sm" where
  "clean_timer_list = upd (\<lambda>s. s\<lparr>nd_timerQ := []\<rparr>)"

definition nd_turn_down :: "(nd, unit) sm" where
  "nd_turn_down = andthen clean_interface_entry_list clean_timer_list"

section \<open>Starting up\<close>

text \<open>
  The system's answers for the interface at one place of the list: its index, a socket, the
  options set on it, the binding, and the addresses of the machine. An address is the name of
  its interface with the Internet address, or with \<open>None\<close> for another family or no address.
\<close>

record if_answers =
  ia_if_index :: int
  ia_socket :: int
  ia_options :: "int list"
  ia_bind :: int
  ia_addrs :: "(string \<times> ip option) list"

text \<open>Six options are set; the first that fails ends the function, and the socket stays open.\<close>

definition init_socket :: "int \<Rightarrow> int list \<Rightarrow> int" where
  "init_socket fd options =
     (if fd = - 1 then - 1 else if \<exists>r \<in> set (take 6 options). r < 0 then - 1 else fd)"

definition bind_socket :: "int \<Rightarrow> int" where
  "bind_socket answer = (if answer = - 1 then - 1 else 0)"

text \<open>The first Internet address of an interface; what the variable held when it has none.\<close>

fun interface_ipv4_address :: "string \<Rightarrow> ip \<Rightarrow> (string \<times> ip option) list \<Rightarrow> ip" where
  "interface_ipv4_address name uninitialised [] = uninitialised"
| "interface_ipv4_address name uninitialised ((n, a) # addrs) =
     (case a of
        None \<Rightarrow> interface_ipv4_address name uninitialised addrs
      | Some x \<Rightarrow> if n = name then x else interface_ipv4_address name uninitialised addrs)"

fun init_entries :: "(nat \<Rightarrow> if_answers) \<Rightarrow> nat \<Rightarrow> interface_pair list \<Rightarrow> (nd, int) sm" where
  "init_entries answers i [] = ret 0"
| "init_entries answers i (p # ps) =
     (let a = answers i; socket_fd = init_socket (ia_socket a) (ia_options a) in
      if ia_if_index a = 0 then ret (- 1)
      else if socket_fd < 0 then ret (- 1)
      else if bind_socket (ia_bind a) < 0 then ret (- 1)
      else
        bnd (nd_ask nd_junk) (\<lambda>junk.
        andthen (upd (\<lambda>s. s\<lparr>interface_entry_list := interface_entry_list s @ [\<lparr>ie_name = ip_name p,
            ie_if_index = ia_if_index a, ie_listen_port = ip_listen_port p,
            ie_interface_address = interface_ipv4_address (ip_name p) (read32 (\<lambda>k. junk ! k) 0) (ia_addrs a),
            ie_fd = socket_fd, ie_hello_interval = ip_hello_interval p, ie_one_hop_neighbor_set = []\<rparr>]\<rparr>))
          (init_entries answers (Suc i) ps)))"

definition init_interface_entry_list :: "(nat \<Rightarrow> if_answers) \<Rightarrow> (nd, int) sm" where
  "init_interface_entry_list answers =
     andthen (upd (\<lambda>s. s\<lparr>interface_entry_list := []\<rparr>))
     (bnd (gets interface_list) (\<lambda>ps. init_entries answers 0 ps))"

text \<open>\<open>nd_turn_up\<close> behind the reading of the file; \<open>thread_ret\<close> is the answer of \<open>pthread_create\<close>.\<close>

definition start_interfaces :: "interface_pair list \<Rightarrow> (nat \<Rightarrow> if_answers) \<Rightarrow> int \<Rightarrow> (nd, int) sm" where
  "start_interfaces pairs answers thread_ret =
     andthen (upd (\<lambda>s. s\<lparr>interface_list := interface_list s @ pairs\<rparr>))
     (bnd (init_interface_entry_list answers) (\<lambda>r.
      if r < 0 then ret (- 1)
      else if thread_ret \<noteq> 0 then ret (- 1)
      else andthen start_discovery (ret 0)))"

text \<open>\<open>cfg\<close> is the text of the configuration file, \<open>None\<close> when it cannot be opened.\<close>

definition nd_turn_up :: "string option \<Rightarrow> (nat \<Rightarrow> locals) \<Rightarrow> (nat \<Rightarrow> if_answers) \<Rightarrow> int \<Rightarrow> (nd, int) sm" where
  "nd_turn_up cfg junk answers thread_ret =
     (case cfg of
        None \<Rightarrow> ret (- 1)
      | Some text_of_file \<Rightarrow>
          (case parse_configure junk 0 text_of_file of
             Inl f \<Rightarrow> raise f
           | Inr pairs \<Rightarrow> start_interfaces pairs answers thread_ret))"

end
