(* ===== verification/Nd_Laws.thy ===== *)
theory Nd_Laws
  imports Nd
begin

text \<open>
  What the neighbour discovery keeps up: the invariant \<open>nd_inv\<close> of its tables and its timers. Its
  core: each neighbour of each interface has exactly one timer that will delete it, and no other
  such timer is in the queue. The queue is the one of the locale \<open>timer_list\<close>.
\<close>

section \<open>The queue\<close>

lemma mset_nd_insert: "mset (nd_timer_insert t q) = add_mset t (mset q)"
  by (induction q) auto

lemma set_nd_insert: "set (nd_timer_insert t q) = insert t (set q)"
  by (induction q) auto

lemma sorted_nd_insert: "sorted (map nt_timeout q) \<Longrightarrow> sorted (map nt_timeout (nd_timer_insert t q))"
  by (induction q) (auto simp: set_nd_insert)

lemma filter_nd_insert: "\<not> P t \<Longrightarrow> filter P (nd_timer_insert t q) = filter P q"
  by (induction q) auto

interpretation ndq: timer_list nt_timeout nd_timer_insert
  by unfold_locales (simp_all add: mset_nd_insert sorted_nd_insert filter_nd_insert)

lemma nd_take_split:
  assumes "\<forall>u \<in> set p. nt_id u \<noteq> nt_id t"
  shows "nd_take (nt_id t) (p @ t # r) = (nd_begin r, p @ r)"
  using assms by (induction p) auto

lemma nd_timer_at_set: "nd_timer_at it q = Some t \<Longrightarrow> t \<in> set q \<and> it = Some (nt_id t)"
  by (auto simp: nd_timer_at_def find_Some_iff split: option.splits)

lemma nd_timer_at_begin: "nd_timer_at (nd_begin q) q = (case q of [] \<Rightarrow> None | t # _ \<Rightarrow> Some t)"
  by (simp add: nd_timer_at_def nd_begin_def split: list.split)

section \<open>Timers and neighbours\<close>

definition timer_of :: "nat \<Rightarrow> ip \<Rightarrow> nd_timer \<Rightarrow> bool" where
  "timer_of i a t \<longleftrightarrow> nd_type (nt_data t) = TIMER_TYPE_ENTRY \<and> nd_contain (nt_data t) = i \<and> nd_data (nt_data t) = a"

definition timers_of :: "nat \<Rightarrow> ip \<Rightarrow> nd_timer list \<Rightarrow> nat" where
  "timers_of i a q = length (filter (timer_of i a) q)"

definition neighbors_of :: "InterfaceEntry \<Rightarrow> ip set" where
  "neighbors_of e = oh_ip_address ` set (ie_one_hop_neighbor_set e)"

definition table_ok :: "OneHopEntry list \<Rightarrow> bool" where
  "table_ok ns \<longleftrightarrow> distinct (map oh_ip_address ns) \<and> (\<forall>x \<in> set ns. oh_status x = HEARD \<or> oh_status x = SYMMETRIC)"

definition nd_timer_ok :: "nat \<Rightarrow> nd_timer \<Rightarrow> bool" where
  "nd_timer_ok n t \<longleftrightarrow> nd_contain (nt_data t) < n
     \<and> (nd_type (nt_data t) = TIMER_TYPE_ENTRY \<and> nt_handler t = Delete_one_hop_entry
        \<or> nd_type (nt_data t) = TIMER_TYPE_HELLO \<and> nt_handler t = Send_hello_message)"

definition nd_wf :: "InterfaceEntry list \<Rightarrow> nd_timer list \<Rightarrow> nat \<Rightarrow> bool" where
  "nd_wf ifs q n \<longleftrightarrow> distinct (map ie_name ifs) \<and> (\<forall>e \<in> set ifs. table_ok (ie_one_hop_neighbor_set e))
     \<and> sorted (map nt_timeout q) \<and> distinct (map nt_id q) \<and> (\<forall>t \<in> set q. nt_id t < n \<and> nd_timer_ok (length ifs) t)"

definition matched :: "InterfaceEntry list \<Rightarrow> nd_timer list \<Rightarrow> bool" where
  "matched ifs q \<longleftrightarrow> (\<forall>i < length ifs. \<forall>a. timers_of i a q = (if a \<in> neighbors_of (ifs ! i) then 1 else 0))"

definition nd_inv :: "nd \<Rightarrow> bool" where
  "nd_inv s \<longleftrightarrow> nd_wf (interface_entry_list s) (nd_timerQ s) (nd_next_id s)
     \<and> matched (interface_entry_list s) (nd_timerQ s)"

lemma timers_of_insert: "timers_of i a (nd_timer_insert t q) = (if timer_of i a t then 1 else 0) + timers_of i a q"
proof -
  have "size (filter_mset (timer_of i a) (mset (nd_timer_insert t q)))
      = (if timer_of i a t then 1 else 0) + size (filter_mset (timer_of i a) (mset q))"
    by (simp add: mset_nd_insert)
  then show ?thesis by (simp add: timers_of_def flip: mset_filter)
qed

lemma timers_of_split: "timers_of i a (p @ t # r) = (if timer_of i a t then 1 else 0) + timers_of i a (p @ r)"
  by (simp add: timers_of_def)

lemma neighbors_set [simp]:
  "i < length ifs \<Longrightarrow> neighbors_of (ifs[i := (ifs ! i)\<lparr>ie_one_hop_neighbor_set := ns\<rparr>] ! j)
    = (if i = j then oh_ip_address ` set ns else neighbors_of (ifs ! j))"
  by (simp add: neighbors_of_def nth_list_update)

lemma matched_set:
  assumes "matched ifs q" "i < length ifs"
    and "\<And>a. timers_of i a q' = (if a \<in> oh_ip_address ` set ns then 1 else 0)"
    and "\<And>j a. j \<noteq> i \<Longrightarrow> timers_of j a q' = timers_of j a q"
  shows "matched (ifs[i := (ifs ! i)\<lparr>ie_one_hop_neighbor_set := ns\<rparr>]) q'"
  using assms by (auto simp: matched_def)

lemma wf_set:
  assumes "nd_wf ifs q n" "i < length ifs" "table_ok ns"
  shows "nd_wf (ifs[i := (ifs ! i)\<lparr>ie_one_hop_neighbor_set := ns\<rparr>]) q n"
proof -
  have "map ie_name (ifs[i := (ifs ! i)\<lparr>ie_one_hop_neighbor_set := ns\<rparr>]) = map ie_name ifs"
    using assms(2) by (simp add: map_update) (metis length_map list_update_id nth_map)
  with assms show ?thesis
    unfolding nd_wf_def by (auto dest!: subsetD [OF set_update_subset_insert])
qed

lemma wf_insert:
  assumes "nd_wf ifs q n" "nt_id t = n" "nd_timer_ok (length ifs) t"
  shows "nd_wf ifs (nd_timer_insert t q) (Suc n)"
proof -
  have "mset (map nt_id (nd_timer_insert t q)) = mset (map nt_id (t # q))" by (simp add: mset_nd_insert)
  then have "distinct (map nt_id (nd_timer_insert t q)) = distinct (map nt_id (t # q))"
    by (rule mset_eq_imp_distinct_iff)
  with assms show ?thesis by (auto simp: nd_wf_def sorted_nd_insert set_nd_insert)
qed

lemma wf_remove: "nd_wf ifs (p @ t # r) n \<Longrightarrow> nd_wf ifs (p @ r) n"
  by (auto simp: nd_wf_def sorted_append)

section \<open>The table of neighbours\<close>

lemma table_ok_append:
  "table_ok ns \<Longrightarrow> oh_ip_address x \<notin> oh_ip_address ` set ns \<Longrightarrow> oh_status x = HEARD \<or> oh_status x = SYMMETRIC \<Longrightarrow>
   table_ok (ns @ [x])"
  by (auto simp: table_ok_def)

lemma refresh_ips:
  "(\<And>x. oh_ip_address (f x) = oh_ip_address x) \<Longrightarrow> map oh_ip_address (refresh_neighbor a f ns) = map oh_ip_address ns"
  by (induction ns) auto

lemma refresh_set: "set (refresh_neighbor a f ns) \<subseteq> set ns \<union> f ` set ns"
  by (induction ns) auto

lemma table_ok_refresh:
  assumes "table_ok ns" "\<And>x. oh_ip_address (f x) = oh_ip_address x"
    "\<And>x. oh_status (f x) = HEARD \<or> oh_status (f x) = SYMMETRIC"
  shows "table_ok (refresh_neighbor a f ns)"
  using assms refresh_ips [of f a ns] refresh_set [of a f ns] by (fastforce simp: table_ok_def)

lemma erase_set: "set (erase_neighbor a ns) \<subseteq> set ns"
  by (induction ns) auto

lemma erase_ips:
  "distinct (map oh_ip_address ns) \<Longrightarrow> oh_ip_address ` set (erase_neighbor a ns) = oh_ip_address ` set ns - {a}"
  by (induction ns) (auto, metis image_eqI)

lemma erase_distinct:
  "distinct (map oh_ip_address ns) \<Longrightarrow> distinct (map oh_ip_address (erase_neighbor a ns))"
  by (induction ns) (auto simp: erase_ips)

lemma table_ok_erase: "table_ok ns \<Longrightarrow> table_ok (erase_neighbor a ns)"
  using erase_set [of a ns] by (auto simp: table_ok_def erase_distinct)

lemma find_neighbor:
  "find (\<lambda>x. oh_ip_address x = a) ns = None \<longleftrightarrow> a \<notin> oh_ip_address ` set ns"
  by (auto simp: find_None_iff)

lemma find_status:
  "table_ok ns \<Longrightarrow> find (\<lambda>x. oh_ip_address x = a) ns = Some x \<Longrightarrow> oh_status x = HEARD \<or> oh_status x = SYMMETRIC"
  by (auto simp: table_ok_def find_Some_iff)

section \<open>What the operations keep\<close>

text \<open>The part of the state that the invariant is about.\<close>

definition nd_core :: "nd \<Rightarrow> InterfaceEntry list \<times> nd_timer list \<times> nat" where
  "nd_core s = (interface_entry_list s, nd_timerQ s, nd_next_id s)"

lemma keeps_nd_ask [keeps_intros]: "keeps (\<lambda>s. C (nd_core s)) (nd_ask f)"
  by (rule keepsI) (auto simp: nd_ask_def nd_core_def)

lemma keeps_nd_emit [keeps_intros]: "keeps (\<lambda>s. C (nd_core s)) (nd_emit e)"
  by (auto simp: nd_emit_def nd_core_def intro: keeps_upd)

lemma keeps_nd_getcurrtime [keeps_intros]: "keeps (\<lambda>s. C (nd_core s)) nd_getcurrtime"
  unfolding nd_getcurrtime_def by (rule keeps_nd_ask)

lemma keeps_nd_setRealTimer [keeps_intros]: "keeps (\<lambda>s. C (nd_core s)) (nd_setRealTimer t)"
  unfolding nd_setRealTimer_def by (intro keeps_intros)

lemma keeps_interface [keeps_intros]: "keeps I (interface i)"
  unfolding interface_def by (intro keeps_intros) 

lemma keeps_generate [keeps_intros]: "keeps (\<lambda>s. C (nd_core s)) (generate_and_send_hello_message i)"
  unfolding generate_and_send_hello_message_def by (intro keeps_intros)

lemma core_generate: "generate_and_send_hello_message i s = Inr (x, s') \<Longrightarrow> nd_core s' = nd_core s"
  by (rule keeps_unchanged [OF keeps_generate])

text \<open>A timer set is a timer put into the queue.\<close>

lemma set_timer_core:
  assumes "nd_set_timer v h d s = Inr (x, s')"
  obtains t where "nd_core s' = (interface_entry_list s, nd_timer_insert t (nd_timerQ s), Suc (nd_next_id s))"
    "nt_timeout t = nd_clock (nd_env s) (nd_ticks s) + v" "nt_handler t = h" "nt_data t = d" "nt_id t = nd_next_id s"
proof
  let ?t = "\<lparr>nt_timeout = nd_clock (nd_env s) (nd_ticks s) + v, nt_handler = h, nt_data = d, nt_id = nd_next_id s\<rparr>"
  show "nd_core s' = (interface_entry_list s, nd_timer_insert ?t (nd_timerQ s), Suc (nd_next_id s))"
    using assms by (auto simp: nd_set_timer_def nd_getcurrtime_def nd_ask_def nd_timer_add_def nd_setLowestTimer_def
        nd_setRealTimer_def nd_emit_def nd_core_def Let_def sm_simps split: if_splits list.splits)
qed simp_all

text \<open>The search finds the first timer of the neighbour on an interface of the name, if there is one.\<close>

lemma find_entry_timer_Some:
  "find_entry_timer ifs a name q = Inr (Some (t, n, q')) \<Longrightarrow>
   \<exists>p r. q = p @ t # r \<and> q' = p @ r \<and> n = (case r of [] \<Rightarrow> None | u # _ \<Rightarrow> Some u)
     \<and> nd_contain (nt_data t) < length ifs \<and> nd_type (nt_data t) = TIMER_TYPE_ENTRY \<and> nd_data (nt_data t) = a
     \<and> ie_name (ifs ! nd_contain (nt_data t)) = name"
proof (induction q arbitrary: q')
  case (Cons u q)
  show ?case
  proof (cases "nd_contain (nt_data u) < length ifs \<and> nd_type (nt_data u) = TIMER_TYPE_ENTRY \<and> nd_data (nt_data u) = a
      \<and> ie_name (ifs ! nd_contain (nt_data u)) = name")
    case True
    with Cons.prems show ?thesis by (intro exI [of _ "[]"] exI [of _ q]) auto
  next
    case False
    with Cons.prems obtain w where w: "find_entry_timer ifs a name q = Inr (Some (t, n, w))" "q' = u # w"
      by (auto split: if_splits sum.splits)
    from Cons.IH [OF w(1)] obtain p r where "q = p @ t # r \<and> w = p @ r \<and> n = (case r of [] \<Rightarrow> None | u # _ \<Rightarrow> Some u)
        \<and> nd_contain (nt_data t) < length ifs \<and> nd_type (nt_data t) = TIMER_TYPE_ENTRY \<and> nd_data (nt_data t) = a
        \<and> ie_name (ifs ! nd_contain (nt_data t)) = name" by blast
    with w(2) show ?thesis by (intro exI [of _ "u # p"] exI [of _ r]) simp
  qed
qed simp

lemma find_entry_timer_None:
  "find_entry_timer ifs a name q = Inr None \<Longrightarrow> t \<in> set q \<Longrightarrow>
   \<not> (nd_type (nt_data t) = TIMER_TYPE_ENTRY \<and> nd_data (nt_data t) = a \<and> ie_name (ifs ! nd_contain (nt_data t)) = name)"
  by (induction q) (auto split: if_splits sum.splits)

text \<open>It does not fault on timers of the interfaces there are.\<close>

lemma find_entry_timer_runs:
  "(\<forall>t \<in> set q. nd_contain (nt_data t) < length ifs) \<Longrightarrow> \<exists>r. find_entry_timer ifs a name q = Inr r"
  by (induction q) (auto split: sum.split)

section \<open>The invariant\<close>

text \<open>All neighbours matched with their timers, except that \<open>a\<close> of interface \<open>i\<close> has none.\<close>

definition matched_but :: "nat \<Rightarrow> ip \<Rightarrow> InterfaceEntry list \<Rightarrow> nd_timer list \<Rightarrow> bool" where
  "matched_but i a ifs q \<longleftrightarrow> i < length ifs \<and> a \<in> neighbors_of (ifs ! i)
     \<and> (\<forall>j < length ifs. \<forall>b. timers_of j b q = (if b \<in> neighbors_of (ifs ! j) \<and> (j, b) \<noteq> (i, a) then 1 else 0))"

lemma timers_of_positive: "0 < timers_of i a q \<longleftrightarrow> (\<exists>t \<in> set q. timer_of i a t)"
  by (auto simp: timers_of_def length_greater_0_conv filter_empty_conv simp del: length_greater_0_conv)

lemma matched_but_insert:
  "matched_but i a ifs q \<Longrightarrow> timer_of i a t \<Longrightarrow> matched ifs (nd_timer_insert t q)"
  by (auto simp: matched_but_def matched_def timers_of_insert timer_of_def)

lemma matched_hello:
  "nd_type (nt_data t) = TIMER_TYPE_HELLO \<Longrightarrow> matched ifs q \<Longrightarrow> matched ifs (nd_timer_insert t q)"
  by (auto simp: matched_def timers_of_insert timer_of_def)

lemma matched_remove:
  assumes "matched ifs (p @ t # r)" "timer_of i a t" "i < length ifs"
  shows "matched_but i a ifs (p @ r)"
proof -
  have "timers_of j b (p @ r) = (if b \<in> neighbors_of (ifs ! j) \<and> (j, b) \<noteq> (i, a) then 1 else 0)" if "j < length ifs" for j b
  proof -
    have "timers_of j b (p @ t # r) = (if b \<in> neighbors_of (ifs ! j) then 1 else 0)" using assms(1) that by (simp add: matched_def)
    moreover have "timer_of j b t \<longleftrightarrow> (j, b) = (i, a)" using assms(2) by (auto simp: timer_of_def)
    ultimately show ?thesis by (auto simp: timers_of_split split: if_splits)
  qed
  moreover have "a \<in> neighbors_of (ifs ! i)"
    using assms by (auto simp: matched_def timers_of_split split: if_splits dest!: spec [of _ i] spec [of _ a])
  ultimately show ?thesis using assms(3) by (simp add: matched_but_def)
qed

lemma matched_erase:
  assumes "matched_but i a ifs q" "table_ok (ie_one_hop_neighbor_set (ifs ! i))"
  shows "matched (ifs[i := (ifs ! i)\<lparr>ie_one_hop_neighbor_set := erase_neighbor a (ie_one_hop_neighbor_set (ifs ! i))\<rparr>]) q"
  using assms by (auto simp: matched_but_def matched_def table_ok_def erase_ips neighbors_of_def nth_list_update)

lemma matched_new:
  assumes "matched ifs q" "i < length ifs" "oh_ip_address x = a" "a \<notin> neighbors_of (ifs ! i)"
  shows "matched_but i a (ifs[i := (ifs ! i)\<lparr>ie_one_hop_neighbor_set := ie_one_hop_neighbor_set (ifs ! i) @ [x]\<rparr>]) q"
  using assms by (auto simp: matched_but_def matched_def neighbors_of_def nth_list_update)

lemma nd_inv_core: "nd_core s' = nd_core s \<Longrightarrow> nd_inv s' = nd_inv s"
  by (simp add: nd_inv_def nd_core_def)

lemma keeps_nd_inv: "keeps (\<lambda>s. C (nd_core s)) m \<Longrightarrow> (\<And>s. nd_inv s = C (nd_core s)) \<Longrightarrow> keeps nd_inv m"
  by (rule keeps_cong [of "\<lambda>s. C (nd_core s)"]) simp_all

lemma remove_timer_core:
  assumes inv: "nd_inv s" "i < length (interface_entry_list s)" "a \<in> neighbors_of (interface_entry_list s ! i)"
    and run: "remove_neighbor_entry_timer a (ie_name (interface_entry_list s ! i)) s = Inr (x, s')"
  shows "interface_entry_list s' = interface_entry_list s"
    and "nd_wf (interface_entry_list s') (nd_timerQ s') (nd_next_id s')"
    and "matched_but i a (interface_entry_list s') (nd_timerQ s')"
proof -
  let ?ifs = "interface_entry_list s" and ?q = "nd_timerQ s"
  from inv have wf: "nd_wf ?ifs ?q (nd_next_id s)" and m: "matched ?ifs ?q" by (simp_all add: nd_inv_def)
  obtain t where t: "t \<in> set ?q" "timer_of i a t"
    using m inv(2,3) timers_of_positive [of i a ?q] by (auto simp: matched_def)
  obtain f where find: "find_entry_timer ?ifs a (ie_name (?ifs ! i)) ?q = Inr f"
    using find_entry_timer_runs [of ?q ?ifs a "ie_name (?ifs ! i)"] wf by (auto simp: nd_wf_def nd_timer_ok_def)
  have "f \<noteq> None"
    using find_entry_timer_None [of ?ifs a "ie_name (?ifs ! i)" ?q t] find t by (cases f) (auto simp: timer_of_def)
  then obtain u n q' where f: "f = Some (u, n, q')" by auto
  from find_entry_timer_Some [OF find [unfolded f]] obtain p r where split: "?q = p @ u # r" "q' = p @ r"
      "nd_contain (nt_data u) < length ?ifs" "nd_type (nt_data u) = TIMER_TYPE_ENTRY" "nd_data (nt_data u) = a"
      "ie_name (?ifs ! nd_contain (nt_data u)) = ie_name (?ifs ! i)" by auto
  have "nd_contain (nt_data u) = i"
    using wf split(3,6) inv(2) by (auto simp: nd_wf_def distinct_conv_nth)
  with split have u: "timer_of i a u" by (simp add: timer_of_def)
  have core: "nd_core s' = (?ifs, q', nd_next_id s)"
    using run find f by (auto simp: remove_neighbor_entry_timer_def nd_getcurrtime_def nd_ask_def nd_setRealTimer_def
        nd_emit_def nd_core_def Let_def sm_simps split: if_splits option.splits)
  then show "interface_entry_list s' = interface_entry_list s" by (simp add: nd_core_def)
  show "nd_wf (interface_entry_list s') (nd_timerQ s') (nd_next_id s')"
    using wf_remove [of ?ifs p u r] wf split(1,2) core by (simp add: nd_core_def)
  show "matched_but i a (interface_entry_list s') (nd_timerQ s')"
    using matched_remove [of ?ifs p u r i a] m u inv(2) split(1,2) core by (simp add: nd_core_def)
qed

lemma set_entry_timer_inv:
  assumes "nd_wf (interface_entry_list s) (nd_timerQ s) (nd_next_id s)"
    "matched_but i a (interface_entry_list s) (nd_timerQ s)"
    "nd_set_timer v Delete_one_hop_entry \<lparr>nd_type = TIMER_TYPE_ENTRY, nd_data = a, nd_contain = i\<rparr> s = Inr (x, s')"
  shows "nd_inv s'"
  using assms(3)
proof (rule set_timer_core)
  fix t
  assume core: "nd_core s' = (interface_entry_list s, nd_timer_insert t (nd_timerQ s), Suc (nd_next_id s))"
    and t: "nt_handler t = Delete_one_hop_entry" "nt_data t = \<lparr>nd_type = TIMER_TYPE_ENTRY, nd_data = a, nd_contain = i\<rparr>"
      "nt_id t = nd_next_id s"
  then have "nd_timer_ok (length (interface_entry_list s)) t" "timer_of i a t"
    using assms(2) by (simp_all add: nd_timer_ok_def matched_but_def timer_of_def)
  with assms(1,2) t(3) core show ?thesis
    by (simp add: nd_inv_def nd_core_def wf_insert matched_but_insert)
qed

lemma set_hello_timer_inv:
  assumes "nd_inv s" "i < length (interface_entry_list s)"
    "nd_set_timer v Send_hello_message \<lparr>nd_type = TIMER_TYPE_HELLO, nd_data = 0, nd_contain = i\<rparr> s = Inr (x, s')"
  shows "nd_inv s'" "interface_entry_list s' = interface_entry_list s" "set (nd_timerQ s) \<subseteq> set (nd_timerQ s')"
proof -
  from assms(3) obtain t where core: "nd_core s' = (interface_entry_list s, nd_timer_insert t (nd_timerQ s), Suc (nd_next_id s))"
    and t: "nt_handler t = Send_hello_message" "nt_data t = \<lparr>nd_type = TIMER_TYPE_HELLO, nd_data = 0, nd_contain = i\<rparr>"
      "nt_id t = nd_next_id s" by (rule set_timer_core)
  from t assms(2) have "nd_timer_ok (length (interface_entry_list s)) t" by (simp add: nd_timer_ok_def)
  with assms(1) t core show "nd_inv s'" by (simp add: nd_inv_def nd_core_def wf_insert matched_hello)
  from core show "interface_entry_list s' = interface_entry_list s" "set (nd_timerQ s) \<subseteq> set (nd_timerQ s')"
    by (auto simp: nd_core_def set_nd_insert)
qed

lemma send_hello_inv:
  assumes "nd_inv s" "send_hello_message d s = Inr (x, s')"
  shows "nd_inv s' \<and> interface_entry_list s' = interface_entry_list s \<and> set (nd_timerQ s) \<subseteq> set (nd_timerQ s')"
proof -
  from assms(2) obtain l s1 where g: "generate_and_send_hello_message (nd_contain d) s = Inr (l, s1)"
    and i: "nd_contain d < length (interface_entry_list s1)"
    and rest: "s' = s1 \<or> nd_set_timer (ie_hello_interval (interface_entry_list s1 ! nd_contain d)) Send_hello_message
        \<lparr>nd_type = TIMER_TYPE_HELLO, nd_data = 0, nd_contain = nd_contain d\<rparr> s1 = Inr (x, s')"
    by (auto simp: send_hello_message_def interface_def Let_def sm_simps split: sum.splits if_splits)
  from core_generate [OF g] have s1: "interface_entry_list s1 = interface_entry_list s" "nd_timerQ s1 = nd_timerQ s"
    by (simp_all add: nd_core_def)
  have inv: "nd_inv s1" using nd_inv_core [OF core_generate [OF g]] assms(1) by simp
  from rest show ?thesis
  proof
    assume "s' = s1"
    with s1 inv show ?thesis by simp
  next
    assume "nd_set_timer (ie_hello_interval (interface_entry_list s1 ! nd_contain d)) Send_hello_message
        \<lparr>nd_type = TIMER_TYPE_HELLO, nd_data = 0, nd_contain = nd_contain d\<rparr> s1 = Inr (x, s')"
    from set_hello_timer_inv [OF inv i this] s1 show ?thesis by simp
  qed
qed

text \<open>The two cases of \<open>update_info\<close>: a source that is not in the table, and one that is.\<close>

abbreviation (input) heard_status :: "ip \<Rightarrow> hello \<Rightarrow> u8" where
  "heard_status own h \<equiv>
     (if host_status own (zip (he_neighbor_set h) (he_status_set h)) = NO_ENTRY then HEARD else SYMMETRIC)"

abbreviation (input) heard_two_hop :: "ip \<Rightarrow> ip \<Rightarrow> hello \<Rightarrow> TwoHopEntry list" where
  "heard_two_hop own src h \<equiv> two_hop_set own src (zip (he_neighbor_set h) (he_status_set h))"

lemma update_info_new:
  assumes "i < length (interface_entry_list s)" "e = interface_entry_list s ! i"
    "find (\<lambda>x. oh_ip_address x = src) (ie_one_hop_neighbor_set e) = None"
  shows "update_info i src h s =
    andthen (set_neighbors i (ie_one_hop_neighbor_set e @ [\<lparr>oh_ip_address = src, oh_quality = 0,
        oh_local_if_set = he_local_if_set h, oh_two_hop_neighbor_set = heard_two_hop (ie_interface_address e) src h,
        oh_status = heard_status (ie_interface_address e) h, oh_live_time = he_live_time h\<rparr>]))
      (nd_set_timer (ucast (he_live_time h)) Delete_one_hop_entry
        \<lparr>nd_type = TIMER_TYPE_ENTRY, nd_data = src, nd_contain = i\<rparr>) s"
  using assms by (simp add: update_info_def interface_def Let_def bnd_apply gets_apply ret_apply)

lemma update_info_known:
  assumes "i < length (interface_entry_list s)" "e = interface_entry_list s ! i"
    "find (\<lambda>x. oh_ip_address x = src) (ie_one_hop_neighbor_set e) = Some y" "oh_status y = HEARD \<or> oh_status y = SYMMETRIC"
  shows "update_info i src h s =
    andthen (set_neighbors i (refresh_neighbor src (\<lambda>x. x\<lparr>oh_two_hop_neighbor_set := heard_two_hop (ie_interface_address e) src h,
        oh_local_if_set := he_local_if_set h, oh_live_time := he_live_time h,
        oh_status := heard_status (ie_interface_address e) h\<rparr>) (ie_one_hop_neighbor_set e)))
      (andthen (remove_neighbor_entry_timer src (ie_name e))
        (nd_set_timer (ucast (he_live_time h)) Delete_one_hop_entry
          \<lparr>nd_type = TIMER_TYPE_ENTRY, nd_data = src, nd_contain = i\<rparr>)) s"
  using assms by (auto simp: update_info_def interface_def Let_def bnd_apply gets_apply ret_apply)

lemma new_neighbor_inv:
  assumes "nd_inv s" "i < length (interface_entry_list s)" "a \<notin> neighbors_of (interface_entry_list s ! i)"
    "oh_ip_address x = a" "oh_status x = HEARD \<or> oh_status x = SYMMETRIC"
    "andthen (set_neighbors i (ie_one_hop_neighbor_set (interface_entry_list s ! i) @ [x]))
       (nd_set_timer v Delete_one_hop_entry \<lparr>nd_type = TIMER_TYPE_ENTRY, nd_data = a, nd_contain = i\<rparr>) s = Inr (y, s')"
  shows "nd_inv s'"
proof -
  let ?ifs = "interface_entry_list s" let ?ns = "ie_one_hop_neighbor_set (?ifs ! i)"
  let ?ifs' = "?ifs[i := (?ifs ! i)\<lparr>ie_one_hop_neighbor_set := ?ns @ [x]\<rparr>]"
  from assms(6) have t: "nd_set_timer v Delete_one_hop_entry \<lparr>nd_type = TIMER_TYPE_ENTRY, nd_data = a, nd_contain = i\<rparr>
      (s\<lparr>interface_entry_list := ?ifs'\<rparr>) = Inr (y, s')"
    by (simp add: set_neighbors_def sm_simps)
  from assms(1) have wf: "nd_wf ?ifs (nd_timerQ s) (nd_next_id s)" and m: "matched ?ifs (nd_timerQ s)"
    by (simp_all add: nd_inv_def)
  from wf assms(2) have "table_ok ?ns" by (simp add: nd_wf_def)
  then have "table_ok (?ns @ [x])" using assms(3-5) by (intro table_ok_append) (auto simp: neighbors_of_def)
  with wf assms(2) have "nd_wf ?ifs' (nd_timerQ s) (nd_next_id s)" by (intro wf_set)
  moreover from m assms(2-4) have "matched_but i a ?ifs' (nd_timerQ s)" by (intro matched_new)
  ultimately show ?thesis using set_entry_timer_inv [OF _ _ t] by simp
qed

lemma refresh_inv:
  assumes "nd_inv s" "i < length (interface_entry_list s)" "a \<in> neighbors_of (interface_entry_list s ! i)"
    "\<And>x. oh_ip_address (f x) = oh_ip_address x" "\<And>x. oh_status (f x) = HEARD \<or> oh_status (f x) = SYMMETRIC"
    "andthen (set_neighbors i (refresh_neighbor a f (ie_one_hop_neighbor_set (interface_entry_list s ! i))))
       (andthen (remove_neighbor_entry_timer a (ie_name (interface_entry_list s ! i)))
         (nd_set_timer v Delete_one_hop_entry \<lparr>nd_type = TIMER_TYPE_ENTRY, nd_data = a, nd_contain = i\<rparr>)) s = Inr (y, s')"
  shows "nd_inv s'"
proof -
  let ?ifs = "interface_entry_list s" let ?ns = "ie_one_hop_neighbor_set (?ifs ! i)"
  let ?ifs' = "?ifs[i := (?ifs ! i)\<lparr>ie_one_hop_neighbor_set := refresh_neighbor a f ?ns\<rparr>]"
  let ?s = "s\<lparr>interface_entry_list := ?ifs'\<rparr>"
  have ips: "oh_ip_address ` set (refresh_neighbor a f ?ns) = oh_ip_address ` set ?ns"
    using refresh_ips [of f a ?ns] assms(4) by (metis list.set_map)
  from assms(1) have wf: "nd_wf ?ifs (nd_timerQ s) (nd_next_id s)" and m: "matched ?ifs (nd_timerQ s)"
    by (simp_all add: nd_inv_def)
  from wf assms(2) have "table_ok ?ns" by (simp add: nd_wf_def)
  with assms(4,5) have "table_ok (refresh_neighbor a f ?ns)" by (intro table_ok_refresh)
  with wf assms(2) have "nd_wf ?ifs' (nd_timerQ s) (nd_next_id s)" by (intro wf_set)
  moreover have "matched ?ifs' (nd_timerQ s)"
    using m assms(2) ips by (intro matched_set) (simp_all add: matched_def neighbors_of_def)
  ultimately have inv: "nd_inv ?s" by (simp add: nd_inv_def)
  have mem: "i < length (interface_entry_list ?s)" "a \<in> neighbors_of (interface_entry_list ?s ! i)"
    using assms(2,3) ips by (simp_all add: neighbors_of_def)
  from assms(2,6) obtain u s1 where rem: "remove_neighbor_entry_timer a (ie_name (interface_entry_list ?s ! i)) ?s = Inr (u, s1)"
    and t: "nd_set_timer v Delete_one_hop_entry \<lparr>nd_type = TIMER_TYPE_ENTRY, nd_data = a, nd_contain = i\<rparr> s1 = Inr (y, s')"
    by (auto simp: set_neighbors_def sm_simps split: sum.splits)
  from remove_timer_core(2,3) [OF inv mem rem] show ?thesis by (rule set_entry_timer_inv) (rule t)
qed

lemma update_info_index: "update_info i src h s = Inr (x, s') \<Longrightarrow> i < length (interface_entry_list s)"
  by (auto simp: update_info_def interface_def sm_simps split: if_splits)

lemma update_info_inv:
  assumes "nd_inv s" and run: "update_info i src h s = Inr (x, s')"
  shows "nd_inv s'"
proof -
  let ?e = "interface_entry_list s ! i"
  note i = update_info_index [OF run]
  show ?thesis
  proof (cases "find (\<lambda>x. oh_ip_address x = src) (ie_one_hop_neighbor_set ?e)")
    case None
    then have new: "src \<notin> neighbors_of ?e" by (simp add: find_neighbor neighbors_of_def)
    from run [unfolded update_info_new [OF i refl None]] show ?thesis
      by (rule new_neighbor_inv [OF assms(1) i new, rotated 2]) simp_all
  next
    case (Some y)
    then have mem: "src \<in> neighbors_of ?e" by (auto simp: neighbors_of_def find_Some_iff)
    have st: "oh_status y = HEARD \<or> oh_status y = SYMMETRIC"
      using Some assms(1) i by (intro find_status) (auto simp: nd_inv_def nd_wf_def)
    from run [unfolded update_info_known [OF i refl Some st]] show ?thesis
      by (rule refresh_inv [OF assms(1) i mem, rotated 2]) simp_all
  qed
qed

text \<open>A timer is taken out behind its handler; a handler of a deletion timer has erased the neighbour.\<close>

lemma erase_and_take_inv:
  assumes inv: "nd_inv s" and t: "t \<in> set (nd_timerQ s)" "nt_handler t = Delete_one_hop_entry"
    and run: "delete_one_hop_entry (nt_data t) s = Inr (x, s1)"
  shows "nd_inv (s1\<lparr>nd_timerQ := snd (nd_take (nt_id t) (nd_timerQ s1))\<rparr>)"
proof -
  let ?i = "nd_contain (nt_data t)" let ?a = "nd_data (nt_data t)"
  let ?ns = "ie_one_hop_neighbor_set (interface_entry_list s ! ?i)"
  from inv have wf: "nd_wf (interface_entry_list s) (nd_timerQ s) (nd_next_id s)"
    and m: "matched (interface_entry_list s) (nd_timerQ s)" by (simp_all add: nd_inv_def)
  from t(1) obtain p r where q: "nd_timerQ s = p @ t # r" by (meson split_list)
  with wf have "\<forall>u \<in> set p. nt_id u \<noteq> nt_id t" by (auto simp: nd_wf_def image_iff)
  from nd_take_split [OF this] q have take: "snd (nd_take (nt_id t) (nd_timerQ s)) = p @ r" by simp
  from wf t have i: "?i < length (interface_entry_list s)" and "timer_of ?i ?a t"
    by (auto simp: nd_wf_def nd_timer_ok_def timer_of_def)
  with m q have but: "matched_but ?i ?a (interface_entry_list s) (p @ r)" by (auto intro: matched_remove)
  from wf i have tab: "table_ok ?ns" by (simp add: nd_wf_def)
  have s1: "s1 = s\<lparr>interface_entry_list := (interface_entry_list s)
      [?i := (interface_entry_list s ! ?i)\<lparr>ie_one_hop_neighbor_set := erase_neighbor ?a ?ns\<rparr>]\<rparr>"
    using run i by (auto simp: delete_one_hop_entry_def interface_def set_neighbors_def sm_simps)
  have "nd_wf (interface_entry_list s) (p @ r) (nd_next_id s)" using wf q wf_remove by metis
  with wf_set [OF this i table_ok_erase [OF tab]] matched_erase [OF but tab] show ?thesis
    by (simp add: nd_inv_def s1 take)
qed

lemma hello_and_take_inv:
  assumes inv: "nd_inv s" and t: "t \<in> set (nd_timerQ s)" "nt_handler t = Send_hello_message"
    and run: "send_hello_message (nt_data t) s = Inr (x, s1)"
  shows "nd_inv (s1\<lparr>nd_timerQ := snd (nd_take (nt_id t) (nd_timerQ s1))\<rparr>)"
proof -
  from send_hello_inv [OF inv run] t have inv1: "nd_inv s1" and "t \<in> set (nd_timerQ s1)" by auto
  then obtain p r where q: "nd_timerQ s1 = p @ t # r" by (meson split_list)
  from inv1 have wf: "nd_wf (interface_entry_list s1) (p @ t # r) (nd_next_id s1)"
    and m: "matched (interface_entry_list s1) (p @ t # r)" by (simp_all add: nd_inv_def q)
  from wf have "\<forall>u \<in> set p. nt_id u \<noteq> nt_id t" by (auto simp: nd_wf_def image_iff)
  from nd_take_split [OF this] have take: "snd (nd_take (nt_id t) (nd_timerQ s1)) = p @ r" by (simp add: q)
  from wf t(2) have "\<not> timer_of j b t" for j b by (auto simp: nd_wf_def nd_timer_ok_def timer_of_def)
  then have "timers_of j b (p @ t # r) = timers_of j b (p @ r)" for j b by (simp add: timers_of_split)
  with m have "matched (interface_entry_list s1) (p @ r)" by (simp add: matched_def)
  with wf_remove [OF wf] show ?thesis by (simp add: nd_inv_def take)
qed

lemma schedule_loop_inv: "nd_schedule_loop n c it s = Inr (x, s') \<Longrightarrow> nd_inv s \<Longrightarrow> nd_inv s'"
proof (induction n arbitrary: it s)
  case 0
  then show ?case by (simp add: sm_simps)
next
  case (Suc n)
  show ?case
  proof (cases "nd_timer_at it (nd_timerQ s)")
    case None
    with Suc.prems show ?thesis by (simp add: sm_simps)
  next
    case (Some t)
    then have t: "t \<in> set (nd_timerQ s)" by (auto dest: nd_timer_at_set)
    show ?thesis
    proof (cases "nt_timeout t \<le> c")
      case True
      with Suc.prems Some obtain u s1 where h: "nd_run_handler (nt_handler t) (nt_data t) s = Inr (u, s1)"
        and rest: "nd_schedule_loop n c (fst (nd_take (nt_id t) (nd_timerQ s1)))
          (s1\<lparr>nd_timerQ := snd (nd_take (nt_id t) (nd_timerQ s1))\<rparr>) = Inr (x, s')"
        by (auto simp: sm_simps case_prod_unfold split: sum.splits)
      have "nd_inv (s1\<lparr>nd_timerQ := snd (nd_take (nt_id t) (nd_timerQ s1))\<rparr>)"
        using h Suc.prems(2) t erase_and_take_inv hello_and_take_inv
        by (auto simp: nd_run_handler_def split: nd_hfunc.splits)
      with rest show ?thesis by (rule Suc.IH)
    next
      case False
      with Suc.prems Some show ?thesis by (simp add: sm_simps)
    qed
  qed
qed

end
