(* ===== verification/Nd_Schedule.thy ===== *)
theory Nd_Schedule
  imports Nd_Laws
begin

text \<open>
  The alarm of the neighbour discovery: with a clock that does not run backwards, hello
  intervals that are not too long, memory, and tables that fit into a message, \<open>scheduleTimer\<close>
  comes back, calls every timer that was due, and leaves the neighbours whose timers were not.
  The fuel that is enough is the number of due timers plus one.
\<close>

section \<open>Due timers\<close>

definition nd_due :: "u64 \<Rightarrow> nd_timer list \<Rightarrow> nd_timer list" where
  "nd_due c q = filter (\<lambda>t. nt_timeout t \<le> c) q"

definition nd_later :: "u64 \<Rightarrow> nd_timer list \<Rightarrow> nd_timer list" where
  "nd_later c q = filter (\<lambda>t. c < nt_timeout t) q"

text \<open>
  What the handlers rely on: memory is there, the hello intervals are at most \<open>timer_max\<close>, and
  the message of each interface fits its buffer.
\<close>

definition messages_fit :: "InterfaceEntry list \<Rightarrow> bool" where
  "messages_fit ifs \<longleftrightarrow> (\<forall>e \<in> set ifs. ie_hello_interval e \<le> timer_max
     \<and> 8 + 4 * length ifs + 5 * length (ie_one_hop_neighbor_set e) \<le> MESSAGE_BUFFER_SIZE)"

definition can_fire :: "nat \<Rightarrow> nd \<Rightarrow> bool" where
  "can_fire k s \<longleftrightarrow> k < nd_ticks s \<and> steady_clock k (nd_clock (nd_env s)) \<and> (\<forall>j. nd_malloc (nd_env s) j)
     \<and> messages_fit (interface_entry_list s) \<and> nd_inv s"

lemma length_erase: "length (erase_neighbor a ns) \<le> length ns"
  by (induction ns) auto

lemma messages_fit_set:
  assumes "messages_fit ifs" "i < length ifs" "length ns \<le> length (ie_one_hop_neighbor_set (ifs ! i))"
  shows "messages_fit (ifs[i := (ifs ! i)\<lparr>ie_one_hop_neighbor_set := ns\<rparr>])"
proof -
  have e: "8 + 4 * length ifs + 5 * length (ie_one_hop_neighbor_set (ifs ! i)) \<le> MESSAGE_BUFFER_SIZE"
    "ie_hello_interval (ifs ! i) \<le> timer_max" using assms(1,2) by (simp_all add: messages_fit_def)
  with assms(3) have "8 + 4 * length ifs + 5 * length ns \<le> MESSAGE_BUFFER_SIZE" by linarith
  with assms(1) e(2) show ?thesis
    unfolding messages_fit_def by (auto dest!: subsetD [OF set_update_subset_insert])
qed

text \<open>A generated message needs memory for the message only.\<close>

lemma generate_runs:
  assumes "i < length (interface_entry_list s)" "messages_fit (interface_entry_list s)" "nd_malloc (nd_env s) (nd_ticks s)"
  shows "\<exists>l outs. generate_and_send_hello_message i s = Inr (l, s\<lparr>nd_ticks := Suc (nd_ticks s), nd_outs := outs\<rparr>)"
proof -
  let ?e = "interface_entry_list s ! i"
  have "length (hello_bytes (map ie_interface_address (interface_entry_list s)) (ie_one_hop_neighbor_set ?e)) \<le> MESSAGE_BUFFER_SIZE"
    using assms(1,2) length_hello_bytes [of "map ie_interface_address (interface_entry_list s)" "ie_one_hop_neighbor_set ?e"]
    by (auto simp: messages_fit_def)
  with assms(1,3) show ?thesis
    by (simp add: generate_and_send_hello_message_def interface_def nd_ask_def nd_emit_def Let_def sm_simps)
      (rule exI, rule refl)
qed

lemma set_timer_runs:
  assumes "nd_malloc (nd_env s) (Suc (nd_ticks s))"
  shows "\<exists>t outs. nd_set_timer v h d s = Inr ((), s\<lparr>nd_ticks := nd_ticks s + 2, nd_timerQ := nd_timer_insert t (nd_timerQ s),
      nd_next_id := Suc (nd_next_id s), nd_outs := outs\<rparr>)
    \<and> nt_timeout t = nd_clock (nd_env s) (nd_ticks s) + v \<and> nt_handler t = h \<and> nt_data t = d \<and> nt_id t = nd_next_id s"
proof -
  let ?t = "\<lparr>nt_timeout = nd_clock (nd_env s) (nd_ticks s) + v, nt_handler = h, nt_data = d, nt_id = nd_next_id s\<rparr>"
  obtain u q where q: "nd_timer_insert ?t (nd_timerQ s) = u # q"
    by (metis ndq.length_add length_Suc_conv)
  have "\<exists>outs. nd_set_timer v h d s = Inr ((), s\<lparr>nd_ticks := nd_ticks s + 2, nd_timerQ := nd_timer_insert ?t (nd_timerQ s),
      nd_next_id := Suc (nd_next_id s), nd_outs := outs\<rparr>)"
  proof (cases "nt_timeout u = nt_timeout ?t")
    case True
    with q assms show ?thesis
      by (simp add: nd_set_timer_def nd_getcurrtime_def nd_ask_def nd_timer_add_def nd_setLowestTimer_def nd_setRealTimer_def
          nd_emit_def Let_def sm_simps) (rule exI, rule refl)
  next
    case False
    with q assms show ?thesis
      by (intro exI [of _ "nd_outs s"])
        (simp add: nd_set_timer_def nd_getcurrtime_def nd_ask_def nd_timer_add_def nd_setLowestTimer_def sm_simps)
  qed
  then show ?thesis by (intro exI [of _ ?t]) simp
qed

section \<open>One timer\<close>

lemma timers_later_insert:
  "nd_type (nt_data t) = TIMER_TYPE_HELLO \<Longrightarrow> timers_of i a (nd_later c (nd_timer_insert t q)) = timers_of i a (nd_later c q)"
  using timers_of_insert [of i a t q]
  by (simp add: timers_of_def nd_later_def timer_of_def conj_commute ndq.filter_add)

lemma nd_due_head:
  assumes "sorted (map nt_timeout q)" "nd_due c q = t # ds"
  obtains r where "q = t # r" "nd_due c r = ds" "nt_timeout t \<le> c"
proof -
  from ndq.due_takeWhile [OF assms(1), of c] assms(2) have "takeWhile (\<lambda>u. nt_timeout u \<le> c) q = t # ds"
    by (simp add: nd_due_def)
  then obtain r where "q = t # r" "nt_timeout t \<le> c" by (cases q) (auto split: if_splits)
  with assms(2) show thesis by (intro that [of r]) (simp_all add: nd_due_def)
qed

text \<open>
  The function of the first due timer returns; afterwards the timer still stands first, behind
  it the timers that were due before, and what is not due yet matches the same neighbours.
\<close>

lemma handler_runs:
  assumes can: "can_fire k s" and q: "nd_timerQ s = t # r" and due: "nt_timeout t \<le> nd_clock (nd_env s) k"
  shows "\<exists>s' r'. nd_run_handler (nt_handler t) (nt_data t) s = Inr ((), s') \<and> nd_timerQ s' = t # r'
    \<and> can_fire k (s'\<lparr>nd_timerQ := r'\<rparr>) \<and> nd_env s' = nd_env s
    \<and> nd_due (nd_clock (nd_env s) k) r' = nd_due (nd_clock (nd_env s) k) r
    \<and> (\<forall>i a. timers_of i a (nd_later (nd_clock (nd_env s) k) r') = timers_of i a (nd_later (nd_clock (nd_env s) k) r))
    \<and> length (interface_entry_list s') = length (interface_entry_list s)"
proof -
  let ?i = "nd_contain (nt_data t)" let ?c = "nd_clock (nd_env s) k"
  from can have inv: "nd_inv s" and fit: "messages_fit (interface_entry_list s)" and mem: "\<And>j. nd_malloc (nd_env s) j"
    and st: "steady_clock k (nd_clock (nd_env s))" "k < nd_ticks s" by (auto simp: can_fire_def)
  have ok: "nd_timer_ok (length (interface_entry_list s)) t" using inv q by (simp add: nd_inv_def nd_wf_def)
  then have i: "?i < length (interface_entry_list s)" by (simp add: nd_timer_ok_def)
  have take: "nd_take (nt_id t) (t # r') = (nd_begin r', r')" for r' by simp
  from ok consider "nt_handler t = Delete_one_hop_entry" | "nt_handler t = Send_hello_message"
    by (auto simp: nd_timer_ok_def)
  then show ?thesis
  proof cases
    case 1
    let ?ns = "erase_neighbor (nd_data (nt_data t)) (ie_one_hop_neighbor_set (interface_entry_list s ! ?i))"
    let ?s = "s\<lparr>interface_entry_list := (interface_entry_list s)
      [?i := (interface_entry_list s ! ?i)\<lparr>ie_one_hop_neighbor_set := ?ns\<rparr>]\<rparr>"
    have run: "delete_one_hop_entry (nt_data t) s = Inr ((), ?s)"
      using i by (simp add: delete_one_hop_entry_def interface_def set_neighbors_def sm_simps)
    from erase_and_take_inv [OF inv _ 1 run] have "nd_inv (?s\<lparr>nd_timerQ := r\<rparr>)" by (simp add: q)
    moreover have "messages_fit (interface_entry_list ?s)"
      using messages_fit_set [OF fit i] length_erase by simp
    ultimately show ?thesis using st mem run 1
      by (intro exI [of _ ?s] exI [of _ r]) (simp add: nd_run_handler_def can_fire_def q)
  next
    case 2
    obtain l outs where g: "generate_and_send_hello_message ?i s = Inr (l, s\<lparr>nd_ticks := Suc (nd_ticks s), nd_outs := outs\<rparr>)"
      using generate_runs [OF i fit mem] by blast
    let ?s1 = "s\<lparr>nd_ticks := Suc (nd_ticks s), nd_outs := outs\<rparr>" let ?v = "ie_hello_interval (interface_entry_list s ! ?i)"
    have v: "?v \<le> timer_max" using fit i by (simp add: messages_fit_def)
    show ?thesis
    proof (cases "?v = 0")
      case True
      with i g have run: "send_hello_message (nt_data t) s = Inr ((), ?s1)"
        by (simp add: send_hello_message_def interface_def Let_def sm_simps)
      from hello_and_take_inv [OF inv _ 2 run] have "nd_inv (?s1\<lparr>nd_timerQ := r\<rparr>)" by (simp add: q)
      with st mem fit run 2 show ?thesis
        by (intro exI [of _ ?s1] exI [of _ r]) (simp add: nd_run_handler_def can_fire_def q)
    next
      case False
      let ?d = "\<lparr>nd_type = TIMER_TYPE_HELLO, nd_data = 0, nd_contain = ?i\<rparr>"
      obtain u outs' where u: "nd_set_timer ?v Send_hello_message ?d ?s1 = Inr ((), ?s1\<lparr>nd_ticks := nd_ticks ?s1 + 2,
            nd_timerQ := nd_timer_insert u (nd_timerQ ?s1), nd_next_id := Suc (nd_next_id ?s1), nd_outs := outs'\<rparr>)"
          and tu: "nt_timeout u = nd_clock (nd_env ?s1) (nd_ticks ?s1) + ?v" "nt_data u = ?d"
        using set_timer_runs [of ?s1 ?v Send_hello_message ?d] mem by auto
      let ?s2 = "?s1\<lparr>nd_ticks := nd_ticks ?s1 + 2, nd_timerQ := nd_timer_insert u (nd_timerQ ?s1),
            nd_next_id := Suc (nd_next_id ?s1), nd_outs := outs'\<rparr>"
      from False i g u have run: "send_hello_message (nt_data t) s = Inr ((), ?s2)"
        by (simp add: send_hello_message_def interface_def Let_def sm_simps)
      have late: "?c < nt_timeout u"
        unfolding tu(1) using steady_clock_later [OF st(1), of "Suc (nd_ticks s)" ?v] st(2) v False
        by (simp add: word_gt_0)
      have lt: "nt_timeout t < nt_timeout u" using due late by (rule le_less_trans)
      from hello_and_take_inv [OF inv _ 2 run] have "nd_inv (?s2\<lparr>nd_timerQ := nd_timer_insert u r\<rparr>)"
        by (simp add: q lt)
      with st mem fit run 2 late tu(2) show ?thesis
        by (intro exI [of _ ?s2] exI [of _ "nd_timer_insert u r"])
          (simp add: nd_run_handler_def can_fire_def q lt nd_due_def ndq.due_add timers_later_insert)
    qed
  qed
qed

section \<open>All of them\<close>

lemma timers_later_drop:
  "nt_timeout t \<le> c \<Longrightarrow> timers_of i a (nd_later c (t # r)) = timers_of i a (nd_later c r)"
  by (simp add: nd_later_def leD)

lemma loop_runs:
  assumes "can_fire k s" "length (nd_due c (nd_timerQ s)) < n" "c = nd_clock (nd_env s) k"
  shows "\<exists>s'. nd_schedule_loop n c (nd_begin (nd_timerQ s)) s = Inr (nd_begin (nd_timerQ s'), s') \<and> nd_inv s'
    \<and> nd_due c (nd_timerQ s') = []
    \<and> (\<forall>i a. timers_of i a (nd_timerQ s') = timers_of i a (nd_later c (nd_timerQ s)))
    \<and> length (interface_entry_list s') = length (interface_entry_list s)"
  using assms
proof (induction "nd_due c (nd_timerQ s)" arbitrary: n s)
  case Nil
  then obtain m where n: "n = Suc m" by (cases n) auto
  have "\<forall>t \<in> set (nd_timerQ s). c < nt_timeout t"
    using Nil.hyps [symmetric] by (auto simp: nd_due_def filter_empty_conv not_le)
  then have later: "nd_later c (nd_timerQ s) = nd_timerQ s" by (simp add: nd_later_def filter_id_conv)
  from Nil n have "nd_schedule_loop n c (nd_begin (nd_timerQ s)) s = Inr (nd_begin (nd_timerQ s), s)"
    by (cases "nd_timerQ s") (auto simp: nd_timer_at_begin nd_due_def sm_simps split: if_splits)
  with Nil later show ?case by (intro exI [of _ s]) (simp add: can_fire_def)
next
  case (Cons t ds)
  have "length (t # ds) < n" using Cons.prems(2) by (simp only: Cons.hyps(2))
  then obtain m where n: "n = Suc m" "length ds < m" by (cases n) auto
  have "sorted (map nt_timeout (nd_timerQ s))" using Cons.prems(1) by (simp add: can_fire_def nd_inv_def nd_wf_def)
  then obtain r where r: "nd_timerQ s = t # r" "nd_due c r = ds" "nt_timeout t \<le> c"
    using nd_due_head [OF _ Cons.hyps(2) [symmetric]] by metis
  from handler_runs [OF Cons.prems(1) r(1)] r(3) Cons.prems(3) obtain s1 r' where
    run: "nd_run_handler (nt_handler t) (nt_data t) s = Inr ((), s1)" and q1: "nd_timerQ s1 = t # r'"
    and s1: "can_fire k (s1\<lparr>nd_timerQ := r'\<rparr>)" "nd_env s1 = nd_env s" "nd_due c r' = nd_due c r"
      "\<forall>i a. timers_of i a (nd_later c r') = timers_of i a (nd_later c r)"
      "length (interface_entry_list s1) = length (interface_entry_list s)" by auto
  let ?s2 = "s1\<lparr>nd_timerQ := r'\<rparr>"
  have step: "nd_schedule_loop n c (nd_begin (nd_timerQ s)) s = nd_schedule_loop m c (nd_begin (nd_timerQ ?s2)) ?s2"
    using r(1,3) run q1 by (simp add: n(1) nd_timer_at_begin sm_simps)
  have ds: "ds = nd_due c (nd_timerQ ?s2)" using s1(3) r(2) by simp
  have len: "length (nd_due c (nd_timerQ ?s2)) < m" using n(2) ds by simp
  have "c = nd_clock (nd_env ?s2) k" using Cons.prems(3) s1(2) by simp
  from Cons.hyps(1) [OF ds s1(1) len this] obtain s' where
    "nd_schedule_loop m c (nd_begin (nd_timerQ ?s2)) ?s2 = Inr (nd_begin (nd_timerQ s'), s')" "nd_inv s'"
    "nd_due c (nd_timerQ s') = []" "\<forall>i a. timers_of i a (nd_timerQ s') = timers_of i a (nd_later c r')"
    "length (interface_entry_list s') = length (interface_entry_list s1)" by auto
  with step s1(4,5) timers_later_drop [OF r(3)] show ?case by (intro exI [of _ s']) (simp add: r(1))
qed

lemma scheduleTimer_runs:
  assumes "steady_clock (nd_ticks s) (nd_clock (nd_env s))" "\<forall>j. nd_malloc (nd_env s) j"
    "messages_fit (interface_entry_list s)" "nd_inv s" and c: "c = nd_clock (nd_env s) (nd_ticks s)"
    and fuel: "length (nd_due c (nd_timerQ s)) < fuel"
  shows "\<exists>s'. nd_scheduleTimer fuel s = Inr ((), s') \<and> (\<forall>t \<in> set (nd_timerQ s'). c < nt_timeout t)
    \<and> (\<forall>i < length (interface_entry_list s). \<forall>a. a \<in> neighbors_of (interface_entry_list s' ! i)
        \<longleftrightarrow> (\<exists>t \<in> set (nd_timerQ s). timer_of i a t \<and> c < nt_timeout t))"
proof -
  let ?s = "s\<lparr>nd_ticks := Suc (nd_ticks s)\<rparr>"
  have "can_fire (nd_ticks s) ?s" using assms(1-4) by (simp add: can_fire_def nd_inv_def)
  from loop_runs [OF this, of c fuel] fuel c obtain s1 where
    loop: "nd_schedule_loop fuel c (nd_begin (nd_timerQ s)) ?s = Inr (nd_begin (nd_timerQ s1), s1)"
    and s1: "nd_inv s1" "nd_due c (nd_timerQ s1) = []"
      "\<forall>i a. timers_of i a (nd_timerQ s1) = timers_of i a (nd_later c (nd_timerQ s))"
      "length (interface_entry_list s1) = length (interface_entry_list s)" by auto
  have "\<exists>outs. nd_scheduleTimer fuel s = Inr ((), s1\<lparr>nd_outs := outs\<rparr>)"
  proof (cases "nd_timerQ s1")
    case Nil
    with loop c show ?thesis
      by (intro exI [of _ "nd_outs s1"])
        (simp add: nd_scheduleTimer_def nd_getcurrtime_def nd_ask_def sm_simps nd_timer_at_def nd_begin_def)
  next
    case (Cons t q)
    then have "nd_timer_at (nd_begin (nd_timerQ s1)) (nd_timerQ s1) = Some t" by (simp add: nd_timer_at_begin)
    moreover have "c < nt_timeout t" using s1(2) Cons by (auto simp: nd_due_def split: if_splits)
    then have "0 < nt_timeout t" by (metis word_gt_0 word_not_simps(1))
    ultimately show ?thesis using loop c \<open>c < nt_timeout t\<close>
      by (simp add: nd_scheduleTimer_def nd_getcurrtime_def nd_ask_def nd_setRealTimer_def nd_emit_def Let_def sm_simps)
        (rule exI, rule refl)
  qed
  then obtain outs where run: "nd_scheduleTimer fuel s = Inr ((), s1\<lparr>nd_outs := outs\<rparr>)" ..
  have "a \<in> neighbors_of (interface_entry_list s1 ! i) \<longleftrightarrow> (\<exists>t \<in> set (nd_timerQ s). timer_of i a t \<and> c < nt_timeout t)"
    if "i < length (interface_entry_list s)" for i a
  proof -
    have "a \<in> neighbors_of (interface_entry_list s1 ! i) \<longleftrightarrow> 0 < timers_of i a (nd_timerQ s1)"
      using s1(1,4) that by (auto simp: nd_inv_def matched_def)
    also have "\<dots> \<longleftrightarrow> (\<exists>t \<in> set (nd_later c (nd_timerQ s)). timer_of i a t)" by (simp add: s1(3) timers_of_positive)
    finally show ?thesis by (auto simp: nd_later_def)
  qed
  moreover have "\<forall>t \<in> set (nd_timerQ s1). c < nt_timeout t"
    using s1(2) by (auto simp: nd_due_def filter_empty_conv not_le)
  ultimately show ?thesis using run by (intro exI [of _ "s1\<lparr>nd_outs := outs\<rparr>"]) simp
qed

end
