(* ===== verification/Nd_System.thy ===== *)
theory Nd_System
  imports Nd_Schedule
begin

text \<open>
  The neighbour discovery as it runs: the step relation of its entry points (started and stopped
  by its user, woken by its interval timer, by datagrams and by the functions for its user), the
  invariant of its runs, and what a user sees of it: links that become symmetric, alarms that
  stop, and what its receiver does with messages of other programs.
\<close>

section \<open>The entry points keep the invariant\<close>

lemma scheduleTimer_inv: "keeps nd_inv (nd_scheduleTimer n)"
proof (rule keepsI)
  fix s x s'
  assume inv: "nd_inv s" and run: "nd_scheduleTimer n s = Inr (x, s')"
  from run obtain it t s1 where loop: "nd_schedule_loop n t (nd_begin (nd_timerQ s)) (s\<lparr>nd_ticks := Suc (nd_ticks s)\<rparr>)
      = Inr (it, s1)" and core: "nd_core s' = nd_core s1"
    by (auto simp: nd_scheduleTimer_def nd_getcurrtime_def nd_ask_def nd_setRealTimer_def nd_emit_def nd_core_def Let_def
        sm_simps split: sum.splits option.splits if_splits)
  have "nd_inv (s\<lparr>nd_ticks := Suc (nd_ticks s)\<rparr>)" using inv by (simp add: nd_inv_def)
  from schedule_loop_inv [OF loop this] show "nd_inv s'" using nd_inv_core [OF core] by simp
qed

lemma handle_hello_inv: "keeps nd_inv (handle_hello_message i received)"
proof (rule keepsI)
  fix s x s'
  assume inv: "nd_inv s" and run: "handle_hello_message i received s = Inr (x, s')"
  have "nd_core s' = nd_core s \<or> (\<exists>src h s1. nd_core s1 = nd_core s \<and> update_info i src h s1 = Inr (x, s'))"
    using run by (auto simp: handle_hello_message_def interface_def nd_ask_def nd_core_def sm_simps
        split: sum.splits option.splits if_splits)
  then show "nd_inv s'" using inv update_info_inv nd_inv_core by metis
qed

lemma main_round_inv: "keeps nd_inv (nd_main_round ready received)"
  unfolding nd_main_round_def by (intro keeps_intros handle_hello_inv)

lemma send_hello_keeps: "keeps nd_inv (send_hello_message d)"
  by (rule keepsI) (use send_hello_inv in blast)

lemma start_discovery_inv: "keeps nd_inv start_discovery"
  unfolding start_discovery_def by (intro keeps_intros send_hello_keeps)

lemma interval_inv:
  assumes "nd_inv s" "i < length (interface_entry_list s)"
  shows "nd_inv (s\<lparr>interface_entry_list :=
    (interface_entry_list s)[i := (interface_entry_list s ! i)\<lparr>ie_hello_interval := v\<rparr>]\<rparr>)"
proof -
  let ?ifs = "interface_entry_list s" let ?ifs' = "?ifs[i := (?ifs ! i)\<lparr>ie_hello_interval := v\<rparr>]"
  have n: "neighbors_of (?ifs' ! j) = neighbors_of (?ifs ! j)" for j
    using assms(2) by (cases "i = j") (simp_all add: neighbors_of_def)
  have "map ie_name ?ifs' = map ie_name ?ifs"
    using assms(2) by (simp add: map_update) (metis length_map list_update_id nth_map)
  with assms have "nd_wf ?ifs' (nd_timerQ s) (nd_next_id s)"
    unfolding nd_inv_def nd_wf_def by (auto dest!: subsetD [OF set_update_subset_insert])
  with assms(1) show ?thesis by (simp add: nd_inv_def matched_def n)
qed

lemma set_hello_interval_inv: "keeps nd_inv (nd_set_hello_interval name v)"
proof (rule keepsI)
  fix s x s'
  assume inv: "nd_inv s" and run: "nd_set_hello_interval name v s = Inr (x, s')"
  let ?s = "\<lambda>i. s\<lparr>interface_entry_list :=
    (interface_entry_list s)[i := (interface_entry_list s ! i)\<lparr>ie_hello_interval := v\<rparr>]\<rparr>"
  show "nd_inv s'"
  proof (cases "interface_index name (interface_entry_list s) 0")
    case None
    with run inv show ?thesis by (simp add: nd_set_hello_interval_def sm_simps)
  next
    case (Some i)
    with run have i: "i < length (interface_entry_list s)" and rest: "s' = ?s i \<or> send_hello_message
        \<lparr>nd_type = TIMER_TYPE_HELLO, nd_data = 0, nd_contain = i\<rparr> (?s i) = Inr ((), s')"
      by (auto simp: nd_set_hello_interval_def interface_def sm_simps split: sum.splits if_splits)
    from interval_inv [OF inv i] rest send_hello_inv show ?thesis by blast
  qed
qed

lemma send_hello_now_inv: "keeps nd_inv (nd_send_hello_now name)"
proof (rule keepsI)
  fix s x s'
  assume inv: "nd_inv s" and run: "nd_send_hello_now name s = Inr (x, s')"
  have "keeps (\<lambda>s. nd_core s = c) (nd_send_hello_now name)" for c
    unfolding nd_send_hello_now_def by (intro keeps_intros)
  from nd_inv_core [OF keeps_unchanged [OF this run]] inv show "nd_inv s'" by simp
qed

lemma turn_down_inv:
  assumes "nd_turn_down s = Inr (x, s')"
  shows "nd_inv s'"
proof -
  have "interface_entry_list s' = [] \<and> nd_timerQ s' = []"
    using assms by (auto simp: nd_turn_down_def clean_timer_list_def clean_interface_entry_list_def sm_simps split: sum.splits)
  then show ?thesis by (simp add: nd_inv_def nd_wf_def matched_def)
qed

text \<open>Starting up makes entries without neighbours, in the order of the list, up to the first failure.\<close>

lemma init_entries_run:
  "init_entries answers k ps s = Inr (r, s') \<Longrightarrow>
   \<exists>es n. interface_entry_list s' = interface_entry_list s @ es \<and> map ie_name es = take n (map ip_name ps)
     \<and> (\<forall>e \<in> set es. ie_one_hop_neighbor_set e = []) \<and> nd_timerQ s' = nd_timerQ s \<and> nd_next_id s' = nd_next_id s
     \<and> (r = 0 \<longrightarrow> n = length ps) \<and> (r = 0 \<or> r = - 1) \<and> interface_list s' = interface_list s"
proof (induction ps arbitrary: k s)
  case Nil
  then show ?case by (simp add: sm_simps)
next
  case (Cons p ps)
  show ?case
  proof (cases "ia_if_index (answers k) = 0 \<or> init_socket (ia_socket (answers k)) (ia_options (answers k)) < 0
      \<or> bind_socket (ia_bind (answers k)) < 0")
    case True
    with Cons.prems show ?thesis
      by (intro exI [of _ "[]"] exI [of _ 0]) (auto simp: Let_def sm_simps split: if_splits)
  next
    case False
    let ?e = "\<lparr>ie_name = ip_name p, ie_if_index = ia_if_index (answers k), ie_listen_port = ip_listen_port p,
      ie_interface_address = interface_ipv4_address (ip_name p) (read32 (\<lambda>j. nd_junk (nd_env s) (nd_ticks s) ! j) 0)
        (ia_addrs (answers k)), ie_fd = init_socket (ia_socket (answers k)) (ia_options (answers k)),
      ie_hello_interval = ip_hello_interval p, ie_one_hop_neighbor_set = []\<rparr>"
    from False Cons.prems have
        "init_entries answers (Suc k) ps (s\<lparr>nd_ticks := Suc (nd_ticks s), interface_entry_list := interface_entry_list s @ [?e]\<rparr>)
          = Inr (r, s')"
      by (simp add: nd_ask_def Let_def sm_simps)
    from Cons.IH [OF this] obtain es n where "interface_entry_list s' = (interface_entry_list s @ [?e]) @ es"
        "map ie_name es = take n (map ip_name ps)" "\<forall>e \<in> set es. ie_one_hop_neighbor_set e = []" "nd_timerQ s' = nd_timerQ s"
        "nd_next_id s' = nd_next_id s" "r = 0 \<longrightarrow> n = length ps" "r = 0 \<or> r = - 1" "interface_list s' = interface_list s" by auto
    then show ?thesis by (intro exI [of _ "?e # es"] exI [of _ "Suc n"]) auto
  qed
qed

lemma turn_up_inv:
  assumes inv: "nd_inv s" and none: "interface_entry_list s = []" and names: "distinct (map ip_name (interface_list s @ pairs))"
    and run: "start_interfaces pairs answers thread_ret s = Inr (x, s')"
  shows "nd_inv s'"
proof -
  let ?s = "s\<lparr>interface_list := interface_list s @ pairs, interface_entry_list := []\<rparr>"
  from run obtain r s1 where init: "init_entries answers 0 (interface_list s @ pairs) ?s = Inr (r, s1)"
    and rest: "s' = s1 \<or> start_discovery s1 = Inr ((), s')"
    by (auto simp: start_interfaces_def init_interface_entry_list_def sm_simps split: sum.splits if_splits)
  from init_entries_run [OF init] obtain es n where es: "interface_entry_list s1 = es" "nd_timerQ s1 = nd_timerQ s"
      "map ie_name es = take n (map ip_name (interface_list s @ pairs))" "\<forall>e \<in> set es. ie_one_hop_neighbor_set e = []"
    by auto
  have "nd_timerQ s = []" using inv none by (cases "nd_timerQ s") (auto simp: nd_inv_def nd_wf_def nd_timer_ok_def)
  moreover have "distinct (map ie_name es)" using names es(3) by (metis distinct_take)
  ultimately have "nd_inv s1" using es
    by (auto simp: nd_inv_def nd_wf_def matched_def table_ok_def timers_of_def neighbors_of_def)
  with rest show ?thesis using keepsD [OF start_discovery_inv] by blast
qed

section \<open>Runs\<close>

text \<open>
  It starts without interfaces and timers. It is started when it has no interface, with names
  that are all different.
\<close>

definition nd_init :: "nd \<Rightarrow> bool" where
  "nd_init s \<longleftrightarrow> interface_entry_list s = [] \<and> nd_timerQ s = []"

inductive nd_step :: "nd \<Rightarrow> nd \<Rightarrow> bool" where
  turn_up: "interface_entry_list s = [] \<Longrightarrow> distinct (map ip_name (interface_list s @ pairs)) \<Longrightarrow>
    parse_configure junk 0 cfg = Inr pairs \<Longrightarrow> nd_turn_up (Some cfg) junk answers thread_ret s = Inr (r, s') \<Longrightarrow> nd_step s s'"
| alarm: "nd_scheduleTimer fuel s = Inr ((), s') \<Longrightarrow> nd_step s s'"
| datagrams: "nd_main_round ready received s = Inr ((), s') \<Longrightarrow> nd_step s s'"
| new_interval: "nd_set_hello_interval name v s = Inr (r, s') \<Longrightarrow> nd_step s s'"
| hello_now: "nd_send_hello_now name s = Inr (r, s') \<Longrightarrow> nd_step s s'"
| turn_down: "nd_turn_down s = Inr ((), s') \<Longrightarrow> nd_step s s'"

interpretation ndrun: invariant_of nd_init nd_step nd_inv
proof unfold_locales
  fix s
  assume "nd_init s"
  then show "nd_inv s" by (simp add: nd_init_def nd_inv_def nd_wf_def matched_def)
next
  fix s t
  assume inv: "nd_inv s" and "nd_step s t"
  from \<open>nd_step s t\<close> show "nd_inv t"
  proof cases
    case (turn_up pairs junk cfg answers thread_ret r)
    with inv show ?thesis by (auto simp: nd_turn_up_def intro: turn_up_inv)
  next
    case alarm
    with inv show ?thesis by (rule keepsD [OF scheduleTimer_inv])
  next
    case datagrams
    with inv show ?thesis by (rule keepsD [OF main_round_inv])
  next
    case new_interval
    with inv show ?thesis by (rule keepsD [OF set_hello_interval_inv])
  next
    case hello_now
    with inv show ?thesis by (rule keepsD [OF send_hello_now_inv])
  next
    case turn_down
    then show ?thesis by (rule turn_down_inv)
  qed
qed

section \<open>What a hello message does to the table\<close>

lemma set_timer_ifs: "nd_set_timer v h d s = Inr (x, s') \<Longrightarrow> interface_entry_list s' = interface_entry_list s"
  by (erule set_timer_core) (simp add: nd_core_def)

lemma remove_timer_ifs:
  "remove_neighbor_entry_timer a name s = Inr (x, s') \<Longrightarrow> interface_entry_list s' = interface_entry_list s"
  by (auto simp: remove_neighbor_entry_timer_def nd_getcurrtime_def nd_ask_def nd_setRealTimer_def nd_emit_def Let_def
      sm_simps split: sum.splits option.splits if_splits)

lemma find_append_new: "find P xs = None \<Longrightarrow> P x \<Longrightarrow> find P (xs @ [x]) = Some x"
  by (induction xs) (auto split: if_splits)

lemma find_mem: "find (\<lambda>x. oh_ip_address x = a) ns = Some y \<Longrightarrow> a \<in> oh_ip_address ` set ns"
  by (induction ns) (auto split: if_splits)

lemma find_refresh:
  "find (\<lambda>x. oh_ip_address x = a) ns = Some y \<Longrightarrow> oh_ip_address (f y) = a \<Longrightarrow>
   find (\<lambda>x. oh_ip_address x = a) (refresh_neighbor a f ns) = Some (f y)"
  by (induction ns) (auto split: if_splits)

lemma filter_refresh:
  "(\<And>x. oh_ip_address (f x) = oh_ip_address x) \<Longrightarrow>
   filter (\<lambda>x. oh_ip_address x \<noteq> a) (refresh_neighbor a f ns) = filter (\<lambda>x. oh_ip_address x \<noteq> a) ns"
  by (induction ns) auto

lemma update_info_table:
  assumes "nd_inv s" and run: "update_info i src h s = Inr (x, s')" and e: "e = interface_entry_list s ! i"
  shows "\<exists>ns y. interface_entry_list s' = (interface_entry_list s)[i := e\<lparr>ie_one_hop_neighbor_set := ns\<rparr>]
    \<and> find (\<lambda>x. oh_ip_address x = src) ns = Some y \<and> oh_status y = heard_status (ie_interface_address e) h
    \<and> oh_local_if_set y = he_local_if_set h
    \<and> filter (\<lambda>x. oh_ip_address x \<noteq> src) ns = filter (\<lambda>x. oh_ip_address x \<noteq> src) (ie_one_hop_neighbor_set e)"
proof -
  note i = update_info_index [OF run]
  show ?thesis
  proof (cases "find (\<lambda>x. oh_ip_address x = src) (ie_one_hop_neighbor_set e)")
    case None
    let ?x = "\<lparr>oh_ip_address = src, oh_quality = 0, oh_local_if_set = he_local_if_set h,
      oh_two_hop_neighbor_set = heard_two_hop (ie_interface_address e) src h,
      oh_status = heard_status (ie_interface_address e) h, oh_live_time = he_live_time h\<rparr>"
    from run [unfolded update_info_new [OF i e None]] have
      "interface_entry_list s' = (interface_entry_list s)[i := e\<lparr>ie_one_hop_neighbor_set := ie_one_hop_neighbor_set e @ [?x]\<rparr>]"
      by (auto simp: set_neighbors_def e sm_simps dest: set_timer_ifs)
    with None show ?thesis
      by (intro exI [of _ "ie_one_hop_neighbor_set e @ [?x]"] exI [of _ ?x]) (simp add: find_append_new)
  next
    case (Some y)
    let ?f = "\<lambda>x. x\<lparr>oh_two_hop_neighbor_set := heard_two_hop (ie_interface_address e) src h,
        oh_local_if_set := he_local_if_set h, oh_live_time := he_live_time h,
        oh_status := heard_status (ie_interface_address e) h\<rparr>"
    let ?ns = "refresh_neighbor src ?f (ie_one_hop_neighbor_set e)"
    from Some have "oh_ip_address y = src" by (auto simp: find_Some_iff)
    have st: "oh_status y = HEARD \<or> oh_status y = SYMMETRIC"
      using Some assms(1) i e by (intro find_status) (auto simp: nd_inv_def nd_wf_def)
    from run [unfolded update_info_known [OF i e Some st]] have
      "interface_entry_list s' = (interface_entry_list s)[i := e\<lparr>ie_one_hop_neighbor_set := ?ns\<rparr>]"
      by (auto simp: set_neighbors_def e sm_simps split: sum.splits dest!: set_timer_ifs remove_timer_ifs)
    with Some \<open>oh_ip_address y = src\<close> show ?thesis
      by (intro exI [of _ ?ns] exI [of _ "?f y"]) (simp add: find_refresh filter_refresh)
  qed
qed

text \<open>A datagram that can be read, and one that was generated by an interface.\<close>

lemma handle_hello_run:
  assumes "i < length (interface_entry_list s)" "nd_malloc (nd_env s) (nd_ticks s)" "bytes \<noteq> []"
    "src \<noteq> ie_interface_address (interface_entry_list s ! i)" "length bytes \<le> MESSAGE_BUFFER_SIZE"
  shows "handle_hello_message i (Some (src, bytes)) s =
    (case parse_hello (nd_junk (nd_env s) (nd_ticks s + 2)) (write_buf bytes (nd_block (nd_env s) (nd_ticks s + 1))) of
       Inl f \<Rightarrow> Inl f | Inr h \<Rightarrow> update_info i src h (s\<lparr>nd_ticks := nd_ticks s + 3\<rparr>))"
  using assms by (auto simp: handle_hello_message_def interface_def nd_ask_def sm_simps numeral_2_eq_2 numeral_3_eq_3 split: sum.split)

lemma generated_bytes:
  assumes "generate_and_send_hello_message i s = Inr (l, s')" "nd_outs s' = nd_outs s @ [Nd_broadcast fd port bytes]"
    "e = interface_entry_list s ! i"
  shows "i < length (interface_entry_list s)" "bytes = hello_bytes (map ie_interface_address (interface_entry_list s)) (ie_one_hop_neighbor_set e)"
    "fd = ie_fd e" "port = ie_listen_port e"
  using assms by (auto simp: generate_and_send_hello_message_def interface_def nd_ask_def nd_emit_def Let_def sm_simps
      split: if_splits)

lemma host_status_listed:
  assumes "table_ok ns"
  shows "host_status own (zip (map oh_ip_address ns) (map oh_status ns)) = NO_ENTRY \<longleftrightarrow> own \<notin> oh_ip_address ` set ns"
proof -
  have "zip (map oh_ip_address ns) (map oh_status ns) = map (\<lambda>x. (oh_ip_address x, oh_status x)) ns"
    by (simp add: zip_map_map zip_same_conv_map)
  then have "find (\<lambda>(a, _). a = own) (zip (map oh_ip_address ns) (map oh_status ns))
      = map_option (\<lambda>x. (oh_ip_address x, oh_status x)) (find (\<lambda>x. oh_ip_address x = own) ns)"
    by (simp, induction ns) auto
  with find_status [OF assms, of own] find_neighbor [of own ns] show ?thesis
    by (cases "find (\<lambda>x. oh_ip_address x = own) ns") (auto simp: host_status_def)
qed

text \<open>A hello message broadcast by interface \<open>i\<close>, and a datagram that interface \<open>i\<close> reads.\<close>

definition hello_sent :: "nat \<Rightarrow> nd \<Rightarrow> u8 list \<Rightarrow> nd \<Rightarrow> bool" where
  "hello_sent i s bytes s' \<longleftrightarrow> (\<exists>l fd port. generate_and_send_hello_message i s = Inr (l, s')
     \<and> nd_outs s' = nd_outs s @ [Nd_broadcast fd port bytes])"

definition hello_read :: "nat \<Rightarrow> ip \<Rightarrow> u8 list \<Rightarrow> nd \<Rightarrow> nd \<Rightarrow> bool" where
  "hello_read i src bytes s s' \<longleftrightarrow> handle_hello_message i (Some (src, bytes)) s = Inr ((), s')
     \<and> nd_malloc (nd_env s) (nd_ticks s)"

text \<open>The table of an interface, its address, and tables that fit the one-byte counts.\<close>

abbreviation (input) table :: "nat \<Rightarrow> nd \<Rightarrow> OneHopEntry list" where
  "table i s \<equiv> ie_one_hop_neighbor_set (interface_entry_list s ! i)"

abbreviation (input) address :: "nat \<Rightarrow> nd \<Rightarrow> ip" where
  "address i s \<equiv> ie_interface_address (interface_entry_list s ! i)"

definition counts_fit :: "nat \<Rightarrow> nd \<Rightarrow> bool" where
  "counts_fit i s \<longleftrightarrow> length (interface_entry_list s) < 256 \<and> length (table i s) < 256"

lemma hello_heard:
  assumes inv: "nd_inv sa" "nd_inv sb" and sent: "hello_sent j sa bytes sa'" and fit: "counts_fit j sa"
    and read: "hello_read i src bytes sb sb'" and src: "src \<noteq> address i sb"
  shows "\<exists>y. find (\<lambda>x. oh_ip_address x = src) (table i sb') = Some y
    \<and> oh_status y = (if address i sb \<in> neighbors_of (interface_entry_list sa ! j) then SYMMETRIC else HEARD)
    \<and> oh_local_if_set y = map ie_interface_address (interface_entry_list sa)
    \<and> filter (\<lambda>x. oh_ip_address x \<noteq> src) (table i sb') = filter (\<lambda>x. oh_ip_address x \<noteq> src) (table i sb)"
proof -
  from sent obtain l fd port where gen: "generate_and_send_hello_message j sa = Inr (l, sa')"
      "nd_outs sa' = nd_outs sa @ [Nd_broadcast fd port bytes]" by (auto simp: hello_sent_def)
  note g = generated_bytes [OF gen refl]
  let ?ns = "table j sa" let ?ifs = "map ie_interface_address (interface_entry_list sa)"
  let ?h = "\<lparr>he_local_if_set = ?ifs, he_neighbor_set = map oh_ip_address ?ns, he_status_set = map oh_status ?ns,
         he_live_time = LIVE_TIME\<rparr>"
  have i: "i < length (interface_entry_list sb)" and ok: "nd_malloc (nd_env sb) (nd_ticks sb)"
    using read by (auto simp: hello_read_def handle_hello_message_def interface_def sm_simps split: if_splits)
  have len: "bytes \<noteq> []" "length bytes \<le> MESSAGE_BUFFER_SIZE"
    using length_hello_bytes [of ?ifs ?ns] fit by (auto simp: counts_fit_def simp flip: g(2))
  have parse: "parse_hello junk (write_buf bytes b) = Inr ?h" for junk b
    unfolding g(2) using fit by (intro parse_hello_bytes) (simp_all add: counts_fit_def)
  have upd: "update_info i src ?h (sb\<lparr>nd_ticks := nd_ticks sb + 3\<rparr>) = Inr ((), sb')"
    using read by (simp add: hello_read_def handle_hello_run [OF i ok len(1) src len(2)] parse)
  have "nd_inv (sb\<lparr>nd_ticks := nd_ticks sb + 3\<rparr>)" using inv(2) by (simp add: nd_inv_def)
  from update_info_table [OF this upd refl] obtain ns y where
    "interface_entry_list sb' = (interface_entry_list sb)
        [i := (interface_entry_list sb ! i)\<lparr>ie_one_hop_neighbor_set := ns\<rparr>]"
    "find (\<lambda>x. oh_ip_address x = src) ns = Some y" "oh_status y = heard_status (address i sb) ?h"
    "oh_local_if_set y = ?ifs"
    "filter (\<lambda>x. oh_ip_address x \<noteq> src) ns = filter (\<lambda>x. oh_ip_address x \<noteq> src) (table i sb)" by auto
  moreover have "table_ok ?ns" using inv(1) g(1) by (simp add: nd_inv_def nd_wf_def)
  ultimately show ?thesis using i by (auto simp: host_status_listed neighbors_of_def)
qed

lemma hello_sent_core: "hello_sent i s bytes s' \<Longrightarrow> nd_core s' = nd_core s"
  by (auto simp: hello_sent_def dest: core_generate)

lemma hello_read_inv: "hello_read i src bytes s s' \<Longrightarrow> nd_inv s \<Longrightarrow> nd_inv s'"
  by (auto simp: hello_read_def dest: keepsD [OF handle_hello_inv])

text \<open>The list of the interfaces is made anew by each start, from all the names of all starts.\<close>

lemma start_discovery_ifs: "start_discovery s = Inr (x, s') \<Longrightarrow> interface_entry_list s' = interface_entry_list s"
proof (rule keeps_unchanged [of _ start_discovery])
  fix c
  have "keeps (\<lambda>s. interface_entry_list s = c) (send_hello_message d)" for d
    by (rule keepsI) (auto simp: send_hello_message_def interface_def Let_def nd_core_def sm_simps
        split: sum.splits if_splits dest!: core_generate set_timer_ifs)
  then show "keeps (\<lambda>s. interface_entry_list s = c) start_discovery"
    unfolding start_discovery_def by (intro keeps_intros)
qed

lemma start_discovery_list: "start_discovery s = Inr (x, s') \<Longrightarrow> interface_list s' = interface_list s"
proof (rule keeps_unchanged [of _ start_discovery])
  fix c
  have "keeps (\<lambda>s. interface_list s = c) (send_hello_message d)" for d
    by (rule keepsI) (auto simp: send_hello_message_def generate_and_send_hello_message_def nd_set_timer_def
        nd_getcurrtime_def nd_ask_def nd_timer_add_def nd_setLowestTimer_def nd_setRealTimer_def nd_emit_def
        interface_def Let_def sm_simps split: sum.splits if_splits list.splits)
  then show "keeps (\<lambda>s. interface_list s = c) start_discovery"
    unfolding start_discovery_def by (intro keeps_intros)
qed

lemma turn_up_names:
  assumes "start_interfaces pairs answers thread_ret s = Inr (0, s')"
  shows "map ie_name (interface_entry_list s') = map ip_name (interface_list s @ pairs)"
    "interface_list s' = interface_list s @ pairs"
proof -
  let ?s = "s\<lparr>interface_list := interface_list s @ pairs, interface_entry_list := []\<rparr>"
  from assms obtain r s1 where init: "init_entries answers 0 (interface_list s @ pairs) ?s = Inr (r, s1)" "\<not> r < 0"
    and rest: "start_discovery s1 = Inr ((), s')"
    by (auto simp: start_interfaces_def init_interface_entry_list_def sm_simps split: sum.splits if_splits)
  from init_entries_run [OF init(1)] init(2) start_discovery_ifs [OF rest] start_discovery_list [OF rest]
  show "map ie_name (interface_entry_list s') = map ip_name (interface_list s @ pairs)"
    "interface_list s' = interface_list s @ pairs" by auto
qed

lemma turn_down_list: "nd_turn_down s = Inr (x, s') \<Longrightarrow> interface_list s' = interface_list s"
proof (rule keeps_unchanged [of _ nd_turn_down])
  fix c
  have "keeps (\<lambda>s. interface_list s = c) (nd_emit e)" for e by (auto simp: nd_emit_def intro: keeps_upd)
  then show "keeps (\<lambda>s. interface_list s = c) nd_turn_down"
    unfolding nd_turn_down_def clean_interface_entry_list_def clean_timer_list_def by (intro keeps_intros) simp_all
qed

section \<open>A node with one interface\<close>

text \<open>
  \<open>on a\<close> is a node at address \<open>a\<close> just started, with a hello interval of two seconds. The clock
  stands at one second while it starts and hears its first message; then seven seconds pass.
\<close>

definition quiet :: nd_env where
  "quiet = \<lparr>nd_clock = (\<lambda>k. if k < 9 then 1000 else 8000), nd_malloc = (\<lambda>_. True), nd_block = (\<lambda>_ _. 0),
     nd_junk = (\<lambda>_. [0, 0, 0, 0])\<rparr>"

definition off :: nd where
  "off = \<lparr>nd_env = quiet, nd_ticks = 0, interface_list = [], interface_entry_list = [], nd_timerQ = [],
     nd_next_id = 0, nd_outs = []\<rparr>"

definition eth0 :: interface_pair where
  "eth0 = \<lparr>ip_name = ''eth0'', ip_listen_port = 698, ip_hello_interval = 2000\<rparr>"

definition eth0_file :: string where
  "eth0_file = section_text (''[Interface1]'', eth0)"

definition no_junk :: locals where
  "no_junk = \<lparr>lo_ifname = [], lo_port = 0, lo_hello_interval = 0\<rparr>"

definition answers_at :: "ip \<Rightarrow> nat \<Rightarrow> if_answers" where
  "answers_at a = (\<lambda>_. \<lparr>ia_if_index = 2, ia_socket = 3, ia_options = [0, 0, 0, 0, 0, 0], ia_bind = 0,
     ia_addrs = [(''lo'', Some 0), (''eth0'', None), (''eth0'', Some a)]\<rparr>)"

definition on :: "ip \<Rightarrow> nd" where
  "on a = \<lparr>nd_env = quiet, nd_ticks = 4, interface_list = [eth0],
     interface_entry_list = [\<lparr>ie_name = ''eth0'', ie_if_index = 2, ie_listen_port = 698, ie_interface_address = a,
       ie_fd = 3, ie_hello_interval = 2000, ie_one_hop_neighbor_set = []\<rparr>],
     nd_timerQ = [\<lparr>nt_timeout = 3000, nt_handler = Send_hello_message,
       nt_data = \<lparr>nd_type = TIMER_TYPE_HELLO, nd_data = 0, nd_contain = 0\<rparr>, nt_id = 0\<rparr>],
     nd_next_id = 1, nd_outs = [Nd_broadcast 3 698 (hello_bytes [a] []), Nd_setitimer 2 0]\<rparr>"

lemma length_first_hello: "length (hello_bytes [a] []) = 12"
  using length_hello_bytes [of "[a]" "[]"] by simp

lemma start_on: "start_interfaces [eth0] (answers_at a) 0 off = Inr (0, on a)"
  using length_first_hello [of a]
  by (simp add: start_interfaces_def init_interface_entry_list_def off_def eth0_def answers_at_def init_socket_def bind_socket_def
      nd_ask_def start_discovery_def send_hello_message_def generate_and_send_hello_message_def interface_def nd_emit_def
      nd_set_timer_def nd_getcurrtime_def nd_timer_add_def nd_setLowestTimer_def nd_setRealTimer_def on_def quiet_def
      Let_def sm_simps)

lemma eth0_file_read: "parse_configure junk k eth0_file = Inr [eth0]"
  using parse_sections [of "[(''[Interface1]'', eth0)]" junk k]
  by (simp add: eth0_file_def section_ok_def eth0_def isspace_def newline_def)

lemma turn_up_on: "nd_turn_up (Some eth0_file) junk (answers_at a) 0 off = Inr (0, on a)"
  by (simp add: nd_turn_up_def eth0_file_read start_on)

lemma on_reached: "reach nd_init nd_step (on a)"
proof (rule reach_step)
  show "reach nd_init nd_step off" by (rule reach_init) (simp add: nd_init_def off_def)
  show "nd_step off (on a)" by (rule nd_step.turn_up [OF _ _ eth0_file_read turn_up_on]) (simp_all add: off_def)
qed

text \<open>A message from a new neighbour is read; its entry will live for the time it says.\<close>

lemma new_hello_read:
  assumes i: "i < length (interface_entry_list s)" and mem: "\<forall>j. nd_malloc (nd_env s) j" and src: "src \<noteq> address i s"
    and new: "src \<notin> neighbors_of (interface_entry_list s ! i)" and len: "length addrs < 256" "length ns < 256"
  shows "\<exists>s' t y. hello_read i src (hello_bytes addrs ns) s s' \<and> nd_timerQ s' = nd_timer_insert t (nd_timerQ s)
    \<and> nt_timeout t = nd_clock (nd_env s) (nd_ticks s + 3) + ucast LIVE_TIME \<and> nd_ticks s' = nd_ticks s + 5
    \<and> nd_env s' = nd_env s \<and> oh_ip_address y = src \<and> interface_entry_list s' = (interface_entry_list s)
        [i := (interface_entry_list s ! i)\<lparr>ie_one_hop_neighbor_set := table i s @ [y]\<rparr>]"
proof -
  let ?h = "\<lparr>he_local_if_set = addrs, he_neighbor_set = map oh_ip_address ns, he_status_set = map oh_status ns,
         he_live_time = LIVE_TIME\<rparr>"
  let ?e = "interface_entry_list s ! i"
  let ?y = "\<lparr>oh_ip_address = src, oh_quality = 0, oh_local_if_set = addrs,
      oh_two_hop_neighbor_set = heard_two_hop (ie_interface_address ?e) src ?h,
      oh_status = heard_status (ie_interface_address ?e) ?h, oh_live_time = LIVE_TIME\<rparr>"
  let ?d = "\<lparr>nd_type = TIMER_TYPE_ENTRY, nd_data = src, nd_contain = i\<rparr>"
  let ?s = "s\<lparr>nd_ticks := nd_ticks s + 3\<rparr>"
  let ?s' = "s\<lparr>nd_ticks := nd_ticks s + 3, interface_entry_list := (interface_entry_list s)
      [i := ?e\<lparr>ie_one_hop_neighbor_set := table i s @ [?y]\<rparr>]\<rparr>"
  have none: "find (\<lambda>x. oh_ip_address x = src) (table i ?s) = None"
    using new by (simp add: find_neighbor neighbors_of_def)
  have i': "i < length (interface_entry_list ?s)" using i by simp
  have size: "hello_bytes addrs ns \<noteq> []" "length (hello_bytes addrs ns) \<le> MESSAGE_BUFFER_SIZE"
    using length_hello_bytes [of addrs ns] len by auto
  obtain t outs where t: "nd_set_timer (ucast LIVE_TIME) Delete_one_hop_entry ?d ?s' = Inr ((), ?s'\<lparr>nd_ticks := nd_ticks ?s' + 2,
      nd_timerQ := nd_timer_insert t (nd_timerQ ?s'), nd_next_id := Suc (nd_next_id ?s'), nd_outs := outs\<rparr>)"
      "nt_timeout t = nd_clock (nd_env ?s') (nd_ticks ?s') + ucast LIVE_TIME"
    using set_timer_runs [of ?s' "ucast LIVE_TIME" Delete_one_hop_entry ?d] mem by auto
  have "handle_hello_message i (Some (src, hello_bytes addrs ns)) s = update_info i src ?h ?s"
    using i mem src size len by (subst handle_hello_run) (simp_all add: parse_hello_bytes)
  also have "\<dots> = Inr ((), ?s'\<lparr>nd_ticks := nd_ticks ?s' + 2,
      nd_timerQ := nd_timer_insert t (nd_timerQ ?s'), nd_next_id := Suc (nd_next_id ?s'), nd_outs := outs\<rparr>)"
    unfolding update_info_new [OF i' refl none] using t(1) by (simp add: set_neighbors_def sm_simps)
  finally show ?thesis using t(2) mem
    by (intro exI [of _ "?s'\<lparr>nd_ticks := nd_ticks ?s' + 2, nd_timerQ := nd_timer_insert t (nd_timerQ ?s'),
        nd_next_id := Suc (nd_next_id ?s'), nd_outs := outs\<rparr>"] exI [of _ t] exI [of _ ?y])
      (simp add: hello_read_def)
qed

lemma on_fields [simp]:
  "length (interface_entry_list (on a)) = 1" "nd_env (on a) = quiet" "nd_ticks (on a) = 4"
  "interface_entry_list (on a) ! 0 = \<lparr>ie_name = ''eth0'', ie_if_index = 2, ie_listen_port = 698,
     ie_interface_address = a, ie_fd = 3, ie_hello_interval = 2000, ie_one_hop_neighbor_set = []\<rparr>"
  "nd_malloc quiet j"
  by (simp_all add: on_def quiet_def)

lemma on_sends: "\<exists>s'. hello_sent 0 (on a) (hello_bytes [a] []) s'"
  using length_first_hello [of a]
  by (simp add: hello_sent_def generate_and_send_hello_message_def interface_def nd_ask_def nd_emit_def Let_def sm_simps)
    (simp add: on_def)

lemma on_reads:
  assumes "a \<noteq> b"
  obtains s' t y where "hello_read 0 b (hello_bytes [b] []) (on a) s'" "nd_timerQ s' = nd_timer_insert t (nd_timerQ (on a))"
    "nt_timeout t = 7000" "nd_ticks s' = 9" "nd_env s' = quiet" "oh_ip_address y = b"
    "interface_entry_list s' = [(interface_entry_list (on a) ! 0)\<lparr>ie_one_hop_neighbor_set := [y]\<rparr>]"
  using new_hello_read [of 0 "on a" b "[b]" "[]"] assms that by (auto simp: neighbors_of_def quiet_def on_def)

text \<open>A message read is a round of the loop in which only this interface is ready.\<close>

lemma heard_reached:
  assumes "hello_read 0 src bytes (on a) s'"
  shows "reach nd_init nd_step s'"
proof (rule reach_step [OF on_reached])
  have "handle_hello_message 0 (Some (src, bytes)) (on a) = Inr ((), s')" using assms by (simp add: hello_read_def)
  moreover have "map ie_fd (interface_entry_list (on a)) = [3]" by (simp add: on_def)
  ultimately have "nd_main_round [3] (\<lambda>_. Some (src, bytes)) (on a) = Inr ((), s')"
    by (simp add: nd_main_round_def sm_simps)
  then show "nd_step (on a) s'" by (rule nd_step.datagrams)
qed

section \<open>Properties\<close>

text \<open>
  C32. Whatever the neighbour discovery has gone through, each neighbour in the table of an
  interface has exactly one timer in the queue that will delete it, and an address that is not in
  the table has none: an entry neither stays for ever nor is deleted early by an old timer.
\<close>

theorem neighbors_have_one_timer:
  assumes "reach nd_init nd_step s" "i < length (interface_entry_list s)"
  shows "timers_of i a (nd_timerQ s) = (if a \<in> neighbors_of (interface_entry_list s ! i) then 1 else 0)"
  using ndrun.reach_inv [OF assms(1)] assms(2) by (simp add: nd_inv_def matched_def)

theorem neighbors_have_one_timer_witness:
  "\<exists>s. reach nd_init nd_step s \<and> neighbors_of (interface_entry_list s ! 0) = {1} \<and> timers_of 0 1 (nd_timerQ s) = 1"
proof -
  have "(2 :: ip) \<noteq> 1" by simp
  then obtain s y where s: "hello_read 0 1 (hello_bytes [1] []) (on 2) s" "oh_ip_address y = 1"
      "interface_entry_list s = [(interface_entry_list (on 2) ! 0)\<lparr>ie_one_hop_neighbor_set := [y]\<rparr>]"
    by (rule on_reads)
  then have r: "reach nd_init nd_step s" and n: "neighbors_of (interface_entry_list s ! 0) = {1}"
    using heard_reached [OF s(1)] by (simp_all add: neighbors_of_def)
  from neighbors_have_one_timer [OF r, of 0 1] n s(3) have "timers_of 0 1 (nd_timerQ s) = 1" by simp
  with r n show ?thesis by blast
qed

text \<open>
  An interface that reads a hello message which another node's interface has generated has
  the sender in its table: as a symmetric neighbour if the sender's table has the reader's
  address, else as one that is only heard; with all the sender's addresses. The other neighbours
  stay as they are.
\<close>

theorem hello_establishes_link:
  assumes "reach nd_init nd_step sa" "reach nd_init nd_step sb" "hello_sent j sa bytes sa'" "counts_fit j sa"
    "hello_read i src bytes sb sb'" "src \<noteq> address i sb"
  shows "\<exists>y. find (\<lambda>x. oh_ip_address x = src) (table i sb') = Some y
    \<and> oh_status y = (if address i sb \<in> neighbors_of (interface_entry_list sa ! j) then SYMMETRIC else HEARD)
    \<and> oh_local_if_set y = map ie_interface_address (interface_entry_list sa)
    \<and> filter (\<lambda>x. oh_ip_address x \<noteq> src) (table i sb') = filter (\<lambda>x. oh_ip_address x \<noteq> src) (table i sb)"
  by (rule hello_heard [OF ndrun.reach_inv ndrun.reach_inv]) (fact assms)+

theorem hello_establishes_link_witness:
  "\<exists>s' y. hello_read 0 1 (hello_bytes [1] []) (on 2) s' \<and> find (\<lambda>x. oh_ip_address x = 1) (table 0 s') = Some y
    \<and> oh_status y = HEARD \<and> oh_local_if_set y = [1]"
proof -
  obtain sa where sent: "hello_sent 0 (on 1) (hello_bytes [1] []) sa" using on_sends by blast
  have "(2 :: ip) \<noteq> 1" by simp
  then obtain s' where read: "hello_read 0 1 (hello_bytes [1] []) (on 2) s'" by (rule on_reads)
  from hello_establishes_link [OF on_reached on_reached sent _ read]
  obtain y where "find (\<lambda>x. oh_ip_address x = 1) (table 0 s') = Some y" "oh_status y = HEARD" "oh_local_if_set y = [1]"
    by (auto simp: counts_fit_def neighbors_of_def on_def)
  with read show ?thesis by blast
qed

text \<open>
  C33. Two nodes that hear each other agree on a symmetric link: when a node has read a hello
  message of its neighbour and the neighbour reads the node's next one, the neighbour has the
  node as a symmetric neighbour.
\<close>

theorem link_becomes_symmetric:
  assumes "reach nd_init nd_step sa" "reach nd_init nd_step sb" "reach nd_init nd_step sc"
    "hello_sent j sa bytes sa'" "counts_fit j sa" "hello_read i (address j sc) bytes sb sb'"
    "hello_sent i sb' answer sb''" "counts_fit i sb'" "hello_read j src answer sc sc'"
    "address j sc \<noteq> address i sb" "src \<noteq> address j sc"
  shows "\<exists>y. find (\<lambda>x. oh_ip_address x = src) (table j sc') = Some y \<and> oh_status y = SYMMETRIC"
proof -
  note inv = ndrun.reach_inv [OF assms(1)] ndrun.reach_inv [OF assms(2)] ndrun.reach_inv [OF assms(3)]
  from hello_heard [OF inv(1,2) assms(4,5,6,10)]
  have "address j sc \<in> neighbors_of (interface_entry_list sb' ! i)"
    by (auto simp: neighbors_of_def dest: find_mem)
  with hello_heard [OF hello_read_inv [OF assms(6) inv(2)] inv(3) assms(7,8,9,11)] show ?thesis by auto
qed

theorem link_becomes_symmetric_witness:
  "\<exists>answer s s' y. hello_read 0 1 (hello_bytes [1] []) (on 2) s \<and> hello_read 0 2 answer (on 1) s'
    \<and> find (\<lambda>x. oh_ip_address x = 2) (table 0 s') = Some y \<and> oh_status y = SYMMETRIC"
proof -
  obtain sa where sent: "hello_sent 0 (on 1) (hello_bytes [1] []) sa" using on_sends by blast
  have ne: "(2 :: ip) \<noteq> 1" by simp
  then obtain s y where s: "hello_read 0 1 (hello_bytes [1] []) (on 2) s" "nd_env s = quiet" "nd_ticks s = 9"
      "interface_entry_list s = [(interface_entry_list (on 2) ! 0)\<lparr>ie_one_hop_neighbor_set := [y]\<rparr>]"
    by (rule on_reads)
  let ?answer = "hello_bytes [2] [y]"
  have "length ?answer = 17" using length_hello_bytes [of "[2]" "[y]"] by simp
  then obtain s2 where answer: "hello_sent 0 s ?answer s2"
    using s(2-4) by (auto simp: hello_sent_def generate_and_send_hello_message_def interface_def nd_ask_def nd_emit_def
        Let_def sm_simps)
  have "2 \<notin> neighbors_of (interface_entry_list (on 1) ! 0)" by (simp add: neighbors_of_def)
  then obtain s' where read: "hello_read 0 2 ?answer (on 1) s'"
    using new_hello_read [of 0 "on 1" 2 "[2]" "[y]"] by auto
  have fit: "counts_fit 0 (on 1)" "counts_fit 0 s" using s(4) by (simp_all add: counts_fit_def)
  have "hello_read 0 (address 0 (on 1)) (hello_bytes [1] []) (on 2) s" using s(1) by simp
  from link_becomes_symmetric [OF on_reached on_reached on_reached sent fit(1) this answer fit(2) read] ne
  have "\<exists>x. find (\<lambda>x. oh_ip_address x = 2) (table 0 s') = Some x \<and> oh_status x = SYMMETRIC" by simp
  with s(1) read show ?thesis by blast
qed

text \<open>
  C34. The alarm comes back and does its work: with a clock that does not run backwards, memory,
  messages that fit and hello intervals that are not too long, one more than the number of due
  timers is fuel enough; no timer is due afterwards, and the neighbours of each interface are
  those whose deletion timer was not due.
\<close>

theorem alarm_deletes_silent_neighbors:
  assumes "reach nd_init nd_step s" "steady_clock (nd_ticks s) (nd_clock (nd_env s))" "\<forall>j. nd_malloc (nd_env s) j"
    "messages_fit (interface_entry_list s)" "c = nd_clock (nd_env s) (nd_ticks s)"
    "length (nd_due c (nd_timerQ s)) < fuel"
  shows "\<exists>s'. nd_scheduleTimer fuel s = Inr ((), s') \<and> (\<forall>t \<in> set (nd_timerQ s'). c < nt_timeout t)
    \<and> (\<forall>i < length (interface_entry_list s). \<forall>a. a \<in> neighbors_of (interface_entry_list s' ! i)
        \<longleftrightarrow> (\<exists>t \<in> set (nd_timerQ s). timer_of i a t \<and> c < nt_timeout t))"
  by (rule scheduleTimer_runs [OF assms(2-4) ndrun.reach_inv [OF assms(1)] assms(5,6)])

theorem alarm_deletes_silent_neighbors_witness:
  "\<exists>s s'. reach nd_init nd_step s \<and> neighbors_of (interface_entry_list s ! 0) = {1}
    \<and> nd_scheduleTimer 3 s = Inr ((), s') \<and> neighbors_of (interface_entry_list s' ! 0) = {}"
proof -
  have "(2 :: ip) \<noteq> 1" by simp
  then obtain s t y where s: "hello_read 0 1 (hello_bytes [1] []) (on 2) s" "oh_ip_address y = 1"
      "nd_timerQ s = nd_timer_insert t (nd_timerQ (on 2))" "nt_timeout t = 7000" "nd_ticks s = 9" "nd_env s = quiet"
      "interface_entry_list s = [(interface_entry_list (on 2) ! 0)\<lparr>ie_one_hop_neighbor_set := [y]\<rparr>]"
    by (rule on_reads)
  then have r: "reach nd_init nd_step s" and n: "neighbors_of (interface_entry_list s ! 0) = {1}"
    using heard_reached [OF s(1)] by (simp_all add: neighbors_of_def)
  have q: "\<forall>t \<in> set (nd_timerQ s). nt_timeout t \<le> 8000" using s(3,4) by (simp add: set_nd_insert on_def)
  have "length (nd_timerQ s) = 2" using s(3) by (simp add: ndq.length_add on_def)
  with length_filter_le [of "\<lambda>t. nt_timeout t \<le> 8000" "nd_timerQ s"] have "length (nd_due 8000 (nd_timerQ s)) < 3"
    by (simp add: nd_due_def)
  moreover have "steady_clock (nd_ticks s) (nd_clock (nd_env s))" "8000 = nd_clock (nd_env s) (nd_ticks s)"
    "\<forall>j. nd_malloc (nd_env s) j" using s(5,6) by (simp_all add: steady_clock_def quiet_def)
  moreover have "messages_fit (interface_entry_list s)" by (simp add: s(7) messages_fit_def)
  ultimately obtain s' where "nd_scheduleTimer 3 s = Inr ((), s')"
      "\<forall>i < length (interface_entry_list s). \<forall>a. a \<in> neighbors_of (interface_entry_list s' ! i)
        \<longleftrightarrow> (\<exists>t \<in> set (nd_timerQ s). timer_of i a t \<and> 8000 < nt_timeout t)"
    using alarm_deletes_silent_neighbors [OF r, of 8000 3] by blast
  moreover from this(2) q s(7) have "neighbors_of (interface_entry_list s' ! 0) = {}" by (auto simp: leD)
  ultimately show ?thesis using r n by blast
qed

text \<open>A message is read from the buffer in which it was put.\<close>

lemma insert_first: "\<forall>u \<in> set q. nt_timeout t \<le> nt_timeout u \<Longrightarrow> nd_timer_insert t q = t # q"
  by (cases q) (auto simp: leD)

lemma parse_no_lists:
  "parse_hello junk (write_buf [4, 0, 0, 1, 0, 0, 0, 0] b)
    = Inr \<lparr>he_local_if_set = [], he_neighbor_set = [], he_status_set = [], he_live_time = 0\<rparr>"
  by (simp add: parse_hello_def Let_def nd_copy_def write_buf_def read32_def)

text \<open>
  C40. Eight bytes from an address that is not in the table stop the alarms of the process: a
  hello message with a live time of zero, read while no timer is overdue, puts a timer of the
  present moment in front of the queue and arms the interval timer for no time at all, which
  switches it off. The timers in the queue, the next hello message among them, stay there.
\<close>

theorem zero_live_time_stops_alarms:
  assumes "i < length (interface_entry_list s)" "\<forall>j. nd_malloc (nd_env s) j" "src \<noteq> address i s"
    "src \<notin> neighbors_of (interface_entry_list s ! i)"
    "\<forall>t \<in> set (nd_timerQ s). nd_clock (nd_env s) (nd_ticks s + 3) \<le> nt_timeout t"
  shows "\<exists>s' t. handle_hello_message i (Some (src, [4, 0, 0, 1, 0, 0, 0, 0])) s = Inr ((), s')
    \<and> nd_timerQ s' = t # nd_timerQ s \<and> nt_timeout t = nd_clock (nd_env s) (nd_ticks s + 3)
    \<and> nd_outs s' = nd_outs s @ [Nd_setitimer 0 0]"
proof -
  let ?s = "s\<lparr>nd_ticks := nd_ticks s + 3\<rparr>"
  let ?h = "\<lparr>he_local_if_set = [], he_neighbor_set = [], he_status_set = [], he_live_time = 0\<rparr> :: hello"
  have none: "find (\<lambda>x. oh_ip_address x = src) (table i ?s) = None"
    using assms(4) by (simp add: find_neighbor neighbors_of_def)
  have i: "i < length (interface_entry_list ?s)" using assms(1) by simp
  have "handle_hello_message i (Some (src, [4, 0, 0, 1, 0, 0, 0, 0])) s = update_info i src ?h ?s"
    using assms(1-3) by (subst handle_hello_run) (simp_all add: parse_no_lists)
  with assms(2,5) show ?thesis
    by (simp add: update_info_new [OF i refl none] set_neighbors_def nd_set_timer_def nd_getcurrtime_def nd_ask_def
        nd_timer_add_def nd_setLowestTimer_def nd_setRealTimer_def nd_emit_def Let_def sm_simps insert_first)
qed

theorem zero_live_time_stops_alarms_witness:
  "\<exists>s' t. handle_hello_message 0 (Some (2, [4, 0, 0, 1, 0, 0, 0, 0])) (on 1) = Inr ((), s')
    \<and> nd_timerQ s' = t # nd_timerQ (on 1) \<and> nd_outs s' = nd_outs (on 1) @ [Nd_setitimer 0 0]"
proof -
  have "\<forall>t \<in> set (nd_timerQ (on 1)). nd_clock quiet 7 \<le> nt_timeout t" by (simp add: on_def quiet_def)
  then show ?thesis using zero_live_time_stops_alarms [of 0 "on 1" 2] by (auto simp: neighbors_of_def)
qed

text \<open>
  A hello message says how long its addresses are, and the reader believes it: with a length
  above four, the first address it copies, of an interface of the sender, overflows a variable of
  four bytes on the stack.
\<close>

theorem long_addresses_overflow_the_stack:
  assumes "i < length (interface_entry_list s)" "nd_malloc (nd_env s) (nd_ticks s)" "src \<noteq> address i s"
    "4 < unat l" "0 < unat n"
  shows "handle_hello_message i (Some (src, l # n # bytes)) s = Inl (StackOverflow (unat l) 4)"
proof -
  have l: "unat l < 256" by (rule order_less_le_trans [OF unsigned_less]) simp
  obtain k where k: "unat n = Suc k" using assms(5) by (cases "unat n") auto
  have "parse_hello junk (write_buf (l # n # rest) b) = Inl (StackOverflow (unat l) 4)" for junk rest b
    using l k assms(4)
    by (simp add: parse_hello_def Let_def read_address_def nd_copy_def write_buf_def)
  with assms(1-3) show ?thesis
    by (auto simp: handle_hello_message_def interface_def nd_ask_def sm_simps take_Cons' )
qed

theorem long_addresses_overflow_the_stack_witness:
  "handle_hello_message 0 (Some (2, [255, 1, 0, 1])) (on 1) = Inl (StackOverflow 255 4)"
  using long_addresses_overflow_the_stack [of 0 "on 1" 2 255 1 "[0, 1]"] by simp

text \<open>
  A node that is stopped and started again with the same file has each of its interfaces
  twice: the names that the first start has read are never dropped. Two sockets then listen on
  the interface, both entries send hello messages, and the timers of their neighbours, which are
  searched by the name of the interface, are no longer told apart.
\<close>

theorem second_start_doubles_interfaces:
  assumes "parse_configure junk 0 cfg = Inr pairs" "parse_configure junk' 0 cfg = Inr pairs"
    "nd_turn_up (Some cfg) junk answers r s = Inr (0, s1)" "nd_turn_down s1 = Inr ((), s2)"
    "nd_turn_up (Some cfg) junk' answers' r' s2 = Inr (0, s3)" "interface_list s = []"
  shows "map ie_name (interface_entry_list s3) = map ip_name pairs @ map ip_name pairs"
proof -
  have "start_interfaces pairs answers r s = Inr (0, s1)" "start_interfaces pairs answers' r' s2 = Inr (0, s3)"
    using assms(1-3,5) by (simp_all add: nd_turn_up_def)
  from turn_up_names(1) [OF this(2)] turn_up_names(2) [OF this(1)] turn_down_list [OF assms(4)] assms(6)
  show ?thesis by simp
qed

theorem second_start_doubles_interfaces_witness:
  "\<exists>s2 s3. nd_turn_up (Some eth0_file) (\<lambda>_. no_junk) (answers_at 1) 0 off = Inr (0, on 1) \<and> nd_turn_down (on 1) = Inr ((), s2)
    \<and> nd_turn_up (Some eth0_file) (\<lambda>_. no_junk) (answers_at 1) 0 s2 = Inr (0, s3) \<and> map ie_name (interface_entry_list s3) = [''eth0'', ''eth0'']"
proof -
  let ?s2 = "on 1\<lparr>interface_entry_list := [], nd_timerQ := [], nd_outs := nd_outs (on 1) @ [Nd_close 3]\<rparr>"
  have down: "nd_turn_down (on 1) = Inr ((), ?s2)"
    by (simp add: nd_turn_down_def clean_interface_entry_list_def clean_timer_list_def nd_emit_def on_def sm_simps)
  have "length (hello_bytes [1, 1] []) = 16" using length_hello_bytes [of "[1, 1]" "[]"] by simp
  then obtain s3 where "start_interfaces [eth0] (answers_at 1) 0 ?s2 = Inr (0, s3)"
    by (simp add: start_interfaces_def init_interface_entry_list_def eth0_def answers_at_def init_socket_def bind_socket_def
      nd_ask_def start_discovery_def send_hello_message_def generate_and_send_hello_message_def interface_def nd_emit_def
      nd_set_timer_def nd_getcurrtime_def nd_timer_add_def nd_setLowestTimer_def nd_setRealTimer_def on_def quiet_def
      Let_def sm_simps)
  then have up: "nd_turn_up (Some eth0_file) (\<lambda>_. no_junk) (answers_at 1) 0 ?s2 = Inr (0, s3)"
    by (simp add: nd_turn_up_def eth0_file_read)
  from second_start_doubles_interfaces [OF eth0_file_read eth0_file_read turn_up_on down up] turn_up_on down up
  show ?thesis by (simp add: off_def eth0_def)
qed

end
