(* ===== verification/Demo_Process.thy ===== *)
theory Demo_Process
  imports Router_Demo Nd_System Fo_Netlink
begin

text \<open>
  The process of the demonstration client (\<open>LA_Client_router_demo/main.cpp\<close>): its connection to the
  agent, the forwarding library and the neighbour discovery, from \<open>main\<close> to the signal that ends it.
\<close>

section \<open>The process\<close>

text \<open>
  What it asks of the system: the descriptor of its socket, \<open>inet_pton\<close>, the text of
  \<open>./configure.ini\<close> (\<open>None\<close> when it cannot be opened), the stack of its reader, the answers for each
  interface, and that of \<open>pthread_create\<close>.
\<close>

record demo_env =
  de_socket :: int
  de_pton :: "string \<Rightarrow> ip option"
  de_configure :: "string option"
  de_locals :: "nat \<Rightarrow> locals"
  de_answers :: "nat \<Rightarrow> if_answers"
  de_thread :: int

datatype demo_effect = Dm_connect int ip nat | Dm_send int "u8 list" | Dm_signal string | Dm_exit int

record demo_process =
  denv :: demo_env
  dnd :: nd
  dfo :: fo
  deffects :: "demo_effect list"

abbreviation (input) SERV_PORT :: nat where "SERV_PORT \<equiv> 12001"

definition dm_emit :: "demo_effect \<Rightarrow> (demo_process, unit) sm" where
  "dm_emit e = upd (\<lambda>p. p\<lparr>deffects := deffects p @ [e]\<rparr>)"

definition on_dnd :: "(nd, 'a) sm \<Rightarrow> (demo_process, 'a) sm" where
  "on_dnd m = (\<lambda>p. case m (dnd p) of Inl e \<Rightarrow> Inl e | Inr (x, s) \<Rightarrow> Inr (x, p\<lparr>dnd := s\<rparr>))"

definition on_dfo :: "(fo, 'a) sm \<Rightarrow> (demo_process, 'a) sm" where
  "on_dfo m = (\<lambda>p. case m (dfo p) of Inl e \<Rightarrow> Inl e | Inr (x, f) \<Rightarrow> Inr (x, p\<lparr>dfo := f\<rparr>))"

text \<open>Without an argument \<open>inet_pton\<close> gets a null pointer; what is no address leaves 0.0.0.0.\<close>

definition demo_address :: "string list \<Rightarrow> (demo_process, ip) sm" where
  "demo_address argv =
     (case drop 1 argv of
        [] \<Rightarrow> raise NullDeref
      | a # _ \<Rightarrow> gets (\<lambda>p. case de_pton (denv p) a of None \<Rightarrow> 0 | Some addr \<Rightarrow> addr))"

text \<open>\<open>main\<close> up to its loop. What the calls return is printed or not looked at.\<close>

definition demo_main :: "string list \<Rightarrow> (demo_process, unit) sm" where
  "demo_main argv =
     bnd (gets (\<lambda>p. de_socket (denv p))) (\<lambda>sockfd.
     bnd (demo_address argv) (\<lambda>addr.
     andthen (dm_emit (Dm_connect sockfd addr SERV_PORT))
     (andthen (dm_emit (Dm_send sockfd demo_greeting))
     (bnd (on_dfo init_fo_socket) (\<lambda>fo_ret.
      andthen (dm_emit (Dm_signal ''SIGINT''))
      (bnd (gets denv) (\<lambda>e.
       bnd (on_dnd (nd_turn_up (de_configure e) (de_locals e) (de_answers e) (de_thread e))) (\<lambda>nd_ret.
       ret ()))))))))"

text \<open>One turn of its loop, by what \<open>recv\<close> delivers and what the fields that are not set hold.\<close>

definition demo_turn :: "ip \<Rightarrow> u8 \<Rightarrow> u8 list \<Rightarrow> (demo_process, unit) sm" where
  "demo_turn junk_src junk_protocol received =
     bnd (gets (\<lambda>p. de_socket (denv p))) (\<lambda>sockfd. dm_emit (Dm_send sockfd (demo_round junk_src junk_protocol received)))"

text \<open>The handler of \<open>SIGINT\<close>, and that of \<open>SIGALRM\<close>, which the neighbour discovery registers.\<close>

definition close_function :: "(demo_process, unit) sm" where
  "close_function = andthen (on_dnd nd_turn_down) (andthen (on_dfo close_fo_socket) (dm_emit (Dm_exit 0)))"

definition timeout_handle :: "nat \<Rightarrow> (nd, unit) sm" where
  "timeout_handle fuel = nd_scheduleTimer fuel"

section \<open>Runs\<close>

text \<open>
  It starts with nothing set up and a configuration file, if there is one, whose interfaces have
  different names. A running process gets requests, the thread of the neighbour discovery gets
  datagrams, and the two signals come in between.
\<close>

definition demo_start :: "demo_process \<Rightarrow> bool" where
  "demo_start p \<longleftrightarrow> (\<exists>argv q. demo_main argv q = Inr ((), p) \<and> deffects q = [] \<and> fouts (dfo q) = []
     \<and> interface_list (dnd q) = [] \<and> interface_entry_list (dnd q) = [] \<and> nd_timerQ (dnd q) = []
     \<and> (\<forall>cfg pairs. de_configure (denv q) = Some cfg \<longrightarrow> parse_configure (de_locals (denv q)) 0 cfg = Inr pairs
         \<longrightarrow> distinct (map ip_name pairs)))"

definition demo_running :: "demo_process \<Rightarrow> bool" where
  "demo_running p \<longleftrightarrow> Dm_exit 0 \<notin> set (deffects p)"

inductive demo_step :: "demo_process \<Rightarrow> demo_process \<Rightarrow> bool" where
  request: "demo_running p \<Longrightarrow> demo_turn src protocol received p = Inr ((), p') \<Longrightarrow> demo_step p p'"
| alarm: "demo_running p \<Longrightarrow> on_dnd (timeout_handle fuel) p = Inr ((), p') \<Longrightarrow> demo_step p p'"
| datagrams: "demo_running p \<Longrightarrow> on_dnd (nd_main_round ready read) p = Inr ((), p') \<Longrightarrow> demo_step p p'"
| interrupt: "demo_running p \<Longrightarrow> close_function p = Inr ((), p') \<Longrightarrow> demo_step p p'"

text \<open>The answer that no route was found, as the agent reads it.\<close>

definition refusal :: "u8 list \<Rightarrow> bool" where
  "refusal bytes \<longleftrightarrow> (\<exists>src protocol dst. bytes = LAMessage_generate_stream
     ((daemon_reply dst IP_NOFOUND)\<lparr>la_src_address := src, la_protocol := protocol\<rparr>))"

lemma turn_refuses: "refusal (demo_round src protocol received)"
  by (auto simp: refusal_def demo_round_def Let_def)

definition sends_ok :: "int \<Rightarrow> demo_effect list \<Rightarrow> bool" where
  "sends_ok sockfd es \<longleftrightarrow> (\<forall>fd bytes. Dm_send fd bytes \<in> set es \<longrightarrow> fd = sockfd \<and> (bytes = demo_greeting \<or> refusal bytes))"

lemma sends_ok_append: "sends_ok fd (es @ [e]) \<longleftrightarrow> sends_ok fd es \<and> sends_ok fd [e]"
  by (auto simp: sends_ok_def)

definition demo_inv :: "demo_process \<Rightarrow> bool" where
  "demo_inv p \<longleftrightarrow> reach nd_init nd_step (dnd p) \<and> sends_ok (de_socket (denv p)) (deffects p)
     \<and> (\<forall>fd bytes. Route_send fd bytes \<notin> set (fouts (dfo p)))"

lemma start_inv:
  assumes "demo_start p"
  shows "demo_inv p"
proof -
  from assms obtain argv q where run: "demo_main argv q = Inr ((), p)" and q: "deffects q = []" "fouts (dfo q) = []"
      "interface_list (dnd q) = []" "interface_entry_list (dnd q) = []" "nd_timerQ (dnd q) = []"
      "\<And>cfg pairs. de_configure (denv q) = Some cfg \<Longrightarrow> parse_configure (de_locals (denv q)) 0 cfg = Inr pairs
         \<Longrightarrow> distinct (map ip_name pairs)"
    by (auto simp: demo_start_def)
  let ?e = "denv q" and ?f = "init_fo_socket (dfo q)"
  from run obtain a addr r f x s where parts: "init_fo_socket (dfo q) = Inr (r, f)"
      "nd_turn_up (de_configure ?e) (de_locals ?e) (de_answers ?e) (de_thread ?e) (dnd q) = Inr (x, s)"
      "p = q\<lparr>dfo := f, deffects := [Dm_connect (de_socket ?e) addr SERV_PORT, Dm_send (de_socket ?e) demo_greeting, Dm_signal ''SIGINT''], dnd := s\<rparr>"
    by (auto simp: demo_main_def demo_address_def dm_emit_def on_dfo_def on_dnd_def q(1) sm_simps split: list.splits sum.splits)
  have "reach nd_init nd_step (dnd q)" by (rule reach_init) (simp add: nd_init_def q)
  moreover have "s = dnd q \<or> nd_step (dnd q) s"
  proof (cases "de_configure ?e")
    case None
    with parts(2) show ?thesis by (simp add: nd_turn_up_def sm_simps)
  next
    case (Some cfg)
    with parts(2) obtain pairs where pairs: "parse_configure (de_locals ?e) 0 cfg = Inr pairs"
      by (cases "parse_configure (de_locals ?e) 0 cfg") (auto simp: nd_turn_up_def sm_simps)
    have "nd_step (dnd q) s"
      by (rule nd_step.turn_up [OF q(4) _ pairs]) (use parts(2) Some q(3) q(6) [OF Some pairs] in auto)
    then show ?thesis ..
  qed
  ultimately have "reach nd_init nd_step s" by (auto intro: reach_step)
  moreover have "fouts f = []" using parts(1) q(2) by (auto simp: init_fo_socket_def sm_simps split: if_splits)
  ultimately show ?thesis by (simp add: demo_inv_def sends_ok_def parts(3))
qed

lemma on_dnd_inv:
  assumes "on_dnd m p = Inr ((), p')" "demo_inv p" "\<And>s s'. m s = Inr ((), s') \<Longrightarrow> nd_step s s'"
  shows "demo_inv p'"
proof -
  from assms(1) obtain s where s: "m (dnd p) = Inr ((), s)" "p' = p\<lparr>dnd := s\<rparr>" by (auto simp: on_dnd_def split: sum.splits)
  from assms(2) assms(3) [OF s(1)] show ?thesis by (auto simp: demo_inv_def s(2) intro: reach_step)
qed

lemma step_inv:
  assumes "demo_step p p'" "demo_inv p"
  shows "demo_inv p'"
  using assms(1)
proof cases
  case (request src protocol received)
  then have "p' = p\<lparr>deffects := deffects p @ [Dm_send (de_socket (denv p)) (demo_round src protocol received)]\<rparr>"
    by (simp add: demo_turn_def dm_emit_def sm_simps)
  moreover have "sends_ok fd [Dm_send fd (demo_round src protocol received)]" for fd
    using turn_refuses by (simp add: sends_ok_def)
  ultimately show ?thesis using assms(2) by (simp add: demo_inv_def sends_ok_append)
next
  case (alarm fuel)
  show ?thesis by (rule on_dnd_inv [OF alarm(2) assms(2)]) (simp add: timeout_handle_def nd_step.alarm)
next
  case datagrams
  show ?thesis by (rule on_dnd_inv [OF datagrams(2) assms(2)]) (rule nd_step.datagrams)
next
  case interrupt
  then obtain s where "nd_turn_down (dnd p) = Inr ((), s)"
      "p' = p\<lparr>dnd := s, dfo := (dfo p)\<lparr>fouts := fouts (dfo p) @ [Fo_close (fo_socket_fd (dfo p))]\<rparr>, deffects := deffects p @ [Dm_exit 0]\<rparr>"
    by (auto simp: close_function_def on_dnd_def on_dfo_def close_fo_socket_def dm_emit_def sm_simps split: sum.splits)
  moreover have "sends_ok fd [Dm_exit 0]" for fd by (simp add: sends_ok_def)
  ultimately show ?thesis using assms(2) by (auto simp: demo_inv_def sends_ok_append intro: reach_step nd_step.turn_down)
qed

interpretation demorun: invariant_of demo_start demo_step demo_inv
  by unfold_locales (auto intro: start_inv step_inv)

section \<open>Properties\<close>

text \<open>
  C10. Whatever the client has gone through, anything that it has sent is one of two things to the agent: the
  agent takes no notice of it, or tells the kernel module that there is no route to some address,
  and the module frees the packets that wait for that address. The client never asks for a change of the
  kernel's routes, and its neighbour discovery is in a state that it reaches on its own.
\<close>

theorem demo_client_only_refuses:
  assumes "reach demo_start demo_step p" "Dm_send fd bytes \<in> set (deffects p)"
    and "memory (aenv a)" "kmod_inv k" "my_queue_head k = Ptr h"
  shows "fd = de_socket (denv p) \<and> reach nd_init nd_step (dnd p) \<and> (\<forall>fd' r. Route_send fd' r \<notin> set (fouts (dfo p)))
    \<and> (\<exists>a'. la_serv_handle_message c bytes a = Inr (0, a')
        \<and> (aouts a' = aouts a
            \<or> (\<exists>dst ans k'. aouts a' = aouts a @ [Netlink_send (nlfd a) ans] \<and> recv_msg 1001 ans k = Inr ((), k')
                \<and> kouts k' = kouts k @ map (\<lambda>e. Kfree_skb (el_skb e)) (waiting dst h) \<and> my_queue_head k' = Ptr (without dst h))))"
proof -
  from demorun.reach_inv [OF assms(1)] assms(2) have inv: "fd = de_socket (denv p)" "reach nd_init nd_step (dnd p)"
      "\<forall>fd' r. Route_send fd' r \<notin> set (fouts (dfo p))" "bytes = demo_greeting \<or> refusal bytes"
    by (auto simp: demo_inv_def sends_ok_def)
  from inv(4) have "\<exists>a'. la_serv_handle_message c bytes a = Inr (0, a')
        \<and> (aouts a' = aouts a \<or> (\<exists>dst. aouts a' = aouts a @ [Netlink_send (nlfd a) (kernel_reply a dst IP_NOFOUND)]))"
  proof
    assume "bytes = demo_greeting"
    with greeting_ignored [OF assms(3)] show ?thesis by blast
  next
    assume "refusal bytes"
    with agent_replies_junk [OF assms(3)] show ?thesis unfolding refusal_def by blast
  qed
  moreover have "\<exists>k'. recv_msg 1001 (kernel_reply a dst IP_NOFOUND) k = Inr ((), k')
      \<and> kouts k' = kouts k @ map (\<lambda>e. Kfree_skb (el_skb e)) (waiting dst h) \<and> my_queue_head k' = Ptr (without dst h)" for dst
    using route_missing_run [OF assms(4,5), of 1001 "kernel_reply a dst IP_NOFOUND" dst] by auto
  ultimately show ?thesis using inv(1-3) by blast
qed

definition demo_env1 :: demo_env where
  "demo_env1 = \<lparr>de_socket = 8, de_pton = (\<lambda>_. Some 1), de_configure = Some eth0_file, de_locals = (\<lambda>_. no_junk),
     de_answers = answers_at 1, de_thread = 0\<rparr>"

definition demo_up :: demo_process where
  "demo_up = \<lparr>denv = demo_env1, dnd = on 1,
     dfo = \<lparr>f_sendmsg = \<lambda>_. 68, f_socket = 3, fticks = 0, f_replies = [], fo_socket_fd = 3, fouts = []\<rparr>,
     deffects = [Dm_connect 8 1 12001, Dm_send 8 demo_greeting, Dm_signal ''SIGINT'']\<rparr>"

lemma demo_up_reached: "reach demo_start demo_step demo_up"
proof (rule reach_init)
  let ?q = "demo_up\<lparr>dnd := off, dfo := (dfo demo_up)\<lparr>fo_socket_fd := 0\<rparr>, deffects := []\<rparr>"
  have "demo_main [''demo'', ''10.0.0.1''] ?q = Inr ((), demo_up)"
    using turn_up_on [of "\<lambda>_. no_junk" 1]
    by (simp add: demo_main_def demo_address_def dm_emit_def on_dfo_def on_dnd_def init_fo_socket_def demo_up_def demo_env1_def sm_simps)
  then show "demo_start demo_up"
    unfolding demo_start_def
    by (intro exI [of _ "[''demo'', ''10.0.0.1'']"] exI [of _ ?q])
      (simp add: demo_up_def demo_env1_def off_def eth0_file_read)
qed

theorem demo_client_only_refuses_witness:
  "\<exists>p bytes a'. demo_turn 0 0 (LAMessage_generate_stream (daemon_request (tun_packet 2 9))) demo_up = Inr ((), p)
    \<and> reach demo_start demo_step p \<and> Dm_send 8 bytes \<in> set (deffects p) \<and> refusal bytes
    \<and> la_serv_handle_message 7 bytes one_daemon = Inr (0, a') \<and> reach nd_init nd_step (dnd p)"
proof -
  let ?r = "LAMessage_generate_stream (daemon_request (tun_packet 2 9))" and ?b = "demo_round 0 0"
  let ?p = "demo_up\<lparr>deffects := deffects demo_up @ [Dm_send 8 (?b ?r)]\<rparr>"
  have run: "demo_turn 0 0 ?r demo_up = Inr ((), ?p)"
    by (simp add: demo_turn_def dm_emit_def demo_up_def demo_env1_def sm_simps)
  have "demo_running demo_up" by (simp add: demo_running_def demo_up_def)
  from reach_step [OF demo_up_reached demo_step.request [OF this run]] have r: "reach demo_start demo_step ?p" .
  have "Dm_send 8 (?b ?r) \<in> set (deffects ?p)" "memory (aenv one_daemon)" "my_queue_head holding = Ptr two_held"
    by (simp_all add: agent_fields kernel_fields)
  from demo_client_only_refuses [OF r this(1,2) holding_inv(1) this(3), of 7] this(1) run r turn_refuses [of 0 0 ?r]
  show ?thesis by blast
qed

end
