(* ===== verification/Ods_Test.thy ===== *)
theory Ods_Test
  imports Platform La_Main
begin

text \<open>
  The test program of the ODS library (\<open>lib_code_test/ods_test/main.cpp\<close>): a process that stands for
  agent and daemon at once and finds a route for everything, over one gateway. It uses the two libraries
  of the agent, so its state is that of \<open>La_Main\<close>, of which it leaves the clients alone.
\<close>

section \<open>The program\<close>

text \<open>\<open>inet_addr ("192.168.16.128")\<close>, in network byte order.\<close>

abbreviation (input) TEST_GATEWAY :: ip where "TEST_GATEWAY \<equiv> 0x8010A8C0"
abbreviation (input) TEST_DEV :: string where "TEST_DEV \<equiv> ''ens33''"

definition ods_test_sleep :: "int \<Rightarrow> (la_process, unit) sm" where
  "ods_test_sleep sec = la_emit (La_sleep sec)"

text \<open>\<open>main\<close> up to its loop. What the calls return is not looked at.\<close>

definition ods_test_main :: "(la_process, unit) sm" where
  "ods_test_main =
     andthen (la_emit (La_signal ''SIGINT''))
     (bnd (on_lfo init_fo_socket) (\<lambda>r.
      bnd (on_agent ods_turn_up) (\<lambda>nlfd.
      bnd (gets (\<lambda>p. le_nametoindex (lenv p) TUN_DEV_NAME)) (\<lambda>ifindex.
      bnd (on_lfo (FO_add_a_route 0 0 TUN_GATEWAY (of_int ifindex) 10 0)) (\<lambda>re. ret ())))))"

text \<open>
  One turn of its loop, by what \<open>recvmsg\<close> delivers: the request is an uninitialised variable, and a
  failure of \<open>ODS_get_route_request\<close> is not noticed.
\<close>

definition ods_test_round :: "nlmsg option \<Rightarrow> (la_process, unit) sm" where
  "ods_test_round received =
     bnd (on_agent (aask a_junk_request)) (\<lambda>junk.
     bnd (on_agent (ODS_get_route_request received junk)) (\<lambda>(r, now_request).
     andthen (ods_test_sleep 15)
     (bnd (gets (\<lambda>p. le_nametoindex (lenv p) TEST_DEV)) (\<lambda>index.
      bnd (on_lfo (FO_add_a_route (rq_now_dst_ip now_request) 32 TEST_GATEWAY (of_int index) 10 0)) (\<lambda>re.
      andthen (ods_test_sleep 30)
      (bnd (on_agent (ODS_feedback_route_reply \<lparr>rp_now_ip = rq_now_dst_ip now_request, rp_now_result = IP_FOUND\<rparr>)) (\<lambda>result.
       ret ())))))))"

text \<open>The handler of \<open>SIGINT\<close>, which does not end the process.\<close>

definition exit_function :: "(la_process, unit) sm" where
  "exit_function = on_agent ods_turn_down"

section \<open>A turn of the loop\<close>

text \<open>The kernel's side of the routing socket, as far as the changes of routes go: it acknowledges each.\<close>

definition acknowledging :: "nat \<Rightarrow> fo \<Rightarrow> bool" where
  "acknowledging n f \<longleftrightarrow> (\<forall>k. 0 < f_sendmsg f k) \<and> n \<le> length (f_replies f)
     \<and> (\<forall>d \<in> set (f_replies f). \<exists>error rest. d = ack error rest \<and> 16 \<le> length rest \<and> length rest \<le> 1000)"

lemma add_route_run:
  assumes "acknowledging (Suc n) f"
  shows "\<exists>r f'. FO_add_a_route dst len gateway i metric src f = Inr (r, f') \<and> acknowledging n f' \<and> fo_socket_fd f' = fo_socket_fd f
    \<and> fouts f' = fouts f @ [Route_send (fo_socket_fd f) (request_bytes (add_request dst len gateway i metric src))]"
proof -
  from assms obtain d ds where d: "f_replies f = d # ds" by (cases "f_replies f") (auto simp: acknowledging_def)
  with assms obtain error rest where e: "d = ack error rest" "16 \<le> length rest" "length rest \<le> 1000" "0 < f_sendmsg f (fticks f)"
    by (auto simp: acknowledging_def)
  from update_request_run [OF e(4) d [unfolded e(1)] e(2,3)] assms d show ?thesis
    by (simp add: FO_add_a_route_def sm_simps acknowledging_def)
qed

lemma test_round_run:
  assumes "memory (aenv (lagent p))" "acknowledging (Suc n) (lfo p)"
    and "ri_dst (rt_info_at (case received of None \<Rightarrow> (\<lambda>_. 0) | Some m \<Rightarrow> nl_data m)) = dst"
  shows "\<exists>p'. ods_test_round received p = Inr ((), p') \<and> memory (aenv (lagent p')) \<and> acknowledging n (lfo p')
    \<and> lenv p' = lenv p \<and> fo_socket_fd (lfo p') = fo_socket_fd (lfo p)
    \<and> nlfd (lagent p') = nlfd (lagent p) \<and> aenv (lagent p') = aenv (lagent p)
    \<and> fouts (lfo p') = fouts (lfo p) @ [Route_send (fo_socket_fd (lfo p))
        (request_bytes (add_request dst 32 TEST_GATEWAY (of_int (le_nametoindex (lenv p) TEST_DEV)) 10 0))]
    \<and> aouts (lagent p') = aouts (lagent p) @ [Netlink_send (nlfd (lagent p)) (kernel_reply (lagent p) dst IP_FOUND)]"
proof -
  let ?a0 = "(lagent p)\<lparr>aticks := Suc (aticks (lagent p))\<rparr>" and ?j = "a_junk_request (aenv (lagent p)) (aticks (lagent p))"
  have mem: "memory (aenv ?a0)" using assms(1) by simp
  from get_request_run [OF mem, of received ?j] assms(3) obtain r q a1 where
    a1: "ODS_get_route_request received ?j ?a0 = Inr ((r, q), a1)" "tables_of a1 = tables_of ?a0" "aouts a1 = aouts ?a0"
      "rq_now_dst_ip q = dst"
    by (auto simp: Let_def)
  let ?index = "le_nametoindex (lenv p) TEST_DEV"
  from add_route_run [OF assms(2), of dst 32 TEST_GATEWAY "of_int ?index" 10 0] obtain re f1 where
    f1: "FO_add_a_route dst 32 TEST_GATEWAY (of_int ?index) 10 0 (lfo p) = Inr (re, f1)" "acknowledging n f1" "fo_socket_fd f1 = fo_socket_fd (lfo p)"
      "fouts f1 = fouts (lfo p) @ [Route_send (fo_socket_fd (lfo p)) (request_bytes (add_request dst 32 TEST_GATEWAY (of_int ?index) 10 0))]"
    by blast
  have t1: "aenv a1 = aenv (lagent p)" "nlfd a1 = nlfd (lagent p)" "aouts a1 = aouts (lagent p)"
    using a1(2,3) by (simp_all add: tables_of_def)
  then have mem1: "memory (aenv a1)" using assms(1) by simp
  from feedback_run [OF this, of "\<lparr>rp_now_ip = dst, rp_now_result = IP_FOUND\<rparr>"] obtain a2 where
    a2: "ODS_feedback_route_reply \<lparr>rp_now_ip = dst, rp_now_result = IP_FOUND\<rparr> a1 = Inr (0, a2)" "tables_of a2 = tables_of a1"
      "aouts a2 = aouts a1 @ [Netlink_send (nlfd a1) (kernel_reply a1 dst IP_FOUND)]"
    by (auto simp: kernel_reply_def)
  let ?p = "p\<lparr>lagent := a2, lfo := f1, leffects := (leffects p @ [La_sleep 15]) @ [La_sleep 30]\<rparr>"
  have "ods_test_round received p = Inr ((), ?p)"
    using a1(1,4) f1(1) a2(1)
    by (simp add: ods_test_round_def ods_test_sleep_def la_emit_def on_agent_def on_lfo_def agent_simps)
  moreover have "kernel_reply a1 dst IP_FOUND = kernel_reply (lagent p) dst IP_FOUND" by (simp add: kernel_reply_def t1)
  moreover have "aenv a2 = aenv (lagent p)" "nlfd a2 = nlfd (lagent p)" using a2(2) t1 by (simp_all add: tables_of_def)
  ultimately show ?thesis using f1(2-4) a2(3) t1 assms(1) by (intro exI [of _ ?p]) simp
qed

section \<open>Properties\<close>

text \<open>
  C11. With the test program in the place of agent and daemon, every packet that the kernel module holds
  is sent: the program reads the destination from the module's request, tells the kernel a host route
  to it over its gateway and its device, and then answers; when the kernel has taken the route, the
  module sends the packet over it, and its queue is what it was. This holds for own and forwarded
  packets, although the search for the incoming interface of a forwarded one may fail.
\<close>

theorem test_program_sends_packets:
  assumes "kmod_inv k" "transmission_flag k" "my_queue_head k = Ptr h" "\<forall>n. k_alloc (kenv k) n"
    and "qh_len h < MAX_PACKET_NUMBER" "waiting (sk_daddr skb) h = []"
    and "sk_dst_dev skb = TUNNAME" "type = LOCAL \<or> type = OTHER"
    and "routed (kenv k) (sk_daddr skb) dev" "dev \<noteq> TUNNAME"
    and "memory (aenv (lagent p))" "acknowledging 1 (lfo p)"
  shows "\<exists>k1 m p1 bytes ans k2. check_packet type skb k = Inr (NF_STOLEN, k1)
    \<and> kouts k1 = kouts k @ [Netlink_unicast (user_pid k) m]
    \<and> ods_test_round (Some m) p = Inr ((), p1)
    \<and> fouts (lfo p1) = fouts (lfo p) @ [Route_send (fo_socket_fd (lfo p)) bytes]
    \<and> (\<forall>more. parseRoutes (bytes @ more) empty_entry = Inr (empty_entry\<lparr>en_dst := sk_daddr skb, en_gateway := TEST_GATEWAY,
         en_ifindex := of_int (le_nametoindex (lenv p) TEST_DEV), en_metric := 10\<rparr>))
    \<and> aouts (lagent p1) = aouts (lagent p) @ [Netlink_send (nlfd (lagent p)) ans]
    \<and> recv_msg 1001 ans k1 = Inr ((), k2)
    \<and> kouts k2 = kouts k1 @ [Xmit (skb\<lparr>sk_dst_dev := dev\<rparr>)] \<and> my_queue_head k2 = Ptr h"
proof -
  let ?dst = "sk_daddr skb" and ?index = "of_int (le_nametoindex (lenv p) TEST_DEV)"
  from packet_held [OF assms(1-8)] obtain t junk pad k1 where
    k1: "check_packet type skb k = Inr (NF_STOLEN, k1)"
      "kouts k1 = kouts k @ [Netlink_unicast (user_pid k) (request_of skb type junk pad)]"
      "my_queue_head k1 = Ptr (held skb type h)" "kenv k1 = kenv k"
    by auto
  from runsD [OF runs_check_packet assms(1), of type skb] k1(1) have inv: "kmod_inv k1" by simp
  have one: "acknowledging (Suc 0) (lfo p)" using assms(12) by simp
  from test_round_run [OF assms(11) one, of "Some (request_of skb type junk pad)" ?dst] obtain p1 where
    p1: "ods_test_round (Some (request_of skb type junk pad)) p = Inr ((), p1)"
      "fouts (lfo p1) = fouts (lfo p) @ [Route_send (fo_socket_fd (lfo p)) (request_bytes (add_request ?dst 32 TEST_GATEWAY ?index 10 0))]"
      "aouts (lagent p1) = aouts (lagent p) @ [Netlink_send (nlfd (lagent p)) (kernel_reply (lagent p) ?dst IP_FOUND)]"
    by (auto simp: request_read)
  have "parseRoutes (request_bytes (add_request ?dst 32 TEST_GATEWAY ?index 10 0) @ more) empty_entry
      = Inr (empty_entry\<lparr>en_dst := ?dst, en_gateway := TEST_GATEWAY, en_ifindex := ?index, en_metric := 10\<rparr>)" for more
    using add_request_read [of ?dst 32 TEST_GATEWAY ?index 10 0 more] by (simp add: empty_entry_def)
  moreover from route_found_run [OF inv k1(3) _ kernel_reply_read, of 1001 ?dst dev "lagent p"] assms(9,10) k1(4)
  obtain k2 where "recv_msg 1001 (kernel_reply (lagent p) ?dst IP_FOUND) k1 = Inr ((), k2)"
    "kouts k2 = kouts k1 @ [Xmit (skb\<lparr>sk_dst_dev := dev\<rparr>)]" "my_queue_head k2 = Ptr h"
    by (auto simp: waiting_held [OF assms(6)])
  ultimately show ?thesis using k1(1,2) p1 by blast
qed

definition test_fo :: fo where
  "test_fo = \<lparr>f_sendmsg = \<lambda>_. 68, f_socket = 3, fticks = 0, f_replies = replicate 3 (ack 0 (replicate 16 0)), fo_socket_fd = 0, fouts = []\<rparr>"

definition test_env :: la_env where
  "test_env = port_taken\<lparr>le_nametoindex := \<lambda>_. 2\<rparr>"

lemma test_fo_acknowledges: "acknowledging 1 test_fo" "acknowledging 3 test_fo"
proof -
  have "\<exists>error rest. ack 0 (replicate 16 0) = ack error rest \<and> 16 \<le> length rest \<and> length rest \<le> 1000"
    by (intro exI [of _ 0] exI [of _ "replicate 16 0"]) simp
  then show "acknowledging 1 test_fo" "acknowledging 3 test_fo" by (simp_all add: acknowledging_def test_fo_def)
qed

theorem test_program_sends_packets_witness:
  "\<exists>k1 m p1 ans k2. check_packet OTHER (tun_packet 3 2) holding = Inr (NF_STOLEN, k1)
    \<and> ods_test_round (Some m) (la_boot test_env quiet_agent_env test_fo) = Inr ((), p1)
    \<and> recv_msg 1001 ans k1 = Inr ((), k2) \<and> aouts (lagent p1) = [Netlink_send 0 ans]
    \<and> kouts k2 = kouts k1 @ [Xmit ((tun_packet 3 2)\<lparr>sk_dst_dev := ''wlan0''\<rparr>)] \<and> my_queue_head k2 = Ptr two_held"
proof -
  have k: "kmod_inv holding" "transmission_flag holding" "my_queue_head holding = Ptr two_held"
      "\<forall>n. k_alloc (kenv holding) n" "qh_len two_held < MAX_PACKET_NUMBER"
      "waiting (sk_daddr (tun_packet 3 2)) two_held = []" "sk_dst_dev (tun_packet 3 2) = TUNNAME"
    by (rule holding_inv(1)) (simp_all add: kernel_fields waiting_def)
  have r: "routed (kenv holding) (sk_daddr (tun_packet 3 2)) ''wlan0''" by (simp add: routed_def kernel_fields)
  let ?p = "la_boot test_env quiet_agent_env test_fo"
  have a: "memory (aenv (lagent ?p))" "acknowledging 1 (lfo ?p)" "nlfd (lagent ?p) = 0" "aouts (lagent ?p) = []"
    using test_fo_acknowledges(1) by (simp_all add: la_boot_def quiet_agent_env_def)
  from test_program_sends_packets [OF k _ r _ a(1,2), of OTHER] show ?thesis unfolding a(3,4) by (simp; blast)
qed

text \<open>
  The program does not end: after \<open>SIGINT\<close> it has told the module that it leaves and closed its socket,
  and goes on with its loop. Each \<open>recvmsg\<close> then fails, which it takes for a request for the
  address 0.0.0.0: it adds a route to it, again and again, and sends the answer to the closed descriptor.
\<close>

lemma rounds_of_failures:
  assumes "memory (aenv (lagent p))" "acknowledging n (lfo p)"
  shows "\<exists>p'. forM (replicate n ()) (\<lambda>_. ods_test_round None) p = Inr ((), p')
    \<and> fouts (lfo p') = fouts (lfo p) @ replicate n (Route_send (fo_socket_fd (lfo p))
        (request_bytes (add_request 0 32 TEST_GATEWAY (of_int (le_nametoindex (lenv p) TEST_DEV)) 10 0)))"
  using assms
proof (induction n arbitrary: p)
  case (Suc n)
  have zero: "ri_dst (rt_info_at (case None of None \<Rightarrow> (\<lambda>_. 0) | Some m \<Rightarrow> nl_data m)) = 0"
    by (simp add: rt_info_at_def read32_def)
  from test_round_run [OF Suc.prems zero] obtain p1 where
    p1: "ods_test_round None p = Inr ((), p1)" "memory (aenv (lagent p1))" "acknowledging n (lfo p1)" "lenv p1 = lenv p"
      "fo_socket_fd (lfo p1) = fo_socket_fd (lfo p)"
      "fouts (lfo p1) = fouts (lfo p) @ [Route_send (fo_socket_fd (lfo p))
        (request_bytes (add_request 0 32 TEST_GATEWAY (of_int (le_nametoindex (lenv p) TEST_DEV)) 10 0))]"
    by blast
  from Suc.IH [OF p1(2,3)] p1(1,4-6) show ?case by (auto simp: andthen_apply)
qed (simp add: sm_simps)

theorem test_program_survives_interrupt:
  assumes "memory (aenv (lagent p))" "acknowledging n (lfo p)"
  shows "\<exists>p0 m p1. exit_function p = Inr ((), p0) \<and> nl_type m = NLMSG_TYPE_EXIT
    \<and> aouts (lagent p0) = aouts (lagent p) @ [Netlink_send (nlfd (lagent p)) m, Close (nlfd (lagent p))]
    \<and> forM (replicate n ()) (\<lambda>_. ods_test_round None) p0 = Inr ((), p1)
    \<and> fouts (lfo p1) = fouts (lfo p) @ replicate n (Route_send (fo_socket_fd (lfo p))
        (request_bytes (add_request 0 32 TEST_GATEWAY (of_int (le_nametoindex (lenv p) TEST_DEV)) 10 0)))"
proof -
  from ods_send_run [OF assms(1), of NLMSG_TYPE_EXIT "string_bytes ''Userspace netlink is going to be exit soon''"] obtain a where
    a: "ods_send_exit_msg (lagent p) = Inr ((), a)" "tables_of a = tables_of (lagent p)"
      "aouts a = aouts (lagent p) @ [Netlink_send (nlfd (lagent p)) \<lparr>nl_len = 1040, nl_type = NLMSG_TYPE_EXIT,
         nl_pid = a_pid (aenv (lagent p)), nl_data = write_buf (string_bytes ''Userspace netlink is going to be exit soon'') (\<lambda>_. 0)\<rparr>]"
    by (auto simp: ods_send_exit_msg_def)
  let ?p0 = "p\<lparr>lagent := a\<lparr>aouts := aouts a @ [Close (nlfd a)]\<rparr>\<rparr>"
  have exit: "exit_function p = Inr ((), ?p0)"
    using a(1) by (simp add: exit_function_def ods_turn_down_def ods_close_user_socket_def on_agent_def agent_simps)
  have same: "memory (aenv (lagent ?p0))" "acknowledging n (lfo ?p0)" "nlfd a = nlfd (lagent p)"
    using assms a(2) by (simp_all add: tables_of_def)
  from rounds_of_failures [OF same(1,2)] exit a(3) same(3) show ?thesis by (auto intro!: exI [of _ ?p0])
qed

theorem test_program_survives_interrupt_witness:
  "\<exists>p0 p1. exit_function (la_boot test_env quiet_agent_env test_fo) = Inr ((), p0)
    \<and> forM (replicate 3 ()) (\<lambda>_. ods_test_round None) p0 = Inr ((), p1) \<and> length (fouts (lfo p1)) = 3"
proof -
  let ?p = "la_boot test_env quiet_agent_env test_fo"
  have "memory (aenv (lagent ?p))" "acknowledging 3 (lfo ?p)" "fouts (lfo ?p) = []"
    using test_fo_acknowledges(2) by (simp_all add: la_boot_def quiet_agent_env_def test_fo_def)
  from test_program_survives_interrupt [OF this(1,2)] this(3) show ?thesis by auto
qed

text \<open>Up to its loop the program tells the kernel and the ODS module what the agent tells them.\<close>

theorem test_program_starts_as_agent:
  assumes "la_main p = Inr ((), p2)"
  shows "\<exists>p1. ods_test_main p = Inr ((), p1) \<and> lfo p1 = lfo p2 \<and> aouts (lagent p1) = aouts (lagent p2)"
proof -
  let ?b = "p\<lparr>leffects := leffects p @ [La_signal ''SIGINT'']\<rparr>"
  let ?i = "of_int (le_nametoindex (lenv p) TUN_DEV_NAME) :: u32"
  from assms obtain r0 f0 where f0: "init_fo_socket (lfo p) = Inr (r0, f0)"
    by (cases "init_fo_socket (lfo p)") (auto simp: la_main_def la_emit_def on_lfo_def sm_simps)
  with assms obtain fd a where a: "ods_turn_up (lagent p) = Inr (fd, a)"
    by (cases "ods_turn_up (lagent p)") (auto simp: la_main_def la_emit_def on_lfo_def on_agent_def sm_simps)
  with assms f0 obtain r1 f1 where f1: "FO_add_a_route 0 0 TUN_GATEWAY ?i 10 0 f0 = Inr (r1, f1)"
    by (cases "FO_add_a_route 0 0 TUN_GATEWAY ?i 10 0 f0") (auto simp: la_main_def la_emit_def on_lfo_def on_agent_def sm_simps)
  let ?p1 = "p\<lparr>leffects := leffects p @ [La_signal ''SIGINT''], lagent := a\<lparr>ods_fd := fd\<rparr>, lfo := f1\<rparr>"
  obtain r p3 where p3: "la_command_server_socket_init ?p1 = Inr (r, p3)" "lfo p3 = lfo ?p1"
      "lagent p3 = (if server_socket_ok (lenv p) then (lagent ?p1)\<lparr>command_server_fd := le_socket (lenv p)\<rparr> else lagent ?p1)"
    using server_socket_run [of ?p1] by auto
  have "ods_test_main p = Inr ((), ?b\<lparr>lfo := f1, lagent := a\<rparr>)"
    using f0 a f1 by (simp add: ods_test_main_def la_emit_def on_lfo_def on_agent_def sm_simps)
  moreover have "lfo p2 = f1 \<and> aouts (lagent p2) = aouts a"
    using assms f0 a f1 p3 by (auto simp: la_main_def la_emit_def on_lfo_def on_agent_def la_fdset_init_def sm_simps)
  ultimately show ?thesis by auto
qed

theorem test_program_starts_as_agent_witness:
  "\<exists>p1 p2. la_main (la_boot test_env quiet_agent_env test_fo) = Inr ((), p2)
    \<and> ods_test_main (la_boot test_env quiet_agent_env test_fo) = Inr ((), p1) \<and> aouts (lagent p1) = aouts (lagent p2)"
proof -
  have "\<exists>p2. la_main (la_boot test_env quiet_agent_env test_fo) = Inr ((), p2)"
  proof -
    let ?p = "la_boot test_env quiet_agent_env test_fo" and ?f = "test_fo\<lparr>fo_socket_fd := 3\<rparr>"
    obtain fd a where a: "ods_turn_up (lagent ?p) = Inr (fd, a)"
      using turn_up_run [of "lagent ?p"] by (auto simp: la_boot_def quiet_agent_env_def)
    have "acknowledging (Suc 0) ?f" using test_fo_acknowledges(1) by (simp add: acknowledging_def)
    from add_route_run [OF this, of 0 0 TUN_GATEWAY 2 10 0] obtain r f where
      f: "FO_add_a_route 0 0 TUN_GATEWAY 2 10 0 ?f = Inr (r, f)" by blast
    let ?q = "?p\<lparr>leffects := [La_signal ''SIGINT''], lagent := a\<lparr>ods_fd := fd\<rparr>, lfo := f\<rparr>"
    obtain r' p' where "la_command_server_socket_init ?q = Inr (r', p')" using server_socket_run [of ?q] by blast
    with a f show ?thesis
      by (simp add: la_main_def la_emit_def on_lfo_def on_agent_def init_fo_socket_def la_fdset_init_def sm_simps la_boot_def
          test_env_def test_fo_def)
  qed
  then show ?thesis using test_program_starts_as_agent by blast
qed

end
