(* ===== verification/Ods_One_User.thy ===== *)
theory Ods_One_User
  imports Ods_Versions Platform
begin

text \<open>
  The user side of version 1.0 of the ODS (\<open>lib_code_test/ODS_oldversion_1.0/ods_userspace_netlink.cpp\<close>),
  as far as it differs from \<open>lib/ODS\<close>: the structure of a request, no search for the incoming interface,
  and no message when it ends. The rest has the same text, and the state is that of \<open>Agent\<close>.
\<close>

section \<open>The library\<close>

record rt_message_v1 =
  r1_dst :: ip
  r1_src :: ip
  r1_proto :: u8
  r1_mac_dst_addr :: "u8 list"

definition rt_info_at_v1 :: "buffer \<Rightarrow> rt_message_v1" where
  "rt_info_at_v1 b = \<lparr>r1_dst = read32 b 0, r1_src = read32 b 4, r1_proto = b 8, r1_mac_dst_addr = map b [9..<15]\<rparr>"

definition ods_recv_msg_v1 :: "nlmsg option \<Rightarrow> (agent, rt_message_v1) sm" where
  "ods_recv_msg_v1 received =
     bnd (aask a_malloc) (\<lambda>ok.
     if \<not> ok then raise NullDeref
     else ret (rt_info_at_v1 (case received of None \<Rightarrow> (\<lambda>_. 0) | Some m \<Rightarrow> nl_data m)))"

text \<open>The caller's variable keeps its \<open>input_ifindex\<close>.\<close>

definition ODS_get_route_request_v1 :: "nlmsg option \<Rightarrow> route_request \<Rightarrow> (agent, int \<times> route_request) sm" where
  "ODS_get_route_request_v1 received now_request =
     bnd (aask a_malloc) (\<lambda>ok.
     if \<not> ok then ret (- 1, now_request)
     else
       bnd (ods_recv_msg_v1 received) (\<lambda>now_info.
       ret (0, now_request\<lparr>rq_now_dst_ip := r1_dst now_info, rq_now_src_ip := r1_src now_info,
         rq_now_protocol := r1_proto now_info\<rparr>)))"

text \<open>\<open>getcwd\<close> is asked first, for a directory that nothing uses.\<close>

definition ods_turn_up_v1 :: "bool \<Rightarrow> (agent, int) sm" where
  "ods_turn_up_v1 getcwd_ok =
     (if \<not> getcwd_ok then ret (- 1)
      else
        bnd ods_init_tun_dev (\<lambda>tun_fd.
        if tun_fd < 0 then ret (- 1)
        else
          bnd ods_init_user_socket (\<lambda>netlink_ret.
          if netlink_ret < 0 then andthen (aemit (Shell ''rmmod ods_kernel_module.ko'')) (ret (- 1))
          else andthen ods_send_init_msg (gets nlfd))))"

definition ods_turn_down_v1 :: "(agent, unit) sm" where
  "ods_turn_down_v1 = ods_close_user_socket"

section \<open>Requests\<close>

text \<open>The request of version 1.0's module as a message.\<close>

definition request_of_v1 :: "sk_buff \<Rightarrow> u8 list \<Rightarrow> u8 \<Rightarrow> nlmsg" where
  "request_of_v1 skb mac pad = \<lparr>nl_len = 32, nl_type = NLMSG_TYPE_INFO, nl_pid = 0,
     nl_data = write_buf (rt_info_v1 pad mac skb) (\<lambda>_. 0)\<rparr>"

lemma leave_asks:
  assumes "v1_hook s" "v1_handler s" "v1_flag s" "v1_socket s" "v1_queue s = Ptr h" "\<forall>n. k_alloc (v1_env s) n"
    and "\<not> list_ex (\<lambda>e. v1_dst_ip e = sk_daddr skb) (v1_list h)" "v1_len h < v1_maxlen h" "sk_dst_dev skb = TUNNAME"
  shows "\<exists>s' mac pad. leave_v1 skb s = Inr ((), s')
    \<and> v1_outs s' = v1_outs s @ [Netlink_unicast (v1_pid s) (request_of_v1 skb mac pad)]"
proof -
  have "\<not> list_ex (\<lambda>e. v1_dst_ip e = sk_daddr skb) (rev (v1_list h))" using assms(7) by (simp add: list_ex_iff)
  with assms show ?thesis
    by (auto simp: leave_v1_def check_packet_v1_def judgment_packet_v1_def receive_packet_v1_def pending_ip_v1_def the_queue_v1_def
        transmit_rtinfo_v1_def send_rtinfo_v1_def ask_v1_def emit_v1_def packet_enqueue_v1_def put_queue_v1_def
        count_element_def request_of_v1_def sm_simps Let_def)
qed

lemma request_v1_run:
  assumes "memory (aenv a)" "read32 (nl_data m) 0 = dst" "read32 (nl_data m) 4 = src" "nl_data m 8 = proto"
  shows "\<exists>a'. ODS_get_route_request_v1 (Some m) q a = Inr ((0, q\<lparr>rq_now_dst_ip := dst, rq_now_src_ip := src, rq_now_protocol := proto\<rparr>), a')
    \<and> tables_of a' = tables_of a \<and> aouts a' = aouts a"
  using assms by (simp add: ODS_get_route_request_v1_def ods_recv_msg_v1_def rt_info_at_v1_def agent_simps tables_of_def)

section \<open>Properties\<close>

text \<open>
  Version 1.0 of the module with version 1.0 of its library: a packet that is the first of its
  destination is asked for; the library reads its addresses and its protocol from the request; with
  the answer that a route was found the packet leaves over the route, and the module holds the packets it held before.
\<close>

theorem version_one_releases_packet:
  assumes "same_loaded {sk_daddr skb} s t" "kmod_inv t" "transmission_flag t" "\<forall>n. k_alloc (kenv t) n"
    and "my_queue_head t = Ptr h" "qh_len h < MAX_PACKET_NUMBER" "waiting (sk_daddr skb) h = []" "sk_dst_dev skb = TUNNAME"
    and "routed (kenv t) (sk_daddr skb) dev" "dev \<noteq> TUNNAME" "memory (aenv a)"
  shows "\<exists>s1 m q1 a1 a2 ans s2. leave_v1 skb s = Inr ((), s1)
    \<and> v1_outs s1 = v1_outs s @ [Netlink_unicast (v1_pid s) m]
    \<and> ODS_get_route_request_v1 (Some m) q a = Inr ((0, q1), a1)
    \<and> rq_now_dst_ip q1 = sk_daddr skb \<and> rq_now_src_ip q1 = sk_saddr skb \<and> rq_now_protocol q1 = sk_protocol skb
    \<and> ODS_feedback_route_reply \<lparr>rp_now_ip = rq_now_dst_ip q1, rp_now_result = IP_FOUND\<rparr> a1 = Inr (0, a2)
    \<and> aouts a2 = aouts a @ [Netlink_send (nlfd a) ans]
    \<and> recv_msg_v1 1001 ans s1 = Inr ((), s2)
    \<and> map seen_of (v1_outs s2) = map seen_of (v1_outs s1) @ [Passed (skb\<lparr>sk_dst_dev := dev\<rparr>)] \<and> held_v1 s2 = held_v1 s"
proof -
  let ?dst = "sk_daddr skb"
  from packet_held [OF assms(2,3,5,4,6,7,8), of OTHER] obtain k junk pad t1 where
    t1: "check_packet OTHER skb t = Inr (NF_STOLEN, t1)" "my_queue_head t1 = Ptr (Platform.held skb OTHER h)" "kenv t1 = kenv t"
      "kouts t1 = kouts t @ [Netlink_unicast (user_pid t) (request_of skb OTHER junk pad)]"
    by auto
  from runsD [OF runs_check_packet assms(2), of OTHER skb] t1(1) have inv: "kmod_inv t1" by simp
  have ev: "event_now 1001 (Leaving True skb) t = Inr ((), t1)" using t1(1) by (simp add: sm_simps)
  have apart: "own_apart {?dst} (Leaving True skb)" by (simp add: own_apart_def)
  from sim_apply [OF sim_forwarded [OF apart] assms(1), of 1001] ev obtain s1 where
    s1: "leave_v1 skb s = Inr ((), s1)" "same_loaded {sk_daddr skb} s1 t1" by (auto elim: rel_sum.cases simp del: event_now.simps)
  from assms(1,5) obtain h1 where h1: "v1_queue s = Ptr h1" "same_head {sk_daddr skb} h1 h"
    by (cases "v1_queue s") (auto simp: same_loaded_def same_module_def)
  have st: "v1_hook s" "v1_handler s" "v1_flag s" "v1_socket s" "\<forall>n. k_alloc (v1_env s) n"
    using assms(1-4) by (auto simp: same_loaded_def same_module_def kmod_inv_def)
  have room: "v1_len h1 < v1_maxlen h1"
    using h1(2) assms(2,5,6) by (simp add: same_head_def kmod_inv_def head_ok_def)
  have none: "\<not> list_ex (\<lambda>e. v1_dst_ip e = ?dst) (v1_list h1)"
  proof -
    have "list_all2 (same_elem {?dst}) (v1_list h1) (qh_list h)" using h1(2) by (simp add: same_head_def)
    moreover have "\<forall>e \<in> set (qh_list h). el_dst_ip e \<noteq> ?dst" using assms(7) by (auto simp: waiting_def filter_empty_conv)
    ultimately show ?thesis
      by (induction rule: list_all2_induct) (simp_all add: same_elem_def)
  qed
  from leave_asks [OF st(1-4) h1(1) st(5) none room assms(8)] s1(1) obtain mac pad1 where
    m: "v1_outs s1 = v1_outs s @ [Netlink_unicast (v1_pid s) (request_of_v1 skb mac pad1)]" by auto
  let ?m = "request_of_v1 skb mac pad1"
  let ?q = "q\<lparr>rq_now_dst_ip := ?dst, rq_now_src_ip := sk_saddr skb, rq_now_protocol := sk_protocol skb\<rparr>"
  have heads: "read32 (nl_data ?m) 0 = ?dst" "read32 (nl_data ?m) 4 = sk_saddr skb" "nl_data ?m 8 = sk_protocol skb"
    by (simp_all add: request_of_v1_def request_heads)
  from request_v1_run [OF assms(11) heads, of q] obtain a1 where
    a1: "ODS_get_route_request_v1 (Some ?m) q a = Inr ((0, ?q), a1)" "tables_of a1 = tables_of a" "aouts a1 = aouts a" by blast
  have same: "aenv a1 = aenv a" "nlfd a1 = nlfd a" using a1(2) by (simp_all add: tables_of_def)
  then have "memory (aenv a1)" using assms(11) by simp
  from feedback_run [OF this, of "\<lparr>rp_now_ip = ?dst, rp_now_result = IP_FOUND\<rparr>"] obtain a2 where
    a2: "ODS_feedback_route_reply \<lparr>rp_now_ip = ?dst, rp_now_result = IP_FOUND\<rparr> a1 = Inr (0, a2)"
      "aouts a2 = aouts a1 @ [Netlink_send (nlfd a1) (kernel_reply a1 ?dst IP_FOUND)]"
    by (auto simp: kernel_reply_def)
  let ?ans = "kernel_reply a1 ?dst IP_FOUND"
  from route_found_run [OF inv t1(2) _ kernel_reply_read, of 1001 ?dst dev a1] assms(9,10) t1(3) obtain t2 where
    t2: "recv_msg 1001 ?ans t1 = Inr ((), t2)" "kouts t2 = kouts t1 @ [Xmit (skb\<lparr>sk_dst_dev := dev\<rparr>)]" "my_queue_head t2 = Ptr h"
    by (auto simp: waiting_held [OF assms(7)])
  have "nl_type ?ans \<noteq> NLMSG_TYPE_EXIT" "\<forall>dst. finds ?ans dst \<longrightarrow> dst \<in> {?dst}" by (simp_all add: finds_def)
  from sim_apply [OF sim_recv_msg [OF this] s1(2), of 1001] t2(1) obtain s2 where
    s2: "recv_msg_v1 1001 ?ans s1 = Inr ((), s2)" "same_loaded {sk_daddr skb} s2 t2" by (auto elim: rel_sum.cases)
  have "map seen_of (v1_outs s2) = map seen_of (v1_outs s1) @ [Passed (skb\<lparr>sk_dst_dev := dev\<rparr>)]"
    using s1(2) s2(2) t2(2) by (simp add: same_loaded_def same_module_def)
  moreover have "held_v1 s2 = held_v1 s"
    using same_held [OF s2(2)] same_held [OF assms(1)] t2(3) assms(5) by (simp add: Ods_Versions.held_def)
  ultimately show ?thesis
    by (intro exI [of _ s1] exI [of _ ?m] exI [of _ ?q] exI [of _ a1] exI [of _ a2] exI [of _ ?ans] exI [of _ s2])
      (use s1(1) m a1(1,3) a2 s2(1) same in simp)
qed

theorem version_one_releases_packet_witness:
  "\<exists>s1 m q1 a1 a2 ans s2. leave_v1 (tun_packet 3 2) connected_v1 = Inr ((), s1) \<and> v1_outs s1 = [Netlink_unicast 77 m]
    \<and> ODS_get_route_request_v1 (Some m) (a_junk_request (aenv one_daemon) 0) one_daemon = Inr ((0, q1), a1)
    \<and> ODS_feedback_route_reply \<lparr>rp_now_ip = rq_now_dst_ip q1, rp_now_result = IP_FOUND\<rparr> a1 = Inr (0, a2)
    \<and> recv_msg_v1 1001 ans s1 = Inr ((), s2) \<and> held_v1 s2 = []
    \<and> map seen_of (v1_outs s2) = map seen_of (v1_outs s1) @ [Passed ((tun_packet 3 2)\<lparr>sk_dst_dev := ''wlan0''\<rparr>)]"
proof -
  let ?h = "\<lparr>qh_len = 0, qh_maxlen = 1000, qh_list = []\<rparr>"
  have k: "transmission_flag connected" "\<forall>n. k_alloc (kenv connected) n" "my_queue_head connected = Ptr ?h"
      "qh_len ?h < MAX_PACKET_NUMBER" "waiting (sk_daddr (tun_packet 3 2)) ?h = []" "sk_dst_dev (tun_packet 3 2) = TUNNAME"
      "routed (kenv connected) (sk_daddr (tun_packet 3 2)) ''wlan0''" "''wlan0'' \<noteq> TUNNAME" "memory (aenv one_daemon)"
      "v1_outs connected_v1 = []" "v1_pid connected_v1 = 77" "held_v1 connected_v1 = []"
    by (simp_all add: kernel_fields waiting_def routed_def agent_fields connected_v1_def held_v1_def)
  from version_one_releases_packet [OF same_connected k(1-9), of "a_junk_request (aenv one_daemon) 0"]
  show ?thesis unfolding k(10-12) by (simp; blast)
qed

end
