(* ===== verification/Nd_Socket.thy ===== *)
theory Nd_Socket
  imports Daemon Nd
begin

text \<open>
  How a datagram is read with its control messages, byte by byte: \<open>InterfaceEntry::read_from_sock\<close>
  of the neighbour discovery (\<open>lib/ND/nd_interface.cpp\<close>), whose loop over the control buffer is
  that of the AODV daemon's socket. The models of both have the datagram as it is read here.
\<close>

section \<open>The control buffer\<close>

text \<open>
  A control message is a \<open>struct cmsghdr\<close> of 16 bytes (length, level and type) with its data at a multiple of eight: the
  time to live, or the packet info with the destination address in its third field.
\<close>

abbreviation (input) SOL_IP :: u32 where "SOL_IP \<equiv> 0"
abbreviation (input) IP_TTL :: u32 where "IP_TTL \<equiv> 2"
abbreviation (input) IP_PKTINFO :: u32 where "IP_PKTINFO \<equiv> 8"

text \<open>
  The loop: the position is moved behind a time to live or a packet info, and stays at a message
  of any other kind. What \<open>cmsg_len\<close> says is not looked at.
\<close>

fun read_control :: "nat \<Rightarrow> buffer \<Rightarrow> nat \<Rightarrow> int \<times> ip \<Rightarrow> int \<times> ip" where
  "read_control 0 b p (ttl, dst) = (ttl, dst)"
| "read_control (Suc n) b p (ttl, dst) =
     (if read32 b (p + 8) = SOL_IP \<and> read32 b (p + 12) = IP_TTL
      then read_control n b (p + 24) (sint (read32 b (p + 16)), dst)
      else if read32 b (p + 8) = SOL_IP \<and> read32 b (p + 12) = IP_PKTINFO
      then read_control n b (p + 32) (ttl, read32 b (p + 24))
      else read_control n b p (ttl, dst))"

section \<open>Reading a datagram\<close>

text \<open>
  What the two calls of the system deliver: the result of \<open>recvmsg\<close> with \<open>MSG_PEEK\<close>, the length
  and the bytes of the control data, then the result of \<open>recvfrom\<close>, the sender and the payload.
\<close>

record nd_raw =
  nr_peek :: int
  nr_controllen :: nat
  nr_control :: buffer
  nr_len :: int
  nr_src :: ip
  nr_payload :: "u8 list"

record controlData =
  cd_src :: ip
  cd_ttl :: int

definition read_from_sock :: "nd_raw \<Rightarrow> int \<times> controlData" where
  "read_from_sock r =
     (if nr_peek r < 0 then (- 1, \<lparr>cd_src = 0, cd_ttl = 0\<rparr>)
      else if nr_len r < 0 then (- 1, \<lparr>cd_src = 0, cd_ttl = 0\<rparr>)
      else
        let recvTTL = (if nr_controllen r = 56 then fst (read_control 2 (nr_control r) 0 (0, 0)) else 0)
        in (nr_len r, \<lparr>cd_src = nr_src r, cd_ttl = recvTTL\<rparr>))"

text \<open>The handler of \<open>Nd\<close> on what this function returns.\<close>

definition nd_received :: "nd_raw \<Rightarrow> (ip \<times> u8 list) option" where
  "nd_received r =
     (let (len, c) = read_from_sock r
      in if len < 0 then None else Some (cd_src c, take (nat len) (nr_payload r)))"

section \<open>The kernel's control messages are read back\<close>

definition cmsg_bytes :: "u32 \<Rightarrow> u32 \<Rightarrow> u32 \<Rightarrow> u8 list \<Rightarrow> u8 list" where
  "cmsg_bytes len level type dat = le32 len @ le32 0 @ le32 level @ le32 type @ dat"

text \<open>
  With \<open>index\<close> and \<open>spec\<close> for the first two fields of the packet info, and the padding behind the data.
\<close>

definition ttl_bytes :: "u32 \<Rightarrow> u8 list \<Rightarrow> u8 list" where
  "ttl_bytes ttl pad = cmsg_bytes 20 SOL_IP IP_TTL (le32 ttl @ pad)"

definition pktinfo_bytes :: "u32 \<Rightarrow> ip \<Rightarrow> ip \<Rightarrow> u8 list \<Rightarrow> u8 list" where
  "pktinfo_bytes index spec dst pad = cmsg_bytes 28 SOL_IP IP_PKTINFO (le32 index @ le32 spec @ le32 dst @ pad)"

lemma read32_at: "length p = i \<Longrightarrow> b = p @ le32 w @ r \<Longrightarrow> read32 (write_buf b j) i = w"
  by (simp add: read32_append)

lemma ttl_fields:
  assumes "length p = i"
  shows "read32 (write_buf (p @ ttl_bytes ttl pad @ r) j) (i + 8) = SOL_IP"
    "read32 (write_buf (p @ ttl_bytes ttl pad @ r) j) (i + 12) = IP_TTL"
    "read32 (write_buf (p @ ttl_bytes ttl pad @ r) j) (i + 16) = ttl"
  by (rule read32_at [of "p @ le32 20 @ le32 0"] read32_at [of "p @ le32 20 @ le32 0 @ le32 0"]
      read32_at [of "p @ le32 20 @ le32 0 @ le32 0 @ le32 2"]; simp add: assms ttl_bytes_def cmsg_bytes_def)+

lemma pktinfo_fields:
  assumes "length p = i"
  shows "read32 (write_buf (p @ pktinfo_bytes index spec dst pad @ r) j) (i + 8) = SOL_IP"
    "read32 (write_buf (p @ pktinfo_bytes index spec dst pad @ r) j) (i + 12) = IP_PKTINFO"
    "read32 (write_buf (p @ pktinfo_bytes index spec dst pad @ r) j) (i + 24) = dst"
  by (rule read32_at [of "p @ le32 28 @ le32 0"] read32_at [of "p @ le32 28 @ le32 0 @ le32 0"]
      read32_at [of "p @ le32 28 @ le32 0 @ le32 0 @ le32 8 @ le32 index @ le32 spec"]; simp add: assms pktinfo_bytes_def cmsg_bytes_def)+

text \<open>
  The bytes that stand for a control message in the model of the daemon's socket; of one of
  another kind only the header matters.
\<close>

fun encodes :: "cmsg \<Rightarrow> u8 list \<Rightarrow> bool" where
  "encodes (Cmsg_TTL t) bs \<longleftrightarrow> (\<exists>ttl pad. length pad = 4 \<and> t = sint ttl \<and> bs = ttl_bytes ttl pad)"
| "encodes (Cmsg_Pktinfo d) bs \<longleftrightarrow> (\<exists>index spec pad. length pad = 4 \<and> bs = pktinfo_bytes index spec d pad)"
| "encodes Cmsg_other bs \<longleftrightarrow> (\<exists>len level type dat. bs = cmsg_bytes len level type dat
     \<and> \<not> (level = SOL_IP \<and> type \<in> {IP_TTL, IP_PKTINFO}))"

lemma other_fields:
  "read32 (write_buf (p @ cmsg_bytes len level type dat @ r) j) (length p + 8) = level"
  "read32 (write_buf (p @ cmsg_bytes len level type dat @ r) j) (length p + 12) = type"
  by (rule read32_at [of "p @ le32 len @ le32 0"] read32_at [of "p @ le32 len @ le32 0 @ le32 level"];
      simp add: cmsg_bytes_def)+

lemma length_cmsgs: "length (ttl_bytes ttl pad) = 20 + length pad" "length (pktinfo_bytes index spec dst pad) = 28 + length pad"
  by (simp_all add: ttl_bytes_def pktinfo_bytes_def cmsg_bytes_def)

lemma read_control_at:
  "list_all2 encodes cs bss \<Longrightarrow> n \<le> length cs \<Longrightarrow>
   read_control n (write_buf (p @ concat bss @ r) j) (length p) (ttl, dst) = read_cmsgs n cs (ttl, dst)"
proof (induction n arbitrary: p cs bss ttl dst)
  case (Suc n)
  from Suc.prems obtain c cs' bs bss' where c: "cs = c # cs'" "bss = bs # bss'" "encodes c bs" "list_all2 encodes cs' bss'"
    by (cases cs; cases bss) auto
  have len: "n \<le> length cs'" "n \<le> length cs" using Suc.prems(2) c(1) by simp_all
  note IH = Suc.IH [OF c(4) len(1), of "p @ bs"]
  show ?case
  proof (cases c)
    case (Cmsg_TTL t)
    with c(3) obtain x pad where bs: "length pad = 4" "t = sint x" "bs = ttl_bytes x pad" by auto
    with IH show ?thesis
      by (simp add: c(1,2) Cmsg_TTL ttl_fields length_cmsgs)
  next
    case (Cmsg_Pktinfo d)
    with c(3) obtain index spec pad where bs: "length pad = 4" "bs = pktinfo_bytes index spec d pad" by auto
    with IH show ?thesis
      by (simp add: c(1,2) Cmsg_Pktinfo pktinfo_fields length_cmsgs)
  next
    case Cmsg_other
    with c(3) obtain l level type dat where bs: "bs = cmsg_bytes l level type dat"
      "\<not> (level = SOL_IP \<and> type \<in> {IP_TTL, IP_PKTINFO})" by auto
    from Suc.IH [OF Suc.prems(1) len(2)] bs show ?thesis
      by (auto simp: c(1,2) Cmsg_other other_fields)
  qed
qed (simp add: list_all2_Nil)

section \<open>Properties\<close>

text \<open>
  The loop over the bytes of two or more control messages reads what the model of the daemon's
  socket reads from the messages, in whatever order they come and whatever is between and behind
  their fields.
\<close>

theorem control_bytes_read:
  assumes "list_all2 encodes cs bss" "2 \<le> length cs"
  shows "read_control 2 (write_buf (concat bss @ rest) junk) 0 (ttl, dst) = read_cmsgs 2 cs (ttl, dst)"
  using read_control_at [OF assms, of "[]" rest junk] by simp

theorem control_bytes_read_witness:
  "read_control 2 (write_buf (concat [pktinfo_bytes 3 0 9 [1, 2, 3, 4], ttl_bytes 64 [0, 0, 0, 0]] @ []) (\<lambda>_. 7)) 0 (0, 5) = (64, 9)"
proof -
  have e: "list_all2 encodes [Cmsg_Pktinfo 9, Cmsg_TTL 64] [pktinfo_bytes 3 0 9 [1, 2, 3, 4], ttl_bytes 64 [0, 0, 0, 0]]"
    by (auto intro!: exI)
  show ?thesis using control_bytes_read [OF e, of "[]"] by (simp add: numeral_2_eq_2)
qed

end
