(* ===== verification/Spec2Isabelle.thy ===== *)
theory Spec2Isabelle
  imports Breaks Search Startup La_Main Rc_Module Ods_Versions Demo_Process Ods_Test Ods_One_User Nd_Socket
begin

text \<open>
  A verification development for the unified routing framework: a platform that lets routing
  daemons for ad hoc networks run in user space. Its parts, and where they are modelled:

  \<^item> The ODS kernel module (\<open>kernel_module/ODS_kernel\<close>) holds packets without a route: a default
    route leads them to the device \<open>mytun\<close>, netfilter hooks steal them there, the first packet
    of each destination makes the module send a request over netlink, and the answer releases or
    frees the packets of the destination. \<open>Netlink\<close>: the messages as bytes. \<open>Packet_Queue\<close>:
    \<open>packet_queue.c\<close>, \<open>packet_judgment.c\<close>, \<open>info_transmission.c\<close> and \<open>ODS_kernel_module.c\<close>;
    the state \<open>kmod\<close> holds the static variables, the netlink socket and the registered hooks.
    \<open>Packet_Laws\<close>: the queue as a FIFO (the locale \<open>fifo\<close>), what arrivals and answers do.
    \<open>Packet_System\<close>: the module's runs, its invariant and its properties. \<open>Inet\<close>: the address
    functions of \<open>utils.c\<close>. \<open>Ods_One\<close>: version 1.0 of the module
    (\<open>lib_code_test/ODS_oldversion_1.0/ODS_kernel\<close>), which the kernel's queue hands the packets; the
    state is \<open>kmod_v1\<close>. \<open>Ods_Versions\<close>: a simulation (\<open>sim\<close>) between the two versions for the
    packets whose routes both look up alike, the forwarded ones, and what version 1.0 does to own packets.
  \<^item> The \<open>route_check\<close> kernel module
    (\<open>kernel_module/route_check\<close>) keeps the time of last use of each address and
    shows it in \<open>/proc/asl/route_check\<close>. \<open>Route_Cache\<close>: the linked
    list on an explicit heap, every operation, and the text. \<open>Cache_Laws\<close>: the list
    as a table (the locale \<open>time_table\<close>) and its runs. \<open>Scan\<close>: the
    conversions of \<open>fscanf\<close>. \<open>Proc_File\<close>: the daemon's reader
    \<open>FO_query_route_idle_time\<close> of \<open>lib/FO/fo.cpp\<close> on that text.
    \<open>Rc_Module\<close>: loading and unloading, what it prints, the timer that nothing starts.
  \<^item> The Local Agent (\<open>LA\<close>) with the ODS library (\<open>lib/ODS\<close>) passes requests from the kernel
    module to a daemon and replies back. \<open>Agent\<close>: \<open>la_select.cpp\<close>, \<open>la_serv.cpp\<close> and
    \<open>ods_userspace_netlink.cpp\<close>; the state \<open>agent\<close> holds the table of clients and the set of
    descriptors. \<open>Agent_Laws\<close>: the two tables agree (the locale \<open>descriptor_set\<close>), rounds of the
    main loop end, requests are forwarded. \<open>La_Main\<close>: \<open>main.cpp\<close>, from the server socket to the
    end of the process. \<open>Router_Demo\<close>, \<open>Demo_Process\<close>: the
    demonstration client (\<open>LA_Client_router_demo\<close>), its answers and its process with the neighbour
    discovery. \<open>Ods_Test\<close>: the test program of the library (\<open>lib_code_test/ods_test\<close>), agent and daemon in
    one. \<open>Ods_One_User\<close>: version 1.0 of the library.
  \<^item> The AODV daemon (\<open>LA_Client_aodv\<close>) finds the routes. \<open>Params\<close>, \<open>Messages\<close>, \<open>Rtable_Entry\<close>,
    \<open>OrdMap\<close>, \<open>Timers\<close>, \<open>Lists\<close>: its constants, messages and data structures. \<open>Node\<close>: the
    state \<open>node\<close> (the global variables of \<open>main.cc\<close> and the fields of \<open>aodv\<close>), the timer queue
    and the kernel routes. \<open>Routing_Table\<close>, \<open>Route_Errors\<close>, \<open>Discovery\<close>: \<open>routingTable.cc\<close>,
    \<open>rerr.cc\<close>, \<open>rreq.cc\<close> and \<open>rrep.cc\<close> with the functions of \<open>aodv.cc\<close> that use them.
    \<open>Daemon\<close>: the other handlers, the scheduler and the main loop's events. \<open>Steps\<close>, \<open>Events\<close>:
    every handler as a sequence of primitive steps, and the invariants these keep. \<open>Scheduler\<close>,
    \<open>Faults\<close>, \<open>Traffic\<close>: the scheduler against its specification, absence of faults, what the
    handlers do to the table and to the network. \<open>Examples\<close>: a run from the start of the daemon.
    \<open>Startup\<close>: the process around it (command line, sockets, handler table, main loop), whose
    rounds are the events of \<open>node_step\<close>. \<open>Network\<close>, \<open>Path\<close>: several daemons, each handling what
    the one before it sent; route discovery along a line of any length, by induction. \<open>Delivery\<close>: one
    more RREQ of a search, from its timer to the packets of the kernel module that it releases, and the bound
    on the number of these repetitions. \<open>Search\<close>: a
    whole expanding ring search, with the RREQs that die out (\<open>Quiet\<close>: what such an RREQ leaves). \<open>Loops\<close>, \<open>Breaks\<close>: how a routing
    loop comes about, and what a broken link does.
  \<^item> The forwarding library (\<open>lib/FO\<close>) adds, deletes and lists kernel routes over netlink.
    \<open>Fo_Netlink\<close>: the requests of \<open>fo.cpp\<close> as bytes, the readers of the kernel's answers, and
    their laws. The daemon's model has these calls as outputs.
  \<^item> The neighbour discovery (\<open>lib/ND\<close>) keeps a table of neighbours for each
    interface by hello messages. \<open>Nd_Config\<close>: its configuration file.
    \<open>Nd_Hello\<close>: the tables and the message of \<open>nd_interface.cpp\<close>.
    \<open>Nd\<close>: the state \<open>nd\<close> (the global variables of
    \<open>nd.cpp\<close>), \<open>nd_timer_queue.cpp\<close>, sending and receiving, starting
    and stopping, and the functions for the user; a pointer to an interface is its index.
    \<open>Nd_Laws\<close>: the invariant that ties neighbours to their deletion timers, kept by
    every operation (the queue is an instance of the locale \<open>timer_list\<close>, as the
    daemon's is). \<open>Nd_Schedule\<close>: the alarm returns and deletes who was silent.
    \<open>Nd_System\<close>: the runs, and what two nodes make of each other's messages. \<open>Nd_Socket\<close>: how a
    datagram and its control messages are read, byte by byte.
  \<^item> \<open>Platform\<close> connects the parts by the bytes they exchange.

  How the model relates to the code. Every function of the code is a function \<open>('s, 'a) sm\<close> of
  \<open>Prelude\<close>, from a state to a fault or to a result and a new state, with the guards and early
  returns of the code; C++ integers keep their width, \<open>std::vector\<close> is a list, \<open>std::map\<close> an
  association list in key order, and structures copied with \<open>memcpy\<close> are bytes in the layout of
  GCC on x86-64, least significant byte first. Faults are the null, dangling or wild pointers,
  the overflows and the endless loops of the code. What the code asks of its environment (the
  clock, allocations, the routes of the kernel, uninitialised memory) is a function of a running
  number in the state, of which the theorems assume only what they state; calls of the system
  that change something outside (sending, routes, timers, shell commands) are recorded as outputs
  and taken to succeed. The events of a process are handled one after the other: the interval
  timer interrupts no handler, and locks and interrupts of the kernel are left out.

  The theorems. Each part has an invariant of all its reachable states (by the locales
  \<open>invariant_of\<close> and \<open>closed_under\<close>), theorems that its operations return, and theorems for what
  they do: the scheduler and the updates of the routing table refine specifications, codecs are
  inverted by their readers, and where the code is wrong a theorem shows the fault or the wrong
  result. The properties of this file are those of the AODV daemon; those of the other parts,
  of the processes and of several nodes stand at the end of \<open>Packet_System\<close>, \<open>Cache_Laws\<close>,
  \<open>Ods_Versions\<close>, \<open>Rc_Module\<close>, \<open>Agent_Laws\<close>, \<open>La_Main\<close>, \<open>Demo_Process\<close>, \<open>Ods_Test\<close>, \<open>Fo_Netlink\<close>, \<open>Nd_System\<close>, \<open>Platform\<close>, \<open>Path\<close>, \<open>Search\<close>,
  \<open>Loops\<close>, \<open>Breaks\<close> and \<open>Startup\<close>.

  Fuel. Loops that the code does not bound take fuel and end in the fault \<open>OutOfFuel\<close> without
  it; the theorems show how much is enough: for either \<open>scheduleTimer\<close> one more than the timers
  that are due, for \<open>send_packet\<close> and \<open>cleanup_packet_queue\<close> 1001 (the queue holds 1000
  packets), for the agent's loop two more than there are descriptors. The loops over the route
  cache are bounded by the number of its nodes. The agent's wait for its device (\<open>sleep_no_wake\<close>) needs one
  call per second asked for.

  Not modelled: the code under the macro \<open>ASL\<close>, which is not compiled; the two threads of
  \<open>lib/ND\<close>, which are taken one step at a time; the other copies of the libraries and of
  the kernel module in \<open>lib_code_test\<close> and \<open>lib/ODS\<close>, which are the same text or nearly so; the test
  programs that print a table or wait (\<open>LocalAgent_func_test\<close>, \<open>nd_test\<close>, \<open>nd_test_main\<close>), and the
  module files that the build generates.
\<close>

section \<open>The scheduler\<close>

text \<open>
  C13. \<open>scheduleTimer\<close> does what its specification says: it calls the functions of exactly the
  timers that were due at its clock reading, in queue order, removes each after its call, and
  arms the interval timer for the first timer that is left. This holds for a queue in order, a
  clock that does not run backwards, and one more unit of fuel than timers are due.
\<close>

theorem scheduleTimer_refines_spec:
  assumes "steady (ticks s) (env s)" "sorted (map tm_timeout (timerQ s))" "pending_ok s"
    and "length (due (clock (env s) (ticks s)) (timerQ s)) < fuel"
  shows "scheduleTimer fuel s = schedule_spec s"
  using assms by (rule schedule_meets_spec)

theorem scheduleTimer_refines_spec_witness:
  "let s = met\<lparr>env := quiet_env 2500\<rparr> in
     scheduleTimer 2 s = schedule_spec s \<and> map tm_id (due 2500 (timerQ s)) = [1]"
  using scheduleTimer_refines_spec [of "met\<lparr>env := quiet_env 2500\<rparr>" 2]
  by (simp add: steady_clock_def due_def pending_ok_def met_def started_def blank_fields
      word_less_nat_alt word_le_nat_alt)

text \<open>
  The loop of \<open>scheduleTimer\<close> ends: as many rounds as there are due timers, and one more,
  are enough, although every timer function may set new timers.
\<close>

theorem scheduleTimer_terminates:
  assumes "steady (ticks s) (env s)" "sorted (map tm_timeout (timerQ s))" "pending_ok s"
    and "length (due (clock (env s) (ticks s)) (timerQ s)) < fuel"
  shows "scheduleTimer fuel s \<noteq> Inl OutOfFuel"
  using schedule_meets_spec [OF assms] unfuelled_spec by (simp add: unfuelled_def)

theorem scheduleTimer_terminates_witness:
  "scheduleTimer 2 (met\<lparr>env := quiet_env 2500\<rparr>) \<noteq> Inl OutOfFuel"
  using scheduleTimer_terminates [of "met\<lparr>env := quiet_env 2500\<rparr>" 2]
  by (simp add: steady_clock_def due_def pending_ok_def met_def started_def blank_fields
      word_less_nat_alt word_le_nat_alt)

text \<open>
  When \<open>scheduleTimer\<close> returns, no timer that is left was due, the queue is in order, and
  the last thing it did was to arm the interval timer for the distance to the first timer left.
\<close>

theorem scheduleTimer_leaves_none_due:
  assumes "steady (ticks s) (env s)" "sorted (map tm_timeout (timerQ s))" "pending_ok s"
    and "length (due (clock (env s) (ticks s)) (timerQ s)) < fuel"
    and "scheduleTimer fuel s = Inr ((), s')"
  shows "(\<forall>t \<in> set (timerQ s'). clock (env s) (ticks s) < tm_timeout t)
    \<and> sorted (map tm_timeout (timerQ s'))
    \<and> (case timerQ s' of [] \<Rightarrow> True | t # _ \<Rightarrow>
         let d = tm_timeout t - clock (env s) (ticks s) in
         last (outs s') = Setitimer (d div 1000) ((d - d div 1000 * 1000) * 1000))"
proof -
  let ?c = "clock (env s) (ticks s)"
  from assms(5) schedule_meets_spec [OF assms(1-4)] obtain t where
    t: "forM (due ?c (timerQ s)) fire (s\<lparr>ticks := Suc (ticks s)\<rparr>) = Inr ((), t)" and
    arm: "rearm ?c t = Inr ((), s')"
    by (auto simp: schedule_spec_def getcurrtime_def sm_simps split: sum.splits)
  from forM_fire_due [OF start_due [OF assms(1-3)] t] have left: "due_are (ticks s) [] t" "env t = env s"
    by simp_all
  from arm have q: "timerQ s' = timerQ t"
    by (auto simp: rearm_def setRealTimer_def emit_def sm_simps Let_def split: list.splits)
  moreover from due_none [OF left(1)] left(2) have "\<forall>t \<in> set (timerQ t). ?c < tm_timeout t" by simp
  moreover from left have "sorted (map tm_timeout (timerQ t))" by (simp add: due_are_def)
  ultimately show ?thesis
    using arm
    by (auto simp: rearm_def setRealTimer_def emit_def sm_simps Let_def split: list.splits)
qed

theorem scheduleTimer_leaves_none_due_witness:
  "let s = started\<lparr>timerQ := drop 1 (timerQ started), helloSendFlag := False, env := quiet_env 17000\<rparr>;
     s' = s\<lparr>ticks := 4, timerQ := [], duringReboot := False\<rparr> in
   scheduleTimer (Suc (Suc 0)) s = Inr ((), s') \<and> (\<forall>t \<in> set (timerQ s'). clock (env s) (ticks s) < tm_timeout t)
     \<and> \<not> duringReboot s'"
proof -
  let ?s = "started\<lparr>timerQ := drop 1 (timerQ started), helloSendFlag := False, env := quiet_env 17000\<rparr>"
  have run: "scheduleTimer (Suc (Suc 0)) ?s = Inr ((), ?s\<lparr>ticks := 4, timerQ := [], duringReboot := False\<rparr>)"
    by (simp add: scheduleTimer_def getcurrtime_def sm_simps begin_at_def timer_at_def
        rebootHandler_def addAllValidRoutes_def erase_timer_def started_def blank_fields
        word_le_nat_alt)
  show ?thesis
    using scheduleTimer_leaves_none_due [OF _ _ _ _ run] run
    by (simp add: steady_clock_def due_def pending_ok_def started_def blank_fields
        word_less_nat_alt word_le_nat_alt)
qed

text \<open>
  C14. In every state of a run in which the agent asks for no packet of another node during the reboot phase,
  the timer queue is in the order of the timeouts, whatever datagrams, requests and alarms there were. (What such a request
  does to the queue is shown below; a queue in order after the reboot phase stays so in any run.)
\<close>

theorem events_keep_queue_sorted:
  assumes "reach node_init calm_step s"
  shows "sorted (map tm_timeout (timerQ s))"
  using calm.reach_inv [OF assms] by simp

theorem events_keep_queue_sorted_witness:
  "sorted (map tm_timeout (timerQ heard)) \<and> length (timerQ heard) = 3"
proof -
  have "length (timerQ heard) = 3" by (simp add: heard_def state_fields)
  with events_keep_queue_sorted [OF calm_heard] show ?thesis by blast
qed

theorem booted_queue_stays_sorted:
  assumes "reach node_init node_step s" "\<not> duringReboot s" "node_step s s'"
    and "sorted (map tm_timeout (timerQ s))"
  shows "sorted (map tm_timeout (timerQ s')) \<and> \<not> duringReboot s'"
proof
  note steps = node_step_booted [OF assms(3) pending_inv.holds [OF assms(1)] assms(2)]
  show "sorted (map tm_timeout (timerQ s'))" by (rule ordered.steps_inv [OF steps assms(4)])
  show "\<not> duringReboot s'" by (rule booted.steps_inv [OF steps assms(2)])
qed

text \<open>
  During the reboot phase a request to forward a packet resets the reboot timer. When that
  timer is the first of the queue, its new timeout is written where it stands, in front of
  timers that are now earlier, and the interval timer, which takes a distance, is given that
  absolute time: with the time of day in milliseconds the next alarm is decades away.
\<close>

theorem resetRebootTimer_misses:
  assumes "timerQ s = t # q" "td_type (tm_data t) = REBOOT_TIMER"
  shows "let v = clock (env s) (ticks s) + DELETE_PERIOD in
    resetRebootTimer s = Inr ((), s\<lparr>ticks := Suc (ticks s), timerQ := t\<lparr>tm_timeout := v\<rparr> # q,
      outs := outs s @ [Setitimer (v div 1000) ((v - v div 1000 * 1000) * 1000)]\<rparr>)"
  using assms
  by (simp add: resetRebootTimer_def getcurrtime_def sm_simps setRealTimer_def emit_def isSetNow_def Let_def)

theorem resetRebootTimer_misses_witness:
  "let s = started\<lparr>timerQ := rev (timerQ started), env := quiet_env 1700000000000\<rparr> in
     \<exists>s'. resetRebootTimer s = Inr ((), s') \<and> \<not> sorted (map tm_timeout (timerQ s'))
       \<and> last (outs s') = Setitimer 1700000015 0"
  using resetRebootTimer_misses
    [of "started\<lparr>timerQ := rev (timerQ started), env := quiet_env 1700000000000\<rparr>"]
  by (simp add: state_fields period_values Let_def word_less_nat_alt word_le_nat_alt)

section \<open>Invariants of every run\<close>

text \<open>
  C15. In every state the daemon reaches, the routing table is in strict key order, every entry
  stands under its own destination, lists no precursor twice and carries a flag in use, and an
  invalid entry has the infinite hop count.
\<close>

theorem reachable_table_wf:
  assumes "reach node_init node_step s"
  shows "rt_wf (rTableMap s)"
  using assms by (rule table_inv.holds)

theorem reachable_table_wf_witness:
  "rt_wf (rTableMap heard) \<and> map fst (rTableMap heard) = [2]"
  using reachable_table_wf [OF reach_heard] by (simp add: heard_def)

text \<open>
  In every state the daemon reaches, no RREQ is listed twice among those seen recently
  and no destination twice among those under local repair.
\<close>

theorem reachable_lists_distinct:
  assumes "reach node_init node_step s"
  shows "distinct (map (\<lambda>e. (fw_src_ip e, fw_rreq_id e)) (fw_rreq_list s))
    \<and> distinct (map lr_dest_ip (local_repair_list s))"
  using seen_inv.holds [OF assms] repair_inv.holds [OF assms] ..

theorem reachable_lists_distinct_witness:
  "distinct (map (\<lambda>e. (fw_src_ip e, fw_rreq_id e)) (fw_rreq_list heard))
    \<and> distinct (map lr_dest_ip (local_repair_list heard))"
  by (rule reachable_lists_distinct [OF reach_heard])

text \<open>
  C16. In every state the daemon reaches, each timer's data has the type its function expects,
  and no two timers are the same list node.
\<close>

theorem reachable_timers_ok:
  assumes "reach node_init node_step s"
  shows "timers_typed s \<and> timers_named s"
  using typed_inv.holds [OF assms] named_inv.holds [OF assms] ..

theorem reachable_timers_ok_witness: "timers_typed heard \<and> timers_named heard \<and> timerQ heard \<noteq> []"
  using reachable_timers_ok [OF reach_heard] by (simp add: heard_def)

text \<open>
  C17. In every state the daemon reaches, an RREQ that still waits for its reply has a retry counter of at most
  \<open>RREQ_RETRIES\<close>, and with the ring search on a time to live between 1 and 257. The counter leaves out the repetitions with which
  the ring grows; but with either setting at most four of the timeouts to come repeat the RREQ (\<open>resent\<close>), whatever
  happens between them that leaves its entry alone: the fifth, at the latest, does not.
\<close>

theorem reachable_pending_ok:
  assumes "reach node_init node_step s" "e \<in> set (rreq_list s)"
  shows "pe_retries e \<le> RREQ_RETRIES \<and> (expandingRingSearch s \<longrightarrow> 1 \<le> pe_ttl e \<and> pe_ttl e \<le> 257)
    \<and> (\<forall>dst n e'. resent dst (expandingRingSearch s) n e e' \<longrightarrow> n \<le> 4)"
proof -
  have "pe_retries e \<le> RREQ_RETRIES" "expandingRingSearch s \<longrightarrow> 1 \<le> pe_ttl e \<and> pe_ttl e \<le> 257"
    using pending_inv.holds [OF assms(1)] assms(2) by (auto simp: pending_ok_def ttl_ok_def)
  then show ?thesis using resent_bounded [of _ "expandingRingSearch s" _ e] by blast
qed

theorem reachable_pending_ok_witness:
  "\<exists>e \<in> set (rreq_list asking). pe_retries e \<le> RREQ_RETRIES \<and> pe_ttl e = 1
    \<and> (\<exists>e'. resent 9 (expandingRingSearch asking) 1 e e') \<and> \<not> (\<exists>e'. resent 9 (expandingRingSearch asking) 5 e e')"
proof -
  let ?e = "\<lparr>pe_rreqOb = own_rreq, pe_retries = 0, pe_ttl = 1\<rparr>"
  have e: "rreqPendingList_inList (rreq_list asking) 9 = Some ?e" "?e \<in> set (rreq_list asking)"
      "pe_retries (next_try r ?e) \<le> RREQ_RETRIES" for r
    by (simp_all add: asking_def own_rreq_def next_try_def param_values)
  have safe: "safe_wf asking"
    by (rule safe_wf_reach [OF reach_noack_asking]) (simp add: asking_def heard_def state_fields)
  have none: "\<not> (\<exists>e'. resent 9 (expandingRingSearch asking) 5 ?e e')"
    using reachable_pending_ok [OF reach_asking e(2)] by fastforce
  show ?thesis
    by (rule bexI [OF _ e(2)], rule conjI)
      (use reachable_pending_ok [OF reach_asking e(2)] resent_once [OF safe e(1,3)] none in simp_all)
qed

text \<open>
  C18. Whatever the daemon does to its environment is well formed: times to live fit the header
  field, no datagram is empty, the agent only gets complete replies that say found or not
  found, kernel routes are host routes, and no interval timer has a second or more in its
  microseconds.
\<close>

theorem reachable_effects_ok:
  assumes "reach node_init node_step s"
  shows "\<forall>e \<in> set (outs s). effect_ok e"
  using assms by (rule effects_inv.holds)

theorem reachable_effects_ok_witness: "list_all effect_ok (outs heard) \<and> length (outs heard) = 8"
  using reachable_effects_ok [OF reach_heard] by (simp add: list_all_iff heard_def state_fields)

text \<open>
  A daemon started without the RREP-ACK option never blacklists a node and never waits for
  an RREP-ACK, whatever it receives.
\<close>

theorem reachable_ack_free:
  assumes "reach node_init_noack node_step s"
  shows "bList s = [] \<and> (\<forall>t \<in> set (timerQ s). tm_handler t \<noteq> RrepAck)"
  using ackfree_inv.holds [OF assms] by (auto simp: ack_free_def is_ack_def)

theorem reachable_ack_free_witness:
  "bList heard = [] \<and> RrepAck \<notin> tm_handler ` set (timerQ heard) \<and> length (timerQ heard) = 3"
  using reachable_ack_free [OF reach_noack_heard] by (simp add: heard_def state_fields)

text \<open>
  With the option the blacklist never holds more than one node: an entry is added only
  after a search of the list has returned, and the search returns only from an empty list or
  with a match.
\<close>

theorem reachable_blacklist_short:
  assumes "reach node_init node_step s"
  shows "length (bList s) \<le> 1"
  using assms by (rule bl_one_inv.holds)

theorem reachable_blacklist_short_witness: "length (bList heard) \<le> 1"
  by (rule reachable_blacklist_short [OF reach_heard])

section \<open>Messages\<close>

text \<open>
  An RREQ that is sent as its memory image is the RREQ the receiver finds in its buffer,
  whatever the buffer held before.
\<close>

theorem RREQ_round_trip: "RREQ_at (write_buf (RREQ_bytes r) b) = r"
  by (rule rreq.dec_enc) simp

text \<open>The same for an RREP.\<close>

theorem RREP_round_trip: "RREP_at (write_buf (RREP_bytes r) b) = r"
  by (rule rrep.dec_enc) simp

text \<open>
  A RERR with up to 255 destinations, whose count field says how many, is unpacked into
  the RERR that was packed.
\<close>

theorem RERR_round_trip:
  assumes "re_reserved1 r = 0" "length (re_unreachable_dest r) < 256"
    and "re_dest_cnt r = of_nat (length (re_unreachable_dest r))"
  shows "RERR_createRERR (RERR_copyIntoBuf r b) RERR_new = r"
  unfolding RERR_copyIntoBuf_def using assms by (intro rerr.dec_enc) (simp add: RERR_ok_def)

theorem RERR_round_trip_witness:
  "let r = RERR_setUnrchDest 9 4 (RERR_setUnrchDest 7 3 (RERR_setDestCnt 2 RERR_new)) in
     RERR_createRERR (RERR_copyIntoBuf r (\<lambda>_. 7)) RERR_new = r"
  using RERR_round_trip [of "RERR_setUnrchDest 9 4 (RERR_setUnrchDest 7 3 (RERR_setDestCnt 2 RERR_new))" "\<lambda>_. 7"]
  by (simp add: RERR_setUnrchDest_def RERR_setDestCnt_def RERR_new_def)

text \<open>A message of the agent's protocol is parsed into the message that was generated.\<close>

theorem LAMessage_round_trip:
  "LAMessage_parse_stream (write_buf (LAMessage_generate_stream m) b) = m"
  by (rule lamsg.dec_enc) simp

section \<open>The routing table\<close>

text \<open>
  Learning the route back to the source of an RREQ is \<open>learn\<close> on the table as a map: an
  active route is replaced exactly by fresher news (a larger sequence number, or the same one
  over fewer hops), another route always, and every other entry stays. During the reboot phase
  the update always returns.
\<close>

theorem rebootReverseRouteUpdate_learns:
  assumes "rt_wf (rTableMap s)"
  shows "\<exists>s'. rebootReverseRouteUpdate nhop q s = Inr ((), s')
    \<and> map_of (rTableMap s') = learn (rq_src_ip q) (rq_src_seq_num q) nhop (rq_hop_cnt q)
        (reverse_life (clock (env s) (ticks s)) (rq_hop_cnt q)) (map_of (rTableMap s))"
  using assms by (intro rebootReverse_learns) (simp add: rt_wf_def)

theorem rebootReverseRouteUpdate_learns_witness:
  "\<exists>s'. rebootReverseRouteUpdate 2 (own_rreq\<lparr>rq_src_ip := 5, rq_hop_cnt := 3\<rparr>) heard = Inr ((), s')
    \<and> map_option rt_hop_cnt (map_of (rTableMap s') 5) = Some 4"
  using rebootReverseRouteUpdate_learns [OF reachable_wf_heard, of 2 "own_rreq\<lparr>rq_src_ip := 5, rq_hop_cnt := 3\<rparr>"]
  by (auto simp: learn_eq own_rreq_def heard_def createEntry_def)

text \<open>
  C19. After the reboot phase the update always returns, in a daemon without the RREP-ACK option
  whose allocator gives the 12 bytes of a RERR, and changes the table in the same way; it also
  installs the kernel route, answers the agent and ends the search for the source.
\<close>

theorem reverseRouteUpdate_learns:
  assumes "rt_wf (rTableMap s)" "ack_free s" "12 \<le> malloc_usable (env s) 4"
  shows "\<exists>s'. reverseRouteUpdate nhop q s = Inr ((), s')
    \<and> map_of (rTableMap s') = learn (rq_src_ip q) (rq_src_seq_num q) nhop (rq_hop_cnt q)
        (reverse_life (clock (env s) (ticks s)) (rq_hop_cnt q)) (map_of (rTableMap s))"
proof -
  have "om_ok (rTableMap s)" "safe s" using assms by (simp_all add: rt_wf_def safe_def)
  with runsD [OF runs_reverse, of s nhop q] obtain s' where
    "reverseRouteUpdate nhop q s = Inr ((), s')" by auto
  with rebootReverse_learns [OF \<open>om_ok _\<close>, of nhop q] reverse_same_table [OF this]
  show ?thesis by auto
qed

theorem reverseRouteUpdate_learns_witness:
  "\<exists>s'. reverseRouteUpdate 2 (own_rreq\<lparr>rq_src_ip := 5, rq_hop_cnt := 3\<rparr>) heard = Inr ((), s')
    \<and> map_option rt_hop_cnt (map_of (rTableMap s') 5) = Some 4"
  using reverseRouteUpdate_learns [OF reachable_wf_heard safe_heard, of 2 "own_rreq\<lparr>rq_src_ip := 5, rq_hop_cnt := 3\<rparr>"]
  by (auto simp: learn_eq own_rreq_def heard_def createEntry_def)

text \<open>The same for the route to the destination of an RREP.\<close>

theorem rebootForwardRouteUpdate_learns:
  assumes "rt_wf (rTableMap s)"
  shows "\<exists>s'. rebootForwardRouteUpdate nhop p s = Inr ((), s')
    \<and> map_of (rTableMap s') = learn (rp_dest_ip p) (rp_dest_seq_num p) nhop (rp_hop_cnt p)
        (\<lambda>_. clock (env s) (ticks s) + ucast (rp_lifetime p)) (map_of (rTableMap s))"
  using assms by (intro rebootForward_learns) (simp add: rt_wf_def)

theorem rebootForwardRouteUpdate_learns_witness:
  "\<exists>s'. rebootForwardRouteUpdate 2 (RREP_new 5 1 1 3 4000) heard = Inr ((), s')
    \<and> map_option rt_hop_cnt (map_of (rTableMap s') 5) = Some 4"
  using rebootForwardRouteUpdate_learns [OF reachable_wf_heard, of 2 "RREP_new 5 1 1 3 4000"]
  by (auto simp: learn_eq RREP_new_def heard_def createEntry_def)

text \<open>And after the reboot phase, under the conditions of \<open>reverseRouteUpdate_learns\<close>.\<close>

theorem forwardRouteUpdate_learns:
  assumes "rt_wf (rTableMap s)" "ack_free s" "12 \<le> malloc_usable (env s) 4"
  shows "\<exists>s'. forwardRouteUpdate nhop p s = Inr ((), s')
    \<and> map_of (rTableMap s') = learn (rp_dest_ip p) (rp_dest_seq_num p) nhop (rp_hop_cnt p)
        (\<lambda>_. clock (env s) (ticks s) + ucast (rp_lifetime p)) (map_of (rTableMap s))"
proof -
  have "om_ok (rTableMap s)" "safe s" using assms by (simp_all add: rt_wf_def safe_def)
  with runsD [OF runs_forward, of s nhop p] obtain s' where
    "forwardRouteUpdate nhop p s = Inr ((), s')" by auto
  with rebootForward_learns [OF \<open>om_ok _\<close>, of nhop p] forward_same_table [OF this]
  show ?thesis by auto
qed

theorem forwardRouteUpdate_learns_witness:
  "\<exists>s'. forwardRouteUpdate 2 (RREP_new 5 1 1 3 4000) heard = Inr ((), s')
    \<and> map_option rt_hop_cnt (map_of (rTableMap s') 5) = Some 4"
  using forwardRouteUpdate_learns [OF reachable_wf_heard safe_heard, of 2 "RREP_new 5 1 1 3 4000"]
  by (auto simp: learn_eq RREP_new_def heard_def createEntry_def)

text \<open>
  C20. The reboot phase changes only what the daemon tells the kernel and the agent, not what it
  learns: from the same state, the updates of the reboot phase and those after it leave the same
  routing table, for the route to the source of an RREQ and for the one to the destination of an
  RREP.
\<close>

theorem reboot_phase_learns_alike:
  assumes "rt_wf (rTableMap s)" "ack_free s" "12 \<le> malloc_usable (env s) 4"
  shows "\<exists>s1 s2 s3 s4. reverseRouteUpdate nhop q s = Inr ((), s1) \<and> rebootReverseRouteUpdate nhop q s = Inr ((), s2)
    \<and> forwardRouteUpdate nhop p s = Inr ((), s3) \<and> rebootForwardRouteUpdate nhop p s = Inr ((), s4)
    \<and> rTableMap s1 = rTableMap s2 \<and> rTableMap s3 = rTableMap s4"
proof -
  have "om_ok (rTableMap s)" "safe s" using assms by (simp_all add: rt_wf_def safe_def)
  with runsD [OF runs_reverse, of s nhop q] runsD [OF runs_forward, of s nhop p] obtain s1 s3 where
    "reverseRouteUpdate nhop q s = Inr ((), s1)" "forwardRouteUpdate nhop p s = Inr ((), s3)" by auto
  moreover from reverse_same_table [OF this(1)] forward_same_table [OF this(2)] obtain s2 s4 where
    "rebootReverseRouteUpdate nhop q s = Inr ((), s2)" "rTableMap s2 = rTableMap s1"
    "rebootForwardRouteUpdate nhop p s = Inr ((), s4)" "rTableMap s4 = rTableMap s3" by blast
  ultimately show ?thesis by metis
qed

theorem reboot_phase_learns_alike_witness:
  "\<exists>s1 s2. reverseRouteUpdate 2 (own_rreq\<lparr>rq_src_ip := 5, rq_hop_cnt := 3\<rparr>) heard = Inr ((), s1)
    \<and> rebootReverseRouteUpdate 2 (own_rreq\<lparr>rq_src_ip := 5, rq_hop_cnt := 3\<rparr>) heard = Inr ((), s2)
    \<and> rTableMap s1 = rTableMap s2"
  using reboot_phase_learns_alike [OF reachable_wf_heard safe_heard, of 2 "own_rreq\<lparr>rq_src_ip := 5, rq_hop_cnt := 3\<rparr>"
    "RREP_new 5 1 1 3 4000"] by blast

text \<open>
  A message from a neighbour overwrites the route to it: one hop, the sequence number that
  the caller passes (0 when the message names another originator, so that a known number is
  lost), an active route. Every other entry stays. The update returns under the conditions of
  \<open>reverseRouteUpdate_learns\<close>.
\<close>

theorem neighborUpdate_meets:
  assumes "rt_wf (rTableMap s)" "ack_free s" "12 \<le> malloc_usable (env s) 4"
  shows "\<exists>s'. neighborUpdate n src seq life s = Inr ((), s')
    \<and> map_of (rTableMap s') = meet n seq life (map_of (rTableMap s))"
proof -
  have "safe_wf s" using assms by (simp add: safe_wf_def safe_def)
  with runsD [OF runs_neighborUpdate, of s n src seq life] obtain s' where
    "neighborUpdate n src seq life s = Inr ((), s')" by auto
  with neighbor_meets [OF assms(1) this] show ?thesis by blast
qed

theorem neighborUpdate_meets_witness:
  "\<exists>s'. neighborUpdate 2 9 0 22000 heard = Inr ((), s')
    \<and> map_option rt_dest_seq_num (map_of (rTableMap heard) 2) = Some 7
    \<and> map_option rt_dest_seq_num (map_of (rTableMap s') 2) = Some 0"
  using neighborUpdate_meets [OF reachable_wf_heard safe_heard, of 2 9 0 22000]
  by (auto simp: meet_def heard_def set_route_def)

text \<open>
  After \<open>refreshEntries\<close>, no entry of the table has a lifetime that had passed at its clock
  reading: each was prolonged, made invalid or erased.
\<close>

theorem refreshEntries_leaves_no_expired:
  assumes "clock (env s) (ticks s) < 0xFFFFFFFF00000000"
    and "refreshEntries s = Inr (x, s')" "map_of (rTableMap s') k = Some e"
  shows "clock (env s) (ticks s) < rt_lifetime e"
  using assms by (rule refresh_leaves_no_expired)

theorem refreshEntries_leaves_no_expired_witness:
  "\<exists>s' e. refreshEntries (heard\<lparr>env := quiet_env 30000\<rparr>) = Inr ((), s')
     \<and> map_of (rTableMap s') 2 = Some e \<and> 30000 < rt_lifetime e"
proof -
  let ?s = "heard\<lparr>env := quiet_env 30000\<rparr>"
  have "\<exists>s' e. refreshEntries ?s = Inr ((), s') \<and> map_of (rTableMap s') 2 = Some e"
    by (simp add: alarm_run heard_def word_le_nat_alt word_less_nat_alt)
  then obtain s' e where "refreshEntries ?s = Inr ((), s')" "map_of (rTableMap s') 2 = Some e" by blast
  with refreshEntries_leaves_no_expired [OF _ this] show ?thesis
    by (auto simp: word_less_nat_alt)
qed

text \<open>
  When the timer of a neighbour runs out, no active route over that neighbour is left: its
  own route and all routes over it are broken.
\<close>

theorem neighbor_timeout_breaks_all:
  assumes "rt_wf (rTableMap s)" "neighbor_timeout_handler d s = Inr (x, s')"
    and "map_of (rTableMap s') k = Some e"
  shows "\<not> (rt_routing_flags e = ACTIVE_ROUTE \<and> rt_next_hop e = td_data d)"
  using assms by (rule neighbor_timeout_breaks_routes)

theorem neighbor_timeout_breaks_all_witness:
  "\<exists>s' e. neighbor_timeout_handler \<lparr>td_type = ACTIVE_ROUTE_TIMER, td_data = 2\<rparr> heard = Inr ((), s')
     \<and> map_of (rTableMap s') 2 = Some e
     \<and> \<not> (rt_routing_flags e = ACTIVE_ROUTE \<and> rt_next_hop e = 2)"
proof -
  let ?d = "\<lparr>td_type = ACTIVE_ROUTE_TIMER, td_data = 2 :: u32\<rparr>"
  have "\<exists>s' e. neighbor_timeout_handler ?d heard = Inr ((), s') \<and> map_of (rTableMap s') 2 = Some e"
    by (simp add: neighbor_timeout_handler_def lr_add_def break_neighbor_def break_over_def alarm_run
        heard_def state_fields)
  then obtain s' e where "neighbor_timeout_handler ?d heard = Inr ((), s')" "map_of (rTableMap s') 2 = Some e"
    by blast
  with neighbor_timeout_breaks_all [OF reachable_wf_heard this] show ?thesis by auto
qed

section \<open>Route errors\<close>

text \<open>
  During the reboot phase a RERR from \<open>h\<close> is always processed to its end, and no route to
  a destination it lists leads over \<open>h\<close> with a finite hop count afterwards.
\<close>

theorem updateValidEntries_withdraws:
  "\<exists>s'. RERR_updateValidEntries h r s = Inr ((), s')
    \<and> (\<forall>d \<in> set (re_unreachable_dest r). \<forall>e. map_of (rTableMap s') (ud_dest_ip d) = Some e
         \<longrightarrow> rt_next_hop e = h \<longrightarrow> rt_hop_cnt e = INFINITY_HOPS)"
proof -
  from runsD [OF runs_updateValid TrueI] have "\<exists>x s'. RERR_updateValidEntries h r s = Inr (x, s')"
    by blast
  then obtain s' where s': "RERR_updateValidEntries h r s = Inr ((), s')" by auto
  from updateValid_withdraws [OF this] s' show ?thesis
    by (auto simp: withdrawn_def lost_over_def)
qed

theorem updateValidEntries_withdraws_witness:
  "\<exists>s'. RERR_updateValidEntries 2 (RERR_setUnrchDest 2 8 RERR_new) heard = Inr ((), s')
    \<and> (\<forall>e. map_of (rTableMap s') 2 = Some e \<longrightarrow> rt_next_hop e = 2 \<longrightarrow> rt_hop_cnt e = INFINITY_HOPS)"
  using updateValidEntries_withdraws [of 2 "RERR_setUnrchDest 2 8 RERR_new" heard]
  by (auto simp: RERR_setUnrchDest_def RERR_new_def)

text \<open>
  C21. After the reboot phase, when the new RERR of a received one is made, the same routes are
  withdrawn, and the bytes in which the new RERR is sent are unpacked into it by the next node.
\<close>

theorem createNewRERR_withdraws_and_packs:
  assumes "RERR_createNewRERR (RERR_createRERR buf RERR_new) h RERR_new s = Inr ((b, r'), s')"
  shows "(\<forall>d \<in> set (re_unreachable_dest (RERR_createRERR buf RERR_new)). \<forall>e.
            map_of (rTableMap s') (ud_dest_ip d) = Some e \<longrightarrow> rt_next_hop e = h \<longrightarrow> rt_hop_cnt e = INFINITY_HOPS)
    \<and> RERR_createRERR (write_buf (packed_rerr r' (4 * (1 + 2 * unat (re_dest_cnt r')))) c) RERR_new = r'"
proof
  from createNewRERR_withdraws [OF assms] show "\<forall>d \<in> set (re_unreachable_dest (RERR_createRERR buf RERR_new)).
      \<forall>e. map_of (rTableMap s') (ud_dest_ip d) = Some e \<longrightarrow> rt_next_hop e = h \<longrightarrow> rt_hop_cnt e = INFINITY_HOPS"
    by (auto simp: withdrawn_def lost_over_def)
  from createNewRERR_ok [OF assms received_RERR_bounds] have "RERR_ok r'" .
  then show "RERR_createRERR (write_buf (packed_rerr r' (4 * (1 + 2 * unat (re_dest_cnt r')))) c) RERR_new = r'"
    by (simp only: packed_rerr_bytes rerr.dec_enc)
qed

theorem createNewRERR_withdraws_and_packs_witness:
  "let buf = write_buf (RERR_bytes (RERR_setUnrchDest 2 8 (RERR_setDestCnt 1 RERR_new))) (\<lambda>_. 0) in
   \<exists>b r' s'. RERR_createNewRERR (RERR_createRERR buf RERR_new) 2 RERR_new heard = Inr ((b, r'), s')
     \<and> re_dest_cnt r' = 1
     \<and> RERR_createRERR (write_buf (packed_rerr r' (4 * (1 + 2 * unat (re_dest_cnt r')))) (\<lambda>_. 0)) RERR_new = r'"
proof -
  let ?r = "RERR_setUnrchDest 2 8 (RERR_setDestCnt 1 RERR_new)"
  have r: "RERR_createRERR (write_buf (RERR_bytes ?r) (\<lambda>_. 0)) RERR_new = ?r"
    by (rule rerr.dec_enc) (simp add: RERR_ok_def RERR_setUnrchDest_def RERR_setDestCnt_def RERR_new_def)
  have "\<exists>r' s'. RERR_createNewRERR ?r 2 RERR_new heard = Inr ((False, r'), s') \<and> re_dest_cnt r' = 1"
    by (simp add: RERR_createNewRERR_def createNewRERR_step_def withdraw_route_def count_precursors_def
        deleteKernelRoute_def lost_over_def alarm_run heard_def RERR_setUnrchDest_def RERR_setDestCnt_def
        RERR_new_def getPrecCnt_def)
  then obtain r' s' where run: "RERR_createNewRERR ?r 2 RERR_new heard = Inr ((False, r'), s')"
    and cnt: "re_dest_cnt r' = 1" by blast
  from run have run': "RERR_createNewRERR (RERR_createRERR (write_buf (RERR_bytes ?r) (\<lambda>_. 0)) RERR_new) 2
      RERR_new heard = Inr ((False, r'), s')" by (simp only: r)
  show ?thesis
    unfolding Let_def
    by (intro exI conjI, rule run', rule cnt, rule conjunct2 [OF createNewRERR_withdraws_and_packs [OF run']])
qed

text \<open>
  A received RERR whose first lost route has exactly one precursor ends the daemon: the
  precursor's address is written through a null pointer.
\<close>

theorem createNewRERR_single_precursor_faults:
  assumes "re_unreachable_dest r = d # ds" "map_of (rTableMap s) (ud_dest_ip d) = Some e"
    and "rt_hop_cnt e \<noteq> INFINITY_HOPS" "rt_next_hop e = h" "length (rt_precursors e) = 1"
  shows "RERR_createNewRERR r h RERR_new s = Inl NullDeref"
  using assms by (rule single_precursor_faults)

theorem createNewRERR_single_precursor_faults_witness:
  "let s = heard\<lparr>rTableMap := om_modify 2 (addToPrecursor 7) (rTableMap heard)\<rparr> in
   RERR_createNewRERR (RERR_setUnrchDest 2 8 (RERR_setDestCnt 1 RERR_new)) 2 RERR_new s = Inl NullDeref"
  using createNewRERR_single_precursor_faults
    [of "RERR_setUnrchDest 2 8 (RERR_setDestCnt 1 RERR_new)" "\<lparr>ud_dest_ip = 2, ud_dest_seq_num = 8\<rparr>" "[]"
      "heard\<lparr>rTableMap := om_modify 2 (addToPrecursor 7) (rTableMap heard)\<rparr>" _ 2]
  by (simp add: RERR_setUnrchDest_def RERR_setDestCnt_def RERR_new_def heard_def om_modify_def addToPrecursor_def)

text \<open>
  A RERR with one destination takes 12 bytes, and the block it is packed into was asked for
  with the size of the length variable: on a machine whose allocator gives fewer than 12 bytes
  for a request of 4, every RERR the node generates is a heap overflow.
\<close>

theorem generateRERR_overflows:
  assumes "malloc_usable (env s) 4 < 12"
    and "brd \<or> (\<exists>e. map_of (rTableMap s) dst = Some e \<and> 0 < getPrecCnt e)"
  shows "generateRERR dst n brd s = Inl (HeapOverflow 12 (malloc_usable (env s) 4))"
  using assms
  by (auto simp: generateRERR_def findRoute_def rerr_block_def sm_simps Let_def RERR_setUnrchDest_def
      RERR_setDestCnt_def RERR_setNFlag_def RERR_new_def split: option.split)

theorem generateRERR_overflows_witness:
  "generateRERR 9 0 True (heard\<lparr>env := (quiet_env 1000)\<lparr>malloc_usable := \<lambda>n. n\<rparr>\<rparr>) = Inl (HeapOverflow 12 4)"
  using generateRERR_overflows [of "heard\<lparr>env := (quiet_env 1000)\<lparr>malloc_usable := \<lambda>n. n\<rparr>\<rparr>" True 9 0]
  by simp

section \<open>Route discovery\<close>

text \<open>
  C22. In every reached state of a daemon without the RREP-ACK option, processing an RREQ
  returns, and processing it again sends no datagram: an RREQ is forwarded or answered once.
\<close>

theorem duplicate_RREQ_silent:
  assumes "reach node_init_noack node_step s" "12 \<le> malloc_usable (env s) 4" "\<not> duringReboot s"
  shows "\<exists>s' s''. processRREQ d s = Inr ((), s') \<and> processRREQ d s' = Inr ((), s'') \<and> sent s'' = sent s'"
proof -
  from runsD [OF runs_processRREQ safe_wf_reach [OF assms(1,2)], of d] obtain s' where
    s': "processRREQ d s = Inr ((), s')" "safe_wf s'" by auto
  from runsD [OF runs_processRREQ s'(2), of d] obtain s'' where
    s'': "processRREQ d s' = Inr ((), s'')" by auto
  from second_RREQ_silent [OF assms(3) s'(1) s''] s'(1) s'' show ?thesis by blast
qed

theorem duplicate_RREQ_silent_witness:
  "\<exists>s' s''. processRREQ \<lparr>ad_src_ip = 2, ad_dest_ip = 0, ad_ttl = 3\<rparr> heard = Inr ((), s')
    \<and> processRREQ \<lparr>ad_src_ip = 2, ad_dest_ip = 0, ad_ttl = 3\<rparr> s' = Inr ((), s'') \<and> sent s'' = sent s'"
  by (rule duplicate_RREQ_silent [OF reach_noack_heard safe_heard(2)]) (simp add: heard_def awake_def)

text \<open>
  A new RREQ is answered exactly when the node is its destination or has an active route
  to it with a sequence number at least the one asked for; otherwise it is to be forwarded with
  one more hop and the largest sequence number known for the destination.
\<close>

theorem answer_or_forward_decides:
  "\<exists>res q' s'. answer_or_forward q s = Inr ((res, q'), s') \<and> rTableMap s' = rTableMap s \<and> sent s' = sent s
    \<and> (if rq_dest_ip q = g_my_ip s
          \<or> (\<exists>e. map_of (rTableMap s) (rq_dest_ip q) = Some e \<and> rt_dest_seq_num e \<ge> rq_dest_seq_num q
                \<and> rt_routing_flags e = ACTIVE_ROUTE)
       then res = GEN_RREP \<and> q' = q
       else res = FWD_RREQ \<and> q' = q\<lparr>rq_hop_cnt := rq_hop_cnt q + 1,
         rq_dest_seq_num := max (rq_dest_seq_num q)
           (case map_of (rTableMap s) (rq_dest_ip q) of None \<Rightarrow> 0 | Some e \<Rightarrow> rt_dest_seq_num e)\<rparr>)"
proof -
  from answer_or_forward_returns obtain res q' s' where r: "answer_or_forward q s = Inr ((res, q'), s')"
    by blast
  from answer_or_forward_cases [OF r] r show ?thesis by blast
qed

text \<open>
  C23. A search for a route starts with one broadcast RREQ for the destination, with a new
  identifier, a new sequence number and no hops; it is remembered as not repeated yet, and one
  timer more is running.
\<close>

theorem sendRREQ_searches:
  assumes "reach node_init_noack node_step s" "12 \<le> malloc_usable (env s) 4"
    and "dst \<noteq> g_my_ip s" "expandingRingSearch s"
  shows "\<exists>s' q ttl. sendRREQ dst f s = Inr ((), s')
    \<and> rq_type q = AODV_RREQ \<and> rq_dest_ip q = dst \<and> rq_src_ip q = g_my_ip s \<and> rq_hop_cnt q = 0
    \<and> rq_rreq_id q = rreqId s + 1 \<and> rq_src_seq_num q = localSeqNum s + 1 \<and> rq_G q = (f = 1) \<and> 1 \<le> ttl
    \<and> sent s' = sent s @ [Sendto BROADCAST_ADDR (RREQ_bytes q)]
    \<and> rreq_list s' = rreq_list s @ [\<lparr>pe_rreqOb = q, pe_retries = 0, pe_ttl = ttl\<rparr>]
    \<and> length (timerQ s') = Suc (length (timerQ s))"
proof -
  from runsD [OF runs_sendRREQ safe_wf_reach [OF assms(1,2)], of dst f] obtain s' where
    s': "sendRREQ dst f s = Inr ((), s')" by auto
  from sendRREQ_result [OF s' assms(3,4)] s' show ?thesis by blast
qed

theorem sendRREQ_searches_witness:
  "\<exists>s' q. sendRREQ 9 0 heard = Inr ((), s') \<and> rq_dest_ip q = 9 \<and> rq_rreq_id q = 1
    \<and> sent s' = sent heard @ [Sendto BROADCAST_ADDR (RREQ_bytes q)]"
  using sendRREQ_searches [OF reach_noack_heard safe_heard(2), of 9 0]
  by (auto simp: heard_def state_fields)

text \<open>
  When the timer of a search runs out, the RREQ is broadcast again with a new identifier
  and a new sequence number and a new timer, or, after \<open>RREQ_RETRIES\<close> repetitions, the search is
  forgotten and the agent told that there is no route.
\<close>

theorem resendRREQ_repeats_or_gives_up:
  assumes "reach node_init_noack node_step s" "12 \<le> malloc_usable (env s) 4" "expandingRingSearch s"
    and "rreqPendingList_inList (rreq_list s) (td_data d) = Some e"
  shows "\<exists>s'. resendRREQ d s = Inr ((), s') \<and> (let e' = next_try True e in
    if pe_retries e' > RREQ_RETRIES then
      rreq_list s' = rreqPendingList_deleteFromList (td_data d) (rreq_list s) \<and> timerQ s' = timerQ s
      \<and> outs s' = outs s @ [La_send (LAMessage_generate_stream \<lparr>la_cmd = LA_ODS_REPLY,
          la_dst_address = td_data d, la_src_address = 0, la_protocol = 0, la_result = IP_NOFOUND\<rparr>)]
    else \<exists>q. rq_dest_ip q = td_data d \<and> rq_rreq_id q = rreqId s + 1 \<and> rq_src_seq_num q = localSeqNum s + 1
      \<and> sent s' = sent s @ [Sendto BROADCAST_ADDR (RREQ_bytes q)]
      \<and> rreqPendingList_inList (rreq_list s') (td_data d) = Some (e'\<lparr>pe_rreqOb := q\<rparr>)
      \<and> length (timerQ s') = Suc (length (timerQ s)))"
proof -
  from runsD [OF runs_resendRREQ safe_wf_reach [OF assms(1,2)], of d] obtain s' where
    s': "resendRREQ d s = Inr ((), s')" by auto
  have "e \<in> set (rreq_list s)" using assms(4) by (auto dest: rreqPendingList_inList_Some)
  with pending_inv.holds [OF reach_of_noack [OF assms(1)]] have "ttl_ok s (pe_ttl e)"
    by (auto simp: pending_ok_def)
  from ttl_ok_next_try [OF this] assms(3) have "pe_ttl (next_try (expandingRingSearch s) e) \<noteq> 0"
    by (auto simp: ttl_ok_def)
  from resendRREQ_result [OF s' assms(4) this] s' assms(3) show ?thesis by auto
qed

theorem resendRREQ_repeats_or_gives_up_witness:
  "\<exists>s' q. resendRREQ \<lparr>td_type = RREQ_TIMER, td_data = 9\<rparr> asking = Inr ((), s')
    \<and> sent s' = sent asking @ [Sendto BROADCAST_ADDR (RREQ_bytes q)] \<and> rq_rreq_id q = 2
    \<and> map_option pe_ttl (rreqPendingList_inList (rreq_list s') 9) = Some 3"
  using resendRREQ_repeats_or_gives_up [OF reach_noack_asking safe_asking,
      of "\<lparr>td_type = RREQ_TIMER, td_data = 9\<rparr>" "\<lparr>pe_rreqOb = own_rreq, pe_retries = 0, pe_ttl = 1\<rparr>"]
  by (force simp: asking_def heard_def state_fields own_rreq_def next_try_def param_values Let_def)

text \<open>
  With either setting of the ring search, five timeouts in a row end the search: the times
  to live 3 and 5, then the whole network, three repetitions counted at the least.
\<close>

theorem five_timeouts_end_search:
  assumes "1 \<le> pe_ttl e" "pe_retries e = 0"
  shows "pe_retries ((next_try ring ^^ 5) e) > RREQ_RETRIES"
  using assms by (rule retry_bound)

theorem five_timeouts_end_search_witness:
  "pe_retries ((next_try True ^^ 5) \<lparr>pe_rreqOb = own_rreq, pe_retries = 0, pe_ttl = 1\<rparr>) > RREQ_RETRIES"
  using five_timeouts_end_search [of "\<lparr>pe_rreqOb = own_rreq, pe_retries = 0, pe_ttl = 1\<rparr>" True] by simp

section \<open>Requests of the agent and received datagrams\<close>

text \<open>
  A request for a destination with an active route that has not expired is answered at
  once: \<open>IP_FOUND\<close> for the destination goes to the agent, and nothing else changes.
\<close>

theorem process_asl_answers_known:
  assumes "\<not> duringReboot s"
    and "\<exists>e. map_of (rTableMap s) (ri_dst_ip i) = Some e \<and> rt_lifetime e > clock (env s) (ticks s)
         \<and> rt_routing_flags e = ACTIVE_ROUTE"
  shows "process_asl i s = Inr ((), s\<lparr>ticks := Suc (ticks s), outs := outs s @ [La_send
    (LAMessage_generate_stream \<lparr>la_cmd = LA_ODS_REPLY, la_dst_address = ri_dst_ip i, la_src_address = 0,
       la_protocol = 0, la_result = IP_FOUND\<rparr>)]\<rparr>)"
  using process_asl_found [OF assms(1), of i] assms(2) by (simp add: active_at_def tock_def)

theorem process_asl_answers_known_witness:
  "\<exists>s'. process_asl \<lparr>ri_dst_ip = 2, ri_src_ip = 1, ri_protocol = 17\<rparr> heard = Inr ((), s')
    \<and> rreq_list s' = [] \<and> length (outs s') = 9"
  using process_asl_answers_known [of heard "\<lparr>ri_dst_ip = 2, ri_src_ip = 1, ri_protocol = 17\<rparr>"]
  by (simp add: heard_def state_fields word_less_nat_alt)

text \<open>
  A request to forward a packet to a destination without such a route, and not under local
  repair, is refused: \<open>IP_NOFOUND\<close> goes to the agent, and a RERR for the destination is
  generated, broadcast when the destination is unknown.
\<close>

theorem process_asl_refuses_transit:
  assumes "reach node_init_noack node_step s" "12 \<le> malloc_usable (env s) 4" "\<not> duringReboot s"
    and "\<not> (\<exists>e. map_of (rTableMap s) (ri_dst_ip i) = Some e \<and> rt_lifetime e > clock (env s) (ticks s)
         \<and> rt_routing_flags e = ACTIVE_ROUTE)"
    and "ri_src_ip i \<noteq> g_my_ip s" "ri_dst_ip i \<notin> lr_dest_ip ` set (local_repair_list s)"
  shows "\<exists>s'. process_asl i s = Inr ((), s') \<and> rTableMap s' = rTableMap s \<and> rreq_list s' = rreq_list s
    \<and> (map_of (rTableMap s) (ri_dst_ip i) = None \<longrightarrow>
        sent s' = sent s @ [Sendto BROADCAST_ADDR
          (RERR_bytes (RERR_setUnrchDest (ri_dst_ip i) 0 (RERR_setDestCnt 1 RERR_new)))])
    \<and> La_send (LAMessage_generate_stream \<lparr>la_cmd = LA_ODS_REPLY, la_dst_address = ri_dst_ip i,
        la_src_address = 0, la_protocol = 0, la_result = IP_NOFOUND\<rparr>) \<in> set (outs s')"
proof -
  let ?s = "(tock s)\<lparr>outs := outs s @ [reply_effect (ri_dst_ip i) IP_NOFOUND]\<rparr>"
  from runsD [OF runs_process_asl safe_wf_reach [OF assms(1,2)], of i] obtain s' where
    s': "process_asl i s = Inr ((), s')" by auto
  with process_asl_transit_refused [of s i] assms(3-6)
  have gen: "generateRERR (ri_dst_ip i) 0 (map_of (rTableMap s) (ri_dst_ip i) = None) ?s = Inr ((), s')"
    by (simp add: active_at_def)
  have "\<exists>more. outs s' = outs ?s @ more"
    by (rule history.via_keeps [OF via_generateRERR [of 0 always] TrueI _ gen]) simp
  with generateRERR_result [OF gen] s' show ?thesis by (auto simp: tock_def sent_def)
qed

theorem process_asl_refuses_transit_witness:
  "\<exists>s'. process_asl \<lparr>ri_dst_ip = 9, ri_src_ip = 3, ri_protocol = 17\<rparr> heard = Inr ((), s')
    \<and> sent s' = sent heard @ [Sendto BROADCAST_ADDR
          (RERR_bytes (RERR_setUnrchDest 9 0 (RERR_setDestCnt 1 RERR_new)))]"
  using process_asl_refuses_transit [OF reach_noack_heard safe_heard(2),
      of "\<lparr>ri_dst_ip = 9, ri_src_ip = 3, ri_protocol = 17\<rparr>"]
  by (auto simp: heard_def state_fields)

text \<open>
  C24. In every reached state of a daemon without the RREP-ACK option, on a machine whose
  allocator gives the 12 bytes of a RERR, whatever the agent sends is processed to its end.
\<close>

theorem agent_requests_return:
  assumes "reach node_init_noack node_step s" "12 \<le> malloc_usable (env s) 4"
  shows "\<exists>s'. recv_la_data b s = Inr ((), s')"
  using runsD [OF runs_recv_la_data safe_wf_reach [OF assms], of b] by auto

theorem agent_requests_return_witness: "\<exists>s'. recv_la_data (LAMessage_generate_stream request) heard = Inr ((), s')"
  by (rule agent_requests_return [OF reach_noack_heard safe_heard(2)])

text \<open>
  C25. A daemon started without the RREP-ACK option, on a machine whose \<open>malloc (4)\<close> gives at least the 12 bytes that
  the code writes, processes whatever the socket delivers to its end, a datagram of any length and content, an
  empty one, after which it processes the message in its buffer again, or an error, unless the message
  that it processes is a RERR. (For the fault that a RERR can cause see
  \<open>createNewRERR_single_precursor_faults\<close>.)
\<close>

theorem datagrams_return:
  assumes "reach node_init_noack node_step s" "12 \<le> malloc_usable (env s) 4"
    and "received_type r s \<noteq> AODV_RERR"
  shows "\<exists>s'. process_aodv r s = Inr ((), s')"
  by (rule datagram_returns [OF safe_wf_reach [OF assms(1,2)] assms(3)])

theorem datagrams_return_witness:
  "(\<exists>s'. process_aodv (Datagram 7 [1] (Some [Cmsg_TTL 64]) 0) heard = Inr ((), s'))
   \<and> (\<exists>s'. process_aodv (Datagram 7 [] None 0) heard = Inr ((), s'))"
proof -
  have "received_type (Datagram 7 [] None 0) heard \<noteq> AODV_RERR"
    by (simp add: heard_def RREP_bytes_def RREP_new_def write_buf_def Let_def)
  from datagrams_return [OF reach_noack_heard safe_heard(2) this]
    datagrams_return [OF reach_noack_heard safe_heard(2), of "Datagram 7 [1] (Some [Cmsg_TTL 64]) 0"]
  show ?thesis by simp
qed

text \<open>
  C26. With the RREP-ACK option and a node on the blacklist, an RREQ from any other node never
  finishes: the search of the list does not get past its first entry.
\<close>

theorem blacklisted_node_blocks_RREQs:
  assumes "bList s = e # l" "be_dest_ip e \<noteq> prevHop"
  shows "RREQ_recvRREQ prevHop q s = Inl Diverges"
  using assms by (simp add: recvRREQ_run blacklist_inList_eq)

theorem blacklisted_node_blocks_RREQs_witness:
  "RREQ_recvRREQ 3 own_rreq (heard\<lparr>bList := [\<lparr>be_dest_ip = 2, be_lifetime = 0\<rparr>]\<rparr>) = Inl Diverges"
  using blacklisted_node_blocks_RREQs [of "heard\<lparr>bList := [\<lparr>be_dest_ip = 2, be_lifetime = 0\<rparr>]\<rparr>"] by simp

section \<open>Timers, the refresh and the end of the reboot phase\<close>

text \<open>
  A new timer that is the earliest of the queue becomes its head, but the interval timer
  is armed for it only when the two clock readings of \<open>set_timer\<close> show the same millisecond;
  otherwise the arming is lost.
\<close>

theorem set_timer_arms_earliest:
  assumes "\<forall>u \<in> set (timerQ s). clock (env s) (ticks s) + v \<le> tm_timeout u"
  shows "\<exists>s' t. set_timer v h d s = Inr ((), s') \<and> timerQ s' = t # timerQ s
    \<and> tm_timeout t = clock (env s) (ticks s) + v \<and> tm_handler t = h \<and> tm_data t = d
    \<and> outs s' = (if clock (env s) (Suc (ticks s)) = clock (env s) (ticks s)
         then outs s @ [Setitimer (v div 1000) ((v - v div 1000 * 1000) * 1000)] else outs s)"
proof -
  have "timer_insert t (timerQ s) = t # timerQ s" if "tm_timeout t = clock (env s) (ticks s) + v" for t
    using assms that by (cases "timerQ s") auto
  then show ?thesis by (auto simp: set_timer_run setRealTimer_def emit_def sm_simps Let_def)
qed

theorem set_timer_arms_earliest_witness:
  "let s = blank\<lparr>env := (quiet_env 0)\<lparr>clock := of_nat\<rparr>\<rparr>; d = \<lparr>td_type = PERIODIC_TIMER, td_data = 0\<rparr> in
   \<exists>s'. set_timer 1000 PeriodicHandler d s = Inr ((), s') \<and> length (timerQ s') = 1 \<and> outs s' = []"
  using set_timer_arms_earliest [of "blank\<lparr>env := (quiet_env 0)\<lparr>clock := of_nat\<rparr>\<rparr>" 1000 PeriodicHandler
      "\<lparr>td_type = PERIODIC_TIMER, td_data = 0\<rparr>"]
  by (auto simp: blank_fields Let_def)

text \<open>
  The refresh of the routing table never ends a local repair: the entry's flag is
  overwritten before it is tested, so that the list of repairs is the same afterwards.
\<close>

theorem refreshEntries_keeps_repairs:
  assumes "refreshEntries s = Inr (x, s')"
  shows "local_repair_list s' = local_repair_list s"
  using keeps_repairs_refresh assms by (rule keeps_unchanged)

theorem refreshEntries_keeps_repairs_witness:
  "\<exists>s'. refreshEntries (heard\<lparr>env := quiet_env 30000, local_repair_list := [\<lparr>lr_dest_ip = 2\<rparr>],
       rTableMap := om_modify 2 (\<lambda>e. e\<lparr>rt_routing_flags := BROKEN_ROUTE\<rparr>) (rTableMap heard)\<rparr>) = Inr ((), s')
     \<and> local_repair_list s' = [\<lparr>lr_dest_ip = 2\<rparr>]
     \<and> map_option rt_routing_flags (map_of (rTableMap s') 2) = Some INVALID_ROUTE"
proof -
  let ?s = "heard\<lparr>env := quiet_env 30000, local_repair_list := [\<lparr>lr_dest_ip = 2\<rparr>],
       rTableMap := om_modify 2 (\<lambda>e. e\<lparr>rt_routing_flags := BROKEN_ROUTE\<rparr>) (rTableMap heard)\<rparr>"
  have "\<exists>s'. refreshEntries ?s = Inr ((), s')
      \<and> map_option rt_routing_flags (map_of (rTableMap s') 2) = Some INVALID_ROUTE"
    by (simp add: alarm_run heard_def word_le_nat_alt word_less_nat_alt)
  then obtain s' where s': "refreshEntries ?s = Inr ((), s')"
    "map_option rt_routing_flags (map_of (rTableMap s') 2) = Some INVALID_ROUTE" by blast
  from refreshEntries_keeps_repairs [OF s'(1)] s' show ?thesis by auto
qed

text \<open>
  At the end of the reboot phase the kernel gets the host route of every active entry, in
  the order of the destinations, and nothing else.
\<close>

theorem addAllValidRoutes_installs_active:
  "addAllValidRoutes s = Inr ((), s\<lparr>outs := outs s @
     map (\<lambda>(k, e). Add_route (rt_dest_ip e) 32 (rt_next_hop e) (ifindex (env s)) 100 0)
       (filter (\<lambda>(k, e). rt_routing_flags e = ACTIVE_ROUTE) (rTableMap s))\<rparr>)"
proof -
  have "forM m (\<lambda>(k, e). whenM (rt_routing_flags e = ACTIVE_ROUTE) (add_kroute e)) s = Inr ((), s\<lparr>outs := outs s @
     map (\<lambda>(k, e). Add_route (rt_dest_ip e) 32 (rt_next_hop e) (ifindex (env s)) 100 0)
       (filter (\<lambda>(k, e). rt_routing_flags e = ACTIVE_ROUTE) m)\<rparr>)" for m s
    by (induction m arbitrary: s) (auto simp: sm_simps add_kroute_def emit_def)
  then show ?thesis by (simp add: addAllValidRoutes_def sm_simps)
qed

end
